(* ===== verification/Silc_Prelude.thy ===== *)
theory Silc_Prelude
  imports Main "HOL-Library.Word"
begin

unbundle bit_operations_syntax

text \<open>
  Shared vocabulary of the development: the C integer types of \<open>lib/silcutil/silctypes.h\<close>,
  the 32-bit unsigned arithmetic the sources do on lengths, the byte-order macros
  \<open>SILC_GET*\<close> and \<open>SILC_PUT*\<close>, the size check of the allocator wrappers of
  \<open>lib/silcutil/silcmemory.c\<close>, and the list and word lemmas the component theories use.

  Protocol fields are machine words. Lengths, offsets and counts are natural numbers, and each
  place where the C code truncates or wraps them is written out with \<open>mod\<close>.
\<close>

section \<open>Types\<close>

type_synonym byte = "8 word"
type_synonym bytes = "byte list"
type_synonym u16 = "16 word"
type_synonym u32 = "32 word"
type_synonym u64 = "64 word"

text \<open>
  The content of memory the C allocator does not initialise: a byte for every offset. It is an
  argument of every definition that reads fresh memory, and the theorems hold for all of them.
\<close>

type_synonym junk = "nat \<Rightarrow> byte"

named_theorems silc_bytes \<open>byte-order macros: lengths and inverses\<close>
named_theorems silc_arith \<open>32-bit unsigned arithmetic on lengths\<close>
named_theorems silc_alloc \<open>the allocator's size check\<close>

section \<open>Unsigned 32-bit arithmetic on lengths\<close>

definition u32_max :: nat where
  "u32_max = 4294967296"

definition add32 :: "nat \<Rightarrow> nat \<Rightarrow> nat" where
  "add32 a b = (a + b) mod u32_max"

definition sub32 :: "nat \<Rightarrow> nat \<Rightarrow> nat" where
  "sub32 a b = nat ((int a - int b) mod int u32_max)"

definition cast16 :: "nat \<Rightarrow> nat" where
  "cast16 a = a mod 65536"

definition cast32 :: "int \<Rightarrow> nat" where
  "cast32 a = nat (a mod int u32_max)"

lemma add32_exact [silc_arith]: "a + b < u32_max \<Longrightarrow> add32 a b = a + b"
  by (simp add: add32_def)

lemma add32_one: "n < u32_max \<Longrightarrow> add32 n 1 = (if n + 1 < u32_max then n + 1 else 0)"
  by (cases "n + 1 < u32_max") (auto simp: add32_def not_less dest: le_antisym [OF Suc_leI])

lemma add32_less [simp]: "add32 a b < u32_max"
  by (simp add: add32_def u32_max_def)

lemma sub32_exact [silc_arith]:
  assumes "b \<le> a" and "a < u32_max"
  shows "sub32 a b = a - b"
proof -
  have "(int a - int b) mod int u32_max = int a - int b"
    using assms by (intro mod_pos_pos_trivial) auto
  then show ?thesis
    using assms(1) by (simp add: sub32_def nat_diff_distrib)
qed

lemma sub32_less [simp]: "sub32 a b < u32_max"
proof -
  have "(int a - int b) mod int u32_max < int u32_max"
    by (simp add: u32_max_def)
  then show ?thesis
    unfolding sub32_def by (simp add: nat_less_iff u32_max_def)
qed

lemma cast32_exact [silc_arith]: "n < u32_max \<Longrightarrow> cast32 (int n) = n"
  by (simp add: cast32_def)

lemma cast16_exact [silc_arith]: "a < 65536 \<Longrightarrow> cast16 a = a"
  by (simp add: cast16_def)

lemma cast16_less [simp]: "cast16 a < 65536"
  by (simp add: cast16_def)

lemma unat_byte_less [simp]: "unat (b :: byte) < 256"
  using unsigned_less [of b] by simp

lemma unat_u16_less [simp]: "unat (w :: u16) < 65536"
  using unsigned_less [of w] by simp

lemma unat_u32_less [simp]: "unat (w :: u32) < 4294967296"
  using unsigned_less [of w] by simp

lemma unat_u32_less_max [simp]: "unat (w :: u32) < u32_max"
  by (simp add: u32_max_def)

lemma unat_less_bound [simp]:
  "256 \<le> n \<Longrightarrow> unat (b :: byte) < n" "65536 \<le> n \<Longrightarrow> unat (w :: u16) < n"
  "4294967296 \<le> n \<Longrightarrow> unat (v :: u32) < n"
  using unat_byte_less [of b] unat_u16_less [of w] unat_u32_less [of v] by linarith+

lemma unat_of_nat_u16 [simp]: "unat (of_nat n :: u16) = n mod 65536"
  by (simp add: unat_of_nat)

lemma unat_of_nat_byte [simp]: "unat (of_nat n :: byte) = n mod 256"
  by (simp add: unat_of_nat)

lemma unat_of_nat_u32 [simp]: "unat (of_nat n :: u32) = n mod 4294967296"
  by (simp add: unat_of_nat)

lemma of_nat_u16_eq_0: "n < 65536 \<Longrightarrow> (of_nat n = (0 :: u16)) = (n = 0)"
proof
  assume "n < 65536" and "of_nat n = (0 :: u16)"
  then show "n = 0" using unat_of_nat_u16 [of n] by simp
qed simp

lemma of_nat_byte_eq_0: "n < 256 \<Longrightarrow> (of_nat n = (0 :: byte)) = (n = 0)"
proof
  assume "n < 256" and "of_nat n = (0 :: byte)"
  then show "n = 0" using unat_of_nat_byte [of n] by simp
qed simp

lemma unat_ucast_u32_u16 [simp]: "unat (ucast (w :: u32) :: u16) = unat w mod 65536"
  by (simp add: unsigned_ucast_eq take_bit_eq_mod del: unat_byte_less unat_u16_less)

lemma unat_ucast_byte_u32 [simp]: "unat (ucast (w :: byte) :: u32) = unat w"
  using unat_byte_less [of w] by (simp add: unsigned_ucast_eq take_bit_eq_mod del: unat_byte_less unat_u16_less)

lemma unat_ucast_u16_u32 [simp]: "unat (ucast (w :: u16) :: u32) = unat w"
  using unat_u16_less [of w] by (simp add: unsigned_ucast_eq take_bit_eq_mod del: unat_byte_less unat_u16_less)

lemma ucast_narrow_widen [simp]:
  "ucast (ucast (l :: u16) :: u32) = l" "ucast (ucast (b :: byte) :: u32) = b"
  "ucast (ucast (b :: byte) :: u16) = b"
  by (rule bit_word_eqI, auto simp: bit_simps)+

lemma ucast_of_nat_u32 [simp]:
  "(ucast (of_nat n :: u32) :: u16) = of_nat n" "(ucast (of_nat n :: u32) :: byte) = of_nat n"
  by (simp_all add: word_unat_eq_iff unsigned_ucast_eq take_bit_eq_mod mod_mod_cancel)

section \<open>Byte order\<close>

definition SILC_GET16_MSB :: "bytes \<Rightarrow> u16" where
  "SILC_GET16_MSB cp = push_bit 8 (ucast (cp ! 0)) OR ucast (cp ! 1)"

definition SILC_GET32_MSB :: "bytes \<Rightarrow> u32" where
  "SILC_GET32_MSB cp =
     push_bit 24 (ucast (cp ! 0)) OR push_bit 16 (ucast (cp ! 1))
     OR push_bit 8 (ucast (cp ! 2)) OR ucast (cp ! 3)"

definition SILC_GET64_MSB :: "bytes \<Rightarrow> u64" where
  "SILC_GET64_MSB cp =
     push_bit 32 (ucast (SILC_GET32_MSB cp)) OR ucast (SILC_GET32_MSB (drop 4 cp))"

definition SILC_GET16_LSB :: "bytes \<Rightarrow> u16" where
  "SILC_GET16_LSB cp = ucast (cp ! 0) OR push_bit 8 (ucast (cp ! 1))"

definition SILC_GET32_LSB :: "bytes \<Rightarrow> u32" where
  "SILC_GET32_LSB cp =
     ucast (cp ! 0) OR push_bit 8 (ucast (cp ! 1))
     OR push_bit 16 (ucast (cp ! 2)) OR push_bit 24 (ucast (cp ! 3))"

definition SILC_PUT16_MSB :: "u16 \<Rightarrow> bytes" where
  "SILC_PUT16_MSB l = [ucast (drop_bit 8 l), ucast l]"

definition SILC_PUT32_MSB :: "u32 \<Rightarrow> bytes" where
  "SILC_PUT32_MSB l = [ucast (drop_bit 24 l), ucast (drop_bit 16 l), ucast (drop_bit 8 l), ucast l]"

definition SILC_PUT64_MSB :: "u64 \<Rightarrow> bytes" where
  "SILC_PUT64_MSB l = SILC_PUT32_MSB (ucast (drop_bit 32 l)) @ SILC_PUT32_MSB (ucast l)"

definition SILC_PUT16_LSB :: "u16 \<Rightarrow> bytes" where
  "SILC_PUT16_LSB l = [ucast l, ucast (drop_bit 8 l)]"

definition SILC_PUT32_LSB :: "u32 \<Rightarrow> bytes" where
  "SILC_PUT32_LSB l = [ucast l, ucast (drop_bit 8 l), ucast (drop_bit 16 l), ucast (drop_bit 24 l)]"

lemma length_PUT [simp, silc_bytes]:
  "length (SILC_PUT16_MSB l) = 2" "length (SILC_PUT32_MSB m) = 4" "length (SILC_PUT64_MSB n) = 8"
  "length (SILC_PUT16_LSB l) = 2" "length (SILC_PUT32_LSB m) = 4"
  by (simp_all add: SILC_PUT16_MSB_def SILC_PUT32_MSB_def SILC_PUT64_MSB_def
      SILC_PUT16_LSB_def SILC_PUT32_LSB_def)

lemma four_bytes_cases:
  fixes n :: nat
  obtains "n < 8" | "8 \<le> n" "n < 16" | "16 \<le> n" "n < 24" | "24 \<le> n"
  by linarith

lemma bit_byte_out [simp]: "8 \<le> n \<Longrightarrow> \<not> bit (b :: byte) n"
  using bit_imp_le_length [of b n] by auto

lemma GET16_PUT16_MSB [simp, silc_bytes]: "SILC_GET16_MSB (SILC_PUT16_MSB l @ xs) = l"
  unfolding SILC_GET16_MSB_def SILC_PUT16_MSB_def
  by (rule bit_word_eqI) (auto simp: bit_simps)

lemma GET32_PUT32_MSB [simp, silc_bytes]: "SILC_GET32_MSB (SILC_PUT32_MSB l @ xs) = l"
  unfolding SILC_GET32_MSB_def SILC_PUT32_MSB_def
  apply (rule bit_word_eqI)
  subgoal for n by (cases n rule: four_bytes_cases) (auto simp: bit_simps)
  done

lemma GET64_PUT64_MSB [simp, silc_bytes]: "SILC_GET64_MSB (SILC_PUT64_MSB l @ xs) = l"
  unfolding SILC_GET64_MSB_def SILC_PUT64_MSB_def
  by (rule bit_word_eqI) (auto simp: bit_simps)

lemma GET16_PUT16_LSB [simp, silc_bytes]: "SILC_GET16_LSB (SILC_PUT16_LSB l @ xs) = l"
  unfolding SILC_GET16_LSB_def SILC_PUT16_LSB_def
  by (rule bit_word_eqI) (auto simp: bit_simps)

lemma GET32_PUT32_LSB [simp, silc_bytes]: "SILC_GET32_LSB (SILC_PUT32_LSB l @ xs) = l"
  unfolding SILC_GET32_LSB_def SILC_PUT32_LSB_def
  apply (rule bit_word_eqI)
  subgoal for n by (cases n rule: four_bytes_cases) (auto simp: bit_simps)
  done

lemmas GET_PUT_exact [simp, silc_bytes] =
  GET16_PUT16_MSB [of _ "[]", simplified] GET32_PUT32_MSB [of _ "[]", simplified]
  GET64_PUT64_MSB [of _ "[]", simplified] GET16_PUT16_LSB [of _ "[]", simplified]
  GET32_PUT32_LSB [of _ "[]", simplified]

lemma PUT16_GET16_MSB [silc_bytes]: "SILC_PUT16_MSB (SILC_GET16_MSB (a # b # xs)) = [a, b]"
  unfolding SILC_GET16_MSB_def SILC_PUT16_MSB_def
  by (auto intro!: bit_word_eqI simp: bit_simps)

lemma PUT32_GET32_MSB [silc_bytes]:
  "SILC_PUT32_MSB (SILC_GET32_MSB (a # b # c # d # xs)) = [a, b, c, d]"
  unfolding SILC_GET32_MSB_def SILC_PUT32_MSB_def
  by (auto intro!: bit_word_eqI simp: bit_simps)

section \<open>The allocator wrappers\<close>

text \<open>
  \<open>silc_malloc\<close>, \<open>silc_calloc\<close> and \<open>silc_realloc\<close> refuse a request of size zero or of
  \<open>SILC_MAX_ALLOC\<close> bytes and more; the system allocator behind them is taken to have memory.
\<close>

definition SILC_MAX_ALLOC :: nat where
  "SILC_MAX_ALLOC = 1024 * 1024 * 1024"

definition silc_malloc :: "junk \<Rightarrow> nat \<Rightarrow> bytes option" where
  "silc_malloc J sz =
     (if sz = 0 \<or> SILC_MAX_ALLOC \<le> sz then None else Some (map J [0..<sz]))"

definition silc_calloc :: "nat \<Rightarrow> nat \<Rightarrow> bytes option" where
  "silc_calloc items sz =
     (if sz * items = 0 \<or> SILC_MAX_ALLOC \<le> sz * items then None
      else Some (replicate (sz * items) 0))"

definition silc_realloc :: "junk \<Rightarrow> bytes \<Rightarrow> nat \<Rightarrow> bytes option" where
  "silc_realloc J ptr sz =
     (if sz = 0 \<or> SILC_MAX_ALLOC \<le> sz then None
      else Some (take sz ptr @ map J [length ptr..<sz]))"

text \<open>\<open>silc_memdup\<close> appends a zero byte the callers do not count; the model keeps the counted bytes.\<close>

definition silc_memdup :: "bytes \<Rightarrow> bytes option" where
  "silc_memdup ptr = (if SILC_MAX_ALLOC \<le> length ptr + 1 then None else Some ptr)"

lemma silc_calloc_Some [silc_alloc]:
  "0 < n \<Longrightarrow> n < SILC_MAX_ALLOC \<Longrightarrow> silc_calloc n 1 = Some (replicate n 0)"
  by (simp add: silc_calloc_def)

lemma silc_calloc_zero [simp]: "silc_calloc 0 n = None" "silc_calloc n 0 = None"
  by (simp_all add: silc_calloc_def)

lemma silc_realloc_Some [silc_alloc]:
  "length p < n \<Longrightarrow> n < SILC_MAX_ALLOC \<Longrightarrow> silc_realloc J p n = Some (p @ map J [length p..<n])"
  by (simp add: silc_realloc_def)

lemma silc_realloc_None: "SILC_MAX_ALLOC \<le> n \<Longrightarrow> silc_realloc J p n = None"
  by (simp add: silc_realloc_def)

lemma silc_memdup_Some [silc_alloc]:
  "length p + 1 < SILC_MAX_ALLOC \<Longrightarrow> silc_memdup p = Some p"
  by (simp add: silc_memdup_def)

lemma max_alloc_less_u32 [silc_alloc]: "n < SILC_MAX_ALLOC \<Longrightarrow> n < u32_max"
  by (simp add: SILC_MAX_ALLOC_def u32_max_def)

section \<open>Results that may fail\<close>

text \<open>A C function with \<open>goto fail\<close>: \<open>Inl\<close> is the state at the failure, \<open>Inr\<close> goes on.\<close>

fun andthen :: "'e + 'a \<Rightarrow> ('a \<Rightarrow> 'e + 'b) \<Rightarrow> 'e + 'b" where
  "andthen (Inl e) f = Inl e"
| "andthen (Inr x) f = f x"

lemma andthen_Inr_conv: "andthen r f = Inr y \<longleftrightarrow> (\<exists>x. r = Inr x \<and> f x = Inr y)"
  by (cases r) auto

section \<open>Overwriting part of a byte list\<close>

text \<open>\<open>memcpy (mem + off, src, length src)\<close>, for a destination that has room.\<close>

definition memcpy :: "bytes \<Rightarrow> nat \<Rightarrow> bytes \<Rightarrow> bytes" where
  "memcpy mem off src = take off mem @ src @ drop (off + length src) mem"

lemma length_memcpy [simp]: "off + length src \<le> length mem \<Longrightarrow> length (memcpy mem off src) = length mem"
  by (simp add: memcpy_def)

lemma memcpy_Nil [simp]: "memcpy mem off [] = mem"
  by (simp add: memcpy_def)

lemma take_memcpy: "off \<le> length mem \<Longrightarrow> take off (memcpy mem off src) = take off mem"
  by (simp add: memcpy_def)

lemma drop_memcpy:
  "off \<le> length mem \<Longrightarrow> drop (off + length src) (memcpy mem off src) = drop (off + length src) mem"
  by (simp add: memcpy_def)

lemma memcpy_memcpy_adjacent:
  assumes "off + length s + length t \<le> length mem"
  shows "memcpy (memcpy mem off s) (off + length s) t = memcpy mem off (s @ t)"
  using assms by (simp add: memcpy_def add.assoc add.commute add.left_commute)

lemma memcpy_append_left:
  "off + length s \<le> length m \<Longrightarrow> memcpy (m @ m') off s = memcpy m off s @ m'"
  by (simp add: memcpy_def)

text \<open>The bytes behind a pointer that may be NULL.\<close>

definition opt_bytes :: "bytes option \<Rightarrow> bytes" where
  "opt_bytes p = (case p of None \<Rightarrow> [] | Some d \<Rightarrow> d)"

end
