(* ===== verification/Silc_Buffer.thy ===== *)
theory Silc_Buffer
  imports Silc_Prelude
begin

text \<open>
  \<open>lib/silcutil/silcbuffer.h\<close>: a buffer is one allocated area with the pointers
  \<open>head \<le> data \<le> tail \<le> end\<close>. The area is the list \<open>sb_mem\<close> (from \<open>head\<close> to \<open>end\<close>),
  \<open>data\<close> and \<open>tail\<close> are offsets into it. A buffer whose pointers are NULL is the one
  with an empty area. An operation that returns a pointer returns its offset, or \<open>None\<close>
  for NULL; the code's release build is modelled, where a bad length returns NULL.
  The \<open>SilcStack\<close> variants with a stack are not modelled.
\<close>

section \<open>State\<close>

record silc_buffer =
  sb_mem :: bytes
  sb_data :: nat
  sb_tail :: nat

definition silc_buffer_truelen :: "silc_buffer \<Rightarrow> nat" where
  "silc_buffer_truelen x = sub32 (length (sb_mem x)) 0"

definition silc_buffer_len :: "silc_buffer \<Rightarrow> nat" where
  "silc_buffer_len x = sub32 (sb_tail x) (sb_data x)"

definition silc_buffer_headlen :: "silc_buffer \<Rightarrow> nat" where
  "silc_buffer_headlen x = sub32 (sb_data x) 0"

definition silc_buffer_taillen :: "silc_buffer \<Rightarrow> nat" where
  "silc_buffer_taillen x = sub32 (length (sb_mem x)) (sb_tail x)"

section \<open>Operations\<close>

definition silc_buffer_empty :: silc_buffer where
  "silc_buffer_empty = \<lparr>sb_mem = [], sb_data = 0, sb_tail = 0\<rparr>"

definition silc_buffer_alloc :: "nat \<Rightarrow> silc_buffer option" where
  "silc_buffer_alloc len =
     (if len \<noteq> 0 then
        (case silc_calloc len 1 of
           None \<Rightarrow> None
         | Some m \<Rightarrow> Some \<lparr>sb_mem = m, sb_data = 0, sb_tail = 0\<rparr>)
      else Some silc_buffer_empty)"

definition silc_buffer_steal :: "silc_buffer \<Rightarrow> silc_buffer \<times> bytes \<times> nat" where
  "silc_buffer_steal sb = (silc_buffer_empty, sb_mem sb, silc_buffer_truelen sb)"

definition silc_buffer_purge :: "silc_buffer \<Rightarrow> silc_buffer" where
  "silc_buffer_purge sb = fst (silc_buffer_steal sb)"

definition silc_buffer_set :: "bytes \<Rightarrow> silc_buffer" where
  "silc_buffer_set d = \<lparr>sb_mem = d, sb_data = 0, sb_tail = length d\<rparr>"

definition silc_buffer_pull :: "silc_buffer \<Rightarrow> nat \<Rightarrow> silc_buffer \<times> nat option" where
  "silc_buffer_pull sb len =
     (if silc_buffer_len sb < len then (sb, None)
      else (sb\<lparr>sb_data := sb_data sb + len\<rparr>, Some (sb_data sb)))"

definition silc_buffer_push :: "silc_buffer \<Rightarrow> nat \<Rightarrow> silc_buffer \<times> nat option" where
  "silc_buffer_push sb len =
     (if int (sb_data sb) - int len < 0 then (sb, None)
      else (sb\<lparr>sb_data := sb_data sb - len\<rparr>, Some (sb_data sb)))"

definition silc_buffer_pull_tail :: "silc_buffer \<Rightarrow> nat \<Rightarrow> silc_buffer \<times> nat option" where
  "silc_buffer_pull_tail sb len =
     (if silc_buffer_taillen sb < len then (sb, None)
      else (sb\<lparr>sb_tail := sb_tail sb + len\<rparr>, Some (sb_tail sb)))"

definition silc_buffer_push_tail :: "silc_buffer \<Rightarrow> nat \<Rightarrow> silc_buffer \<times> nat option" where
  "silc_buffer_push_tail sb len =
     (if int (sb_tail sb) - int len < int (sb_data sb) then (sb, None)
      else (sb\<lparr>sb_tail := sb_tail sb - len\<rparr>, Some (sb_tail sb)))"

definition silc_buffer_put_head :: "silc_buffer \<Rightarrow> bytes \<Rightarrow> nat \<Rightarrow> silc_buffer \<times> nat option" where
  "silc_buffer_put_head sb d len =
     (if silc_buffer_headlen sb < len then (sb, None)
      else (sb\<lparr>sb_mem := memcpy (sb_mem sb) 0 (take len d)\<rparr>, Some 0))"

definition silc_buffer_put :: "silc_buffer \<Rightarrow> bytes \<Rightarrow> nat \<Rightarrow> silc_buffer \<times> nat option" where
  "silc_buffer_put sb d len =
     (if silc_buffer_len sb < len then (sb, None)
      else (sb\<lparr>sb_mem := memcpy (sb_mem sb) (sb_data sb) (take len d)\<rparr>, Some (sb_data sb)))"

definition silc_buffer_put_tail :: "silc_buffer \<Rightarrow> bytes \<Rightarrow> nat \<Rightarrow> silc_buffer \<times> nat option" where
  "silc_buffer_put_tail sb d len =
     (if silc_buffer_taillen sb < len then (sb, None)
      else (sb\<lparr>sb_mem := memcpy (sb_mem sb) (sb_tail sb) (take len d)\<rparr>, Some (sb_tail sb)))"

definition silc_buffer_alloc_size :: "nat \<Rightarrow> silc_buffer option" where
  "silc_buffer_alloc_size len =
     (case silc_buffer_alloc len of
        None \<Rightarrow> None
      | Some sb \<Rightarrow> Some (fst (silc_buffer_pull_tail sb len)))"

definition silc_buffer_reset :: "silc_buffer \<Rightarrow> silc_buffer" where
  "silc_buffer_reset sb = sb\<lparr>sb_data := 0, sb_tail := 0\<rparr>"

definition silc_buffer_clear :: "silc_buffer \<Rightarrow> silc_buffer" where
  "silc_buffer_clear sb =
     silc_buffer_reset
       (sb\<lparr>sb_mem := memcpy (sb_mem sb) 0 (replicate (silc_buffer_truelen sb) 0)\<rparr>)"

definition silc_buffer_start :: "silc_buffer \<Rightarrow> silc_buffer" where
  "silc_buffer_start sb = sb\<lparr>sb_data := 0\<rparr>"

definition silc_buffer_end :: "silc_buffer \<Rightarrow> silc_buffer" where
  "silc_buffer_end sb = sb\<lparr>sb_tail := length (sb_mem sb)\<rparr>"

definition silc_buffer_copy :: "silc_buffer \<Rightarrow> silc_buffer option" where
  "silc_buffer_copy sb =
     (case silc_buffer_alloc_size (silc_buffer_len sb) of
        None \<Rightarrow> None
      | Some sb_new \<Rightarrow>
          Some (fst (silc_buffer_put sb_new (drop (sb_data sb) (sb_mem sb)) (silc_buffer_len sb))))"

definition silc_buffer_clone :: "silc_buffer \<Rightarrow> silc_buffer option" where
  "silc_buffer_clone sb =
     (case silc_buffer_alloc_size (silc_buffer_truelen sb) of
        None \<Rightarrow> None
      | Some sb_new \<Rightarrow>
          Some ((fst (silc_buffer_put sb_new (sb_mem sb) (silc_buffer_truelen sb)))
            \<lparr>sb_data := silc_buffer_headlen sb,
             sb_tail := silc_buffer_headlen sb + silc_buffer_len sb\<rparr>))"

definition silc_buffer_realloc :: "junk \<Rightarrow> silc_buffer option \<Rightarrow> nat \<Rightarrow> silc_buffer option" where
  "silc_buffer_realloc J sbo newsize =
     (case sbo of
        None \<Rightarrow> silc_buffer_alloc newsize
      | Some sb \<Rightarrow>
          (if newsize \<le> silc_buffer_truelen sb then Some sb
           else
             (case silc_realloc J (sb_mem sb) newsize of
                None \<Rightarrow> None
              | Some h \<Rightarrow>
                  Some \<lparr>sb_mem = h, sb_data = silc_buffer_headlen sb,
                        sb_tail = silc_buffer_headlen sb + silc_buffer_len sb\<rparr>)))"

definition silc_buffer_realloc_size ::
    "junk \<Rightarrow> silc_buffer option \<Rightarrow> nat \<Rightarrow> silc_buffer option" where
  "silc_buffer_realloc_size J sbo newsize =
     (case silc_buffer_realloc J sbo newsize of
        None \<Rightarrow> None
      | Some sb \<Rightarrow> Some (fst (silc_buffer_pull_tail sb (silc_buffer_taillen sb))))"

text \<open>When the reallocation fails the buffer is unchanged and the result is \<open>FALSE\<close>.\<close>

definition silc_buffer_enlarge :: "junk \<Rightarrow> silc_buffer \<Rightarrow> nat \<Rightarrow> silc_buffer \<times> bool" where
  "silc_buffer_enlarge J sb sz =
     (if silc_buffer_len sb < sz then
        (case (if add32 (silc_buffer_taillen sb) (silc_buffer_len sb) < sz
               then silc_buffer_realloc J (Some sb)
                      (add32 (silc_buffer_truelen sb)
                         (sub32 (sub32 sz (silc_buffer_taillen sb)) (silc_buffer_len sb)))
               else Some sb) of
           None \<Rightarrow> (sb, False)
         | Some sb' \<Rightarrow>
             (fst (silc_buffer_pull_tail sb' (sub32 sz (silc_buffer_len sb'))), True))
      else (sb, True))"

section \<open>Well-formed buffers\<close>

definition wf_buffer :: "silc_buffer \<Rightarrow> bool" where
  "wf_buffer sb \<longleftrightarrow>
     sb_data sb \<le> sb_tail sb \<and> sb_tail sb \<le> length (sb_mem sb) \<and> length (sb_mem sb) < u32_max"

text \<open>The bytes between \<open>data\<close> and \<open>tail\<close>: what the buffer holds for a reader.\<close>

definition sb_bytes :: "silc_buffer \<Rightarrow> bytes" where
  "sb_bytes sb = take (sb_tail sb - sb_data sb) (drop (sb_data sb) (sb_mem sb))"

lemma wf_bufferI [intro]:
  "sb_data sb \<le> sb_tail sb \<Longrightarrow> sb_tail sb \<le> length (sb_mem sb) \<Longrightarrow> length (sb_mem sb) < u32_max
   \<Longrightarrow> wf_buffer sb"
  by (simp add: wf_buffer_def)

lemma wf_buffer_lens:
  assumes "wf_buffer sb"
  shows "silc_buffer_truelen sb = length (sb_mem sb)"
    and "silc_buffer_len sb = sb_tail sb - sb_data sb"
    and "silc_buffer_headlen sb = sb_data sb"
    and "silc_buffer_taillen sb = length (sb_mem sb) - sb_tail sb"
  using assms
  by (auto simp: wf_buffer_def silc_buffer_truelen_def silc_buffer_len_def
      silc_buffer_headlen_def silc_buffer_taillen_def silc_arith)

lemma length_sb_bytes: "wf_buffer sb \<Longrightarrow> length (sb_bytes sb) = silc_buffer_len sb"
  by (auto simp: wf_buffer_lens sb_bytes_def wf_buffer_def)

lemma silc_buffer_len_less: "silc_buffer_len sb < u32_max"
  by (simp add: silc_buffer_len_def)

lemma wf_buffer_empty [simp]: "wf_buffer silc_buffer_empty"
  by (simp add: wf_buffer_def silc_buffer_empty_def u32_max_def)

lemma empty_fields [simp]:
  "sb_mem silc_buffer_empty = []" "sb_data silc_buffer_empty = 0" "sb_tail silc_buffer_empty = 0"
  "sb_bytes silc_buffer_empty = []"
  by (simp_all add: silc_buffer_empty_def sb_bytes_def)

lemma wf_buffer_set [simp]: "length d < u32_max \<Longrightarrow> wf_buffer (silc_buffer_set d)"
  by (simp add: wf_buffer_def silc_buffer_set_def)

lemma sb_bytes_set [simp]: "sb_bytes (silc_buffer_set d) = d"
  by (simp add: sb_bytes_def silc_buffer_set_def)

lemma set_fields [simp]:
  "sb_mem (silc_buffer_set d) = d" "sb_data (silc_buffer_set d) = 0"
  "sb_tail (silc_buffer_set d) = length d"
  by (simp_all add: silc_buffer_set_def)

lemma len_set [simp]: "length d < u32_max \<Longrightarrow> silc_buffer_len (silc_buffer_set d) = length d"
  by (simp add: wf_buffer_lens)

lemma pull_ok:
  "n \<le> silc_buffer_len sb \<Longrightarrow>
   silc_buffer_pull sb n = (sb\<lparr>sb_data := sb_data sb + n\<rparr>, Some (sb_data sb))"
  by (simp add: silc_buffer_pull_def)

lemma push_ok:
  "n \<le> sb_data sb \<Longrightarrow>
   silc_buffer_push sb n = (sb\<lparr>sb_data := sb_data sb - n\<rparr>, Some (sb_data sb))"
  by (simp add: silc_buffer_push_def)

lemma sub32_sub:
  assumes "n \<le> sub32 a b"
  shows "sub32 a (b + n) = sub32 a b - n"
proof -
  let ?m = "(int a - int b) mod int u32_max"
  have "0 \<le> ?m" by (simp add: u32_max_def)
  then have n: "int n \<le> ?m" using assms unfolding sub32_def by linarith
  have "(int a - int (b + n)) mod int u32_max = (?m - int n) mod int u32_max"
    by (simp add: mod_diff_left_eq algebra_simps)
  also have "\<dots> = ?m - int n"
    using n by (intro mod_pos_pos_trivial) (auto simp: u32_max_def intro: le_less_trans [of _ ?m])
  finally show ?thesis by (simp add: sub32_def nat_diff_distrib n)
qed

lemma pull_len:
  "n \<le> silc_buffer_len sb \<Longrightarrow> silc_buffer_len (fst (silc_buffer_pull sb n)) = silc_buffer_len sb - n"
  by (simp add: silc_buffer_pull_def silc_buffer_len_def sub32_sub)

lemma wf_pull [simp]: "wf_buffer sb \<Longrightarrow> wf_buffer (fst (silc_buffer_pull sb n))"
  by (auto simp: silc_buffer_pull_def wf_buffer_def silc_buffer_len_def silc_arith)

lemma wf_push [simp]: "wf_buffer sb \<Longrightarrow> wf_buffer (fst (silc_buffer_push sb n))"
  by (auto simp: silc_buffer_push_def wf_buffer_def)

lemma wf_pull_tail [simp]: "wf_buffer sb \<Longrightarrow> wf_buffer (fst (silc_buffer_pull_tail sb n))"
  by (auto simp: silc_buffer_pull_tail_def wf_buffer_def silc_buffer_taillen_def silc_arith)

lemma wf_push_tail [simp]: "wf_buffer sb \<Longrightarrow> wf_buffer (fst (silc_buffer_push_tail sb n))"
  by (auto simp: silc_buffer_push_tail_def wf_buffer_def)

lemma length_memcpy_take:
  "off + n \<le> length mem \<Longrightarrow> length (memcpy mem off (take n d)) = length mem"
  by (simp add: memcpy_def)

lemma wf_put [simp]: "wf_buffer sb \<Longrightarrow> wf_buffer (fst (silc_buffer_put sb d n))"
  using wf_buffer_lens [of sb]
  by (auto simp: silc_buffer_put_def wf_buffer_def length_memcpy_take)

lemma wf_put_head [simp]: "wf_buffer sb \<Longrightarrow> wf_buffer (fst (silc_buffer_put_head sb d n))"
  using wf_buffer_lens [of sb]
  by (auto simp: silc_buffer_put_head_def wf_buffer_def length_memcpy_take)

lemma wf_put_tail [simp]: "wf_buffer sb \<Longrightarrow> wf_buffer (fst (silc_buffer_put_tail sb d n))"
  using wf_buffer_lens [of sb]
  by (auto simp: silc_buffer_put_tail_def wf_buffer_def length_memcpy_take)

lemma sb_bytes_pull:
  assumes "wf_buffer sb" and "n \<le> silc_buffer_len sb"
  shows "sb_bytes (sb\<lparr>sb_data := sb_data sb + n\<rparr>) = drop n (sb_bytes sb)"
  using assms by (simp add: sb_bytes_def drop_take add.commute)

section \<open>Allocation and growth\<close>

lemma alloc_size_Some:
  assumes "n < SILC_MAX_ALLOC"
  shows "silc_buffer_alloc_size n = Some \<lparr>sb_mem = replicate n 0, sb_data = 0, sb_tail = n\<rparr>"
proof (cases "n = 0")
  case True
  then show ?thesis
    by (simp add: silc_buffer_alloc_size_def silc_buffer_alloc_def silc_buffer_empty_def
        silc_buffer_pull_tail_def)
next
  case False
  then have "silc_calloc n 1 = Some (replicate n 0)"
    using assms by (intro silc_calloc_Some) auto
  with False assms show ?thesis
    by (simp add: silc_buffer_alloc_size_def silc_buffer_alloc_def silc_buffer_pull_tail_def
        silc_buffer_taillen_def silc_arith max_alloc_less_u32)
qed

lemma alloc_size_cases:
  "silc_buffer_alloc_size n =
     (if n < SILC_MAX_ALLOC then Some \<lparr>sb_mem = replicate n 0, sb_data = 0, sb_tail = n\<rparr> else None)"
proof (cases "n < SILC_MAX_ALLOC")
  case True
  then show ?thesis by (simp add: alloc_size_Some)
next
  case False
  then show ?thesis
    by (auto simp: silc_buffer_alloc_size_def silc_buffer_alloc_def silc_calloc_def
        SILC_MAX_ALLOC_def)
qed

lemma realloc_grow:
  assumes "wf_buffer sb" and "length (sb_mem sb) < n" and "n < SILC_MAX_ALLOC"
  shows "silc_buffer_realloc J (Some sb) n =
    Some (sb\<lparr>sb_mem := sb_mem sb @ map J [length (sb_mem sb)..<n]\<rparr>)"
  using assms wf_buffer_lens [OF assms(1)]
  by (auto simp: silc_buffer_realloc_def silc_realloc_Some wf_buffer_def)

text \<open>
  Enlarging keeps everything the buffer held: the old area is a prefix of the new one, \<open>data\<close>
  does not move, and afterwards there is room for \<open>sz\<close> bytes at \<open>data\<close>.
\<close>

lemma enlarge_ok:
  assumes wf: "wf_buffer sb" and room: "sb_data sb + sz < SILC_MAX_ALLOC"
  shows "\<exists>m. silc_buffer_enlarge J sb sz =
    (sb\<lparr>sb_mem := sb_mem sb @ m, sb_tail := max (sb_tail sb) (sb_data sb + sz)\<rparr>, True)
    \<and> length (sb_mem sb @ m) = max (length (sb_mem sb)) (sb_data sb + sz)"
proof -
  note lens = wf_buffer_lens [OF wf]
  note wf' = wf [unfolded wf_buffer_def]
  have r32: "sb_data sb + sz < u32_max"
    using room by (rule max_alloc_less_u32)
  have sum: "add32 (silc_buffer_taillen sb) (silc_buffer_len sb) = length (sb_mem sb) - sb_data sb"
    using wf' by (subst add32_exact) (auto simp: lens)
  consider (fits) "sb_data sb + sz \<le> sb_tail sb"
    | (tail) "sb_tail sb < sb_data sb + sz" "sb_data sb + sz \<le> length (sb_mem sb)"
    | (grow) "length (sb_mem sb) < sb_data sb + sz"
    using wf' by linarith
  then show ?thesis
  proof cases
    case fits
    then have "sz \<le> silc_buffer_len sb"
      by (simp add: lens)
    with fits wf' show ?thesis
      by (intro exI [of _ "[]"]) (simp add: silc_buffer_enlarge_def max_absorb1)
  next
    case tail
    have "sz < u32_max" using r32 by linarith
    with tail wf' have "silc_buffer_pull_tail sb (sub32 sz (silc_buffer_len sb)) =
        (sb\<lparr>sb_tail := sb_data sb + sz\<rparr>, Some (sb_tail sb))"
      by (auto simp: silc_buffer_pull_tail_def lens silc_arith)
    moreover have "\<not> length (sb_mem sb) - sb_data sb < sz" and "silc_buffer_len sb < sz"
      using tail wf' by (auto simp: lens)
    ultimately show ?thesis
      using tail wf' sum by (intro exI [of _ "[]"]) (simp add: silc_buffer_enlarge_def max_absorb2 max_absorb1)
  next
    case grow
    let ?sb = "sb\<lparr>sb_mem := sb_mem sb @ map J [length (sb_mem sb)..<sb_data sb + sz]\<rparr>"
    have "sub32 (sub32 sz (silc_buffer_taillen sb)) (silc_buffer_len sb) =
        sz - (length (sb_mem sb) - sb_data sb)"
      using grow wf' r32 by (subst sub32_exact; subst sub32_exact) (auto simp: lens)
    then have new: "add32 (silc_buffer_truelen sb)
        (sub32 (sub32 sz (silc_buffer_taillen sb)) (silc_buffer_len sb)) = sb_data sb + sz"
      using grow wf' r32 by (simp add: lens add32_exact)
    have "silc_buffer_realloc J (Some sb) (sb_data sb + sz) = Some ?sb"
      using wf grow room by (rule realloc_grow)
    moreover have "silc_buffer_pull_tail ?sb (sub32 sz (silc_buffer_len ?sb)) =
        (?sb\<lparr>sb_tail := sb_data sb + sz\<rparr>, Some (sb_tail sb))"
      using grow wf' r32
      by (auto simp: silc_buffer_pull_tail_def silc_buffer_len_def silc_buffer_taillen_def sub32_exact)
    moreover have "length (sb_mem sb) - sb_data sb < sz" and "silc_buffer_len sb < sz"
      using grow wf' by (auto simp: lens)
    ultimately show ?thesis
      using grow wf' sum new
      by (intro exI [of _ "map J [length (sb_mem sb)..<sb_data sb + sz]"])
        (simp add: silc_buffer_enlarge_def max_absorb2)
  qed
qed

lemma enlarge_fits:
  "sz \<le> silc_buffer_len sb \<Longrightarrow> silc_buffer_enlarge J sb sz = (sb, True)"
  by (simp add: silc_buffer_enlarge_def)

lemma wf_realloc:
  assumes "wf_buffer sb" and "silc_buffer_realloc J (Some sb) n = Some sb'"
  shows "wf_buffer sb'"
proof (cases "n \<le> length (sb_mem sb)")
  case True
  with assms show ?thesis by (simp add: silc_buffer_realloc_def wf_buffer_lens)
next
  case False
  show ?thesis
  proof (cases "n < SILC_MAX_ALLOC")
    case True
    with False assms realloc_grow [OF assms(1), of n J] show ?thesis
      by (auto simp: wf_buffer_def max_alloc_less_u32)
  next
    case big: False
    with False assms show ?thesis
      by (simp add: silc_buffer_realloc_def wf_buffer_lens silc_realloc_def)
  qed
qed

lemma wf_enlarge [simp]:
  assumes "wf_buffer sb"
  shows "wf_buffer (fst (silc_buffer_enlarge J sb n))"
  using assms by (auto simp: silc_buffer_enlarge_def wf_realloc split: option.splits if_splits)

lemma wf_reset: "wf_buffer sb \<Longrightarrow> wf_buffer (silc_buffer_reset sb)"
  by (simp add: wf_buffer_def silc_buffer_reset_def)

lemma wf_clear: "wf_buffer sb \<Longrightarrow> wf_buffer (silc_buffer_clear sb)"
  by (simp add: wf_buffer_def silc_buffer_clear_def silc_buffer_reset_def silc_buffer_truelen_def
      silc_arith)

lemma wf_start: "wf_buffer sb \<Longrightarrow> wf_buffer (silc_buffer_start sb)"
  by (simp add: wf_buffer_def silc_buffer_start_def)

lemma wf_end: "wf_buffer sb \<Longrightarrow> wf_buffer (silc_buffer_end sb)"
  by (auto simp: wf_buffer_def silc_buffer_end_def)

lemma wf_purge: "wf_buffer (silc_buffer_purge sb)"
  by (simp add: silc_buffer_purge_def silc_buffer_steal_def)

lemma wf_alloc_size: "silc_buffer_alloc_size n = Some sb \<Longrightarrow> wf_buffer sb"
  by (auto simp: alloc_size_cases wf_buffer_def max_alloc_less_u32 split: if_splits)

lemma wf_copy: "pred_option wf_buffer (silc_buffer_copy sb)"
  by (auto simp: silc_buffer_copy_def wf_alloc_size split: option.splits)

lemma wf_clone: "wf_buffer sb \<Longrightarrow> pred_option wf_buffer (silc_buffer_clone sb)"
  using wf_buffer_lens [of sb] length_memcpy_take [of 0 "length (sb_mem sb)" "replicate (length (sb_mem sb)) 0" "sb_mem sb"]
  by (auto simp: silc_buffer_clone_def alloc_size_cases silc_buffer_put_def silc_buffer_len_def
      wf_buffer_def silc_arith split: option.splits)

lemma wf_realloc_pred: "wf_buffer sb \<Longrightarrow> pred_option wf_buffer (silc_buffer_realloc J (Some sb) n)"
  by (cases "silc_buffer_realloc J (Some sb) n") (auto intro: wf_realloc)

lemma wf_realloc_size:
  "wf_buffer sb \<Longrightarrow> pred_option wf_buffer (silc_buffer_realloc_size J (Some sb) n)"
  by (auto simp: silc_buffer_realloc_size_def intro: wf_pull_tail wf_realloc split: option.splits)

section \<open>Properties\<close>

text \<open>
  C19. Every operation on a well-formed buffer leaves it well-formed: whatever lengths the
  caller passes, \<open>head \<le> data \<le> tail \<le> end\<close> still holds afterwards.
\<close>

theorem silc_buffer_ops_wf:
  assumes "wf_buffer sb"
  shows "wf_buffer (fst (silc_buffer_pull sb n)) \<and> wf_buffer (fst (silc_buffer_push sb n))
    \<and> wf_buffer (fst (silc_buffer_pull_tail sb n)) \<and> wf_buffer (fst (silc_buffer_push_tail sb n))
    \<and> wf_buffer (fst (silc_buffer_put sb d n)) \<and> wf_buffer (fst (silc_buffer_put_head sb d n))
    \<and> wf_buffer (fst (silc_buffer_put_tail sb d n)) \<and> wf_buffer (silc_buffer_reset sb)
    \<and> wf_buffer (silc_buffer_clear sb) \<and> wf_buffer (silc_buffer_start sb)
    \<and> wf_buffer (silc_buffer_end sb) \<and> wf_buffer (silc_buffer_purge sb)
    \<and> pred_option wf_buffer (silc_buffer_copy sb) \<and> pred_option wf_buffer (silc_buffer_clone sb)
    \<and> pred_option wf_buffer (silc_buffer_realloc J (Some sb) n)
    \<and> pred_option wf_buffer (silc_buffer_realloc_size J (Some sb) n)
    \<and> wf_buffer (fst (silc_buffer_enlarge J sb n))"
  using assms
  by (simp add: wf_reset wf_clear wf_start wf_end wf_purge wf_copy wf_clone wf_realloc_pred
      wf_realloc_size)

theorem silc_buffer_ops_wf_witness:
  "wf_buffer (silc_buffer_set [1, 2, 3]) \<and>
   wf_buffer (fst (silc_buffer_pull (silc_buffer_set [1, 2, 3]) 2))"
  using silc_buffer_ops_wf [of "silc_buffer_set [1, 2, 3]" 2]
  by (simp add: u32_max_def)

end
