(* ===== verification/Silc_Buffmt.thy ===== *)
theory Silc_Buffmt
  imports Silc_Buffer
begin

text \<open>
  \<open>lib/silcutil/silcbuffmt.c\<close>: the printf-like encoder \<open>silc_buffer_format\<close> and the decoder
  \<open>silc_buffer_unformat\<close> every payload of the protocol is written with. The variadic argument
  list is a list of parameters, each with its arguments, and the end of the list is
  \<open>SILC_PARAM_END\<close>. Parameter types that the C switch treats in one group are one constructor.

  The encoder is shown to write exactly the concatenation of its parameters' encodings at the
  \<open>data\<close> pointer, growing the buffer when needed; the decoder is shown to be a parser on the byte
  string the buffer holds, to leave the buffer as it found it, and to invert the encoder.

  Not modelled: allocation from a \<open>SilcStack\<close>, and \<open>SILC_PARAM_FUNC\<close> of the decoder, whose
  case has no \<open>break\<close> and goes on to read variadic arguments that were never passed.
\<close>

section \<open>Formatting\<close>

text \<open>
  A data pointer is \<open>None\<close> for NULL, or the bytes it points to; a C string is given without its
  terminating zero. \<open>FMT_FUNC\<close> carries the callback with its value and context applied.
\<close>

datatype fmt_param =
    FMT_FUNC "silc_buffer \<Rightarrow> silc_buffer \<times> int"
  | FMT_STRING "bytes option"
  | FMT_NSTRING "bytes option" nat
  | FMT_CHAR byte
  | FMT_SHORT u16
  | FMT_INT u32
  | FMT_INT64 u64
  | FMT_BUFFER "silc_buffer option"
  | FMT_OFFSET int
  | FMT_ADVANCE

type_synonym fmt_state = "silc_buffer \<times> int"

text \<open>Conversion of an unsigned 32-bit value to C's \<open>int\<close>.\<close>

definition cast_int :: "nat \<Rightarrow> int" where
  "cast_int n = (if n < 2147483648 then int n else int n - 4294967296)"

text \<open>\<open>FORMAT_HAS_SPACE\<close>, then \<open>silc_buffer_put\<close>, then \<open>silc_buffer_pull\<close>.\<close>

definition format_put :: "junk \<Rightarrow> bytes \<Rightarrow> fmt_state \<Rightarrow> fmt_state + fmt_state" where
  "format_put J d st =
     (let (sb, flen) = st; (sb1, ok) = silc_buffer_enlarge J sb (length d)
      in if \<not> ok then Inl (sb1, flen)
         else Inr (fst (silc_buffer_pull (fst (silc_buffer_put sb1 d (length d))) (length d)),
                   flen + int (length d)))"

definition format_func ::
    "(silc_buffer \<Rightarrow> silc_buffer \<times> int) \<Rightarrow> fmt_state \<Rightarrow> fmt_state + fmt_state" where
  "format_func f st =
     (let (sb, flen) = st; (sb1, tmp_len) = f sb
      in if tmp_len < 0 then Inl (sb1, flen)
         else if tmp_len \<noteq> 0 then Inr (fst (silc_buffer_pull sb1 (nat tmp_len)), flen + tmp_len)
         else Inr (sb1, flen))"

definition format_data :: "junk \<Rightarrow> bytes option \<Rightarrow> nat \<Rightarrow> fmt_state \<Rightarrow> fmt_state + fmt_state" where
  "format_data J x tmp_len st =
     (case x of
        Some d \<Rightarrow> if tmp_len \<noteq> 0 then format_put J (take tmp_len d) st else Inr st
      | None \<Rightarrow> Inr st)"

definition format_string :: "junk \<Rightarrow> bytes option \<Rightarrow> fmt_state \<Rightarrow> fmt_state + fmt_state" where
  "format_string J x st = format_data J x (case x of Some s \<Rightarrow> length s | None \<Rightarrow> 0) st"

text \<open>Space for the length and the data is checked at once; then both are put and pulled.\<close>

definition format_buffer ::
    "junk \<Rightarrow> silc_buffer option \<Rightarrow> fmt_state \<Rightarrow> fmt_state + fmt_state" where
  "format_buffer J x st =
     (case x of
        None \<Rightarrow> Inr st
      | Some b \<Rightarrow>
          if silc_buffer_len b = 0 then Inr st
          else
            (let (sb, flen) = st;
                 (sb1, ok) = silc_buffer_enlarge J sb (add32 (silc_buffer_len b) 4)
             in if \<not> ok then Inl (sb1, flen)
                else
                  (let sb2 = fst (silc_buffer_put sb1
                               (SILC_PUT32_MSB (of_nat (silc_buffer_len b))) 4);
                       sb3 = fst (silc_buffer_pull sb2 4);
                       sb4 = fst (silc_buffer_put sb3 (drop (sb_data b) (sb_mem b))
                               (silc_buffer_len b));
                       sb5 = fst (silc_buffer_pull sb4 (silc_buffer_len b))
                   in Inr (sb5, flen + int (add32 (silc_buffer_len b) 4)))))"

definition format_offset :: "int \<Rightarrow> fmt_state \<Rightarrow> fmt_state + fmt_state" where
  "format_offset offst st =
     (let (sb, flen) = st
      in if offst = 0 then Inr (sb, flen)
         else if 1 < offst then
           (if int (silc_buffer_len sb) < offst then Inl (sb, flen)
            else Inr (fst (silc_buffer_pull sb (nat offst)), flen + offst))
         else
           (if cast_int (silc_buffer_headlen sb) < - offst then Inl (sb, flen)
            else Inr (fst (silc_buffer_push sb (cast32 (- offst))), flen + - offst)))"

text \<open>One turn of the loop of \<open>silc_buffer_sformat_vp\<close>, but for \<open>SILC_PARAM_ADVANCE\<close>.\<close>

fun format_step :: "junk \<Rightarrow> fmt_param \<Rightarrow> fmt_state \<Rightarrow> fmt_state + fmt_state" where
  "format_step J (FMT_FUNC f) st = format_func f st"
| "format_step J (FMT_STRING x) st = format_string J x st"
| "format_step J (FMT_NSTRING x n) st = format_data J x n st"
| "format_step J (FMT_CHAR x) st = format_put J [x] st"
| "format_step J (FMT_SHORT x) st = format_put J (SILC_PUT16_MSB x) st"
| "format_step J (FMT_INT x) st = format_put J (SILC_PUT32_MSB x) st"
| "format_step J (FMT_INT64 x) st = format_put J (SILC_PUT64_MSB x) st"
| "format_step J (FMT_BUFFER x) st = format_buffer J x st"
| "format_step J (FMT_OFFSET x) st = format_offset x st"
| "format_step J FMT_ADVANCE st = Inr st"

definition format_finish :: "bool \<Rightarrow> fmt_state \<Rightarrow> silc_buffer" where
  "format_finish advance st =
     (if advance then fst st else fst (silc_buffer_push (fst st) (cast32 (snd st))))"

fun silc_buffer_sformat_vp ::
    "junk \<Rightarrow> fmt_param list \<Rightarrow> bool \<Rightarrow> fmt_state \<Rightarrow> silc_buffer \<times> int" where
  "silc_buffer_sformat_vp J [] advance st = (format_finish advance st, snd st)"
| "silc_buffer_sformat_vp J (p # ps) advance st =
     (let advance = (case p of FMT_ADVANCE \<Rightarrow> True | _ \<Rightarrow> advance)
      in case format_step J p st of
           Inl st' \<Rightarrow> (format_finish advance st', -1)
         | Inr st' \<Rightarrow> silc_buffer_sformat_vp J ps advance st')"

definition silc_buffer_format :: "junk \<Rightarrow> silc_buffer \<Rightarrow> fmt_param list \<Rightarrow> silc_buffer \<times> int" where
  "silc_buffer_format J dst ps = silc_buffer_sformat_vp J ps False (dst, 0)"

text \<open>The loop alone, up to the first parameter that fails.\<close>

fun format_run :: "junk \<Rightarrow> fmt_param list \<Rightarrow> fmt_state \<Rightarrow> fmt_state + fmt_state" where
  "format_run J [] st = Inr st"
| "format_run J (p # ps) st = (case format_step J p st of Inl st \<Rightarrow> Inl st | Inr st \<Rightarrow> format_run J ps st)"

text \<open>
  \<open>silc_buffer_strformat\<close>: appends C strings at the end of the area, skipping NULLs. The result
  is \<open>None\<close> when a reallocation fails, which leaves the caller's pointers dangling. The zero the
  code writes behind the last string is outside the buffer.
\<close>

fun strformat_loop :: "junk \<Rightarrow> bytes \<Rightarrow> bytes option list \<Rightarrow> bytes option" where
  "strformat_loop J h [] = Some h"
| "strformat_loop J h (None # ss) = strformat_loop J h ss"
| "strformat_loop J h (Some s # ss) =
     (case silc_realloc J h (length s + length h + 1) of
        None \<Rightarrow> None
      | Some d \<Rightarrow> strformat_loop J (take (length h + length s) (memcpy d (length h) s)) ss)"

definition silc_buffer_strformat ::
    "junk \<Rightarrow> silc_buffer \<Rightarrow> bytes option list \<Rightarrow> (silc_buffer \<times> nat) option" where
  "silc_buffer_strformat J dst ss =
     (case strformat_loop J (sb_mem dst) ss of
        None \<Rightarrow> None
      | Some d \<Rightarrow> Some (\<lparr>sb_mem = d, sb_data = sb_data dst, sb_tail = length d\<rparr>, length d))"

section \<open>Unformatting\<close>

datatype unf_param =
    UNF_DATA nat
  | UNF_DATA_ALLOC nat
  | UNF_UI8_CHAR | UNF_UI16_SHORT | UNF_UI32_INT | UNF_UI64_INT
  | UNF_UI8_STRING | UNF_UI16_STRING | UNF_UI32_STRING
  | UNF_UI8_STRING_ALLOC | UNF_UI16_STRING_ALLOC | UNF_UI32_STRING_ALLOC
  | UNF_UI8_NSTRING | UNF_UI16_NSTRING | UNF_UI32_NSTRING
  | UNF_UI8_NSTRING_ALLOC | UNF_UI16_NSTRING_ALLOC | UNF_UI32_NSTRING_ALLOC
  | UNF_BUFFER | UNF_BUFFER_ALLOC junk silc_buffer
  | UNF_OFFSET int
  | UNF_ADVANCE

text \<open>
  What is stored through the output pointers, in the order the code stores it (the length of an
  \<open>NSTRING\<close> before its data). \<open>VPtr None\<close> is a pointer the code does not set, or sets to NULL
  because the copy could not be allocated. \<open>UNF_BUFFER_ALLOC\<close> carries the caller's buffer and the
  content of the memory it may be grown into. A NULL output pointer is a value the caller ignores.
\<close>

datatype unf_val =
    V8 byte | V16 u16 | V32 u32 | V64 u64 | VPtr "bytes option" | VBuf silc_buffer

type_synonym unf_result = "silc_buffer + silc_buffer \<times> unf_val list"

definition unformat_has_space :: "silc_buffer \<Rightarrow> nat \<Rightarrow> bool" where
  "unformat_has_space sb req \<longleftrightarrow> \<not> silc_buffer_len sb < req \<and> \<not> add32 req 1 \<le> 0"

text \<open>\<open>UNFORMAT_HAS_SPACE\<close>, the read at \<open>src->data\<close>, and \<open>silc_buffer_pull\<close>.\<close>

definition unf_take :: "silc_buffer \<Rightarrow> nat \<Rightarrow> silc_buffer + silc_buffer \<times> bytes" where
  "unf_take sb n =
     (if unformat_has_space sb n
      then Inr (fst (silc_buffer_pull sb n), take n (drop (sb_data sb) (sb_mem sb)))
      else Inl sb)"

definition alloc_copy :: "bytes \<Rightarrow> bytes option" where
  "alloc_copy d = (case silc_calloc (length d + 1) 1 of None \<Rightarrow> None | Some _ \<Rightarrow> Some d)"

definition unf_data :: "bool \<Rightarrow> nat \<Rightarrow> silc_buffer \<Rightarrow> unf_result" where
  "unf_data alloc len2 sb =
     andthen (unf_take sb len2) (\<lambda>(sb1, d).
       Inr (sb1, [VPtr (if len2 = 0 then None else if alloc then alloc_copy d else Some d)]))"

definition unf_int :: "nat \<Rightarrow> (bytes \<Rightarrow> unf_val) \<Rightarrow> silc_buffer \<Rightarrow> unf_result" where
  "unf_int n get sb = andthen (unf_take sb n) (\<lambda>(sb1, d). Inr (sb1, [get d]))"

text \<open>A length of \<open>n\<close> bytes, read by \<open>get\<close>, and then that many bytes of data.\<close>

definition unf_lendata :: "nat \<Rightarrow> (bytes \<Rightarrow> nat) \<Rightarrow> silc_buffer \<Rightarrow> silc_buffer + silc_buffer \<times> bytes \<times> bytes" where
  "unf_lendata n get sb =
     andthen (unf_take sb n) (\<lambda>(sb1, l).
       andthen (unf_take sb1 (get l)) (\<lambda>(sb2, d). Inr (sb2, l, d)))"

definition unf_string :: "bool \<Rightarrow> nat \<Rightarrow> (bytes \<Rightarrow> nat) \<Rightarrow> silc_buffer \<Rightarrow> unf_result" where
  "unf_string alloc n get sb =
     andthen (unf_lendata n get sb) (\<lambda>(sb2, l, d).
       Inr (sb2, [VPtr (if alloc then (if get l = 0 then None else alloc_copy d) else Some d)]))"

definition unf_nstring ::
    "bool \<Rightarrow> nat \<Rightarrow> (bytes \<Rightarrow> nat) \<Rightarrow> (bytes \<Rightarrow> unf_val) \<Rightarrow> silc_buffer \<Rightarrow> unf_result" where
  "unf_nstring alloc n get val sb =
     andthen (unf_lendata n get sb) (\<lambda>(sb2, l, d).
       Inr (sb2, [val l, VPtr (if alloc then (if get l = 0 then None else alloc_copy d) else Some d)]))"

definition unf_buffer :: "silc_buffer \<Rightarrow> unf_result" where
  "unf_buffer sb =
     andthen (unf_lendata 4 (\<lambda>l. unat (SILC_GET32_MSB l)) sb) (\<lambda>(sb2, l, d).
       Inr (sb2, [VBuf (silc_buffer_set d)]))"

text \<open>The data is formatted into the caller's buffer before it is pulled from the source.\<close>

definition unf_buffer_alloc :: "junk \<Rightarrow> silc_buffer \<Rightarrow> silc_buffer \<Rightarrow> unf_result" where
  "unf_buffer_alloc J x sb =
     andthen (unf_take sb 4) (\<lambda>(sb1, l).
       if \<not> unformat_has_space sb1 (unat (SILC_GET32_MSB l)) then Inl sb1
       else
         (let len2 = unat (SILC_GET32_MSB l);
              d = take len2 (drop (sb_data sb1) (sb_mem sb1));
              (x', ret) = silc_buffer_format J x [FMT_NSTRING (Some d) len2]
          in if ret < 0 then Inl sb1
             else Inr (fst (silc_buffer_pull sb1 len2), [VBuf x'])))"

definition unf_offset :: "int \<Rightarrow> silc_buffer \<Rightarrow> unf_result" where
  "unf_offset offst sb =
     (if offst = 0 then Inr (sb, [])
      else if 1 < offst then
        (if unformat_has_space sb (nat offst) then Inr (fst (silc_buffer_pull sb (nat offst)), [])
         else Inl sb)
      else Inr (fst (silc_buffer_push sb (cast32 (- offst))), []))"

abbreviation get8 :: "bytes \<Rightarrow> nat" where
  "get8 l \<equiv> unat (l ! 0)"

abbreviation get16 :: "bytes \<Rightarrow> nat" where
  "get16 l \<equiv> unat (SILC_GET16_MSB l)"

abbreviation get32 :: "bytes \<Rightarrow> nat" where
  "get32 l \<equiv> unat (SILC_GET32_MSB l)"

text \<open>
  One turn of the loop of \<open>silc_buffer_sunformat_vp\<close>, but for \<open>SILC_PARAM_ADVANCE\<close>. The switch
  has no case for \<open>SILC_PARAM_UI32_NSTRING_ALLOC\<close>, which ends in its \<open>default\<close> branch.
\<close>

fun unformat_step :: "unf_param \<Rightarrow> silc_buffer \<Rightarrow> unf_result" where
  "unformat_step (UNF_DATA n) sb = unf_data False n sb"
| "unformat_step (UNF_DATA_ALLOC n) sb = unf_data True n sb"
| "unformat_step UNF_UI8_CHAR sb = unf_int 1 (\<lambda>d. V8 (d ! 0)) sb"
| "unformat_step UNF_UI16_SHORT sb = unf_int 2 (\<lambda>d. V16 (SILC_GET16_MSB d)) sb"
| "unformat_step UNF_UI32_INT sb = unf_int 4 (\<lambda>d. V32 (SILC_GET32_MSB d)) sb"
| "unformat_step UNF_UI64_INT sb = unf_int 8 (\<lambda>d. V64 (SILC_GET64_MSB d)) sb"
| "unformat_step UNF_UI8_STRING sb = unf_string False 1 get8 sb"
| "unformat_step UNF_UI16_STRING sb = unf_string False 2 get16 sb"
| "unformat_step UNF_UI32_STRING sb = unf_string False 4 get32 sb"
| "unformat_step UNF_UI8_STRING_ALLOC sb = unf_string True 1 get8 sb"
| "unformat_step UNF_UI16_STRING_ALLOC sb = unf_string True 2 get16 sb"
| "unformat_step UNF_UI32_STRING_ALLOC sb = unf_string True 4 get32 sb"
| "unformat_step UNF_UI8_NSTRING sb = unf_nstring False 1 get8 (\<lambda>l. V8 (l ! 0)) sb"
| "unformat_step UNF_UI16_NSTRING sb = unf_nstring False 2 get16 (\<lambda>l. V16 (SILC_GET16_MSB l)) sb"
| "unformat_step UNF_UI32_NSTRING sb = unf_nstring False 4 get32 (\<lambda>l. V32 (SILC_GET32_MSB l)) sb"
| "unformat_step UNF_UI8_NSTRING_ALLOC sb = unf_nstring True 1 get8 (\<lambda>l. V8 (l ! 0)) sb"
| "unformat_step UNF_UI16_NSTRING_ALLOC sb = unf_nstring True 2 get16 (\<lambda>l. V16 (SILC_GET16_MSB l)) sb"
| "unformat_step UNF_UI32_NSTRING_ALLOC sb = Inl sb"
| "unformat_step UNF_BUFFER sb = unf_buffer sb"
| "unformat_step (UNF_BUFFER_ALLOC J x) sb = unf_buffer_alloc J x sb"
| "unformat_step (UNF_OFFSET n) sb = unf_offset n sb"
| "unformat_step UNF_ADVANCE sb = Inr (sb, [])"

text \<open>
  The loop. The result is the buffer, the returned value and what was stored. On success with
  \<open>SILC_PARAM_ADVANCE\<close> the returned \<open>len\<close> is the 0 it was initialised with.
\<close>

definition unformat_rewind :: "nat \<Rightarrow> silc_buffer \<Rightarrow> silc_buffer" where
  "unformat_rewind start sb = fst (silc_buffer_push sb (cast32 (int (sb_data sb) - int start)))"

fun silc_buffer_sunformat_vp ::
    "nat \<Rightarrow> unf_param list \<Rightarrow> bool \<Rightarrow> silc_buffer \<times> unf_val list
     \<Rightarrow> silc_buffer \<times> int \<times> unf_val list" where
  "silc_buffer_sunformat_vp start [] advance (sb, vs) =
     (if advance then (sb, 0, vs)
      else (unformat_rewind start sb, int (sb_data sb) - int start, vs))"
| "silc_buffer_sunformat_vp start (p # ps) advance (sb, vs) =
     (case unformat_step p sb of
        Inl sb' \<Rightarrow> (unformat_rewind start sb', -1, vs)
      | Inr (sb', v) \<Rightarrow>
          silc_buffer_sunformat_vp start ps (case p of UNF_ADVANCE \<Rightarrow> True | _ \<Rightarrow> advance) (sb', vs @ v))"

definition silc_buffer_unformat ::
    "silc_buffer \<Rightarrow> unf_param list \<Rightarrow> silc_buffer \<times> int \<times> unf_val list" where
  "silc_buffer_unformat src ps = silc_buffer_sunformat_vp (sb_data src) ps False (src, [])"

section \<open>What formatting writes\<close>

text \<open>
  The parameters whose encoding does not depend on the buffer: all but the callback, the nested
  buffer, the offset and \<open>SILC_PARAM_ADVANCE\<close>. A data pointer has at least as many bytes as the
  length passed with it.
\<close>

fun fmt_plain :: "fmt_param \<Rightarrow> bool" where
  "fmt_plain (FMT_NSTRING (Some d) n) = (n \<le> length d)"
| "fmt_plain (FMT_NSTRING None n) = True"
| "fmt_plain (FMT_FUNC f) = False"
| "fmt_plain (FMT_BUFFER b) = False"
| "fmt_plain (FMT_OFFSET n) = False"
| "fmt_plain FMT_ADVANCE = False"
| "fmt_plain _ = True"

fun fmt_bytes :: "fmt_param \<Rightarrow> bytes" where
  "fmt_bytes (FMT_STRING (Some s)) = s"
| "fmt_bytes (FMT_NSTRING (Some d) n) = take n d"
| "fmt_bytes (FMT_CHAR x) = [x]"
| "fmt_bytes (FMT_SHORT x) = SILC_PUT16_MSB x"
| "fmt_bytes (FMT_INT x) = SILC_PUT32_MSB x"
| "fmt_bytes (FMT_INT64 x) = SILC_PUT64_MSB x"
| "fmt_bytes _ = []"

abbreviation fmt_all :: "fmt_param list \<Rightarrow> bytes" where
  "fmt_all ps \<equiv> concat (map fmt_bytes ps)"

lemma format_step_plain:
  "fmt_plain p \<Longrightarrow> format_step J p st =
     (if fmt_bytes p = [] then Inr st else format_put J (fmt_bytes p) st)"
proof (induction p rule: fmt_bytes.induct)
  case (5 x)
  then show ?case by (simp add: SILC_PUT32_MSB_def)
next
  case (6 x)
  then show ?case by (simp add: SILC_PUT64_MSB_def SILC_PUT32_MSB_def)
qed (auto simp: format_string_def format_data_def SILC_PUT16_MSB_def)

text \<open>The state after \<open>d\<close> was put at \<open>data\<close>, in a buffer that has been grown by \<open>m\<close>.\<close>

definition put_state :: "silc_buffer \<Rightarrow> bytes \<Rightarrow> bytes \<Rightarrow> silc_buffer" where
  "put_state sb m d =
     \<lparr>sb_mem = memcpy (sb_mem sb @ m) (sb_data sb) d, sb_data = sb_data sb + length d,
      sb_tail = max (sb_tail sb) (sb_data sb + length d)\<rparr>"

lemma format_put_grow:
  assumes wf: "wf_buffer sb" and room: "sb_data sb + length d < SILC_MAX_ALLOC"
  shows "\<exists>m. format_put J d (sb, flen) = Inr (put_state sb m d, flen + int (length d))
    \<and> length (sb_mem sb @ m) = max (length (sb_mem sb)) (sb_data sb + length d)"
proof -
  from enlarge_ok [OF wf room, of J] obtain m where
    en: "silc_buffer_enlarge J sb (length d) =
      (sb\<lparr>sb_mem := sb_mem sb @ m, sb_tail := max (sb_tail sb) (sb_data sb + length d)\<rparr>, True)"
      (is "_ = (?sb, _)")
    and len: "length (sb_mem sb @ m) = max (length (sb_mem sb)) (sb_data sb + length d)"
    by blast
  have "wf_buffer ?sb"
    using wf en wf_enlarge [OF wf, of J "length d"] by simp
  then have sl: "silc_buffer_len ?sb = max (sb_tail sb) (sb_data sb + length d) - sb_data sb"
    by (simp add: wf_buffer_lens)
  have put: "silc_buffer_put ?sb d (length d) =
      (?sb\<lparr>sb_mem := memcpy (sb_mem sb @ m) (sb_data sb) d\<rparr>, Some (sb_data sb))"
    by (simp add: silc_buffer_put_def sl)
  have "silc_buffer_len (?sb\<lparr>sb_mem := memcpy (sb_mem sb @ m) (sb_data sb) d\<rparr>) = silc_buffer_len ?sb"
    by (simp add: silc_buffer_len_def)
  then have "silc_buffer_pull (?sb\<lparr>sb_mem := memcpy (sb_mem sb @ m) (sb_data sb) d\<rparr>) (length d)
      = (put_state sb m d, Some (sb_data sb))"
    using sl by (subst pull_ok) (auto simp: put_state_def)
  with en put len show ?thesis
    by (intro exI [of _ m]) (simp add: format_put_def)
qed

lemma wf_put_state:
  assumes "wf_buffer sb" and "sb_data sb + length d < SILC_MAX_ALLOC"
    and "length (sb_mem sb @ m) = max (length (sb_mem sb)) (sb_data sb + length d)"
  shows "wf_buffer (put_state sb m d)"
  using assms max_alloc_less_u32 [OF assms(2)]
  by (auto simp: put_state_def wf_buffer_def)

lemma put_state_put_state:
  assumes "sb_data sb \<le> length (sb_mem sb)"
    and "length (sb_mem sb @ m) = max (length (sb_mem sb)) (sb_data sb + length d)"
    and "length (sb_mem (put_state sb m d) @ m') =
      max (length (sb_mem (put_state sb m d))) (sb_data (put_state sb m d) + length d')"
  shows "put_state (put_state sb m d) m' d' = put_state sb (m @ m') (d @ d')"
    and "length (sb_mem sb @ m @ m') = max (length (sb_mem sb)) (sb_data sb + length (d @ d'))"
proof -
  have fit: "sb_data sb + length d \<le> length (sb_mem sb @ m)"
    using assms(2) by linarith
  then have len: "length (memcpy (sb_mem sb @ m) (sb_data sb) d) = length (sb_mem sb @ m)"
    by simp
  show total: "length (sb_mem sb @ m @ m') = max (length (sb_mem sb)) (sb_data sb + length (d @ d'))"
    using assms(2,3) len by (auto simp: put_state_def max_def split: if_splits)
  have "memcpy (memcpy (sb_mem sb @ m) (sb_data sb) d @ m') (sb_data sb + length d) d' =
      memcpy (memcpy (sb_mem sb @ m @ m') (sb_data sb) d) (sb_data sb + length d) d'"
    using memcpy_append_left [OF fit, of m'] by simp
  also have "\<dots> = memcpy (sb_mem sb @ m @ m') (sb_data sb) (d @ d')"
    using total by (intro memcpy_memcpy_adjacent) simp
  finally show "put_state (put_state sb m d) m' d' = put_state sb (m @ m') (d @ d')"
    by (simp add: put_state_def add.assoc)
qed

lemma format_finish_put_state:
  assumes "length d < u32_max"
  shows "format_finish False (put_state sb m d, int (length d)) =
    \<lparr>sb_mem = memcpy (sb_mem sb @ m) (sb_data sb) d, sb_data = sb_data sb,
     sb_tail = max (sb_tail sb) (sb_data sb + length d)\<rparr>"
  using assms by (simp add: format_finish_def put_state_def silc_arith push_ok)

lemma put_state_Nil: "wf_buffer sb \<Longrightarrow> put_state sb [] [] = sb"
  by (simp add: put_state_def wf_buffer_def max_absorb1)

lemma sformat_run:
  assumes "FMT_ADVANCE \<notin> set ps"
  shows "silc_buffer_sformat_vp J (ps @ qs) False st =
    (case format_run J ps st of
       Inl st' \<Rightarrow> (format_finish False st', -1)
     | Inr st' \<Rightarrow> silc_buffer_sformat_vp J qs False st')"
  using assms
proof (induction ps arbitrary: st)
  case (Cons p ps)
  then have "(case p of FMT_ADVANCE \<Rightarrow> True | _ \<Rightarrow> False) = False" by (cases p) auto
  with Cons show ?case by (simp split: sum.split)
qed simp

lemma format_run_append:
  "format_run J (ps @ qs) st = (case format_run J ps st of Inl st' \<Rightarrow> Inl st' | Inr st' \<Rightarrow> format_run J qs st')"
  by (induction ps arbitrary: st) (auto split: sum.split)

lemma format_run_grow:
  assumes "wf_buffer sb" and "list_all fmt_plain ps"
    and "sb_data sb + length (fmt_all ps) < SILC_MAX_ALLOC"
  shows "\<exists>m. format_run J ps (sb, flen) = Inr (put_state sb m (fmt_all ps), flen + int (length (fmt_all ps)))
    \<and> length (sb_mem sb @ m) = max (length (sb_mem sb)) (sb_data sb + length (fmt_all ps))"
  using assms
proof (induction ps arbitrary: sb flen)
  case Nil
  then show ?case
    by (intro exI [of _ "[]"]) (auto simp: put_state_Nil wf_buffer_def max_absorb1)
next
  case (Cons p ps)
  show ?case
  proof (cases "fmt_bytes p = []")
    case True
    with Cons.prems have "format_step J p (sb, flen) = Inr (sb, flen)"
      by (simp add: format_step_plain)
    with True Cons.prems Cons.IH [of sb flen] show ?thesis by simp
  next
    case False
    let ?d = "fmt_bytes p"
    from Cons.prems have room: "sb_data sb + length ?d < SILC_MAX_ALLOC" by simp
    from format_put_grow [OF Cons.prems(1) room, of J flen] obtain m where
      step: "format_put J ?d (sb, flen) = Inr (put_state sb m ?d, flen + int (length ?d))"
      and m: "length (sb_mem sb @ m) = max (length (sb_mem sb)) (sb_data sb + length ?d)"
      by blast
    have "wf_buffer (put_state sb m ?d)"
      using Cons.prems(1) room m by (rule wf_put_state)
    moreover have "sb_data (put_state sb m ?d) + length (fmt_all ps) < SILC_MAX_ALLOC"
      using Cons.prems(3) by (simp add: put_state_def)
    moreover have "list_all fmt_plain ps" using Cons.prems(2) by simp
    ultimately obtain m' where
      rest: "format_run J ps (put_state sb m ?d, flen + int (length ?d)) =
        Inr (put_state (put_state sb m ?d) m' (fmt_all ps),
           flen + int (length ?d) + int (length (fmt_all ps)))"
      and m': "length (sb_mem (put_state sb m ?d) @ m') =
        max (length (sb_mem (put_state sb m ?d)))
            (sb_data (put_state sb m ?d) + length (fmt_all ps))"
      using Cons.IH by blast
    have le: "sb_data sb \<le> length (sb_mem sb)"
      using Cons.prems(1) by (simp add: wf_buffer_def)
    note two = put_state_put_state [OF le m m']
    have "format_run J (p # ps) (sb, flen) = format_run J ps (put_state sb m ?d, flen + int (length ?d))"
      using Cons.prems(2) False step by (simp add: format_step_plain)
    with rest two show ?thesis
      by (intro exI [of _ "m @ m'"]) (simp add: add.assoc)
  qed
qed

lemma format_loop_grow:
  assumes "wf_buffer sb" and "list_all fmt_plain ps"
    and "sb_data sb + length (fmt_all ps) < SILC_MAX_ALLOC"
  shows "\<exists>m. silc_buffer_sformat_vp J ps False (sb, flen) =
      (format_finish False (put_state sb m (fmt_all ps), flen + int (length (fmt_all ps))),
       flen + int (length (fmt_all ps)))
    \<and> length (sb_mem sb @ m) = max (length (sb_mem sb)) (sb_data sb + length (fmt_all ps))"
proof -
  have "FMT_ADVANCE \<notin> set ps" using assms(2) by (auto simp: list_all_iff)
  with format_run_grow [OF assms, of J flen] sformat_run [of ps J "[]" "(sb, flen)"] show ?thesis by auto
qed

lemma format_grow:
  assumes "wf_buffer sb" and "list_all fmt_plain ps"
    and "sb_data sb + length (fmt_all ps) < SILC_MAX_ALLOC"
  shows "\<exists>m. silc_buffer_format J sb ps =
      (\<lparr>sb_mem = memcpy (sb_mem sb @ m) (sb_data sb) (fmt_all ps), sb_data = sb_data sb,
        sb_tail = max (sb_tail sb) (sb_data sb + length (fmt_all ps))\<rparr>,
       int (length (fmt_all ps)))
    \<and> length (sb_mem sb @ m) = max (length (sb_mem sb)) (sb_data sb + length (fmt_all ps))"
proof -
  have "length (fmt_all ps) < u32_max"
    using assms(3) by (intro max_alloc_less_u32) simp
  with format_loop_grow [OF assms, of J 0] show ?thesis
    by (simp add: silc_buffer_format_def format_finish_put_state)
qed

text \<open>When the buffer has room between \<open>data\<close> and \<open>tail\<close> nothing is allocated.\<close>

lemma format_put_fits:
  assumes "wf_buffer sb" and "length d \<le> silc_buffer_len sb"
  shows "format_put J d (sb, flen) =
    Inr (sb\<lparr>sb_mem := memcpy (sb_mem sb) (sb_data sb) d, sb_data := sb_data sb + length d\<rparr>,
         flen + int (length d))"
proof -
  have "silc_buffer_len (sb\<lparr>sb_mem := memcpy (sb_mem sb) (sb_data sb) d\<rparr>) = silc_buffer_len sb"
    by (simp add: silc_buffer_len_def)
  with assms show ?thesis
    by (simp add: format_put_def enlarge_fits silc_buffer_put_def pull_ok)
qed

lemma format_loop_fits:
  assumes "wf_buffer sb" and "list_all fmt_plain ps"
    and "length (fmt_all ps) \<le> silc_buffer_len sb"
  shows "silc_buffer_sformat_vp J ps False (sb, flen) =
      (format_finish False
         (sb\<lparr>sb_mem := memcpy (sb_mem sb) (sb_data sb) (fmt_all ps),
             sb_data := sb_data sb + length (fmt_all ps)\<rparr>, flen + int (length (fmt_all ps))),
       flen + int (length (fmt_all ps)))"
  using assms
proof (induction ps arbitrary: sb flen)
  case Nil
  then show ?case by simp
next
  case (Cons p ps)
  have adv: "(case p of FMT_ADVANCE \<Rightarrow> True | _ \<Rightarrow> False) = False"
    using Cons.prems(2) by (cases p) auto
  show ?case
  proof (cases "fmt_bytes p = []")
    case True
    with Cons.prems have "format_step J p (sb, flen) = Inr (sb, flen)"
      by (simp add: format_step_plain)
    with True Cons.prems Cons.IH [of sb flen] adv show ?thesis by simp
  next
    case False
    let ?d = "fmt_bytes p"
    let ?sb = "sb\<lparr>sb_mem := memcpy (sb_mem sb) (sb_data sb) ?d, sb_data := sb_data sb + length ?d\<rparr>"
    note lens = wf_buffer_lens [OF Cons.prems(1)]
    have fit: "sb_data sb + (length ?d + length (fmt_all ps)) \<le> sb_tail sb"
      using Cons.prems by (auto simp: lens wf_buffer_def)
    have step: "format_step J p (sb, flen) = Inr (?sb, flen + int (length ?d))"
      using Cons.prems False by (simp add: format_step_plain format_put_fits)
    have wf: "wf_buffer ?sb"
      using Cons.prems(1) fit by (auto simp: wf_buffer_def)
    have "length (fmt_all ps) \<le> silc_buffer_len ?sb"
      using wf fit by (simp add: wf_buffer_lens)
    with Cons.IH [OF wf, of "flen + int (length ?d)"] Cons.prems(2) step adv fit Cons.prems(1)
    show ?thesis
      by (simp add: wf_buffer_def add.assoc memcpy_memcpy_adjacent)
  qed
qed

lemma format_fits:
  assumes "wf_buffer sb" and "list_all fmt_plain ps"
    and "length (fmt_all ps) \<le> silc_buffer_len sb"
  shows "silc_buffer_format J sb ps =
    (sb\<lparr>sb_mem := memcpy (sb_mem sb) (sb_data sb) (fmt_all ps)\<rparr>, int (length (fmt_all ps)))"
proof -
  have "length (fmt_all ps) < u32_max"
    using assms(3) silc_buffer_len_less [of sb] by linarith
  then show ?thesis
    using format_loop_fits [OF assms, of J 0]
    by (simp add: silc_buffer_format_def format_finish_def silc_arith push_ok)
qed

text \<open>The usual encoder: allocate a buffer of some size and format into it.\<close>

lemma format_alloc:
  assumes "n < SILC_MAX_ALLOC" and "list_all fmt_plain ps" and "length (fmt_all ps) = n"
  shows "silc_buffer_format J \<lparr>sb_mem = replicate n 0, sb_data = 0, sb_tail = n\<rparr> ps =
    (silc_buffer_set (fmt_all ps), int n)"
proof -
  let ?b = "\<lparr>sb_mem = replicate n 0, sb_data = 0, sb_tail = n\<rparr>"
  have wf: "wf_buffer ?b"
    using assms(1) by (simp add: wf_buffer_def max_alloc_less_u32)
  then have "silc_buffer_len ?b = n"
    by (simp add: wf_buffer_lens)
  with format_fits [OF wf assms(2), of J] assms(3) show ?thesis
    by (simp add: memcpy_def silc_buffer_set_def)
qed

text \<open>The bytes of the result, as a reader sees them.\<close>

lemma sb_bytes_format:
  assumes "wf_buffer sb" and "list_all fmt_plain ps"
    and "sb_data sb + length (fmt_all ps) < SILC_MAX_ALLOC"
  shows "sb_bytes (fst (silc_buffer_format J sb ps)) =
      fmt_all ps @ drop (length (fmt_all ps)) (sb_bytes sb)"
    and "take (sb_data sb) (sb_mem (fst (silc_buffer_format J sb ps))) = take (sb_data sb) (sb_mem sb)"
    and "sb_data (fst (silc_buffer_format J sb ps)) = sb_data sb"
    and "snd (silc_buffer_format J sb ps) = int (length (fmt_all ps))"
    and "wf_buffer (fst (silc_buffer_format J sb ps))"
proof -
  let ?T = "fmt_all ps"
  from format_grow [OF assms, of J] obtain m where
    eq: "silc_buffer_format J sb ps =
      (\<lparr>sb_mem = memcpy (sb_mem sb @ m) (sb_data sb) ?T, sb_data = sb_data sb,
        sb_tail = max (sb_tail sb) (sb_data sb + length ?T)\<rparr>, int (length ?T))"
    and len: "length (sb_mem sb @ m) = max (length (sb_mem sb)) (sb_data sb + length ?T)"
    by blast
  have le: "sb_data sb \<le> sb_tail sb" "sb_tail sb \<le> length (sb_mem sb)"
    using assms(1) by (auto simp: wf_buffer_def)
  show "take (sb_data sb) (sb_mem (fst (silc_buffer_format J sb ps))) = take (sb_data sb) (sb_mem sb)"
    and "sb_data (fst (silc_buffer_format J sb ps)) = sb_data sb"
    and "snd (silc_buffer_format J sb ps) = int (length ?T)"
    using le by (simp_all add: eq memcpy_def)
  show "wf_buffer (fst (silc_buffer_format J sb ps))"
    using assms(1) le len max_alloc_less_u32 [OF assms(3)] by (auto simp: eq wf_buffer_def)
  have "drop (sb_data sb) (memcpy (sb_mem sb @ m) (sb_data sb) ?T) =
      ?T @ drop (sb_data sb + length ?T) (sb_mem sb @ m)"
    using le by (simp add: memcpy_def)
  moreover have "take (max (sb_tail sb) (sb_data sb + length ?T) - (sb_data sb + length ?T))
      (drop (sb_data sb + length ?T) (sb_mem sb @ m)) =
      drop (length ?T) (sb_bytes sb)"
    using le by (auto simp: sb_bytes_def drop_take max_def add.commute)
  ultimately show "sb_bytes (fst (silc_buffer_format J sb ps)) =
      ?T @ drop (length ?T) (sb_bytes sb)"
    by (auto simp: eq sb_bytes_def max_def)
qed

section \<open>Unformatting as a parser of byte strings\<close>

definition rd :: "nat \<Rightarrow> bytes \<Rightarrow> (bytes \<times> bytes) option" where
  "rd n bs = (if n \<le> length bs \<and> n + 1 < u32_max then Some (take n bs, drop n bs) else None)"

definition rd_lendata :: "nat \<Rightarrow> (bytes \<Rightarrow> nat) \<Rightarrow> bytes \<Rightarrow> (bytes \<times> bytes \<times> bytes) option" where
  "rd_lendata n get bs =
     (case rd n bs of
        None \<Rightarrow> None
      | Some (l, r) \<Rightarrow> (case rd (get l) r of None \<Rightarrow> None | Some (d, r') \<Rightarrow> Some (l, d, r')))"

definition opt_copy :: "bool \<Rightarrow> bytes \<Rightarrow> bytes option" where
  "opt_copy alloc d = (if alloc then (if d = [] then None else alloc_copy d) else Some d)"

fun parse_step :: "unf_param \<Rightarrow> bytes \<Rightarrow> (unf_val list \<times> bytes) option" where
  "parse_step (UNF_DATA n) bs =
     map_option (\<lambda>(d, r). ([VPtr (if n = 0 then None else Some d)], r)) (rd n bs)"
| "parse_step (UNF_DATA_ALLOC n) bs = map_option (\<lambda>(d, r). ([VPtr (opt_copy True d)], r)) (rd n bs)"
| "parse_step UNF_UI8_CHAR bs = map_option (\<lambda>(d, r). ([V8 (d ! 0)], r)) (rd 1 bs)"
| "parse_step UNF_UI16_SHORT bs = map_option (\<lambda>(d, r). ([V16 (SILC_GET16_MSB d)], r)) (rd 2 bs)"
| "parse_step UNF_UI32_INT bs = map_option (\<lambda>(d, r). ([V32 (SILC_GET32_MSB d)], r)) (rd 4 bs)"
| "parse_step UNF_UI64_INT bs = map_option (\<lambda>(d, r). ([V64 (SILC_GET64_MSB d)], r)) (rd 8 bs)"
| "parse_step UNF_UI8_STRING bs = map_option (\<lambda>(l, d, r). ([VPtr (Some d)], r)) (rd_lendata 1 get8 bs)"
| "parse_step UNF_UI16_STRING bs = map_option (\<lambda>(l, d, r). ([VPtr (Some d)], r)) (rd_lendata 2 get16 bs)"
| "parse_step UNF_UI32_STRING bs = map_option (\<lambda>(l, d, r). ([VPtr (Some d)], r)) (rd_lendata 4 get32 bs)"
| "parse_step UNF_UI8_STRING_ALLOC bs =
     map_option (\<lambda>(l, d, r). ([VPtr (opt_copy True d)], r)) (rd_lendata 1 get8 bs)"
| "parse_step UNF_UI16_STRING_ALLOC bs =
     map_option (\<lambda>(l, d, r). ([VPtr (opt_copy True d)], r)) (rd_lendata 2 get16 bs)"
| "parse_step UNF_UI32_STRING_ALLOC bs =
     map_option (\<lambda>(l, d, r). ([VPtr (opt_copy True d)], r)) (rd_lendata 4 get32 bs)"
| "parse_step UNF_UI8_NSTRING bs =
     map_option (\<lambda>(l, d, r). ([V8 (l ! 0), VPtr (Some d)], r)) (rd_lendata 1 get8 bs)"
| "parse_step UNF_UI16_NSTRING bs =
     map_option (\<lambda>(l, d, r). ([V16 (SILC_GET16_MSB l), VPtr (Some d)], r)) (rd_lendata 2 get16 bs)"
| "parse_step UNF_UI32_NSTRING bs =
     map_option (\<lambda>(l, d, r). ([V32 (SILC_GET32_MSB l), VPtr (Some d)], r)) (rd_lendata 4 get32 bs)"
| "parse_step UNF_UI8_NSTRING_ALLOC bs =
     map_option (\<lambda>(l, d, r). ([V8 (l ! 0), VPtr (opt_copy True d)], r)) (rd_lendata 1 get8 bs)"
| "parse_step UNF_UI16_NSTRING_ALLOC bs =
     map_option (\<lambda>(l, d, r). ([V16 (SILC_GET16_MSB l), VPtr (opt_copy True d)], r)) (rd_lendata 2 get16 bs)"
| "parse_step UNF_BUFFER bs =
     map_option (\<lambda>(l, d, r). ([VBuf (silc_buffer_set d)], r)) (rd_lendata 4 get32 bs)"
| "parse_step _ bs = None"

text \<open>The parameters that only read: no buffer of the caller, no offset, no \<open>ADVANCE\<close>.\<close>

fun unf_plain :: "unf_param \<Rightarrow> bool" where
  "unf_plain (UNF_BUFFER_ALLOC J b) = False"
| "unf_plain (UNF_OFFSET n) = False"
| "unf_plain UNF_ADVANCE = False"
| "unf_plain _ = True"

fun parse_all :: "unf_param list \<Rightarrow> bytes \<Rightarrow> (unf_val list \<times> bytes) option" where
  "parse_all [] bs = Some ([], bs)"
| "parse_all (p # ps) bs =
     (case parse_step p bs of
        None \<Rightarrow> None
      | Some (v, r) \<Rightarrow>
          (case parse_all ps r of None \<Rightarrow> None | Some (vs, r') \<Rightarrow> Some (v @ vs, r')))"

text \<open>The buffer with its \<open>data\<close> pointer moved forward by \<open>k\<close>.\<close>

definition adv :: "silc_buffer \<Rightarrow> nat \<Rightarrow> silc_buffer" where
  "adv sb k = sb\<lparr>sb_data := sb_data sb + k\<rparr>"

lemma adv_simps [simp]:
  "sb_mem (adv sb k) = sb_mem sb" "sb_tail (adv sb k) = sb_tail sb"
  "sb_data (adv sb k) = sb_data sb + k" "adv sb 0 = sb" "adv (adv sb j) k = adv sb (j + k)"
  by (simp_all add: adv_def add.assoc)

lemma wf_adv: "wf_buffer sb \<Longrightarrow> k \<le> silc_buffer_len sb \<Longrightarrow> wf_buffer (adv sb k)"
  by (auto simp: wf_buffer_lens wf_buffer_def)

lemma len_adv: "wf_buffer sb \<Longrightarrow> k \<le> silc_buffer_len sb \<Longrightarrow> silc_buffer_len (adv sb k) = silc_buffer_len sb - k"
  using wf_adv [of sb k] by (simp add: wf_buffer_lens)

lemma sb_bytes_adv: "sb_bytes (adv sb k) = drop k (sb_bytes sb)"
  by (simp add: sb_bytes_def drop_take add.commute)

lemma unf_take_rd:
  assumes "wf_buffer sb"
  shows "unf_take sb n =
    (case rd n (sb_bytes sb) of None \<Rightarrow> Inl sb | Some (d, r) \<Rightarrow> Inr (adv sb n, d))"
proof -
  note lens = wf_buffer_lens [OF assms]
  have "unformat_has_space sb n \<longleftrightarrow> n \<le> silc_buffer_len sb \<and> n + 1 < u32_max"
    using silc_buffer_len_less [of sb] add32_one [of n]
    by (cases "n \<le> silc_buffer_len sb") (auto simp: unformat_has_space_def)
  moreover have "take n (drop (sb_data sb) (sb_mem sb)) = take n (sb_bytes sb)"
    if "n \<le> silc_buffer_len sb"
    using that by (simp add: sb_bytes_def lens)
  ultimately show ?thesis
    using assms by (auto simp: unf_take_def rd_def length_sb_bytes pull_ok adv_def)
qed

text \<open>
  A step of the decoder agrees with a parser on the bytes the buffer holds: on success \<open>data\<close>
  has moved to the rest of the input, on failure it stands somewhere between its old place and
  \<open>tail\<close>.
\<close>

definition step_agrees :: "silc_buffer \<Rightarrow> silc_buffer + silc_buffer \<times> 'v \<Rightarrow> ('v \<times> bytes) option \<Rightarrow> bool" where
  "step_agrees sb r p \<longleftrightarrow>
     (case p of
        None \<Rightarrow> \<exists>k \<le> silc_buffer_len sb. r = Inl (adv sb k)
      | Some (v, bs) \<Rightarrow>
          \<exists>k \<le> silc_buffer_len sb. r = Inr (adv sb k, v) \<and> sb_bytes (adv sb k) = bs)"

lemma rd_SomeD:
  "rd n bs = Some (d, r) \<Longrightarrow> n \<le> length bs \<and> d = take n bs \<and> r = drop n bs \<and> length d = n"
  by (auto simp: rd_def split: if_splits)

lemma take_agrees: "wf_buffer sb \<Longrightarrow> step_agrees sb (unf_take sb n) (rd n (sb_bytes sb))"
  by (cases "rd n (sb_bytes sb)")
    (auto simp: step_agrees_def unf_take_rd length_sb_bytes sb_bytes_adv dest!: rd_SomeD
      intro: exI [of _ 0] exI [of _ n])

lemma agrees_map:
  assumes "step_agrees sb r p"
  shows "step_agrees sb (andthen r (\<lambda>(sb1, d). Inr (sb1, f d))) (map_option (\<lambda>(d, r). (f d, r)) p)"
  using assms by (auto simp: step_agrees_def split: option.splits)

lemma lendata_agrees:
  assumes wf: "wf_buffer sb"
  shows "step_agrees sb (unf_lendata n get sb)
    (map_option (\<lambda>(l, d, r). ((l, d), r)) (rd_lendata n get (sb_bytes sb)))"
proof (cases "rd n (sb_bytes sb)")
  case None
  with wf show ?thesis
    by (auto simp: step_agrees_def unf_lendata_def rd_lendata_def unf_take_rd intro: exI [of _ 0])
next
  case (Some lr)
  obtain l r where lr: "lr = (l, r)" by fastforce
  with Some have n: "n \<le> silc_buffer_len sb" and r: "sb_bytes (adv sb n) = r"
    using wf by (auto simp: length_sb_bytes sb_bytes_adv dest: rd_SomeD)
  then have wf1: "wf_buffer (adv sb n)" and len1: "silc_buffer_len (adv sb n) = silc_buffer_len sb - n"
    using wf by (auto simp: wf_adv len_adv)
  have one: "unf_take sb n = Inr (adv sb n, l)"
    using Some lr wf by (simp add: unf_take_rd)
  show ?thesis
  proof (cases "rd (get l) r")
    case None
    with Some lr one r n unf_take_rd [OF wf1, of "get l"] show ?thesis
      by (auto simp: step_agrees_def unf_lendata_def rd_lendata_def)
  next
    case (Some dr)
    obtain d r' where dr: "dr = (d, r')" by fastforce
    with Some r len1 wf1 have "get l \<le> silc_buffer_len sb - n" and r': "r' = drop (get l) r"
      by (auto simp: length_sb_bytes [symmetric] dest: rd_SomeD)
    then have k: "n + get l \<le> silc_buffer_len sb" using n by simp
    have "unf_lendata n get sb = Inr (adv sb (n + get l), l, d)"
      using one Some dr r unf_take_rd [OF wf1, of "get l"] by (simp add: unf_lendata_def)
    moreover have "sb_bytes (adv sb (n + get l)) = r'"
      unfolding r' r [symmetric] by (simp add: sb_bytes_adv add.commute)
    ultimately show ?thesis
      using k \<open>rd n (sb_bytes sb) = Some lr\<close> lr Some dr
      by (auto simp: step_agrees_def rd_lendata_def)
  qed
qed

lemma rd_lendata_len: "rd_lendata n get bs = Some (l, d, r) \<Longrightarrow> length d = get l"
  by (auto simp: rd_lendata_def dest: rd_SomeD split: option.splits)

lemma lendata_agrees_map:
  assumes "wf_buffer sb" and "\<And>l d. length d = get l \<Longrightarrow> f l d = g l d"
  shows "step_agrees sb (andthen (unf_lendata n get sb) (\<lambda>(sb1, l, d). Inr (sb1, f l d)))
    (map_option (\<lambda>(l, d, r). (g l d, r)) (rd_lendata n get (sb_bytes sb)))"
  using lendata_agrees [OF assms(1), of n get] assms(2) rd_lendata_len [of n get "sb_bytes sb"]
  by (auto simp: step_agrees_def split: option.splits)

lemma unformat_step_agrees:
  assumes "wf_buffer sb" and "unf_plain p"
  shows "step_agrees sb (unformat_step p sb) (parse_step p (sb_bytes sb))"
proof -
  have datF: "step_agrees sb (unf_data False n sb)
      (map_option (\<lambda>(d, r). ([VPtr (if n = 0 then None else Some d)], r)) (rd n (sb_bytes sb)))" for n
    using agrees_map [OF take_agrees [OF assms(1)], of n "\<lambda>d. [VPtr (if n = 0 then None else Some d)]"]
    by (simp add: unf_data_def cong: if_cong)
  have al: "map_option (\<lambda>(d, r). ([VPtr (if n = 0 then None else alloc_copy d)], r)) (rd n bs) =
      map_option (\<lambda>(d, r). ([VPtr (opt_copy True d)], r)) (rd n bs)" for n bs
    by (auto simp: opt_copy_def rd_def)
  have datT: "step_agrees sb (unf_data True n sb)
      (map_option (\<lambda>(d, r). ([VPtr (opt_copy True d)], r)) (rd n (sb_bytes sb)))" for n
    using agrees_map [OF take_agrees [OF assms(1)], of n "\<lambda>d. [VPtr (if n = 0 then None else alloc_copy d)]"]
    by (simp add: unf_data_def al cong: if_cong)
  have int: "step_agrees sb (unf_int n get sb)
      (map_option (\<lambda>(d, r). ([get d], r)) (rd n (sb_bytes sb)))" for n get
    unfolding unf_int_def by (rule agrees_map [OF take_agrees [OF assms(1)]])
  have str: "step_agrees sb (unf_string alloc n get sb)
      (map_option (\<lambda>(l, d, r). ([VPtr (opt_copy alloc d)], r)) (rd_lendata n get (sb_bytes sb)))"
    for alloc n get
    unfolding unf_string_def by (rule lendata_agrees_map [OF assms(1)]) (auto simp: opt_copy_def)
  have nstr: "step_agrees sb (unf_nstring alloc n get val sb)
      (map_option (\<lambda>(l, d, r). ([val l, VPtr (opt_copy alloc d)], r)) (rd_lendata n get (sb_bytes sb)))"
    for alloc n get val
    unfolding unf_nstring_def by (rule lendata_agrees_map [OF assms(1)]) (auto simp: opt_copy_def)
  have buf: "step_agrees sb (unf_buffer sb)
      (map_option (\<lambda>(l, d, r). ([VBuf (silc_buffer_set d)], r)) (rd_lendata 4 get32 (sb_bytes sb)))"
    unfolding unf_buffer_def by (rule lendata_agrees_map [OF assms(1)]) simp
  have bad: "step_agrees sb (Inl sb) None"
    by (auto simp: step_agrees_def intro: exI [of _ 0])
  show ?thesis
    using assms(2) datF datT int str [of True] nstr [of True] buf bad
      str [of False, unfolded opt_copy_def, simplified]
      nstr [of False, unfolded opt_copy_def, simplified]
    by (cases p) simp_all
qed

text \<open>The whole decoder, for parameters that only read.\<close>

lemma unformat_rewind_adv:
  "wf_buffer sb \<Longrightarrow> k \<le> silc_buffer_len sb \<Longrightarrow> unformat_rewind (sb_data sb) (adv sb k) = sb"
  using silc_buffer_len_less [of sb]
  by (simp add: unformat_rewind_def silc_arith push_ok)

lemma unformat_loop:
  assumes "wf_buffer sb" and "list_all unf_plain ps" and "k \<le> silc_buffer_len sb"
  shows "\<exists>ws. silc_buffer_sunformat_vp (sb_data sb) ps False (adv sb k, vs) =
    (sb, case parse_all ps (sb_bytes (adv sb k)) of
           None \<Rightarrow> (-1, ws)
         | Some (us, r) \<Rightarrow> (int (silc_buffer_len sb) - int (length r), vs @ us))"
  using assms(2,3)
proof (induction ps arbitrary: k vs)
  case Nil
  have "length (sb_bytes (adv sb k)) = silc_buffer_len sb - k"
    using Nil assms(1) by (simp add: sb_bytes_adv length_sb_bytes)
  with Nil assms(1) show ?case
    by (simp add: unformat_rewind_adv)
next
  case (Cons p ps)
  note wf1 = wf_adv [OF assms(1) Cons.prems(2)]
  have na: "(case p of UNF_ADVANCE \<Rightarrow> True | _ \<Rightarrow> False) = False"
    using Cons.prems(1) by (cases p) auto
  have agr: "step_agrees (adv sb k) (unformat_step p (adv sb k)) (parse_step p (sb_bytes (adv sb k)))"
    using wf1 Cons.prems(1) by (intro unformat_step_agrees) auto
  show ?case
  proof (cases "parse_step p (sb_bytes (adv sb k))")
    case None
    with agr obtain j where "j \<le> silc_buffer_len (adv sb k)"
      and "unformat_step p (adv sb k) = Inl (adv sb (k + j))"
      by (auto simp: step_agrees_def)
    with None Cons.prems assms(1) show ?thesis
      by (auto simp: len_adv unformat_rewind_adv)
  next
    case (Some vr)
    obtain v r where vr: "vr = (v, r)" by fastforce
    with Some agr obtain j where j: "j \<le> silc_buffer_len (adv sb k)"
      and st: "unformat_step p (adv sb k) = Inr (adv sb (k + j), v)"
      and r: "sb_bytes (adv sb (k + j)) = r"
      by (auto simp: step_agrees_def)
    have "k + j \<le> silc_buffer_len sb"
      using j Cons.prems assms(1) by (simp add: len_adv)
    from Cons.IH [OF _ this, of "vs @ v"] Cons.prems(1) obtain ws where
      "silc_buffer_sunformat_vp (sb_data sb) ps False (adv sb (k + j), vs @ v) =
        (sb, case parse_all ps r of
           None \<Rightarrow> (-1, ws)
         | Some (us, r') \<Rightarrow> (int (silc_buffer_len sb) - int (length r'), (vs @ v) @ us))"
      using r by auto
    with Some vr st na show ?thesis
      by (auto split: option.splits)
  qed
qed

lemma unformat_parse:
  assumes "wf_buffer sb" and "list_all unf_plain ps"
  shows "\<exists>ws. silc_buffer_unformat sb ps =
    (sb, case parse_all ps (sb_bytes sb) of
           None \<Rightarrow> (-1, ws)
         | Some (us, r) \<Rightarrow> (int (silc_buffer_len sb) - int (length r), us))"
  using unformat_loop [OF assms, of 0 "[]"]
  by (auto simp: silc_buffer_unformat_def split: option.splits)

text \<open>The two ways a caller sees it: failure is the value -1, success never is.\<close>

lemma unformat_None:
  assumes "wf_buffer sb" and "list_all unf_plain ps" and "parse_all ps (sb_bytes sb) = None"
  obtains ws where "silc_buffer_unformat sb ps = (sb, -1, ws)"
  using unformat_parse [OF assms(1,2)] assms(3) by auto

lemma parse_step_rest: "parse_step p bs = Some (v, r) \<Longrightarrow> length r \<le> length bs"
  by (cases p) (auto simp: rd_def rd_lendata_def split: if_splits option.splits)

lemma parse_all_rest: "parse_all ps bs = Some (vs, r) \<Longrightarrow> length r \<le> length bs"
proof (induction ps arbitrary: bs vs r)
  case (Cons p ps)
  then obtain v b' us where "parse_step p bs = Some (v, b')" and "parse_all ps b' = Some (us, r)"
    by (auto split: option.splits prod.splits)
  with Cons.IH [of b' us r] parse_step_rest [of p bs v b'] show ?case
    by simp
qed simp

lemma unformat_Some:
  assumes "wf_buffer sb" and "list_all unf_plain ps"
    and "parse_all ps (sb_bytes sb) = Some (vs, r)"
  shows "silc_buffer_unformat sb ps = (sb, int (silc_buffer_len sb - length r), vs)"
  using unformat_parse [OF assms(1,2)] assms(3) parse_all_rest [OF assms(3)] assms(1)
  by (auto simp: length_sb_bytes)

section \<open>Reading back what was written\<close>

named_theorems parse_simps \<open>the decoder on the encoder's bytes\<close>

lemma rd_append [parse_simps]:
  "n = length d \<Longrightarrow> n + 1 < u32_max \<Longrightarrow> rd n (d @ r) = Some (d, r)"
  by (simp add: rd_def)

lemma parse_UI8 [parse_simps]: "parse_step UNF_UI8_CHAR (x # r) = Some ([V8 x], r)"
  by (simp add: rd_def u32_max_def)

lemma parse_UI16 [parse_simps]:
  "parse_step UNF_UI16_SHORT (SILC_PUT16_MSB x @ r) = Some ([V16 x], r)"
  by (simp add: rd_append u32_max_def)

lemma parse_UI32 [parse_simps]:
  "parse_step UNF_UI32_INT (SILC_PUT32_MSB x @ r) = Some ([V32 x], r)"
  by (simp add: rd_append u32_max_def)

lemma parse_UI64 [parse_simps]:
  "parse_step UNF_UI64_INT (SILC_PUT64_MSB x @ r) = Some ([V64 x], r)"
  by (simp add: rd_append u32_max_def)

lemma parse_DATA [parse_simps]:
  "n = length d \<Longrightarrow> n + 1 < u32_max \<Longrightarrow>
   parse_step (UNF_DATA n) (d @ r) = Some ([VPtr (if n = 0 then None else Some d)], r)"
  by (simp add: rd_append)

lemma parse_DATA_ALLOC [parse_simps]:
  "n = length d \<Longrightarrow> n + 1 < u32_max \<Longrightarrow>
   parse_step (UNF_DATA_ALLOC n) (d @ r) = Some ([VPtr (opt_copy True d)], r)"
  by (simp add: rd_append)

lemma parse_NSTRING16_ALLOC [parse_simps]:
  "unat x = length d \<Longrightarrow>
   parse_step UNF_UI16_NSTRING_ALLOC (SILC_PUT16_MSB x @ d @ r) =
     Some ([V16 x, VPtr (opt_copy True d)], r)"
  using unat_u16_less [of x]
  by (simp add: rd_append rd_lendata_def u32_max_def del: unat_u16_less)

lemma parse_NSTRING16 [parse_simps]:
  "unat x = length d \<Longrightarrow>
   parse_step UNF_UI16_NSTRING (SILC_PUT16_MSB x @ d @ r) = Some ([V16 x, VPtr (Some d)], r)"
  using unat_u16_less [of x]
  by (simp add: rd_append rd_lendata_def u32_max_def del: unat_u16_less)

lemmas parse_simps_end [parse_simps] =
  parse_UI16 [of _ "[]", simplified] parse_UI32 [of _ "[]", simplified]
  parse_DATA [of _ _ "[]", simplified] parse_DATA_ALLOC [of _ _ "[]", simplified]
  parse_NSTRING16_ALLOC [of _ _ "[]", simplified] parse_NSTRING16 [of _ _ "[]", simplified]

lemma opt_copy_small:
  "length d + 1 < SILC_MAX_ALLOC \<Longrightarrow> opt_copy True d = (if d = [] then None else Some d)"
  by (simp add: opt_copy_def alloc_copy_def silc_calloc_def)

lemma opt_copy_16 [simp]:
  "length d < 65536 \<Longrightarrow> opt_copy True d = (if d = [] then None else Some d)"
  by (simp add: opt_copy_small SILC_MAX_ALLOC_def)

text \<open>The converse: bytes the decoder accepts are the encoding of what it returns.\<close>

lemma rd_inv: "rd n bs = Some (d, r) \<Longrightarrow> bs = d @ r \<and> length d = n"
  by (auto simp: rd_def split: if_splits)

lemma two_bytes: "length d = 2 \<Longrightarrow> SILC_PUT16_MSB (SILC_GET16_MSB d) = d"
  by (auto simp: length_Suc_conv numeral_2_eq_2 PUT16_GET16_MSB)

lemma four_bytes: "length d = 4 \<Longrightarrow> SILC_PUT32_MSB (SILC_GET32_MSB d) = d"
  by (auto simp: length_Suc_conv eval_nat_numeral PUT32_GET32_MSB)

lemma parse_UI8_inv: "parse_step UNF_UI8_CHAR bs = Some (v, r) \<Longrightarrow> \<exists>x. v = [V8 x] \<and> bs = x # r"
  by (auto dest!: rd_inv simp: length_Suc_conv)

lemma parse_UI16_inv:
  "parse_step UNF_UI16_SHORT bs = Some (v, r) \<Longrightarrow> \<exists>x. v = [V16 x] \<and> bs = SILC_PUT16_MSB x @ r"
  by (auto dest!: rd_inv simp: two_bytes)

lemma parse_UI32_inv:
  "parse_step UNF_UI32_INT bs = Some (v, r) \<Longrightarrow> \<exists>x. v = [V32 x] \<and> bs = SILC_PUT32_MSB x @ r"
  by (auto dest!: rd_inv simp: four_bytes)

lemma parse_DATA_ALLOC_inv:
  "parse_step (UNF_DATA_ALLOC n) bs = Some (v, r) \<Longrightarrow>
   \<exists>d. v = [VPtr (opt_copy True d)] \<and> bs = d @ r \<and> length d = n"
  by (auto dest!: rd_inv)

lemma parse_DATA_inv:
  "parse_step (UNF_DATA n) bs = Some (v, r) \<Longrightarrow>
   \<exists>d. v = [VPtr (if n = 0 then None else Some d)] \<and> bs = d @ r \<and> length d = n"
  by (auto dest!: rd_inv)

lemma rd_lendata_inv:
  "rd_lendata n get bs = Some (l, d, r) \<Longrightarrow> bs = l @ d @ r \<and> length l = n \<and> length d = get l"
  by (auto simp: rd_lendata_def dest!: rd_inv split: option.splits)

lemma parse_NSTRING16_ALLOC_inv:
  assumes "parse_step UNF_UI16_NSTRING_ALLOC bs = Some (v, r)"
  shows "\<exists>d. v = [V16 (of_nat (length d)), VPtr (if d = [] then None else Some d)]
    \<and> bs = SILC_PUT16_MSB (of_nat (length d)) @ d @ r \<and> length d < 65536"
proof -
  from assms obtain l d where v: "v = [V16 (SILC_GET16_MSB l), VPtr (opt_copy True d)]"
    and "rd_lendata 2 get16 bs = Some (l, d, r)"
    by auto
  then have bs: "bs = l @ d @ r" and l: "length l = 2" and d: "length d = get16 l"
    by (auto dest: rd_lendata_inv)
  have "SILC_GET16_MSB l = of_nat (length d)"
    by (simp add: d)
  moreover have "l = SILC_PUT16_MSB (of_nat (length d))"
    using l two_bytes [OF l] by (simp add: d)
  moreover have "length d < 65536"
    by (simp add: d)
  ultimately show ?thesis
    using v bs by auto
qed

lemmas parse_inv = parse_UI8_inv parse_UI16_inv parse_UI32_inv parse_DATA_inv
  parse_DATA_ALLOC_inv parse_NSTRING16_ALLOC_inv

text \<open>The parameter that reads what a parameter wrote, and the values it stores.\<close>

fun unf_of :: "fmt_param \<Rightarrow> unf_param" where
  "unf_of (FMT_CHAR x) = UNF_UI8_CHAR"
| "unf_of (FMT_SHORT x) = UNF_UI16_SHORT"
| "unf_of (FMT_INT x) = UNF_UI32_INT"
| "unf_of (FMT_INT64 x) = UNF_UI64_INT"
| "unf_of p = UNF_DATA (length (fmt_bytes p))"

fun val_of :: "fmt_param \<Rightarrow> unf_val" where
  "val_of (FMT_CHAR x) = V8 x"
| "val_of (FMT_SHORT x) = V16 x"
| "val_of (FMT_INT x) = V32 x"
| "val_of (FMT_INT64 x) = V64 x"
| "val_of p = VPtr (if fmt_bytes p = [] then None else Some (fmt_bytes p))"

lemma unf_plain_unf_of: "list_all unf_plain (map unf_of ps)"
proof (induction ps)
  case (Cons p ps)
  then show ?case by (cases p) auto
qed simp

lemma parse_unf_of:
  "fmt_plain p \<Longrightarrow> length (fmt_bytes p) + 1 < u32_max \<Longrightarrow>
   parse_step (unf_of p) (fmt_bytes p @ r) = Some ([val_of p], r)"
  by (cases p) (auto simp: parse_simps simp del: parse_step.simps)

lemma parse_all_unf_of:
  assumes "list_all fmt_plain ps" and "length (fmt_all ps) + 1 < u32_max"
  shows "parse_all (map unf_of ps) (fmt_all ps @ r) = Some (map val_of ps, r)"
  using assms by (induction ps) (simp_all add: parse_unf_of)

section \<open>Properties\<close>

text \<open>
  Formatting writes exactly the encodings of its parameters, in order, at the place the buffer
  stands: afterwards the buffer shows these bytes followed by what it showed behind them, the
  bytes before \<open>data\<close> are untouched, \<open>data\<close> has not moved, the buffer is well-formed and the
  returned value is the number of bytes written. This holds whether or not the buffer had to be
  grown and whatever the fresh memory contained.
\<close>

theorem silc_buffer_format_writes:
  assumes "wf_buffer sb" and "list_all fmt_plain ps"
    and "sb_data sb + length (fmt_all ps) < SILC_MAX_ALLOC"
  shows "sb_bytes (fst (silc_buffer_format J sb ps)) =
      fmt_all ps @ drop (length (fmt_all ps)) (sb_bytes sb)
    \<and> take (sb_data sb) (sb_mem (fst (silc_buffer_format J sb ps))) = take (sb_data sb) (sb_mem sb)
    \<and> sb_data (fst (silc_buffer_format J sb ps)) = sb_data sb
    \<and> wf_buffer (fst (silc_buffer_format J sb ps))
    \<and> snd (silc_buffer_format J sb ps) = int (length (fmt_all ps))"
  using sb_bytes_format [OF assms] by simp

theorem silc_buffer_format_writes_witness:
  "sb_bytes (fst (silc_buffer_format (\<lambda>_. 255) silc_buffer_empty
     [FMT_SHORT 258, FMT_CHAR 7, FMT_NSTRING (Some [1, 2, 3]) 2])) = [1, 2, 7, 1, 2]"
  using silc_buffer_format_writes [of silc_buffer_empty
      "[FMT_SHORT 258, FMT_CHAR 7, FMT_NSTRING (Some [1, 2, 3]) 2]" "\<lambda>_. 255"]
  by (simp add: SILC_MAX_ALLOC_def SILC_PUT16_MSB_def)



text \<open>
  C18. The decoder inverts the encoder: unformatting a formatted buffer with the matching
  parameters returns every formatted value and the number of bytes that were written.
\<close>

theorem silc_buffer_format_unformat:
  assumes "wf_buffer sb" and "list_all fmt_plain ps"
    and "sb_data sb + length (fmt_all ps) < SILC_MAX_ALLOC"
    and "silc_buffer_format J sb ps = (sb', n)"
  shows "silc_buffer_unformat sb' (map unf_of ps) = (sb', n, map val_of ps)"
proof -
  note w = sb_bytes_format [OF assms(1-3), of J, unfolded assms(4)]
  have len: "length (fmt_all ps) + 1 < u32_max"
    using assms(3) by (simp add: SILC_MAX_ALLOC_def u32_max_def)
  have "parse_all (map unf_of ps) (sb_bytes sb') =
      Some (map val_of ps, drop (length (fmt_all ps)) (sb_bytes sb))"
    using parse_all_unf_of [OF assms(2) len] w(1) by simp
  moreover have "silc_buffer_len sb' - length (drop (length (fmt_all ps)) (sb_bytes sb)) = length (fmt_all ps)"
    using w(1,5) length_sb_bytes [of sb'] by simp
  ultimately show ?thesis
    using unformat_Some [of sb' "map unf_of ps"] w(4,5) unf_plain_unf_of by simp
qed

theorem silc_buffer_format_unformat_witness:
  "silc_buffer_unformat (silc_buffer_set [1, 2, 7]) [UNF_UI16_SHORT, UNF_UI8_CHAR] =
     (silc_buffer_set [1, 2, 7], 3, [V16 258, V8 7])"
proof -
  have "silc_buffer_format (\<lambda>_. 0) (silc_buffer_set [0, 0, 0]) [FMT_SHORT 258, FMT_CHAR 7] =
      (silc_buffer_set [1, 2, 7], 3)"
    using format_fits [of "silc_buffer_set [0, 0, 0]" "[FMT_SHORT 258, FMT_CHAR 7]" "\<lambda>_. 0"]
    by (simp add: u32_max_def SILC_PUT16_MSB_def memcpy_def silc_buffer_set_def [of "[1, 2, 7]"])
  then show ?thesis
    using silc_buffer_format_unformat [of "silc_buffer_set [0, 0, 0]"
        "[FMT_SHORT 258, FMT_CHAR 7]" "\<lambda>_. 0" "silc_buffer_set [1, 2, 7]" 3]
    by (simp add: u32_max_def SILC_MAX_ALLOC_def)
qed

text \<open>
  An offset of one byte does not move the decoder: \<open>SILC_STR_OFFSET(1)\<close> is treated as a
  backward offset of 4294967295 bytes, which \<open>silc_buffer_push\<close> refuses, so what follows is read
  one byte too early, while an offset of two bytes does skip two bytes.
\<close>

theorem silc_buffer_unformat_offset_one:
  assumes "length bs + 3 < u32_max"
  shows "silc_buffer_unformat (silc_buffer_set (a # b # c # bs)) [UNF_OFFSET 1, UNF_UI8_CHAR] =
      (silc_buffer_set (a # b # c # bs), 1, [V8 a])
    \<and> silc_buffer_unformat (silc_buffer_set (a # b # c # bs)) [UNF_OFFSET 2, UNF_UI8_CHAR] =
      (silc_buffer_set (a # b # c # bs), 3, [V8 c])"
proof -
  let ?sb = "silc_buffer_set (a # b # c # bs)"
  have wf: "wf_buffer ?sb" and len: "silc_buffer_len ?sb = length bs + 3"
    using assms by (simp_all add: wf_buffer_set)
  have m1: "cast32 (-1) = 4294967295"
    by (simp add: cast32_def u32_max_def)
  have sp: "unf_take ?sb 1 = Inr (adv ?sb 1, [a])" "unf_take (adv ?sb 2) 1 = Inr (adv ?sb 3, [c])"
    using unf_take_rd [OF wf, of 1] unf_take_rd [OF wf_adv [OF wf], of 2 1] len assms
    by (simp_all add: rd_def sb_bytes_adv u32_max_def)
  have "unf_offset 1 ?sb = Inr (?sb, [])"
    by (simp add: unf_offset_def silc_buffer_push_def m1)
  moreover have "unf_offset 2 ?sb = Inr (adv ?sb 2, [])"
    using len assms by (simp add: unf_offset_def unformat_has_space_def add32_def pull_ok adv_def u32_max_def)
  moreover have "unformat_rewind 0 (adv ?sb k) = ?sb" if "k \<le> 3" for k
    using unformat_rewind_adv [OF wf, of k] that len by simp
  ultimately show ?thesis
    by (simp add: silc_buffer_unformat_def unf_int_def sp sp [unfolded One_nat_def])
qed

theorem silc_buffer_unformat_offset_one_witness:
  "silc_buffer_unformat (silc_buffer_set [10, 20, 30]) [UNF_OFFSET 1, UNF_UI8_CHAR] =
     (silc_buffer_set [10, 20, 30], 1, [V8 10])"
  using silc_buffer_unformat_offset_one [of "[]" 10 20 30] by (simp add: u32_max_def)

end
