(* ===== verification/Silc_Codec.thy ===== *)
theory Silc_Codec
  imports Silc_Buffmt
begin

text \<open>
  What the payload modules of \<open>lib/silccore\<close> and \<open>lib/silcske\<close> share: the idiom
  \<open>ret = silc_buffer_unformat(...); if (ret == -1) goto err;\<close>, the idiom of allocating a buffer
  of the computed length and formatting into it, and the contract between an encoder and its
  parser, stated as a locale that each payload module interprets.
\<close>

section \<open>The decoding idiom\<close>

definition with_unformat ::
    "silc_buffer \<Rightarrow> unf_param list \<Rightarrow> 'a \<Rightarrow> (silc_buffer \<Rightarrow> unf_val list \<Rightarrow> 'a) \<Rightarrow> 'a" where
  "with_unformat sb ps err k =
     (let (sb', ret, vs) = silc_buffer_unformat sb ps in if ret = -1 then err else k sb' vs)"

lemma with_unformat_parse:
  assumes "wf_buffer sb" and "list_all unf_plain ps"
  shows "with_unformat sb ps err k =
    (case parse_all ps (sb_bytes sb) of None \<Rightarrow> err | Some (vs, r) \<Rightarrow> k sb vs)"
proof (cases "parse_all ps (sb_bytes sb)")
  case None
  from unformat_None [OF assms None] obtain ws where "silc_buffer_unformat sb ps = (sb, -1, ws)" .
  with None show ?thesis by (simp add: with_unformat_def)
next
  case (Some vr)
  obtain vs r where "vr = (vs, r)" by fastforce
  with unformat_Some [OF assms, of vs r] Some show ?thesis by (simp add: with_unformat_def)
qed

lemma with_unformat_set:
  assumes "length d < u32_max" and "list_all unf_plain ps"
  shows "with_unformat (silc_buffer_set d) ps err k =
    (case parse_all ps d of None \<Rightarrow> err | Some (vs, r) \<Rightarrow> k (silc_buffer_set d) vs)"
  using with_unformat_parse [of "silc_buffer_set d" ps err k] assms by simp

lemma with_unformat_ok:
  assumes "wf_buffer sb" and "list_all unf_plain ps" and "parse_all ps (sb_bytes sb) = Some (vs, r)"
  shows "with_unformat sb ps err k = k sb vs"
  using assms by (simp add: with_unformat_parse)

lemma with_unformat_fail:
  assumes "wf_buffer sb" and "list_all unf_plain ps" and "parse_all ps (sb_bytes sb) = None"
  shows "with_unformat sb ps err k = err"
  using assms by (simp add: with_unformat_parse)

text \<open>\<open>silc_buffer_pull\<close> on a buffer set to a received payload.\<close>

lemma pull_set:
  assumes "length d < u32_max" and "n \<le> length d"
  shows "fst (silc_buffer_pull (silc_buffer_set d) n) = adv (silc_buffer_set d) n"
  using assms by (simp add: pull_ok adv_def)

lemma adv_set_facts:
  assumes "length d < u32_max" and "n \<le> length d"
  shows "wf_buffer (adv (silc_buffer_set d) n)"
    and "silc_buffer_len (adv (silc_buffer_set d) n) = length d - n"
    and "sb_bytes (adv (silc_buffer_set d) n) = drop n d"
  using assms by (simp_all add: wf_adv len_adv sb_bytes_adv)

lemma with_unformat_adv:
  assumes "length d < u32_max" and "n \<le> length d" and "list_all unf_plain ps"
  shows "with_unformat (adv (silc_buffer_set d) n) ps err k =
    (case parse_all ps (drop n d) of None \<Rightarrow> err | Some (vs, r) \<Rightarrow> k (adv (silc_buffer_set d) n) vs)"
  using with_unformat_parse [OF adv_set_facts(1) [OF assms(1,2)] assms(3), of err k]
    adv_set_facts(3) [OF assms(1,2)] by simp

text \<open>
  Decoding with \<open>SILC_STR_ADVANCE\<close>, where \<open>data\<close> stays behind what was read, and with offsets
  that skip zero or more than one byte.
\<close>

fun unf_skip :: "unf_param \<Rightarrow> bool" where
  "unf_skip (UNF_OFFSET n) = (n = 0 \<or> 1 < n)"
| "unf_skip p = unf_plain p"

fun skip_step :: "unf_param \<Rightarrow> bytes \<Rightarrow> (unf_val list \<times> bytes) option" where
  "skip_step (UNF_OFFSET n) bs = map_option (\<lambda>(d, r). ([], r)) (rd (nat n) bs)"
| "skip_step p bs = parse_step p bs"

fun parse_skip :: "unf_param list \<Rightarrow> bytes \<Rightarrow> (unf_val list \<times> bytes) option" where
  "parse_skip [] bs = Some ([], bs)"
| "parse_skip (p # ps) bs =
     (case skip_step p bs of
        None \<Rightarrow> None
      | Some (v, r) \<Rightarrow>
          (case parse_skip ps r of None \<Rightarrow> None | Some (vs, r') \<Rightarrow> Some (v @ vs, r')))"

lemma skip_step_agrees:
  assumes "wf_buffer sb" and "unf_skip p"
  shows "step_agrees sb (unformat_step p sb) (skip_step p (sb_bytes sb))"
proof (cases p)
  case (UNF_OFFSET n)
  then have n: "n = 0 \<or> 1 < n" using assms(2) by simp
  show ?thesis
  proof (cases "n = 0")
    case True
    have "step_agrees sb (Inr (sb, [])) (Some ([] :: unf_val list, sb_bytes sb))"
      by (auto simp: step_agrees_def intro!: exI [of _ 0])
    then show ?thesis using UNF_OFFSET True by (simp add: unf_offset_def rd_def u32_max_def)
  next
    case False
    then have "unf_offset n sb = andthen (unf_take sb (nat n)) (\<lambda>(sb1, d). Inr (sb1, []))"
      using n by (simp add: unf_offset_def unf_take_def)
    then show ?thesis
      using UNF_OFFSET agrees_map [OF take_agrees [OF assms(1)], of "nat n" "\<lambda>d. []"] by simp
  qed
qed (use assms unformat_step_agrees [OF assms(1), of p] in auto)

lemma unformat_loop_adv:
  assumes "wf_buffer sb" and "list_all unf_skip ps" and "k \<le> silc_buffer_len sb"
  shows "\<exists>ws. silc_buffer_sunformat_vp (sb_data sb) ps True (adv sb k, vs) =
    (case parse_skip ps (sb_bytes (adv sb k)) of
       None \<Rightarrow> (sb, -1, ws)
     | Some (us, r) \<Rightarrow> (adv sb (silc_buffer_len sb - length r), 0, vs @ us))"
  using assms(2,3)
proof (induction ps arbitrary: k vs)
  case Nil
  have "length (sb_bytes (adv sb k)) = silc_buffer_len sb - k"
    using Nil assms(1) by (simp add: sb_bytes_adv length_sb_bytes)
  with Nil show ?case by simp
next
  case (Cons p ps)
  note wf1 = wf_adv [OF assms(1) Cons.prems(2)]
  have agr: "step_agrees (adv sb k) (unformat_step p (adv sb k)) (skip_step p (sb_bytes (adv sb k)))"
    using wf1 Cons.prems(1) by (intro skip_step_agrees) auto
  show ?case
  proof (cases "skip_step p (sb_bytes (adv sb k))")
    case None
    with agr obtain j where "j \<le> silc_buffer_len (adv sb k)"
      and "unformat_step p (adv sb k) = Inl (adv sb (k + j))"
      by (auto simp: step_agrees_def)
    with None Cons.prems assms(1) show ?thesis
      by (auto simp: len_adv unformat_rewind_adv)
  next
    case (Some vr)
    obtain v r where vr: "vr = (v, r)" by fastforce
    with Some agr obtain j where j: "j \<le> silc_buffer_len (adv sb k)"
      and st: "unformat_step p (adv sb k) = Inr (adv sb (k + j), v)"
      and r: "sb_bytes (adv sb (k + j)) = r"
      by (auto simp: step_agrees_def)
    have "k + j \<le> silc_buffer_len sb"
      using j Cons.prems assms(1) by (simp add: len_adv)
    from Cons.IH [OF _ this, of "vs @ v"] Cons.prems(1) obtain ws where
      "silc_buffer_sunformat_vp (sb_data sb) ps True (adv sb (k + j), vs @ v) =
        (case parse_skip ps r of
           None \<Rightarrow> (sb, -1, ws)
         | Some (us, r') \<Rightarrow> (adv sb (silc_buffer_len sb - length r'), 0, (vs @ v) @ us))"
      using r by auto
    with Some vr st show ?thesis
      by (auto split: option.splits unf_param.split)
  qed
qed

lemma with_unformat_advance:
  assumes "wf_buffer sb" and "list_all unf_skip ps"
  shows "with_unformat sb (UNF_ADVANCE # ps) err k =
    (case parse_skip ps (sb_bytes sb) of
       None \<Rightarrow> err
     | Some (vs, r) \<Rightarrow> k (adv sb (silc_buffer_len sb - length r)) vs)"
proof -
  from unformat_loop_adv [OF assms, of 0 "[]"] obtain ws where
    "silc_buffer_sunformat_vp (sb_data sb) ps True (sb, []) =
      (case parse_skip ps (sb_bytes sb) of
         None \<Rightarrow> (sb, -1, ws)
       | Some (us, r) \<Rightarrow> (adv sb (silc_buffer_len sb - length r), 0, us))"
    by (auto simp only: append_Nil adv_simps)
  then show ?thesis by (auto simp: with_unformat_def silc_buffer_unformat_def split: option.split)
qed

section \<open>The encoding idiom\<close>

text \<open>\<open>buffer = silc_buffer_alloc_size(len); silc_buffer_format(buffer, ...); return buffer;\<close>\<close>

definition alloc_format :: "junk \<Rightarrow> nat \<Rightarrow> fmt_param list \<Rightarrow> silc_buffer option" where
  "alloc_format J len ps =
     (case silc_buffer_alloc_size len of
        None \<Rightarrow> None
      | Some buffer \<Rightarrow> Some (fst (silc_buffer_format J buffer ps)))"

lemma alloc_format_exact:
  assumes "list_all fmt_plain ps" and "length (fmt_all ps) = n" and "n < SILC_MAX_ALLOC"
  shows "alloc_format J n ps = Some (silc_buffer_set (fmt_all ps))"
  using assms by (simp add: alloc_format_def alloc_size_Some format_alloc)

lemma alloc_format_None: "SILC_MAX_ALLOC \<le> n \<Longrightarrow> alloc_format J n ps = None"
  by (simp add: alloc_format_def alloc_size_cases)

text \<open>
  The idiom of the list encoders: format one item, pull over it, go on. In a buffer with room
  for all of them the items end up one behind the other.
\<close>

definition format_pull :: "junk \<Rightarrow> fmt_param list \<Rightarrow> nat \<Rightarrow> silc_buffer \<Rightarrow> silc_buffer" where
  "format_pull J ps n buffer = fst (silc_buffer_pull (fst (silc_buffer_format J buffer ps)) n)"

definition overwrite :: "silc_buffer \<Rightarrow> bytes \<Rightarrow> silc_buffer" where
  "overwrite sb d = sb\<lparr>sb_mem := memcpy (sb_mem sb) (sb_data sb) d\<rparr>"

lemma overwrite_simps [simp]:
  "sb_data (overwrite sb d) = sb_data sb" "sb_tail (overwrite sb d) = sb_tail sb"
  "silc_buffer_len (overwrite sb d) = silc_buffer_len sb"
  by (simp_all add: overwrite_def silc_buffer_len_def)

lemma wf_overwrite: "wf_buffer sb \<Longrightarrow> length d \<le> silc_buffer_len sb \<Longrightarrow> wf_buffer (overwrite sb d)"
  by (auto simp: wf_buffer_lens overwrite_def wf_buffer_def)

lemma overwrite_adv:
  assumes "wf_buffer sb" and "length d + length e \<le> silc_buffer_len sb"
  shows "overwrite (adv (overwrite sb d) (length d)) e = adv (overwrite sb (d @ e)) (length d)"
proof -
  have "sb_data sb + length d + length e \<le> length (sb_mem sb)"
    using assms by (auto simp: wf_buffer_lens wf_buffer_def)
  then show ?thesis
    by (cases sb) (simp add: overwrite_def adv_def memcpy_memcpy_adjacent)
qed

lemma overwrite_whole:
  "length d = n \<Longrightarrow> overwrite \<lparr>sb_mem = replicate n 0, sb_data = 0, sb_tail = n\<rparr> d = silc_buffer_set d"
  by (simp add: overwrite_def memcpy_def silc_buffer_set_def)

lemma format_pull_fits:
  assumes "wf_buffer sb" and "list_all fmt_plain ps" and "length (fmt_all ps) = n" and "n \<le> silc_buffer_len sb"
  shows "format_pull J ps n sb = adv (overwrite sb (fmt_all ps)) n"
proof -
  have "silc_buffer_format J sb ps = (overwrite sb (fmt_all ps), int n)"
    using format_fits [OF assms(1,2), of J] assms(3,4) by (simp add: overwrite_def)
  then show ?thesis
    using assms by (simp add: format_pull_def pull_ok adv_def)
qed

lemma format_pull_list:
  assumes "wf_buffer sb" and "\<And>x. x \<in> set xs \<Longrightarrow> list_all fmt_plain (ps x) \<and> length (fmt_all (ps x)) = n x"
    and "length (concat (map (\<lambda>x. fmt_all (ps x)) xs)) \<le> silc_buffer_len sb"
  shows "foldl (\<lambda>b x. format_pull J (ps x) (n x) b) sb xs =
    adv (overwrite sb (concat (map (\<lambda>x. fmt_all (ps x)) xs))) (length (concat (map (\<lambda>x. fmt_all (ps x)) xs)))"
  using assms
proof (induction xs arbitrary: sb)
  case Nil
  then show ?case by (simp add: overwrite_def)
next
  case (Cons x xs)
  let ?d = "fmt_all (ps x)" and ?e = "concat (map (\<lambda>x. fmt_all (ps x)) xs)"
  let ?b = "adv (overwrite sb ?d) (length ?d)"
  have x: "list_all fmt_plain (ps x)" "length ?d = n x" using Cons.prems(2) by auto
  have fit: "length ?d + length ?e \<le> silc_buffer_len sb" using Cons.prems(3) by simp
  have step: "format_pull J (ps x) (n x) sb = ?b"
    using format_pull_fits [OF Cons.prems(1) x(1) refl] fit x(2) by simp
  have wf: "wf_buffer ?b" and len: "silc_buffer_len ?b = silc_buffer_len sb - length ?d"
    using Cons.prems(1) fit by (simp_all add: wf_overwrite wf_adv len_adv)
  have room: "length ?e \<le> silc_buffer_len ?b"
    using fit len by linarith
  have "foldl (\<lambda>b x. format_pull J (ps x) (n x) b) ?b xs = adv (overwrite ?b ?e) (length ?e)"
    using Cons.prems(2) by (intro Cons.IH [OF wf _ room]) auto
  then show ?case
    using step overwrite_adv [OF Cons.prems(1) fit] by simp
qed

text \<open>The encoders that put a header of \<open>k\<close> bytes and then, behind it, a body.\<close>

definition format_body :: "junk \<Rightarrow> nat \<Rightarrow> fmt_param list \<Rightarrow> silc_buffer \<Rightarrow> silc_buffer" where
  "format_body J k ps buffer =
     fst (silc_buffer_push (fst (silc_buffer_format J (fst (silc_buffer_pull buffer k)) ps)) k)"

lemma format_body_fits:
  assumes "wf_buffer sb" and "list_all fmt_plain ps" and "length d = k"
    and "k + length (fmt_all ps) \<le> silc_buffer_len sb"
  shows "format_body J k ps (overwrite sb d) = overwrite sb (d @ fmt_all ps)"
proof -
  let ?b = "adv (overwrite sb d) k"
  have wf: "wf_buffer ?b" and len: "silc_buffer_len ?b = silc_buffer_len sb - k"
    using assms by (simp_all add: wf_overwrite wf_adv len_adv)
  have "fst (silc_buffer_pull (overwrite sb d) k) = ?b"
    using assms by (simp add: pull_ok adv_def)
  moreover have "fst (silc_buffer_format J ?b ps) = overwrite ?b (fmt_all ps)"
    using format_fits [OF wf assms(2), of J] len assms(4) by (simp add: overwrite_def)
  moreover have "overwrite ?b (fmt_all ps) = adv (overwrite sb (d @ fmt_all ps)) k"
    using overwrite_adv [OF assms(1), of d "fmt_all ps"] assms by simp
  ultimately show ?thesis
    by (simp add: format_body_def push_ok adv_def)
qed

lemma format_header_body:
  assumes "list_all fmt_plain hs" and "list_all fmt_plain ps" and "length (fmt_all hs) = k"
    and "k + length (fmt_all ps) = n" and "n < SILC_MAX_ALLOC"
  shows "format_body J k ps (fst (silc_buffer_format J \<lparr>sb_mem = replicate n 0, sb_data = 0, sb_tail = n\<rparr> hs)) =
    silc_buffer_set (fmt_all hs @ fmt_all ps)"
proof -
  let ?b = "\<lparr>sb_mem = replicate n 0, sb_data = 0, sb_tail = n\<rparr>"
  have wf: "wf_buffer ?b" and bl: "silc_buffer_len ?b = n"
    using max_alloc_less_u32 [OF assms(5)]
    by (simp_all add: wf_buffer_def silc_buffer_len_def silc_arith)
  have "fst (silc_buffer_format J ?b hs) = overwrite ?b (fmt_all hs)"
    using format_fits [OF wf assms(1), of J] assms(3,4) bl by (simp add: overwrite_def)
  with format_body_fits [OF wf assms(2,3), of J] assms(3,4) bl show ?thesis
    by (simp add: overwrite_whole)
qed

text \<open>The same with \<open>SILC_STR_OFFSET\<close> in place of pulling and pushing.\<close>

lemma format_offset_body:
  assumes "wf_buffer sb" and "list_all fmt_plain ps" and "1 < k"
    and "k + length (fmt_all ps) \<le> silc_buffer_len sb"
  shows "fst (silc_buffer_format J sb (FMT_OFFSET (int k) # ps)) = format_body J k ps sb"
proof -
  let ?b = "adv sb k" and ?n = "length (fmt_all ps)"
  have wf: "wf_buffer ?b" and fit: "?n \<le> silc_buffer_len ?b"
    using assms by (simp_all add: wf_adv len_adv)
  have pull: "fst (silc_buffer_pull sb k) = ?b"
    using assms by (simp add: pull_ok adv_def)
  have "format_step J (FMT_OFFSET (int k)) (sb, 0) = Inr (?b, int k)"
    using assms pull by (simp add: format_offset_def)
  then have "fst (silc_buffer_format J sb (FMT_OFFSET (int k) # ps)) =
      format_finish False (?b\<lparr>sb_mem := memcpy (sb_mem ?b) (sb_data ?b) (fmt_all ps),
             sb_data := sb_data ?b + ?n\<rparr>, int k + int ?n)"
    using format_loop_fits [OF wf assms(2) fit, of J "int k"]
    by (simp add: silc_buffer_format_def)
  also have "\<dots> = ?b\<lparr>sb_mem := memcpy (sb_mem ?b) (sb_data ?b) (fmt_all ps), sb_data := sb_data sb\<rparr>"
    using assms(4) silc_buffer_len_less [of sb]
    by (simp add: format_finish_def push_ok cast32_exact flip: of_nat_add)
  also have "\<dots> = format_body J k ps sb"
    using format_fits [OF wf assms(2) fit, of J] pull by (simp add: format_body_def push_ok)
  finally show ?thesis .
qed

text \<open>The list encoders: allocate \<open>len\<close> bytes, put every item, push back to the start.\<close>

definition alloc_format_list ::
    "junk \<Rightarrow> nat \<Rightarrow> ('a \<Rightarrow> fmt_param list) \<Rightarrow> ('a \<Rightarrow> nat) \<Rightarrow> 'a list \<Rightarrow> silc_buffer option" where
  "alloc_format_list J len ps n xs =
     (case silc_buffer_alloc_size len of
        None \<Rightarrow> None
      | Some buffer \<Rightarrow>
          Some (fst (silc_buffer_push (foldl (\<lambda>b x. format_pull J (ps x) (n x) b) buffer xs) len)))"

lemma alloc_format_list_exact:
  assumes items: "\<And>x. x \<in> set xs \<Longrightarrow>
      list_all fmt_plain (ps x) \<and> fmt_all (ps x) = g x \<and> length (g x) = n x"
    and small: "length (concat (map g xs)) < SILC_MAX_ALLOC"
    and len: "len = length (concat (map g xs))"
  shows "alloc_format_list J len ps n xs = Some (silc_buffer_set (concat (map g xs)))"
proof -
  let ?b = "\<lparr>sb_mem = replicate len 0, sb_data = 0, sb_tail = len\<rparr>"
  have wf: "wf_buffer ?b" and bl: "silc_buffer_len ?b = len"
    using max_alloc_less_u32 [OF small] len
    by (simp_all add: wf_buffer_def silc_buffer_len_def silc_arith)
  have eq: "map (\<lambda>x. fmt_all (ps x)) xs = map g xs"
    using items by simp
  have "foldl (\<lambda>b x. format_pull J (ps x) (n x) b) ?b xs = adv (overwrite ?b (concat (map g xs))) len"
    using format_pull_list [OF wf, of xs ps n J, unfolded eq] items bl len by auto
  moreover have "overwrite ?b (concat (map g xs)) = silc_buffer_set (concat (map g xs))"
    by (rule overwrite_whole) (simp add: len)
  ultimately show ?thesis
    using small by (simp add: alloc_format_list_def len alloc_size_Some push_ok adv_def)
qed

section \<open>The contract of an encoder and its parser\<close>

text \<open>
  \<open>valid\<close> are the inputs the encoder is made for, \<open>repr\<close> is the parsed payload that stands for
  an input.
\<close>

locale payload_codec =
  fixes encode :: "'a \<Rightarrow> silc_buffer option"
    and parse :: "bytes \<Rightarrow> 'b option"
    and valid :: "'a \<Rightarrow> bool"
    and repr :: "'a \<Rightarrow> 'b"
  assumes encode_valid: "valid x \<Longrightarrow> \<exists>b. encode x = Some b \<and> wf_buffer b"
    and parse_encode: "valid x \<Longrightarrow> encode x = Some b \<Longrightarrow> parse (sb_bytes b) = Some (repr x)"
begin

lemma roundtrip: "valid x \<Longrightarrow> \<exists>b. encode x = Some b \<and> wf_buffer b \<and> parse (sb_bytes b) = Some (repr x)"
  using encode_valid parse_encode by blast

text \<open>Two inputs with the same encoding stand for the same payload: the wire format is unambiguous.\<close>

lemma unambiguous:
  assumes "valid x" and "valid y" and "encode x = Some b" and "encode y = Some c"
    and "sb_bytes b = sb_bytes c"
  shows "repr x = repr y"
proof -
  have "Some (repr x) = parse (sb_bytes b)" using assms(1,3) by (simp add: parse_encode)
  also have "\<dots> = Some (repr y)" using assms(2,4,5) by (simp add: parse_encode)
  finally show ?thesis by simp
qed

end

text \<open>A parser that accepts nothing but encodings of valid inputs.\<close>

locale canonical_codec = payload_codec +
  assumes parse_canonical:
    "length bs < SILC_MAX_ALLOC \<Longrightarrow> parse bs = Some p \<Longrightarrow>
     \<exists>x b. valid x \<and> repr x = p \<and> encode x = Some b \<and> sb_bytes b = bs"
begin

lemma accepts_iff:
  assumes "length bs < SILC_MAX_ALLOC"
  shows "(\<exists>p. parse bs = Some p) \<longleftrightarrow> (\<exists>x b. valid x \<and> encode x = Some b \<and> sb_bytes b = bs)"
  using parse_canonical [OF assms] parse_encode by blast

end

section \<open>Data behind a 16-bit length\<close>

definition nonempty16 :: "bytes \<Rightarrow> bool" where
  "nonempty16 d \<longleftrightarrow> d \<noteq> [] \<and> length d < 65536"

definition field16 :: "bytes \<Rightarrow> bytes" where
  "field16 d = SILC_PUT16_MSB (of_nat (length d)) @ d"

lemma length_field16 [simp]: "length (field16 d) = 2 + length d"
  by (simp add: field16_def)

lemma parse_field16:
  "length d < 65536 \<Longrightarrow>
   parse_step UNF_UI16_NSTRING_ALLOC (field16 d @ r) =
     Some ([V16 (of_nat (length d)), VPtr (if d = [] then None else Some d)], r)"
  by (simp add: field16_def parse_NSTRING16_ALLOC del: parse_step.simps)

lemma parse_field16_inv:
  assumes "parse_step UNF_UI16_NSTRING_ALLOC bs = Some (v, r)"
  obtains d where "v = [V16 (of_nat (length d)), VPtr (if d = [] then None else Some d)]"
    "bs = field16 d @ r" "length d < 65536"
  using parse_NSTRING16_ALLOC_inv [OF assms] by (auto simp: field16_def)

end
