(* ===== verification/Silc_Id.thy ===== *)
theory Silc_Id
  imports Silc_Codec
begin

text \<open>
  \<open>lib/silccore/silcid.c\<close>: server, client and channel identifiers, their binary form
  (\<open>silc_id_id2str\<close>, \<open>silc_id_str2id\<close>) and the ID Payload that carries them.

  The C functions take an untyped pointer and a type number; the model's \<open>silc_id\<close> knows its type,
  so the fall-through of the switches on an unknown type is only modelled where the type number
  comes from the outside (\<open>silc_id_str2id\<close>). A struct field \<open>data[16]\<close> is a list of 16 bytes.
\<close>

section \<open>Identifiers\<close>

record silc_id_ip =
  ip_data :: bytes
  ip_data_len :: byte

datatype silc_id =
    ServerID silc_id_ip u16 u16
  | ClientID silc_id_ip byte bytes
  | ChannelID silc_id_ip u16 u16

definition SILC_ID_NONE :: u16 where "SILC_ID_NONE = 0"
definition SILC_ID_SERVER :: u16 where "SILC_ID_SERVER = 1"
definition SILC_ID_CLIENT :: u16 where "SILC_ID_CLIENT = 2"
definition SILC_ID_CHANNEL :: u16 where "SILC_ID_CHANNEL = 3"

lemmas id_type_defs = SILC_ID_NONE_def SILC_ID_SERVER_def SILC_ID_CLIENT_def SILC_ID_CHANNEL_def

definition CLIENTID_HASH_LEN :: nat where "CLIENTID_HASH_LEN = 11"
definition SILC_PACKET_MAX_ID_LEN :: nat where "SILC_PACKET_MAX_ID_LEN = 28"

text \<open>Sizes of the C structs: 17 bytes of address, then the 16-bit fields aligned to 2.\<close>

definition sizeof_SilcServerID :: nat where "sizeof_SilcServerID = 22"
definition sizeof_SilcClientID :: nat where "sizeof_SilcClientID = 29"
definition sizeof_SilcChannelID :: nat where "sizeof_SilcChannelID = 22"

definition ID_SERVER_LEN_PART :: nat where "ID_SERVER_LEN_PART = 4"
definition ID_CLIENT_LEN_PART :: nat where "ID_CLIENT_LEN_PART = CLIENTID_HASH_LEN + 1"
definition ID_CHANNEL_LEN_PART :: nat where "ID_CHANNEL_LEN_PART = 4"

lemmas id_len_defs = CLIENTID_HASH_LEN_def SILC_PACKET_MAX_ID_LEN_def sizeof_SilcServerID_def
  sizeof_SilcClientID_def sizeof_SilcChannelID_def ID_SERVER_LEN_PART_def ID_CLIENT_LEN_PART_def
  ID_CHANNEL_LEN_PART_def

fun id_type_of :: "silc_id \<Rightarrow> u16" where
  "id_type_of (ServerID ip port rnd) = SILC_ID_SERVER"
| "id_type_of (ClientID ip rnd hash) = SILC_ID_CLIENT"
| "id_type_of (ChannelID ip port rnd) = SILC_ID_CHANNEL"

fun sizeof_id :: "silc_id \<Rightarrow> nat" where
  "sizeof_id (ServerID ip port rnd) = sizeof_SilcServerID"
| "sizeof_id (ClientID ip rnd hash) = sizeof_SilcClientID"
| "sizeof_id (ChannelID ip port rnd) = sizeof_SilcChannelID"

fun silc_id_get_len :: "silc_id \<Rightarrow> nat" where
  "silc_id_get_len (ServerID ip port rnd) = ID_SERVER_LEN_PART + unat (ip_data_len ip)"
| "silc_id_get_len (ClientID ip rnd hash) = ID_CLIENT_LEN_PART + unat (ip_data_len ip)"
| "silc_id_get_len (ChannelID ip port rnd) = ID_CHANNEL_LEN_PART + unat (ip_data_len ip)"

text \<open>What is written to \<open>ret_id\<close>, for an address of \<open>ip_data_len\<close> bytes.\<close>

fun id2str_bytes :: "silc_id \<Rightarrow> bytes" where
  "id2str_bytes (ServerID ip port rnd) =
     take (unat (ip_data_len ip)) (ip_data ip) @ SILC_PUT16_MSB port @ SILC_PUT16_MSB rnd"
| "id2str_bytes (ClientID ip rnd hash) =
     take (unat (ip_data_len ip)) (ip_data ip) @ [rnd] @ take CLIENTID_HASH_LEN hash"
| "id2str_bytes (ChannelID ip port rnd) =
     take (unat (ip_data_len ip)) (ip_data ip) @ SILC_PUT16_MSB port @ SILC_PUT16_MSB rnd"

definition silc_id_id2str :: "silc_id \<Rightarrow> nat \<Rightarrow> bytes option" where
  "silc_id_id2str sid ret_id_size =
     (if ret_id_size < silc_id_get_len sid then None
      else if SILC_PACKET_MAX_ID_LEN < silc_id_get_len sid then None
      else Some (id2str_bytes sid))"

text \<open>The address of an identifier of \<open>id_len\<close> bytes whose other part has \<open>part\<close> bytes.\<close>

definition str2id_ip :: "bytes \<Rightarrow> nat \<Rightarrow> silc_id_ip" where
  "str2id_ip sid part =
     (let n = (if part + 4 < length sid then 16 else 4)
      in \<lparr>ip_data = take n sid @ replicate (16 - n) 0, ip_data_len = of_nat n\<rparr>)"

definition str2id_server :: "bytes \<Rightarrow> nat \<Rightarrow> silc_id option" where
  "str2id_server sid ret_id_size =
     (if length sid \<noteq> ID_SERVER_LEN_PART + 4 \<and> length sid \<noteq> ID_SERVER_LEN_PART + 16 then None
      else if ret_id_size < sizeof_SilcServerID then None
      else (let ip = str2id_ip sid ID_SERVER_LEN_PART; n = unat (ip_data_len ip)
            in Some (ServerID ip (SILC_GET16_MSB (drop n sid)) (SILC_GET16_MSB (drop (n + 2) sid)))))"

definition str2id_client :: "bytes \<Rightarrow> nat \<Rightarrow> silc_id option" where
  "str2id_client sid ret_id_size =
     (if length sid \<noteq> ID_CLIENT_LEN_PART + 4 \<and> length sid \<noteq> ID_CLIENT_LEN_PART + 16 then None
      else if ret_id_size < sizeof_SilcClientID then None
      else (let ip = str2id_ip sid ID_CLIENT_LEN_PART; n = unat (ip_data_len ip)
            in Some (ClientID ip (sid ! n) (take CLIENTID_HASH_LEN (drop (n + 1) sid)))))"

definition str2id_channel :: "bytes \<Rightarrow> nat \<Rightarrow> silc_id option" where
  "str2id_channel sid ret_id_size =
     (if length sid \<noteq> ID_CHANNEL_LEN_PART + 4 \<and> length sid \<noteq> ID_CHANNEL_LEN_PART + 16 then None
      else if ret_id_size < sizeof_SilcChannelID then None
      else (let ip = str2id_ip sid ID_CHANNEL_LEN_PART; n = unat (ip_data_len ip)
            in Some (ChannelID ip (SILC_GET16_MSB (drop n sid)) (SILC_GET16_MSB (drop (n + 2) sid)))))"

definition silc_id_str2id :: "bytes \<Rightarrow> u16 \<Rightarrow> nat \<Rightarrow> silc_id option" where
  "silc_id_str2id sid type ret_id_size =
     (if SILC_PACKET_MAX_ID_LEN < length sid then None
      else if type = SILC_ID_SERVER then str2id_server sid ret_id_size
      else if type = SILC_ID_CLIENT then str2id_client sid ret_id_size
      else if type = SILC_ID_CHANNEL then str2id_channel sid ret_id_size
      else None)"

definition silc_id_str2id2 :: "bytes \<Rightarrow> u16 \<Rightarrow> silc_id option" where
  "silc_id_str2id2 sid type =
     (if type = SILC_ID_CLIENT then silc_id_str2id sid type sizeof_SilcClientID
      else if type = SILC_ID_SERVER then silc_id_str2id sid type sizeof_SilcServerID
      else if type = SILC_ID_CHANNEL then silc_id_str2id sid type sizeof_SilcChannelID
      else None)"

definition silc_id_dup :: "silc_id \<Rightarrow> silc_id option" where
  "silc_id_dup sid = (if SILC_MAX_ALLOC \<le> sizeof_id sid + 1 then None else Some sid)"

section \<open>ID Payload\<close>

record silc_id_payload =
  idp_type :: u16
  idp_len :: u16
  idp_id :: "bytes option"

definition silc_id_payload_parse :: "bytes \<Rightarrow> silc_id_payload option" where
  "silc_id_payload_parse payload =
     with_unformat (silc_buffer_set payload) [UNF_UI16_SHORT, UNF_UI16_SHORT] None (\<lambda>buffer vs.
       case vs of
         [V16 type, V16 len] \<Rightarrow>
           (if SILC_ID_CHANNEL < type then None
            else
              (let buffer = fst (silc_buffer_pull buffer 4)
               in if silc_buffer_len buffer < unat len \<or> SILC_PACKET_MAX_ID_LEN < unat len then None
                  else with_unformat buffer [UNF_DATA_ALLOC (unat len)] None (\<lambda>buffer vs.
                    case vs of
                      [VPtr sid] \<Rightarrow> Some \<lparr>idp_type = type, idp_len = len, idp_id = sid\<rparr>
                    | _ \<Rightarrow> None)))
       | _ \<Rightarrow> None)"

definition silc_id_payload_parse_id :: "bytes \<Rightarrow> silc_id option" where
  "silc_id_payload_parse_id d =
     with_unformat (silc_buffer_set d) [UNF_UI16_SHORT, UNF_UI16_SHORT] None (\<lambda>buffer vs.
       case vs of
         [V16 type, V16 idlen] \<Rightarrow>
           (if SILC_ID_CHANNEL < type then None
            else
              (let buffer = fst (silc_buffer_pull buffer 4)
               in if silc_buffer_len buffer < unat idlen \<or> SILC_PACKET_MAX_ID_LEN < unat idlen then None
                  else with_unformat buffer [UNF_DATA (unat idlen)] None (\<lambda>buffer vs.
                    case vs of
                      [VPtr id_data] \<Rightarrow>
                        (let sid = (case id_data of None \<Rightarrow> [] | Some x \<Rightarrow> x)
                         in if type = SILC_ID_CLIENT then silc_id_str2id sid type sizeof_SilcClientID
                            else if type = SILC_ID_SERVER then silc_id_str2id sid type sizeof_SilcServerID
                            else silc_id_str2id sid type sizeof_SilcChannelID)
                    | _ \<Rightarrow> None)))
       | _ \<Rightarrow> None)"

definition silc_id_payload_encode_data :: "junk \<Rightarrow> bytes \<Rightarrow> u16 \<Rightarrow> silc_buffer option" where
  "silc_id_payload_encode_data J sid type =
     alloc_format J (add32 4 (length sid))
       [FMT_SHORT type, FMT_SHORT (of_nat (length sid)), FMT_NSTRING (Some sid) (length sid)]"

definition silc_id_payload_encode :: "junk \<Rightarrow> silc_id \<Rightarrow> silc_buffer option" where
  "silc_id_payload_encode J sid =
     (case silc_id_id2str sid 32 of
        None \<Rightarrow> None
      | Some id_data \<Rightarrow> silc_id_payload_encode_data J id_data (id_type_of sid))"

definition silc_id_payload_get_type :: "silc_id_payload option \<Rightarrow> u16" where
  "silc_id_payload_get_type p = (case p of None \<Rightarrow> 0 | Some p \<Rightarrow> idp_type p)"

definition silc_id_payload_get_id :: "silc_id_payload option \<Rightarrow> nat \<Rightarrow> silc_id option" where
  "silc_id_payload_get_id p ret_id_len =
     (case p of
        None \<Rightarrow> None
      | Some p \<Rightarrow>
          silc_id_str2id (case idp_id p of None \<Rightarrow> [] | Some x \<Rightarrow> x) (idp_type p) ret_id_len)"

definition silc_id_payload_get_data :: "silc_id_payload option \<Rightarrow> bytes option" where
  "silc_id_payload_get_data p =
     (case p of
        None \<Rightarrow> None
      | Some p \<Rightarrow> silc_memdup (case idp_id p of None \<Rightarrow> [] | Some x \<Rightarrow> x))"

definition silc_id_payload_get_len :: "silc_id_payload option \<Rightarrow> nat" where
  "silc_id_payload_get_len p = (case p of None \<Rightarrow> 0 | Some p \<Rightarrow> unat (idp_len p))"

section \<open>Well-formed identifiers\<close>

definition wf_ip :: "silc_id_ip \<Rightarrow> bool" where
  "wf_ip ip \<longleftrightarrow>
     length (ip_data ip) = 16 \<and> (ip_data_len ip = 4 \<or> ip_data_len ip = 16)
     \<and> drop (unat (ip_data_len ip)) (ip_data ip) = replicate (16 - unat (ip_data_len ip)) 0"

fun wf_id :: "silc_id \<Rightarrow> bool" where
  "wf_id (ServerID ip port rnd) = wf_ip ip"
| "wf_id (ClientID ip rnd hash) = (wf_ip ip \<and> length hash = CLIENTID_HASH_LEN)"
| "wf_id (ChannelID ip port rnd) = wf_ip ip"

lemma wf_ip_cases:
  assumes "wf_ip ip"
  obtains (v4) a where "length a = 4" "ip = \<lparr>ip_data = a @ replicate 12 0, ip_data_len = 4\<rparr>"
    | (v6) a where "length a = 16" "ip = \<lparr>ip_data = a, ip_data_len = 16\<rparr>"
proof (cases "ip_data_len ip = 4")
  case True
  with assms have "length (take 4 (ip_data ip)) = 4"
    and "ip_data ip = take 4 (ip_data ip) @ replicate 12 0"
    using append_take_drop_id [of 4 "ip_data ip"] by (auto simp: wf_ip_def)
  with True show ?thesis by (intro v4 [of "take 4 (ip_data ip)"]) (cases ip, auto)
next
  case False
  with assms v6 show ?thesis by (cases ip) (auto simp: wf_ip_def)
qed

lemma str2id_ip_v4: "length a = 4 \<Longrightarrow> length b = p \<Longrightarrow>
    str2id_ip (a @ b) p = \<lparr>ip_data = a @ replicate 12 0, ip_data_len = 4\<rparr>"
  by (simp add: str2id_ip_def)

lemma str2id_ip_v6: "length a = 16 \<Longrightarrow> length b = p \<Longrightarrow>
    str2id_ip (a @ b) p = \<lparr>ip_data = a, ip_data_len = 16\<rparr>"
  by (simp add: str2id_ip_def)

lemma id_get_len_wf: "wf_id sid \<Longrightarrow> silc_id_get_len sid = length (id2str_bytes sid)"
  by (cases sid) (auto simp: wf_ip_def id_len_defs)

lemma id_len_bounds: "wf_id sid \<Longrightarrow> 8 \<le> length (id2str_bytes sid) \<and> length (id2str_bytes sid) \<le> 28"
  by (cases sid) (auto simp: wf_ip_def id_len_defs)

lemma id2str_wf: "wf_id sid \<Longrightarrow> silc_id_id2str sid 32 = Some (id2str_bytes sid)"
  using id_len_bounds [of sid] by (simp add: silc_id_id2str_def id_get_len_wf id_len_defs)

lemma str2id_id2str:
  assumes "wf_id sid" and "sizeof_id sid \<le> n"
  shows "silc_id_str2id (id2str_bytes sid) (id_type_of sid) n = Some sid"
proof (cases sid)
  case (ServerID ip port rnd)
  then have "wf_ip ip" using assms by simp
  then show ?thesis
    using ServerID assms(2)
    by (cases rule: wf_ip_cases)
      (simp_all add: silc_id_str2id_def str2id_server_def id_type_defs id_len_defs
        str2id_ip_v4 str2id_ip_v6)
next
  case (ClientID ip rnd hash)
  then have "wf_ip ip" using assms by simp
  then show ?thesis
    using ClientID assms
    by (cases rule: wf_ip_cases)
      (simp_all add: silc_id_str2id_def str2id_client_def id_type_defs id_len_defs
        str2id_ip_v4 str2id_ip_v6 nth_append)
next
  case (ChannelID ip port rnd)
  then have "wf_ip ip" using assms by simp
  then show ?thesis
    using ChannelID assms(2)
    by (cases rule: wf_ip_cases)
      (simp_all add: silc_id_str2id_def str2id_channel_def id_type_defs id_len_defs
        str2id_ip_v4 str2id_ip_v6)
qed

text \<open>Conversely, an accepted string is the binary form of the identifier it gives.\<close>

lemma split_ip_4:
  assumes "length s = 4 + p"
  obtains a b where "s = a @ b" "length a = 4" "length b = p"
  using assms that [of "take 4 s" "drop 4 s"] by simp

lemma split_ip_16:
  assumes "length s = 16 + p"
  obtains a b where "s = a @ b" "length a = 16" "length b = p"
  using assms that [of "take 16 s" "drop 16 s"] by simp

lemma port_rnd_bytes:
  "length b = 4 \<Longrightarrow> SILC_PUT16_MSB (SILC_GET16_MSB b) @ SILC_PUT16_MSB (SILC_GET16_MSB (drop 2 b)) = b"
  by (auto simp: length_Suc_conv eval_nat_numeral PUT16_GET16_MSB)

lemma rnd_hash_bytes:
  "length b = 12 \<Longrightarrow> b ! 0 # drop (Suc 0) b = b"
  by (cases b) auto

lemma str2id_sound_parts:
  "str2id_server s n = Some sid \<Longrightarrow> wf_id sid \<and> id_type_of sid = SILC_ID_SERVER \<and> id2str_bytes sid = s"
  "str2id_channel s n = Some sid \<Longrightarrow> wf_id sid \<and> id_type_of sid = SILC_ID_CHANNEL \<and> id2str_bytes sid = s"
  "str2id_client s n = Some sid \<Longrightarrow> wf_id sid \<and> id_type_of sid = SILC_ID_CLIENT \<and> id2str_bytes sid = s"
proof -
  assume a: "str2id_server s n = Some sid"
  then have "length s = 4 + 4 \<or> length s = 16 + 4"
    by (auto simp: str2id_server_def id_len_defs split: if_splits)
  then show "wf_id sid \<and> id_type_of sid = SILC_ID_SERVER \<and> id2str_bytes sid = s"
    using a
    by (elim disjE split_ip_4 split_ip_16)
      (auto simp: str2id_server_def id_len_defs str2id_ip_v4 str2id_ip_v6 wf_ip_def port_rnd_bytes
        split: if_splits)
next
  assume a: "str2id_channel s n = Some sid"
  then have "length s = 4 + 4 \<or> length s = 16 + 4"
    by (auto simp: str2id_channel_def id_len_defs split: if_splits)
  then show "wf_id sid \<and> id_type_of sid = SILC_ID_CHANNEL \<and> id2str_bytes sid = s"
    using a
    by (elim disjE split_ip_4 split_ip_16)
      (auto simp: str2id_channel_def id_len_defs str2id_ip_v4 str2id_ip_v6 wf_ip_def port_rnd_bytes
        split: if_splits)
next
  assume a: "str2id_client s n = Some sid"
  then have "length s = 4 + 12 \<or> length s = 16 + 12"
    by (auto simp: str2id_client_def id_len_defs split: if_splits)
  then show "wf_id sid \<and> id_type_of sid = SILC_ID_CLIENT \<and> id2str_bytes sid = s"
    using a
    by (elim disjE split_ip_4 split_ip_16)
      (auto simp: str2id_client_def id_len_defs str2id_ip_v4 str2id_ip_v6 wf_ip_def nth_append
        rnd_hash_bytes split: if_splits)
qed

lemma str2id_sound:
  "silc_id_str2id s t n = Some sid \<Longrightarrow> wf_id sid \<and> id_type_of sid = t \<and> id2str_bytes sid = s"
  by (auto simp: silc_id_str2id_def str2id_sound_parts split: if_splits)

section \<open>The ID Payload codec\<close>

text \<open>Both parsers, on a payload with its header and on one too short for it.\<close>

lemma header_cases:
  assumes "4 \<le> length d"
  obtains t l r where "d = SILC_PUT16_MSB t @ SILC_PUT16_MSB l @ r"
proof -
  have "take 4 d = SILC_PUT16_MSB (SILC_GET16_MSB (take 4 d))
      @ SILC_PUT16_MSB (SILC_GET16_MSB (drop 2 (take 4 d)))"
    using assms by (intro port_rnd_bytes [symmetric]) simp
  then show thesis
    using that append_take_drop_id [of 4 d] by (metis append.assoc)
qed

lemma header_short: "length d < 4 \<Longrightarrow> parse_all [UNF_UI16_SHORT, UNF_UI16_SHORT] d = None"
  by (auto simp: rd_def split: option.splits)

lemma header_parse:
  "parse_all [UNF_UI16_SHORT, UNF_UI16_SHORT] (SILC_PUT16_MSB t @ SILC_PUT16_MSB l @ r) =
     Some ([V16 t, V16 l], r)"
  by (simp add: parse_UI16 del: parse_step.simps)

lemma parse_data_u16:
  assumes "unat (l :: u16) \<le> length r"
  shows "parse_all [UNF_DATA_ALLOC (unat l)] r =
      Some ([VPtr (if l = 0 then None else Some (take (unat l) r))], drop (unat l) r)"
    and "parse_all [UNF_DATA (unat l)] r =
      Some ([VPtr (if l = 0 then None else Some (take (unat l) r))], drop (unat l) r)"
  using assms unat_u16_less [of l]
  by (auto simp: rd_def u32_max_def unat_eq_0 simp del: unat_u16_less)

text \<open>The buffer behind the four bytes of header, as the parsers go on with it.\<close>

definition hdr_buf :: "u16 \<Rightarrow> u16 \<Rightarrow> bytes \<Rightarrow> silc_buffer" where
  "hdr_buf t l r = silc_buffer_set (SILC_PUT16_MSB t @ SILC_PUT16_MSB l @ r)"

lemma hdr_buf_unformat:
  assumes "length r + 4 < u32_max"
  shows "with_unformat (hdr_buf t l r) [UNF_UI16_SHORT, UNF_UI16_SHORT] err k =
    k (hdr_buf t l r) [V16 t, V16 l]"
proof -
  have len: "length (SILC_PUT16_MSB t @ SILC_PUT16_MSB l @ r) < u32_max"
    using assms by simp
  show ?thesis
    unfolding hdr_buf_def
    by (subst with_unformat_set [OF len], simp) (simp only: header_parse option.case prod.case)
qed

lemma behind_header:
  assumes "length r + 4 < u32_max"
  shows "fst (silc_buffer_pull (hdr_buf t l r) 4) = adv (hdr_buf t l r) 4"
    and "silc_buffer_len (adv (hdr_buf t l r) 4) = length r"
    and "unat l \<le> length r \<Longrightarrow> with_unformat (adv (hdr_buf t l r) 4) [UNF_DATA_ALLOC (unat l)] err k =
       k (adv (hdr_buf t l r) 4) [VPtr (if l = 0 then None else Some (take (unat l) r))]"
    and "unat l \<le> length r \<Longrightarrow> with_unformat (adv (hdr_buf t l r) 4) [UNF_DATA (unat l)] err k =
       k (adv (hdr_buf t l r) 4) [VPtr (if l = 0 then None else Some (take (unat l) r))]"
proof -
  let ?d = "SILC_PUT16_MSB t @ SILC_PUT16_MSB l @ r"
  have len: "length ?d < u32_max" and four: "4 \<le> length ?d" and dr: "drop 4 ?d = r"
    using assms by simp_all
  show "fst (silc_buffer_pull (hdr_buf t l r) 4) = adv (hdr_buf t l r) 4"
    using pull_set [OF len four] by (simp add: hdr_buf_def)
  show "silc_buffer_len (adv (hdr_buf t l r) 4) = length r"
    using adv_set_facts(2) [OF len four] by (simp add: hdr_buf_def)
  assume le: "unat l \<le> length r"
  show "with_unformat (adv (hdr_buf t l r) 4) [UNF_DATA_ALLOC (unat l)] err k =
       k (adv (hdr_buf t l r) 4) [VPtr (if l = 0 then None else Some (take (unat l) r))]"
    unfolding hdr_buf_def
    by (subst with_unformat_adv [OF len four], simp)
      (simp only: dr parse_data_u16(1) [OF le] option.case prod.case)
  show "with_unformat (adv (hdr_buf t l r) 4) [UNF_DATA (unat l)] err k =
       k (adv (hdr_buf t l r) 4) [VPtr (if l = 0 then None else Some (take (unat l) r))]"
    unfolding hdr_buf_def
    by (subst with_unformat_adv [OF len four], simp)
      (simp only: dr parse_data_u16(2) [OF le] option.case prod.case)
qed

lemma id_payload_parse_eq:
  assumes len: "length r + 4 < u32_max"
  shows "silc_id_payload_parse (SILC_PUT16_MSB t @ SILC_PUT16_MSB l @ r) =
    (if t \<le> 3 \<and> unat l \<le> length r \<and> unat l \<le> 28
     then Some \<lparr>idp_type = t, idp_len = l, idp_id = (if l = 0 then None else Some (take (unat l) r))\<rparr>
     else None)"
  by (cases "unat l \<le> length r"; cases "3 < t"; cases "28 < unat l")
    (simp_all add: silc_id_payload_parse_def hdr_buf_def [symmetric] hdr_buf_unformat [OF len]
      behind_header [OF len] SILC_ID_CHANNEL_def SILC_PACKET_MAX_ID_LEN_def
      linorder_not_less [symmetric] Let_def split del: if_split cong: if_cong)

lemma id_payload_parse_short:
  "length d < 4 \<Longrightarrow> silc_id_payload_parse d = None" "length d < 4 \<Longrightarrow> silc_id_payload_parse_id d = None"
  by (simp_all add: silc_id_payload_parse_def silc_id_payload_parse_id_def with_unformat_set
      header_short u32_max_def del: parse_all.simps)

lemma id_payload_parse_id_eq:
  assumes len: "length r + 4 < u32_max"
  shows "silc_id_payload_parse_id (SILC_PUT16_MSB t @ SILC_PUT16_MSB l @ r) =
    (if unat l \<le> length r then silc_id_str2id2 (take (unat l) r) t else None)"
proof -
  have pt: "(case (if l = 0 then None else Some (take (unat l) r)) of None \<Rightarrow> [] | Some x \<Rightarrow> x) =
      take (unat l) r"
    by simp
  have big: "silc_id_str2id2 x t = None" if "3 < t" for x
  proof -
    have "t \<noteq> 1 \<and> t \<noteq> 2 \<and> t \<noteq> 3" using that by (auto simp: word_less_nat_alt)
    then show ?thesis by (simp add: silc_id_str2id2_def id_type_defs)
  qed
  have long: "silc_id_str2id2 x t = None" if "28 < length x" for x
    using that by (simp add: silc_id_str2id2_def silc_id_str2id_def id_len_defs)
  have dispatch: "silc_id_str2id2 x t =
      (if t = SILC_ID_CLIENT then silc_id_str2id x t sizeof_SilcClientID
       else if t = SILC_ID_SERVER then silc_id_str2id x t sizeof_SilcServerID
       else silc_id_str2id x t sizeof_SilcChannelID)" for x
    by (simp add: silc_id_str2id2_def silc_id_str2id_def id_type_defs)
  show ?thesis
    by (cases "unat l \<le> length r"; cases "3 < t"; cases "28 < unat l")
      (simp_all add: silc_id_payload_parse_id_def hdr_buf_def [symmetric] hdr_buf_unformat [OF len]
        behind_header [OF len] pt dispatch SILC_ID_CHANNEL_def big [unfolded dispatch] long [unfolded dispatch]
        SILC_PACKET_MAX_ID_LEN_def linorder_not_less [symmetric] Let_def split del: if_split)
qed

lemma id_payload_encode_eq:
  assumes "length s < 65536"
  shows "silc_id_payload_encode_data J s t =
    Some (silc_buffer_set (SILC_PUT16_MSB t @ SILC_PUT16_MSB (of_nat (length s)) @ s))"
proof -
  have "add32 4 (length s) = 4 + length s"
    using assms by (simp add: add32_exact u32_max_def)
  then show ?thesis
    using assms unfolding silc_id_payload_encode_data_def
    by (subst alloc_format_exact) (auto simp: SILC_MAX_ALLOC_def)
qed

text \<open>The contract between \<open>silc_id_payload_encode\<close> and \<open>silc_id_payload_parse_id\<close>.\<close>

interpretation id_codec: payload_codec "silc_id_payload_encode J" silc_id_payload_parse_id wf_id "\<lambda>x. x"
proof
  fix sid :: silc_id
  assume wf: "wf_id sid"
  let ?s = "id2str_bytes sid"
  note len = id_len_bounds [OF wf]
  have enc: "silc_id_payload_encode J sid =
      Some (silc_buffer_set (SILC_PUT16_MSB (id_type_of sid) @ SILC_PUT16_MSB (of_nat (length ?s)) @ ?s))"
    using len by (simp add: silc_id_payload_encode_def id2str_wf [OF wf] id_payload_encode_eq)
  then show "\<exists>b. silc_id_payload_encode J sid = Some b \<and> wf_buffer b"
    using len by (simp add: u32_max_def)
  fix b
  assume "silc_id_payload_encode J sid = Some b"
  moreover have "silc_id_str2id2 ?s (id_type_of sid) = Some sid"
    using str2id_id2str [OF wf] by (cases sid) (simp_all add: silc_id_str2id2_def id_type_defs)
  ultimately show "silc_id_payload_parse_id (sb_bytes b) = Some sid"
    using enc len by (auto simp: id_payload_parse_id_eq u32_max_def)
qed

section \<open>Properties\<close>

text \<open>
  C25. The binary form of an identifier determines it: converting a well-formed server, client or
  channel identifier (IPv4 or IPv6) to a string and back gives the same identifier, and every
  string the decoder accepts is the binary form of the well-formed identifier it returns.
\<close>

theorem silc_id_str2id_iff:
  "silc_id_str2id2 s t = Some sid \<longleftrightarrow>
     wf_id sid \<and> id_type_of sid = t \<and> silc_id_id2str sid 32 = Some s"
proof
  assume "silc_id_str2id2 s t = Some sid"
  then obtain n where "silc_id_str2id s t n = Some sid"
    by (auto simp: silc_id_str2id2_def split: if_splits)
  from str2id_sound [OF this] show "wf_id sid \<and> id_type_of sid = t \<and> silc_id_id2str sid 32 = Some s"
    by (simp add: id2str_wf)
next
  assume a: "wf_id sid \<and> id_type_of sid = t \<and> silc_id_id2str sid 32 = Some s"
  then have "s = id2str_bytes sid" using id2str_wf [of sid] by simp
  with a str2id_id2str [of sid] show "silc_id_str2id2 s t = Some sid"
    by (cases sid) (auto simp: silc_id_str2id2_def id_type_defs)
qed

text \<open>
  An ID Payload built from a well-formed identifier is parsed back to that identifier, both
  directly and through the payload structure, and the encoding exists.
\<close>

theorem silc_id_payload_roundtrip:
  assumes "wf_id sid"
  shows "\<exists>b. silc_id_payload_encode J sid = Some b \<and> wf_buffer b
    \<and> silc_id_payload_parse_id (sb_bytes b) = Some sid
    \<and> silc_id_payload_get_id (silc_id_payload_parse (sb_bytes b)) (sizeof_id sid) = Some sid
    \<and> silc_id_payload_get_type (silc_id_payload_parse (sb_bytes b)) = id_type_of sid"
proof -
  let ?s = "id2str_bytes sid"
  note len = id_len_bounds [OF assms]
  from id_codec.roundtrip [OF assms, of J] obtain b where
    b: "silc_id_payload_encode J sid = Some b" "wf_buffer b" "silc_id_payload_parse_id (sb_bytes b) = Some sid"
    by blast
  then have bb: "sb_bytes b = SILC_PUT16_MSB (id_type_of sid) @ SILC_PUT16_MSB (of_nat (length ?s)) @ ?s"
    using len by (auto simp: silc_id_payload_encode_def id2str_wf [OF assms] id_payload_encode_eq)
  have "id_type_of sid \<le> 3" by (cases sid) (simp_all add: id_type_defs)
  moreover have "of_nat (length ?s) \<noteq> (0 :: u16)"
    using len by (subst of_nat_u16_eq_0) auto
  ultimately have "silc_id_payload_parse (sb_bytes b) =
      Some \<lparr>idp_type = id_type_of sid, idp_len = of_nat (length ?s), idp_id = Some ?s\<rparr>"
    using len by (simp add: bb id_payload_parse_eq u32_max_def)
  with b str2id_id2str [OF assms, of "sizeof_id sid"] show ?thesis
    by (auto simp: silc_id_payload_get_id_def silc_id_payload_get_type_def)
qed

theorem silc_id_payload_roundtrip_witness:
  "\<exists>b. silc_id_payload_encode (\<lambda>_. 0)
          (ServerID \<lparr>ip_data = [127, 0, 0, 1] @ replicate 12 0, ip_data_len = 4\<rparr> 706 1) = Some b
        \<and> silc_id_payload_parse_id (sb_bytes b) =
            Some (ServerID \<lparr>ip_data = [127, 0, 0, 1] @ replicate 12 0, ip_data_len = 4\<rparr> 706 1)"
  using silc_id_payload_roundtrip
    [of "ServerID \<lparr>ip_data = [127, 0, 0, 1] @ replicate 12 0, ip_data_len = 4\<rparr> 706 1" "\<lambda>_. 0"]
  by (auto simp: wf_ip_def)

end
