(* ===== verification/Silc_Argument.thy ===== *)
theory Silc_Argument
  imports Silc_Id
begin

text \<open>
  \<open>lib/silccore/silcargument.c\<close>: the Argument Payload, a sequence of typed arguments, and the
  Argument List Payload, which carries its number of arguments in front.

  The three parallel arrays a caller passes to the encoder are one list of triples (data, length,
  type). An argument of length zero is stored as a NULL pointer by the parser. The decoders of
  public keys and of attributes, which other modules provide, are arguments of
  \<open>silc_argument_decode\<close>.
\<close>

section \<open>Argument Payload\<close>

type_synonym silc_arg = "bytes option \<times> u32 \<times> u32"

record silc_argument_payload =
  arg_argc :: nat
  arg_argv :: "bytes option list"
  arg_argv_lens :: "u32 list"
  arg_argv_types :: "u32 list"
  arg_pos :: nat

text \<open>The loop of the parser over the remaining arguments, with what it stores and the buffer it leaves.\<close>

fun argument_parse_loop :: "nat \<Rightarrow> silc_buffer \<Rightarrow> (silc_arg list \<times> silc_buffer) option" where
  "argument_parse_loop 0 buffer = Some ([], buffer)"
| "argument_parse_loop (Suc n) buffer =
     with_unformat buffer [UNF_UI16_SHORT, UNF_UI8_CHAR] None (\<lambda>buffer vs.
       case vs of
         [V16 p_len, V8 arg_type] \<Rightarrow>
           (if sub32 (silc_buffer_len buffer) 3 < unat p_len then None
            else
              with_unformat (fst (silc_buffer_pull buffer 3)) [UNF_DATA_ALLOC (unat p_len)] None
                (\<lambda>buffer vs.
                  case vs of
                    [VPtr d] \<Rightarrow>
                      (case argument_parse_loop n (fst (silc_buffer_pull buffer (unat p_len))) of
                         None \<Rightarrow> None
                       | Some (as, b) \<Rightarrow> Some ((d, ucast p_len, ucast arg_type) # as, b))
                  | _ \<Rightarrow> None))
       | _ \<Rightarrow> None)"

definition silc_argument_payload_parse :: "bytes \<Rightarrow> nat \<Rightarrow> silc_argument_payload option" where
  "silc_argument_payload_parse payload argc =
     (if silc_calloc argc 8 = None \<or> silc_calloc argc 4 = None then None
      else
        (case argument_parse_loop argc (silc_buffer_set payload) of
           None \<Rightarrow> None
         | Some (as, buffer) \<Rightarrow>
             (if silc_buffer_len buffer \<noteq> 0 then None
              else Some \<lparr>arg_argc = argc, arg_argv = map fst as,
                         arg_argv_lens = map (fst \<circ> snd) as,
                         arg_argv_types = map (snd \<circ> snd) as, arg_pos = 0\<rparr>)))"

text \<open>Put one argument: its 16-bit length, its 8-bit type and \<open>n\<close> bytes of data.\<close>

definition argument_params :: "silc_arg \<Rightarrow> nat \<Rightarrow> fmt_param list" where
  "argument_params a n =
     (case a of (v, l, t) \<Rightarrow> [FMT_SHORT (ucast l), FMT_CHAR (ucast t), FMT_NSTRING v n])"

definition arg_len16 :: "silc_arg \<Rightarrow> nat" where
  "arg_len16 a = cast16 (unat (fst (snd a)))"

definition silc_argument_payload_encode :: "junk \<Rightarrow> silc_arg list \<Rightarrow> silc_buffer option" where
  "silc_argument_payload_encode J args =
     alloc_format_list J (foldl (\<lambda>len a. add32 len (3 + arg_len16 a)) 0 args)
       (\<lambda>a. argument_params a (arg_len16 a)) (\<lambda>a. 3 + arg_len16 a) args"

definition silc_argument_payload_encode_one ::
    "junk \<Rightarrow> silc_buffer option \<Rightarrow> silc_arg \<Rightarrow> silc_buffer option" where
  "silc_argument_payload_encode_one J args a =
     (let len = 3 + arg_len16 a
      in case silc_buffer_realloc J args
                (case args of None \<Rightarrow> len | Some b \<Rightarrow> add32 (silc_buffer_truelen b) len) of
           None \<Rightarrow> None
         | Some buffer \<Rightarrow>
             (let buffer = fst (silc_buffer_pull buffer (silc_buffer_len buffer));
                  buffer = fst (silc_buffer_pull_tail buffer len);
                  buffer = fst (silc_buffer_format J buffer (argument_params a (arg_len16 a)))
              in Some (fst (silc_buffer_push buffer (cast32 (int (sb_data buffer)))))))"

definition payload_args :: "silc_argument_payload \<Rightarrow> silc_arg list" where
  "payload_args p = map (\<lambda>i. (arg_argv p ! i, arg_argv_lens p ! i, arg_argv_types p ! i)) [0..<arg_argc p]"

text \<open>Unlike the encoder above, this one does not reduce the lengths to 16 bits.\<close>

definition silc_argument_payload_encode_payload :: "junk \<Rightarrow> silc_argument_payload \<Rightarrow> silc_buffer option" where
  "silc_argument_payload_encode_payload J payload =
     (let args = payload_args payload
      in alloc_format_list J (foldl (\<lambda>len a. add32 len (add32 3 (unat (fst (snd a))))) 0 args)
           (\<lambda>a. argument_params a (unat (fst (snd a)))) (\<lambda>a. add32 3 (unat (fst (snd a)))) args)"

definition silc_argument_get_arg_num :: "silc_argument_payload option \<Rightarrow> nat" where
  "silc_argument_get_arg_num payload = (case payload of None \<Rightarrow> 0 | Some p \<Rightarrow> arg_argc p)"

text \<open>
  The argument at the cursor, and the payload with the cursor behind it. The cursor is below the
  32-bit \<open>argc\<close> or zero when it is incremented, so the increment does not wrap.
\<close>

definition arg_at_pos :: "silc_argument_payload \<Rightarrow> silc_argument_payload \<times> silc_arg" where
  "arg_at_pos p =
     (p\<lparr>arg_pos := arg_pos p + 1\<rparr>,
      (arg_argv p ! arg_pos p, arg_argv_lens p ! arg_pos p, arg_argv_types p ! arg_pos p))"

definition silc_argument_get_first_arg ::
    "silc_argument_payload \<Rightarrow> silc_argument_payload \<times> silc_arg" where
  "silc_argument_get_first_arg p = arg_at_pos (p\<lparr>arg_pos := 0\<rparr>)"

definition silc_argument_get_next_arg ::
    "silc_argument_payload \<Rightarrow> silc_argument_payload \<times> silc_arg option" where
  "silc_argument_get_next_arg p =
     (if arg_argc p \<le> arg_pos p then (p, None) else map_prod id Some (arg_at_pos p))"

fun arg_type_index :: "nat \<Rightarrow> nat \<Rightarrow> u32 list \<Rightarrow> u32 \<Rightarrow> nat" where
  "arg_type_index i 0 ts type = i"
| "arg_type_index i (Suc n) ts type = (if ts ! i = type then i else arg_type_index (Suc i) n ts type)"

definition silc_argument_get_arg_type ::
    "silc_argument_payload option \<Rightarrow> u32 \<Rightarrow> (bytes \<times> u32) option" where
  "silc_argument_get_arg_type payload type =
     (case payload of
        None \<Rightarrow> None
      | Some p \<Rightarrow>
          (let i = arg_type_index 0 (arg_argc p) (arg_argv_types p) type
           in if arg_argc p \<le> i then None
              else (case arg_argv p ! i of None \<Rightarrow> None | Some d \<Rightarrow> Some (d, arg_argv_lens p ! i))))"

section \<open>Decoded arguments\<close>

datatype arg_decode_type =
    SILC_ARGUMENT_ID | SILC_ARGUMENT_PUBLIC_KEY | SILC_ARGUMENT_ATTRIBUTES
  | SILC_ARGUMENT_UINT32 | SILC_ARGUMENT_BOOL | SILC_ARGUMENT_OTHER

datatype ('pk, 'at) arg_decoded =
    DecID silc_id | DecPublicKey 'pk | DecAttributes "'at option" | DecUInt32 u32 | DecBool bool

text \<open>
  The first component of the result is what is stored at \<open>ret_arg\<close>, the second what is stored at
  \<open>ret_arg_alloc\<close>; the two flags say which of the pointers is not NULL. Each copy made by
  \<open>silc_memdup\<close> is of a few bytes and succeeds. An attribute list that does not parse is stored
  as NULL and the decoding still succeeds.
\<close>

definition silc_argument_decode ::
    "(bytes \<Rightarrow> 'pk option) \<Rightarrow> (bytes \<Rightarrow> 'at option) \<Rightarrow> bool \<Rightarrow> bool \<Rightarrow> bytes \<Rightarrow> arg_decode_type
     \<Rightarrow> (('pk, 'at) arg_decoded option \<times> ('pk, 'at) arg_decoded option) option" where
  "silc_argument_decode pk_decode attr_parse ret_arg ret_arg_alloc d dec_type =
     (case dec_type of
        SILC_ARGUMENT_ID \<Rightarrow>
          (case silc_id_payload_parse_id d of
             None \<Rightarrow> if ret_arg \<or> ret_arg_alloc then None else Some (None, None)
           | Some i \<Rightarrow> Some (if ret_arg then Some (DecID i) else None,
                             if ret_arg_alloc then Some (DecID i) else None))
      | SILC_ARGUMENT_PUBLIC_KEY \<Rightarrow>
          (if \<not> ret_arg_alloc then None
           else (case pk_decode d of None \<Rightarrow> None | Some k \<Rightarrow> Some (None, Some (DecPublicKey k))))
      | SILC_ARGUMENT_ATTRIBUTES \<Rightarrow>
          (if \<not> ret_arg_alloc then None else Some (None, Some (DecAttributes (attr_parse d))))
      | SILC_ARGUMENT_UINT32 \<Rightarrow>
          (if length d \<noteq> 4 then None
           else Some (if ret_arg then Some (DecUInt32 (SILC_GET32_MSB d)) else None,
                      if ret_arg_alloc then Some (DecUInt32 (SILC_GET32_MSB d)) else None))
      | SILC_ARGUMENT_BOOL \<Rightarrow>
          (if length d \<noteq> 1 then None
           else Some (if ret_arg then Some (DecBool (d ! 0 = 1)) else None,
                      if ret_arg_alloc then Some (DecBool (d ! 0 = 1)) else None))
      | SILC_ARGUMENT_OTHER \<Rightarrow> None)"

definition silc_argument_get_decoded ::
    "(bytes \<Rightarrow> 'pk option) \<Rightarrow> (bytes \<Rightarrow> 'at option) \<Rightarrow> silc_argument_payload option \<Rightarrow> u32
     \<Rightarrow> arg_decode_type \<Rightarrow> bool \<Rightarrow> bool
     \<Rightarrow> (('pk, 'at) arg_decoded option \<times> ('pk, 'at) arg_decoded option) option" where
  "silc_argument_get_decoded pk_decode attr_parse payload type dec_type ret_arg ret_arg_alloc =
     (case silc_argument_get_arg_type payload type of
        None \<Rightarrow> None
      | Some (tmp, tmp_len) \<Rightarrow>
          silc_argument_decode pk_decode attr_parse ret_arg ret_arg_alloc tmp dec_type)"

section \<open>Argument List Payload\<close>

definition silc_argument_list_parse :: "bytes \<Rightarrow> silc_argument_payload option" where
  "silc_argument_list_parse payload =
     (if length payload < 5 then None
      else silc_argument_payload_parse (drop 2 payload) (unat (SILC_GET16_MSB payload)))"

text \<open>The loop \<open>while (data)\<close>: it stops at the first argument whose pointer is NULL.\<close>

function list_decoded_loop ::
    "(bytes \<Rightarrow> 'pk option) \<Rightarrow> (bytes \<Rightarrow> 'at option) \<Rightarrow> arg_decode_type
     \<Rightarrow> silc_argument_payload \<Rightarrow> silc_arg option \<Rightarrow> (u32 \<times> ('pk, 'at) arg_decoded) list" where
  "list_decoded_loop pk_decode attr_parse dec_type p None = []"
| "list_decoded_loop pk_decode attr_parse dec_type p (Some (None, l, t)) = []"
| "list_decoded_loop pk_decode attr_parse dec_type p (Some (Some d, l, t)) =
     (case silc_argument_decode pk_decode attr_parse False True d dec_type of
        Some (x, Some v) \<Rightarrow> [(t, v)]
      | _ \<Rightarrow> [])
     @ (case silc_argument_get_next_arg p of
          (p', a) \<Rightarrow> list_decoded_loop pk_decode attr_parse dec_type p' a)"
  by pat_completeness auto
termination
  by (relation "measure (\<lambda>(f, g, dt, p, a). case a of None \<Rightarrow> 0 | Some x \<Rightarrow> Suc (arg_argc p - arg_pos p))")
    (auto simp: silc_argument_get_next_arg_def arg_at_pos_def split: if_splits option.splits)

definition silc_argument_list_parse_decoded ::
    "(bytes \<Rightarrow> 'pk option) \<Rightarrow> (bytes \<Rightarrow> 'at option) \<Rightarrow> bytes \<Rightarrow> arg_decode_type
     \<Rightarrow> (u32 \<times> ('pk, 'at) arg_decoded) list option" where
  "silc_argument_list_parse_decoded pk_decode attr_parse payload dec_type =
     (case silc_argument_list_parse payload of
        None \<Rightarrow> None
      | Some arg \<Rightarrow>
          (let (arg', a) = silc_argument_get_first_arg arg
           in Some (list_decoded_loop pk_decode attr_parse dec_type arg' (Some a))))"

section \<open>The parser and the encoder on argument lists\<close>

text \<open>The wire form of an argument, and the argument the parser reads back.\<close>

definition arg_data :: "silc_arg \<Rightarrow> bytes" where
  "arg_data a = take (arg_len16 a) (case fst a of None \<Rightarrow> [] | Some d \<Rightarrow> d)"

definition arg_bytes :: "silc_arg \<Rightarrow> bytes" where
  "arg_bytes a = SILC_PUT16_MSB (ucast (fst (snd a))) @ [ucast (snd (snd a))] @ arg_data a"

abbreviation args_bytes :: "silc_arg list \<Rightarrow> bytes" where
  "args_bytes as \<equiv> concat (map arg_bytes as)"

definition arg_norm :: "silc_arg \<Rightarrow> silc_arg" where
  "arg_norm a =
     (if arg_data a = [] then None else Some (arg_data a),
      ucast (ucast (fst (snd a)) :: u16), ucast (ucast (snd (snd a)) :: byte))"

text \<open>The data pointer of an argument has the bytes its length announces.\<close>

definition arg_valid :: "silc_arg \<Rightarrow> bool" where
  "arg_valid a \<longleftrightarrow> arg_len16 a \<le> length (case fst a of None \<Rightarrow> [] | Some d \<Rightarrow> d)"

lemma length_arg_data: "arg_valid a \<Longrightarrow> length (arg_data a) = arg_len16 a"
  by (simp add: arg_valid_def arg_data_def)

lemma length_arg_bytes: "arg_valid a \<Longrightarrow> length (arg_bytes a) = 3 + arg_len16 a"
  by (simp add: arg_bytes_def length_arg_data)

lemma arg_len16_less [simp]: "arg_len16 a < 65536"
  by (simp add: arg_len16_def)

lemma argument_params_fmt:
  assumes "arg_valid a"
  shows "list_all fmt_plain (argument_params a (arg_len16 a))"
    and "fmt_all (argument_params a (arg_len16 a)) = arg_bytes a"
  using assms
  by (cases a; auto simp: argument_params_def arg_valid_def arg_bytes_def arg_data_def split: option.splits)+

lemma args_len:
  assumes "list_all arg_valid as" and "n + length (args_bytes as) < u32_max"
  shows "foldl (\<lambda>len a. add32 len (3 + arg_len16 a)) n as = n + length (args_bytes as)"
  using assms by (induction as arbitrary: n) (simp_all add: length_arg_bytes add32_exact)

lemma argument_encode_eq:
  assumes "list_all arg_valid as" and "length (args_bytes as) < SILC_MAX_ALLOC"
  shows "silc_argument_payload_encode J as = Some (silc_buffer_set (args_bytes as))"
  unfolding silc_argument_payload_encode_def
proof (rule alloc_format_list_exact)
  show "foldl (\<lambda>len a. add32 len (3 + arg_len16 a)) 0 as = length (args_bytes as)"
    using args_len [OF assms(1), of 0] max_alloc_less_u32 [OF assms(2)] by simp
qed (use assms in \<open>auto simp: list_all_iff [of arg_valid] argument_params_fmt length_arg_bytes\<close>)

text \<open>One turn of the parser's loop, on bytes that start with a header and its data.\<close>

lemma parse_arg_step:
  assumes wf: "wf_buffer sb" and b: "sb_bytes sb = SILC_PUT16_MSB l @ [t] @ d @ r"
    and d: "length d = unat l"
  shows "argument_parse_loop (Suc n) sb =
    (case argument_parse_loop n (adv sb (3 + unat l)) of
       None \<Rightarrow> None
     | Some (as, c) \<Rightarrow> Some ((if d = [] then None else Some d, ucast l, ucast t) # as, c))"
proof -
  have len: "silc_buffer_len sb = 3 + unat l + length r"
    using length_sb_bytes [OF wf] by (simp add: b d)
  have small: "unat l < 65536" by simp
  have hdr: "parse_all [UNF_UI16_SHORT, UNF_UI8_CHAR] (sb_bytes sb) = Some ([V16 l, V8 t], d @ r)"
    by (simp add: b parse_UI16 parse_UI8 del: parse_step.simps)
  have wf3: "wf_buffer (adv sb 3)" and b3: "sb_bytes (adv sb 3) = d @ r"
    and len3: "silc_buffer_len (adv sb 3) = unat l + length r"
    using wf len by (simp_all add: wf_adv sb_bytes_adv b len_adv)
  have "parse_step (UNF_DATA_ALLOC (unat l)) (d @ r) = Some ([VPtr (if d = [] then None else Some d)], r)"
    using small d parse_DATA_ALLOC [of "unat l" d r] by (simp add: u32_max_def)
  then have dat: "parse_all [UNF_DATA_ALLOC (unat l)] (sb_bytes (adv sb 3)) =
      Some ([VPtr (if d = [] then None else Some d)], r)"
    by (simp add: b3 del: parse_step.simps split del: if_split)
  have "fst (silc_buffer_pull sb 3) = adv sb 3" "fst (silc_buffer_pull (adv sb 3) (unat l)) = adv sb (3 + unat l)"
    using len len3 by (simp_all add: pull_ok adv_def)
  moreover have "sub32 (silc_buffer_len sb) 3 = unat l + length r"
    using len silc_buffer_len_less [of sb] by (simp add: sub32_exact)
  ultimately show ?thesis
    by (simp add: with_unformat_parse [OF wf] hdr with_unformat_parse [OF wf3] dat
        del: parse_all.simps split del: if_split)
qed

lemma parse_arg_cases:
  assumes wf: "wf_buffer sb"
  obtains (bad) "\<And>n. argument_parse_loop (Suc n) sb = None"
    | (good) l t d r where "sb_bytes sb = SILC_PUT16_MSB l @ [t] @ d @ r" "length d = unat l"
proof (cases "parse_all [UNF_UI16_SHORT, UNF_UI8_CHAR] (sb_bytes sb)")
  case None
  then show thesis
    by (intro bad) (simp add: with_unformat_parse [OF wf] del: parse_all.simps)
next
  case (Some vr)
  then obtain l t r where vr: "vr = ([V16 l, V8 t], r)" and b: "sb_bytes sb = SILC_PUT16_MSB l @ t # r"
    by (auto split: option.splits prod.splits dest!: parse_UI16_inv parse_UI8_inv simp del: parse_step.simps)
  note hdr = Some [unfolded vr]
  have "silc_buffer_len sb = 3 + length r"
    using length_sb_bytes [OF wf] by (simp add: b)
  then have len: "sub32 (silc_buffer_len sb) 3 = length r"
    using silc_buffer_len_less [of sb] by (simp add: sub32_exact)
  show thesis
  proof (cases "unat l \<le> length r")
    case True
    then show thesis
      using b good [of l t "take (unat l) r" "drop (unat l) r"] by simp
  next
    case False
    then show thesis
      by (intro bad) (simp add: with_unformat_parse [OF wf] hdr len del: parse_all.simps)
  qed
qed

lemma arg_valid_simp [simp]:
  "length d = unat (l :: u16) \<Longrightarrow> arg_valid (if d = [] then None else Some d, ucast l, t)"
  "length d = unat (l :: u16) \<Longrightarrow> arg_bytes (if d = [] then None else Some d, ucast l, ucast (u :: byte)) =
     SILC_PUT16_MSB l @ [u] @ d"
  "length d = unat (l :: u16) \<Longrightarrow> arg_norm (if d = [] then None else Some d, ucast l, ucast (u :: byte)) =
     (if d = [] then None else Some d, ucast l, ucast u)"
  by (auto simp: arg_valid_def arg_bytes_def arg_norm_def arg_data_def arg_len16_def cast16_def)

lemma parse_loop_args:
  assumes "wf_buffer sb" and "list_all arg_valid as" and "sb_bytes sb = args_bytes as @ r"
  shows "argument_parse_loop (length as) sb = Some (map arg_norm as, adv sb (length (args_bytes as)))"
  using assms
proof (induction as arbitrary: sb)
  case (Cons a as)
  let ?l = "ucast (fst (snd a)) :: u16" and ?t = "ucast (snd (snd a)) :: byte"
  have l: "unat ?l = arg_len16 a" by (simp only: arg_len16_def cast16_def unat_ucast_u32_u16)
  have d: "length (arg_data a) = unat ?l" using Cons.prems(2) by (simp add: length_arg_data l [unfolded unat_ucast_u32_u16])
  have b: "sb_bytes sb = SILC_PUT16_MSB ?l @ [?t] @ arg_data a @ (args_bytes as @ r)"
    using Cons.prems(3) by (simp add: arg_bytes_def [of a])
  have fit: "3 + unat ?l \<le> silc_buffer_len sb"
    using length_sb_bytes [OF Cons.prems(1)] b d by simp
  have "sb_bytes (adv sb (3 + unat ?l)) = args_bytes as @ r"
    using d by (simp add: sb_bytes_adv b)
  with Cons.IH [of "adv sb (3 + unat ?l)"] Cons.prems fit
  have "argument_parse_loop (length as) (adv sb (3 + unat ?l)) =
      Some (map arg_norm as, adv sb (3 + unat ?l + length (args_bytes as)))"
    by (simp add: wf_adv)
  then show ?case
    using parse_arg_step [OF Cons.prems(1) b d, of "length as"] Cons.prems(2)
    by (simp add: arg_norm_def length_arg_bytes l [unfolded unat_ucast_u32_u16])
qed simp

lemma parse_loop_inv:
  assumes "wf_buffer sb" and "argument_parse_loop n sb = Some (as, b)"
  shows "length as = n \<and> list_all arg_valid as \<and> map arg_norm as = as \<and> wf_buffer b
    \<and> sb_bytes sb = args_bytes as @ sb_bytes b"
  using assms
proof (induction n arbitrary: sb as)
  case (Suc n)
  from Suc.prems(1) show ?case
  proof (cases rule: parse_arg_cases)
    case bad
    with Suc.prems(2) show ?thesis by (simp del: argument_parse_loop.simps)
  next
    case (good l t d r)
    let ?b = "adv sb (3 + unat l)"
    have fit: "3 + unat l \<le> silc_buffer_len sb"
      using length_sb_bytes [OF Suc.prems(1)] good by simp
    from Suc.prems(2) parse_arg_step [OF Suc.prems(1) good, of n] obtain as' where
      rest: "argument_parse_loop n ?b = Some (as', b)"
      and as: "as = (if d = [] then None else Some d, ucast l, ucast t) # as'"
      by (auto split: option.splits simp del: argument_parse_loop.simps)
    have "sb_bytes ?b = r"
      using good by (simp add: sb_bytes_adv)
    with Suc.IH [OF wf_adv [OF Suc.prems(1) fit] rest] show ?thesis
      using good as by (simp del: if_split)
  qed
qed simp

text \<open>The payloads the parser returns, and the argument lists with such a payload.\<close>

definition args_repr :: "silc_arg list \<Rightarrow> silc_argument_payload" where
  "args_repr as =
     \<lparr>arg_argc = length as, arg_argv = map (fst \<circ> arg_norm) as,
      arg_argv_lens = map (fst \<circ> snd \<circ> arg_norm) as,
      arg_argv_types = map (snd \<circ> snd \<circ> arg_norm) as, arg_pos = 0\<rparr>"

definition args_valid :: "nat \<Rightarrow> silc_arg list \<Rightarrow> bool" where
  "args_valid n as \<longleftrightarrow>
     length as = n \<and> 0 < n \<and> n * 8 < SILC_MAX_ALLOC \<and> list_all arg_valid as
     \<and> length (args_bytes as) < SILC_MAX_ALLOC"

lemma calloc_args:
  "silc_calloc n 8 = None \<or> silc_calloc n 4 = None \<longleftrightarrow> \<not> (0 < n \<and> n * 8 < SILC_MAX_ALLOC)"
  by (auto simp: silc_calloc_def)

lemma payload_parse_args:
  assumes "args_valid n as"
  shows "silc_argument_payload_parse (args_bytes as) n = Some (args_repr as)"
proof -
  let ?b = "silc_buffer_set (args_bytes as)"
  note v = assms [unfolded args_valid_def]
  have small: "length (args_bytes as) < u32_max"
    using v by (simp add: max_alloc_less_u32)
  then have "argument_parse_loop n ?b = Some (map arg_norm as, adv ?b (length (args_bytes as)))"
    using parse_loop_args [of ?b as "[]"] v by auto
  moreover have "silc_buffer_len (adv ?b (length (args_bytes as))) = 0"
    using small by (simp add: len_adv)
  ultimately show ?thesis
    unfolding silc_argument_payload_parse_def calloc_args
    using v by (simp add: args_repr_def comp_def)
qed

lemma payload_parse_inv:
  assumes "silc_argument_payload_parse bs n = Some p" and "length bs < SILC_MAX_ALLOC"
  shows "\<exists>as. args_valid n as \<and> map arg_norm as = as \<and> p = args_repr as \<and> bs = args_bytes as"
proof -
  note small = max_alloc_less_u32 [OF assms(2)]
  from assms(1) obtain as b where n: "0 < n \<and> n * 8 < SILC_MAX_ALLOC"
    and loop: "argument_parse_loop n (silc_buffer_set bs) = Some (as, b)"
    and e: "silc_buffer_len b = 0"
    and p: "p = \<lparr>arg_argc = n, arg_argv = map fst as, arg_argv_lens = map (fst \<circ> snd) as,
                 arg_argv_types = map (snd \<circ> snd) as, arg_pos = 0\<rparr>"
    unfolding silc_argument_payload_parse_def calloc_args by (auto split: if_splits option.splits)
  have as: "length as = n" "list_all arg_valid as" "map arg_norm as = as" "wf_buffer b"
    "bs = args_bytes as @ sb_bytes b"
    using parse_loop_inv [OF wf_buffer_set [OF small] loop] by simp_all
  then have bs: "bs = args_bytes as"
    using length_sb_bytes [of b] e by simp
  moreover have "p = args_repr as"
    using as(1,3) by (simp add: p args_repr_def flip: map_map)
  ultimately show ?thesis
    using as n assms(2) by (auto simp: args_valid_def)
qed

text \<open>The contract between the encoder and the parser, for payloads of \<open>n\<close> arguments.\<close>

interpretation arg_codec: canonical_codec
  "silc_argument_payload_encode J" "\<lambda>bs. silc_argument_payload_parse bs n" "args_valid n" args_repr
proof
  fix as :: "silc_arg list"
  assume v: "args_valid n as"
  then have enc: "silc_argument_payload_encode J as = Some (silc_buffer_set (args_bytes as))"
    by (simp add: args_valid_def argument_encode_eq)
  then show "\<exists>b. silc_argument_payload_encode J as = Some b \<and> wf_buffer b"
    using v by (simp add: args_valid_def max_alloc_less_u32)
  fix b
  assume "silc_argument_payload_encode J as = Some b"
  with enc payload_parse_args [OF v]
  show "silc_argument_payload_parse (sb_bytes b) n = Some (args_repr as)" by simp
next
  fix bs p
  assume "length bs < SILC_MAX_ALLOC" and "silc_argument_payload_parse bs n = Some p"
  then obtain as where "args_valid n as" "p = args_repr as" "bs = args_bytes as"
    using payload_parse_inv by blast
  then show "\<exists>x b. args_valid n x \<and> args_repr x = p \<and> silc_argument_payload_encode J x = Some b \<and> sb_bytes b = bs"
    by (intro exI [of _ as] exI [of _ "silc_buffer_set bs"]) (simp add: args_valid_def argument_encode_eq)
qed

section \<open>The other encoders\<close>

lemma payload_args_repr: "payload_args (args_repr as) = map arg_norm as"
  by (rule nth_equalityI) (simp_all add: payload_args_def args_repr_def)

lemma arg_norm_types:
  "snd (snd (arg_norm a)) = ucast (ucast (snd (snd a)) :: byte)"
  "fst (arg_norm a) = (if arg_data a = [] then None else Some (arg_data a))"
  by (simp_all add: arg_norm_def)

lemma arg_norm_facts:
  assumes "arg_valid a"
  shows "arg_valid (arg_norm a)" and "arg_bytes (arg_norm a) = arg_bytes a"
    and "unat (fst (snd (arg_norm a))) = arg_len16 a" and "arg_len16 (arg_norm a) = arg_len16 a"
proof -
  show len: "unat (fst (snd (arg_norm a))) = arg_len16 a" and len2: "arg_len16 (arg_norm a) = arg_len16 a"
    by (simp_all add: arg_norm_def arg_len16_def cast16_def)
  have "arg_data (arg_norm a) = arg_data a"
    using length_arg_data [OF assms] by (simp add: arg_data_def [of "arg_norm a"] len2) (simp add: arg_norm_def)
  then show "arg_bytes (arg_norm a) = arg_bytes a"
    by (simp add: arg_bytes_def) (simp add: arg_norm_def)
  show "arg_valid (arg_norm a)"
    using length_arg_data [OF assms] by (simp add: arg_valid_def len2) (auto simp: arg_norm_def)
qed

lemma encode_payload_eq:
  assumes "args_valid n as"
  shows "silc_argument_payload_encode_payload J (args_repr as) = Some (silc_buffer_set (args_bytes as))"
proof -
  let ?as = "map arg_norm as"
  have v: "list_all arg_valid as" and small: "length (args_bytes as) < SILC_MAX_ALLOC"
    using assms by (simp_all add: args_valid_def)
  have v': "list_all arg_valid ?as" and b: "map arg_bytes ?as = map arg_bytes as"
    using v by (auto simp: list_all_iff arg_norm_facts)
  have add: "add32 3 (unat (fst (snd a))) = 3 + arg_len16 a"
    and len: "unat (fst (snd a)) = arg_len16 a" if "a \<in> set ?as" for a
  proof -
    show l: "unat (fst (snd a)) = arg_len16 a"
      using that v by (auto simp: list_all_iff arg_norm_facts)
    have "3 + arg_len16 a < u32_max"
      using arg_len16_less [of a] unfolding u32_max_def by linarith
    then show "add32 3 (unat (fst (snd a))) = 3 + arg_len16 a"
      by (simp add: l add32_exact)
  qed
  have total: "foldl (\<lambda>l a. add32 l (add32 3 (unat (fst (snd a))))) 0 ?as = length (args_bytes ?as)"
  proof -
    have "foldl (\<lambda>l a. add32 l (add32 3 (unat (fst (snd a))))) 0 ?as =
        foldl (\<lambda>l a. add32 l (3 + arg_len16 a)) 0 ?as"
      by (rule foldl_cong) (simp_all add: add)
    then show ?thesis
      using args_len [OF v', of 0] max_alloc_less_u32 [OF small] unfolding b by simp
  qed
  show ?thesis
    unfolding silc_argument_payload_encode_payload_def payload_args_repr Let_def total
    using alloc_format_list_exact [of ?as "\<lambda>a. argument_params a (unat (fst (snd a)))" arg_bytes
        "\<lambda>a. add32 3 (unat (fst (snd a)))" "length (args_bytes ?as)" J] v' small add len
    by (simp only: b list_all_iff [of arg_valid] argument_params_fmt length_arg_bytes simp_thms)
qed

text \<open>Appending one argument to a buffer that holds nothing else than its arguments.\<close>

lemma encode_one_first:
  assumes "arg_valid a"
  shows "silc_argument_payload_encode_one J None a = Some (silc_buffer_set (arg_bytes a))"
proof -
  let ?n = "3 + arg_len16 a"
  have n: "?n < SILC_MAX_ALLOC" "length (arg_bytes a) = ?n"
    using arg_len16_less [of a] length_arg_bytes [OF assms] unfolding SILC_MAX_ALLOC_def by linarith+
  have "silc_buffer_alloc ?n = Some \<lparr>sb_mem = replicate ?n 0, sb_data = 0, sb_tail = 0\<rparr>"
    using n by (simp add: silc_buffer_alloc_def silc_calloc_def)
  moreover have "silc_buffer_format J \<lparr>sb_mem = replicate ?n 0, sb_data = 0, sb_tail = ?n\<rparr>
      (argument_params a (arg_len16 a)) = (silc_buffer_set (arg_bytes a), int ?n)"
    using format_alloc [OF n(1), of "argument_params a (arg_len16 a)" J] argument_params_fmt [OF assms] n(2)
    by simp
  moreover have "silc_buffer_taillen \<lparr>sb_mem = replicate ?n 0, sb_data = 0, sb_tail = 0\<rparr> = ?n"
    using max_alloc_less_u32 [OF n(1)] by (simp add: silc_buffer_taillen_def silc_arith)
  ultimately show ?thesis
    by (simp add: silc_argument_payload_encode_one_def silc_buffer_realloc_def silc_buffer_len_def
        silc_buffer_pull_def silc_buffer_pull_tail_def silc_buffer_push_def silc_arith u32_max_def
        cast32_def)
qed

lemma encode_one_next:
  assumes "arg_valid a" and "d \<noteq> []" and "length d + length (arg_bytes a) < SILC_MAX_ALLOC"
  shows "silc_argument_payload_encode_one J (Some (silc_buffer_set d)) a =
    Some (silc_buffer_set (d @ arg_bytes a))"
proof -
  let ?n = "3 + arg_len16 a" and ?N = "length d + (3 + arg_len16 a)"
  let ?m = "d @ map J [length d..<?N]"
  have n: "?N < SILC_MAX_ALLOC" "length (arg_bytes a) = ?n"
    using assms(3) length_arg_bytes [OF assms(1)] by simp_all
  then have lt: "?N < u32_max" "length d < u32_max" by (simp_all add: max_alloc_less_u32)
  let ?b = "\<lparr>sb_mem = ?m, sb_data = 0, sb_tail = length d\<rparr>"
  have "silc_buffer_realloc J (Some (silc_buffer_set d)) (add32 (silc_buffer_truelen (silc_buffer_set d)) ?n) =
      Some ?b"
    using n lt
    by (simp add: silc_buffer_realloc_def silc_buffer_truelen_def silc_arith silc_realloc_Some
        silc_buffer_headlen_def silc_buffer_len_def)
  moreover have "silc_buffer_len ?b = length d"
    using lt by (simp add: silc_buffer_len_def silc_arith)
  moreover have "silc_buffer_taillen \<lparr>sb_mem = ?m, sb_data = length d, sb_tail = length d\<rparr> = ?n"
    using lt by (simp add: silc_buffer_taillen_def silc_arith)
  moreover have "silc_buffer_format J \<lparr>sb_mem = ?m, sb_data = length d, sb_tail = ?N\<rparr>
      (argument_params a (arg_len16 a)) =
      (\<lparr>sb_mem = d @ arg_bytes a, sb_data = length d, sb_tail = ?N\<rparr>, int ?n)"
  proof -
    let ?c = "\<lparr>sb_mem = ?m, sb_data = length d, sb_tail = ?N\<rparr>"
    have "wf_buffer ?c" using lt by (simp add: wf_buffer_def)
    moreover have "silc_buffer_len ?c = ?n" using lt by (simp add: silc_buffer_len_def silc_arith)
    ultimately show ?thesis
      using format_fits [of ?c "argument_params a (arg_len16 a)" J] argument_params_fmt [OF assms(1)] n(2)
      by (simp add: memcpy_def)
  qed
  ultimately show ?thesis
    using lt n(2)
    by (simp add: silc_argument_payload_encode_one_def pull_ok silc_buffer_pull_tail_def push_ok
        silc_arith silc_buffer_set_def [of "d @ arg_bytes a"])
qed

lemma encode_one_all:
  assumes "list_all arg_valid as" and "d \<noteq> []" and "length d + length (args_bytes as) < SILC_MAX_ALLOC"
  shows "foldl (silc_argument_payload_encode_one J) (Some (silc_buffer_set d)) as =
    Some (silc_buffer_set (d @ args_bytes as))"
  using assms
proof (induction as arbitrary: d)
  case (Cons a as)
  then have "silc_argument_payload_encode_one J (Some (silc_buffer_set d)) a =
      Some (silc_buffer_set (d @ arg_bytes a))"
    by (intro encode_one_next) auto
  with Cons.IH [of "d @ arg_bytes a"] Cons.prems show ?case by simp
qed simp

section \<open>Looking arguments up\<close>

lemma arg_type_index_spec:
  "k = arg_type_index i n ts type \<Longrightarrow>
   i \<le> k \<and> k \<le> i + n \<and> (\<forall>j. i \<le> j \<and> j < k \<longrightarrow> ts ! j \<noteq> type) \<and> (k < i + n \<longrightarrow> ts ! k = type)"
proof (induction i n ts type rule: arg_type_index.induct)
  case (2 i n ts type)
  show ?case
  proof (cases "ts ! i = type")
    case False
    with 2 have "Suc i \<le> k \<and> k \<le> Suc i + n \<and> (\<forall>j. Suc i \<le> j \<and> j < k \<longrightarrow> ts ! j \<noteq> type)
        \<and> (k < Suc i + n \<longrightarrow> ts ! k = type)"
      by simp
    with False show ?thesis by (auto simp: le_eq_less_or_eq [of i] Suc_le_eq)
  qed (use 2 in auto)
qed auto

lemma find_index:
  assumes "k \<le> length as" and "\<forall>j < k. \<not> P (as ! j)" and "k < length as \<longrightarrow> P (as ! k)"
  shows "find P as = (if k < length as then Some (as ! k) else None)"
  using assms by (auto simp: find_None_iff find_Some_iff in_set_conv_nth)

lemma find_mem: "find P as = Some a \<Longrightarrow> a \<in> set as"
  by (auto simp: find_Some_iff)

lemma get_arg_type_repr:
  "silc_argument_get_arg_type (Some (args_repr as)) type =
     (case find (\<lambda>a. snd (snd (arg_norm a)) = type) as of
        None \<Rightarrow> None
      | Some a \<Rightarrow> (case fst (arg_norm a) of None \<Rightarrow> None | Some d \<Rightarrow> Some (d, fst (snd (arg_norm a)))))"
proof -
  let ?k = "arg_type_index 0 (length as) (map (snd \<circ> snd \<circ> arg_norm) as) type"
  have k: "?k \<le> length as" "\<forall>j < ?k. snd (snd (arg_norm (as ! j))) \<noteq> type"
    "?k < length as \<longrightarrow> snd (snd (arg_norm (as ! ?k))) = type"
    using arg_type_index_spec [OF refl, of 0 "length as" "map (snd \<circ> snd \<circ> arg_norm) as" type] by auto
  show ?thesis
    using find_index [OF k(1,2,3)] k(1)
    by (auto simp: silc_argument_get_arg_type_def args_repr_def Let_def split: option.splits)
qed

text \<open>What a list decoder keeps of one argument.\<close>

definition decoded_of ::
    "(bytes \<Rightarrow> 'pk option) \<Rightarrow> (bytes \<Rightarrow> 'at option) \<Rightarrow> arg_decode_type \<Rightarrow> silc_arg
     \<Rightarrow> (u32 \<times> ('pk, 'at) arg_decoded) list" where
  "decoded_of pk at dt a =
     (case silc_argument_decode pk at False True (arg_data a) dt of
        Some (x, Some v) \<Rightarrow> [(ucast (ucast (snd (snd a)) :: byte), v)]
      | _ \<Rightarrow> [])"

lemma next_arg_repr:
  "silc_argument_get_next_arg (args_repr as\<lparr>arg_pos := i\<rparr>) =
     (if i < length as then (args_repr as\<lparr>arg_pos := Suc i\<rparr>, Some (arg_norm (as ! i)))
      else (args_repr as\<lparr>arg_pos := i\<rparr>, None))"
  by (simp add: silc_argument_get_next_arg_def arg_at_pos_def args_repr_def)

lemma list_decoded_loop_repr:
  assumes "i < length as"
  shows "list_decoded_loop pk at dt (args_repr as\<lparr>arg_pos := Suc i\<rparr>) (Some (arg_norm (as ! i))) =
    concat (map (decoded_of pk at dt) (takeWhile (\<lambda>a. arg_data a \<noteq> []) (drop i as)))"
  using assms
proof (induction "length as - i" arbitrary: i)
  case (Suc m)
  have dr: "drop i as = as ! i # drop (Suc i) as"
    using Suc.prems by (simp add: Cons_nth_drop_Suc)
  obtain l where nrm: "arg_norm (as ! i) = (if arg_data (as ! i) = [] then None else Some (arg_data (as ! i)),
      l, ucast (ucast (snd (snd (as ! i))) :: byte))"
    by (simp add: arg_norm_def)
  show ?case
  proof (cases "Suc i < length as")
    case True
    then show ?thesis
      using Suc.hyps(1) [of "Suc i"] Suc.hyps(2)
      by (auto simp: nrm dr next_arg_repr decoded_of_def split: option.splits)
  next
    case False
    then show ?thesis
      by (auto simp: nrm dr next_arg_repr decoded_of_def split: option.splits)
  qed
qed simp

section \<open>Properties\<close>

text \<open>
  C26. The argument parser accepts exactly the encodings: a payload of at most one gigabyte parses
  as \<open>n\<close> arguments if and only if it is what the encoder writes for some list of \<open>n\<close> arguments,
  at least one and each with the data its length announces, and the result holds these
  arguments, with lengths cut to 16 bits, types cut to 8 bits and empty arguments as NULL.
\<close>

theorem silc_argument_payload_parse_iff:
  assumes "length bs < SILC_MAX_ALLOC"
  shows "silc_argument_payload_parse bs n = Some p \<longleftrightarrow>
    (\<exists>as b. args_valid n as \<and> args_repr as = p
       \<and> silc_argument_payload_encode J as = Some b \<and> sb_bytes b = bs)"
    (is "?l \<longleftrightarrow> ?r")
proof
  show "?r" if "?l" using arg_codec.parse_canonical [OF assms that, of J] .
  assume ?r
  then obtain as b where "args_valid n as" "silc_argument_payload_encode J as = Some b"
    "args_repr as = p" "sb_bytes b = bs" by blast
  then show ?l using arg_codec.parse_encode [of n as J b] by simp
qed

theorem silc_argument_payload_parse_iff_witness:
  "silc_argument_payload_parse [0, 2, 1, 65, 66, 0, 0, 2] 2 =
     Some (args_repr [(Some [65, 66], 2, 1), (None, 0, 2)])"
proof -
  let ?as = "[(Some [65, 66], 2, 1), (None, 0, 2)] :: silc_arg list"
  have "args_valid 2 ?as"
    by (simp add: args_valid_def arg_valid_def arg_len16_def cast16_def SILC_MAX_ALLOC_def
        arg_bytes_def arg_data_def)
  moreover have "args_bytes ?as = [0, 2, 1, 65, 66, 0, 0, 2]"
    by (simp add: arg_bytes_def arg_data_def arg_len16_def cast16_def SILC_PUT16_MSB_def)
  ultimately show ?thesis
    using silc_argument_payload_parse_iff
        [of "[0, 2, 1, 65, 66, 0, 0, 2]" 2 "args_repr ?as" "\<lambda>_. 0"] argument_encode_eq [of ?as "\<lambda>_. 0"]
    by (auto simp: args_valid_def SILC_MAX_ALLOC_def intro!: exI [of _ ?as])
qed

text \<open>
  The three encoders agree: encoding a list at once, appending its arguments one by one to an
  initially missing buffer, and encoding the payload structure that the parser would return all
  give the same buffer, for any content of fresh memory.
\<close>

theorem silc_argument_encoders_agree:
  assumes "args_valid n as"
  shows "\<exists>b. silc_argument_payload_encode J as = Some b
    \<and> foldl (silc_argument_payload_encode_one J') None as = Some b
    \<and> silc_argument_payload_encode_payload J'' (args_repr as) = Some b"
proof -
  have v: "list_all arg_valid as" "length (args_bytes as) < SILC_MAX_ALLOC" "as \<noteq> []"
    using assms by (auto simp: args_valid_def)
  then obtain a as' where as: "as = a # as'" by (cases as) auto
  have "arg_bytes a \<noteq> []" by (simp add: arg_bytes_def)
  then have "foldl (silc_argument_payload_encode_one J') None as = Some (silc_buffer_set (args_bytes as))"
    using v encode_one_first [of a J'] encode_one_all [of as' "arg_bytes a" J'] by (simp add: as)
  then show ?thesis
    using argument_encode_eq [OF v(1,2)] encode_payload_eq [OF assms] by simp
qed

theorem silc_argument_encoders_agree_witness:
  "\<exists>b. silc_argument_payload_encode (\<lambda>_. 1) [(Some [65], 1, 7), (Some [66, 67], 2, 8)] = Some b
    \<and> foldl (silc_argument_payload_encode_one (\<lambda>_. 2)) None [(Some [65], 1, 7), (Some [66, 67], 2, 8)] = Some b"
proof -
  have "args_valid 2 [(Some [65], 1, 7), (Some [66, 67], 2, 8)]"
    by (simp add: args_valid_def arg_valid_def arg_len16_def cast16_def SILC_MAX_ALLOC_def
        arg_bytes_def arg_data_def)
  from silc_argument_encoders_agree [OF this, of "\<lambda>_. 1" "\<lambda>_. 2" "\<lambda>_. 3"] show ?thesis
    by (elim exE conjE) (rule exI, rule conjI)
qed

text \<open>
  Looking an argument up by its type in an encoded and parsed payload gives the data of the
  first argument of that type; it gives nothing when there is none, and also when that first
  argument is empty.
\<close>

theorem silc_argument_get_arg_type_first:
  assumes "args_valid n as" and "silc_argument_payload_encode J as = Some b"
  shows "silc_argument_get_arg_type (silc_argument_payload_parse (sb_bytes b) n) type =
    (case find (\<lambda>a. ucast (ucast (snd (snd a)) :: byte) = type) as of
       None \<Rightarrow> None
     | Some a \<Rightarrow> if arg_data a = [] then None else Some (arg_data a, of_nat (length (arg_data a))))"
proof -
  have norm: "fst (snd (arg_norm a)) = of_nat (length (arg_data a))" if "a \<in> set as" for a
  proof -
    have "unat (fst (snd (arg_norm a))) = length (arg_data a)"
      using assms(1) that by (simp add: args_valid_def list_all_iff arg_norm_facts length_arg_data)
    then have "of_nat (unat (fst (snd (arg_norm a)))) = (of_nat (length (arg_data a)) :: u32)" by simp
    then show ?thesis by simp
  qed
  have "silc_argument_payload_parse (sb_bytes b) n = Some (args_repr as)"
    using arg_codec.parse_encode [OF assms] by simp
  then show ?thesis
    using norm find_mem [of "\<lambda>a. ucast (ucast (snd (snd a)) :: byte) = type" as]
    by (simp add: get_arg_type_repr arg_norm_types split: option.splits)
qed

theorem silc_argument_get_arg_type_first_witness:
  "silc_argument_get_arg_type
     (silc_argument_payload_parse (args_bytes [(Some [65], 1, 7), (Some [66, 67], 2, 8)]) 2) 8 =
     Some ([66, 67], 2)"
proof -
  have v: "args_valid 2 [(Some [65], 1, 7), (Some [66, 67], 2, 8)]"
    by (simp add: args_valid_def arg_valid_def arg_len16_def cast16_def SILC_MAX_ALLOC_def
        arg_bytes_def arg_data_def)
  have e: "silc_argument_payload_encode (\<lambda>_. 0) [(Some [65], 1, 7), (Some [66, 67], 2, 8)] =
      Some (silc_buffer_set (args_bytes [(Some [65], 1, 7), (Some [66, 67], 2, 8)]))"
    using v by (intro argument_encode_eq) (auto simp: args_valid_def)
  show ?thesis
    using silc_argument_get_arg_type_first [OF v e, of 8]
    by (simp add: arg_data_def arg_len16_def cast16_def)
qed

text \<open>
  Decoding an Argument List Payload returns, in order, the arguments that decode, up to the
  first empty argument: the loop takes its NULL data pointer for the end of the list, so that the
  arguments behind an empty one are dropped although the payload is well-formed.
\<close>

theorem silc_argument_list_parse_decoded_prefix:
  assumes "args_valid n as" and "n < 65536"
  shows "silc_argument_list_parse_decoded pk at (SILC_PUT16_MSB (of_nat n) @ args_bytes as) dt =
    Some (concat (map (\<lambda>a. case silc_argument_decode pk at False True (arg_data a) dt of
                            Some (x, Some v) \<Rightarrow> [(ucast (ucast (snd (snd a)) :: byte), v)]
                          | _ \<Rightarrow> [])
                 (takeWhile (\<lambda>a. arg_data a \<noteq> []) as)))"
proof -
  have n: "0 < length as" "length as = n" using assms(1) by (auto simp: args_valid_def)
  then have "3 \<le> length (args_bytes as)" by (cases as) (auto simp: arg_bytes_def)
  then have "silc_argument_list_parse (SILC_PUT16_MSB (of_nat n) @ args_bytes as) = Some (args_repr as)"
    using payload_parse_args [OF assms(1)] assms(2) by (simp add: silc_argument_list_parse_def)
  moreover have "silc_argument_get_first_arg (args_repr as) =
      (args_repr as\<lparr>arg_pos := Suc 0\<rparr>, arg_norm (as ! 0))"
    using n by (simp add: silc_argument_get_first_arg_def arg_at_pos_def args_repr_def)
  ultimately show ?thesis
    using list_decoded_loop_repr [OF n(1), of pk at dt]
    by (simp add: silc_argument_list_parse_decoded_def decoded_of_def [abs_def])
qed

theorem silc_argument_list_parse_decoded_prefix_witness:
  "silc_argument_list_parse_decoded (\<lambda>_. None :: nat option) (\<lambda>_. None :: nat option)
     (SILC_PUT16_MSB 3 @ args_bytes [(Some [1], 1, 1), (None, 0, 2), (Some [1], 1, 3)]) SILC_ARGUMENT_BOOL =
     Some [(1, DecBool True)]"
proof -
  have v: "args_valid 3 [(Some [1], 1, 1), (None, 0, 2), (Some [1], 1, 3)]"
    by (simp add: args_valid_def arg_valid_def arg_len16_def cast16_def SILC_MAX_ALLOC_def
        arg_bytes_def arg_data_def)
  show ?thesis
    using silc_argument_list_parse_decoded_prefix [OF v, of "\<lambda>_. None" "\<lambda>_. None" SILC_ARGUMENT_BOOL]
    by (simp add: arg_data_def arg_len16_def cast16_def silc_argument_decode_def)
qed

end
