(* ===== verification/Silc_Command.thy ===== *)
theory Silc_Command
  imports Silc_Argument
begin

text \<open>
  \<open>lib/silccore/silccommand.c\<close>: the Command Payload (command, identifier, arguments), its
  encoders, and the status of a command reply. The variadic encoders take the list of
  (data, length, type) triples their \<open>va_list\<close> holds.
\<close>

section \<open>Command Payload\<close>

record silc_command_payload =
  cmd_cmd :: byte
  cmd_ident :: u16
  cmd_args :: "silc_argument_payload option"

definition SILC_COMMAND_PAYLOAD_LEN :: nat where
  "SILC_COMMAND_PAYLOAD_LEN = 6"

definition silc_command_payload_parse :: "bytes \<Rightarrow> silc_command_payload option" where
  "silc_command_payload_parse payload =
     with_unformat (silc_buffer_set payload)
       [UNF_UI16_SHORT, UNF_UI8_CHAR, UNF_UI8_CHAR, UNF_UI16_SHORT] None (\<lambda>buffer vs.
       case vs of
         [V16 p_len, V8 cmd, V8 args_num, V16 ident] \<Rightarrow>
           (if unat p_len \<noteq> silc_buffer_len buffer then None
            else if cmd = 0 then None
            else if args_num \<noteq> 0 then
              (case silc_argument_payload_parse
                      (sb_bytes (fst (silc_buffer_pull buffer SILC_COMMAND_PAYLOAD_LEN))) (unat args_num) of
                 None \<Rightarrow> None
               | Some args \<Rightarrow> Some \<lparr>cmd_cmd = cmd, cmd_ident = ident, cmd_args = Some args\<rparr>)
            else Some \<lparr>cmd_cmd = cmd, cmd_ident = ident, cmd_args = None\<rparr>)
       | _ \<Rightarrow> None)"

text \<open>The part the two encoders share: the header, and behind it the encoded arguments, if any.\<close>

definition command_format :: "junk \<Rightarrow> byte \<Rightarrow> nat \<Rightarrow> u16 \<Rightarrow> silc_buffer option \<Rightarrow> silc_buffer option" where
  "command_format J cmd argc ident args =
     (let len = add32 (case args of None \<Rightarrow> 0 | Some a \<Rightarrow> silc_buffer_len a) SILC_COMMAND_PAYLOAD_LEN
      in case silc_buffer_alloc_size len of
           None \<Rightarrow> None
         | Some buffer \<Rightarrow>
             (let buffer = fst (silc_buffer_format J buffer
                [FMT_SHORT (of_nat len), FMT_CHAR cmd, FMT_CHAR (of_nat argc), FMT_SHORT ident])
              in case args of
                   None \<Rightarrow> Some buffer
                 | Some a \<Rightarrow>
                     Some (format_body J SILC_COMMAND_PAYLOAD_LEN
                       [FMT_NSTRING (Some (sb_bytes a)) (silc_buffer_len a)] buffer)))"

definition silc_command_payload_encode :: "junk \<Rightarrow> byte \<Rightarrow> silc_arg list \<Rightarrow> u16 \<Rightarrow> silc_buffer option" where
  "silc_command_payload_encode J cmd args ident =
     (if args \<noteq> [] then
        (case silc_argument_payload_encode J args of
           None \<Rightarrow> None
         | Some a \<Rightarrow> command_format J cmd (length args) ident (Some a))
      else command_format J cmd 0 ident None)"

definition silc_command_payload_encode_payload :: "junk \<Rightarrow> silc_command_payload \<Rightarrow> silc_buffer option" where
  "silc_command_payload_encode_payload J payload =
     (case cmd_args payload of
        None \<Rightarrow> command_format J (cmd_cmd payload) 0 (cmd_ident payload) None
      | Some a \<Rightarrow>
          command_format J (cmd_cmd payload) (silc_argument_get_arg_num (Some a)) (cmd_ident payload)
            (silc_argument_payload_encode_payload J a))"

text \<open>
  Collecting the variadic arguments: one without type, data or length is skipped, the others are
  copied, and \<open>None\<close> is a copy that could not be made.
\<close>

fun va_collect :: "silc_arg list \<Rightarrow> silc_arg list option" where
  "va_collect [] = Some []"
| "va_collect ((x, x_len, x_type) # as) =
     (case x of
        None \<Rightarrow> va_collect as
      | Some d \<Rightarrow>
          (if x_type = 0 \<or> x_len = 0 then va_collect as
           else
             (case silc_memdup (take (unat x_len) d) of
                None \<Rightarrow> None
              | Some y \<Rightarrow>
                  (case va_collect as of
                     None \<Rightarrow> None
                   | Some bs \<Rightarrow> Some ((Some y, x_len, x_type) # bs)))))"

definition silc_command_payload_encode_vap :: "junk \<Rightarrow> byte \<Rightarrow> u16 \<Rightarrow> silc_arg list \<Rightarrow> silc_buffer option" where
  "silc_command_payload_encode_vap J cmd ident ap =
     (if ap \<noteq> [] \<and> (silc_calloc (length ap) 8 = None \<or> silc_calloc (length ap) 4 = None) then None
      else
        (case va_collect ap of
           None \<Rightarrow> None
         | Some args \<Rightarrow> silc_command_payload_encode J cmd args ident))"

definition silc_command_payload_encode_va :: "junk \<Rightarrow> byte \<Rightarrow> u16 \<Rightarrow> silc_arg list \<Rightarrow> silc_buffer option" where
  "silc_command_payload_encode_va J cmd ident ap = silc_command_payload_encode_vap J cmd ident ap"

definition silc_command_reply_payload_encode_vap ::
    "junk \<Rightarrow> byte \<Rightarrow> byte \<Rightarrow> byte \<Rightarrow> u16 \<Rightarrow> silc_arg list \<Rightarrow> silc_buffer option" where
  "silc_command_reply_payload_encode_vap J cmd status error ident ap =
     (let argc = add32 (length ap) 1
      in if silc_calloc argc 8 = None \<or> silc_calloc argc 4 = None then None
         else
           (case silc_memdup [status, error] of
              None \<Rightarrow> None
            | Some status_data \<Rightarrow>
                (case va_collect ap of
                   None \<Rightarrow> None
                 | Some args \<Rightarrow>
                     silc_command_payload_encode J cmd ((Some status_data, 2, 1) # args) ident)))"

definition silc_command_reply_payload_encode_va ::
    "junk \<Rightarrow> byte \<Rightarrow> byte \<Rightarrow> byte \<Rightarrow> u16 \<Rightarrow> silc_arg list \<Rightarrow> silc_buffer option" where
  "silc_command_reply_payload_encode_va J cmd status error ident ap =
     silc_command_reply_payload_encode_vap J cmd status error ident ap"

definition silc_command_get :: "silc_command_payload \<Rightarrow> byte" where
  "silc_command_get payload = cmd_cmd payload"

definition silc_command_get_args :: "silc_command_payload \<Rightarrow> silc_argument_payload option" where
  "silc_command_get_args payload = cmd_args payload"

definition silc_command_get_ident :: "silc_command_payload \<Rightarrow> u16" where
  "silc_command_get_ident payload = cmd_ident payload"

definition SILC_STATUS_OK :: byte where "SILC_STATUS_OK = 0"
definition SILC_STATUS_ERR_NO_SUCH_NICK :: byte where "SILC_STATUS_ERR_NO_SUCH_NICK = 10"

text \<open>The returned value, and what is stored through \<open>status\<close> and \<open>error\<close> when they are set.\<close>

definition silc_command_get_status :: "silc_command_payload \<Rightarrow> bool \<times> (byte \<times> byte) option" where
  "silc_command_get_status payload =
     (case cmd_args payload of
        None \<Rightarrow> (False, None)
      | Some args \<Rightarrow>
          (case silc_argument_get_arg_type (Some args) 1 of
             None \<Rightarrow> (False, None)
           | Some (tmp, tmp_len) \<Rightarrow>
               (if tmp_len \<noteq> 2 then (False, None)
                else if tmp ! 0 = 0 \<and> tmp ! 1 \<noteq> 0 then
                  (let s = ucast (SILC_GET16_MSB tmp)
                   in (s < SILC_STATUS_ERR_NO_SUCH_NICK,
                       Some (s, if SILC_STATUS_ERR_NO_SUCH_NICK \<le> s then s else 0)))
                else
                  (tmp ! 0 < SILC_STATUS_ERR_NO_SUCH_NICK \<and> tmp ! 1 = SILC_STATUS_OK,
                   Some (tmp ! 0, if SILC_STATUS_ERR_NO_SUCH_NICK \<le> tmp ! 0 then tmp ! 0 else tmp ! 1)))))"

definition silc_command_set_ident :: "silc_command_payload \<Rightarrow> u16 \<Rightarrow> silc_command_payload" where
  "silc_command_set_ident payload ident = payload\<lparr>cmd_ident := ident\<rparr>"

definition silc_command_set_command :: "silc_command_payload \<Rightarrow> byte \<Rightarrow> silc_command_payload" where
  "silc_command_set_command payload command = payload\<lparr>cmd_cmd := command\<rparr>"

section \<open>The codec\<close>

definition command_header :: "nat \<Rightarrow> byte \<Rightarrow> nat \<Rightarrow> u16 \<Rightarrow> bytes" where
  "command_header len cmd argc ident =
     SILC_PUT16_MSB (of_nat len) @ [cmd, of_nat argc] @ SILC_PUT16_MSB ident"

lemma command_format_eq:
  assumes "length d + 6 < SILC_MAX_ALLOC"
  shows "command_format J cmd argc ident (Some (silc_buffer_set d)) =
      Some (silc_buffer_set (command_header (length d + 6) cmd argc ident @ d))"
    and "command_format J cmd argc ident None = Some (silc_buffer_set (command_header 6 cmd argc ident))"
proof -
  let ?h = "\<lambda>n. [FMT_SHORT (of_nat n), FMT_CHAR cmd, FMT_CHAR (of_nat argc), FMT_SHORT ident]"
  have len: "silc_buffer_len (silc_buffer_set d) = length d"
    "add32 (length d) 6 = length d + 6" "add32 0 6 = 6"
    using max_alloc_less_u32 [OF assms] by (simp_all add: silc_arith u32_max_def)
  show "command_format J cmd argc ident (Some (silc_buffer_set d)) =
      Some (silc_buffer_set (command_header (length d + 6) cmd argc ident @ d))"
    using format_header_body [of "?h (length d + 6)" "[FMT_NSTRING (Some d) (length d)]" 6 "length d + 6" J] assms
    by (simp add: command_format_def SILC_COMMAND_PAYLOAD_LEN_def len alloc_size_Some command_header_def)
  show "command_format J cmd argc ident None = Some (silc_buffer_set (command_header 6 cmd argc ident))"
    using format_alloc [of 6 "?h 6" J]
    by (simp add: command_format_def SILC_COMMAND_PAYLOAD_LEN_def len alloc_size_Some command_header_def
        SILC_MAX_ALLOC_def)
qed

lemma command_header_parse:
  "parse_all [UNF_UI16_SHORT, UNF_UI8_CHAR, UNF_UI8_CHAR, UNF_UI16_SHORT]
     (SILC_PUT16_MSB l @ [cmd, argc] @ SILC_PUT16_MSB ident @ d) =
   Some ([V16 l, V8 cmd, V8 argc, V16 ident], d)"
  by (simp add: parse_UI16 parse_UI8 del: parse_step.simps)

lemma command_parse_eq:
  assumes "length d + 6 < u32_max"
  shows "silc_command_payload_parse (SILC_PUT16_MSB l @ [cmd, argc] @ SILC_PUT16_MSB ident @ d) =
    (if unat l \<noteq> length d + 6 \<or> cmd = 0 then None
     else if argc = 0 then Some \<lparr>cmd_cmd = cmd, cmd_ident = ident, cmd_args = None\<rparr>
     else map_option (\<lambda>a. \<lparr>cmd_cmd = cmd, cmd_ident = ident, cmd_args = Some a\<rparr>)
            (silc_argument_payload_parse d (unat argc)))"
proof -
  define D where "D = SILC_PUT16_MSB l @ [cmd, argc] @ SILC_PUT16_MSB ident @ d"
  have len: "length D = length d + 6" and dr: "drop 6 D = d"
    by (simp_all add: D_def)
  have hdr: "parse_all [UNF_UI16_SHORT, UNF_UI8_CHAR, UNF_UI8_CHAR, UNF_UI16_SHORT] D =
      Some ([V16 l, V8 cmd, V8 argc, V16 ident], d)"
    unfolding D_def by (rule command_header_parse)
  have wf: "wf_buffer (silc_buffer_set D)" using assms len by simp
  have pull: "fst (silc_buffer_pull (silc_buffer_set D) 6) = adv (silc_buffer_set D) 6"
    and body: "sb_bytes (adv (silc_buffer_set D) 6) = d"
    using assms len dr by (simp_all add: pull_set adv_set_facts)
  have "with_unformat (silc_buffer_set D) [UNF_UI16_SHORT, UNF_UI8_CHAR, UNF_UI8_CHAR, UNF_UI16_SHORT] err k =
      k (silc_buffer_set D) [V16 l, V8 cmd, V8 argc, V16 ident]" for k and err :: "silc_command_payload option"
    by (rule with_unformat_ok [OF wf]) (simp_all add: hdr del: parse_all.simps)
  then show ?thesis
    unfolding D_def [symmetric] silc_command_payload_parse_def
    by (simp add: pull body len assms SILC_COMMAND_PAYLOAD_LEN_def map_option_case)
qed

text \<open>Every payload long enough for the header has this shape.\<close>

lemma command_shape:
  assumes "silc_command_payload_parse bs = Some p" and "length bs < u32_max"
  obtains l cmd argc ident d where "bs = SILC_PUT16_MSB l @ [cmd, argc] @ SILC_PUT16_MSB ident @ d"
proof (cases "parse_all [UNF_UI16_SHORT, UNF_UI8_CHAR, UNF_UI8_CHAR, UNF_UI16_SHORT] bs")
  case None
  with assms show thesis
    by (simp add: silc_command_payload_parse_def with_unformat_fail del: parse_all.simps)
next
  case (Some vr)
  then show thesis
    using that
    by (auto split: option.splits prod.splits dest!: parse_UI16_inv parse_UI8_inv simp del: parse_step.simps)
qed

definition command_valid :: "byte \<times> silc_arg list \<times> u16 \<Rightarrow> bool" where
  "command_valid x \<longleftrightarrow>
     (case x of (cmd, args, ident) \<Rightarrow>
        cmd \<noteq> 0 \<and> length args < 256 \<and> list_all arg_valid args \<and> length (args_bytes args) + 6 < 65536)"

definition command_repr :: "byte \<times> silc_arg list \<times> u16 \<Rightarrow> silc_command_payload" where
  "command_repr x =
     (case x of (cmd, args, ident) \<Rightarrow>
        \<lparr>cmd_cmd = cmd, cmd_ident = ident, cmd_args = (if args = [] then None else Some (args_repr args))\<rparr>)"

lemma command_args_valid:
  "command_valid (cmd, args, ident) \<Longrightarrow> args \<noteq> [] \<Longrightarrow> args_valid (length args) args"
  by (simp add: command_valid_def args_valid_def SILC_MAX_ALLOC_def)

lemma command_encode_eq:
  assumes "command_valid (cmd, args, ident)"
  shows "silc_command_payload_encode J cmd args ident =
    Some (silc_buffer_set (command_header (length (args_bytes args) + 6) cmd (length args) ident @ args_bytes args))"
proof (cases "args = []")
  case True
  then show ?thesis
    using command_format_eq(2) [of "[]" J cmd 0 ident]
    by (simp add: silc_command_payload_encode_def SILC_MAX_ALLOC_def)
next
  case False
  have small: "length (args_bytes args) + 6 < SILC_MAX_ALLOC"
    using assms by (simp add: command_valid_def SILC_MAX_ALLOC_def)
  have "silc_argument_payload_encode J args = Some (silc_buffer_set (args_bytes args))"
    using command_args_valid [OF assms False] by (simp add: args_valid_def argument_encode_eq)
  with False command_format_eq(1) [OF small] show ?thesis
    by (simp add: silc_command_payload_encode_def)
qed

lemma command_parse_encoded:
  assumes "command_valid (cmd, args, ident)"
  shows "silc_command_payload_parse
      (command_header (length (args_bytes args) + 6) cmd (length args) ident @ args_bytes args) =
    Some (command_repr (cmd, args, ident))"
proof -
  note v = assms [unfolded command_valid_def prod.case]
  have c: "unat (of_nat (length (args_bytes args) + 6) :: u16) = length (args_bytes args) + 6"
    "unat (of_nat (length args) :: byte) = length args"
    using v by (simp_all del: of_nat_add)
  have z: "(of_nat (length args) :: byte) = 0 \<longleftrightarrow> args = []"
    using v by (simp add: of_nat_byte_eq_0)
  have small: "length (args_bytes args) + 6 < u32_max"
    using v by (simp add: u32_max_def)
  have p: "silc_argument_payload_parse (args_bytes args) (length args) = Some (args_repr args)" if "args \<noteq> []"
    by (rule payload_parse_args [OF command_args_valid [OF assms that]])
  show ?thesis
    using command_parse_eq [OF small, of "of_nat (length (args_bytes args) + 6)" cmd "of_nat (length args)" ident]
      v c p by (simp add: command_header_def command_repr_def z del: of_nat_add)
qed

interpretation command_codec: payload_codec
  "\<lambda>(cmd, args, ident). silc_command_payload_encode J cmd args ident" silc_command_payload_parse
  command_valid command_repr
proof
  fix x :: "byte \<times> silc_arg list \<times> u16"
  obtain cmd args ident where x: "x = (cmd, args, ident)" by (cases x)
  assume "command_valid x"
  then have v: "command_valid (cmd, args, ident)" by (simp add: x)
  then have small: "length (command_header (length (args_bytes args) + 6) cmd (length args) ident @ args_bytes args) < u32_max"
    by (simp add: command_valid_def command_header_def u32_max_def)
  then show "\<exists>b. (case x of (cmd, args, ident) \<Rightarrow> silc_command_payload_encode J cmd args ident) = Some b \<and> wf_buffer b"
    by (simp add: x command_encode_eq [OF v])
  fix b
  assume "(case x of (cmd, args, ident) \<Rightarrow> silc_command_payload_encode J cmd args ident) = Some b"
  then show "silc_command_payload_parse (sb_bytes b) = Some (command_repr x)"
    using command_parse_encoded [OF v] by (auto simp: x command_encode_eq [OF v])
qed

section \<open>Variadic encoding and the reply status\<close>

text \<open>The arguments \<open>va_collect\<close> keeps.\<close>

definition va_kept :: "silc_arg \<Rightarrow> bool" where
  "va_kept a \<longleftrightarrow> fst a \<noteq> None \<and> fst (snd a) \<noteq> 0 \<and> snd (snd a) \<noteq> 0"

definition va_ok :: "silc_arg \<Rightarrow> bool" where
  "va_ok a \<longleftrightarrow> (\<forall>d. fst a = Some d \<longrightarrow> length d = unat (fst (snd a)) \<and> length d + 1 < SILC_MAX_ALLOC)"

lemma va_collect_filter: "list_all va_ok ap \<Longrightarrow> va_collect ap = Some (filter va_kept ap)"
proof (induction ap rule: va_collect.induct)
  case (2 x x_len x_type as)
  then show ?case
    by (cases x) (auto simp: va_kept_def va_ok_def silc_memdup_Some split: if_splits)
qed simp

lemma arg_valid_va: "va_ok a \<Longrightarrow> va_kept a \<Longrightarrow> arg_valid a"
  by (cases a) (auto simp: va_ok_def va_kept_def arg_valid_def arg_len16_def cast16_def)

text \<open>The status argument comes first in a reply, so it is the one found for type 1.\<close>

lemma reply_status_arg:
  "silc_argument_get_arg_type (Some (args_repr ((Some [s, e], 2, 1) # as))) 1 = Some ([s, e], 2)"
  by (simp add: get_arg_type_repr arg_norm_def arg_data_def arg_len16_def cast16_def)

section \<open>Properties\<close>

text \<open>
  C27. A Command Payload with a non-zero command, fewer than 256 arguments and a total length
  below 65536 is encoded, and parsing the encoding gives back the command, the identifier and the
  arguments.
\<close>

theorem silc_command_payload_roundtrip:
  assumes "cmd \<noteq> 0" and "length args < 256" and "list_all arg_valid args"
    and "length (args_bytes args) + 6 < 65536"
  shows "\<exists>b. silc_command_payload_encode J cmd args ident = Some b \<and> wf_buffer b
    \<and> silc_command_payload_parse (sb_bytes b) =
        Some \<lparr>cmd_cmd = cmd, cmd_ident = ident,
              cmd_args = (if args = [] then None else Some (args_repr args))\<rparr>"
  using command_codec.roundtrip [of "(cmd, args, ident)" J] assms
  by (simp add: command_valid_def command_repr_def)

theorem silc_command_payload_roundtrip_witness:
  "\<exists>b. silc_command_payload_encode (\<lambda>_. 0) 5 [(Some [1, 2], 2, 1)] 77 = Some b
    \<and> silc_command_payload_parse (sb_bytes b) =
        Some \<lparr>cmd_cmd = 5, cmd_ident = 77, cmd_args = Some (args_repr [(Some [1, 2], 2, 1)])\<rparr>"
  using silc_command_payload_roundtrip [of 5 "[(Some [1, 2], 2, 1)]" "\<lambda>_. 0" 77]
  by (auto simp: arg_valid_def arg_len16_def cast16_def arg_bytes_def arg_data_def)

text \<open>
  A received Command Payload that carries arguments is rebuilt exactly: encoding the parsed
  payload gives the received bytes, so a payload can be parsed, kept and sent again.
\<close>

theorem silc_command_payload_reencode:
  assumes "silc_command_payload_parse bs = Some p" and "cmd_args p = Some a" and "length bs < SILC_MAX_ALLOC"
  shows "silc_command_payload_encode_payload J p = Some (silc_buffer_set bs)"
proof -
  note small = max_alloc_less_u32 [OF assms(3)]
  from command_shape [OF assms(1) small] obtain l cmd argc ident d where
    bs: "bs = SILC_PUT16_MSB l @ [cmd, argc] @ SILC_PUT16_MSB ident @ d" .
  have len: "length d + 6 < SILC_MAX_ALLOC" using assms(3) bs by simp
  have l: "unat l = length d + 6" and parse: "silc_argument_payload_parse d (unat argc) = Some a"
    and p: "p = \<lparr>cmd_cmd = cmd, cmd_ident = ident, cmd_args = Some a\<rparr>"
    using assms(1) [unfolded bs command_parse_eq [OF max_alloc_less_u32 [OF len]]] assms(2)
    by (auto split: if_splits)
  from payload_parse_inv [OF parse] len obtain as where
    as: "args_valid (unat argc) as" "a = args_repr as" "d = args_bytes as" by auto
  have enc: "silc_argument_payload_encode_payload J a = Some (silc_buffer_set d)"
    using encode_payload_eq [OF as(1), of J] as by simp
  have num: "silc_argument_get_arg_num (Some a) = unat argc"
    using as by (simp add: silc_argument_get_arg_num_def args_repr_def args_valid_def)
  have "of_nat (length d + 6) = l" using l [symmetric] by simp
  then show ?thesis
    using command_format_eq(1) [OF len, of J cmd "unat argc" ident]
    by (simp add: silc_command_payload_encode_payload_def p enc num command_header_def bs)
qed

theorem silc_command_payload_reencode_witness:
  "\<exists>p. silc_command_payload_parse [0, 10, 4, 1, 0, 9, 0, 1, 1, 65] = Some p
    \<and> silc_command_payload_encode_payload (\<lambda>_. 0) p = Some (silc_buffer_set [0, 10, 4, 1, 0, 9, 0, 1, 1, 65])"
proof -
  let ?as = "[(Some [65], 1, 1)] :: silc_arg list"
  have "command_valid (4, ?as, 9)"
    by (simp add: command_valid_def arg_valid_def arg_len16_def cast16_def arg_bytes_def arg_data_def)
  then have "silc_command_payload_parse [0, 10, 4, 1, 0, 9, 0, 1, 1, 65] = Some (command_repr (4, ?as, 9))"
    using command_parse_encoded [of 4 ?as 9]
    by (simp add: command_header_def arg_bytes_def arg_data_def arg_len16_def cast16_def SILC_PUT16_MSB_def)
  moreover from silc_command_payload_reencode [OF this, of "args_repr ?as" "\<lambda>_. 0"]
  have "silc_command_payload_encode_payload (\<lambda>_. 0) (command_repr (4, ?as, 9)) =
      Some (silc_buffer_set [0, 10, 4, 1, 0, 9, 0, 1, 1, 65])"
    by (simp add: command_repr_def SILC_MAX_ALLOC_def)
  ultimately show ?thesis by blast
qed

text \<open>
  The status of a command reply travels with the reply: encoding a reply with a status and an
  error and reading the status of the parsed reply gives them back, with the error set to the
  status when the status is itself an error, and success exactly for a status below the errors
  and no error. A zero status with a non-zero error is read as the old form of the protocol,
  where the second byte is the status.
\<close>

theorem silc_command_reply_status:
  assumes "cmd \<noteq> 0" and "list_all va_ok ap" and "length ap < 255"
    and "length (args_bytes (filter va_kept ap)) + 11 < 65536"
  shows "\<exists>b p. silc_command_reply_payload_encode_va J cmd s e ident ap = Some b
    \<and> silc_command_payload_parse (sb_bytes b) = Some p \<and> silc_command_get_ident p = ident
    \<and> silc_command_get_status p =
        (if s = 0 \<and> e \<noteq> 0 then (e < 10, Some (e, if 10 \<le> e then e else 0))
         else (s < 10 \<and> e = 0, Some (s, if 10 \<le> s then s else e)))"
proof -
  let ?args = "(Some [s, e], 2, 1) # filter va_kept ap"
  let ?p = "command_repr (cmd, ?args, ident)"
  have "list_all arg_valid (filter va_kept ap)"
    using assms(2) by (auto simp: list_all_iff intro: arg_valid_va)
  moreover have "arg_valid (Some [s, e], 2, 1)" "length (arg_bytes (Some [s, e], 2, 1)) = 5"
    by (simp_all add: arg_valid_def arg_len16_def cast16_def arg_bytes_def arg_data_def)
  moreover have "length (filter va_kept ap) < 255"
    using assms(3) length_filter_le [of va_kept ap] by linarith
  ultimately have v: "command_valid (cmd, ?args, ident)"
    using assms(1,4) by (simp add: command_valid_def)
  have "silc_command_reply_payload_encode_va J cmd s e ident ap = silc_command_payload_encode J cmd ?args ident"
    using assms(2,3)
    by (simp add: silc_command_reply_payload_encode_va_def silc_command_reply_payload_encode_vap_def
        va_collect_filter silc_memdup_def SILC_MAX_ALLOC_def add32_def u32_max_def silc_calloc_def)
  moreover from command_codec.roundtrip [OF v, of J] obtain b where
    "silc_command_payload_encode J cmd ?args ident = Some b" "silc_command_payload_parse (sb_bytes b) = Some ?p"
    by auto
  moreover have "(ucast (SILC_GET16_MSB [0, e]) :: byte) = e"
    by (simp add: SILC_GET16_MSB_def)
  then have "silc_command_get_status ?p =
        (if s = 0 \<and> e \<noteq> 0 then (e < 10, Some (e, if 10 \<le> e then e else 0))
         else (s < 10 \<and> e = 0, Some (s, if 10 \<le> s then s else e)))"
    by (simp add: silc_command_get_status_def command_repr_def reply_status_arg
        SILC_STATUS_ERR_NO_SUCH_NICK_def SILC_STATUS_OK_def Let_def)
  moreover have "silc_command_get_ident ?p = ident"
    by (simp add: silc_command_get_ident_def command_repr_def)
  ultimately show ?thesis by auto
qed

theorem silc_command_reply_status_witness:
  "\<exists>b p. silc_command_reply_payload_encode_va (\<lambda>_. 0) 1 14 0 3 [(Some [65], 1, 2)] = Some b
    \<and> silc_command_payload_parse (sb_bytes b) = Some p \<and> silc_command_get_ident p = 3
    \<and> silc_command_get_status p = (False, Some (14, 14))"
  using silc_command_reply_status [of 1 "[(Some [65], 1, 2)]" "\<lambda>_. 0" 14 0 3]
  by (simp add: va_ok_def va_kept_def arg_bytes_def arg_data_def arg_len16_def cast16_def SILC_MAX_ALLOC_def)

end
