(* ===== verification/Silc_Notify.thy ===== *)
theory Silc_Notify
  imports Silc_Argument
begin

text \<open>
  \<open>lib/silccore/silcnotify.c\<close>: the Notify Payload, a notify type with arguments. The encoder
  numbers its variadic arguments from one and leaves empty ones out, so that the type of an
  argument is its place in the caller's list.
\<close>

section \<open>Notify Payload\<close>

record silc_notify_payload =
  ntf_type :: u16
  ntf_argc :: byte
  ntf_args :: "silc_argument_payload option"

definition silc_notify_payload_parse :: "bytes \<Rightarrow> silc_notify_payload option" where
  "silc_notify_payload_parse payload =
     with_unformat (silc_buffer_set payload) [UNF_UI16_SHORT, UNF_UI16_SHORT, UNF_UI8_CHAR] None (\<lambda>buffer vs.
       case vs of
         [V16 type, V16 len, V8 argc] \<Rightarrow>
           (if silc_buffer_len buffer < unat len then None
            else if argc \<noteq> 0 then
              (case silc_argument_payload_parse (sb_bytes (fst (silc_buffer_pull buffer 5))) (unat argc) of
                 None \<Rightarrow> None
               | Some args \<Rightarrow> Some \<lparr>ntf_type = type, ntf_argc = argc, ntf_args = Some args\<rparr>)
            else Some \<lparr>ntf_type = type, ntf_argc = argc, ntf_args = None\<rparr>)
       | _ \<Rightarrow> None)"

text \<open>The variadic arguments from number \<open>i\<close> on; \<open>None\<close> is a copy that could not be made.\<close>

fun notify_collect :: "nat \<Rightarrow> (bytes option \<times> u32) list \<Rightarrow> silc_arg list option" where
  "notify_collect i [] = Some []"
| "notify_collect i ((x, x_len) # ap) =
     (case x of
        None \<Rightarrow> notify_collect (i + 1) ap
      | Some d \<Rightarrow>
          (if x_len = 0 then notify_collect (i + 1) ap
           else
             (case silc_memdup (take (unat x_len) d) of
                None \<Rightarrow> None
              | Some y \<Rightarrow>
                  (case notify_collect (i + 1) ap of
                     None \<Rightarrow> None
                   | Some as \<Rightarrow> Some ((Some y, x_len, of_nat (i + 1)) # as)))))"

definition notify_format :: "junk \<Rightarrow> u16 \<Rightarrow> nat \<Rightarrow> nat \<Rightarrow> silc_buffer option \<Rightarrow> silc_buffer option" where
  "notify_format J type k len args =
     (case silc_buffer_alloc_size len of
        None \<Rightarrow> None
      | Some buffer \<Rightarrow>
          (let buffer = fst (silc_buffer_format J buffer
                          [FMT_SHORT type, FMT_SHORT (of_nat len), FMT_CHAR (of_nat k)])
           in case args of
                None \<Rightarrow> Some buffer
              | Some a \<Rightarrow>
                  Some (fst (silc_buffer_format J buffer
                    [FMT_OFFSET 5, FMT_NSTRING (Some (sb_bytes a)) (silc_buffer_len a)]))))"

text \<open>
  When the arguments cannot be encoded the code goes on with a NULL buffer and fails; the model
  returns \<open>None\<close> there.
\<close>

definition silc_notify_payload_encode :: "junk \<Rightarrow> u16 \<Rightarrow> (bytes option \<times> u32) list \<Rightarrow> silc_buffer option" where
  "silc_notify_payload_encode J type ap =
     (if ap \<noteq> [] then
        (if silc_calloc (length ap) 8 = None \<or> silc_calloc (length ap) 4 = None then None
         else
           (case notify_collect 0 ap of
              None \<Rightarrow> None
            | Some as \<Rightarrow>
                (case silc_argument_payload_encode J as of
                   None \<Rightarrow> None
                 | Some args \<Rightarrow>
                     notify_format J type (length as) (add32 (silc_buffer_len args) 5)
                       (if as \<noteq> [] then Some args else None))))
      else notify_format J type 0 5 None)"

definition silc_notify_payload_encode_args :: "junk \<Rightarrow> u16 \<Rightarrow> nat \<Rightarrow> silc_buffer option \<Rightarrow> silc_buffer option" where
  "silc_notify_payload_encode_args J type argc args =
     notify_format J type argc (add32 5 (case args of None \<Rightarrow> 0 | Some a \<Rightarrow> silc_buffer_len a)) args"

definition silc_notify_get_type :: "silc_notify_payload \<Rightarrow> u16" where
  "silc_notify_get_type payload = ntf_type payload"

definition silc_notify_get_arg_num :: "silc_notify_payload \<Rightarrow> nat" where
  "silc_notify_get_arg_num payload = unat (ntf_argc payload)"

definition silc_notify_get_args :: "silc_notify_payload \<Rightarrow> silc_argument_payload option" where
  "silc_notify_get_args payload = ntf_args payload"

section \<open>The codec\<close>

definition notify_bytes :: "u16 \<Rightarrow> silc_arg list \<Rightarrow> bytes" where
  "notify_bytes type as =
     SILC_PUT16_MSB type @ SILC_PUT16_MSB (of_nat (length (args_bytes as) + 5))
     @ [of_nat (length as)] @ args_bytes as"

lemma notify_format_eq:
  assumes "length d + 5 < SILC_MAX_ALLOC"
  shows "notify_format J type k (length d + 5) (Some (silc_buffer_set d)) =
      Some (silc_buffer_set (SILC_PUT16_MSB type @ SILC_PUT16_MSB (of_nat (length d + 5)) @ [of_nat k] @ d))"
    and "notify_format J type k 5 None =
      Some (silc_buffer_set (SILC_PUT16_MSB type @ SILC_PUT16_MSB 5 @ [of_nat k]))"
proof -
  let ?n = "length d + 5"
  let ?b = "\<lparr>sb_mem = replicate ?n 0, sb_data = 0, sb_tail = ?n\<rparr>"
  let ?h = "\<lambda>n. [FMT_SHORT type, FMT_SHORT (of_nat n), FMT_CHAR (of_nat k)]"
  have len: "silc_buffer_len (silc_buffer_set d) = length d"
    using max_alloc_less_u32 [OF assms] by simp
  have wf: "wf_buffer ?b" and bl: "silc_buffer_len ?b = ?n"
    using max_alloc_less_u32 [OF assms] by (simp_all add: wf_buffer_def silc_buffer_len_def silc_arith)
  have hdr: "fst (silc_buffer_format J ?b (?h ?n)) = overwrite ?b (fmt_all (?h ?n))"
    using format_fits [OF wf, of "?h ?n" J] bl by (simp add: overwrite_def)
  moreover have "wf_buffer (overwrite ?b (fmt_all (?h ?n)))"
    using wf bl by (simp add: wf_overwrite)
  ultimately have "fst (silc_buffer_format J (fst (silc_buffer_format J ?b (?h ?n)))
      [FMT_OFFSET 5, FMT_NSTRING (Some d) (length d)]) =
      silc_buffer_set (fmt_all (?h ?n) @ d)"
    using format_offset_body [of "fst (silc_buffer_format J ?b (?h ?n))" "[FMT_NSTRING (Some d) (length d)]" 5 J]
      format_header_body [of "?h ?n" "[FMT_NSTRING (Some d) (length d)]" 5 ?n J] bl assms
    by simp
  then show "notify_format J type k ?n (Some (silc_buffer_set d)) =
      Some (silc_buffer_set (SILC_PUT16_MSB type @ SILC_PUT16_MSB (of_nat ?n) @ [of_nat k] @ d))"
    using assms by (simp add: notify_format_def len alloc_size_Some)
  show "notify_format J type k 5 None =
      Some (silc_buffer_set (SILC_PUT16_MSB type @ SILC_PUT16_MSB 5 @ [of_nat k]))"
    using format_alloc [of 5 "?h 5" J] by (simp add: notify_format_def alloc_size_Some SILC_MAX_ALLOC_def)
qed

lemma notify_parse_eq:
  assumes "length d + 5 < u32_max"
  shows "silc_notify_payload_parse (SILC_PUT16_MSB t @ SILC_PUT16_MSB l @ [argc] @ d) =
    (if length d + 5 < unat l then None
     else if argc = 0 then Some \<lparr>ntf_type = t, ntf_argc = argc, ntf_args = None\<rparr>
     else map_option (\<lambda>a. \<lparr>ntf_type = t, ntf_argc = argc, ntf_args = Some a\<rparr>)
            (silc_argument_payload_parse d (unat argc)))"
proof -
  define D where "D = SILC_PUT16_MSB t @ SILC_PUT16_MSB l @ [argc] @ d"
  have len: "length D = length d + 5" and dr: "drop 5 D = d"
    by (simp_all add: D_def)
  have hdr: "parse_all [UNF_UI16_SHORT, UNF_UI16_SHORT, UNF_UI8_CHAR] D = Some ([V16 t, V16 l, V8 argc], d)"
    unfolding D_def by (simp add: parse_UI16 parse_UI8 del: parse_step.simps)
  have wf: "wf_buffer (silc_buffer_set D)" using assms len by simp
  have pull: "fst (silc_buffer_pull (silc_buffer_set D) 5) = adv (silc_buffer_set D) 5"
    and body: "sb_bytes (adv (silc_buffer_set D) 5) = d"
    using assms len dr by (simp_all add: pull_set adv_set_facts)
  have "with_unformat (silc_buffer_set D) [UNF_UI16_SHORT, UNF_UI16_SHORT, UNF_UI8_CHAR] err k =
      k (silc_buffer_set D) [V16 t, V16 l, V8 argc]" for k and err :: "silc_notify_payload option"
    by (rule with_unformat_ok [OF wf]) (simp_all add: hdr del: parse_all.simps)
  then show ?thesis
    unfolding D_def [symmetric] silc_notify_payload_parse_def
    by (simp add: pull body len assms map_option_case)
qed

text \<open>The arguments the encoder keeps, each with its place as its type.\<close>

definition notify_args :: "(bytes option \<times> u32) list \<Rightarrow> silc_arg list" where
  "notify_args ap =
     map (\<lambda>(i, x, l). (x, l, of_nat (i + 1)))
       (filter (\<lambda>(i, x, l). x \<noteq> None \<and> l \<noteq> 0) (enumerate 0 ap))"

definition notify_ok :: "bytes option \<times> u32 \<Rightarrow> bool" where
  "notify_ok a \<longleftrightarrow> (\<forall>d. fst a = Some d \<longrightarrow> length d = unat (snd a) \<and> length d + 1 < SILC_MAX_ALLOC)"

lemma notify_collect_eq:
  "list_all notify_ok ap \<Longrightarrow>
   notify_collect i ap = Some (map (\<lambda>(i, x, l). (x, l, of_nat (i + 1)))
       (filter (\<lambda>(i, x, l). x \<noteq> None \<and> l \<noteq> 0) (enumerate i ap)))"
proof (induction i ap rule: notify_collect.induct)
  case (2 i x x_len ap)
  then show ?case
    by (cases x) (auto simp: notify_ok_def silc_memdup_Some split: if_splits)
qed simp

lemma notify_args_valid:
  assumes "list_all notify_ok ap"
  shows "list_all arg_valid (notify_args ap)" and "length (notify_args ap) \<le> length ap"
proof -
  have "arg_valid (x, l, t)" if "i < length ap" "ap ! i = (x, l)" "x \<noteq> None" for i x l t
    using assms that nth_mem [OF that(1)]
    by (auto simp: list_all_iff notify_ok_def arg_valid_def arg_len16_def cast16_def)
  then show "list_all arg_valid (notify_args ap)"
    by (auto simp: list_all_iff notify_args_def in_set_enumerate_eq)
  show "length (notify_args ap) \<le> length ap"
    using length_filter_le [of "\<lambda>(i, x, l). x \<noteq> None \<and> l \<noteq> 0" "enumerate 0 ap"]
    by (simp add: notify_args_def)
qed

definition notify_valid :: "u16 \<times> (bytes option \<times> u32) list \<Rightarrow> bool" where
  "notify_valid x \<longleftrightarrow>
     list_all notify_ok (snd x) \<and> length (snd x) < 256 \<and> length (args_bytes (notify_args (snd x))) + 5 < 65536"

definition notify_repr :: "u16 \<times> (bytes option \<times> u32) list \<Rightarrow> silc_notify_payload" where
  "notify_repr x =
     (let as = notify_args (snd x)
      in \<lparr>ntf_type = fst x, ntf_argc = of_nat (length as),
          ntf_args = (if as = [] then None else Some (args_repr as))\<rparr>)"

lemma notify_encode_eq:
  assumes "notify_valid (type, ap)"
  shows "silc_notify_payload_encode J type ap = Some (silc_buffer_set (notify_bytes type (notify_args ap)))"
proof -
  let ?as = "notify_args ap"
  have ok: "list_all notify_ok ap" and n: "length ap < 256" and small: "length (args_bytes ?as) + 5 < 65536"
    using assms by (simp_all add: notify_valid_def)
  have big: "length (args_bytes ?as) + 5 < SILC_MAX_ALLOC"
    using small by (simp add: SILC_MAX_ALLOC_def)
  have enc: "silc_argument_payload_encode J ?as = Some (silc_buffer_set (args_bytes ?as))"
    using notify_args_valid [OF ok] big by (intro argument_encode_eq) auto
  have len: "add32 (silc_buffer_len (silc_buffer_set (args_bytes ?as))) 5 = length (args_bytes ?as) + 5"
    using small by (simp add: silc_arith u32_max_def)
  have col: "notify_collect 0 ap = Some ?as"
    using notify_collect_eq [OF ok] by (simp add: notify_args_def)
  have cal: "ap \<noteq> [] \<Longrightarrow> \<not> (silc_calloc (length ap) 8 = None \<or> silc_calloc (length ap) 4 = None)"
    using n by (simp add: silc_calloc_def SILC_MAX_ALLOC_def)
  show ?thesis
  proof (cases "?as = []")
    case True
    then show ?thesis
      using notify_format_eq(2) [of "[]" J type 0] enc cal col
      by (cases "ap = []")
        (simp_all add: silc_notify_payload_encode_def notify_bytes_def SILC_MAX_ALLOC_def silc_arith u32_max_def)
  next
    case False
    then have "ap \<noteq> []" by (auto simp: notify_args_def)
    with False show ?thesis
      using notify_format_eq(1) [OF big, of J type "length ?as"] enc cal col len
      by (simp add: silc_notify_payload_encode_def notify_bytes_def)
  qed
qed

interpretation notify_codec: payload_codec
  "\<lambda>(type, ap). silc_notify_payload_encode J type ap" silc_notify_payload_parse notify_valid notify_repr
proof
  fix x :: "u16 \<times> (bytes option \<times> u32) list"
  obtain type ap where x: "x = (type, ap)" by (cases x)
  let ?as = "notify_args ap"
  assume "notify_valid x"
  then have v: "notify_valid (type, ap)" by (simp add: x)
  then have ok: "list_all notify_ok ap" and n: "length ap < 256" and small: "length (args_bytes ?as) + 5 < 65536"
    by (simp_all add: notify_valid_def)
  have k: "length ?as < 256" using n notify_args_valid(2) [OF ok] by linarith
  show "\<exists>b. (case x of (type, ap) \<Rightarrow> silc_notify_payload_encode J type ap) = Some b \<and> wf_buffer b"
    using small by (simp add: x notify_encode_eq [OF v] notify_bytes_def u32_max_def)
  fix b
  assume "(case x of (type, ap) \<Rightarrow> silc_notify_payload_encode J type ap) = Some b"
  then have b: "sb_bytes b = notify_bytes type ?as" by (auto simp: x notify_encode_eq [OF v])
  have p: "silc_argument_payload_parse (args_bytes ?as) (length ?as) = Some (args_repr ?as)" if "?as \<noteq> []"
    using that k small notify_args_valid(1) [OF ok]
    by (intro payload_parse_args) (simp add: args_valid_def SILC_MAX_ALLOC_def)
  have "unat (of_nat (length (args_bytes ?as) + 5) :: u16) = length (args_bytes ?as) + 5"
    using small by (simp del: of_nat_add)
  then show "silc_notify_payload_parse (sb_bytes b) = Some (notify_repr x)"
    using notify_parse_eq [of "args_bytes ?as" type "of_nat (length (args_bytes ?as) + 5)" "of_nat (length ?as)"]
      k small p
    by (simp add: b notify_bytes_def notify_repr_def x Let_def of_nat_byte_eq_0 u32_max_def del: of_nat_add)
qed

section \<open>Properties\<close>

text \<open>
  C28. A Notify Payload with fewer than 256 arguments and a total length below 65536 is encoded,
  and parsing the encoding gives back its type and exactly the arguments that are not empty, each
  with its place in the caller's list, counted from one, as its type.
\<close>

theorem silc_notify_payload_roundtrip:
  assumes "list_all notify_ok ap" and "length ap < 256" and "length (args_bytes (notify_args ap)) + 5 < 65536"
  shows "\<exists>b. silc_notify_payload_encode J type ap = Some b \<and> wf_buffer b
    \<and> silc_notify_payload_parse (sb_bytes b) =
        Some \<lparr>ntf_type = type, ntf_argc = of_nat (length (notify_args ap)),
              ntf_args = (if notify_args ap = [] then None else Some (args_repr (notify_args ap)))\<rparr>"
  using notify_codec.roundtrip [of "(type, ap)" J] assms
  by (simp add: notify_valid_def notify_repr_def Let_def)

theorem silc_notify_payload_roundtrip_witness:
  "\<exists>b. silc_notify_payload_encode (\<lambda>_. 0) 3 [(Some [65], 1), (None, 0), (Some [66], 1)] = Some b
    \<and> silc_notify_payload_parse (sb_bytes b) =
        Some \<lparr>ntf_type = 3, ntf_argc = 2,
              ntf_args = Some (args_repr [(Some [65], 1, 1), (Some [66], 1, 3)])\<rparr>"
proof -
  have n: "notify_args [(Some [65], 1), (None, 0), (Some [66], 1)] = [(Some [65], 1, 1), (Some [66], 1, 3)]"
    by (simp add: notify_args_def)
  show ?thesis
    using silc_notify_payload_roundtrip [of "[(Some [65], 1), (None, 0), (Some [66], 1)]" "\<lambda>_. 0" 3]
    by (auto simp: n notify_ok_def SILC_MAX_ALLOC_def arg_bytes_def arg_data_def arg_len16_def cast16_def)
qed

end
