(* ===== verification/Silc_Channel.thy ===== *)
theory Silc_Channel
  imports Silc_Id
begin

text \<open>
  \<open>lib/silccore/silcchannel.c\<close>: the Channel Payload (name, identifier, mode), lists of them, and
  the Channel Key Payload (identifier, cipher, key). Freeing the payloads has no effect on the
  model's state and is left out.
\<close>

section \<open>Channel Payload\<close>

record silc_channel_payload =
  chp_channel_name :: "bytes option"
  chp_channel_id :: "bytes option"
  chp_mode :: u32
  chp_name_len :: u16
  chp_id_len :: u16

text \<open>The part the two parsers share: decode one payload at the buffer and check its lengths.\<close>

definition channel_payload_item :: "silc_buffer \<Rightarrow> silc_channel_payload option" where
  "channel_payload_item buffer =
     with_unformat buffer [UNF_UI16_NSTRING_ALLOC, UNF_UI16_NSTRING_ALLOC, UNF_UI32_INT] None (\<lambda>buffer vs.
       case vs of
         [V16 name_len, VPtr name, V16 id_len, VPtr cid, V32 mode] \<Rightarrow>
           (let rest = sub32 (silc_buffer_len buffer) 8
            in if (unat name_len < 1 \<or> rest < unat name_len) \<or> (unat id_len < 1 \<or> rest < unat id_len)
                  \<or> rest < unat id_len + unat name_len
               then None
               else Some \<lparr>chp_channel_name = name, chp_channel_id = cid, chp_mode = mode,
                          chp_name_len = name_len, chp_id_len = id_len\<rparr>)
       | _ \<Rightarrow> None)"

definition silc_channel_payload_parse :: "bytes \<Rightarrow> silc_channel_payload option" where
  "silc_channel_payload_parse payload = channel_payload_item (silc_buffer_set payload)"

text \<open>
  The loop of the list parser. The decoder leaves the buffer where it was, so the loop goes on
  from the buffer it decoded; a payload that would not fit ends the list.
\<close>

function channel_list_loop :: "silc_buffer \<Rightarrow> silc_channel_payload list option" where
  "channel_list_loop buffer =
     (if silc_buffer_len buffer = 0 then Some []
      else
        (case channel_payload_item buffer of
           None \<Rightarrow> None
         | Some newp \<Rightarrow>
             (let len = 2 + unat (chp_name_len newp) + 2 + unat (chp_id_len newp) + 4
              in if silc_buffer_len buffer < len then Some []
                 else
                   (case channel_list_loop (fst (silc_buffer_pull buffer len)) of
                      None \<Rightarrow> None
                    | Some ps \<Rightarrow> Some (newp # ps)))))"
  by pat_completeness auto
termination
  by (relation "measure silc_buffer_len") (simp_all add: pull_len)

declare channel_list_loop.simps [simp del]

definition silc_channel_payload_parse_list :: "bytes \<Rightarrow> silc_channel_payload list option" where
  "silc_channel_payload_parse_list payload = channel_list_loop (silc_buffer_set payload)"

definition silc_channel_payload_encode ::
    "junk \<Rightarrow> bytes \<Rightarrow> u16 \<Rightarrow> bytes \<Rightarrow> u32 \<Rightarrow> u32 \<Rightarrow> silc_buffer option" where
  "silc_channel_payload_encode J channel_name channel_name_len channel_id channel_id_len mode =
     alloc_format J (add32 (2 + unat channel_name_len + 2) (add32 (unat channel_id_len) 4))
       [FMT_SHORT channel_name_len, FMT_NSTRING (Some channel_name) (unat channel_name_len),
        FMT_SHORT (ucast channel_id_len), FMT_NSTRING (Some channel_id) (unat channel_id_len), FMT_INT mode]"

definition silc_channel_get_name :: "silc_channel_payload \<Rightarrow> bytes option \<times> nat" where
  "silc_channel_get_name payload = (chp_channel_name payload, unat (chp_name_len payload))"

definition silc_channel_get_id :: "silc_channel_payload \<Rightarrow> bytes option \<times> nat" where
  "silc_channel_get_id payload = (chp_channel_id payload, unat (chp_id_len payload))"

definition silc_channel_get_id_parse :: "silc_channel_payload \<Rightarrow> silc_id option" where
  "silc_channel_get_id_parse payload =
     silc_id_str2id (case chp_channel_id payload of None \<Rightarrow> [] | Some x \<Rightarrow> x) SILC_ID_CHANNEL sizeof_SilcChannelID"

definition silc_channel_get_mode :: "silc_channel_payload \<Rightarrow> u32" where
  "silc_channel_get_mode payload = chp_mode payload"

section \<open>Channel Key Payload\<close>

record silc_channel_key_payload =
  chk_id :: "bytes option"
  chk_cipher :: "bytes option"
  chk_key :: "bytes option"
  chk_id_len :: u16
  chk_cipher_len :: u16
  chk_key_len :: u16

definition silc_channel_key_payload_parse :: "bytes \<Rightarrow> silc_channel_key_payload option" where
  "silc_channel_key_payload_parse payload =
     with_unformat (silc_buffer_set payload)
       [UNF_UI16_NSTRING_ALLOC, UNF_UI16_NSTRING_ALLOC, UNF_UI16_NSTRING_ALLOC] None (\<lambda>buffer vs.
       case vs of
         [V16 id_len, VPtr cid, V16 cipher_len, VPtr cipher, V16 key_len, VPtr key] \<Rightarrow>
           (if unat id_len < 1 \<or> unat key_len < 1 \<or> unat cipher_len < 1
               \<or> sub32 (silc_buffer_len buffer) 6 < unat id_len + unat cipher_len + unat key_len
            then None
            else Some \<lparr>chk_id = cid, chk_cipher = cipher, chk_key = key, chk_id_len = id_len,
                       chk_cipher_len = cipher_len, chk_key_len = key_len\<rparr>)
       | _ \<Rightarrow> None)"

definition silc_channel_key_payload_encode ::
    "junk \<Rightarrow> u16 \<Rightarrow> bytes \<Rightarrow> u16 \<Rightarrow> bytes \<Rightarrow> u16 \<Rightarrow> bytes \<Rightarrow> silc_buffer option" where
  "silc_channel_key_payload_encode J id_len cid cipher_len cipher key_len key =
     alloc_format J (2 + unat id_len + 2 + unat key_len + 2 + unat cipher_len)
       [FMT_SHORT id_len, FMT_NSTRING (Some cid) (unat id_len),
        FMT_SHORT cipher_len, FMT_NSTRING (Some cipher) (unat cipher_len),
        FMT_SHORT key_len, FMT_NSTRING (Some key) (unat key_len)]"

definition silc_channel_key_get_id :: "silc_channel_key_payload \<Rightarrow> bytes option \<times> nat" where
  "silc_channel_key_get_id payload = (chk_id payload, unat (chk_id_len payload))"

definition silc_channel_key_get_cipher :: "silc_channel_key_payload \<Rightarrow> bytes option \<times> nat" where
  "silc_channel_key_get_cipher payload = (chk_cipher payload, unat (chk_cipher_len payload))"

definition silc_channel_key_get_key :: "silc_channel_key_payload \<Rightarrow> bytes option \<times> nat" where
  "silc_channel_key_get_key payload = (chk_key payload, unat (chk_key_len payload))"

section \<open>Wire format of the Channel Payload\<close>

text \<open>A name, an identifier and a mode; name and identifier are not empty and of 16-bit length.\<close>

type_synonym channel_info = "bytes \<times> bytes \<times> u32"

definition channel_ok :: "channel_info \<Rightarrow> bool" where
  "channel_ok c \<longleftrightarrow> (case c of (name, cid, mode) \<Rightarrow> nonempty16 name \<and> nonempty16 cid)"

definition channel_bytes :: "channel_info \<Rightarrow> bytes" where
  "channel_bytes c = (case c of (name, cid, mode) \<Rightarrow> field16 name @ field16 cid @ SILC_PUT32_MSB mode)"

definition channel_repr :: "channel_info \<Rightarrow> silc_channel_payload" where
  "channel_repr c =
     (case c of (name, cid, mode) \<Rightarrow>
        \<lparr>chp_channel_name = Some name, chp_channel_id = Some cid, chp_mode = mode,
         chp_name_len = of_nat (length name), chp_id_len = of_nat (length cid)\<rparr>)"

lemma channel_fields_inv:
  assumes "parse_all [UNF_UI16_NSTRING_ALLOC, UNF_UI16_NSTRING_ALLOC, UNF_UI32_INT] bs = Some (vs, r)"
  obtains name cid mode where
    "vs = [V16 (of_nat (length name)), VPtr (if name = [] then None else Some name),
           V16 (of_nat (length cid)), VPtr (if cid = [] then None else Some cid), V32 mode]"
    "bs = channel_bytes (name, cid, mode) @ r" "length name < 65536" "length cid < 65536"
  using assms
  by (auto split: option.splits prod.splits simp: channel_bytes_def
      elim!: parse_field16_inv dest!: parse_UI32_inv simp del: parse_step.simps)

lemma channel_item_iff:
  assumes wf: "wf_buffer sb"
  shows "channel_payload_item sb = Some p \<longleftrightarrow>
    (\<exists>c r. channel_ok c \<and> p = channel_repr c \<and> sb_bytes sb = channel_bytes c @ r)"
proof
  assume l: "channel_payload_item sb = Some p"
  show "\<exists>c r. channel_ok c \<and> p = channel_repr c \<and> sb_bytes sb = channel_bytes c @ r"
  proof (cases "parse_all [UNF_UI16_NSTRING_ALLOC, UNF_UI16_NSTRING_ALLOC, UNF_UI32_INT] (sb_bytes sb)")
    case None
    with l show ?thesis
      by (simp add: channel_payload_item_def with_unformat_fail [OF wf] del: parse_all.simps)
  next
    case (Some vr)
    obtain vs r where vr: "vr = (vs, r)" by fastforce
    with Some obtain name cid mode where
      vs: "vs = [V16 (of_nat (length name)), VPtr (if name = [] then None else Some name),
           V16 (of_nat (length cid)), VPtr (if cid = [] then None else Some cid), V32 mode]"
      and b: "sb_bytes sb = channel_bytes (name, cid, mode) @ r"
      and len: "length name < 65536" "length cid < 65536"
      using channel_fields_inv by blast
    have "channel_ok (name, cid, mode) \<and> p = channel_repr (name, cid, mode)"
      using l Some [unfolded vr vs] len
      by (auto simp: channel_payload_item_def with_unformat_ok [OF wf] channel_ok_def channel_repr_def
          nonempty16_def Let_def split: if_splits simp del: parse_all.simps)
    with b show ?thesis by blast
  qed
next
  assume "\<exists>c r. channel_ok c \<and> p = channel_repr c \<and> sb_bytes sb = channel_bytes c @ r"
  then obtain name cid mode r where ok: "channel_ok (name, cid, mode)" and p: "p = channel_repr (name, cid, mode)"
    and b: "sb_bytes sb = channel_bytes (name, cid, mode) @ r"
    by auto
  have n: "name \<noteq> []" "length name < 65536" "cid \<noteq> []" "length cid < 65536"
    using ok by (simp_all add: channel_ok_def nonempty16_def)
  have "parse_all [UNF_UI16_NSTRING_ALLOC, UNF_UI16_NSTRING_ALLOC, UNF_UI32_INT] (sb_bytes sb) =
      Some ([V16 (of_nat (length name)), VPtr (Some name), V16 (of_nat (length cid)), VPtr (Some cid), V32 mode], r)"
    using n by (simp add: b channel_bytes_def parse_field16 parse_UI32 del: parse_step.simps)
  moreover have "sub32 (silc_buffer_len sb) 8 = length name + length cid + length r"
  proof -
    have "silc_buffer_len sb = 8 + length name + length cid + length r"
      using length_sb_bytes [OF wf] by (simp add: b channel_bytes_def)
    then show ?thesis using silc_buffer_len_less [of sb] by (simp add: sub32_exact)
  qed
  ultimately show "channel_payload_item sb = Some p"
    using n
    by (simp add: channel_payload_item_def with_unformat_ok [OF wf] p channel_repr_def Let_def
        Suc_le_eq del: parse_all.simps)
qed

lemma length_channel_bytes:
  "length (channel_bytes (name, cid, mode)) = 8 + length name + length cid"
  by (simp add: channel_bytes_def)

lemma channel_item_len:
  assumes "channel_ok c"
  shows "2 + unat (chp_name_len (channel_repr c)) + 2 + unat (chp_id_len (channel_repr c)) + 4 =
    length (channel_bytes c)"
  using assms by (cases c) (simp add: channel_ok_def nonempty16_def channel_repr_def channel_bytes_def)

lemma channel_list_step:
  assumes wf: "wf_buffer sb" and ok: "channel_ok c" and b: "sb_bytes sb = channel_bytes c @ r"
  shows "channel_list_loop sb =
    map_option (\<lambda>ps. channel_repr c # ps) (channel_list_loop (adv sb (length (channel_bytes c))))"
    and "wf_buffer (adv sb (length (channel_bytes c)))" and "sb_bytes (adv sb (length (channel_bytes c))) = r"
proof -
  have len: "silc_buffer_len sb = length (channel_bytes c) + length r"
    using length_sb_bytes [OF wf] by (simp add: b)
  have "0 < length (channel_bytes c)" by (cases c) (simp add: length_channel_bytes)
  moreover have "channel_payload_item sb = Some (channel_repr c)"
    using channel_item_iff [OF wf] ok b by blast
  ultimately show "channel_list_loop sb =
    map_option (\<lambda>ps. channel_repr c # ps) (channel_list_loop (adv sb (length (channel_bytes c))))"
    using len by (subst channel_list_loop.simps)
      (simp add: Let_def channel_item_len [OF ok, simplified] pull_ok adv_def map_option_case)
  show "wf_buffer (adv sb (length (channel_bytes c)))" "sb_bytes (adv sb (length (channel_bytes c))) = r"
    using wf len b by (simp_all add: wf_adv sb_bytes_adv)
qed

lemma channel_list_loop_inv:
  "wf_buffer sb \<Longrightarrow> channel_list_loop sb = Some ps \<Longrightarrow>
   \<exists>cs. list_all channel_ok cs \<and> ps = map channel_repr cs \<and> sb_bytes sb = concat (map channel_bytes cs)"
proof (induction sb arbitrary: ps rule: channel_list_loop.induct)
  case (1 sb)
  show ?case
  proof (cases "silc_buffer_len sb = 0")
    case True
    with "1.prems" length_sb_bytes [of sb] show ?thesis
      by (intro exI [of _ "[]"]) (simp add: channel_list_loop.simps [of sb])
  next
    case False
    with "1.prems"(2) obtain newp where "channel_payload_item sb = Some newp"
      by (auto simp: channel_list_loop.simps [of sb] split: option.splits)
    then obtain c r where c: "channel_ok c" "newp = channel_repr c" "sb_bytes sb = channel_bytes c @ r"
      and item: "channel_payload_item sb = Some (channel_repr c)"
      using channel_item_iff [OF "1.prems"(1)] by blast
    note step = channel_list_step [OF "1.prems"(1) c(1,3)]
    let ?n = "length (channel_bytes c)"
    have fit: "?n \<le> silc_buffer_len sb"
      using length_sb_bytes [OF "1.prems"(1)] by (simp add: c)
    from step(1) "1.prems"(2) obtain qs where qs: "channel_list_loop (adv sb ?n) = Some qs" "ps = channel_repr c # qs"
      by (cases "channel_list_loop (adv sb ?n)") auto
    have "\<exists>cs. list_all channel_ok cs \<and> qs = map channel_repr cs \<and> r = concat (map channel_bytes cs)"
      using "1.IH" [OF False item refl, unfolded channel_item_len [OF c(1)], of qs] fit qs(1) step(2,3)
      by (simp add: pull_ok adv_def [symmetric])
    then obtain cs where "list_all channel_ok cs" "qs = map channel_repr cs" "r = concat (map channel_bytes cs)"
      by blast
    with c qs show ?thesis by (intro exI [of _ "c # cs"]) simp
  qed
qed

lemma channel_list_loop_bytes:
  "wf_buffer sb \<Longrightarrow> list_all channel_ok cs \<Longrightarrow> sb_bytes sb = concat (map channel_bytes cs) \<Longrightarrow>
   channel_list_loop sb = Some (map channel_repr cs)"
proof (induction cs arbitrary: sb)
  case Nil
  then show ?case using length_sb_bytes [of sb] by (simp add: channel_list_loop.simps)
next
  case (Cons c cs)
  note step = channel_list_step [OF Cons.prems(1), of c "concat (map channel_bytes cs)"]
  from Cons step show ?case by simp
qed

lemma channel_encode_eq:
  assumes "channel_ok (name, cid, mode)"
  shows "silc_channel_payload_encode J name (of_nat (length name)) cid (of_nat (length cid)) mode =
    Some (silc_buffer_set (channel_bytes (name, cid, mode)))"
proof -
  have n: "length name < 65536" "length cid < 65536"
    using assms by (simp_all add: channel_ok_def nonempty16_def)
  let ?n = "8 + length name + length cid"
  have len: "add32 (2 + unat (of_nat (length name) :: u16) + 2) (add32 (unat (of_nat (length cid) :: u32)) 4) = ?n"
    using n by (simp add: add32_exact u32_max_def)
  show ?thesis
    using n unfolding silc_channel_payload_encode_def len
    by (subst alloc_format_exact) (simp_all add: channel_bytes_def field16_def SILC_MAX_ALLOC_def)
qed

interpretation channel_codec: payload_codec
  "\<lambda>(name, cid, mode). silc_channel_payload_encode J name (of_nat (length name)) cid (of_nat (length cid)) mode"
  silc_channel_payload_parse channel_ok channel_repr
proof
  fix c :: channel_info
  obtain name cid mode where c: "c = (name, cid, mode)" by (cases c)
  assume ok: "channel_ok c"
  then have small: "length (channel_bytes c) < u32_max"
    by (simp add: c channel_ok_def nonempty16_def length_channel_bytes u32_max_def)
  then show "\<exists>b. (case c of (name, cid, mode) \<Rightarrow>
      silc_channel_payload_encode J name (of_nat (length name)) cid (of_nat (length cid)) mode) = Some b \<and> wf_buffer b"
    using ok by (simp add: c channel_encode_eq)
  fix b
  assume "(case c of (name, cid, mode) \<Rightarrow>
      silc_channel_payload_encode J name (of_nat (length name)) cid (of_nat (length cid)) mode) = Some b"
  then have "b = silc_buffer_set (channel_bytes c)" using ok by (simp add: c channel_encode_eq)
  moreover have "silc_channel_payload_parse (channel_bytes c) = Some (channel_repr c)"
    unfolding silc_channel_payload_parse_def using ok small
    by (intro channel_item_iff [THEN iffD2] exI [of _ c] exI [of _ "[]"]) simp_all
  ultimately show "silc_channel_payload_parse (sb_bytes b) = Some (channel_repr c)" by simp
qed

section \<open>Wire format of the Channel Key Payload\<close>

definition channel_key_repr :: "bytes \<Rightarrow> bytes \<Rightarrow> bytes \<Rightarrow> silc_channel_key_payload" where
  "channel_key_repr cid cipher key =
     \<lparr>chk_id = Some cid, chk_cipher = Some cipher, chk_key = Some key, chk_id_len = of_nat (length cid),
      chk_cipher_len = of_nat (length cipher), chk_key_len = of_nat (length key)\<rparr>"

lemma channel_key_encode_eq:
  assumes "nonempty16 cid" and "nonempty16 cipher" and "nonempty16 key"
  shows "silc_channel_key_payload_encode J (of_nat (length cid)) cid (of_nat (length cipher)) cipher
      (of_nat (length key)) key = Some (silc_buffer_set (field16 cid @ field16 cipher @ field16 key))"
proof -
  have n: "length cid < 65536" "length cipher < 65536" "length key < 65536"
    using assms by (simp_all add: nonempty16_def)
  then show ?thesis
    unfolding silc_channel_key_payload_encode_def
    by (subst alloc_format_exact) (simp_all add: field16_def SILC_MAX_ALLOC_def)
qed

lemma channel_key_parse_bytes:
  assumes ok: "nonempty16 cid" "nonempty16 cipher" "nonempty16 key"
    and small: "length (field16 cid @ field16 cipher @ field16 key @ r) < u32_max"
  shows "silc_channel_key_payload_parse (field16 cid @ field16 cipher @ field16 key @ r) =
    Some (channel_key_repr cid cipher key)"
proof -
  define D where "D = field16 cid @ field16 cipher @ field16 key @ r"
  have n: "cid \<noteq> []" "cipher \<noteq> []" "key \<noteq> []" "length cid < 65536" "length cipher < 65536" "length key < 65536"
    using ok by (simp_all add: nonempty16_def)
  have wf: "wf_buffer (silc_buffer_set D)" using small by (simp add: D_def)
  have "parse_all [UNF_UI16_NSTRING_ALLOC, UNF_UI16_NSTRING_ALLOC, UNF_UI16_NSTRING_ALLOC] D =
      Some ([V16 (of_nat (length cid)), VPtr (Some cid), V16 (of_nat (length cipher)), VPtr (Some cipher),
             V16 (of_nat (length key)), VPtr (Some key)], r)"
    using n by (simp add: D_def parse_field16 del: parse_step.simps)
  moreover have "sub32 (length D) 6 = length cid + length cipher + length key + length r"
    using small by (simp add: D_def sub32_exact)
  moreover have "length D < u32_max" using small by (simp add: D_def)
  ultimately show ?thesis
    using n wf unfolding D_def [symmetric] silc_channel_key_payload_parse_def
    by (simp add: with_unformat_ok [OF wf] channel_key_repr_def Suc_le_eq del: parse_all.simps)
qed

lemma channel_key_parse_inv:
  assumes p: "silc_channel_key_payload_parse bs = Some p" and small: "length bs < u32_max"
  shows "\<exists>cid cipher key r. nonempty16 cid \<and> nonempty16 cipher \<and> nonempty16 key
    \<and> p = channel_key_repr cid cipher key \<and> bs = field16 cid @ field16 cipher @ field16 key @ r"
proof (cases "parse_all [UNF_UI16_NSTRING_ALLOC, UNF_UI16_NSTRING_ALLOC, UNF_UI16_NSTRING_ALLOC] bs")
  case None
  with p small show ?thesis
    by (simp add: silc_channel_key_payload_parse_def with_unformat_fail del: parse_all.simps)
next
  case (Some vr)
  then obtain cid cipher key r where
    vr: "vr = ([V16 (of_nat (length cid)), VPtr (if cid = [] then None else Some cid),
      V16 (of_nat (length cipher)), VPtr (if cipher = [] then None else Some cipher),
      V16 (of_nat (length key)), VPtr (if key = [] then None else Some key)], r)"
    and b: "bs = field16 cid @ field16 cipher @ field16 key @ r"
    and len: "length cid < 65536" "length cipher < 65536" "length key < 65536"
    by (auto split: option.splits prod.splits elim!: parse_field16_inv simp del: parse_step.simps)
  have "nonempty16 cid \<and> nonempty16 cipher \<and> nonempty16 key \<and> p = channel_key_repr cid cipher key"
    using p Some [unfolded vr] small len
    by (auto simp: silc_channel_key_payload_parse_def with_unformat_ok channel_key_repr_def nonempty16_def
        split: if_splits simp del: parse_all.simps)
  with b show ?thesis by blast
qed

section \<open>Properties\<close>

text \<open>
  C29. Lists of channel payloads: a byte string parses as a list of channel payloads if and only
  if it is the concatenation of encodings of payloads with a name and an identifier, and the
  result is that list, in order. The loop never stops early and drops nothing.
\<close>

theorem silc_channel_payload_parse_list_iff:
  assumes "length bs < u32_max"
  shows "silc_channel_payload_parse_list bs = Some ps \<longleftrightarrow>
    (\<exists>cs. list_all channel_ok cs \<and> ps = map channel_repr cs
       \<and> bs = concat (map (\<lambda>(name, cid, mode). case silc_channel_payload_encode J name
              (of_nat (length name)) cid (of_nat (length cid)) mode of Some b \<Rightarrow> sb_bytes b | None \<Rightarrow> []) cs))"
proof -
  have wf: "wf_buffer (silc_buffer_set bs)" using assms by simp
  have enc: "map (\<lambda>(name, cid, mode). case silc_channel_payload_encode J name
      (of_nat (length name)) cid (of_nat (length cid)) mode of Some b \<Rightarrow> sb_bytes b | None \<Rightarrow> []) cs =
      map channel_bytes cs" if "list_all channel_ok cs" for cs
    using that by (auto simp: list_all_iff channel_encode_eq)
  have "silc_channel_payload_parse_list bs = Some ps \<longleftrightarrow>
      (\<exists>cs. list_all channel_ok cs \<and> ps = map channel_repr cs \<and> bs = concat (map channel_bytes cs))"
    unfolding silc_channel_payload_parse_list_def
    using channel_list_loop_inv [OF wf, of ps] channel_list_loop_bytes [OF wf] by auto
  then show ?thesis by (simp only: enc cong: conj_cong)
qed

theorem silc_channel_payload_parse_list_iff_witness:
  "silc_channel_payload_parse_list [0, 1, 65, 0, 1, 9, 0, 0, 0, 5, 0, 1, 66, 0, 1, 7, 0, 0, 0, 6] =
     Some [channel_repr ([65], [9], 5), channel_repr ([66], [7], 6)]"
proof -
  let ?cs = "[([65], [9], 5), ([66], [7], 6)] :: channel_info list"
  have "list_all channel_ok ?cs" by (simp add: channel_ok_def nonempty16_def)
  then show ?thesis
    using silc_channel_payload_parse_list_iff
        [of "[0, 1, 65, 0, 1, 9, 0, 0, 0, 5, 0, 1, 66, 0, 1, 7, 0, 0, 0, 6]" "map channel_repr ?cs" "\<lambda>_. 0"]
      channel_encode_eq [of "[65]" "[9]" 5 "\<lambda>_. 0"] channel_encode_eq [of "[66]" "[7]" 6 "\<lambda>_. 0"]
    by (simp add: u32_max_def channel_bytes_def field16_def SILC_PUT16_MSB_def SILC_PUT32_MSB_def
        exI [of _ ?cs])
qed

text \<open>
  A byte string parses as a Channel Key Payload if and only if it starts with the encoding of
  a non-empty identifier, cipher name and key, and the result holds these three; anything may
  follow them.
\<close>

theorem silc_channel_key_payload_parse_iff:
  assumes "length bs < u32_max"
  shows "silc_channel_key_payload_parse bs = Some p \<longleftrightarrow>
    (\<exists>cid cipher key b r. nonempty16 cid \<and> nonempty16 cipher \<and> nonempty16 key
       \<and> p = channel_key_repr cid cipher key
       \<and> silc_channel_key_payload_encode J (of_nat (length cid)) cid (of_nat (length cipher)) cipher
           (of_nat (length key)) key = Some b
       \<and> bs = sb_bytes b @ r)"
    (is "?l \<longleftrightarrow> ?r")
proof
  assume ?l
  then show ?r
    using channel_key_parse_inv [OF _ assms, of p] channel_key_encode_eq [of _ _ _ J] by fastforce
next
  assume ?r
  then show ?l
    using channel_key_encode_eq [of _ _ _ J] channel_key_parse_bytes assms by fastforce
qed

theorem silc_channel_key_payload_parse_iff_witness:
  "silc_channel_key_payload_parse [0, 1, 65, 0, 1, 66, 0, 2, 7, 8] = Some (channel_key_repr [65] [66] [7, 8])"
proof -
  have "nonempty16 [65]" "nonempty16 [66]" "nonempty16 [7, 8]" by (simp_all add: nonempty16_def)
  from channel_key_encode_eq [OF this, of "\<lambda>_. 0"] this show ?thesis
    by (intro silc_channel_key_payload_parse_iff [THEN iffD2, of _ _ "\<lambda>_. 0"] exI conjI)
      (auto simp: u32_max_def field16_def SILC_PUT16_MSB_def)
qed

end
