(* ===== verification/Silc_Hashtable.thy ===== *)
theory Silc_Hashtable
  imports Silc_Prelude "HOL-Library.Multiset"
begin

text \<open>
  \<open>lib/silcutil/silchashtable.c\<close>: the chained hash table that allows duplicate keys and grows
  and shrinks by itself. A bucket is the list of its entries in chain order, so the pointer to an
  entry inside a chain is the place where the list is split.

  A key is what its pointer points to; with no comparison function keys are compared as
  values. A hash or comparison function takes the key and a user context, both as in the code;
  a destructor stands for its function pointer together with its user context, and every call
  of a destructor is recorded in the result. The callbacks of the foreach functions are
  modelled by the list of calls made, for callbacks that leave the table alone.
\<close>

section \<open>State\<close>

type_synonym ('k, 'u) hash_fun = "'k \<Rightarrow> 'u option \<Rightarrow> u32"
type_synonym ('k, 'u) compare_fun = "'k \<Rightarrow> 'k \<Rightarrow> 'u option \<Rightarrow> bool"

record ('k, 'c, 'u, 'd) silc_hash_table =
  ht_table :: "('k \<times> 'c) list list"
  ht_table_size :: nat
  ht_entry_count :: nat
  ht_hash :: "('k, 'u) hash_fun"
  ht_compare :: "('k, 'u) compare_fun option"
  ht_destructor :: "'d option"
  ht_hash_user_context :: "'u option"
  ht_compare_user_context :: "'u option"
  ht_auto_rehash :: bool

text \<open>\<open>SILC_HASH_TABLE_SIZE\<close> is an index into the table of prime sizes.\<close>

definition SILC_HASH_TABLE_SIZE :: nat where
  "SILC_HASH_TABLE_SIZE = 2"

definition primesize :: "nat list" where
  "primesize =
     [3, 5, 11, 17, 37, 67, 109, 131, 163, 257, 367, 521, 823, 1031,
      1237, 1447, 2053, 2389, 2777, 3323, 4099, 5059, 6247, 7001, 8209, 10993,
      14057, 16411, 19181, 21089, 25033, 32771, 40009, 47431, 65537, 106721,
      131101, 262147, 360163, 524309, 810343, 1048583, 2097169, 4194319,
      6153409, 8388617, 13845163, 16777259, 33554467, 67108879]"

fun primesize_loop :: "nat \<Rightarrow> nat list \<Rightarrow> nat \<Rightarrow> nat" where
  "primesize_loop i [] sz = i - 1"
| "primesize_loop i (p # ps) sz = (if sz \<le> p then i else primesize_loop (i + 1) ps sz)"

definition silc_hash_table_primesize :: "nat \<Rightarrow> nat \<times> nat" where
  "silc_hash_table_primesize sz =
     (let i = primesize_loop 0 primesize sz in (primesize ! i, i))"

definition silc_hash_table_size :: "('k, 'c, 'u, 'd) silc_hash_table \<Rightarrow> nat" where
  "silc_hash_table_size ht = primesize ! ht_table_size ht"

definition silc_hash_table_count :: "('k, 'c, 'u, 'd) silc_hash_table \<Rightarrow> nat" where
  "silc_hash_table_count ht = ht_entry_count ht"

definition SILC_HASH_TABLE_HASH ::
    "('k, 'c, 'u, 'd) silc_hash_table \<Rightarrow> 'k \<Rightarrow> ('k, 'u) hash_fun \<Rightarrow> 'u option \<Rightarrow> nat" where
  "SILC_HASH_TABLE_HASH ht key f c = unat (f key c) mod primesize ! ht_table_size ht"

definition SILC_HASH_REHASH_INC :: "('k, 'c, 'u, 'd) silc_hash_table \<Rightarrow> bool" where
  "SILC_HASH_REHASH_INC ht \<longleftrightarrow>
     ht_auto_rehash ht \<and> primesize ! ht_table_size ht < ht_entry_count ht div 2"

definition SILC_HASH_REHASH_DEC :: "('k, 'c, 'u, 'd) silc_hash_table \<Rightarrow> bool" where
  "SILC_HASH_REHASH_DEC ht \<longleftrightarrow>
     ht_auto_rehash ht \<and> (ht_entry_count ht * 2) mod u32_max < primesize ! ht_table_size ht
     \<and> primesize ! SILC_HASH_TABLE_SIZE < ht_entry_count ht"

section \<open>Finding entries\<close>

definition key_match :: "('k, 'u) compare_fun option \<Rightarrow> 'u option \<Rightarrow> 'k \<Rightarrow> 'k \<times> 'c \<Rightarrow> bool" where
  "key_match compare ctx key e =
     (case compare of Some f \<Rightarrow> f (fst e) key ctx | None \<Rightarrow> fst e = key)"

text \<open>The index of the bucket, the entries before the one found, and the chain from it on.\<close>

definition silc_hash_table_find_internal ::
    "('k, 'c, 'u, 'd) silc_hash_table \<Rightarrow> 'k \<Rightarrow> ('k, 'u) hash_fun \<Rightarrow> 'u option
     \<Rightarrow> ('k, 'u) compare_fun option \<Rightarrow> 'u option \<Rightarrow> nat \<times> ('k \<times> 'c) list \<times> ('k \<times> 'c) list" where
  "silc_hash_table_find_internal ht key hash hctx compare cctx =
     (let i = SILC_HASH_TABLE_HASH ht key hash hctx; b = ht_table ht ! i
      in (i, takeWhile (\<lambda>e. \<not> key_match compare cctx key e) b,
             dropWhile (\<lambda>e. \<not> key_match compare cctx key e) b))"

text \<open>The code tests \<open>ht->compare\<close> here and calls the \<open>compare\<close> it was given.\<close>

definition context_match ::
    "('k, 'c, 'u, 'd) silc_hash_table \<Rightarrow> ('k, 'u) compare_fun option \<Rightarrow> 'u option \<Rightarrow> 'k \<Rightarrow> 'c \<Rightarrow> 'k \<times> 'c \<Rightarrow> bool" where
  "context_match ht compare cctx key context e =
     ((if ht_compare ht \<noteq> None then key_match compare cctx key e else fst e = key) \<and> snd e = context)"

definition silc_hash_table_find_internal_context ::
    "('k, 'c, 'u, 'd) silc_hash_table \<Rightarrow> 'k \<Rightarrow> 'c \<Rightarrow> ('k, 'u) hash_fun \<Rightarrow> 'u option
     \<Rightarrow> ('k, 'u) compare_fun option \<Rightarrow> 'u option \<Rightarrow> nat \<times> ('k \<times> 'c) list \<times> ('k \<times> 'c) list" where
  "silc_hash_table_find_internal_context ht key context hash hctx compare cctx =
     (let i = SILC_HASH_TABLE_HASH ht key hash hctx; b = ht_table ht ! i
      in (i, takeWhile (\<lambda>e. \<not> context_match ht compare cctx key context e) b,
             dropWhile (\<lambda>e. \<not> context_match ht compare cctx key context e) b))"

definition silc_hash_table_find_internal_simple ::
    "('k, 'c, 'u, 'd) silc_hash_table \<Rightarrow> 'k \<Rightarrow> ('k, 'u) hash_fun \<Rightarrow> 'u option
     \<Rightarrow> ('k, 'u) compare_fun option \<Rightarrow> 'u option \<Rightarrow> ('k \<times> 'c) list" where
  "silc_hash_table_find_internal_simple ht key hash hctx compare cctx =
     dropWhile (\<lambda>e. \<not> key_match compare cctx key e)
       (ht_table ht ! SILC_HASH_TABLE_HASH ht key hash hctx)"

text \<open>The calls of the callback: one per entry found, or one with the key and no context.\<close>

definition silc_hash_table_find_internal_all ::
    "('k, 'c, 'u, 'd) silc_hash_table \<Rightarrow> 'k \<Rightarrow> ('k, 'u) hash_fun \<Rightarrow> 'u option
     \<Rightarrow> ('k, 'u) compare_fun option \<Rightarrow> 'u option \<Rightarrow> ('k \<times> 'c option) list" where
  "silc_hash_table_find_internal_all ht key hash hctx compare cctx =
     (let found = filter (key_match compare cctx key) (ht_table ht ! SILC_HASH_TABLE_HASH ht key hash hctx)
      in if found = [] then [(key, None)] else map (map_prod id Some) found)"

text \<open>\<open>x ? x : y\<close> on pointers.\<close>

definition or_else :: "'a option \<Rightarrow> 'a option \<Rightarrow> 'a option" where
  "or_else x y = (case x of Some v \<Rightarrow> Some v | None \<Rightarrow> y)"

definition silc_hash_table_find_ext ::
    "('k, 'c, 'u, 'd) silc_hash_table \<Rightarrow> 'k \<Rightarrow> ('k, 'u) hash_fun option \<Rightarrow> 'u option
     \<Rightarrow> ('k, 'u) compare_fun option \<Rightarrow> 'u option \<Rightarrow> ('k \<times> 'c) option" where
  "silc_hash_table_find_ext ht key hash hctx compare cctx =
     (case silc_hash_table_find_internal_simple ht key
             (case hash of Some h \<Rightarrow> h | None \<Rightarrow> ht_hash ht)
             (or_else hctx (ht_hash_user_context ht))
             (or_else compare (ht_compare ht)) (or_else cctx (ht_compare_user_context ht)) of
        [] \<Rightarrow> None
      | e # _ \<Rightarrow> Some e)"

definition silc_hash_table_find :: "('k, 'c, 'u, 'd) silc_hash_table \<Rightarrow> 'k \<Rightarrow> ('k \<times> 'c) option" where
  "silc_hash_table_find ht key = silc_hash_table_find_ext ht key None None None None"

definition silc_hash_table_find_by_context_ext ::
    "('k, 'c, 'u, 'd) silc_hash_table \<Rightarrow> 'k \<Rightarrow> 'c \<Rightarrow> ('k, 'u) hash_fun option \<Rightarrow> 'u option
     \<Rightarrow> ('k, 'u) compare_fun option \<Rightarrow> 'u option \<Rightarrow> 'k option" where
  "silc_hash_table_find_by_context_ext ht key context hash hctx compare cctx =
     (case silc_hash_table_find_internal_context ht key context
             (case hash of Some h \<Rightarrow> h | None \<Rightarrow> ht_hash ht)
             (or_else hctx (ht_hash_user_context ht))
             (or_else compare (ht_compare ht)) (or_else cctx (ht_compare_user_context ht)) of
        (i, before, []) \<Rightarrow> None
      | (i, before, e # _) \<Rightarrow> Some (fst e))"

definition silc_hash_table_find_by_context :: "('k, 'c, 'u, 'd) silc_hash_table \<Rightarrow> 'k \<Rightarrow> 'c \<Rightarrow> 'k option" where
  "silc_hash_table_find_by_context ht key context =
     silc_hash_table_find_by_context_ext ht key context None None None None"

definition silc_hash_table_find_foreach :: "('k, 'c, 'u, 'd) silc_hash_table \<Rightarrow> 'k \<Rightarrow> ('k \<times> 'c option) list" where
  "silc_hash_table_find_foreach ht key =
     silc_hash_table_find_internal_all ht key (ht_hash ht) (ht_hash_user_context ht)
       (ht_compare ht) (ht_compare_user_context ht)"

definition silc_hash_table_find_foreach_ext ::
    "('k, 'c, 'u, 'd) silc_hash_table \<Rightarrow> 'k \<Rightarrow> ('k, 'u) hash_fun option \<Rightarrow> 'u option
     \<Rightarrow> ('k, 'u) compare_fun option \<Rightarrow> 'u option \<Rightarrow> ('k \<times> 'c option) list" where
  "silc_hash_table_find_foreach_ext ht key hash hctx compare cctx =
     silc_hash_table_find_internal_all ht key
       (case hash of Some h \<Rightarrow> h | None \<Rightarrow> ht_hash ht)
       (or_else hctx (ht_hash_user_context ht))
       (or_else compare (ht_compare ht)) (or_else cctx (ht_compare_user_context ht))"

definition silc_hash_table_foreach :: "('k, 'c, 'u, 'd) silc_hash_table \<Rightarrow> ('k \<times> 'c) list" where
  "silc_hash_table_foreach ht = concat (ht_table ht)"

section \<open>Changing the table\<close>

text \<open>A new entry goes to the end of its chain; the counter has 32 bits.\<close>

definition add_entry ::
    "('k, 'u) hash_fun \<Rightarrow> 'u option \<Rightarrow> ('k, 'c, 'u, 'd) silc_hash_table \<Rightarrow> 'k \<times> 'c
     \<Rightarrow> ('k, 'c, 'u, 'd) silc_hash_table" where
  "add_entry hash hctx ht e =
     (let i = SILC_HASH_TABLE_HASH ht (fst e) hash hctx
      in ht\<lparr>ht_table := (ht_table ht)[i := ht_table ht ! i @ [e]],
            ht_entry_count := add32 (ht_entry_count ht) 1\<rparr>)"

text \<open>
  Rehashing adds the old entries to a new table, bucket by bucket. It switches automatic
  rehashing off meanwhile, so that the additions do not rehash again. A table that could not be
  allocated is lost; the largest size is below the allocator's limit.
\<close>

definition silc_hash_table_rehash_ext ::
    "('k, 'c, 'u, 'd) silc_hash_table \<Rightarrow> nat \<Rightarrow> ('k, 'u) hash_fun \<Rightarrow> 'u option
     \<Rightarrow> ('k, 'c, 'u, 'd) silc_hash_table" where
  "silc_hash_table_rehash_ext ht new_size hash hctx =
     (let size_index = snd (silc_hash_table_primesize (if new_size \<noteq> 0 then new_size else ht_entry_count ht))
      in if size_index = ht_table_size ht then ht
         else if silc_calloc (primesize ! size_index) 8 = None
         then ht\<lparr>ht_table := [], ht_auto_rehash := False\<rparr>
         else
           (foldl (add_entry hash hctx)
              (ht\<lparr>ht_table := replicate (primesize ! size_index) [], ht_table_size := size_index,
                  ht_entry_count := 0, ht_auto_rehash := False\<rparr>)
              (concat (ht_table ht)))
           \<lparr>ht_auto_rehash := ht_auto_rehash ht\<rparr>)"

definition silc_hash_table_rehash ::
    "('k, 'c, 'u, 'd) silc_hash_table \<Rightarrow> nat \<Rightarrow> ('k, 'c, 'u, 'd) silc_hash_table" where
  "silc_hash_table_rehash ht new_size =
     silc_hash_table_rehash_ext ht new_size (ht_hash ht) (ht_hash_user_context ht)"

definition silc_hash_table_add_internal ::
    "('k, 'c, 'u, 'd) silc_hash_table \<Rightarrow> 'k \<Rightarrow> 'c \<Rightarrow> ('k, 'u) hash_fun \<Rightarrow> 'u option
     \<Rightarrow> ('k, 'c, 'u, 'd) silc_hash_table" where
  "silc_hash_table_add_internal ht key context hash hctx =
     (let ht = add_entry hash hctx ht (key, context)
      in if SILC_HASH_REHASH_INC ht then silc_hash_table_rehash ht 0 else ht)"

definition silc_hash_table_add ::
    "('k, 'c, 'u, 'd) silc_hash_table \<Rightarrow> 'k \<Rightarrow> 'c \<Rightarrow> ('k, 'c, 'u, 'd) silc_hash_table" where
  "silc_hash_table_add ht key context =
     silc_hash_table_add_internal ht key context (ht_hash ht) (ht_hash_user_context ht)"

definition silc_hash_table_add_ext ::
    "('k, 'c, 'u, 'd) silc_hash_table \<Rightarrow> 'k \<Rightarrow> 'c \<Rightarrow> ('k, 'u) hash_fun \<Rightarrow> 'u option
     \<Rightarrow> ('k, 'c, 'u, 'd) silc_hash_table" where
  "silc_hash_table_add_ext ht key context hash hctx = silc_hash_table_add_internal ht key context hash hctx"

text \<open>The destructor calls of an operation: the destructor and the key and context it gets.\<close>

type_synonym ('k, 'c, 'd) destroyed = "('d \<times> 'k \<times> 'c) list"

definition destroy :: "'d option \<Rightarrow> 'k \<times> 'c \<Rightarrow> ('k, 'c, 'd) destroyed" where
  "destroy dst e = (case dst of None \<Rightarrow> [] | Some f \<Rightarrow> [(f, e)])"

text \<open>Replacing overwrites the first entry of the bucket, whatever its key is.\<close>

definition silc_hash_table_replace_internal ::
    "('k, 'c, 'u, 'd) silc_hash_table \<Rightarrow> 'k \<Rightarrow> 'c \<Rightarrow> ('k, 'u) hash_fun \<Rightarrow> 'u option
     \<Rightarrow> ('k, 'c, 'u, 'd) silc_hash_table \<times> ('k, 'c, 'd) destroyed" where
  "silc_hash_table_replace_internal ht key context hash hctx =
     (let i = SILC_HASH_TABLE_HASH ht key hash hctx;
          (ht', log) =
            (case ht_table ht ! i of
               [] \<Rightarrow> (ht\<lparr>ht_table := (ht_table ht)[i := [(key, context)]],
                        ht_entry_count := add32 (ht_entry_count ht) 1\<rparr>, [])
             | e # es \<Rightarrow> (ht\<lparr>ht_table := (ht_table ht)[i := (key, context) # es]\<rparr>,
                          destroy (ht_destructor ht) e))
      in (if SILC_HASH_REHASH_INC ht' then silc_hash_table_rehash ht' 0 else ht', log))"

definition silc_hash_table_replace ::
    "('k, 'c, 'u, 'd) silc_hash_table \<Rightarrow> 'k \<Rightarrow> 'c
     \<Rightarrow> ('k, 'c, 'u, 'd) silc_hash_table \<times> ('k, 'c, 'd) destroyed" where
  "silc_hash_table_replace ht key context =
     silc_hash_table_replace_internal ht key context (ht_hash ht) (ht_hash_user_context ht)"

definition silc_hash_table_replace_ext ::
    "('k, 'c, 'u, 'd) silc_hash_table \<Rightarrow> 'k \<Rightarrow> 'c \<Rightarrow> ('k, 'u) hash_fun \<Rightarrow> 'u option
     \<Rightarrow> ('k, 'c, 'u, 'd) silc_hash_table \<times> ('k, 'c, 'd) destroyed" where
  "silc_hash_table_replace_ext ht key context hash hctx =
     silc_hash_table_replace_internal ht key context hash hctx"

text \<open>The part the four deletions share, once the entry has been looked for.\<close>

definition delete_found ::
    "('k, 'c, 'u, 'd) silc_hash_table \<Rightarrow> 'd option \<Rightarrow> nat \<times> ('k \<times> 'c) list \<times> ('k \<times> 'c) list
     \<Rightarrow> ('k, 'c, 'u, 'd) silc_hash_table \<times> bool \<times> ('k, 'c, 'd) destroyed" where
  "delete_found ht dst found =
     (case found of
        (i, before, []) \<Rightarrow> (ht, False, [])
      | (i, before, e # after) \<Rightarrow>
          (let ht' = ht\<lparr>ht_table := (ht_table ht)[i := before @ after],
                        ht_entry_count := sub32 (ht_entry_count ht) 1\<rparr>
           in (if SILC_HASH_REHASH_DEC ht' then silc_hash_table_rehash ht' 0 else ht', True,
               destroy (or_else dst (ht_destructor ht)) e)))"

definition silc_hash_table_del_ext ::
    "('k, 'c, 'u, 'd) silc_hash_table \<Rightarrow> 'k \<Rightarrow> ('k, 'u) hash_fun option \<Rightarrow> 'u option
     \<Rightarrow> ('k, 'u) compare_fun option \<Rightarrow> 'u option \<Rightarrow> 'd option
     \<Rightarrow> ('k, 'c, 'u, 'd) silc_hash_table \<times> bool \<times> ('k, 'c, 'd) destroyed" where
  "silc_hash_table_del_ext ht key hash hctx compare cctx dst =
     delete_found ht dst
       (silc_hash_table_find_internal ht key
          (case hash of Some h \<Rightarrow> h | None \<Rightarrow> ht_hash ht) (or_else hctx (ht_hash_user_context ht))
          (or_else compare (ht_compare ht)) (or_else cctx (ht_compare_user_context ht)))"

definition silc_hash_table_del ::
    "('k, 'c, 'u, 'd) silc_hash_table \<Rightarrow> 'k
     \<Rightarrow> ('k, 'c, 'u, 'd) silc_hash_table \<times> bool \<times> ('k, 'c, 'd) destroyed" where
  "silc_hash_table_del ht key =
     delete_found ht None
       (silc_hash_table_find_internal ht key (ht_hash ht) (ht_hash_user_context ht)
          (ht_compare ht) (ht_compare_user_context ht))"

definition silc_hash_table_del_by_context_ext ::
    "('k, 'c, 'u, 'd) silc_hash_table \<Rightarrow> 'k \<Rightarrow> 'c \<Rightarrow> ('k, 'u) hash_fun option \<Rightarrow> 'u option
     \<Rightarrow> ('k, 'u) compare_fun option \<Rightarrow> 'u option \<Rightarrow> 'd option
     \<Rightarrow> ('k, 'c, 'u, 'd) silc_hash_table \<times> bool \<times> ('k, 'c, 'd) destroyed" where
  "silc_hash_table_del_by_context_ext ht key context hash hctx compare cctx dst =
     delete_found ht dst
       (silc_hash_table_find_internal_context ht key context
          (case hash of Some h \<Rightarrow> h | None \<Rightarrow> ht_hash ht) (or_else hctx (ht_hash_user_context ht))
          (or_else compare (ht_compare ht)) (or_else cctx (ht_compare_user_context ht)))"

definition silc_hash_table_del_by_context ::
    "('k, 'c, 'u, 'd) silc_hash_table \<Rightarrow> 'k \<Rightarrow> 'c
     \<Rightarrow> ('k, 'c, 'u, 'd) silc_hash_table \<times> bool \<times> ('k, 'c, 'd) destroyed" where
  "silc_hash_table_del_by_context ht key context =
     delete_found ht None
       (silc_hash_table_find_internal_context ht key context (ht_hash ht) (ht_hash_user_context ht)
          (ht_compare ht) (ht_compare_user_context ht))"

section \<open>Creating, freeing and traversing\<close>

definition silc_hash_table_alloc ::
    "nat \<Rightarrow> ('k, 'u) hash_fun option \<Rightarrow> 'u option \<Rightarrow> ('k, 'u) compare_fun option \<Rightarrow> 'u option
     \<Rightarrow> 'd option \<Rightarrow> bool \<Rightarrow> ('k, 'c, 'u, 'd) silc_hash_table option" where
  "silc_hash_table_alloc table_size hash hctx compare cctx dst auto_rehash =
     (case hash of
        None \<Rightarrow> None
      | Some h \<Rightarrow>
          (let size_index = (if table_size \<noteq> 0 then snd (silc_hash_table_primesize table_size)
                             else SILC_HASH_TABLE_SIZE)
           in if silc_calloc (primesize ! size_index) 8 = None then None
              else Some \<lparr>ht_table = replicate (primesize ! size_index) [], ht_table_size = size_index,
                         ht_entry_count = 0, ht_hash = h, ht_compare = compare, ht_destructor = dst,
                         ht_hash_user_context = hctx, ht_compare_user_context = cctx,
                         ht_auto_rehash = auto_rehash\<rparr>))"

definition silc_hash_table_free :: "('k, 'c, 'u, 'd) silc_hash_table \<Rightarrow> ('k, 'c, 'd) destroyed" where
  "silc_hash_table_free ht = concat (map (destroy (ht_destructor ht)) (concat (ht_table ht)))"

text \<open>
  A traversal: the chain from the next entry on (empty for NULL), the index of the next bucket and
  the rehashing flag to restore.
\<close>

record ('k, 'c) SilcHashTableList =
  htl_entry :: "('k \<times> 'c) list"
  htl_index :: nat
  htl_auto_rehash :: bool

definition silc_hash_table_list ::
    "('k, 'c, 'u, 'd) silc_hash_table \<Rightarrow> ('k, 'c, 'u, 'd) silc_hash_table \<times> ('k, 'c) SilcHashTableList" where
  "silc_hash_table_list ht =
     (ht\<lparr>ht_auto_rehash := False\<rparr>,
      \<lparr>htl_entry = [], htl_index = 0, htl_auto_rehash = ht_auto_rehash ht\<rparr>)"

definition silc_hash_table_list_reset ::
    "('k, 'c, 'u, 'd) silc_hash_table \<Rightarrow> ('k, 'c) SilcHashTableList \<Rightarrow> ('k, 'c, 'u, 'd) silc_hash_table" where
  "silc_hash_table_list_reset ht htl = ht\<lparr>ht_auto_rehash := htl_auto_rehash htl\<rparr>"

text \<open>The loop that looks for the next non-empty bucket, over the buckets not yet visited.\<close>

fun next_bucket :: "('k \<times> 'c) list \<Rightarrow> nat \<Rightarrow> ('k \<times> 'c) list list \<Rightarrow> ('k \<times> 'c) list \<times> nat" where
  "next_bucket (e # es) i bs = (e # es, i)"
| "next_bucket [] i [] = ([], i)"
| "next_bucket [] i (b # bs) = next_bucket b (i + 1) bs"

definition silc_hash_table_get ::
    "('k, 'c, 'u, 'd) silc_hash_table \<Rightarrow> ('k, 'c) SilcHashTableList
     \<Rightarrow> ('k, 'c) SilcHashTableList \<times> ('k \<times> 'c) option" where
  "silc_hash_table_get ht htl =
     (if ht_entry_count ht = 0 then (htl, None)
      else
        (let (entry, i) = next_bucket (htl_entry htl) (htl_index htl) (drop (htl_index htl) (ht_table ht))
         in case entry of
              [] \<Rightarrow> (htl\<lparr>htl_index := i\<rparr>, None)
            | e # es \<Rightarrow> (htl\<lparr>htl_entry := es, htl_index := i\<rparr>, Some e)))"

section \<open>Well-formed tables\<close>

text \<open>
  Every entry is in the bucket its key hashes to, the number of buckets is the prime of the size
  index, and the counter is the number of entries modulo the 32-bit range.
\<close>

abbreviation ht_index :: "('k, 'c, 'u, 'd) silc_hash_table \<Rightarrow> 'k \<Rightarrow> nat" where
  "ht_index ht k \<equiv> SILC_HASH_TABLE_HASH ht k (ht_hash ht) (ht_hash_user_context ht)"

abbreviation ht_entries :: "('k, 'c, 'u, 'd) silc_hash_table \<Rightarrow> ('k \<times> 'c) list" where
  "ht_entries ht \<equiv> concat (ht_table ht)"

abbreviation ht_match :: "('k, 'c, 'u, 'd) silc_hash_table \<Rightarrow> 'k \<Rightarrow> 'k \<times> 'c \<Rightarrow> bool" where
  "ht_match ht \<equiv> key_match (ht_compare ht) (ht_compare_user_context ht)"

definition wf_ht :: "('k, 'c, 'u, 'd) silc_hash_table \<Rightarrow> bool" where
  "wf_ht ht \<longleftrightarrow>
     ht_table_size ht < length primesize
     \<and> length (ht_table ht) = primesize ! ht_table_size ht
     \<and> (\<forall>i < length (ht_table ht). \<forall>e \<in> set (ht_table ht ! i). ht_index ht (fst e) = i)
     \<and> ht_entry_count ht = length (ht_entries ht) mod u32_max"

text \<open>What the table needs of its functions: keys that compare equal have the same hash value.\<close>

definition hash_compat :: "('k, 'c, 'u, 'd) silc_hash_table \<Rightarrow> bool" where
  "hash_compat ht \<longleftrightarrow>
     (\<forall>k e. ht_match ht k e \<longrightarrow>
        ht_hash ht (fst e) (ht_hash_user_context ht) = ht_hash ht k (ht_hash_user_context ht))"

text \<open>The entries of a key, oldest first.\<close>

definition ht_chain :: "('k, 'c, 'u, 'd) silc_hash_table \<Rightarrow> 'k \<Rightarrow> ('k \<times> 'c) list" where
  "ht_chain ht k = filter (ht_match ht k) (ht_entries ht)"

lemma primesize_pos [simp]: "i < length primesize \<Longrightarrow> 0 < primesize ! i"
proof -
  have "\<forall>p \<in> set primesize. 0 < p" by (simp add: primesize_def)
  then show "i < length primesize \<Longrightarrow> 0 < primesize ! i" by (simp add: nth_mem)
qed

lemma primesize_alloc: "i < length primesize \<Longrightarrow> silc_calloc (primesize ! i) 8 \<noteq> None"
proof -
  assume i: "i < length primesize"
  have "\<forall>p \<in> set primesize. 8 * p < SILC_MAX_ALLOC"
    by (simp add: primesize_def SILC_MAX_ALLOC_def)
  then have "8 * primesize ! i < SILC_MAX_ALLOC" using i by (simp add: nth_mem)
  then show ?thesis using primesize_pos [OF i] by (simp add: silc_calloc_def)
qed

lemma primesize_loop_bound: "ps \<noteq> [] \<or> 0 < i \<Longrightarrow> primesize_loop i ps sz < i + length ps"
  by (induction i ps sz rule: primesize_loop.induct) auto

lemma primesize_index [simp]: "snd (silc_hash_table_primesize sz) < length primesize"
proof -
  have "primesize \<noteq> []" by (simp add: primesize_def)
  then show ?thesis
    using primesize_loop_bound [of primesize 0 sz] by (simp add: silc_hash_table_primesize_def Let_def)
qed

lemma ht_index_less: "wf_ht ht \<Longrightarrow> ht_index ht k < length (ht_table ht)"
  by (simp add: wf_ht_def SILC_HASH_TABLE_HASH_def)

lemma compat_index: "hash_compat ht \<Longrightarrow> ht_match ht k e \<Longrightarrow> ht_index ht (fst e) = ht_index ht k"
proof -
  assume "hash_compat ht" and "ht_match ht k e"
  then have "ht_hash ht (fst e) (ht_hash_user_context ht) = ht_hash ht k (ht_hash_user_context ht)"
    unfolding hash_compat_def by blast
  then show ?thesis by (simp add: SILC_HASH_TABLE_HASH_def)
qed

lemma wf_ht_bucket: "wf_ht ht \<Longrightarrow> i < length (ht_table ht) \<Longrightarrow> e \<in> set (ht_table ht ! i) \<Longrightarrow> ht_index ht (fst e) = i"
  by (simp add: wf_ht_def)

lemma filter_concat_bucket:
  assumes "i < length xss" and "\<And>j x. j < length xss \<Longrightarrow> j \<noteq> i \<Longrightarrow> x \<in> set (xss ! j) \<Longrightarrow> \<not> P x"
  shows "filter P (concat xss) = filter P (xss ! i)"
proof -
  have "concat xss = concat (take i xss) @ xss ! i @ concat (drop (Suc i) xss)"
    using arg_cong [OF id_take_nth_drop [OF assms(1)], of concat] by simp
  moreover have "\<forall>xs \<in> set (take i xss). filter P xs = []"
  proof
    fix xs
    assume "xs \<in> set (take i xss)"
    then obtain j where "j < i" "xs = xss ! j" by (auto simp: in_set_conv_nth)
    then show "filter P xs = []" using assms(1) assms(2) [of j] by (auto simp: filter_empty_conv)
  qed
  moreover have "\<forall>xs \<in> set (drop (Suc i) xss). filter P xs = []"
  proof
    fix xs
    assume "xs \<in> set (drop (Suc i) xss)"
    then obtain j where "j < length (drop (Suc i) xss)" "xs = drop (Suc i) xss ! j"
      unfolding in_set_conv_nth by blast
    then show "filter P xs = []" using assms(2) [of "Suc i + j"] by (auto simp: filter_empty_conv)
  qed
  moreover have "filter P (concat yss) = []" if "\<forall>xs \<in> set yss. filter P xs = []" for yss
    using that by (induction yss) auto
  ultimately show ?thesis by simp
qed

lemma chain_bucket:
  assumes "wf_ht ht" and "hash_compat ht"
  shows "ht_chain ht k = filter (ht_match ht k) (ht_table ht ! ht_index ht k)"
  unfolding ht_chain_def
proof (rule filter_concat_bucket)
  show "ht_index ht k < length (ht_table ht)" by (rule ht_index_less [OF assms(1)])
  fix j e
  assume "j < length (ht_table ht)" "j \<noteq> ht_index ht k" "e \<in> set (ht_table ht ! j)"
  then have "ht_index ht (fst e) \<noteq> ht_index ht k" using assms(1) by (auto simp: wf_ht_def)
  then show "\<not> ht_match ht k e"
    using compat_index [OF assms(2)] by blast
qed

section \<open>Adding and rehashing\<close>

lemma concat_update_append:
  assumes "i < length xss"
  shows "mset (concat (xss[i := xss ! i @ [x]])) = add_mset x (mset (concat xss))"
    and "length (concat (xss[i := xss ! i @ [x]])) = Suc (length (concat xss))"
proof -
  have split: "concat xss = concat (take i xss) @ xss ! i @ concat (drop (Suc i) xss)"
    using arg_cong [OF id_take_nth_drop [OF assms], of concat] by simp
  have upd: "xss[i := xss ! i @ [x]] = take i xss @ (xss ! i @ [x]) # drop (Suc i) xss"
    using assms by (simp add: upd_conv_take_nth_drop)
  show "mset (concat (xss[i := xss ! i @ [x]])) = add_mset x (mset (concat xss))"
    by (simp only: split upd) simp
  show "length (concat (xss[i := xss ! i @ [x]])) = Suc (length (concat xss))"
    by (simp only: split upd) simp
qed

lemma filter_concat_update_append:
  assumes "i < length xss" and "\<And>j y. j < length xss \<Longrightarrow> j \<noteq> i \<Longrightarrow> y \<in> set (xss ! j) \<Longrightarrow> P x \<Longrightarrow> \<not> P y"
  shows "filter P (concat (xss[i := xss ! i @ [x]])) = filter P (concat xss) @ filter P [x]"
proof (cases "P x")
  case True
  have "filter P (concat (xss[i := xss ! i @ [x]])) = filter P (xss[i := xss ! i @ [x]] ! i)"
    by (rule filter_concat_bucket) (use assms True in auto)
  moreover have "filter P (concat xss) = filter P (xss ! i)"
    by (rule filter_concat_bucket) (use assms True in auto)
  ultimately show ?thesis using assms(1) True by simp
next
  case False
  have "concat xss = concat (take i xss) @ xss ! i @ concat (drop (Suc i) xss)"
    using arg_cong [OF id_take_nth_drop [OF assms(1)], of concat] by simp
  then show ?thesis using False assms(1) by (simp add: upd_conv_take_nth_drop)
qed

lemma add_entry_fields [simp]:
  "ht_table_size (add_entry h c ht e) = ht_table_size ht" "ht_hash (add_entry h c ht e) = ht_hash ht"
  "ht_compare (add_entry h c ht e) = ht_compare ht" "ht_destructor (add_entry h c ht e) = ht_destructor ht"
  "ht_hash_user_context (add_entry h c ht e) = ht_hash_user_context ht"
  "ht_compare_user_context (add_entry h c ht e) = ht_compare_user_context ht"
  "ht_auto_rehash (add_entry h c ht e) = ht_auto_rehash ht"
  "length (ht_table (add_entry h c ht e)) = length (ht_table ht)"
  by (simp_all add: add_entry_def Let_def)

lemma index_cong:
  "ht_table_size ht' = ht_table_size ht \<Longrightarrow> SILC_HASH_TABLE_HASH ht' k h c = SILC_HASH_TABLE_HASH ht k h c"
  by (simp add: SILC_HASH_TABLE_HASH_def)

abbreviation put :: "('k, 'c, 'u, 'd) silc_hash_table \<Rightarrow> 'k \<times> 'c \<Rightarrow> ('k, 'c, 'u, 'd) silc_hash_table" where
  "put ht \<equiv> add_entry (ht_hash ht) (ht_hash_user_context ht) ht"

lemma put_entries:
  "wf_ht ht \<Longrightarrow> mset (ht_entries (put ht e)) = add_mset e (mset (ht_entries ht))"
  using ht_index_less [of ht "fst e"] by (simp add: add_entry_def Let_def concat_update_append)

lemma wf_ht_put:
  assumes "wf_ht ht"
  shows "wf_ht (put ht e)"
proof -
  have i: "ht_index ht (fst e) < length (ht_table ht)" by (rule ht_index_less [OF assms])
  have "ht_entry_count (put ht e) = length (ht_entries (put ht e)) mod u32_max"
    using assms i
    by (simp add: wf_ht_def add_entry_def Let_def concat_update_append add32_def mod_Suc_eq)
  moreover have "ht_index (put ht e) (fst d) = j"
    if "j < length (ht_table ht)" "d \<in> set (ht_table (put ht e) ! j)" for j d
  proof -
    have "ht_index ht (fst d) = j"
      using assms i that by (auto simp: wf_ht_def add_entry_def Let_def nth_list_update split: if_splits)
    then show ?thesis by (simp add: SILC_HASH_TABLE_HASH_def)
  qed
  ultimately show ?thesis
    using assms by (simp add: wf_ht_def)
qed

lemma chain_put:
  assumes "wf_ht ht" and "hash_compat ht"
  shows "ht_chain (put ht e) k = ht_chain ht k @ filter (ht_match ht k) [e]"
proof -
  let ?i = "ht_index ht (fst e)"
  have "filter (ht_match ht k) (concat ((ht_table ht)[?i := ht_table ht ! ?i @ [e]])) =
      filter (ht_match ht k) (ht_entries ht) @ filter (ht_match ht k) [e]"
  proof (rule filter_concat_update_append)
    show "?i < length (ht_table ht)" by (rule ht_index_less [OF assms(1)])
    fix j d
    assume "j < length (ht_table ht)" "j \<noteq> ?i" "d \<in> set (ht_table ht ! j)" "ht_match ht k e"
    then show "\<not> ht_match ht k d"
      using wf_ht_bucket [OF assms(1)] compat_index [OF assms(2), of k d] compat_index [OF assms(2), of k e]
      by auto
  qed
  then show ?thesis by (simp add: ht_chain_def add_entry_def Let_def)
qed

text \<open>Adding a whole list of entries, as rehashing does.\<close>

lemma put_list:
  assumes "wf_ht ht" and "hash_compat ht"
  shows "let ht' = foldl (add_entry (ht_hash ht) (ht_hash_user_context ht)) ht es
    in wf_ht ht' \<and> hash_compat ht' \<and> mset (ht_entries ht') = mset (ht_entries ht) + mset es
       \<and> (\<forall>k. ht_chain ht' k = ht_chain ht k @ filter (ht_match ht k) es)
       \<and> ht_hash ht' = ht_hash ht \<and> ht_compare ht' = ht_compare ht \<and> ht_destructor ht' = ht_destructor ht
       \<and> ht_hash_user_context ht' = ht_hash_user_context ht
       \<and> ht_compare_user_context ht' = ht_compare_user_context ht
       \<and> ht_table_size ht' = ht_table_size ht"
  using assms
proof (induction es arbitrary: ht)
  case (Cons e es)
  have c: "hash_compat (put ht e)" using Cons.prems(2) by (simp add: hash_compat_def)
  from Cons.IH [OF wf_ht_put [OF Cons.prems(1), of e] c] show ?case
    using put_entries [OF Cons.prems(1), of e] chain_put [OF Cons.prems, of e]
    by (simp add: Let_def)
qed simp

text \<open>An empty table of any size.\<close>

lemma wf_empty:
  assumes "n < length primesize"
  shows "wf_ht (ht\<lparr>ht_table := replicate (primesize ! n) [], ht_table_size := n, ht_entry_count := 0,
    ht_auto_rehash := a\<rparr>)"
  using assms by (simp add: wf_ht_def)

lemma wf_auto [simp]: "wf_ht (ht\<lparr>ht_auto_rehash := a\<rparr>) = wf_ht ht"
  by (simp add: wf_ht_def SILC_HASH_TABLE_HASH_def)

lemma chain_auto [simp]: "ht_chain (ht\<lparr>ht_auto_rehash := a\<rparr>) k = ht_chain ht k"
  by (simp add: ht_chain_def)

text \<open>What an operation keeps: the functions of the table and the order of every key's entries.\<close>

definition same_funs :: "('k, 'c, 'u, 'd) silc_hash_table \<Rightarrow> ('k, 'c, 'u, 'd) silc_hash_table \<Rightarrow> bool" where
  "same_funs ht ht' \<longleftrightarrow>
     ht_hash ht' = ht_hash ht \<and> ht_compare ht' = ht_compare ht \<and> ht_destructor ht' = ht_destructor ht
     \<and> ht_hash_user_context ht' = ht_hash_user_context ht
     \<and> ht_compare_user_context ht' = ht_compare_user_context ht \<and> ht_auto_rehash ht' = ht_auto_rehash ht"

lemma same_funs_compat: "same_funs ht ht' \<Longrightarrow> hash_compat ht' = hash_compat ht"
  by (simp add: same_funs_def hash_compat_def)

lemma rehash_facts:
  assumes "wf_ht ht" and "hash_compat ht"
  shows "wf_ht (silc_hash_table_rehash ht n)" and "same_funs ht (silc_hash_table_rehash ht n)"
    and "mset (ht_entries (silc_hash_table_rehash ht n)) = mset (ht_entries ht)"
    and "ht_chain (silc_hash_table_rehash ht n) k = ht_chain ht k"
proof -
  define i where "i = snd (silc_hash_table_primesize (if n \<noteq> 0 then n else ht_entry_count ht))"
  let ?h0 = "ht\<lparr>ht_table := replicate (primesize ! i) [], ht_table_size := i, ht_entry_count := 0,
    ht_auto_rehash := False\<rparr>"
  let ?h1 = "foldl (add_entry (ht_hash ht) (ht_hash_user_context ht)) ?h0 (ht_entries ht)"
  have i: "i < length primesize" by (simp add: i_def)
  have c0: "hash_compat ?h0" using assms(2) by (simp add: hash_compat_def)
  have auto1: "ht_auto_rehash (foldl (add_entry f g) h es) = ht_auto_rehash h" for f g h es
    by (induction es arbitrary: h) simp_all
  note l = put_list [OF wf_empty [OF i] c0, of "ht_entries ht", unfolded Let_def, simplified]
  have eq: "silc_hash_table_rehash ht n =
      (if i = ht_table_size ht then ht else ?h1\<lparr>ht_auto_rehash := ht_auto_rehash ht\<rparr>)"
    unfolding silc_hash_table_rehash_def silc_hash_table_rehash_ext_def Let_def i_def [symmetric]
    using primesize_alloc [OF i] by auto
  show "wf_ht (silc_hash_table_rehash ht n)" using assms(1) l by (simp add: eq)
  show "same_funs ht (silc_hash_table_rehash ht n)" using l by (simp add: eq same_funs_def)
  show "mset (ht_entries (silc_hash_table_rehash ht n)) = mset (ht_entries ht)"
    using l by (simp add: eq)
  show "ht_chain (silc_hash_table_rehash ht n) k = ht_chain ht k"
    using l by (simp add: eq) (simp add: ht_chain_def)
qed

lemma same_funs_simps:
  assumes "same_funs ht ht'"
  shows "ht_hash ht' = ht_hash ht" "ht_compare ht' = ht_compare ht" "ht_destructor ht' = ht_destructor ht"
    "ht_hash_user_context ht' = ht_hash_user_context ht"
    "ht_compare_user_context ht' = ht_compare_user_context ht" "ht_auto_rehash ht' = ht_auto_rehash ht"
  using assms by (simp_all add: same_funs_def)

lemma same_funs_trans: "same_funs a b \<Longrightarrow> same_funs b c \<Longrightarrow> same_funs a c"
  by (simp add: same_funs_def)

lemma add_facts:
  assumes "wf_ht ht" and "hash_compat ht"
  shows "wf_ht (silc_hash_table_add ht k c)" and "same_funs ht (silc_hash_table_add ht k c)"
    and "mset (ht_entries (silc_hash_table_add ht k c)) = add_mset (k, c) (mset (ht_entries ht))"
    and "ht_chain (silc_hash_table_add ht k c) k' = ht_chain ht k' @ filter (ht_match ht k') [(k, c)]"
proof -
  let ?p = "put ht (k, c)"
  have wf: "wf_ht ?p" by (rule wf_ht_put [OF assms(1)])
  have f: "same_funs ht ?p" by (simp add: same_funs_def)
  then have c: "hash_compat ?p" using assms(2) by (simp add: same_funs_compat)
  have eq: "silc_hash_table_add ht k c = (if SILC_HASH_REHASH_INC ?p then silc_hash_table_rehash ?p 0 else ?p)"
    by (simp add: silc_hash_table_add_def silc_hash_table_add_internal_def Let_def)
  show "wf_ht (silc_hash_table_add ht k c)"
    using wf rehash_facts(1) [OF wf c] by (simp add: eq)
  show "same_funs ht (silc_hash_table_add ht k c)"
    using f same_funs_trans [OF f rehash_facts(2) [OF wf c]] by (simp add: eq)
  show "mset (ht_entries (silc_hash_table_add ht k c)) = add_mset (k, c) (mset (ht_entries ht))"
    using rehash_facts(3) [OF wf c] put_entries [OF assms(1), of "(k, c)"] by (simp add: eq)
  show "ht_chain (silc_hash_table_add ht k c) k' = ht_chain ht k' @ filter (ht_match ht k') [(k, c)]"
    using rehash_facts(4) [OF wf c] chain_put [OF assms, of "(k, c)"] by (simp add: eq)
qed

section \<open>Deleting\<close>

definition del_first :: "('a \<Rightarrow> bool) \<Rightarrow> 'a list \<Rightarrow> 'a list" where
  "del_first Q xs = takeWhile (\<lambda>x. \<not> Q x) xs @ tl (dropWhile (\<lambda>x. \<not> Q x) xs)"

lemma del_first_simps [simp]:
  "del_first Q [] = []" "del_first Q (x # xs) = (if Q x then xs else x # del_first Q xs)"
  by (simp_all add: del_first_def)

lemma del_first_id: "(\<And>x. x \<in> set xs \<Longrightarrow> \<not> Q x) \<Longrightarrow> del_first Q xs = xs"
  by (induction xs) auto

lemma del_first_cong: "(\<And>x. x \<in> set xs \<Longrightarrow> Q x = R x) \<Longrightarrow> del_first Q xs = del_first R xs"
  by (induction xs) auto

lemma del_first_append:
  "(\<And>x. x \<in> set xs \<Longrightarrow> \<not> Q x) \<Longrightarrow> del_first Q (xs @ [y]) = xs @ (if Q y then [] else [y])"
  by (induction xs) auto

lemma first_match:
  "(case dropWhile (\<lambda>x. \<not> P x) xs of [] \<Rightarrow> None | e # _ \<Rightarrow> Some e) =
   (case filter P xs of [] \<Rightarrow> None | e # _ \<Rightarrow> Some e)"
  by (induction xs) auto

lemma filter_del_first_same: "(\<And>x. Q x \<Longrightarrow> P x) \<Longrightarrow> filter P (del_first Q xs) = del_first Q (filter P xs)"
  by (induction xs) auto

lemma filter_del_first_other: "(\<And>x. Q x \<Longrightarrow> \<not> P x) \<Longrightarrow> filter P (del_first Q xs) = filter P xs"
  by (induction xs) auto

lemma del_first_mset: "x \<in> set xs \<Longrightarrow> Q x \<Longrightarrow> \<exists>y. Q y \<and> y \<in> set xs \<and> mset xs = add_mset y (mset (del_first Q xs))"
  by (induction xs) auto

lemma del_first_subset: "set (del_first Q xs) \<subseteq> set xs"
  by (induction xs) auto

lemma dropWhile_find: "dropWhile (\<lambda>x. \<not> Q x) xs = [] \<longleftrightarrow> (\<forall>x \<in> set xs. \<not> Q x)"
  by (induction xs) auto

lemma concat_update_empty:
  assumes "\<And>xs. xs \<in> set xss \<Longrightarrow> xs = []" and "i < length xss"
  shows "concat (xss[i := ys]) = ys"
proof -
  have "concat (take i xss) = []" "concat (drop (Suc i) xss) = []"
    using assms(1) by (auto dest: in_set_takeD in_set_dropD)
  then show ?thesis using assms(2) by (simp add: upd_conv_take_nth_drop del: concat_eq_Nil_conv)
qed

lemma sub32_Suc_mod: "sub32 (Suc n mod u32_max) 1 = n mod u32_max"
proof -
  have "(int (Suc n mod u32_max) - 1) mod int u32_max = (int (Suc n) - 1) mod int u32_max"
    unfolding zmod_int by (rule mod_diff_left_eq)
  then show ?thesis by (simp add: sub32_def nat_mod_as_int)
qed

lemma length_concat_update:
  assumes "i < length xss"
  shows "length (concat (xss[i := ys])) + length (xss ! i) = length (concat xss) + length ys"
proof -
  have split: "concat xss = concat (take i xss) @ xss ! i @ concat (drop (Suc i) xss)"
    using arg_cong [OF id_take_nth_drop [OF assms], of concat] by simp
  have upd: "xss[i := ys] = take i xss @ ys # drop (Suc i) xss"
    using assms by (simp add: upd_conv_take_nth_drop)
  show ?thesis by (simp only: split upd) simp
qed

lemma wf_delete:
  assumes wf: "wf_ht ht" and i: "i < length (ht_table ht)" and e: "e \<in> set (ht_table ht ! i)" "Q e"
  shows "wf_ht (ht\<lparr>ht_table := (ht_table ht)[i := del_first Q (ht_table ht ! i)],
    ht_entry_count := sub32 (ht_entry_count ht) 1\<rparr>)"
proof -
  let ?b = "ht_table ht ! i" and ?t = "(ht_table ht)[i := del_first Q (ht_table ht ! i)]"
  from del_first_mset [of e ?b Q, OF e] have "size (mset ?b) = Suc (size (mset (del_first Q ?b)))"
    by (auto simp del: size_mset)
  then have "length ?b = Suc (length (del_first Q ?b))" by simp
  with length_concat_update [OF i, of "del_first Q ?b"] have "length (ht_entries ht) = Suc (length (concat ?t))"
    by linarith
  then have "sub32 (ht_entry_count ht) 1 = length (concat ?t) mod u32_max"
    using wf sub32_Suc_mod by (simp add: wf_ht_def)
  moreover have "ht_index ht (fst d) = j" if "j < length (ht_table ht)" "d \<in> set (?t ! j)" for j d
    using that i wf_ht_bucket [OF wf, of j d] del_first_subset [of Q ?b]
    by (cases "j = i") auto
  ultimately show ?thesis
    using wf by (simp add: wf_ht_def SILC_HASH_TABLE_HASH_def)
qed

text \<open>The deletion of the first entry of a bucket that satisfies a test.\<close>

lemma delete_found_facts:
  assumes wf: "wf_ht ht" and compat: "hash_compat ht" and i: "i < length (ht_table ht)"
    and r: "r = delete_found ht dst (i, takeWhile (\<lambda>e. \<not> Q e) (ht_table ht ! i), dropWhile (\<lambda>e. \<not> Q e) (ht_table ht ! i))"
  shows "wf_ht (fst r)" and "same_funs ht (fst r)"
    and "fst (snd r) \<longleftrightarrow> (\<exists>e \<in> set (ht_table ht ! i). Q e)"
    and "ht_chain (fst r) k = filter (ht_match ht k) (concat ((ht_table ht)[i := del_first Q (ht_table ht ! i)]))"
proof -
  let ?b = "ht_table ht ! i"
  let ?h = "ht\<lparr>ht_table := (ht_table ht)[i := del_first Q ?b], ht_entry_count := sub32 (ht_entry_count ht) 1\<rparr>"
  have "wf_ht (fst r) \<and> same_funs ht (fst r) \<and> (fst (snd r) \<longleftrightarrow> (\<exists>e \<in> set ?b. Q e))
    \<and> ht_chain (fst r) k = filter (ht_match ht k) (concat ((ht_table ht)[i := del_first Q ?b]))"
  proof (cases "dropWhile (\<lambda>e. \<not> Q e) ?b")
    case Nil
    then have none: "\<forall>e \<in> set ?b. \<not> Q e" by (simp add: dropWhile_find)
    then have "del_first Q ?b = ?b" by (simp add: del_first_id)
    moreover have "r = (ht, False, [])"
      by (simp only: r delete_found_def Nil prod.case list.case)
    ultimately show ?thesis
      using none wf by (simp add: same_funs_def ht_chain_def)
  next
    case (Cons e es)
    then have e: "e \<in> set ?b" "Q e"
      using set_dropWhileD [of e "\<lambda>e. \<not> Q e" ?b] hd_dropWhile [of "\<lambda>e. \<not> Q e" ?b] by auto
    have d: "takeWhile (\<lambda>e. \<not> Q e) ?b @ es = del_first Q ?b"
      using Cons by (simp add: del_first_def)
    have eq: "fst r = (if SILC_HASH_REHASH_DEC ?h then silc_hash_table_rehash ?h 0 else ?h)" "fst (snd r)"
      by (simp_all add: r delete_found_def Cons d Let_def)
    have wfh: "wf_ht ?h" by (rule wf_delete [OF wf i e(1), of Q, OF e(2)])
    have f: "same_funs ht ?h" by (simp add: same_funs_def)
    then have c: "hash_compat ?h" using compat by (simp add: same_funs_compat)
    have "ht_chain (fst r) k = ht_chain ?h k"
      using rehash_facts(4) [OF wfh c] by (simp add: eq)
    then show ?thesis
      using eq e wfh rehash_facts(1) [OF wfh c] f same_funs_trans [OF f rehash_facts(2) [OF wfh c]]
      by (auto simp: ht_chain_def)
  qed
  then show "wf_ht (fst r)" "same_funs ht (fst r)" "fst (snd r) \<longleftrightarrow> (\<exists>e \<in> set ?b. Q e)"
    "ht_chain (fst r) k = filter (ht_match ht k) (concat ((ht_table ht)[i := del_first Q ?b]))"
    by blast+
qed

lemma filter_concat_update:
  assumes "i < length xss" and "filter P ys = filter P (xss ! i)"
  shows "filter P (concat (xss[i := ys])) = filter P (concat xss)"
proof -
  have "concat xss = concat (take i xss) @ xss ! i @ concat (drop (Suc i) xss)"
    using arg_cong [OF id_take_nth_drop [OF assms(1)], of concat] by simp
  then show ?thesis using assms by (simp add: upd_conv_take_nth_drop)
qed

text \<open>The relation of keys a table's comparison function gives, and tables it is an equivalence for.\<close>

definition same_key :: "('k, 'u) compare_fun option \<Rightarrow> 'u option \<Rightarrow> 'k \<Rightarrow> 'k \<Rightarrow> bool" where
  "same_key compare ctx k k' = (case compare of Some f \<Rightarrow> f k' k ctx | None \<Rightarrow> k' = k)"

definition ht_inv ::
    "('k, 'u) compare_fun option \<Rightarrow> 'u option \<Rightarrow> ('k, 'c, 'u, 'd) silc_hash_table \<Rightarrow> bool" where
  "ht_inv compare ctx ht \<longleftrightarrow>
     wf_ht ht \<and> hash_compat ht \<and> ht_compare ht = compare \<and> ht_compare_user_context ht = ctx
     \<and> equivp (same_key compare ctx)"

lemma key_match_same: "key_match compare ctx k e = same_key compare ctx k (fst e)"
  by (simp add: key_match_def same_key_def)

lemma ht_invD:
  assumes "ht_inv compare ctx ht"
  shows "wf_ht ht" "hash_compat ht" "ht_match ht k e = same_key compare ctx k (fst e)"
    and "same_key compare ctx k k" and "same_key compare ctx k k' \<Longrightarrow> same_key compare ctx k' k"
    and "same_key compare ctx k k' \<Longrightarrow> same_key compare ctx k' k'' \<Longrightarrow> same_key compare ctx k k''"
  using assms by (auto simp: ht_inv_def key_match_same equivp_def)

lemma ht_inv_same_funs: "ht_inv compare ctx ht \<Longrightarrow> wf_ht ht' \<Longrightarrow> same_funs ht ht' \<Longrightarrow> ht_inv compare ctx ht'"
  by (simp add: ht_inv_def same_funs_compat same_funs_simps)

lemma chain_same_key:
  assumes "ht_inv compare ctx ht" and "same_key compare ctx k k'"
  shows "ht_chain ht k = ht_chain ht k'" and "ht_index ht k = ht_index ht k'"
proof -
  note d = ht_invD [OF assms(1)]
  have "ht_match ht k e = ht_match ht k' e" for e
    unfolding d(3) using d(5,6) assms(2) by blast
  then show "ht_chain ht k = ht_chain ht k'" by (simp add: ht_chain_def cong: filter_cong)
  show "ht_index ht k = ht_index ht k'"
    using compat_index [OF d(2), of k "(k', undefined)"] assms(2) by (simp add: d(3))
qed

text \<open>Deleting the first entry with a test that implies equality with the key.\<close>

lemma chain_delete:
  assumes inv: "ht_inv compare ctx ht" and Q: "\<And>e. Q e \<longleftrightarrow> ht_match ht k e \<and> R e"
    and r: "r = delete_found ht dst (ht_index ht k, takeWhile (\<lambda>e. \<not> Q e) (ht_table ht ! ht_index ht k),
      dropWhile (\<lambda>e. \<not> Q e) (ht_table ht ! ht_index ht k))"
  shows "ht_inv compare ctx (fst r)" and "fst (snd r) \<longleftrightarrow> (\<exists>e \<in> set (ht_chain ht k). R e)"
    and "ht_chain (fst r) k' = (if same_key compare ctx k' k then del_first R (ht_chain ht k') else ht_chain ht k')"
proof -
  note d = ht_invD [OF inv]
  let ?i = "ht_index ht k"
  let ?b = "ht_table ht ! ?i"
  have i: "?i < length (ht_table ht)" by (rule ht_index_less [OF d(1)])
  note f = delete_found_facts [OF d(1,2) i r]
  show "ht_inv compare ctx (fst r)" by (rule ht_inv_same_funs [OF inv f(1,2)])
  show "fst (snd r) \<longleftrightarrow> (\<exists>e \<in> set (ht_chain ht k). R e)"
    using f(3) Q by (auto simp: chain_bucket [OF d(1,2)])
  show "ht_chain (fst r) k' = (if same_key compare ctx k' k then del_first R (ht_chain ht k') else ht_chain ht k')"
  proof (cases "same_key compare ctx k' k")
    case True
    note eq = chain_same_key [OF inv True]
    have m: "ht_match ht k' = ht_match ht k"
      using d(3,5,6) True by blast
    have "ht_chain (fst r) k' = filter (ht_match ht k) ((ht_table ht)[?i := del_first Q ?b] ! ?i)"
      unfolding f(4) m
    proof (rule filter_concat_bucket)
      show "?i < length ((ht_table ht)[?i := del_first Q ?b])" using i by simp
      fix j e
      assume "j < length ((ht_table ht)[?i := del_first Q ?b])" "j \<noteq> ?i"
        "e \<in> set ((ht_table ht)[?i := del_first Q ?b] ! j)"
      then show "\<not> ht_match ht k e"
        using wf_ht_bucket [OF d(1), of j e] compat_index [OF d(2), of k e] by auto
    qed
    also have "\<dots> = del_first Q (filter (ht_match ht k) ?b)"
      using i Q filter_del_first_same [of Q "ht_match ht k" ?b] by simp
    also have "\<dots> = del_first R (filter (ht_match ht k) ?b)"
      using Q by (intro del_first_cong) simp
    also have "\<dots> = del_first R (ht_chain ht k')"
      using eq by (simp add: chain_bucket [OF d(1,2)])
    finally show ?thesis using True by simp
  next
    case False
    have "filter (ht_match ht k') (del_first Q ?b) = filter (ht_match ht k') ?b"
      using Q False d(3,5,6) by (intro filter_del_first_other) blast
    then show ?thesis
      using False f(4) filter_concat_update [OF i] by (simp add: ht_chain_def)
  qed
qed

section \<open>The contract of the table\<close>

text \<open>
  What a client relies on: the entries of a key form a queue. Adding puts an entry at its end,
  finding gives its front, and deleting by context removes the oldest entry of the key with that
  context. Rehashing does not show.
\<close>

locale keyed_multimap =
  fixes inv :: "'t \<Rightarrow> bool"
    and same :: "'k \<Rightarrow> 'k \<Rightarrow> bool"
    and chain :: "'t \<Rightarrow> 'k \<Rightarrow> ('k \<times> 'c) list"
    and add :: "'t \<Rightarrow> 'k \<Rightarrow> 'c \<Rightarrow> 't"
    and del :: "'t \<Rightarrow> 'k \<Rightarrow> 'c \<Rightarrow> 't \<times> bool"
    and find :: "'t \<Rightarrow> 'k \<Rightarrow> ('k \<times> 'c) option"
  assumes chain_cong: "inv t \<Longrightarrow> same k k' \<Longrightarrow> chain t k = chain t k'"
    and chain_same: "inv t \<Longrightarrow> e \<in> set (chain t k) \<Longrightarrow> same k (fst e)"
    and same_refl: "inv t \<Longrightarrow> same k k"
    and add_inv: "inv t \<Longrightarrow> inv (add t k c)"
    and add_chain: "inv t \<Longrightarrow> chain (add t k c) k' = chain t k' @ (if same k' k then [(k, c)] else [])"
    and del_inv: "inv t \<Longrightarrow> inv (fst (del t k c))"
    and del_found: "inv t \<Longrightarrow> snd (del t k c) \<longleftrightarrow> (\<exists>e \<in> set (chain t k). snd e = c)"
    and del_chain: "inv t \<Longrightarrow> chain (fst (del t k c)) k' =
      (if same k' k then del_first (\<lambda>e. snd e = c) (chain t k') else chain t k')"
    and find_chain: "inv t \<Longrightarrow> find t k = (case chain t k of [] \<Rightarrow> None | e # _ \<Rightarrow> Some e)"
begin

lemma find_None: "inv t \<Longrightarrow> find t k = None \<longleftrightarrow> chain t k = []"
  by (simp add: find_chain split: list.splits)

lemma find_add: "inv t \<Longrightarrow> find (add t k c) k =
    (case find t k of Some e \<Rightarrow> Some e | None \<Rightarrow> Some (k, c))"
  by (auto simp: find_chain add_inv add_chain same_refl split: list.splits)

lemma del_add:
  assumes "inv t" and "c \<notin> snd ` set (chain t k)"
  shows "chain (fst (del (add t k c) k c)) k' = chain t k'" and "snd (del (add t k c) k c)"
proof -
  have id: "del_first (\<lambda>e. snd e = c) (chain t k' @ [(k, c)]) = chain t k'" if "same k' k"
  proof -
    have "\<forall>e \<in> set (chain t k'). snd e \<noteq> c"
      using assms(2) chain_cong [OF assms(1) that] by auto
    then show ?thesis by (subst del_first_append) auto
  qed
  then show "chain (fst (del (add t k c) k c)) k' = chain t k'"
    using assms(1) by (simp add: del_chain add_inv add_chain)
  show "snd (del (add t k c) k c)"
    using assms(1) by (simp add: del_found add_inv add_chain same_refl)
qed

end

interpretation ht: keyed_multimap
  "ht_inv compare ctx :: ('k, 'c, 'u, 'd) silc_hash_table \<Rightarrow> bool" "same_key compare ctx" ht_chain silc_hash_table_add
  "\<lambda>ht k c. (fst (silc_hash_table_del_by_context ht k c), fst (snd (silc_hash_table_del_by_context ht k c)))"
  silc_hash_table_find
proof
  fix t :: "('k, 'c, 'u, 'd) silc_hash_table" and k k' :: 'k and c :: 'c and e :: "'k \<times> 'c"
  assume inv: "ht_inv compare ctx t"
  note d = ht_invD [OF inv] and a = add_facts [OF ht_invD(1,2) [OF inv]]
  show "same_key compare ctx k k' \<Longrightarrow> ht_chain t k = ht_chain t k'"
    by (rule chain_same_key(1) [OF inv])
  show "e \<in> set (ht_chain t k) \<Longrightarrow> same_key compare ctx k (fst e)"
    by (auto simp: ht_chain_def d(3))
  show "same_key compare ctx k k" by (rule d(4))
  show "ht_inv compare ctx (silc_hash_table_add t k c)" by (rule ht_inv_same_funs [OF inv a(1,2)])
  show "ht_chain (silc_hash_table_add t k c) k' =
      ht_chain t k' @ (if same_key compare ctx k' k then [(k, c)] else [])"
    by (simp add: a(4) d(3))
  have ctxm: "context_match t (ht_compare t) (ht_compare_user_context t) k c e \<longleftrightarrow> ht_match t k e \<and> snd e = c" for e
    by (auto simp: context_match_def key_match_def)
  note del = chain_delete [OF inv ctxm refl, of None, folded silc_hash_table_find_internal_context_def
      [unfolded Let_def], folded silc_hash_table_del_by_context_def]
  show "ht_inv compare ctx (fst (fst (silc_hash_table_del_by_context t k c),
      fst (snd (silc_hash_table_del_by_context t k c))))"
    using del(1) by simp
  show "snd (fst (silc_hash_table_del_by_context t k c), fst (snd (silc_hash_table_del_by_context t k c))) \<longleftrightarrow>
      (\<exists>e \<in> set (ht_chain t k). snd e = c)"
    using del(2) by simp
  show "ht_chain (fst (fst (silc_hash_table_del_by_context t k c),
      fst (snd (silc_hash_table_del_by_context t k c)))) k' =
      (if same_key compare ctx k' k then del_first (\<lambda>e. snd e = c) (ht_chain t k') else ht_chain t k')"
    using del(3) by simp
  show "silc_hash_table_find t k = (case ht_chain t k of [] \<Rightarrow> None | e # _ \<Rightarrow> Some e)"
    using chain_bucket [OF d(1,2), of k]
    by (simp add: silc_hash_table_find_def silc_hash_table_find_ext_def or_else_def
        silc_hash_table_find_internal_simple_def first_match cong: option.case_cong)
qed

section \<open>Allocation, replacement and deletion by key\<close>

lemma alloc_facts:
  assumes "silc_hash_table_alloc n h hctx cmp cctx dst a = Some ht"
  shows "wf_ht ht" and "ht_entries ht = []" and "ht_chain ht k = []" and "h = Some (ht_hash ht)"
    and "ht_compare ht = cmp" and "ht_compare_user_context ht = cctx"
    and "ht_hash_user_context ht = hctx" and "ht_auto_rehash ht = a" and "ht_destructor ht = dst"
proof -
  define i where "i = (if n \<noteq> 0 then snd (silc_hash_table_primesize n) else SILC_HASH_TABLE_SIZE)"
  have "SILC_HASH_TABLE_SIZE < length primesize" by (simp add: SILC_HASH_TABLE_SIZE_def primesize_def)
  then have i: "i < length primesize" by (simp add: i_def)
  obtain f where h: "h = Some f" using assms by (auto simp: silc_hash_table_alloc_def split: option.splits)
  have ht: "ht = \<lparr>ht_table = replicate (primesize ! i) [], ht_table_size = i, ht_entry_count = 0, ht_hash = f,
      ht_compare = cmp, ht_destructor = dst, ht_hash_user_context = hctx, ht_compare_user_context = cctx,
      ht_auto_rehash = a\<rparr>"
    using assms h unfolding silc_hash_table_alloc_def Let_def i_def [symmetric] by (auto split: if_splits)
  show "wf_ht ht" using i by (simp add: ht wf_ht_def)
  show "ht_entries ht = []" "ht_chain ht k = []" "h = Some (ht_hash ht)" "ht_compare ht = cmp"
    "ht_compare_user_context ht = cctx" "ht_hash_user_context ht = hctx" "ht_auto_rehash ht = a"
    "ht_destructor ht = dst"
    by (simp_all add: ht h ht_chain_def)
qed

lemma alloc_Some: "\<exists>ht. silc_hash_table_alloc n (Some h) hctx cmp cctx dst a = Some ht"
proof -
  have "SILC_HASH_TABLE_SIZE < length primesize" by (simp add: SILC_HASH_TABLE_SIZE_def primesize_def)
  then show ?thesis
    using primesize_alloc [OF primesize_index, of n] primesize_alloc [of SILC_HASH_TABLE_SIZE]
    by (simp add: silc_hash_table_alloc_def Let_def)
qed

lemma in_set_tl: "x \<in> set (tl xs) \<Longrightarrow> x \<in> set xs"
  by (cases xs) auto

lemma replace_facts:
  assumes wf: "wf_ht ht" and compat: "hash_compat ht" and i_def: "i = ht_index ht k"
  shows "wf_ht (fst (silc_hash_table_replace ht k c))" and "same_funs ht (fst (silc_hash_table_replace ht k c))"
    and "ht_chain (fst (silc_hash_table_replace ht k c)) k' =
      filter (ht_match ht k') (concat ((ht_table ht)[i := (k, c) # tl (ht_table ht ! i)]))"
proof -
  let ?b = "ht_table ht ! i"
  have i: "i < length (ht_table ht)" unfolding i_def by (rule ht_index_less [OF wf])
  define h where "h = (case ?b of
      [] \<Rightarrow> ht\<lparr>ht_table := (ht_table ht)[i := [(k, c)]], ht_entry_count := add32 (ht_entry_count ht) 1\<rparr>
    | e # es \<Rightarrow> ht\<lparr>ht_table := (ht_table ht)[i := (k, c) # es]\<rparr>)"
  have tab: "ht_table h = (ht_table ht)[i := (k, c) # tl ?b]"
    by (simp add: h_def split: list.splits)
  have f: "same_funs ht h" by (simp add: h_def same_funs_def split: list.splits)
  have ts: "ht_table_size h = ht_table_size ht" by (simp add: h_def split: list.splits)
  have r: "fst (silc_hash_table_replace ht k c) = (if SILC_HASH_REHASH_INC h then silc_hash_table_rehash h 0 else h)"
    by (simp add: silc_hash_table_replace_def silc_hash_table_replace_internal_def h_def i_def Let_def
        split: list.splits prod.splits)
  have "ht_entry_count h = length (concat (ht_table h)) mod u32_max"
  proof (cases ?b)
    case Nil
    with length_concat_update [OF i, of "[(k, c)]"] wf show ?thesis
      by (simp add: h_def wf_ht_def add32_def mod_Suc_eq)
  next
    case (Cons e es)
    with length_concat_update [OF i, of "(k, c) # es"] wf show ?thesis
      by (simp add: h_def wf_ht_def)
  qed
  moreover have "ht_index ht (fst d) = j" if "j < length (ht_table ht)" "d \<in> set (ht_table h ! j)" for j d
    using that i wf_ht_bucket [OF wf, of j d]
    by (cases "j = i") (auto simp: tab i_def dest: in_set_tl)
  ultimately have wfh: "wf_ht h"
    using wf same_funs_simps [OF f] by (auto simp: wf_ht_def tab ts index_cong [OF ts])
  have ch: "hash_compat h" using compat f by (simp add: same_funs_compat)
  show "wf_ht (fst (silc_hash_table_replace ht k c))" using wfh rehash_facts(1) [OF wfh ch] by (simp add: r)
  show "same_funs ht (fst (silc_hash_table_replace ht k c))"
    using f same_funs_trans [OF f rehash_facts(2) [OF wfh ch]] by (simp add: r)
  have "ht_chain (fst (silc_hash_table_replace ht k c)) k' = ht_chain h k'"
    using rehash_facts(4) [OF wfh ch] by (simp add: r)
  then show "ht_chain (fst (silc_hash_table_replace ht k c)) k' =
      filter (ht_match ht k') (concat ((ht_table ht)[i := (k, c) # tl ?b]))"
    by (simp add: ht_chain_def tab same_funs_simps [OF f])
qed

lemma del_first_True [simp]: "del_first (\<lambda>_. True) xs = tl xs"
  by (cases xs) auto

lemma del_facts:
  assumes "ht_inv compare ctx ht"
  shows "ht_inv compare ctx (fst (silc_hash_table_del ht k))"
    and "fst (snd (silc_hash_table_del ht k)) \<longleftrightarrow> ht_chain ht k \<noteq> []"
    and "ht_chain (fst (silc_hash_table_del ht k)) k' =
      (if same_key compare ctx k' k then tl (ht_chain ht k') else ht_chain ht k')"
proof -
  have m: "ht_match ht k e \<longleftrightarrow> ht_match ht k e \<and> True" for e by simp
  note d = chain_delete [OF assms m refl, of None, folded silc_hash_table_find_internal_def
      [unfolded Let_def], folded silc_hash_table_del_def]
  show "ht_inv compare ctx (fst (silc_hash_table_del ht k))" by (rule d(1))
  show "fst (snd (silc_hash_table_del ht k)) \<longleftrightarrow> ht_chain ht k \<noteq> []"
    using d(2) by (cases "ht_chain ht k") auto
  show "ht_chain (fst (silc_hash_table_del ht k)) k' =
      (if same_key compare ctx k' k then tl (ht_chain ht k') else ht_chain ht k')"
    using d(3) by simp
qed

lemma find_foreach_chain:
  assumes "wf_ht ht" and "hash_compat ht"
  shows "silc_hash_table_find_foreach ht k =
    (if ht_chain ht k = [] then [(k, None)] else map (map_prod id Some) (ht_chain ht k))"
  using chain_bucket [OF assms, of k]
  by (simp add: silc_hash_table_find_foreach_def silc_hash_table_find_internal_all_def Let_def)

section \<open>Traversal\<close>

text \<open>The entries a traversal has still to visit, and the loop of a client with a bound on its turns.\<close>

definition htl_rest :: "('k, 'c, 'u, 'd) silc_hash_table \<Rightarrow> ('k, 'c) SilcHashTableList \<Rightarrow> ('k \<times> 'c) list" where
  "htl_rest ht htl = htl_entry htl @ concat (drop (htl_index htl) (ht_table ht))"

fun get_loop ::
    "nat \<Rightarrow> ('k, 'c, 'u, 'd) silc_hash_table \<Rightarrow> ('k, 'c) SilcHashTableList
     \<Rightarrow> ('k \<times> 'c) list \<times> ('k, 'c) SilcHashTableList" where
  "get_loop 0 ht htl = ([], htl)"
| "get_loop (Suc n) ht htl =
     (case silc_hash_table_get ht htl of
        (htl', None) \<Rightarrow> ([], htl')
      | (htl', Some e) \<Rightarrow> map_prod (Cons e) id (get_loop n ht htl'))"

lemma next_bucket_rest:
  "next_bucket en i bs = (en', i') \<Longrightarrow>
   i \<le> i' \<and> en @ concat bs = en' @ concat (drop (i' - i) bs) \<and> (en' = [] \<longrightarrow> en @ concat bs = [])"
proof (induction en i bs rule: next_bucket.induct)
  case (3 i b bs)
  then have "i + 1 \<le> i' \<and> b @ concat bs = en' @ concat (drop (i' - (i + 1)) bs) \<and> (en' = [] \<longrightarrow> b @ concat bs = [])"
    by simp
  then show ?case by (simp add: drop_Cons' Suc_le_eq)
qed auto

lemma get_rest:
  assumes "ht_entry_count ht \<noteq> 0"
  shows "htl_rest ht htl = [] \<Longrightarrow> snd (silc_hash_table_get ht htl) = None"
    and "htl_rest ht htl = e # es \<Longrightarrow>
      \<exists>htl'. silc_hash_table_get ht htl = (htl', Some e) \<and> htl_rest ht htl' = es"
proof -
  obtain en i where nb: "next_bucket (htl_entry htl) (htl_index htl) (drop (htl_index htl) (ht_table ht)) = (en, i)"
    by fastforce
  have i: "htl_index htl \<le> i" and eq: "htl_rest ht htl = en @ concat (drop i (ht_table ht))"
    and e: "en = [] \<longrightarrow> htl_rest ht htl = []"
    using next_bucket_rest [OF nb] by (auto simp: htl_rest_def)
  show "htl_rest ht htl = [] \<Longrightarrow> snd (silc_hash_table_get ht htl) = None"
    using eq nb by (simp add: silc_hash_table_get_def)
  assume r: "htl_rest ht htl = e # es"
  then obtain en' where en: "en = e # en'" using eq e by (cases en) auto
  then show "\<exists>htl'. silc_hash_table_get ht htl = (htl', Some e) \<and> htl_rest ht htl' = es"
    using assms nb eq r by (simp add: silc_hash_table_get_def htl_rest_def)
qed

lemma get_loop_all:
  assumes "ht_entry_count ht \<noteq> 0" and "length (htl_rest ht htl) \<le> n"
  shows "fst (get_loop n ht htl) = htl_rest ht htl"
    and "snd (silc_hash_table_get ht (snd (get_loop n ht htl))) = None"
proof -
  have none: "snd (silc_hash_table_get ht (fst (silc_hash_table_get ht l))) = None"
    if "htl_rest ht l = []" for l
  proof -
    have "next_bucket (htl_entry l) (htl_index l) (drop (htl_index l) (ht_table ht)) = (en, i) \<Longrightarrow>
        htl_rest ht (l\<lparr>htl_index := i\<rparr>) = []" for en i
      using next_bucket_rest [of "htl_entry l" "htl_index l" "drop (htl_index l) (ht_table ht)" en i] that
      by (auto simp: htl_rest_def)
    then have "htl_rest ht (fst (silc_hash_table_get ht l)) = []"
      using that get_rest(1) [OF assms(1) that]
      by (auto simp: silc_hash_table_get_def Let_def split: prod.splits list.splits)
    then show ?thesis by (rule get_rest(1) [OF assms(1)])
  qed
  have "fst (get_loop n ht htl) = htl_rest ht htl \<and> snd (silc_hash_table_get ht (snd (get_loop n ht htl))) = None"
    using assms(2)
  proof (induction n arbitrary: htl)
    case 0
    then show ?case using get_rest(1) [OF assms(1)] by simp
  next
    case (Suc n)
    show ?case
    proof (cases "htl_rest ht htl")
      case Nil
      then show ?thesis
        using get_rest(1) [OF assms(1) Nil] none [OF Nil]
        by (cases "silc_hash_table_get ht htl") auto
    next
      case (Cons e es)
      then obtain l where "silc_hash_table_get ht htl = (l, Some e)" "htl_rest ht l = es"
        using get_rest(2) [OF assms(1)] by blast
      then show ?thesis using Suc Cons by simp
    qed
  qed
  then show "fst (get_loop n ht htl) = htl_rest ht htl"
    and "snd (silc_hash_table_get ht (snd (get_loop n ht htl))) = None"
    by blast+
qed

section \<open>Properties\<close>

text \<open>
  C30. Every operation keeps the table well-formed: a new table is, and adding, replacing,
  deleting, deleting by context and rehashing leave every entry in the bucket of its hash value,
  the number of buckets at the prime of the size index, and the counter equal to the number of
  entries modulo the 32-bit range. The hypothesis is that keys that compare equal hash equally.
\<close>

theorem silc_hash_table_ops_wf:
  assumes "ht_inv compare ctx ht"
  shows "(\<forall>h'. silc_hash_table_alloc n h hctx cmp cctx dst a = Some h' \<longrightarrow> wf_ht h')
    \<and> wf_ht (silc_hash_table_add ht k c) \<and> wf_ht (fst (silc_hash_table_replace ht k c))
    \<and> wf_ht (fst (silc_hash_table_del ht k)) \<and> wf_ht (fst (silc_hash_table_del_by_context ht k c))
    \<and> wf_ht (silc_hash_table_rehash ht m)"
proof -
  note d = ht_invD(1,2) [OF assms]
  have "wf_ht (fst (silc_hash_table_del ht k))"
    using del_facts(1) [OF assms] by (simp add: ht_inv_def)
  moreover have "wf_ht (fst (silc_hash_table_del_by_context ht k c))"
    using ht.del_inv [OF assms, of k c] by (simp add: ht_inv_def)
  ultimately show ?thesis
    using add_facts(1) [OF d] replace_facts(1) [OF d refl] rehash_facts(1) [OF d] alloc_facts(1) by blast
qed

text \<open>The table of the witnesses: numbers hashed to themselves and compared for equality.\<close>

definition demo_table :: "(nat, nat, unit, unit) silc_hash_table" where
  "demo_table = \<lparr>ht_table = replicate 11 [], ht_table_size = 2, ht_entry_count = 0,
     ht_hash = (\<lambda>k _. of_nat k), ht_compare = Some (\<lambda>a b _. a = b), ht_destructor = None,
     ht_hash_user_context = None, ht_compare_user_context = None, ht_auto_rehash = True\<rparr>"

lemma demo_inv: "ht_inv (Some (\<lambda>a b _. a = b)) None demo_table"
  by (auto simp: ht_inv_def wf_ht_def hash_compat_def demo_table_def primesize_def key_match_def same_key_def
      equivp_def fun_eq_iff)

lemma demo_empty [simp]: "ht_entries demo_table = []" "ht_chain demo_table k = []"
  by (simp_all add: demo_table_def ht_chain_def)

theorem silc_hash_table_ops_wf_witness:
  "wf_ht (silc_hash_table_add demo_table 5 50) \<and> wf_ht (silc_hash_table_rehash demo_table 100)"
  using silc_hash_table_ops_wf [OF demo_inv, of 0 None None None None None True 5 50 100] by blast

text \<open>
  C31. Nothing that is added gets lost: adding an entry puts it behind the entries its key has,
  leaves the entries of every other key as they are, and makes the multiset of all entries larger
  by exactly this entry, also when the addition rehashes the table; rehashing to any size keeps
  all entries and, for every key, their order.
\<close>

theorem silc_hash_table_add_rehash:
  assumes "ht_inv compare ctx ht"
  shows "ht_chain (silc_hash_table_add ht k c) k' =
      ht_chain ht k' @ (if same_key compare ctx k' k then [(k, c)] else [])
    \<and> mset (ht_entries (silc_hash_table_add ht k c)) = add_mset (k, c) (mset (ht_entries ht))
    \<and> ht_chain (silc_hash_table_rehash ht m) k' = ht_chain ht k'
    \<and> mset (ht_entries (silc_hash_table_rehash ht m)) = mset (ht_entries ht)"
  using ht.add_chain [OF assms] add_facts(3) [OF ht_invD(1,2) [OF assms]]
    rehash_facts(3,4) [OF ht_invD(1,2) [OF assms]] by blast

theorem silc_hash_table_add_rehash_witness:
  "ht_chain (silc_hash_table_add demo_table 5 50) 5 = [(5, 50)]"
  using silc_hash_table_add_rehash [OF demo_inv, of 5 50 5 0] by (simp add: same_key_def)

text \<open>
  C32. Finding by key: the result is the oldest entry whose key compares equal, and there is none
  exactly when no entry of the whole table has such a key; the foreach variant visits all of them
  in order of age.
\<close>

theorem silc_hash_table_find_oldest:
  assumes "ht_inv compare ctx ht"
  shows "silc_hash_table_find ht k = (case ht_chain ht k of [] \<Rightarrow> None | e # _ \<Rightarrow> Some e)
    \<and> (silc_hash_table_find ht k = None \<longleftrightarrow> (\<forall>e \<in> set (ht_entries ht). \<not> same_key compare ctx k (fst e)))
    \<and> silc_hash_table_find_foreach ht k =
        (if ht_chain ht k = [] then [(k, None)] else map (map_prod id Some) (ht_chain ht k))"
proof -
  note d = ht_invD [OF assms]
  have "ht_chain ht k = [] \<longleftrightarrow> (\<forall>e \<in> set (ht_entries ht). \<not> same_key compare ctx k (fst e))"
    by (simp only: ht_chain_def filter_empty_conv d(3))
  then show ?thesis
    using ht.find_chain [OF assms, of k] ht.find_None [OF assms, of k] find_foreach_chain [OF d(1,2), of k] by simp
qed

theorem silc_hash_table_find_oldest_witness: "silc_hash_table_find demo_table 3 = None"
  using silc_hash_table_find_oldest [OF demo_inv, of 3] by simp

text \<open>
  C33. Deleting: deletion by key succeeds exactly when the key has an entry and then removes its
  oldest one; deletion by context succeeds exactly when an entry of the key has that context and
  then removes the oldest such entry. The entries of all other keys are left as they are, also
  when the deletion rehashes the table.
\<close>

theorem silc_hash_table_del_spec:
  assumes "ht_inv compare ctx ht"
  shows "(fst (snd (silc_hash_table_del ht k)) \<longleftrightarrow> ht_chain ht k \<noteq> [])
    \<and> ht_chain (fst (silc_hash_table_del ht k)) k' =
        (if same_key compare ctx k' k then tl (ht_chain ht k') else ht_chain ht k')
    \<and> (fst (snd (silc_hash_table_del_by_context ht k c)) \<longleftrightarrow> (\<exists>e \<in> set (ht_chain ht k). snd e = c))
    \<and> ht_chain (fst (silc_hash_table_del_by_context ht k c)) k' =
        (if same_key compare ctx k' k then del_first (\<lambda>e. snd e = c) (ht_chain ht k') else ht_chain ht k')"
  using del_facts(2,3) [OF assms] ht.del_found [OF assms, of k c] ht.del_chain [OF assms, of k c k']
  by (simp only: fst_conv snd_conv simp_thms)

theorem silc_hash_table_del_spec_witness:
  "ht_chain (fst (silc_hash_table_del (silc_hash_table_add demo_table 5 50) 5)) 5 = []"
  using silc_hash_table_del_spec [OF ht.add_inv [OF demo_inv], of 5 50 5 5 0] ht.add_chain [OF demo_inv, of 5 50 5]
  by (simp add: same_key_def)

text \<open>
  C34. A traversal visits every entry exactly once and ends: with at least as many turns as there
  are entries, the client's loop returns all entries of the table, the next call reports the end,
  and resetting the traversal gives the table back unchanged.
\<close>

theorem silc_hash_table_traversal:
  assumes "wf_ht ht" and "length (ht_entries ht) < u32_max" and "length (ht_entries ht) \<le> n"
    and "silc_hash_table_list ht = (ht', htl)"
  shows "fst (get_loop n ht' htl) = ht_entries ht
    \<and> snd (silc_hash_table_get ht' (snd (get_loop n ht' htl))) = None
    \<and> silc_hash_table_list_reset ht' htl = ht"
proof -
  have l: "ht' = ht\<lparr>ht_auto_rehash := False\<rparr>" "htl = \<lparr>htl_entry = [], htl_index = 0, htl_auto_rehash = ht_auto_rehash ht\<rparr>"
    using assms(4) by (auto simp: silc_hash_table_list_def)
  have reset: "silc_hash_table_list_reset ht' htl = ht"
    by (simp add: l silc_hash_table_list_reset_def)
  have rest: "htl_rest ht' htl = ht_entries ht" by (simp add: l htl_rest_def)
  show ?thesis
  proof (cases "ht_entries ht = []")
    case True
    then have "ht_entry_count ht' = 0" using assms(1) unfolding wf_ht_def True by (simp add: l)
    then have "silc_hash_table_get ht' x = (x, None)" for x by (simp add: silc_hash_table_get_def)
    then show ?thesis using True reset by (cases n) auto
  next
    case False
    then have "ht_entry_count ht' \<noteq> 0" using assms(1,2) by (simp add: l wf_ht_def)
    then show ?thesis using get_loop_all [of ht' htl n] rest assms(3) reset by simp
  qed
qed

theorem silc_hash_table_traversal_witness:
  "fst (get_loop 3 (fst (silc_hash_table_list (silc_hash_table_add demo_table 5 50)))
          (snd (silc_hash_table_list (silc_hash_table_add demo_table 5 50)))) = [(5, 50)]"
proof -
  let ?t = "silc_hash_table_add demo_table 5 50"
  have wf: "wf_ht ?t" using ht.add_inv [OF demo_inv, of 5 50] by (simp add: ht_inv_def)
  have "mset (ht_entries ?t) = {#(5, 50)#}"
    using add_facts(3) [OF ht_invD(1,2) [OF demo_inv], of 5 50] by simp
  then have e: "ht_entries ?t = [(5, 50)]" by simp
  show ?thesis
    using silc_hash_table_traversal [OF wf, of 3 "fst (silc_hash_table_list ?t)" "snd (silc_hash_table_list ?t)"]
    unfolding e by (simp add: u32_max_def)
qed

text \<open>
  Replacing an entry overwrites the first entry of the bucket even when its key is a different
  one: in a table that holds one entry, replacing a key of the same bucket that does not compare
  equal to it removes that entry, and its key is no longer found.
\<close>

theorem silc_hash_table_replace_other_key:
  assumes "ht_inv compare ctx ht" and "ht_entries ht = []" and "ht_index ht k = ht_index ht k'"
    and "\<not> same_key compare ctx k k'"
  shows "silc_hash_table_find (fst (silc_hash_table_replace (silc_hash_table_add ht k c) k' c')) k = None"
proof -
  note d = ht_invD [OF assms(1)]
  let ?i = "ht_index ht k" and ?t = "put ht (k, c)"
  have "ht_entry_count ht = 0" using d(1) unfolding wf_ht_def assms(2) by simp
  then have "ht_entry_count ?t = 1" by (simp add: add_entry_def Let_def add32_def u32_max_def)
  then have t: "silc_hash_table_add ht k c = ?t"
    by (simp add: silc_hash_table_add_def silc_hash_table_add_internal_def SILC_HASH_REHASH_INC_def Let_def)
  have i: "?i < length (ht_table ht)" by (rule ht_index_less [OF d(1)])
  have empty: "xs = []" if "xs \<in> set (ht_table ht)" for xs
    using assms(2) that by simp
  have idx: "ht_index ?t k' = ?i" using assms(3) by (simp add: SILC_HASH_TABLE_HASH_def)
  have b: "ht_table ht ! ?i = []" using empty i by simp
  then have tab: "ht_table ?t = (ht_table ht)[?i := [(k, c)]]" by (simp add: add_entry_def Let_def)
  have wt: "wf_ht ?t" and ct: "hash_compat ?t"
    using wf_ht_put [OF d(1)] d(2) by (simp_all add: hash_compat_def)
  have it: "ht_inv compare ctx ?t"
    by (rule ht_inv_same_funs [OF assms(1) wt]) (simp add: same_funs_def)
  have ir: "ht_inv compare ctx (fst (silc_hash_table_replace ?t k' c'))"
    by (rule ht_inv_same_funs [OF it replace_facts(1,2) [OF wt ct refl]])
  have "concat ((ht_table ht)[?i := [(k', c')]]) = [(k', c')]"
    using empty i by (rule concat_update_empty)
  then have "ht_chain (fst (silc_hash_table_replace ?t k' c')) k = filter (ht_match ?t k) [(k', c')]"
    using replace_facts(3) [OF wt ct refl, of k' c' k] i by (simp only: idx tab list_update_overwrite) simp
  then have "ht_chain (fst (silc_hash_table_replace ?t k' c')) k = []"
    using assms(4) ht_invD(3) [OF it, of k "(k', c')"] by simp
  then show ?thesis using ht.find_None [OF ir, of k] t by simp
qed

theorem silc_hash_table_replace_other_key_witness:
  "silc_hash_table_find (fst (silc_hash_table_replace (silc_hash_table_add demo_table 1 10) 12 20)) 1 = None"
  using silc_hash_table_replace_other_key [OF demo_inv, of 1 12 10 20]
  by (simp add: SILC_HASH_TABLE_HASH_def demo_table_def primesize_def same_key_def)

end
