(* ===== verification/Silc_Hash.thy ===== *)
theory Silc_Hash
  imports Silc_Id Silc_Hashtable
begin

text \<open>
  The hash and comparison functions of \<open>lib/silcutil/silcutil.c\<close> that the library's hash tables
  are used with. A C string is given without its terminating zero; a pointer used as a key is its
  64-bit value; \<open>tolower\<close> is the one of the C locale and \<open>char\<close> is signed, as on the platforms
  the code is built for. Identifiers are compared by their memory, whose padding every function
  that creates an identifier sets to zero.
\<close>

section \<open>Hash functions\<close>

text \<open>One turn of the loops: shift in four bits, add, and fold the top four bits back.\<close>

definition hash_step :: "u32 \<Rightarrow> u32 \<Rightarrow> u32" where
  "hash_step h x =
     (let h = push_bit 4 h + x; g = h AND 0xf0000000
      in if g \<noteq> 0 then (h XOR drop_bit 24 g) XOR g else h)"

text \<open>\<open>tolower\<close> on a character, and on the sign-extended integer the code passes to it.\<close>

definition lower_byte :: "byte \<Rightarrow> byte" where
  "lower_byte b = (if 65 \<le> b \<and> b \<le> 90 then b + 32 else b)"

definition tolower_int :: "byte \<Rightarrow> u32" where
  "tolower_int b = scast (lower_byte b)"

definition silc_hash_string :: "bytes \<Rightarrow> u32" where
  "silc_hash_string s = foldl (\<lambda>h b. hash_step h (tolower_int b)) 0 s"

definition silc_hash_utf8_string :: "bytes \<Rightarrow> u32" where
  "silc_hash_utf8_string s = foldl (\<lambda>h b. hash_step h (ucast b)) 0 s"

definition silc_hash_uint :: "u64 \<Rightarrow> u32" where
  "silc_hash_uint key = ucast key"

definition silc_hash_ptr :: "u64 \<Rightarrow> u32" where
  "silc_hash_ptr key = ucast key"

definition silc_hash_client_id_hash :: "bytes \<Rightarrow> u32" where
  "silc_hash_client_id_hash hash = foldl (\<lambda>h b. hash_step h (ucast b)) 0 (take CLIENTID_HASH_LEN hash)"

text \<open>The hash value of an address and two 16-bit numbers, for servers and channels.\<close>

definition hash_ip_port :: "silc_id_ip \<Rightarrow> u16 \<Rightarrow> u16 \<Rightarrow> u32" where
  "hash_ip_port ip port rnd =
     foldl (\<lambda>h b. h XOR ucast b) (ucast port * ucast rnd) (take (unat (ip_data_len ip)) (ip_data ip))"

text \<open>The identifiers of a table are of the type the table was made for; another type hashes to zero.\<close>

definition silc_hash_id :: "silc_id \<Rightarrow> u16 option \<Rightarrow> u32" where
  "silc_hash_id key user_context =
     (if user_context \<noteq> Some (id_type_of key) then 0
      else
        (case key of
           ClientID ip rnd hash \<Rightarrow> silc_hash_client_id_hash hash
         | ServerID ip port rnd \<Rightarrow> hash_ip_port ip port rnd
         | ChannelID ip port rnd \<Rightarrow> hash_ip_port ip port rnd))"

definition silc_hash_data :: "bytes \<Rightarrow> u32 \<Rightarrow> u32" where
  "silc_hash_data key len =
     foldl (\<lambda>h b. h XOR ucast b)
       ((ucast (key ! 0) * ucast (key ! (unat len - 1)) + 1) * len) (take (unat len) key)"

text \<open>The encoder of public keys, which the crypto library provides, is an argument.\<close>

definition silc_hash_public_key :: "('pk \<Rightarrow> bytes option) \<Rightarrow> 'pk \<Rightarrow> u32" where
  "silc_hash_public_key encode key =
     (case encode key of None \<Rightarrow> 0 | Some pk \<Rightarrow> silc_hash_data pk (of_nat (length pk)))"

section \<open>Comparison functions\<close>

text \<open>\<open>strcasecmp\<close> in the C locale.\<close>

definition silc_hash_string_compare :: "bytes \<Rightarrow> bytes \<Rightarrow> bool" where
  "silc_hash_string_compare key1 key2 \<longleftrightarrow> map lower_byte key1 = map lower_byte key2"

text \<open>
  A table holds identifiers of one type; the macro is applied to Client IDs only. Values that are
  not are compared as they are.
\<close>

fun SILC_ID_COMPARE_HASH :: "silc_id \<Rightarrow> silc_id \<Rightarrow> bool" where
  "SILC_ID_COMPARE_HASH (ClientID ip1 r1 hash1) (ClientID ip2 r2 hash2) =
     (take CLIENTID_HASH_LEN hash1 = take CLIENTID_HASH_LEN hash2)"
| "SILC_ID_COMPARE_HASH id1 id2 = (id1 = id2)"

definition SILC_ID_COMPARE_TYPE :: "silc_id \<Rightarrow> silc_id \<Rightarrow> u16 option \<Rightarrow> bool" where
  "SILC_ID_COMPARE_TYPE id1 id2 type \<longleftrightarrow> id1 = id2"

definition silc_hash_id_compare :: "silc_id \<Rightarrow> silc_id \<Rightarrow> u16 option \<Rightarrow> bool" where
  "silc_hash_id_compare key1 key2 user_context =
     (if user_context = Some SILC_ID_CLIENT then SILC_ID_COMPARE_HASH key1 key2
      else SILC_ID_COMPARE_TYPE key1 key2 user_context)"

definition silc_hash_id_compare_full :: "silc_id \<Rightarrow> silc_id \<Rightarrow> u16 option \<Rightarrow> bool" where
  "silc_hash_id_compare_full key1 key2 user_context = SILC_ID_COMPARE_TYPE key1 key2 user_context"

definition silc_hash_client_id_compare :: "silc_id \<Rightarrow> silc_id \<Rightarrow> bool" where
  "silc_hash_client_id_compare key1 key2 = SILC_ID_COMPARE_TYPE key1 key2 (Some SILC_ID_CLIENT)"

definition silc_hash_data_compare :: "bytes \<Rightarrow> bytes \<Rightarrow> u32 \<Rightarrow> bool" where
  "silc_hash_data_compare key1 key2 len \<longleftrightarrow> take (unat len) key1 = take (unat len) key2"

definition silc_hash_utf8_compare :: "bytes \<Rightarrow> bytes \<Rightarrow> bool" where
  "silc_hash_utf8_compare key1 key2 \<longleftrightarrow>
     (if length key1 \<noteq> length key2 then False else take (length key2) key1 = take (length key2) key2)"

section \<open>Each hash function agrees with its comparison\<close>

text \<open>
  What the hash tables need of their functions. The keys of a table are the identifiers of one type,
  byte strings of one length, or names.
\<close>

lemma utf8_compare_eq [simp]: "silc_hash_utf8_compare k1 k2 \<longleftrightarrow> k1 = k2"
  by (auto simp: silc_hash_utf8_compare_def)

lemma id_compare_hash_equivp:
  "SILC_ID_COMPARE_HASH i i" "SILC_ID_COMPARE_HASH i j \<Longrightarrow> SILC_ID_COMPARE_HASH j i"
  "SILC_ID_COMPARE_HASH i j \<Longrightarrow> SILC_ID_COMPARE_HASH j k \<Longrightarrow> SILC_ID_COMPARE_HASH i k"
  by (cases i; cases j; cases k; auto)+

lemma id_compare_equivp:
  "silc_hash_id_compare i i c" "silc_hash_id_compare i j c \<Longrightarrow> silc_hash_id_compare j i c"
  "silc_hash_id_compare i j c \<Longrightarrow> silc_hash_id_compare j k c \<Longrightarrow> silc_hash_id_compare i k c"
  by (auto simp: silc_hash_id_compare_def SILC_ID_COMPARE_TYPE_def
      intro: id_compare_hash_equivp split: if_splits)

lemma id_hash_compat: "silc_hash_id_compare i j c \<Longrightarrow> silc_hash_id i c = silc_hash_id j c"
  by (cases i; cases j)
    (auto simp: silc_hash_id_compare_def SILC_ID_COMPARE_TYPE_def silc_hash_id_def silc_hash_client_id_hash_def
      id_type_defs split: if_splits)

lemma string_hash_map: "silc_hash_string s = foldl (\<lambda>h b. hash_step h (scast b)) 0 (map lower_byte s)"
  by (simp add: silc_hash_string_def tolower_int_def foldl_map)

text \<open>
  Keys that compare equal have the same hash value, for every pair of a hash and a comparison
  function the library uses together: strings regardless of case, UTF-8 strings, identifiers
  compared in full or, for clients, by the nickname hash only, and binary data. The full comparison
  of identifiers is finer than the other one, so an entry found by it is in the same bucket.
\<close>

theorem silc_hash_compare_compat:
  "(silc_hash_string_compare s1 s2 \<longrightarrow> silc_hash_string s1 = silc_hash_string s2)
   \<and> (silc_hash_utf8_compare s1 s2 \<longrightarrow> silc_hash_utf8_string s1 = silc_hash_utf8_string s2)
   \<and> (silc_hash_id_compare i1 i2 c \<longrightarrow> silc_hash_id i1 c = silc_hash_id i2 c)
   \<and> (silc_hash_id_compare_full i1 i2 c \<longrightarrow> silc_hash_id_compare i1 i2 c)
   \<and> (silc_hash_client_id_compare i1 i2 \<longrightarrow> silc_hash_id i1 c = silc_hash_id i2 c)
   \<and> (0 < len \<and> unat len \<le> length s1 \<and> unat len \<le> length s2 \<and> silc_hash_data_compare s1 s2 len
       \<longrightarrow> silc_hash_data s1 len = silc_hash_data s2 len)"
proof -
  have "silc_hash_data s1 len = silc_hash_data s2 len"
    if a: "0 < len" "unat len \<le> length s1" "unat len \<le> length s2" "silc_hash_data_compare s1 s2 len"
  proof -
    have l: "0 < unat len" using a(1) by (simp add: word_less_nat_alt)
    have t: "take (unat len) s1 = take (unat len) s2" using a(4) by (simp add: silc_hash_data_compare_def)
    have n: "s1 ! i = s2 ! i" if "i < unat len" for i
      using nth_take [OF that, of s1] nth_take [OF that, of s2] t by simp
    show ?thesis using n [of 0] n [of "unat len - 1"] l t by (simp add: silc_hash_data_def)
  qed
  then show ?thesis
    using id_hash_compat [of i1 i2 c] id_compare_equivp(1) [of i1 c]
    by (auto simp: silc_hash_string_compare_def string_hash_map silc_hash_id_compare_full_def
        silc_hash_client_id_compare_def SILC_ID_COMPARE_TYPE_def)
qed

theorem silc_hash_compare_compat_witness:
  "silc_hash_string [83, 105, 108, 99] = silc_hash_string [115, 73, 76, 67]
   \<and> silc_hash_id_compare_full (ServerID \<lparr>ip_data = [1, 2, 3, 4], ip_data_len = 4\<rparr> 706 5)
        (ServerID \<lparr>ip_data = [1, 2, 3, 4], ip_data_len = 4\<rparr> 706 5) (Some SILC_ID_SERVER)"
  using silc_hash_compare_compat [of "[83, 105, 108, 99]" "[115, 73, 76, 67]"]
  by (simp add: silc_hash_string_compare_def lower_byte_def silc_hash_id_compare_full_def SILC_ID_COMPARE_TYPE_def)

end
