(* ===== verification/Silc_Idcache.thy ===== *)
theory Silc_Idcache
  imports Silc_Hash
begin

text \<open>
  \<open>lib/silcapputil/silcidcache.c\<close>: the cache of clients, servers and channels. Its entries are
  registered in up to three hash tables: by identifier, by name and by the caller's context pointer.

  Entries are shared by reference, so they live in a heap that maps an address to an entry; the
  address \<open>silc_calloc\<close> gives a new entry is an argument. A NULL cache is \<open>None\<close>. The identifier
  and the name of an entry belong to that entry alone, as the interface requires, and are kept by
  value. Freeing a name or an identifier has no effect on the model. A result list is the list of
  the entries chained into it.
\<close>

section \<open>State\<close>

type_synonym ref = u64

record silc_idcache_entry =
  ce_id :: "silc_id option"
  ce_name :: "bytes option"
  ce_context :: "u64 option"

type_synonym cache_heap = "ref \<rightharpoonup> silc_idcache_entry"

type_synonym 'k cache_table = "('k, ref, u16, unit) silc_hash_table"

record 'd silc_idcache =
  id_table :: "silc_id cache_table"
  name_table :: "bytes cache_table"
  context_table :: "u64 cache_table"
  ic_destructor :: "'d option"
  ic_id_type :: u16

text \<open>The calls of the cache's destructor: the function, the entry and the caller's context.\<close>

type_synonym ('d, 'a) destructor_log = "('d \<times> silc_idcache_entry \<times> 'a option) list"

definition SILC_32_TO_PTR :: "u16 \<Rightarrow> u16 option" where
  "SILC_32_TO_PTR n = (if n = 0 then None else Some n)"

definition silc_idcache_alloc :: "nat \<Rightarrow> u16 \<Rightarrow> 'd option \<Rightarrow> 'd silc_idcache option" where
  "silc_idcache_alloc cnt id_type destructor =
     (case silc_hash_table_alloc cnt (Some silc_hash_id) (SILC_32_TO_PTR id_type)
             (Some silc_hash_id_compare) (SILC_32_TO_PTR id_type) None True of
        None \<Rightarrow> None
      | Some idt \<Rightarrow>
     (case silc_hash_table_alloc cnt (Some (\<lambda>k _. silc_hash_utf8_string k)) None
             (Some (\<lambda>k1 k2 _. silc_hash_utf8_compare k1 k2)) None None True of
        None \<Rightarrow> None
      | Some namet \<Rightarrow>
     (case silc_hash_table_alloc cnt (Some (\<lambda>k _. silc_hash_ptr k)) None None None None True of
        None \<Rightarrow> None
      | Some ctxt \<Rightarrow>
          Some \<lparr>id_table = idt, name_table = namet, context_table = ctxt,
                ic_destructor = destructor, ic_id_type = id_type\<rparr>)))"

text \<open>
  Freeing the cache frees its tables, which have no destructors: the calls made on the way are
  returned, table by table. The entries themselves stay allocated.
\<close>

definition silc_idcache_free ::
    "'d silc_idcache \<Rightarrow> (silc_id, ref, unit) destroyed \<times> (bytes, ref, unit) destroyed \<times> (u64, ref, unit) destroyed" where
  "silc_idcache_free cache =
     (silc_hash_table_free (id_table cache), silc_hash_table_free (name_table cache),
      silc_hash_table_free (context_table cache))"

section \<open>Finding\<close>

text \<open>\<open>silc_idcache_get_all_foreach\<close> over the calls of a traversal: entries are chained in order.\<close>

definition silc_idcache_get_all_foreach :: "('k \<times> ref option) list \<Rightarrow> ref list" where
  "silc_idcache_get_all_foreach calls = List.map_filter snd calls"

definition nonempty_list :: "'a list \<Rightarrow> 'a list option" where
  "nonempty_list xs = (if xs = [] then None else Some xs)"

definition silc_idcache_get_all :: "'d silc_idcache option \<Rightarrow> ref list option" where
  "silc_idcache_get_all cache =
     (case cache of
        None \<Rightarrow> None
      | Some cache \<Rightarrow>
          if silc_hash_table_count (id_table cache) = 0 then None
          else nonempty_list (silc_idcache_get_all_foreach
                 (map (map_prod id Some) (silc_hash_table_foreach (id_table cache)))))"

definition silc_idcache_find_by_id :: "'d silc_idcache option \<Rightarrow> silc_id \<Rightarrow> ref list option" where
  "silc_idcache_find_by_id cache ident =
     (case cache of
        None \<Rightarrow> None
      | Some cache \<Rightarrow>
          if silc_hash_table_count (id_table cache) = 0 then None
          else nonempty_list (silc_idcache_get_all_foreach
                 (silc_hash_table_find_foreach (id_table cache) ident)))"

definition silc_idcache_find_by_id_one :: "'d silc_idcache option \<Rightarrow> silc_id \<Rightarrow> ref option" where
  "silc_idcache_find_by_id_one cache ident =
     (case cache of
        None \<Rightarrow> None
      | Some cache \<Rightarrow>
          map_option snd
            (silc_hash_table_find_ext (id_table cache) ident None None
               (Some silc_hash_id_compare_full) (SILC_32_TO_PTR (ic_id_type cache))))"

definition silc_idcache_find_by_context :: "'d silc_idcache option \<Rightarrow> u64 \<Rightarrow> ref option" where
  "silc_idcache_find_by_context cache context =
     (case cache of
        None \<Rightarrow> None
      | Some cache \<Rightarrow> map_option snd (silc_hash_table_find (context_table cache) context))"

definition silc_idcache_find_by_name :: "'d silc_idcache option \<Rightarrow> bytes \<Rightarrow> ref list option" where
  "silc_idcache_find_by_name cache name =
     (case cache of
        None \<Rightarrow> None
      | Some cache \<Rightarrow>
          if silc_hash_table_count (name_table cache) = 0 then None
          else nonempty_list (silc_idcache_get_all_foreach
                 (silc_hash_table_find_foreach (name_table cache) name)))"

definition silc_idcache_find_by_name_one :: "'d silc_idcache option \<Rightarrow> bytes \<Rightarrow> ref option" where
  "silc_idcache_find_by_name_one cache name =
     (case cache of
        None \<Rightarrow> None
      | Some cache \<Rightarrow> map_option snd (silc_hash_table_find (name_table cache) name))"

section \<open>Changing\<close>

text \<open>
  A deletion from a table by an optional key: the table, and the result if there was a key. The
  three deletions of an entry, in the order of the code; the result is the one of the last deletion
  made, and false when the entry has no key at all.
\<close>

definition table_del :: "'k cache_table \<Rightarrow> 'k option \<Rightarrow> ref \<Rightarrow> bool \<Rightarrow> 'k cache_table \<times> bool" where
  "table_del t key c ret =
     (case key of
        None \<Rightarrow> (t, ret)
      | Some k \<Rightarrow> (let (t', r, _) = silc_hash_table_del_by_context t k c in (t', r)))"

definition table_add :: "'k cache_table \<Rightarrow> 'k option \<Rightarrow> ref \<Rightarrow> 'k cache_table" where
  "table_add t key c = (case key of None \<Rightarrow> t | Some k \<Rightarrow> silc_hash_table_add t k c)"

definition cache_remove :: "'d silc_idcache \<Rightarrow> silc_idcache_entry \<Rightarrow> ref \<Rightarrow> 'd silc_idcache \<times> bool" where
  "cache_remove cache e c =
     (let (nt, ret) = table_del (name_table cache) (ce_name e) c False;
          (ct, ret) = table_del (context_table cache) (ce_context e) c ret;
          (it, ret) = table_del (id_table cache) (ce_id e) c ret
      in (cache\<lparr>id_table := it, name_table := nt, context_table := ct\<rparr>, ret))"

definition cache_insert :: "'d silc_idcache \<Rightarrow> silc_idcache_entry \<Rightarrow> ref \<Rightarrow> 'd silc_idcache" where
  "cache_insert cache e c =
     cache\<lparr>id_table := table_add (id_table cache) (ce_id e) c,
           name_table := table_add (name_table cache) (ce_name e) c,
           context_table := table_add (context_table cache) (ce_context e) c\<rparr>"

text \<open>A second entry with the same full identifier is refused and freed again.\<close>

definition silc_idcache_add ::
    "cache_heap \<Rightarrow> 'd silc_idcache option \<Rightarrow> ref \<Rightarrow> bytes option \<Rightarrow> silc_id option \<Rightarrow> u64 option
     \<Rightarrow> cache_heap \<times> 'd silc_idcache option \<times> ref option" where
  "silc_idcache_add heap cache c name ident context =
     (case cache of
        None \<Rightarrow> (heap, None, None)
      | Some cc \<Rightarrow>
          if name = None \<and> ident = None \<and> context = None then (heap, cache, None)
          else
            (let e = \<lparr>ce_id = ident, ce_name = name, ce_context = context\<rparr>
             in if (case ident of None \<Rightarrow> False | Some i \<Rightarrow> silc_idcache_find_by_id_one cache i \<noteq> None)
                then (heap(c := None), Some (fst (cache_remove cc e c)), None)
                else (heap(c \<mapsto> e), Some (cache_insert cc e c), Some c)))"

definition silc_idcache_destructor ::
    "cache_heap \<Rightarrow> 'd silc_idcache \<Rightarrow> ref \<Rightarrow> 'a option \<Rightarrow> cache_heap \<times> ('d, 'a) destructor_log" where
  "silc_idcache_destructor heap cache entry app_context =
     (heap(entry := None),
      (case ic_destructor cache of None \<Rightarrow> [] | Some d \<Rightarrow> [(d, the (heap entry), app_context)]))"

definition silc_idcache_del ::
    "cache_heap \<Rightarrow> 'd silc_idcache option \<Rightarrow> ref \<Rightarrow> 'a option
     \<Rightarrow> cache_heap \<times> 'd silc_idcache option \<times> bool \<times> ('d, 'a) destructor_log" where
  "silc_idcache_del heap cache entry app_context =
     (case cache of
        None \<Rightarrow> (heap, None, False, [])
      | Some cc \<Rightarrow>
          (let (cc', ret) = cache_remove cc (the (heap entry)) entry;
               (heap', log) = (if ret then silc_idcache_destructor heap cc' entry app_context else (heap, []))
           in (heap', Some cc', ret, log)))"

definition silc_idcache_del_by_id ::
    "cache_heap \<Rightarrow> 'd silc_idcache option \<Rightarrow> silc_id \<Rightarrow> 'a option
     \<Rightarrow> cache_heap \<times> 'd silc_idcache option \<times> bool \<times> ('d, 'a) destructor_log" where
  "silc_idcache_del_by_id heap cache ident app_context =
     (case cache of
        None \<Rightarrow> (heap, None, False, [])
      | Some cc \<Rightarrow>
          (case silc_hash_table_find (id_table cc) ident of
             None \<Rightarrow> (heap, cache, False, [])
           | Some (_, c) \<Rightarrow> silc_idcache_del heap cache c app_context))"

definition silc_idcache_del_by_context ::
    "cache_heap \<Rightarrow> 'd silc_idcache option \<Rightarrow> u64 \<Rightarrow> 'a option
     \<Rightarrow> cache_heap \<times> 'd silc_idcache option \<times> bool \<times> ('d, 'a) destructor_log" where
  "silc_idcache_del_by_context heap cache context app_context =
     (case cache of
        None \<Rightarrow> (heap, None, False, [])
      | Some cc \<Rightarrow>
          (case silc_hash_table_find (context_table cc) context of
             None \<Rightarrow> (heap, cache, False, [])
           | Some (_, c) \<Rightarrow> silc_idcache_del heap cache c app_context))"

text \<open>
  The two halves of an update. The memory of an existing identifier is overwritten when the cache's
  type is one of the three known ones.
\<close>

definition update_id ::
    "cache_heap \<Rightarrow> 'd silc_idcache \<Rightarrow> ref \<Rightarrow> silc_id \<Rightarrow> cache_heap \<times> 'd silc_idcache \<times> bool" where
  "update_id heap cache entry new_id =
     (let e = the (heap entry)
      in case ce_id e of
           None \<Rightarrow>
             (heap(entry \<mapsto> e\<lparr>ce_id := Some new_id\<rparr>),
              cache\<lparr>id_table := silc_hash_table_add (id_table cache) new_id entry\<rparr>, True)
         | Some old \<Rightarrow>
             (let (it, r, _) = silc_hash_table_del_by_context (id_table cache) old entry
              in if \<not> r then (heap, cache\<lparr>id_table := it\<rparr>, False)
                 else
                   (let i = (if ic_id_type cache \<in> {SILC_ID_CLIENT, SILC_ID_SERVER, SILC_ID_CHANNEL}
                             then new_id else old)
                    in (heap(entry \<mapsto> e\<lparr>ce_id := Some i\<rparr>),
                        cache\<lparr>id_table := silc_hash_table_add it i entry\<rparr>, True))))"

definition update_name ::
    "cache_heap \<Rightarrow> 'd silc_idcache \<Rightarrow> ref \<Rightarrow> bytes \<Rightarrow> cache_heap \<times> 'd silc_idcache \<times> bool" where
  "update_name heap cache entry new_name =
     (let e = the (heap entry); (nt, r) = table_del (name_table cache) (ce_name e) entry True
      in if \<not> r then (heap, cache\<lparr>name_table := nt\<rparr>, False)
         else (heap(entry \<mapsto> e\<lparr>ce_name := Some new_name\<rparr>),
               cache\<lparr>name_table := silc_hash_table_add nt new_name entry\<rparr>, True))"

definition silc_idcache_update ::
    "cache_heap \<Rightarrow> 'd silc_idcache option \<Rightarrow> ref \<Rightarrow> silc_id option \<Rightarrow> bytes option
     \<Rightarrow> cache_heap \<times> 'd silc_idcache option \<times> bool" where
  "silc_idcache_update heap cache entry new_id new_name =
     (case cache of
        None \<Rightarrow> (heap, None, False)
      | Some cc \<Rightarrow>
          (let (heap, cc, ok) = (case new_id of None \<Rightarrow> (heap, cc, True) | Some i \<Rightarrow> update_id heap cc entry i)
           in if \<not> ok then (heap, Some cc, False)
              else
                (let (heap, cc, ok) =
                       (case new_name of None \<Rightarrow> (heap, cc, True) | Some n \<Rightarrow> update_name heap cc entry n)
                 in (heap, Some cc, ok))))"

definition silc_idcache_update_by_context ::
    "cache_heap \<Rightarrow> 'd silc_idcache option \<Rightarrow> u64 \<Rightarrow> silc_id option \<Rightarrow> bytes option
     \<Rightarrow> cache_heap \<times> 'd silc_idcache option \<times> bool" where
  "silc_idcache_update_by_context heap cache context new_id new_name =
     (case cache of
        None \<Rightarrow> (heap, None, False)
      | Some cc \<Rightarrow>
          (case silc_hash_table_find (context_table cc) context of
             None \<Rightarrow> (heap, cache, False)
           | Some (_, c) \<Rightarrow> silc_idcache_update heap cache c new_id new_name))"

text \<open>
  Moving to another cache. The entry is looked up by the first key it has, and must be the one
  found. The two caches are different objects; the assertion of debug builds is not modelled.
\<close>

definition move_lookup :: "'d silc_idcache \<Rightarrow> silc_idcache_entry \<Rightarrow> ref option" where
  "move_lookup cache e =
     (case ce_context e of
        Some k \<Rightarrow> map_option snd (silc_hash_table_find (context_table cache) k)
      | None \<Rightarrow>
          (case ce_name e of
             Some k \<Rightarrow> map_option snd (silc_hash_table_find (name_table cache) k)
           | None \<Rightarrow>
               (case ce_id e of
                  Some k \<Rightarrow> map_option snd (silc_hash_table_find (id_table cache) k)
                | None \<Rightarrow> None)))"

definition silc_idcache_move ::
    "cache_heap \<Rightarrow> 'd silc_idcache option \<Rightarrow> 'd silc_idcache option \<Rightarrow> ref option
     \<Rightarrow> 'd silc_idcache option \<times> 'd silc_idcache option \<times> bool" where
  "silc_idcache_move heap from to entry =
     (case (from, to, entry) of
        (Some fc, Some tc, Some r) \<Rightarrow>
          if ic_id_type fc \<noteq> ic_id_type tc then (from, to, False)
          else
            (let e = the (heap r)
             in if move_lookup fc e \<noteq> Some r then (from, to, False)
                else if (case ce_id e of None \<Rightarrow> False | Some i \<Rightarrow> silc_idcache_find_by_id_one to i \<noteq> None)
                then (from, to, False)
                else (Some (fst (cache_remove fc e r)), Some (cache_insert tc e r), True))
      | _ \<Rightarrow> (from, to, False))"

section \<open>A table as an index of a collection\<close>

text \<open>
  A table indexes a collection when the entries of every key are, each once, the members whose
  key is the same. The collection is a map from members to keys.
\<close>

definition indexes :: "('k \<Rightarrow> 'k \<Rightarrow> bool) \<Rightarrow> ('k \<Rightarrow> ('k \<times> 'c) list) \<Rightarrow> ('c \<rightharpoonup> 'k) \<Rightarrow> bool" where
  "indexes same ch f \<longleftrightarrow> (\<forall>k. distinct (ch k) \<and> set (ch k) = {(k', r). f r = Some k' \<and> same k k'})"

lemma indexesD:
  assumes "indexes same ch f"
  shows "distinct (ch k)" and "(k', r) \<in> set (ch k) \<longleftrightarrow> f r = Some k' \<and> same k k'"
  using assms by (auto simp: indexes_def)

lemma distinct_del_first: "distinct xs \<Longrightarrow> distinct (del_first Q xs)"
  by (induction xs) (auto dest: subsetD [OF del_first_subset])

lemma set_del_first_unique:
  "distinct xs \<Longrightarrow> (\<And>x y. x \<in> set xs \<Longrightarrow> y \<in> set xs \<Longrightarrow> Q x \<Longrightarrow> Q y \<Longrightarrow> x = y) \<Longrightarrow>
   set (del_first Q xs) = {x \<in> set xs. \<not> Q x}"
proof (induction xs)
  case (Cons a xs)
  show ?case
  proof (cases "Q a")
    case True
    then have "\<not> Q x" if "x \<in> set xs" for x
      using Cons.prems(1) Cons.prems(2) [of a x] that by auto
    then show ?thesis using True by auto
  next
    case False
    have "set (del_first Q xs) = {x \<in> set xs. \<not> Q x}"
      by (rule Cons.IH) (use Cons.prems in auto)
    then show ?thesis using False by auto
  qed
qed simp

context keyed_multimap
begin

lemma index_add:
  assumes "inv t" and "indexes same (chain t) f" and "f c = None"
  shows "indexes same (chain (add t k c)) (f(c \<mapsto> k))"
  unfolding indexes_def
proof (intro allI conjI)
  fix k'
  have new: "(k, c) \<notin> set (chain t k')" using indexesD(2) [OF assms(2)] assms(3) by auto
  then show "distinct (chain (add t k c) k')"
    using indexesD(1) [OF assms(2)] assms(1) by (auto simp: add_chain)
  show "set (chain (add t k c) k') = {(k'', r). (f(c \<mapsto> k)) r = Some k'' \<and> same k' k''}"
    using indexesD(2) [OF assms(2)] assms(1,3) by (auto simp: add_chain split: if_splits)
qed

lemma index_del:
  assumes "inv t" and "indexes same (chain t) f" and "f c = Some k"
  shows "snd (del t k c)" and "indexes same (chain (fst (del t k c))) (f(c := None))"
proof -
  note i = indexesD [OF assms(2)]
  have mem: "(k, c) \<in> set (chain t k)" using i(2) assms same_refl by blast
  then show "snd (del t k c)" using assms(1) by (force simp: del_found)
  show "indexes same (chain (fst (del t k c))) (f(c := None))"
    unfolding indexes_def
  proof (intro allI conjI)
    fix k'
    have eq: "chain (fst (del t k c)) k' =
        (if same k' k then del_first (\<lambda>e. snd e = c) (chain t k') else chain t k')"
      by (rule del_chain [OF assms(1)])
    show "distinct (chain (fst (del t k c)) k')" using i(1) by (simp add: eq distinct_del_first)
    have u: "set (del_first (\<lambda>e. snd e = c) (chain t k')) = {x \<in> set (chain t k'). \<not> snd x = c}"
      by (rule set_del_first_unique) (use i in auto)
    show "set (chain (fst (del t k c)) k') = {(k'', r). (f(c := None)) r = Some k'' \<and> same k' k''}"
      using i(2) assms(3) by (auto simp: eq u split: if_splits)
  qed
qed

lemma index_del_missing:
  assumes "inv t" and "indexes same (chain t) f" and "f c = None"
  shows "\<not> snd (del t k c)" and "indexes same (chain (fst (del t k c))) f"
proof -
  have none: "snd e \<noteq> c" if "e \<in> set (chain t k')" for e k'
    using that indexesD(2) [OF assms(2), where k' = "fst e" and r = "snd e" and k = k'] assms(3) by auto
  then show "\<not> snd (del t k c)" using assms(1) by (auto simp: del_found)
  have "chain (fst (del t k c)) k' = chain t k'" for k'
    using none [of _ k'] by (simp add: del_chain [OF assms(1)] del_first_id)
  then have "chain (fst (del t k c)) = chain t" by blast
  then show "indexes same (chain (fst (del t k c))) f" using assms(2) by simp
qed

lemma index_find:
  assumes "inv t" and "indexes same (chain t) f"
  shows "find t k = Some (k', r) \<Longrightarrow> f r = Some k' \<and> same k k'"
    and "find t k = None \<longleftrightarrow> (\<forall>r k'. f r = Some k' \<longrightarrow> \<not> same k k')"
proof -
  note i = indexesD [OF assms(2), where k = k]
  show "find t k = Some (k', r) \<Longrightarrow> f r = Some k' \<and> same k k'"
    using i(2) by (auto simp: find_chain [OF assms(1)] split: list.splits)
  have "chain t k = [] \<longleftrightarrow> (\<forall>r k'. (k', r) \<notin> set (chain t k))" by (cases "chain t k") auto
  then show "find t k = None \<longleftrightarrow> (\<forall>r k'. f r = Some k' \<longrightarrow> \<not> same k k')"
    using i(2) by (auto simp: find_None [OF assms(1)])
qed

end

text \<open>A hash table with given comparison that indexes a collection, and the operations with optional keys.\<close>

definition table_of ::
    "('k, u16) compare_fun option \<Rightarrow> u16 option \<Rightarrow> 'k cache_table \<Rightarrow> (ref \<rightharpoonup> 'k) \<Rightarrow> bool" where
  "table_of compare ctx t f \<longleftrightarrow> ht_inv compare ctx t \<and> indexes (same_key compare ctx) (ht_chain t) f"

lemma table_add_of:
  assumes "table_of compare ctx t f" and "f c = None"
  shows "table_of compare ctx (table_add t key c) (f(c := key))"
proof -
  have "f(c := None) = f" using assms(2) by auto
  then show ?thesis
    using assms ht.add_inv ht.index_add
    by (auto simp: table_of_def table_add_def split: option.splits)
qed

lemma table_del_simps:
  "table_del t None c ret = (t, ret)"
  "table_del t (Some k) c ret =
     (fst (silc_hash_table_del_by_context t k c), fst (snd (silc_hash_table_del_by_context t k c)))"
  by (simp_all add: table_del_def split: prod.splits)

lemma table_del_of:
  assumes "table_of compare ctx t f" and "f c = key"
  shows "table_of compare ctx (fst (table_del t key c ret)) (f(c := None))"
    and "snd (table_del t key c ret) = (key \<noteq> None \<or> ret)"
proof -
  have i: "ht_inv compare ctx t" and x: "indexes (same_key compare ctx) (ht_chain t) f"
    using assms(1) by (simp_all add: table_of_def)
  have "f(c := None) = f" if "key = None" using assms(2) that by auto
  then show "table_of compare ctx (fst (table_del t key c ret)) (f(c := None))"
    using assms ht.del_inv [OF i] ht.index_del(2) [OF i x]
    by (cases key) (auto simp: table_of_def table_del_simps)
  show "snd (table_del t key c ret) = (key \<noteq> None \<or> ret)"
    using assms(2) ht.index_del(1) [OF i x]
    by (cases key) (auto simp: table_del_simps)
qed

lemma table_del_missing:
  assumes "table_of compare ctx t f" and "f c = None"
  shows "table_of compare ctx (fst (table_del t key c ret)) f"
proof -
  have i: "ht_inv compare ctx t" and x: "indexes (same_key compare ctx) (ht_chain t) f"
    using assms(1) by (simp_all add: table_of_def)
  show ?thesis
    using assms(1) ht.del_inv [OF i] ht.index_del_missing(2) [OF i x assms(2)]
    by (cases key) (auto simp: table_of_def table_del_simps)
qed

lemma table_find_of:
  assumes "table_of compare ctx t f"
  shows "silc_hash_table_find t k = Some (k', r) \<Longrightarrow> f r = Some k' \<and> same_key compare ctx k k'"
    and "silc_hash_table_find t k = None \<longleftrightarrow> (\<forall>r k'. f r = Some k' \<longrightarrow> \<not> same_key compare ctx k k')"
  using assms ht.index_find [of compare ctx t f] by (auto simp: table_of_def)

lemma table_entries:
  assumes "table_of compare ctx t f"
  shows "distinct (ht_entries t)" and "set (ht_entries t) = {(k, r). f r = Some k}"
proof -
  have i: "ht_inv compare ctx t" and x: "indexes (same_key compare ctx) (ht_chain t) f"
    using assms by (simp_all add: table_of_def)
  note d = ht_invD [OF i]
  have mem: "e \<in> set (ht_entries t) \<longleftrightarrow> e \<in> set (ht_chain t (fst e))" for e
    using d(3,4) unfolding ht_chain_def by (simp only: set_filter mem_Collect_eq simp_thms)
  show "set (ht_entries t) = {(k, r). f r = Some k}"
    using indexesD(2) [OF x] d(4) unfolding set_eq_iff mem by auto
  have "count (mset (ht_entries t)) e \<le> 1" for e
  proof -
    have "count (mset (ht_chain t (fst e))) e = count (mset (ht_entries t)) e"
      using d(3,4) unfolding ht_chain_def mset_filter by (simp only: count_filter_mset simp_thms if_True)
    then show ?thesis
      using indexesD(1) [OF x, of "fst e"] by (metis distinct_count_atmost_1 le_numeral_extra(4) le0)
  qed
  then show "distinct (ht_entries t)"
    unfolding distinct_count_atmost_1 by (metis count_inI in_multiset_in_set le_antisym less_one linorder_not_less count_greater_eq_one_iff not_in_iff)
qed

lemma find_full:
  assumes "table_of (Some silc_hash_id_compare) ctx t f"
  shows "silc_hash_table_find_ext t i None None (Some silc_hash_id_compare_full) cctx = Some e \<Longrightarrow>
      f (snd e) = Some i \<and> fst e = i"
    and "silc_hash_table_find_ext t i None None (Some silc_hash_id_compare_full) cctx = None \<longleftrightarrow>
      (\<forall>r. f r \<noteq> Some i)"
proof -
  have wf: "wf_ht t" using assms by (simp add: table_of_def ht_inv_def)
  define found where "found = filter (\<lambda>e. fst e = i) (ht_table t ! ht_index t i)"
  have eq: "silc_hash_table_find_ext t i None None (Some silc_hash_id_compare_full) cctx =
      (case found of [] \<Rightarrow> None | e # _ \<Rightarrow> Some e)"
    by (simp add: silc_hash_table_find_ext_def silc_hash_table_find_internal_simple_def or_else_def first_match
        key_match_def found_def silc_hash_id_compare_full_def SILC_ID_COMPARE_TYPE_def)
  have "e \<in> set found \<longleftrightarrow> e \<in> set (ht_entries t) \<and> fst e = i" for e
  proof
    assume "e \<in> set found"
    then show "e \<in> set (ht_entries t) \<and> fst e = i"
      using nth_mem [OF ht_index_less [OF wf, of i]] by (auto simp: found_def)
  next
    assume e: "e \<in> set (ht_entries t) \<and> fst e = i"
    then obtain b where "b \<in> set (ht_table t)" "e \<in> set b" by auto
    then obtain j where "j < length (ht_table t)" "e \<in> set (ht_table t ! j)" by (auto simp: in_set_conv_nth)
    then show "e \<in> set found" using e wf_ht_bucket [OF wf, of j e] by (simp add: found_def)
  qed
  then have mem: "e \<in> set found \<longleftrightarrow> f (snd e) = Some i \<and> fst e = i" for e
    by (cases e) (auto simp: table_entries(2) [OF assms] simp del: set_concat)
  show "silc_hash_table_find_ext t i None None (Some silc_hash_id_compare_full) cctx = Some e \<Longrightarrow>
      f (snd e) = Some i \<and> fst e = i"
    using mem [of e] unfolding eq by (auto split: list.splits)
  have "found = [] \<longleftrightarrow> (\<forall>e. e \<notin> set found)" by (cases found) auto
  then show "silc_hash_table_find_ext t i None None (Some silc_hash_id_compare_full) cctx = None \<longleftrightarrow>
      (\<forall>r. f r \<noteq> Some i)"
    using mem unfolding eq by (auto split: list.splits)
qed

section \<open>The cache as a map\<close>

text \<open>
  The abstract value of a cache: the map of the entries registered in it. A cache represents a map
  when each of its tables indexes the map by its key; every entry has at least one key.
\<close>

definition proj :: "(ref \<rightharpoonup> silc_idcache_entry) \<Rightarrow> (silc_idcache_entry \<Rightarrow> 'k option) \<Rightarrow> ref \<rightharpoonup> 'k" where
  "proj m g r = Option.bind (m r) g"

definition has_key :: "silc_idcache_entry \<Rightarrow> bool" where
  "has_key e \<longleftrightarrow> ce_id e \<noteq> None \<or> ce_name e \<noteq> None \<or> ce_context e \<noteq> None"

definition cache_rel :: "'d silc_idcache \<Rightarrow> (ref \<rightharpoonup> silc_idcache_entry) \<Rightarrow> bool" where
  "cache_rel cache m \<longleftrightarrow>
     table_of (Some silc_hash_id_compare) (SILC_32_TO_PTR (ic_id_type cache)) (id_table cache) (proj m ce_id)
     \<and> table_of (Some (\<lambda>k1 k2 _. silc_hash_utf8_compare k1 k2)) None (name_table cache) (proj m ce_name)
     \<and> table_of None None (context_table cache) (proj m ce_context)
     \<and> (\<forall>r e. m r = Some e \<longrightarrow> has_key e)"

lemma proj_upd [simp]:
  "proj (m(c \<mapsto> e)) g = (proj m g)(c := g e)" "proj (m(c := None)) g = (proj m g)(c := None)"
  "m c = None \<Longrightarrow> proj m g c = None" "m c = Some e \<Longrightarrow> proj m g c = g e"
  by (auto simp: proj_def)

lemma proj_Some [simp]: "proj m g r = Some k \<longleftrightarrow> (\<exists>e. m r = Some e \<and> g e = Some k)"
  by (cases "m r") (auto simp: proj_def)

lemma cache_relD:
  assumes "cache_rel cache m"
  shows "table_of (Some silc_hash_id_compare) (SILC_32_TO_PTR (ic_id_type cache)) (id_table cache) (proj m ce_id)"
    and "table_of (Some (\<lambda>k1 k2 _. silc_hash_utf8_compare k1 k2)) None (name_table cache) (proj m ce_name)"
    and "table_of None None (context_table cache) (proj m ce_context)"
    and "m r = Some e \<Longrightarrow> has_key e"
  using assms by (auto simp: cache_rel_def)

lemma cache_insert_rel:
  assumes "cache_rel cache m" and "m c = None" and "has_key e"
  shows "cache_rel (cache_insert cache e c) (m(c \<mapsto> e))"
  using assms table_add_of [OF cache_relD(1) [OF assms(1)]] table_add_of [OF cache_relD(2) [OF assms(1)]]
    table_add_of [OF cache_relD(3) [OF assms(1)]]
  by (auto simp: cache_rel_def cache_insert_def)

lemma table_del_fst: "fst (table_del t k c r) = fst (table_del t k c False)"
  by (cases k) (simp_all add: table_del_simps)

lemma cache_remove_eq:
  "cache_remove cache e c =
     (cache\<lparr>id_table := fst (table_del (id_table cache) (ce_id e) c False),
            name_table := fst (table_del (name_table cache) (ce_name e) c False),
            context_table := fst (table_del (context_table cache) (ce_context e) c False)\<rparr>,
      snd (table_del (id_table cache) (ce_id e) c (snd (table_del (context_table cache) (ce_context e) c
        (snd (table_del (name_table cache) (ce_name e) c False))))))"
  by (simp add: cache_remove_def split: prod.splits) (metis fst_conv table_del_fst)

lemma cache_remove_rel:
  assumes "cache_rel cache m" and "m c = Some e"
  shows "cache_rel (fst (cache_remove cache e c)) (m(c := None))" and "snd (cache_remove cache e c)"
proof -
  note d = cache_relD [OF assms(1)]
  note t1 = table_del_of [OF d(1), of c "ce_id e"] and t2 = table_del_of [OF d(2), of c "ce_name e"]
    and t3 = table_del_of [OF d(3), of c "ce_context e"]
  show "cache_rel (fst (cache_remove cache e c)) (m(c := None))"
    using assms t1(1) t2(1) t3(1) by (auto simp: cache_remove_eq cache_rel_def)
  show "snd (cache_remove cache e c)"
    using assms d(4) [OF assms(2)] t1(2) t2(2) t3(2) by (auto simp: cache_remove_eq has_key_def)
qed

lemma cache_remove_missing:
  assumes "cache_rel cache m" and "m c = None"
  shows "cache_rel (fst (cache_remove cache e c)) m"
proof -
  note d = cache_relD [OF assms(1)]
  show ?thesis
    using assms table_del_missing [OF d(1)] table_del_missing [OF d(2)] table_del_missing [OF d(3)]
    by (auto simp: cache_remove_eq cache_rel_def)
qed

lemma find_by_id_one_rel:
  assumes "cache_rel cache m"
  shows "silc_idcache_find_by_id_one (Some cache) i = Some r \<Longrightarrow> \<exists>e. m r = Some e \<and> ce_id e = Some i"
    and "silc_idcache_find_by_id_one (Some cache) i = None \<longleftrightarrow> (\<forall>r e. m r = Some e \<longrightarrow> ce_id e \<noteq> Some i)"
proof -
  note f = find_full [OF cache_relD(1) [OF assms], of i]
  show "silc_idcache_find_by_id_one (Some cache) i = Some r \<Longrightarrow> \<exists>e. m r = Some e \<and> ce_id e = Some i"
    using f(1) by (force simp: silc_idcache_find_by_id_one_def)
  show "silc_idcache_find_by_id_one (Some cache) i = None \<longleftrightarrow> (\<forall>r e. m r = Some e \<longrightarrow> ce_id e \<noteq> Some i)"
    using f(2) by (auto simp: silc_idcache_find_by_id_one_def)
qed

lemma alloc_rel:
  "\<exists>cache. silc_idcache_alloc n id_type destructor = Some cache \<and> cache_rel cache (\<lambda>_. None)
     \<and> ic_id_type cache = id_type \<and> ic_destructor cache = destructor"
proof -
  let ?c = "SILC_32_TO_PTR id_type"
  obtain it where it: "silc_hash_table_alloc n (Some silc_hash_id) ?c (Some silc_hash_id_compare) ?c None True =
      Some (it :: silc_id cache_table)"
    using alloc_Some by blast
  obtain nt where nt: "silc_hash_table_alloc n (Some (\<lambda>k _. silc_hash_utf8_string k)) None
      (Some (\<lambda>k1 k2 _. silc_hash_utf8_compare k1 k2)) None None True = Some (nt :: bytes cache_table)"
    using alloc_Some by blast
  obtain ct where ct: "silc_hash_table_alloc n (Some (\<lambda>k _. silc_hash_ptr k)) None None None None True =
      Some (ct :: u64 cache_table)"
    using alloc_Some by blast
  note fi = alloc_facts [OF it] and fn = alloc_facts [OF nt] and fc = alloc_facts [OF ct]
  have eqi: "equivp (same_key (Some silc_hash_id_compare) ?c)"
    by (rule equivpI) (auto simp: reflp_def symp_def transp_def same_key_def intro: id_compare_equivp)
  have "ht_inv (Some silc_hash_id_compare) ?c it"
    using fi eqi by (auto simp: ht_inv_def hash_compat_def key_match_def dest: id_hash_compat)
  moreover have "ht_inv (Some (\<lambda>k1 k2 _. silc_hash_utf8_compare k1 k2)) None nt"
    using fn by (auto simp: ht_inv_def hash_compat_def key_match_def same_key_def
        intro!: equivpI simp: reflp_def symp_def transp_def)
  moreover have "ht_inv None None ct"
    using fc by (auto simp: ht_inv_def hash_compat_def key_match_def same_key_def
        intro!: equivpI simp: reflp_def symp_def transp_def)
  ultimately show ?thesis
    using it nt ct fi(3) fn(3) fc(3)
    by (simp add: silc_idcache_alloc_def cache_rel_def table_of_def indexes_def proj_def)
qed

text \<open>The two halves of an update, on an entry of the cache.\<close>

lemma id_del_add_rel:
  assumes "cache_rel cache m" and "m r = Some e"
  shows "cache_rel (cache\<lparr>id_table := silc_hash_table_add (fst (table_del (id_table cache) (ce_id e) r ret)) i r\<rparr>)
    (m(r \<mapsto> e\<lparr>ce_id := Some i\<rparr>))"
proof -
  note d = cache_relD [OF assms(1)]
  have "table_of (Some silc_hash_id_compare) (SILC_32_TO_PTR (ic_id_type cache))
      (fst (table_del (id_table cache) (ce_id e) r ret)) ((proj m ce_id)(r := None))"
    by (rule table_del_of(1) [OF d(1)]) (simp add: assms(2))
  from table_add_of [OF this, of r "Some i"] show ?thesis
    using assms d(2,3,4) by (auto simp: cache_rel_def table_add_def has_key_def fun_upd_idem)
qed

lemma name_del_add_rel:
  assumes "cache_rel cache m" and "m r = Some e"
  shows "cache_rel (cache\<lparr>name_table := silc_hash_table_add (fst (table_del (name_table cache) (ce_name e) r ret)) i r\<rparr>)
    (m(r \<mapsto> e\<lparr>ce_name := Some i\<rparr>))"
proof -
  note d = cache_relD [OF assms(1)]
  have "table_of (Some (\<lambda>k1 k2 _. silc_hash_utf8_compare k1 k2)) None
      (fst (table_del (name_table cache) (ce_name e) r ret)) ((proj m ce_name)(r := None))"
    by (rule table_del_of(1) [OF d(2)]) (simp add: assms(2))
  from table_add_of [OF this, of r "Some i"] show ?thesis
    using assms d(1,3,4) by (auto simp: cache_rel_def table_add_def has_key_def fun_upd_idem)
qed

lemma update_id_rel:
  assumes "cache_rel cache m" and "m r = Some e" and "heap r = Some e"
    and "ic_id_type cache \<in> {SILC_ID_CLIENT, SILC_ID_SERVER, SILC_ID_CHANNEL}"
  shows "\<exists>cache'. update_id heap cache r i = (heap(r \<mapsto> e\<lparr>ce_id := Some i\<rparr>), cache', True)
    \<and> cache_rel cache' (m(r \<mapsto> e\<lparr>ce_id := Some i\<rparr>)) \<and> ic_id_type cache' = ic_id_type cache"
proof -
  note d = cache_relD [OF assms(1)] and a = id_del_add_rel [OF assms(1,2), of True i]
  have ok: "snd (table_del (id_table cache) (ce_id e) r True)"
    using table_del_of(2) [OF d(1), of r "ce_id e" True] assms(2) by simp
  show ?thesis
  proof (cases "ce_id e")
    case None
    then show ?thesis using a assms(3) by (simp add: update_id_def table_del_simps)
  next
    case (Some old)
    then show ?thesis
      using a ok assms(3,4) by (auto simp: update_id_def table_del_simps split: prod.splits)
  qed
qed

lemma update_name_rel:
  assumes "cache_rel cache m" and "m r = Some e" and "heap r = Some e"
  shows "\<exists>cache'. update_name heap cache r n = (heap(r \<mapsto> e\<lparr>ce_name := Some n\<rparr>), cache', True)
    \<and> cache_rel cache' (m(r \<mapsto> e\<lparr>ce_name := Some n\<rparr>)) \<and> ic_id_type cache' = ic_id_type cache"
proof -
  note d = cache_relD [OF assms(1)] and a = name_del_add_rel [OF assms(1,2), of True n]
  have ok: "snd (table_del (name_table cache) (ce_name e) r True)"
    using table_del_of(2) [OF d(2), of r "ce_name e" True] assms(2) by simp
  then show ?thesis
    using a assms(3) by (cases "table_del (name_table cache) (ce_name e) r True") (simp add: update_name_def)
qed

text \<open>Result lists: the traversals of a table that indexes a collection.\<close>

lemma table_count_zero:
  assumes "table_of compare ctx t f" and "card (dom f) < u32_max"
  shows "silc_hash_table_count t = 0 \<longleftrightarrow> f = Map.empty"
proof -
  note e = table_entries [OF assms(1)]
  have "snd ` set (ht_entries t) = dom f" and "inj_on snd (set (ht_entries t))"
    unfolding e(2) by (force, auto simp: inj_on_def)
  then have "length (ht_entries t) = card (dom f)"
    using distinct_card [OF e(1)] card_image by metis
  then show ?thesis
    using assms by (simp add: silc_hash_table_count_def table_of_def ht_inv_def wf_ht_def)
qed

lemma map_filter_Some [simp]:
  "silc_idcache_get_all_foreach (map (map_prod id Some) es) = map snd es"
  "silc_idcache_get_all_foreach [(k, None)] = []"
  by (induction es) (simp_all add: silc_idcache_get_all_foreach_def List.map_filter_def)

definition found_list :: "ref list option \<Rightarrow> ref set \<Rightarrow> bool" where
  "found_list res R \<longleftrightarrow>
     (case res of None \<Rightarrow> R = {} | Some rs \<Rightarrow> R \<noteq> {} \<and> distinct rs \<and> set rs = R)"

lemma nonempty_found: "distinct rs \<Longrightarrow> set rs = R \<Longrightarrow> found_list (nonempty_list rs) R"
  by (auto simp: found_list_def nonempty_list_def)

lemma table_foreach_found:
  assumes t: "table_of compare ctx t f" and "card (dom f) < u32_max"
  shows "found_list
    (if silc_hash_table_count t = 0 then None
     else nonempty_list (silc_idcache_get_all_foreach (silc_hash_table_find_foreach t k)))
    {r. \<exists>k'. f r = Some k' \<and> same_key compare ctx k k'}"
proof (cases "f = Map.empty")
  case True
  then show ?thesis using table_count_zero [OF assms] by (simp add: found_list_def)
next
  case False
  have i: "ht_inv compare ctx t" and x: "indexes (same_key compare ctx) (ht_chain t) f"
    using t by (simp_all add: table_of_def)
  have eq: "silc_idcache_get_all_foreach (silc_hash_table_find_foreach t k) = map snd (ht_chain t k)"
    using find_foreach_chain [OF ht_invD(1,2) [OF i]] by simp
  have "inj_on snd (set (ht_chain t k))" using indexesD(2) [OF x] by (fastforce simp: inj_on_def)
  then have "distinct (map snd (ht_chain t k))" using indexesD(1) [OF x, of k] by (simp add: distinct_map)
  moreover have "set (map snd (ht_chain t k)) = {r. \<exists>k'. f r = Some k' \<and> same_key compare ctx k k'}"
    using indexesD(2) [OF x] by force
  ultimately show ?thesis using False table_count_zero [OF assms] by (simp add: eq nonempty_found)
qed

lemma card_proj: "card (dom m) < u32_max \<Longrightarrow> card (dom (proj m g)) < u32_max"
proof -
  have "card (dom (proj m g)) \<le> card (dom m)" by (rule card_mono) auto
  then show "card (dom m) < u32_max \<Longrightarrow> card (dom (proj m g)) < u32_max" by simp
qed

lemma add_eq:
  assumes "cache_rel cc m" and e: "e = \<lparr>ce_id = ident, ce_name = name, ce_context = context\<rparr>"
  shows "silc_idcache_add heap (Some cc) c name ident context =
    (if \<not> has_key e then (heap, Some cc, None)
     else if \<not> (\<forall>r d. m r = Some d \<longrightarrow> ident = None \<or> ce_id d \<noteq> ident)
     then (heap(c := None), Some (fst (cache_remove cc e c)), None)
     else (heap(c \<mapsto> e), Some (cache_insert cc e c), Some c))"
proof -
  have dup: "(case ident of None \<Rightarrow> False | Some i \<Rightarrow> silc_idcache_find_by_id_one (Some cc) i \<noteq> None) \<longleftrightarrow>
      \<not> (\<forall>r d. m r = Some d \<longrightarrow> ident = None \<or> ce_id d \<noteq> ident)"
    using find_by_id_one_rel(2) [OF assms(1)] by (auto split: option.splits)
  have "(name = None \<and> ident = None \<and> context = None) \<longleftrightarrow> \<not> has_key e"
    by (auto simp: has_key_def e)
  then show ?thesis
    unfolding silc_idcache_add_def Let_def e [symmetric] dup by simp
qed

section \<open>Properties\<close>

text \<open>
  C20. Adding refines the map: the new entry is registered exactly when no registered entry has the
  same full identifier, in which case the new address is returned and the cache represents the map
  with the entry added; a duplicate is refused, and an entry without any key too, and the cache then
  represents the map it did. A new cache represents the empty map.
\<close>

theorem silc_idcache_add_refines:
  assumes "cache_rel cc m" and "m c = None" and "e = \<lparr>ce_id = ident, ce_name = name, ce_context = context\<rparr>"
  shows "\<exists>heap' cc' ret. silc_idcache_add heap (Some cc) c name ident context = (heap', Some cc', ret)
    \<and> (if has_key e \<and> (\<forall>r d. m r = Some d \<longrightarrow> ident = None \<or> ce_id d \<noteq> ident)
       then ret = Some c \<and> heap' = heap(c \<mapsto> e) \<and> cache_rel cc' (m(c \<mapsto> e))
       else ret = None \<and> (\<forall>r. r \<noteq> c \<longrightarrow> heap' r = heap r) \<and> cache_rel cc' m)"
  using cache_remove_missing [OF assms(1,2), of e] cache_insert_rel [OF assms(1,2), of e] assms(1)
  by (auto simp: add_eq [OF assms(1,3)])

text \<open>The cache of the witnesses: a new cache of clients, and a client.\<close>

definition demo_cache :: "nat silc_idcache" where
  "demo_cache = the (silc_idcache_alloc 0 SILC_ID_CLIENT (Some 7))"

lemma demo_cache_rel:
  "cache_rel demo_cache (\<lambda>_. None)" "ic_id_type demo_cache = SILC_ID_CLIENT" "ic_destructor demo_cache = Some 7"
  using alloc_rel [of 0 SILC_ID_CLIENT "Some (7 :: nat)"] by (auto simp: demo_cache_def)

definition demo_client :: "byte \<Rightarrow> silc_id" where
  "demo_client n = ClientID \<lparr>ip_data = [10, 0, 0, n] @ replicate 12 0, ip_data_len = 4\<rparr> 1 (replicate 11 9)"

definition demo_entry :: silc_idcache_entry where
  "demo_entry = \<lparr>ce_id = Some (demo_client 1), ce_name = Some [102, 111, 111], ce_context = Some 4096\<rparr>"

theorem silc_idcache_add_refines_witness:
  "\<exists>heap' cc'. silc_idcache_add Map.empty (Some demo_cache) 64 (Some [102, 111, 111]) (Some (demo_client 1)) (Some 4096) =
     (heap', Some cc', Some 64) \<and> cache_rel cc' [64 \<mapsto> demo_entry]"
  using silc_idcache_add_refines [OF demo_cache_rel(1) refl demo_entry_def, of Map.empty]
  by (simp add: has_key_def demo_entry_def) blast

text \<open>
  C21. Deleting a registered entry succeeds: the cache then represents the map without it, the entry
  is freed, and the cache's destructor has been called once, with the entry as it was.
\<close>

theorem silc_idcache_del_refines:
  assumes "cache_rel cc m" and "m r = Some e" and "heap r = Some e"
  shows "\<exists>cc'. silc_idcache_del heap (Some cc) r a =
      (heap(r := None), Some cc', True, (case ic_destructor cc of None \<Rightarrow> [] | Some d \<Rightarrow> [(d, e, a)]))
    \<and> cache_rel cc' (m(r := None))"
  using cache_remove_rel [OF assms(1,2)] assms(3)
  by (cases "cache_remove cc e r")
    (auto simp: silc_idcache_del_def silc_idcache_destructor_def cache_remove_eq split: option.splits)

lemma demo_cache_one: "cache_rel (cache_insert demo_cache demo_entry 64) [64 \<mapsto> demo_entry]"
  using cache_insert_rel [OF demo_cache_rel(1), where c = 64 and e = demo_entry] by (simp add: has_key_def demo_entry_def)

theorem silc_idcache_del_refines_witness:
  "\<exists>cc'. silc_idcache_del [64 \<mapsto> demo_entry] (Some (cache_insert demo_cache demo_entry 64)) 64 (None :: nat option) =
     (Map.empty, Some cc', True, [(7, demo_entry, None)]) \<and> cache_rel cc' Map.empty"
  using silc_idcache_del_refines [OF demo_cache_one, where r = 64 and e = demo_entry and heap = "[64 \<mapsto> demo_entry]" and a = "None :: nat option"]
  by (simp add: cache_insert_def demo_cache_rel)

text \<open>
  Updating a registered entry succeeds and refines the update of the map: the new identifier and
  the new name, each if given, replace the old ones, and the entry is found under them and no longer
  under the old ones. The cache's type is one of the three kinds of identifiers.
\<close>

theorem silc_idcache_update_refines:
  assumes "cache_rel cc m" and "m r = Some e" and "heap r = Some e"
    and "ic_id_type cc \<in> {SILC_ID_CLIENT, SILC_ID_SERVER, SILC_ID_CHANNEL}"
    and "e' = e\<lparr>ce_id := or_else i (ce_id e), ce_name := or_else n (ce_name e)\<rparr>"
  shows "\<exists>cc'. silc_idcache_update heap (Some cc) r i n = (heap(r \<mapsto> e'), Some cc', True)
    \<and> cache_rel cc' (m(r \<mapsto> e'))"
proof -
  let ?e = "e\<lparr>ce_id := or_else i (ce_id e)\<rparr>"
  have e: "e\<lparr>ce_id := ce_id e\<rparr> = e" "\<And>d :: silc_idcache_entry. d\<lparr>ce_name := ce_name d\<rparr> = d" by simp_all
  obtain c1 where c1: "(case i of None \<Rightarrow> (heap, cc, True) | Some i \<Rightarrow> update_id heap cc r i) =
      (heap(r \<mapsto> ?e), c1, True)" "cache_rel c1 (m(r \<mapsto> ?e))"
    using update_id_rel [of cc m r e heap] assms(1-4)
    by (cases i) (auto simp: or_else_def fun_upd_idem e)
  obtain c2 where "(case n of None \<Rightarrow> (heap(r \<mapsto> ?e), c1, True) | Some n \<Rightarrow> update_name (heap(r \<mapsto> ?e)) c1 r n) =
      (heap(r \<mapsto> e'), c2, True)" "cache_rel c2 (m(r \<mapsto> e'))"
    using update_name_rel [OF c1(2), of r ?e "heap(r \<mapsto> ?e)"] c1(2) assms(5)
    by (cases n) (auto simp: or_else_def)
  then show ?thesis using c1 by (simp add: silc_idcache_update_def)
qed

theorem silc_idcache_update_refines_witness:
  "\<exists>cc'. silc_idcache_update [64 \<mapsto> demo_entry] (Some (cache_insert demo_cache demo_entry 64)) 64
       (Some (demo_client 2)) None =
     ([64 \<mapsto> demo_entry\<lparr>ce_id := Some (demo_client 2)\<rparr>], Some cc', True)
   \<and> cache_rel cc' [64 \<mapsto> demo_entry\<lparr>ce_id := Some (demo_client 2)\<rparr>]"
  using silc_idcache_update_refines [OF demo_cache_one, where r = 64 and e = demo_entry and heap = "[64 \<mapsto> demo_entry]"
      and i = "Some (demo_client 2)" and n = None]
  by (simp add: cache_insert_def demo_cache_rel or_else_def)



text \<open>
  Moving an entry to another cache of the same type. When the entry is registered in the first
  cache under a context no other entry there has, and no entry of the second cache has its
  identifier, it is afterwards registered in the second cache and no longer in the first. When the
  identifier is already in the second cache, both caches stay as they are.
\<close>

theorem silc_idcache_move_refines:
  assumes "cache_rel fc mf" and "cache_rel tc mt" and "ic_id_type fc = ic_id_type tc"
    and "mf r = Some e" and "heap r = Some e" and "mt r = None" and "ce_context e = Some k"
    and "\<forall>s d. mf s = Some d \<and> ce_context d = Some k \<longrightarrow> s = r"
  shows "if ce_id e \<noteq> None \<and> (\<exists>s d. mt s = Some d \<and> ce_id d = ce_id e)
    then silc_idcache_move heap (Some fc) (Some tc) (Some r) = (Some fc, Some tc, False)
    else (\<exists>fc' tc'. silc_idcache_move heap (Some fc) (Some tc) (Some r) = (Some fc', Some tc', True)
            \<and> cache_rel fc' (mf(r := None)) \<and> cache_rel tc' (mt(r \<mapsto> e)))"
proof -
  note f = table_find_of [OF cache_relD(3) [OF assms(1)], of k]
  have "silc_hash_table_find (context_table fc) k \<noteq> None"
    unfolding f(2) using assms(4,7) by (auto simp: same_key_def)
  then have lookup: "move_lookup fc e = Some r"
    using f(1) assms(7,8) by (fastforce simp: move_lookup_def same_key_def)
  have dup: "(case ce_id e of None \<Rightarrow> False | Some i \<Rightarrow> silc_idcache_find_by_id_one (Some tc) i \<noteq> None) \<longleftrightarrow>
      ce_id e \<noteq> None \<and> (\<exists>s d. mt s = Some d \<and> ce_id d = ce_id e)"
    using find_by_id_one_rel(2) [OF assms(2)] by (auto split: option.splits)
  have "silc_idcache_move heap (Some fc) (Some tc) (Some r) =
      (if ce_id e \<noteq> None \<and> (\<exists>s d. mt s = Some d \<and> ce_id d = ce_id e) then (Some fc, Some tc, False)
       else (Some (fst (cache_remove fc e r)), Some (cache_insert tc e r), True))"
    unfolding silc_idcache_move_def using assms(3,5) lookup dup by simp
  then show ?thesis
    using cache_remove_rel(1) [OF assms(1,4)] cache_insert_rel [OF assms(2,6) cache_relD(4) [OF assms(1,4)]]
    by auto
qed

theorem silc_idcache_move_refines_witness:
  "\<exists>fc' tc'. silc_idcache_move [64 \<mapsto> demo_entry] (Some (cache_insert demo_cache demo_entry 64))
      (Some demo_cache) (Some 64) = (Some fc', Some tc', True)
    \<and> cache_rel fc' Map.empty \<and> cache_rel tc' [64 \<mapsto> demo_entry]"
  using silc_idcache_move_refines [OF demo_cache_one demo_cache_rel(1), where r = 64 and e = demo_entry
      and heap = "[64 \<mapsto> demo_entry]" and k = 4096]
  by (simp add: cache_insert_def demo_entry_def)

text \<open>
  Deleting a client by its identifier may delete another client: the table compares Client IDs
  by nickname hash only, and the oldest match is taken. With two clients of the same nickname added
  to an empty cache, deleting the second by its identifier frees the first, and the second is still
  found by its full identifier.
\<close>

theorem silc_idcache_del_by_id_other_client:
  assumes "cache_rel cc (\<lambda>_. None)" and "ic_id_type cc = SILC_ID_CLIENT"
    and "e1 = \<lparr>ce_id = Some i1, ce_name = n1, ce_context = c1\<rparr>"
    and "e2 = \<lparr>ce_id = Some i2, ce_name = n2, ce_context = c2\<rparr>"
    and "SILC_ID_COMPARE_HASH i1 i2" and "i1 \<noteq> i2" and "r1 \<noteq> r2"
  shows "\<exists>heap1 cc1 heap2 cc2 heap3 cc3 log.
      silc_idcache_add Map.empty (Some cc) r1 n1 (Some i1) c1 = (heap1, Some cc1, Some r1)
    \<and> silc_idcache_add heap1 (Some cc1) r2 n2 (Some i2) c2 = (heap2, Some cc2, Some r2)
    \<and> silc_idcache_del_by_id heap2 (Some cc2) i2 a = (heap3, Some cc3, True, log)
    \<and> heap3 r1 = None \<and> silc_idcache_find_by_id_one (Some cc3) i2 = Some r2"
proof -
  let ?m1 = "[r1 \<mapsto> e1]" and ?m2 = "[r1 \<mapsto> e1, r2 \<mapsto> e2]"
  let ?cc1 = "cache_insert cc e1 r1"
  let ?cc2 = "cache_insert ?cc1 e2 r2"
  have k: "has_key e1" "has_key e2" by (simp_all add: has_key_def assms(3,4))
  have rel1: "cache_rel ?cc1 ?m1" by (rule cache_insert_rel [OF assms(1) refl k(1)])
  have rel2: "cache_rel ?cc2 ?m2" by (rule cache_insert_rel [OF rel1 _ k(2)]) (use assms(7) in simp)
  have add1: "silc_idcache_add Map.empty (Some cc) r1 n1 (Some i1) c1 = (?m1, Some ?cc1, Some r1)"
    using k by (simp add: add_eq [OF assms(1,3)])
  have add2: "silc_idcache_add ?m1 (Some ?cc1) r2 n2 (Some i2) c2 = (?m2, Some ?cc2, Some r2)"
  proof -
    have "ce_id e1 = Some i1" by (simp add: assms(3))
    then show ?thesis using k(2) assms(6) by (simp add: add_eq [OF rel1 assms(4)])
  qed
  note inv = cache_relD(1) [OF assms(1), unfolded table_of_def, THEN conjunct1]
  have ctx: "SILC_32_TO_PTR (ic_id_type cc) = Some SILC_ID_CLIENT"
    by (simp add: assms(2) SILC_32_TO_PTR_def id_type_defs)
  have empty: "ht_chain (id_table cc) i2 = []"
    using indexesD(2) [OF cache_relD(1) [OF assms(1), unfolded table_of_def, THEN conjunct2]]
    by (auto simp: proj_def) (metis list.set_intros(1) neq_Nil_conv surj_pair)
  have "ht_chain (id_table ?cc2) i2 = [(i1, r1), (i2, r2)]"
    using ht.add_chain [OF inv] ht.add_chain [OF ht.add_inv [OF inv]] empty assms(5) id_compare_hash_equivp(1)
    by (simp add: cache_insert_def table_add_def assms(3,4) same_key_def ctx silc_hash_id_compare_def)
  then have find: "silc_hash_table_find (id_table ?cc2) i2 = Some (i1, r1)"
    using ht.find_chain [OF cache_relD(1) [OF rel2, unfolded table_of_def, THEN conjunct1], of i2] by simp
  let ?cc3 = "fst (cache_remove ?cc2 e1 r1)"
  have m2: "?m2 r1 = Some e1" using assms(7) by simp
  note rem = cache_remove_rel [OF rel2 m2]
  have "\<exists>log. silc_idcache_del_by_id ?m2 (Some ?cc2) i2 a = (?m2(r1 := None), Some ?cc3, True, log)"
    using find rem(2) m2
    by (auto simp: silc_idcache_del_by_id_def silc_idcache_del_def silc_idcache_destructor_def split: prod.splits)
  moreover have "silc_idcache_find_by_id_one (Some ?cc3) i2 = Some r2"
    using find_by_id_one_rel [OF rem(1), of i2] assms(4,7)
    by (cases "silc_idcache_find_by_id_one (Some ?cc3) i2") (auto split: if_splits)
  ultimately show ?thesis using add1 add2 by (metis fun_upd_same)
qed

theorem silc_idcache_del_by_id_other_client_witness:
  "\<exists>heap1 cc1 heap2 cc2 heap3 cc3 log.
      silc_idcache_add Map.empty (Some demo_cache) 64 None (Some (demo_client 1)) None = (heap1, Some cc1, Some 64)
    \<and> silc_idcache_add heap1 (Some cc1) 128 None (Some (demo_client 2)) None = (heap2, Some cc2, Some 128)
    \<and> silc_idcache_del_by_id heap2 (Some cc2) (demo_client 2) (None :: nat option) = (heap3, Some cc3, True, log)
    \<and> heap3 64 = None \<and> silc_idcache_find_by_id_one (Some cc3) (demo_client 2) = Some 128"
  by (rule silc_idcache_del_by_id_other_client [OF demo_cache_rel(1,2) refl refl])
    (simp_all add: demo_client_def)

end
