(* ===== verification/Silc_Mpbin.thy ===== *)
theory Silc_Mpbin
  imports Silc_Prelude
begin

text \<open>
  \<open>lib/silcmath/mpbin.c\<close>: multiple precision integers as big-endian byte strings, the form in
  which Diffie-Hellman values and keys are hashed and sent. A \<open>SilcMPInt\<close> is a natural number, and
  the operations of the number library the code calls are those of arithmetic: the size in base two
  is the number of binary digits, where zero has one; \<open>silc_mp_get_ui\<close> masked with 255 is the
  remainder by 256; \<open>silc_mp_div_2exp\<close> and \<open>silc_mp_mul_2exp\<close> shift.
\<close>

fun bin_digits :: "nat \<Rightarrow> nat" where
  "bin_digits v = (if v < 2 then 1 else Suc (bin_digits (v div 2)))"

declare bin_digits.simps [simp del]

definition silc_mp_sizeinbase2 :: "nat \<Rightarrow> nat" where
  "silc_mp_sizeinbase2 v = bin_digits v"

text \<open>The bytes are filled from the last to the first.\<close>

fun silc_mp_mp2bin_noalloc :: "nat \<Rightarrow> nat \<Rightarrow> bytes" where
  "silc_mp_mp2bin_noalloc v 0 = []"
| "silc_mp_mp2bin_noalloc v (Suc i) = silc_mp_mp2bin_noalloc (v div 256) i @ [of_nat (v mod 256)]"

definition silc_mp_mp2bin :: "nat \<Rightarrow> nat \<Rightarrow> bytes option" where
  "silc_mp_mp2bin v len =
     (let size = (if len \<noteq> 0 then len else (silc_mp_sizeinbase2 v + 7) div 8)
      in case silc_calloc size 1 of
           None \<Rightarrow> None
         | Some _ \<Rightarrow> Some (silc_mp_mp2bin_noalloc v size))"

definition silc_mp_bin2mp :: "bytes \<Rightarrow> nat" where
  "silc_mp_bin2mp data = foldl (\<lambda>r b. r * 256 + unat b) 0 data"

lemma length_mp2bin_noalloc [simp]: "length (silc_mp_mp2bin_noalloc v n) = n"
  by (induction v n rule: silc_mp_mp2bin_noalloc.induct) simp_all

lemma bin2mp_snoc [simp]: "silc_mp_bin2mp (d @ [b]) = silc_mp_bin2mp d * 256 + unat b"
  by (simp add: silc_mp_bin2mp_def)

lemma bin2mp_bound: "silc_mp_bin2mp d < 256 ^ length d"
proof (induction d rule: rev_induct)
  case (snoc b d)
  have "x * 256 + u < 256 * p" if "x < p" "u < 256" for x p u :: nat using that by linarith
  from this [OF snoc unat_byte_less] show ?case by simp
qed (simp add: silc_mp_bin2mp_def)

lemma unat_mod_byte: "unat (of_nat (v mod 256) :: byte) = v mod 256"
  by (simp add: unat_of_nat_byte)

lemma bin2mp_mp2bin: "v < 256 ^ n \<Longrightarrow> silc_mp_bin2mp (silc_mp_mp2bin_noalloc v n) = v"
proof (induction v n rule: silc_mp_mp2bin_noalloc.induct)
  case (2 v i)
  then have "v div 256 < 256 ^ i" by (simp add: less_mult_imp_div_less mult.commute)
  with 2 show ?case by (simp add: unat_mod_byte)
qed (simp add: silc_mp_bin2mp_def)

lemma mp2bin_bin2mp: "silc_mp_mp2bin_noalloc (silc_mp_bin2mp d) (length d) = d"
proof (induction d rule: rev_induct)
  case (snoc b d)
  then show ?case using unat_byte_less [of b] by simp
qed simp

lemma bin_digits_bounds: "v < 2 ^ bin_digits v" "0 < v \<Longrightarrow> 2 ^ (bin_digits v - 1) \<le> v" "0 < bin_digits v"
proof (induction v rule: bin_digits.induct)
  case (1 v)
  { case 1
    show ?case
    proof (cases "v < 2")
      case False
      with "1.IH"(1) have "v div 2 < 2 ^ bin_digits (v div 2)" by simp
      then have "v < 2 * 2 ^ bin_digits (v div 2)" by linarith
      then show ?thesis using False by (simp add: bin_digits.simps [of v])
    qed (simp add: bin_digits.simps [of v])
  next
    case 2
    show ?case
    proof (cases "v < 2")
      case False
      with "1.IH"(2,3) have ih: "2 ^ (bin_digits (v div 2) - 1) \<le> v div 2" and p: "0 < bin_digits (v div 2)" by simp_all
      then have "2 ^ bin_digits (v div 2) \<le> 2 * (v div 2)"
        by (metis mult_le_mono2 power_Suc Suc_diff_1)
      then show ?thesis using False by (simp add: bin_digits.simps [of v])
    qed (use 2 in \<open>simp add: bin_digits.simps [of v]\<close>)
  next
    case 3
    show ?case by (simp add: bin_digits.simps [of v])
  }
qed

text \<open>The bytes \<open>silc_mp_mp2bin\<close> takes when it chooses the size itself.\<close>

definition mp_size :: "nat \<Rightarrow> nat" where
  "mp_size v = (silc_mp_sizeinbase2 v + 7) div 8"

lemma mp_size_pos [simp]: "0 < mp_size v"
  using bin_digits_bounds(3) [of v] by (simp add: mp_size_def silc_mp_sizeinbase2_def)

lemma mp_size_fits: "v < 256 ^ mp_size v"
proof -
  have "v < 2 ^ bin_digits v" by (rule bin_digits_bounds(1))
  also have "\<dots> \<le> (2 :: nat) ^ (8 * mp_size v)"
    by (intro power_increasing) (simp_all add: mp_size_def silc_mp_sizeinbase2_def)
  also have "\<dots> = 256 ^ mp_size v" by (simp add: power_mult)
  finally show ?thesis .
qed

lemma mp_size_minimal:
  assumes "v < 256 ^ n" and "0 < n"
  shows "mp_size v \<le> n"
proof (cases "v = 0")
  case True
  then show ?thesis using assms(2) by (simp add: mp_size_def silc_mp_sizeinbase2_def bin_digits.simps)
next
  case False
  then have "2 ^ (bin_digits v - 1) \<le> v" using bin_digits_bounds(2) by blast
  also have "v < 2 ^ (8 * n)" using assms(1) by (simp add: power_mult)
  finally have "(2 :: nat) ^ (bin_digits v - 1) < 2 ^ (8 * n)" .
  then have "bin_digits v - 1 < 8 * n" using power_less_imp_less_exp by (metis one_less_numeral_iff semiring_norm(76))
  then show ?thesis by (simp add: mp_size_def silc_mp_sizeinbase2_def)
qed

lemma mp2bin_eq: "mp_size v < SILC_MAX_ALLOC \<Longrightarrow> silc_mp_mp2bin v 0 = Some (silc_mp_mp2bin_noalloc v (mp_size v))"
  using mp_size_pos [of v] by (simp add: silc_mp_mp2bin_def Let_def silc_calloc_def flip: mp_size_def)

text \<open>
  Numbers and byte strings: the encoding of a number with the size chosen by the library decodes
  to the number, no shorter byte string does, and for a given size decoding and encoding are inverse
  to each other on byte strings of this size and numbers that fit.
\<close>

theorem silc_mp_bin_roundtrip:
  assumes "mp_size v < SILC_MAX_ALLOC" and "w < 256 ^ n"
  shows "(\<exists>d. silc_mp_mp2bin v 0 = Some d \<and> silc_mp_bin2mp d = v
            \<and> (\<forall>d'. d' \<noteq> [] \<and> silc_mp_bin2mp d' = v \<longrightarrow> length d \<le> length d'))
    \<and> silc_mp_bin2mp (silc_mp_mp2bin_noalloc w n) = w
    \<and> silc_mp_mp2bin_noalloc (silc_mp_bin2mp e) (length e) = e"
  using mp2bin_eq [OF assms(1)] bin2mp_mp2bin [OF mp_size_fits] bin2mp_mp2bin [OF assms(2)]
    mp2bin_bin2mp [of e] mp_size_minimal bin2mp_bound
  by (auto simp flip: length_greater_0_conv)

theorem silc_mp_bin_roundtrip_witness:
  "\<exists>d. silc_mp_mp2bin 66051 0 = Some d \<and> silc_mp_bin2mp d = 66051 \<and> length d \<le> 3"
proof -
  have "silc_mp_bin2mp [1, 2, 3] = 66051" by (simp add: silc_mp_bin2mp_def)
  moreover have "mp_size 66051 < SILC_MAX_ALLOC"
    using mp_size_minimal [of 66051 3] by (simp add: SILC_MAX_ALLOC_def)
  ultimately show ?thesis
    using silc_mp_bin_roundtrip [of 66051 0 0] by fastforce
qed

end
