(* ===== verification/Silc_Ske_Payload.thy ===== *)
theory Silc_Ske_Payload
  imports Silc_Codec Silc_Mpbin
begin

text \<open>
  \<open>lib/silcske/payload.c\<close>: the two payloads of the SILC Key Exchange protocol. The Start Payload
  carries the proposals of algorithms, the Key Exchange Payload a public key, a Diffie-Hellman value
  and a signature. The result of a function is a status, or the buffer or payload it returns; on an
  error the code also stores the status in \<open>ske->status\<close>. Of the protocol object only its start
  payload is read here. Freeing has no effect on the model.
\<close>

section \<open>Data\<close>

datatype silc_ske_status =
    SILC_SKE_STATUS_OK | SILC_SKE_STATUS_ERROR | SILC_SKE_STATUS_BAD_PAYLOAD
  | SILC_SKE_STATUS_UNKNOWN_GROUP | SILC_SKE_STATUS_UNKNOWN_CIPHER | SILC_SKE_STATUS_UNKNOWN_PKCS
  | SILC_SKE_STATUS_UNKNOWN_HASH_FUNCTION | SILC_SKE_STATUS_UNKNOWN_HMAC
  | SILC_SKE_STATUS_UNSUPPORTED_PUBLIC_KEY | SILC_SKE_STATUS_INCORRECT_SIGNATURE
  | SILC_SKE_STATUS_BAD_VERSION | SILC_SKE_STATUS_INVALID_COOKIE
  | SILC_SKE_STATUS_PUBLIC_KEY_NOT_PROVIDED | SILC_SKE_STATUS_BAD_RESERVED_FIELD
  | SILC_SKE_STATUS_BAD_PAYLOAD_LENGTH | SILC_SKE_STATUS_SIGNATURE_ERROR
  | SILC_SKE_STATUS_OUT_OF_MEMORY | SILC_SKE_STATUS_TIMEOUT | SILC_SKE_STATUS_PROBE_TIMEOUT

definition SILC_SKE_COOKIE_LEN :: nat where "SILC_SKE_COOKIE_LEN = 16"

definition SILC_SKE_SP_FLAG_IV_INCLUDED :: byte where "SILC_SKE_SP_FLAG_IV_INCLUDED = 1"
definition SILC_SKE_SP_FLAG_PFS :: byte where "SILC_SKE_SP_FLAG_PFS = 2"
definition SILC_SKE_SP_FLAG_MUTUAL :: byte where "SILC_SKE_SP_FLAG_MUTUAL = 4"

definition SILC_SKE_PK_TYPE_SILC :: u16 where "SILC_SKE_PK_TYPE_SILC = 1"
definition SILC_SKE_PK_TYPE_SPKI :: u16 where "SILC_SKE_PK_TYPE_SPKI = 5"

record silc_ske_start_payload =
  sp_flags :: byte
  sp_len :: u16
  sp_cookie :: "bytes option"
  sp_cookie_len :: u16
  sp_version :: "bytes option"
  sp_version_len :: u16
  sp_ke_grp_len :: u16
  sp_ke_grp_list :: "bytes option"
  sp_pkcs_alg_len :: u16
  sp_pkcs_alg_list :: "bytes option"
  sp_enc_alg_len :: u16
  sp_enc_alg_list :: "bytes option"
  sp_hash_alg_len :: u16
  sp_hash_alg_list :: "bytes option"
  sp_hmac_alg_len :: u16
  sp_hmac_alg_list :: "bytes option"
  sp_comp_alg_len :: u16
  sp_comp_alg_list :: "bytes option"

record silc_ske_ke_payload =
  ke_pk_len :: u16
  ke_pk_data :: "bytes option"
  ke_pk_type :: u16
  ke_x :: nat
  ke_sign_len :: u16
  ke_sign_data :: "bytes option"

section \<open>Start Payload\<close>

text \<open>The parameters of the call that writes the payload: lengths and pointers of the structure.\<close>

definition start_params :: "silc_ske_start_payload \<Rightarrow> fmt_param list" where
  "start_params p =
     [FMT_CHAR 0, FMT_CHAR (sp_flags p), FMT_SHORT (sp_len p),
      FMT_NSTRING (sp_cookie p) (unat (sp_cookie_len p)),
      FMT_SHORT (sp_version_len p), FMT_NSTRING (sp_version p) (unat (sp_version_len p)),
      FMT_SHORT (sp_ke_grp_len p), FMT_NSTRING (sp_ke_grp_list p) (unat (sp_ke_grp_len p)),
      FMT_SHORT (sp_pkcs_alg_len p), FMT_NSTRING (sp_pkcs_alg_list p) (unat (sp_pkcs_alg_len p)),
      FMT_SHORT (sp_enc_alg_len p), FMT_NSTRING (sp_enc_alg_list p) (unat (sp_enc_alg_len p)),
      FMT_SHORT (sp_hash_alg_len p), FMT_NSTRING (sp_hash_alg_list p) (unat (sp_hash_alg_len p)),
      FMT_SHORT (sp_hmac_alg_len p), FMT_NSTRING (sp_hmac_alg_list p) (unat (sp_hmac_alg_len p)),
      FMT_SHORT (sp_comp_alg_len p), FMT_NSTRING (sp_comp_alg_list p) (unat (sp_comp_alg_len p))]"

definition silc_ske_payload_start_encode ::
    "junk \<Rightarrow> silc_ske_start_payload option \<Rightarrow> silc_ske_status + silc_buffer" where
  "silc_ske_payload_start_encode J payload =
     (case payload of
        None \<Rightarrow> Inl SILC_SKE_STATUS_ERROR
      | Some p \<Rightarrow>
          (case silc_buffer_alloc_size (unat (sp_len p)) of
             None \<Rightarrow> Inl SILC_SKE_STATUS_OUT_OF_MEMORY
           | Some buf \<Rightarrow>
               (let (buf, ret) = silc_buffer_format J buf (start_params p)
                in if ret = -1 then Inl SILC_SKE_STATUS_ERROR else Inr buf)))"

text \<open>The checks after the fields have been read; \<open>buffer_len\<close> is the length of the received data.\<close>

definition start_checks :: "byte \<Rightarrow> silc_ske_start_payload \<Rightarrow> nat \<Rightarrow> silc_ske_status + silc_ske_start_payload" where
  "start_checks tmp p buffer_len =
     (if tmp \<noteq> 0 then Inl SILC_SKE_STATUS_BAD_RESERVED_FIELD
      else if unat (sp_len p) \<noteq> buffer_len then Inl SILC_SKE_STATUS_BAD_PAYLOAD_LENGTH
      else if sp_cookie p = None \<or> sp_version_len p = 0 \<or> sp_ke_grp_len p = 0 \<or> sp_pkcs_alg_len p = 0
              \<or> sp_enc_alg_len p = 0 \<or> sp_hash_alg_len p = 0 \<or> sp_hmac_alg_len p = 0
      then Inl SILC_SKE_STATUS_BAD_PAYLOAD
      else if unat (sp_len p) \<noteq>
              4 + unat (sp_cookie_len p) + unat (sp_version_len p) + unat (sp_ke_grp_len p)
              + unat (sp_pkcs_alg_len p) + unat (sp_enc_alg_len p) + unat (sp_hash_alg_len p)
              + unat (sp_hmac_alg_len p) + unat (sp_comp_alg_len p) + 2 * 7
      then Inl SILC_SKE_STATUS_BAD_PAYLOAD
      else Inr p)"

definition start_fields :: "unf_param list" where
  "start_fields =
     [UNF_UI8_CHAR, UNF_UI8_CHAR, UNF_UI16_SHORT, UNF_DATA_ALLOC SILC_SKE_COOKIE_LEN,
      UNF_UI16_NSTRING_ALLOC, UNF_UI16_NSTRING_ALLOC, UNF_UI16_NSTRING_ALLOC, UNF_UI16_NSTRING_ALLOC,
      UNF_UI16_NSTRING_ALLOC, UNF_UI16_NSTRING_ALLOC, UNF_UI16_NSTRING_ALLOC]"

definition silc_ske_payload_start_decode :: "silc_buffer \<Rightarrow> silc_ske_status + silc_ske_start_payload" where
  "silc_ske_payload_start_decode buffer =
     with_unformat buffer start_fields (Inl SILC_SKE_STATUS_BAD_PAYLOAD) (\<lambda>buffer vs.
       case vs of
         [V8 tmp, V8 flags, V16 len, VPtr cookie, V16 version_len, VPtr version, V16 ke_grp_len, VPtr ke_grp_list,
          V16 pkcs_alg_len, VPtr pkcs_alg_list, V16 enc_alg_len, VPtr enc_alg_list, V16 hash_alg_len,
          VPtr hash_alg_list, V16 hmac_alg_len, VPtr hmac_alg_list, V16 comp_alg_len, VPtr comp_alg_list] \<Rightarrow>
           start_checks tmp
             \<lparr>sp_flags = flags, sp_len = len, sp_cookie = cookie, sp_cookie_len = of_nat SILC_SKE_COOKIE_LEN,
              sp_version = version, sp_version_len = version_len,
              sp_ke_grp_len = ke_grp_len, sp_ke_grp_list = ke_grp_list,
              sp_pkcs_alg_len = pkcs_alg_len, sp_pkcs_alg_list = pkcs_alg_list,
              sp_enc_alg_len = enc_alg_len, sp_enc_alg_list = enc_alg_list,
              sp_hash_alg_len = hash_alg_len, sp_hash_alg_list = hash_alg_list,
              sp_hmac_alg_len = hmac_alg_len, sp_hmac_alg_list = hmac_alg_list,
              sp_comp_alg_len = comp_alg_len, sp_comp_alg_list = comp_alg_list\<rparr>
             (silc_buffer_len buffer)
       | _ \<Rightarrow> Inl SILC_SKE_STATUS_ERROR)"

section \<open>Key Exchange Payload\<close>

definition flag_mutual :: "silc_ske_start_payload option \<Rightarrow> bool" where
  "flag_mutual start \<longleftrightarrow> (case start of None \<Rightarrow> False | Some p \<Rightarrow> sp_flags p AND SILC_SKE_SP_FLAG_MUTUAL \<noteq> 0)"

text \<open>A number whose bytes could not be allocated is outside the model: the code does not look at the result.\<close>

definition silc_ske_payload_ke_encode ::
    "junk \<Rightarrow> silc_ske_start_payload option \<Rightarrow> silc_ske_ke_payload option \<Rightarrow> silc_ske_status + silc_buffer" where
  "silc_ske_payload_ke_encode J start payload =
     (case payload of
        None \<Rightarrow> Inl SILC_SKE_STATUS_ERROR
      | Some p \<Rightarrow>
          if flag_mutual start \<and> ke_sign_data p = None then Inl SILC_SKE_STATUS_ERROR
          else
            (case silc_mp_mp2bin (ke_x p) 0 of
               None \<Rightarrow> Inl SILC_SKE_STATUS_OUT_OF_MEMORY
             | Some x_str \<Rightarrow>
                 (let x_len = length x_str
                  in case silc_buffer_alloc_size
                            (add32 (4 + unat (ke_pk_len p) + 2) (add32 x_len (2 + unat (ke_sign_len p)))) of
                       None \<Rightarrow> Inl SILC_SKE_STATUS_OUT_OF_MEMORY
                     | Some buf \<Rightarrow>
                         (let (buf, ret) = silc_buffer_format J buf
                                [FMT_SHORT (ke_pk_len p), FMT_SHORT (ke_pk_type p),
                                 FMT_NSTRING (ke_pk_data p) (unat (ke_pk_len p)),
                                 FMT_SHORT (of_nat x_len), FMT_NSTRING (Some x_str) x_len,
                                 FMT_SHORT (ke_sign_len p), FMT_NSTRING (ke_sign_data p) (unat (ke_sign_len p))]
                          in if ret = -1 then Inl SILC_SKE_STATUS_ERROR else Inr buf))))"

text \<open>The second half of the decoder, behind the public key's length and type.\<close>

definition ke_decode_rest ::
    "silc_ske_start_payload option \<Rightarrow> u16 \<Rightarrow> u16 \<Rightarrow> nat \<Rightarrow> silc_buffer \<Rightarrow> silc_ske_status + silc_ske_ke_payload" where
  "ke_decode_rest start pk_len pk_type len2 buffer =
     with_unformat buffer [UNF_DATA_ALLOC (unat pk_len), UNF_UI16_NSTRING_ALLOC, UNF_UI16_NSTRING_ALLOC]
       (Inl SILC_SKE_STATUS_BAD_PAYLOAD) (\<lambda>buffer vs.
       case vs of
         [VPtr pk_data, V16 x_len, VPtr x, V16 sign_len, VPtr sign_data] \<Rightarrow>
           (let tot_len = unat pk_len + 4 + (unat x_len + 2) + (unat sign_len + 2)
            in if unat x_len < 16 then Inl SILC_SKE_STATUS_BAD_PAYLOAD
               else if flag_mutual start \<and> (unat sign_len < 3 \<or> sign_data = None) then Inl SILC_SKE_STATUS_BAD_PAYLOAD
               else if tot_len \<noteq> len2 then Inl SILC_SKE_STATUS_BAD_PAYLOAD_LENGTH
               else Inr \<lparr>ke_pk_len = pk_len, ke_pk_data = pk_data, ke_pk_type = pk_type,
                         ke_x = silc_mp_bin2mp (case x of None \<Rightarrow> [] | Some d \<Rightarrow> d),
                         ke_sign_len = sign_len, ke_sign_data = sign_data\<rparr>)
       | _ \<Rightarrow> Inl SILC_SKE_STATUS_ERROR)"

text \<open>The buffer is left where the public key starts; it is part of the result.\<close>

definition silc_ske_payload_ke_decode ::
    "silc_ske_start_payload option \<Rightarrow> silc_buffer \<Rightarrow> silc_buffer \<times> (silc_ske_status + silc_ske_ke_payload)" where
  "silc_ske_payload_ke_decode start buffer =
     with_unformat buffer [UNF_UI16_SHORT, UNF_UI16_SHORT] (buffer, Inl SILC_SKE_STATUS_BAD_PAYLOAD) (\<lambda>buffer vs.
       case vs of
         [V16 pk_len, V16 pk_type] \<Rightarrow>
           (if start \<noteq> None \<and> ((pk_type < SILC_SKE_PK_TYPE_SILC \<or> SILC_SKE_PK_TYPE_SPKI < pk_type) \<or> pk_len = 0)
            then (buffer, Inl SILC_SKE_STATUS_BAD_PAYLOAD)
            else
              (let b = fst (silc_buffer_pull buffer 4)
               in (b, ke_decode_rest start pk_len pk_type (silc_buffer_len buffer) b)))
       | _ \<Rightarrow> (buffer, Inl SILC_SKE_STATUS_ERROR))"

section \<open>Wire format\<close>

text \<open>A field of the structure that stands for some data: its length, and a pointer that is NULL for no data.\<close>

definition field_ok :: "u16 \<Rightarrow> bytes option \<Rightarrow> bool" where
  "field_ok len ptr \<longleftrightarrow> (case ptr of None \<Rightarrow> len = 0 | Some d \<Rightarrow> d \<noteq> [] \<and> length d = unat len)"

definition ptr_bytes :: "bytes option \<Rightarrow> bytes" where
  "ptr_bytes ptr = (case ptr of None \<Rightarrow> [] | Some d \<Rightarrow> d)"

lemma field_ok_of: "length d < 65536 \<Longrightarrow> field_ok (of_nat (length d)) (if d = [] then None else Some d)"
  by (simp add: field_ok_def)

lemma field_okD:
  assumes "field_ok len ptr"
  shows "length (ptr_bytes ptr) = unat len" and "ptr = (if ptr_bytes ptr = [] then None else Some (ptr_bytes ptr))"
    and "of_nat (length (ptr_bytes ptr)) = len" and "length (ptr_bytes ptr) < 65536"
  using assms unat_u16_less [of len] by (auto simp: field_ok_def ptr_bytes_def split: option.splits)

lemma fmt_field: "field_ok len ptr \<Longrightarrow> fmt_bytes (FMT_NSTRING ptr (unat len)) = ptr_bytes ptr"
  "field_ok len ptr \<Longrightarrow> fmt_plain (FMT_NSTRING ptr (unat len))"
  by (auto simp: field_ok_def ptr_bytes_def split: option.splits)

lemma put_field: "field_ok len ptr \<Longrightarrow> SILC_PUT16_MSB len @ ptr_bytes ptr = field16 (ptr_bytes ptr)"
  by (simp add: field16_def field_okD(3))

definition start_total :: "silc_ske_start_payload \<Rightarrow> nat" where
  "start_total p =
     4 + unat (sp_cookie_len p) + unat (sp_version_len p) + unat (sp_ke_grp_len p)
     + unat (sp_pkcs_alg_len p) + unat (sp_enc_alg_len p) + unat (sp_hash_alg_len p)
     + unat (sp_hmac_alg_len p) + unat (sp_comp_alg_len p) + 2 * 7"

text \<open>Every pointer agrees with its length, and the cookie has its length.\<close>

definition start_raw :: "silc_ske_start_payload \<Rightarrow> bool" where
  "start_raw p \<longleftrightarrow>
     sp_cookie_len p = of_nat SILC_SKE_COOKIE_LEN \<and> field_ok (sp_cookie_len p) (sp_cookie p)
     \<and> field_ok (sp_version_len p) (sp_version p) \<and> field_ok (sp_ke_grp_len p) (sp_ke_grp_list p)
     \<and> field_ok (sp_pkcs_alg_len p) (sp_pkcs_alg_list p) \<and> field_ok (sp_enc_alg_len p) (sp_enc_alg_list p)
     \<and> field_ok (sp_hash_alg_len p) (sp_hash_alg_list p) \<and> field_ok (sp_hmac_alg_len p) (sp_hmac_alg_list p)
     \<and> field_ok (sp_comp_alg_len p) (sp_comp_alg_list p)"

text \<open>
  The start payloads of the protocol: in addition the mandatory lists are there, and the length
  field is the total length.
\<close>

definition start_ok :: "silc_ske_start_payload \<Rightarrow> bool" where
  "start_ok p \<longleftrightarrow>
     start_raw p
     \<and> sp_version_len p \<noteq> 0 \<and> sp_ke_grp_len p \<noteq> 0 \<and> sp_pkcs_alg_len p \<noteq> 0 \<and> sp_enc_alg_len p \<noteq> 0
     \<and> sp_hash_alg_len p \<noteq> 0 \<and> sp_hmac_alg_len p \<noteq> 0
     \<and> unat (sp_len p) = start_total p"

definition start_bytes :: "silc_ske_start_payload \<Rightarrow> bytes" where
  "start_bytes p =
     0 # sp_flags p # SILC_PUT16_MSB (sp_len p) @ ptr_bytes (sp_cookie p)
     @ field16 (ptr_bytes (sp_version p)) @ field16 (ptr_bytes (sp_ke_grp_list p))
     @ field16 (ptr_bytes (sp_pkcs_alg_list p)) @ field16 (ptr_bytes (sp_enc_alg_list p))
     @ field16 (ptr_bytes (sp_hash_alg_list p)) @ field16 (ptr_bytes (sp_hmac_alg_list p))
     @ field16 (ptr_bytes (sp_comp_alg_list p))"

lemma start_raw_fields:
  assumes "start_raw p"
  shows "field_ok (sp_cookie_len p) (sp_cookie p)" "field_ok (sp_version_len p) (sp_version p)"
    "field_ok (sp_ke_grp_len p) (sp_ke_grp_list p)" "field_ok (sp_pkcs_alg_len p) (sp_pkcs_alg_list p)"
    "field_ok (sp_enc_alg_len p) (sp_enc_alg_list p)" "field_ok (sp_hash_alg_len p) (sp_hash_alg_list p)"
    "field_ok (sp_hmac_alg_len p) (sp_hmac_alg_list p)" "field_ok (sp_comp_alg_len p) (sp_comp_alg_list p)"
    "sp_cookie_len p = of_nat SILC_SKE_COOKIE_LEN"
  using assms unfolding start_raw_def by blast+

lemma length_start_bytes: "start_raw p \<Longrightarrow> length (start_bytes p) = start_total p"
  by (simp add: start_bytes_def start_total_def start_raw_fields(1-8) [THEN field_okD(1)])

lemma start_encode_ok:
  assumes "start_ok p"
  shows "silc_ske_payload_start_encode J (Some p) = Inr (silc_buffer_set (start_bytes p))"
proof -
  have raw: "start_raw p" using assms by (simp add: start_ok_def)
  note f = start_raw_fields(1-8) [OF raw]
  have fmt: "fmt_all (start_params p) = start_bytes p"
    by (simp add: start_params_def start_bytes_def f [THEN fmt_field(1)] f [THEN put_field, symmetric]
        del: fmt_bytes.simps(2,7))
  have plain: "list_all fmt_plain (start_params p)"
    by (simp add: start_params_def f [THEN fmt_field(2)])
  have len: "length (start_bytes p) = unat (sp_len p)" using length_start_bytes [OF raw] assms by (simp add: start_ok_def)
  have small: "unat (sp_len p) < SILC_MAX_ALLOC" by (simp add: SILC_MAX_ALLOC_def)
  have "silc_buffer_format J \<lparr>sb_mem = replicate (unat (sp_len p)) 0, sb_data = 0, sb_tail = unat (sp_len p)\<rparr>
      (start_params p) = (silc_buffer_set (start_bytes p), int (unat (sp_len p)))"
    using format_alloc [OF small plain, of J] len by (simp only: fmt)
  then show ?thesis
    using small by (simp add: silc_ske_payload_start_encode_def alloc_size_Some del: of_nat_unat)
qed

text \<open>What the decoder reads, as a structure, and the converse.\<close>

definition start_vals :: "byte \<Rightarrow> silc_ske_start_payload \<Rightarrow> unf_val list" where
  "start_vals tmp p =
     [V8 tmp, V8 (sp_flags p), V16 (sp_len p), VPtr (sp_cookie p), V16 (sp_version_len p), VPtr (sp_version p),
      V16 (sp_ke_grp_len p), VPtr (sp_ke_grp_list p), V16 (sp_pkcs_alg_len p), VPtr (sp_pkcs_alg_list p),
      V16 (sp_enc_alg_len p), VPtr (sp_enc_alg_list p), V16 (sp_hash_alg_len p), VPtr (sp_hash_alg_list p),
      V16 (sp_hmac_alg_len p), VPtr (sp_hmac_alg_list p), V16 (sp_comp_alg_len p), VPtr (sp_comp_alg_list p)]"

lemma parse_field_ok:
  "field_ok len ptr \<Longrightarrow> parse_step UNF_UI16_NSTRING_ALLOC (field16 (ptr_bytes ptr) @ r) = Some ([V16 len, VPtr ptr], r)"
  using field_okD [of len ptr] parse_field16 [of "ptr_bytes ptr" r] by simp

lemma parse_field_ok_inv:
  assumes "parse_step UNF_UI16_NSTRING_ALLOC bs = Some (v, r)"
  obtains len ptr where "v = [V16 len, VPtr ptr]" "field_ok len ptr" "bs = field16 (ptr_bytes ptr) @ r"
proof -
  from parse_field16_inv [OF assms] obtain d where
    d: "v = [V16 (of_nat (length d)), VPtr (if d = [] then None else Some d)]" "bs = field16 d @ r" "length d < 65536" .
  then show ?thesis
    using that [of "of_nat (length d)" "if d = [] then None else Some d"] field_ok_of [OF d(3)]
    by (simp add: ptr_bytes_def split: if_splits)
qed

lemma start_parse:
  assumes "start_raw p"
  shows "parse_all start_fields (tmp # tl (start_bytes p) @ r) = Some (start_vals tmp p, r)"
proof -
  note f = start_raw_fields [OF assms]
  have c: "parse_step (UNF_DATA_ALLOC SILC_SKE_COOKIE_LEN) (ptr_bytes (sp_cookie p) @ t) = Some ([VPtr (sp_cookie p)], t)" for t
  proof -
    have "parse_step (UNF_DATA_ALLOC SILC_SKE_COOKIE_LEN) (ptr_bytes (sp_cookie p) @ t) =
        Some ([VPtr (opt_copy True (ptr_bytes (sp_cookie p)))], t)"
      by (rule parse_DATA_ALLOC) (use field_okD(1) [OF f(1)] f(9) in \<open>simp_all add: SILC_SKE_COOKIE_LEN_def u32_max_def\<close>)
    then show ?thesis using field_okD(2,4) [OF f(1)] by simp
  qed
  show ?thesis
    by (simp add: start_fields_def start_bytes_def start_vals_def c parse_UI8 parse_UI16 f(2-8) [THEN parse_field_ok]
        del: parse_step.simps)
qed

lemma start_parse_inv:
  assumes "parse_all start_fields bs = Some (vs, r)"
  obtains tmp p where "start_raw p" "vs = start_vals tmp p" "bs = tmp # tl (start_bytes p) @ r"
proof -
  have c: "\<exists>d. v = [VPtr (Some d)] \<and> bs = d @ r \<and> length d = SILC_SKE_COOKIE_LEN"
    if "parse_step (UNF_DATA_ALLOC SILC_SKE_COOKIE_LEN) bs = Some (v, r)" for bs v r
    using parse_DATA_ALLOC_inv [OF that] by (auto simp: SILC_SKE_COOKIE_LEN_def)
  obtain tmp flags len cookie l1 p1 l2 p2 l3 p3 l4 p4 l5 p5 l6 p6 l7 p7 where
    vs: "vs = [V8 tmp, V8 flags, V16 len, VPtr (Some cookie), V16 l1, VPtr p1, V16 l2, VPtr p2, V16 l3, VPtr p3,
      V16 l4, VPtr p4, V16 l5, VPtr p5, V16 l6, VPtr p6, V16 l7, VPtr p7]"
    and ok: "field_ok l1 p1" "field_ok l2 p2" "field_ok l3 p3" "field_ok l4 p4" "field_ok l5 p5" "field_ok l6 p6"
      "field_ok l7 p7" "length cookie = SILC_SKE_COOKIE_LEN"
    and bs: "bs = tmp # flags # SILC_PUT16_MSB len @ cookie @ field16 (ptr_bytes p1) @ field16 (ptr_bytes p2)
      @ field16 (ptr_bytes p3) @ field16 (ptr_bytes p4) @ field16 (ptr_bytes p5) @ field16 (ptr_bytes p6)
      @ field16 (ptr_bytes p7) @ r"
    using assms unfolding start_fields_def
    by (auto split: option.splits prod.splits elim!: parse_field_ok_inv dest!: parse_UI8_inv parse_UI16_inv c
        simp del: parse_step.simps)
  let ?p = "\<lparr>sp_flags = flags, sp_len = len, sp_cookie = Some cookie, sp_cookie_len = of_nat SILC_SKE_COOKIE_LEN,
    sp_version = p1, sp_version_len = l1, sp_ke_grp_len = l2, sp_ke_grp_list = p2, sp_pkcs_alg_len = l3,
    sp_pkcs_alg_list = p3, sp_enc_alg_len = l4, sp_enc_alg_list = p4, sp_hash_alg_len = l5, sp_hash_alg_list = p5,
    sp_hmac_alg_len = l6, sp_hmac_alg_list = p6, sp_comp_alg_len = l7, sp_comp_alg_list = p7\<rparr>"
  have "field_ok (of_nat SILC_SKE_COOKIE_LEN) (Some cookie)"
    using ok(8) by (auto simp: field_ok_def SILC_SKE_COOKIE_LEN_def)
  then show ?thesis
    using that [of ?p tmp] vs ok bs by (simp add: start_raw_def start_vals_def start_bytes_def ptr_bytes_def)
qed

lemma start_fields_plain: "list_all unf_plain start_fields"
  by (simp add: start_fields_def)

lemma start_decode_vals:
  assumes "wf_buffer sb" and "parse_all start_fields (sb_bytes sb) = Some (start_vals tmp q, r)" and "start_raw q"
  shows "silc_ske_payload_start_decode sb = start_checks tmp q (silc_buffer_len sb)"
  using start_raw_fields(9) [OF assms(3)]
  by (cases q) (simp add: silc_ske_payload_start_decode_def
      with_unformat_ok [OF assms(1) start_fields_plain assms(2)] start_vals_def)

lemma start_decode_iff:
  assumes wf: "wf_buffer sb"
  shows "silc_ske_payload_start_decode sb = Inr p \<longleftrightarrow> start_ok p \<and> sb_bytes sb = start_bytes p"
proof
  assume l: "silc_ske_payload_start_decode sb = Inr p"
  show "start_ok p \<and> sb_bytes sb = start_bytes p"
  proof (cases "parse_all start_fields (sb_bytes sb)")
    case None
    with l show ?thesis
      by (simp add: silc_ske_payload_start_decode_def with_unformat_fail [OF wf start_fields_plain])
  next
    case (Some vr)
    then obtain vs r where vr: "parse_all start_fields (sb_bytes sb) = Some (vs, r)" by (cases vr) auto
    then obtain tmp q where q: "start_raw q" "vs = start_vals tmp q" "sb_bytes sb = tmp # tl (start_bytes q) @ r"
      using start_parse_inv by blast
    have "start_checks tmp q (silc_buffer_len sb) = Inr p"
      using l start_decode_vals [OF wf vr [unfolded q(2)] q(1)] by simp
    then have p: "p = q" "tmp = 0" "unat (sp_len q) = silc_buffer_len sb" "start_ok q"
      using q(1) by (auto simp: start_checks_def start_ok_def start_total_def split: if_splits)
    moreover have "length (sb_bytes sb) = length (start_bytes q) + length r"
      using q(3) by (simp add: start_bytes_def)
    ultimately have "r = []"
      using length_sb_bytes [OF wf] length_start_bytes [OF q(1)] by (simp add: start_ok_def)
    with q(3) p show ?thesis by (simp add: start_bytes_def)
  qed
next
  assume r: "start_ok p \<and> sb_bytes sb = start_bytes p"
  then have raw: "start_raw p" and total: "unat (sp_len p) = start_total p" by (simp_all add: start_ok_def)
  have vr: "parse_all start_fields (sb_bytes sb) = Some (start_vals 0 p, [])"
    using start_parse [OF raw, of 0 "[]"] r by (simp add: start_bytes_def)
  have "silc_buffer_len sb = start_total p"
    using length_sb_bytes [OF wf] length_start_bytes [OF raw] r by simp
  moreover have "sp_cookie p \<noteq> None"
    using field_okD(1) [OF start_raw_fields(1) [OF raw]] start_raw_fields(9) [OF raw]
    by (auto simp: ptr_bytes_def SILC_SKE_COOKIE_LEN_def split: option.splits)
  ultimately have "start_checks 0 p (silc_buffer_len sb) = Inr p"
    using r total by (auto simp: start_checks_def start_ok_def start_total_def)
  then show "silc_ske_payload_start_decode sb = Inr p"
    using start_decode_vals [OF wf vr raw] by simp
qed

interpretation start_codec: canonical_codec
  "\<lambda>p. case silc_ske_payload_start_encode J (Some p) of Inl _ \<Rightarrow> None | Inr b \<Rightarrow> Some b"
  "\<lambda>bs. case silc_ske_payload_start_decode (silc_buffer_set bs) of Inl _ \<Rightarrow> None | Inr p \<Rightarrow> Some p"
  start_ok "\<lambda>p. p"
proof
  fix p
  assume ok: "start_ok p"
  have len: "length (start_bytes p) < u32_max"
    using ok length_start_bytes [of p] unat_u16_less [of "sp_len p"] by (simp add: start_ok_def u32_max_def)
  show "\<exists>b. (case silc_ske_payload_start_encode J (Some p) of Inl _ \<Rightarrow> None | Inr b \<Rightarrow> Some b) = Some b \<and> wf_buffer b"
    using len by (simp add: start_encode_ok [OF ok])
  fix b
  assume "(case silc_ske_payload_start_encode J (Some p) of Inl _ \<Rightarrow> None | Inr b \<Rightarrow> Some b) = Some b"
  then have "b = silc_buffer_set (start_bytes p)" by (simp add: start_encode_ok [OF ok])
  moreover have "silc_ske_payload_start_decode (silc_buffer_set (start_bytes p)) = Inr p"
    using ok len by (subst start_decode_iff) simp_all
  ultimately show "(case silc_ske_payload_start_decode (silc_buffer_set (sb_bytes b)) of
      Inl _ \<Rightarrow> None | Inr p \<Rightarrow> Some p) = Some p" by simp
next
  fix bs p
  assume "length bs < SILC_MAX_ALLOC"
    and p: "(case silc_ske_payload_start_decode (silc_buffer_set bs) of Inl _ \<Rightarrow> None | Inr p \<Rightarrow> Some p) = Some p"
  then have "wf_buffer (silc_buffer_set bs)" by (simp add: max_alloc_less_u32)
  with p have "start_ok p" "bs = start_bytes p"
    using start_decode_iff [of "silc_buffer_set bs" p] by (auto split: sum.splits)
  then show "\<exists>x b. start_ok x \<and> x = p
      \<and> (case silc_ske_payload_start_encode J (Some x) of Inl _ \<Rightarrow> None | Inr b \<Rightarrow> Some b) = Some b \<and> sb_bytes b = bs"
    by (simp add: start_encode_ok)
qed

section \<open>Wire format of the Key Exchange Payload\<close>

definition ke_bytes :: "silc_ske_ke_payload \<Rightarrow> bytes \<Rightarrow> bytes" where
  "ke_bytes p x =
     SILC_PUT16_MSB (ke_pk_len p) @ SILC_PUT16_MSB (ke_pk_type p) @ ptr_bytes (ke_pk_data p)
     @ field16 x @ field16 (ptr_bytes (ke_sign_data p))"

text \<open>
  The payloads the decoder accepts: pointers agree with lengths, and when the protocol runs (there
  is a start payload) the public key is there and of a known type, and signed if both parties have
  to authenticate.
\<close>

definition ke_ok :: "silc_ske_start_payload option \<Rightarrow> silc_ske_ke_payload \<Rightarrow> bool" where
  "ke_ok start p \<longleftrightarrow>
     field_ok (ke_pk_len p) (ke_pk_data p) \<and> field_ok (ke_sign_len p) (ke_sign_data p)
     \<and> (start \<noteq> None \<longrightarrow> ke_pk_type p \<noteq> 0 \<and> ke_pk_type p \<le> 5 \<and> ke_pk_len p \<noteq> 0)
     \<and> (flag_mutual start \<longrightarrow> 3 \<le> unat (ke_sign_len p))"

lemma ke_rest_parse:
  assumes "field_ok pk_len pk" and "length x < 65536" and "x \<noteq> []" and "field_ok sign_len sign"
  shows "parse_all [UNF_DATA_ALLOC (unat pk_len), UNF_UI16_NSTRING_ALLOC, UNF_UI16_NSTRING_ALLOC]
      (ptr_bytes pk @ field16 x @ field16 (ptr_bytes sign) @ r) =
    Some ([VPtr pk, V16 (of_nat (length x)), VPtr (Some x), V16 sign_len, VPtr sign], r)"
proof -
  have "parse_step (UNF_DATA_ALLOC (unat pk_len)) (ptr_bytes pk @ t) = Some ([VPtr pk], t)" for t
    using parse_DATA_ALLOC [of "unat pk_len" "ptr_bytes pk" t] field_okD [OF assms(1)] unat_u16_less [of pk_len]
    by (simp add: u32_max_def del: unat_u16_less parse_step.simps)
  then show ?thesis
    using assms by (simp add: parse_field16 parse_field_ok [OF assms(4)] del: parse_step.simps)
qed

lemma ke_decode_bytes:
  assumes wf: "wf_buffer sb" and b: "sb_bytes sb = ke_bytes p x" and ok: "ke_ok start p"
    and x: "16 \<le> length x" "length x < 65536" "silc_mp_bin2mp x = ke_x p"
  shows "snd (silc_ske_payload_ke_decode start sb) = Inr p"
proof -
  have f: "field_ok (ke_pk_len p) (ke_pk_data p)" "field_ok (ke_sign_len p) (ke_sign_data p)"
    using ok by (simp_all add: ke_ok_def)
  have len: "silc_buffer_len sb = 8 + unat (ke_pk_len p) + length x + unat (ke_sign_len p)"
    using length_sb_bytes [OF wf] by (simp add: b ke_bytes_def f [THEN field_okD(1)])
  have h: "parse_all [UNF_UI16_SHORT, UNF_UI16_SHORT] (sb_bytes sb) =
      Some ([V16 (ke_pk_len p), V16 (ke_pk_type p)], drop 4 (ke_bytes p x))"
    by (simp add: b ke_bytes_def parse_UI16 del: parse_step.simps)
  let ?b = "adv sb 4"
  have pull: "fst (silc_buffer_pull sb 4) = ?b" using len by (simp add: pull_ok adv_def)
  have wfb: "wf_buffer ?b" and bb: "sb_bytes ?b = drop 4 (ke_bytes p x)"
    using wf len b by (simp_all add: wf_adv sb_bytes_adv)
  have d4: "drop 4 (ke_bytes p x) = ptr_bytes (ke_pk_data p) @ field16 x @ field16 (ptr_bytes (ke_sign_data p)) @ []"
    by (simp add: ke_bytes_def)
  have ne: "x \<noteq> []" using x(1) by auto
  note r = ke_rest_parse [OF f(1) x(2) ne f(2), of "[]"]
  have "ke_sign_data p \<noteq> None" if "flag_mutual start"
    using ok that f(2) by (auto simp: ke_ok_def field_ok_def split: option.splits)
  then have "ke_decode_rest start (ke_pk_len p) (ke_pk_type p) (silc_buffer_len sb) ?b = Inr p"
    using ok x len
    by (auto simp: ke_decode_rest_def with_unformat_ok [OF wfb _ r [folded d4 bb]] ke_ok_def Let_def not_less)
  moreover have "\<not> (start \<noteq> None \<and> ((ke_pk_type p < 1 \<or> 5 < ke_pk_type p) \<or> ke_pk_len p = 0))"
    using ok by (auto simp: ke_ok_def)
  ultimately show ?thesis
    by (simp add: silc_ske_payload_ke_decode_def with_unformat_ok [OF wf _ h] SILC_SKE_PK_TYPE_SILC_def
        SILC_SKE_PK_TYPE_SPKI_def pull Let_def del: parse_all.simps)
qed

lemma ke_rest_parse_inv:
  assumes "parse_all [UNF_DATA_ALLOC (unat pk_len), UNF_UI16_NSTRING_ALLOC, UNF_UI16_NSTRING_ALLOC] bs = Some (vs, r)"
  obtains pk x_len xp sign_len sign where "field_ok pk_len pk" "field_ok x_len xp" "field_ok sign_len sign"
    "vs = [VPtr pk, V16 x_len, VPtr xp, V16 sign_len, VPtr sign]"
    "bs = ptr_bytes pk @ field16 (ptr_bytes xp) @ field16 (ptr_bytes sign) @ r"
proof -
  have c: "\<exists>pk. v = [VPtr pk] \<and> field_ok pk_len pk \<and> bs = ptr_bytes pk @ t"
    if p: "parse_step (UNF_DATA_ALLOC (unat pk_len)) bs = Some (v, t)" for bs v t
  proof -
    from parse_DATA_ALLOC_inv [OF p] obtain d where d: "v = [VPtr (opt_copy True d)]" "bs = d @ t" "length d = unat pk_len"
      by blast
    have l: "length d < 65536" using d(3) by simp
    then have "of_nat (length d) = pk_len" using d(3) by simp
    then show ?thesis
      using d l field_ok_of [OF l] by (intro exI [of _ "if d = [] then None else Some d"]) (auto simp: ptr_bytes_def)
  qed
  show ?thesis
    using assms
    by (auto split: option.splits prod.splits elim!: parse_field_ok_inv dest!: c intro: that
        simp del: parse_step.simps)
qed

lemma ke_decode_inv:
  assumes wf: "wf_buffer sb" and dec: "snd (silc_ske_payload_ke_decode start sb) = Inr p"
  obtains x where "ke_ok start p" "16 \<le> length x" "length x < 65536" "silc_mp_bin2mp x = ke_x p"
    "sb_bytes sb = ke_bytes p x"
proof -
  obtain vs r where h: "parse_all [UNF_UI16_SHORT, UNF_UI16_SHORT] (sb_bytes sb) = Some (vs, r)"
    using dec
    by (cases "parse_all [UNF_UI16_SHORT, UNF_UI16_SHORT] (sb_bytes sb)")
      (auto simp: silc_ske_payload_ke_decode_def with_unformat_fail [OF wf] simp del: parse_all.simps)
  then obtain pk_len pk_type where vs: "vs = [V16 pk_len, V16 pk_type]"
    and b: "sb_bytes sb = SILC_PUT16_MSB pk_len @ SILC_PUT16_MSB pk_type @ r"
    by (auto split: option.splits prod.splits dest!: parse_UI16_inv simp del: parse_step.simps)
  let ?b = "adv sb 4"
  have len: "silc_buffer_len sb = 4 + length r" using length_sb_bytes [OF wf] by (simp add: b)
  have pull: "fst (silc_buffer_pull sb 4) = ?b" using len by (simp add: pull_ok adv_def)
  have wfb: "wf_buffer ?b" and bb: "sb_bytes ?b = r"
    using wf len b by (simp_all add: wf_adv sb_bytes_adv)
  have g: "start \<noteq> None \<longrightarrow> pk_type \<noteq> 0 \<and> pk_type \<le> 5 \<and> pk_len \<noteq> 0"
    and rest: "ke_decode_rest start pk_len pk_type (silc_buffer_len sb) ?b = Inr p"
    using dec
    by (auto simp: silc_ske_payload_ke_decode_def with_unformat_ok [OF wf _ h] vs pull Let_def SILC_SKE_PK_TYPE_SILC_def
        SILC_SKE_PK_TYPE_SPKI_def not_less simp del: parse_all.simps split: if_splits)
  let ?ps = "[UNF_DATA_ALLOC (unat pk_len), UNF_UI16_NSTRING_ALLOC, UNF_UI16_NSTRING_ALLOC]"
  obtain ws t where w: "parse_all ?ps (sb_bytes ?b) = Some (ws, t)"
    using rest
    by (cases "parse_all ?ps (sb_bytes ?b)")
      (auto simp: ke_decode_rest_def with_unformat_fail [OF wfb] simp del: parse_all.simps)
  from ke_rest_parse_inv [OF w] obtain pk x_len xp sign_len sign where
    f: "field_ok pk_len pk" "field_ok x_len xp" "field_ok sign_len sign"
    and ws: "ws = [VPtr pk, V16 x_len, VPtr xp, V16 sign_len, VPtr sign]"
    and r: "r = ptr_bytes pk @ field16 (ptr_bytes xp) @ field16 (ptr_bytes sign) @ t"
    unfolding bb by blast
  have res: "16 \<le> unat x_len" "flag_mutual start \<longrightarrow> 3 \<le> unat sign_len"
    "unat pk_len + 4 + (unat x_len + 2) + (unat sign_len + 2) = silc_buffer_len sb"
    "p = \<lparr>ke_pk_len = pk_len, ke_pk_data = pk, ke_pk_type = pk_type, ke_x = silc_mp_bin2mp (ptr_bytes xp),
       ke_sign_len = sign_len, ke_sign_data = sign\<rparr>"
    using rest
    by (auto simp: ke_decode_rest_def with_unformat_ok [OF wfb _ w] ws Let_def ptr_bytes_def not_less simp del: parse_all.simps split: if_splits)
  then have t: "t = []" using len by (simp add: r f [THEN field_okD(1)])
  show ?thesis
  proof (rule that)
    show "ke_ok start p" using f(1,3) g res(2) by (simp add: res(4) ke_ok_def)
    show "16 \<le> length (ptr_bytes xp)" using res(1) field_okD(1) [OF f(2)] by simp
    show "length (ptr_bytes xp) < 65536" by (rule field_okD(4) [OF f(2)])
    show "silc_mp_bin2mp (ptr_bytes xp) = ke_x p" by (simp add: res(4))
    show "sb_bytes sb = ke_bytes p (ptr_bytes xp)" by (simp add: b r t res(4) ke_bytes_def)
  qed
qed

lemma ke_encode_ok:
  assumes ok: "ke_ok start p" and x: "mp_size (ke_x p) < 65536"
  shows "silc_ske_payload_ke_encode J start (Some p) =
    Inr (silc_buffer_set (ke_bytes p (silc_mp_mp2bin_noalloc (ke_x p) (mp_size (ke_x p)))))"
proof -
  define X where "X = silc_mp_mp2bin_noalloc (ke_x p) (mp_size (ke_x p))"
  have lX: "length X < 65536" using x by (simp add: X_def)
  have f: "field_ok (ke_pk_len p) (ke_pk_data p)" "field_ok (ke_sign_len p) (ke_sign_data p)"
    using ok by (simp_all add: ke_ok_def)
  let ?ps = "[FMT_SHORT (ke_pk_len p), FMT_SHORT (ke_pk_type p), FMT_NSTRING (ke_pk_data p) (unat (ke_pk_len p)),
     FMT_SHORT (of_nat (length X)), FMT_NSTRING (Some X) (length X),
     FMT_SHORT (ke_sign_len p), FMT_NSTRING (ke_sign_data p) (unat (ke_sign_len p))]"
  define n where "n = 8 + unat (ke_pk_len p) + length X + unat (ke_sign_len p)"
  have fmt: "fmt_all ?ps = ke_bytes p X"
    by (simp add: ke_bytes_def field16_def f [THEN fmt_field(1)] field_okD(3) [OF f(2)] del: fmt_bytes.simps(2,7))
      simp
  have plain: "list_all fmt_plain ?ps" by (simp add: f [THEN fmt_field(2)])
  have b16: "unat (ke_pk_len p) < 65536" "unat (ke_sign_len p) < 65536" by (rule unat_u16_less)+
  have small: "n < SILC_MAX_ALLOC" unfolding SILC_MAX_ALLOC_def n_def using lX b16 by linarith
  have len: "length (ke_bytes p X) = n" by (simp add: n_def ke_bytes_def f [THEN field_okD(1)])
  have total: "add32 (4 + unat (ke_pk_len p) + 2) (add32 (length X) (2 + unat (ke_sign_len p))) = n"
  proof -
    have i: "add32 (length X) (2 + unat (ke_sign_len p)) = length X + (2 + unat (ke_sign_len p))"
      by (rule add32_exact) (unfold u32_max_def, use lX b16 in linarith)
    have o: "add32 (4 + unat (ke_pk_len p) + 2) (length X + (2 + unat (ke_sign_len p))) =
        4 + unat (ke_pk_len p) + 2 + (length X + (2 + unat (ke_sign_len p)))"
      by (rule add32_exact) (unfold u32_max_def, use lX b16 in linarith)
    show ?thesis unfolding i o n_def by simp
  qed
  have "silc_mp_mp2bin (ke_x p) 0 = Some X" unfolding X_def
    using x by (intro mp2bin_eq) (simp add: SILC_MAX_ALLOC_def)
  moreover have "silc_buffer_format J \<lparr>sb_mem = replicate n 0, sb_data = 0, sb_tail = n\<rparr> ?ps =
      (silc_buffer_set (ke_bytes p X), int n)"
    using format_alloc [OF small plain, of J] len by (simp only: fmt)
  moreover have "\<not> (flag_mutual start \<and> ke_sign_data p = None)"
    using ok f(2) by (auto simp: ke_ok_def field_ok_def split: option.splits)
  ultimately show ?thesis
    unfolding silc_ske_payload_ke_encode_def X_def [symmetric]
    using small by (simp only: option.case Let_def total alloc_size_Some [OF small] prod.case if_False) simp
qed

section \<open>Properties\<close>

text \<open>
  C36. The Start Payload: received data is accepted exactly when it is the encoding of a well-formed
  start payload, and the result is this payload; encoding it again gives the received data. In
  particular nothing is accepted with a wrong length, a set reserved field, trailing bytes or a
  missing mandatory list.
\<close>

theorem silc_ske_payload_start_decode_iff:
  assumes "wf_buffer sb"
  shows "(silc_ske_payload_start_decode sb = Inr p \<longleftrightarrow> start_ok p \<and> sb_bytes sb = start_bytes p)
    \<and> (silc_ske_payload_start_decode sb = Inr p \<longrightarrow>
         (\<exists>b. silc_ske_payload_start_encode J (Some p) = Inr b \<and> sb_bytes b = sb_bytes sb))"
  using start_decode_iff [OF assms, of p] start_encode_ok [of p J] by auto

definition demo_start :: silc_ske_start_payload where
  "demo_start =
     \<lparr>sp_flags = 4, sp_len = 40, sp_cookie = Some (replicate 16 7), sp_cookie_len = 16,
      sp_version = Some [1], sp_version_len = 1, sp_ke_grp_len = 1, sp_ke_grp_list = Some [2],
      sp_pkcs_alg_len = 1, sp_pkcs_alg_list = Some [3], sp_enc_alg_len = 1, sp_enc_alg_list = Some [4],
      sp_hash_alg_len = 1, sp_hash_alg_list = Some [5], sp_hmac_alg_len = 1, sp_hmac_alg_list = Some [6],
      sp_comp_alg_len = 0, sp_comp_alg_list = None\<rparr>"

lemma demo_start_ok: "start_ok demo_start"
  by (simp add: start_ok_def start_raw_def start_total_def demo_start_def field_ok_def SILC_SKE_COOKIE_LEN_def)

theorem silc_ske_payload_start_decode_iff_witness:
  "silc_ske_payload_start_decode (silc_buffer_set (start_bytes demo_start)) = Inr demo_start"
proof -
  have "wf_buffer (silc_buffer_set (start_bytes demo_start))"
    using demo_start_ok length_start_bytes [of demo_start] unat_u16_less [of "sp_len demo_start"]
    by (simp add: start_ok_def u32_max_def)
  then show ?thesis
    using silc_ske_payload_start_decode_iff [of "silc_buffer_set (start_bytes demo_start)" demo_start] demo_start_ok
    by simp
qed

text \<open>
  The Key Exchange Payload: received data is accepted exactly when it is a well-formed payload
  with a Diffie-Hellman value of at least sixteen bytes and nothing behind it. What the encoder
  writes for a well-formed payload is decoded to that payload, if the value has sixteen bytes.
\<close>

theorem silc_ske_payload_ke_decode_iff:
  assumes "wf_buffer sb" and "ke_ok start q" and "256 ^ 15 \<le> ke_x q" and "mp_size (ke_x q) < 65536"
  shows "(snd (silc_ske_payload_ke_decode start sb) = Inr p \<longleftrightarrow>
      (\<exists>x. ke_ok start p \<and> 16 \<le> length x \<and> length x < 65536 \<and> silc_mp_bin2mp x = ke_x p
         \<and> sb_bytes sb = ke_bytes p x))
    \<and> (\<exists>b. silc_ske_payload_ke_encode J start (Some q) = Inr b \<and> wf_buffer b
         \<and> snd (silc_ske_payload_ke_decode start b) = Inr q)"
proof -
  define X where "X = silc_mp_mp2bin_noalloc (ke_x q) (mp_size (ke_x q))"
  have "\<not> mp_size (ke_x q) \<le> 15"
  proof
    assume "mp_size (ke_x q) \<le> 15"
    then have "(256 :: nat) ^ mp_size (ke_x q) \<le> 256 ^ 15" by (intro power_increasing) simp_all
    then show False using mp_size_fits [of "ke_x q"] assms(3) by linarith
  qed
  then have X: "16 \<le> length X" "length X < 65536" "silc_mp_bin2mp X = ke_x q"
    using assms(4) bin2mp_mp2bin [OF mp_size_fits] by (simp_all add: X_def)
  have f: "field_ok (ke_pk_len q) (ke_pk_data q)" "field_ok (ke_sign_len q) (ke_sign_data q)"
    using assms(2) by (simp_all add: ke_ok_def)
  have "length (ke_bytes q X) < u32_max"
    using X(2) f [THEN field_okD(4)] by (simp add: ke_bytes_def u32_max_def)
  then have wf: "wf_buffer (silc_buffer_set (ke_bytes q X))" by simp
  have "snd (silc_ske_payload_ke_decode start (silc_buffer_set (ke_bytes q X))) = Inr q"
    by (rule ke_decode_bytes [OF wf _ assms(2) X]) simp
  then have enc: "\<exists>b. silc_ske_payload_ke_encode J start (Some q) = Inr b \<and> wf_buffer b
      \<and> snd (silc_ske_payload_ke_decode start b) = Inr q"
    using ke_encode_ok [OF assms(2,4), of J, folded X_def] wf by blast
  have "snd (silc_ske_payload_ke_decode start sb) = Inr p \<longleftrightarrow>
      (\<exists>x. ke_ok start p \<and> 16 \<le> length x \<and> length x < 65536 \<and> silc_mp_bin2mp x = ke_x p
         \<and> sb_bytes sb = ke_bytes p x)"
    using ke_decode_inv [OF assms(1), of start p] ke_decode_bytes [OF assms(1), of p _ start] by metis
  with enc show ?thesis by (rule conjI [rotated])
qed

definition demo_ke :: silc_ske_ke_payload where
  "demo_ke = \<lparr>ke_pk_len = 2, ke_pk_data = Some [1, 2], ke_pk_type = 1, ke_x = 256 ^ 15,
     ke_sign_len = 3, ke_sign_data = Some [7, 8, 9]\<rparr>"

theorem silc_ske_payload_ke_decode_iff_witness:
  "\<exists>b. silc_ske_payload_ke_encode (\<lambda>_. 0) (Some demo_start) (Some demo_ke) = Inr b
     \<and> snd (silc_ske_payload_ke_decode (Some demo_start) b) = Inr demo_ke"
proof -
  have ok: "ke_ok (Some demo_start) demo_ke" by (simp add: ke_ok_def field_ok_def demo_ke_def)
  have x: "256 ^ 15 \<le> ke_x demo_ke" by (simp add: demo_ke_def)
  have size: "mp_size (ke_x demo_ke) < 65536" using mp_size_minimal [of "256 ^ 15" 16] by (simp add: demo_ke_def)
  have wf: "wf_buffer (silc_buffer_set [])" by (simp add: u32_max_def)
  show ?thesis using silc_ske_payload_ke_decode_iff [OF wf ok x size, of demo_ke "\<lambda>_. 0"] by blast
qed

end
