(* ===== verification/Silc_Ske_Keys.thy ===== *)
theory Silc_Ske_Keys
  imports Silc_Ske_Payload
begin

text \<open>
  \<open>lib/silcske/silcske.c\<close>, the key derivation of the key exchange: the hash of the exchange that
  the parties sign, and the session keys made from the key material. The hash function of the
  negotiation is an argument \<open>H\<close>; \<open>silc_hash_make\<close> stores its result in a zeroed array of
  \<open>SILC_HASH_MAXLEN\<close> bytes, of which the requested number of bytes is used.
\<close>

section \<open>Model\<close>

type_synonym hash_alg = "bytes \<Rightarrow> bytes"

definition SILC_HASH_MAXLEN :: nat where "SILC_HASH_MAXLEN = 64"

definition silc_hash_array :: "hash_alg \<Rightarrow> bytes \<Rightarrow> bytes" where
  "silc_hash_array H d = H d @ replicate (SILC_HASH_MAXLEN - length (H d)) 0"

record silc_ske_key_material =
  km_send_iv :: bytes
  km_receive_iv :: bytes
  km_iv_len :: nat
  km_send_enc_key :: bytes
  km_receive_enc_key :: bytes
  km_enc_key_len :: nat
  km_send_hmac_key :: bytes
  km_receive_hmac_key :: bytes
  km_hmac_key_len :: nat

text \<open>\<open>buf->data[0] = i\<close>, and \<open>silc_hash_make\<close> on the data of the buffer.\<close>

definition set_first :: "byte \<Rightarrow> silc_buffer \<Rightarrow> silc_buffer" where
  "set_first i sb = sb\<lparr>sb_mem := (sb_mem sb)[sb_data sb := i]\<rparr>"

definition hash_round :: "hash_alg \<Rightarrow> byte \<Rightarrow> silc_buffer \<Rightarrow> bytes" where
  "hash_round H i buf = silc_hash_array H (sb_bytes (set_first i buf))"

text \<open>
  The keys for encryption, one for sending and one for receiving: the code has the same lines
  twice. A key longer than the hash is distributed over three rounds.
\<close>

definition enc_key_material ::
    "junk \<Rightarrow> hash_alg \<Rightarrow> byte \<Rightarrow> bytes \<Rightarrow> nat \<Rightarrow> nat \<Rightarrow> silc_buffer \<Rightarrow> bytes option" where
  "enc_key_material J H i data hash_len enc_key_len buf =
     (if hash_len < enc_key_len then
        (if 3 * hash_len mod u32_max < enc_key_len then None
         else
           (let k1 = hash_round H i buf
            in case silc_buffer_alloc_size (add32 (length data) hash_len) of
                 None \<Rightarrow> None
               | Some dist \<Rightarrow>
                   (let dist = fst (silc_buffer_format J dist
                                [FMT_NSTRING (Some data) (length data), FMT_NSTRING (Some k1) hash_len]);
                        k2 = silc_hash_array H (sb_bytes dist);
                        dist = the (silc_buffer_realloc J (Some dist) (add32 (length data) (add32 hash_len hash_len)));
                        dist = fst (silc_buffer_pull_tail dist hash_len);
                        dist = fst (silc_buffer_pull dist (add32 (length data) hash_len));
                        dist = fst (silc_buffer_format J dist [FMT_NSTRING (Some k2) hash_len]);
                        dist = fst (silc_buffer_push dist (add32 (length data) hash_len));
                        k3 = silc_hash_array H (sb_bytes dist)
                    in if silc_calloc (3 * hash_len mod u32_max) 1 = None \<or> silc_calloc enc_key_len 1 = None then None
                       else Some (take enc_key_len (take hash_len k1 @ take hash_len k2 @ take hash_len k3)))))
      else if silc_calloc enc_key_len 1 = None then None
      else Some (take enc_key_len (hash_round H i buf)))"

definition silc_ske_process_key_material_data ::
    "junk \<Rightarrow> bytes \<Rightarrow> nat \<Rightarrow> nat \<Rightarrow> nat \<Rightarrow> hash_alg \<Rightarrow> silc_ske_key_material option" where
  "silc_ske_process_key_material_data J data req_iv_len req_enc_key_len req_hmac_key_len H =
     (let hash_len = req_hmac_key_len; enc_key_len = req_enc_key_len div 8
      in if req_iv_len = 0 \<or> req_enc_key_len = 0 \<or> req_hmac_key_len = 0 then None
         else
           (case silc_buffer_alloc_size (add32 1 (length data)) of
              None \<Rightarrow> None
            | Some buf \<Rightarrow>
                (let buf = fst (silc_buffer_format J buf [FMT_CHAR 0, FMT_NSTRING (Some data) (length data)])
                 in if silc_calloc req_iv_len 1 = None then None
                    else
                      (case enc_key_material J H 2 data hash_len enc_key_len buf of
                         None \<Rightarrow> None
                       | Some send_key \<Rightarrow>
                           (case enc_key_material J H 3 data hash_len enc_key_len buf of
                              None \<Rightarrow> None
                            | Some receive_key \<Rightarrow>
                                if silc_calloc req_hmac_key_len 1 = None then None
                                else
                                  Some \<lparr>km_send_iv = take req_iv_len (hash_round H 0 buf),
                                        km_receive_iv = take req_iv_len (hash_round H 1 buf),
                                        km_iv_len = req_iv_len,
                                        km_send_enc_key = send_key, km_receive_enc_key = receive_key,
                                        km_enc_key_len = req_enc_key_len,
                                        km_send_hmac_key = take req_hmac_key_len (hash_round H 4 buf),
                                        km_receive_hmac_key = take req_hmac_key_len (hash_round H 5 buf),
                                        km_hmac_key_len = req_hmac_key_len\<rparr>)))))"

text \<open>The negotiated properties the rekey material is made from: group number, flags and hash name.\<close>

record silc_ske_rekey_material =
  rk_send_enc_key :: "bytes option"
  rk_hash :: "bytes option"
  rk_enc_key_len :: nat
  rk_ske_group :: nat
  rk_pfs :: bool

definition silc_ske_make_rekey_material ::
    "(nat option \<times> byte \<times> bytes) option \<Rightarrow> silc_ske_key_material option \<Rightarrow> silc_ske_rekey_material option" where
  "silc_ske_make_rekey_material prop keymat =
     (case keymat of
        None \<Rightarrow> None
      | Some km \<Rightarrow>
          (let rekey = \<lparr>rk_send_enc_key = None, rk_hash = None, rk_enc_key_len = 0, rk_ske_group = 0, rk_pfs = False\<rparr>;
               rekey = (case prop of
                          None \<Rightarrow> Some rekey
                        | Some (grp, flags, name) \<Rightarrow>
                            (case silc_memdup name of
                               None \<Rightarrow> None
                             | Some h \<Rightarrow>
                                 Some (rekey\<lparr>rk_ske_group := (case grp of None \<Rightarrow> 0 | Some n \<Rightarrow> n mod 256),
                                             rk_pfs := flags AND SILC_SKE_SP_FLAG_PFS \<noteq> 0, rk_hash := Some h\<rparr>)))
           in case rekey of
                None \<Rightarrow> None
              | Some rekey \<Rightarrow>
                  if rk_pfs rekey then Some rekey
                  else
                    (case silc_memdup (take (km_enc_key_len km div 8) (km_send_enc_key km)) of
                       None \<Rightarrow> None
                     | Some k \<Rightarrow> Some (rekey\<lparr>rk_send_enc_key := Some k, rk_enc_key_len := km_enc_key_len km mod 2 ^ 23\<rparr>))))"

definition silc_ske_process_key_material ::
    "junk \<Rightarrow> nat \<Rightarrow> bytes \<Rightarrow> hash_alg \<Rightarrow> nat \<Rightarrow> nat \<Rightarrow> nat \<Rightarrow> silc_ske_key_material option" where
  "silc_ske_process_key_material J KEY hash H req_iv_len req_enc_key_len req_hmac_key_len =
     (let tmpbuf = the (silc_mp_mp2bin KEY 0); klen = length tmpbuf
      in case silc_buffer_alloc_size (add32 klen (length hash)) of
           None \<Rightarrow> None
         | Some buf \<Rightarrow>
             (let buf = fst (silc_buffer_format J buf [FMT_NSTRING (Some tmpbuf) klen, FMT_NSTRING (Some hash) (length hash)])
              in silc_ske_process_key_material_data J (sb_bytes buf) req_iv_len req_enc_key_len req_hmac_key_len H))"

text \<open>
  The hash of the exchange. The start payload's copy is the one that was sent or received; \<open>e\<close> and
  \<open>f\<close> are the Diffie-Hellman values of the initiator and the responder.
\<close>

definition silc_ske_make_hash ::
    "junk \<Rightarrow> hash_alg \<Rightarrow> silc_buffer option \<Rightarrow> silc_ske_ke_payload \<Rightarrow> silc_ske_ke_payload \<Rightarrow> nat \<Rightarrow> bool
     \<Rightarrow> silc_ske_status + bytes" where
  "silc_ske_make_hash J H start_copy ke1 ke2 KEY initiator =
     (let s_data = map_option sb_bytes start_copy;
          s_len = (case start_copy of None \<Rightarrow> 0 | Some b \<Rightarrow> silc_buffer_len b)
      in if \<not> initiator then
           (case silc_mp_mp2bin (ke_x ke1) 0 of
              None \<Rightarrow> Inl SILC_SKE_STATUS_OUT_OF_MEMORY
            | Some e \<Rightarrow>
           (case silc_mp_mp2bin (ke_x ke2) 0 of
              None \<Rightarrow> Inl SILC_SKE_STATUS_OUT_OF_MEMORY
            | Some f \<Rightarrow>
           (case silc_mp_mp2bin KEY 0 of
              None \<Rightarrow> Inl SILC_SKE_STATUS_OUT_OF_MEMORY
            | Some K \<Rightarrow>
           (case silc_buffer_alloc_size
                   (add32 s_len (unat (ke_pk_len ke2) + unat (ke_pk_len ke1) + length e + length f + length K)) of
              None \<Rightarrow> Inl SILC_SKE_STATUS_OUT_OF_MEMORY
            | Some buf \<Rightarrow>
                (let (buf, ret) = silc_buffer_format J buf
                       ([FMT_NSTRING s_data s_len, FMT_NSTRING (ke_pk_data ke2) (unat (ke_pk_len ke2))]
                        @ (if ke_pk_data ke1 = None then [] else [FMT_NSTRING (ke_pk_data ke1) (unat (ke_pk_len ke1))])
                        @ [FMT_NSTRING (Some e) (length e), FMT_NSTRING (Some f) (length f),
                           FMT_NSTRING (Some K) (length K)])
                 in if ret = -1 then Inl SILC_SKE_STATUS_ERROR else Inr (H (sb_bytes buf)))))))
         else
           (case silc_mp_mp2bin (ke_x ke1) 0 of
              None \<Rightarrow> Inl SILC_SKE_STATUS_OUT_OF_MEMORY
            | Some e \<Rightarrow>
           (case silc_buffer_alloc_size (add32 s_len (unat (ke_pk_len ke1) + length e)) of
              None \<Rightarrow> Inl SILC_SKE_STATUS_OUT_OF_MEMORY
            | Some buf \<Rightarrow>
                (let (buf, ret) = silc_buffer_format J buf
                       [FMT_NSTRING s_data s_len, FMT_NSTRING (ke_pk_data ke1) (unat (ke_pk_len ke1)),
                        FMT_NSTRING (Some e) (length e)]
                 in if ret = -1 then Inl SILC_SKE_STATUS_ERROR else Inr (H (sb_bytes buf))))))"

section \<open>What is derived\<close>

lemma length_hash_array [simp]: "length (silc_hash_array H d) = max SILC_HASH_MAXLEN (length (H d))"
  by (simp add: silc_hash_array_def)

lemma hash_round_set: "hash_round H i (silc_buffer_set (j # data)) = silc_hash_array H (i # data)"
  by (simp add: hash_round_def set_first_def silc_buffer_set_def sb_bytes_def)

text \<open>Appending a second part to a buffer the way the third round does.\<close>

lemma extend_dist:
  assumes "length D + n < SILC_MAX_ALLOC" and "0 < n" and "n \<le> length k"
  shows "sb_bytes (fst (silc_buffer_push (fst (silc_buffer_format J (fst (silc_buffer_pull
      (fst (silc_buffer_pull_tail (the (silc_buffer_realloc J (Some (silc_buffer_set D)) (length D + n))) n))
      (length D))) [FMT_NSTRING (Some k) n])) (length D))) = D @ take n k"
proof -
  have small: "length D < u32_max" "length D + n < u32_max"
    using assms(1) max_alloc_less_u32 by (auto dest: max_alloc_less_u32)
  let ?m = "map J [length D..<length D + n]"
  let ?b = "\<lparr>sb_mem = D @ ?m, sb_data = length D, sb_tail = length D + n\<rparr>"
  have "silc_buffer_realloc J (Some (silc_buffer_set D)) (length D + n) =
      Some ((silc_buffer_set D)\<lparr>sb_mem := D @ ?m\<rparr>)"
    using realloc_grow [of "silc_buffer_set D" "length D + n" J] assms small by simp
  moreover have "fst (silc_buffer_pull (fst (silc_buffer_pull_tail ((silc_buffer_set D)\<lparr>sb_mem := D @ ?m\<rparr>) n))
      (length D)) = ?b"
    using small by (simp add: silc_buffer_pull_tail_def silc_buffer_pull_def silc_buffer_taillen_def
        silc_buffer_len_def silc_buffer_set_def silc_arith)
  moreover have wf: "wf_buffer ?b" and len: "silc_buffer_len ?b = n"
    using small by (simp_all add: wf_buffer_def silc_buffer_len_def silc_arith)
  moreover have "fst (silc_buffer_format J ?b [FMT_NSTRING (Some k) n]) = ?b\<lparr>sb_mem := D @ take n k\<rparr>"
    using format_fits [OF wf, of "[FMT_NSTRING (Some k) n]" J] assms(3) len by (simp add: memcpy_def)
  moreover have "sb_bytes (fst (silc_buffer_push (?b\<lparr>sb_mem := D @ take n k\<rparr>) (length D))) = D @ take n k"
    using assms(3) by (simp add: push_ok sb_bytes_def)
  ultimately show ?thesis by simp
qed

text \<open>The key the protocol specifies: one round, or three rounds that also hash the previous results.\<close>

definition derived_key :: "hash_alg \<Rightarrow> byte \<Rightarrow> bytes \<Rightarrow> nat \<Rightarrow> nat \<Rightarrow> bytes" where
  "derived_key H i data hash_len n =
     (let K1 = take hash_len (silc_hash_array H (i # data));
          K2 = take hash_len (silc_hash_array H (data @ K1));
          K3 = take hash_len (silc_hash_array H (data @ K1 @ K2))
      in if n \<le> hash_len then take n (silc_hash_array H (i # data)) else take n (K1 @ K2 @ K3))"

lemma enc_key_material_eq:
  assumes "0 < n" and "0 < hl" and "hl \<le> SILC_HASH_MAXLEN" and "length data + 2 * hl < SILC_MAX_ALLOC"
  shows "enc_key_material J H i data hl n (silc_buffer_set (0 # data)) =
    (if 3 * hl < n \<or> SILC_MAX_ALLOC \<le> n then None else Some (derived_key H i data hl n))"
proof -
  define k1 where "k1 = silc_hash_array H (i # data)"
  define D where "D = data @ take hl k1"
  define k2 where "k2 = silc_hash_array H D"
  have hl: "hl \<le> length k1" "hl \<le> length k2" using assms(3) by (simp_all add: k1_def k2_def)
  have hs: "3 * hl < SILC_MAX_ALLOC" using assms(3) by (simp add: SILC_HASH_MAXLEN_def SILC_MAX_ALLOC_def)
  have h3: "3 * hl mod u32_max = 3 * hl" using max_alloc_less_u32 [OF hs] by simp
  have lD: "length D = length data + hl" using hl by (simp add: D_def)
  have small: "length D + hl < SILC_MAX_ALLOC" "length D < SILC_MAX_ALLOC" using assms(4) lD by simp_all
  have a: "add32 (length data) hl = length D" "add32 (length data) (add32 hl hl) = length D + hl"
    using max_alloc_less_u32 [OF assms(4)] lD by (simp_all add: add32_exact)
  have dist: "fst (silc_buffer_format J \<lparr>sb_mem = replicate (length D) 0, sb_data = 0, sb_tail = length D\<rparr>
      [FMT_NSTRING (Some data) (length data), FMT_NSTRING (Some k1) hl]) = silc_buffer_set D"
    using format_alloc [OF small(2), of "[FMT_NSTRING (Some data) (length data), FMT_NSTRING (Some k1) hl]" J] hl lD
    by (simp add: D_def)
  have c: "silc_calloc m 1 = None \<longleftrightarrow> m = 0 \<or> SILC_MAX_ALLOC \<le> m" for m by (simp add: silc_calloc_def)
  have third: "sb_bytes (fst (silc_buffer_push (fst (silc_buffer_format J (fst (silc_buffer_pull
      (fst (silc_buffer_pull_tail (the (silc_buffer_realloc J (Some (silc_buffer_set D)) (length D + hl))) hl))
      (length D))) [FMT_NSTRING (Some k2) hl])) (length D))) = data @ take hl k1 @ take hl k2"
    using extend_dist [OF small(1) assms(2) hl(2), of J] by (simp add: D_def)
  have key: "derived_key H i data hl n = (if n \<le> hl then take n k1 else
      take n (take hl k1 @ take hl k2 @ take hl (silc_hash_array H (data @ take hl k1 @ take hl k2))))"
    by (simp add: derived_key_def k1_def k2_def D_def Let_def)
  show ?thesis
    unfolding enc_key_material_def hash_round_set k1_def [symmetric] Let_def a h3 alloc_size_Some [OF small(2)]
      option.case dist k2_def [symmetric] third sb_bytes_set c key
    using assms(1,2) hs by (auto simp: not_less)
qed

lemma length_derived_key:
  assumes "hl \<le> SILC_HASH_MAXLEN" and "n \<le> 3 * hl"
  shows "length (derived_key H i data hl n) = n"
  using assms by (auto simp: derived_key_def Let_def)

lemma process_key_material_eq:
  assumes "0 < iv" "iv < SILC_MAX_ALLOC" and "8 \<le> enc" and "0 < hl" "hl \<le> SILC_HASH_MAXLEN"
    and "enc div 8 \<le> 3 * hl" and small: "length data + 2 * hl + 1 < SILC_MAX_ALLOC"
  shows "silc_ske_process_key_material_data J data iv enc hl H =
    Some \<lparr>km_send_iv = take iv (silc_hash_array H (0 # data)), km_receive_iv = take iv (silc_hash_array H (1 # data)),
      km_iv_len = iv, km_send_enc_key = derived_key H 2 data hl (enc div 8),
      km_receive_enc_key = derived_key H 3 data hl (enc div 8), km_enc_key_len = enc,
      km_send_hmac_key = take hl (silc_hash_array H (4 # data)),
      km_receive_hmac_key = take hl (silc_hash_array H (5 # data)), km_hmac_key_len = hl\<rparr>"
proof -
  have n: "add32 1 (length data) = Suc (length data)"
    using max_alloc_less_u32 [OF small] by (simp add: add32_exact)
  have s: "Suc (length data) < SILC_MAX_ALLOC" using small by simp
  have buf: "fst (silc_buffer_format J \<lparr>sb_mem = replicate (Suc (length data)) 0, sb_data = 0, sb_tail = Suc (length data)\<rparr>
      [FMT_CHAR 0, FMT_NSTRING (Some data) (length data)]) = silc_buffer_set (0 # data)"
    using format_alloc [OF s, of "[FMT_CHAR 0, FMT_NSTRING (Some data) (length data)]" J] by simp
  have e: "0 < enc div 8" "enc div 8 < SILC_MAX_ALLOC"
    using assms(3,5,6) by (simp_all add: SILC_HASH_MAXLEN_def SILC_MAX_ALLOC_def)
  have key: "enc_key_material J H i data hl (enc div 8) (silc_buffer_set (0 # data)) =
      Some (derived_key H i data hl (enc div 8))" for i
    using enc_key_material_eq [OF e(1) assms(4,5), of data J H i] small e(2) assms(6) by simp
  have c: "silc_calloc iv 1 \<noteq> None" "silc_calloc hl 1 \<noteq> None"
    using assms(1,2,4,5) by (simp_all add: silc_calloc_def SILC_HASH_MAXLEN_def SILC_MAX_ALLOC_def)
  show ?thesis
    unfolding silc_ske_process_key_material_data_def Let_def n alloc_size_Some [OF s] option.case buf key hash_round_set
    using assms(1,3,4) c by simp
qed

section \<open>Properties\<close>



text \<open>
  The hash of the exchange covers what the protocol says: the start payload as it was sent, the
  responder's public key, the initiator's if it was sent, both Diffie-Hellman values and the shared
  key, in this order; the initiator's hash covers the start payload, its public key and its value.
\<close>

theorem silc_ske_make_hash_spec:
  assumes "wf_buffer sb" and "field_ok (ke_pk_len ke1) (ke_pk_data ke1)" and "field_ok (ke_pk_len ke2) (ke_pk_data ke2)"
    and "silc_mp_mp2bin (ke_x ke1) 0 = Some e" and "silc_mp_mp2bin (ke_x ke2) 0 = Some f" and "silc_mp_mp2bin KEY 0 = Some K"
    and "length (sb_bytes sb) + length e + length f + length K + 131072 < SILC_MAX_ALLOC"
  shows "silc_ske_make_hash J H (Some sb) ke1 ke2 KEY False =
      Inr (H (sb_bytes sb @ ptr_bytes (ke_pk_data ke2) @ ptr_bytes (ke_pk_data ke1) @ e @ f @ K))
    \<and> silc_ske_make_hash J H (Some sb) ke1 ke2 KEY True = Inr (H (sb_bytes sb @ ptr_bytes (ke_pk_data ke1) @ e))"
proof -
  note f1 = field_okD(1) [OF assms(2)] and f2 = field_okD(1) [OF assms(3)]
  have l: "silc_buffer_len sb = length (sb_bytes sb)" using length_sb_bytes [OF assms(1)] by simp
  have b: "unat (ke_pk_len ke1) < 65536" "unat (ke_pk_len ke2) < 65536" by (rule unat_u16_less)+
  let ?S = "sb_bytes sb" and ?P1 = "ptr_bytes (ke_pk_data ke1)" and ?P2 = "ptr_bytes (ke_pk_data ke2)"
  have fmt: "silc_buffer_format J \<lparr>sb_mem = replicate n 0, sb_data = 0, sb_tail = n\<rparr> ps = (silc_buffer_set (fmt_all ps), int n)"
    if "length (fmt_all ps) = n" "n < SILC_MAX_ALLOC" "list_all fmt_plain ps" for n ps
    using format_alloc [OF that(2,3,1)] .
  let ?n = "length (?S @ ?P2 @ ?P1 @ e @ f @ K)" and ?m = "length (?S @ ?P1 @ e)"
  have sz: "length ?S + (unat (ke_pk_len ke2) + unat (ke_pk_len ke1) + length e + length f + length K) < SILC_MAX_ALLOC"
    "length ?S + (unat (ke_pk_len ke1) + length e) < SILC_MAX_ALLOC"
    using assms(7) b by linarith+
  have A: "add32 (length ?S) (unat (ke_pk_len ke2) + unat (ke_pk_len ke1) + length e + length f + length K) = ?n"
    using add32_exact [OF max_alloc_less_u32 [OF sz(1)]] f1 f2 by simp
  have B: "add32 (length ?S) (unat (ke_pk_len ke1) + length e) = ?m"
    using add32_exact [OF max_alloc_less_u32 [OF sz(2)]] f1 by simp
  have An: "?n < SILC_MAX_ALLOC" and Bm: "?m < SILC_MAX_ALLOC" using sz f1 f2 by simp_all
  let ?ps = "[FMT_NSTRING (Some ?S) (length ?S), FMT_NSTRING (ke_pk_data ke2) (unat (ke_pk_len ke2))]
    @ (if ke_pk_data ke1 = None then [] else [FMT_NSTRING (ke_pk_data ke1) (unat (ke_pk_len ke1))])
    @ [FMT_NSTRING (Some e) (length e), FMT_NSTRING (Some f) (length f), FMT_NSTRING (Some K) (length K)]"
  have ps: "fmt_all ?ps = ?S @ ?P2 @ ?P1 @ e @ f @ K" "list_all fmt_plain ?ps"
    using fmt_field(1) [OF assms(2)] fmt_field(1) [OF assms(3)] fmt_field(2) [OF assms(2)] fmt_field(2) [OF assms(3)]
    by (cases "ke_pk_data ke1"; simp add: ptr_bytes_def)+
  let ?qs = "[FMT_NSTRING (Some ?S) (length ?S), FMT_NSTRING (ke_pk_data ke1) (unat (ke_pk_len ke1)),
    FMT_NSTRING (Some e) (length e)]"
  have qs: "fmt_all ?qs = ?S @ ?P1 @ e" "list_all fmt_plain ?qs"
    using fmt_field(1) [OF assms(2)] fmt_field(2) [OF assms(2)] by simp_all
  have "silc_ske_make_hash J H (Some sb) ke1 ke2 KEY False = Inr (H (?S @ ?P2 @ ?P1 @ e @ f @ K))"
    unfolding silc_ske_make_hash_def option.map option.case assms(4-6) Let_def l A alloc_size_Some [OF An]
      fmt [OF arg_cong [OF ps(1)] An ps(2)] ps(1) by simp
  moreover have "silc_ske_make_hash J H (Some sb) ke1 ke2 KEY True = Inr (H (?S @ ?P1 @ e))"
    unfolding silc_ske_make_hash_def option.map option.case assms(4-6) Let_def l B alloc_size_Some [OF Bm]
      fmt [OF arg_cong [OF qs(1)] Bm qs(2)] qs(1) by simp
  ultimately show ?thesis by blast
qed

theorem silc_ske_make_hash_spec_witness:
  "silc_ske_make_hash (\<lambda>_. 0) (\<lambda>d. d) (Some (silc_buffer_set [1, 2]))
      \<lparr>ke_pk_len = 1, ke_pk_data = Some [3], ke_pk_type = 1, ke_x = 5, ke_sign_len = 0, ke_sign_data = None\<rparr>
      \<lparr>ke_pk_len = 1, ke_pk_data = Some [4], ke_pk_type = 1, ke_x = 6, ke_sign_len = 0, ke_sign_data = None\<rparr> 7 False =
    Inr [1, 2, 4, 3, 5, 6, 7]"
proof -
  have x: "silc_mp_mp2bin 5 0 = Some [5]" "silc_mp_mp2bin 6 0 = Some [6]" "silc_mp_mp2bin 7 0 = Some [7]"
    by (simp_all add: silc_mp_mp2bin_def silc_mp_sizeinbase2_def bin_digits.simps silc_calloc_def SILC_MAX_ALLOC_def)
  show ?thesis
    using silc_ske_make_hash_spec [of "silc_buffer_set [1, 2]"
        "\<lparr>ke_pk_len = 1, ke_pk_data = Some [3], ke_pk_type = 1, ke_x = 5, ke_sign_len = 0, ke_sign_data = None\<rparr>"
        "\<lparr>ke_pk_len = 1, ke_pk_data = Some [4], ke_pk_type = 1, ke_x = 6, ke_sign_len = 0, ke_sign_data = None\<rparr>"
        "[5]" "[6]" 7 "[7]" "\<lambda>_. 0" "\<lambda>d. d"] x
    by (simp add: field_ok_def ptr_bytes_def u32_max_def SILC_MAX_ALLOC_def)
qed

end
