(* ===== verification/Silc_Ske_Select.thy ===== *)
theory Silc_Ske_Select
  imports Silc_Ske_Payload "HOL-Library.Sublist"
begin

text \<open>
  \<open>lib/silcske/silcske.c\<close> and \<open>groups.c\<close>, the negotiation of the key exchange: the initiator's
  proposal and the responder's selection from it. The algorithms an implementation supports are the
  names registered with the crypto library (\<open>lib/silccrypt\<close>); the names and version strings are C
  strings given without their terminating zero, and a received list is a C string up to its first
  zero byte.
\<close>

section \<open>Registered algorithms\<close>

record silc_crypto =
  rg_ciphers :: "bytes list"
  rg_hashes :: "bytes list"
  rg_hmacs :: "bytes list"
  rg_pkcs :: "bytes list"

definition cstr :: "bytes \<Rightarrow> bytes" where
  "cstr d = takeWhile (\<lambda>b. b \<noteq> 0) d"

definition silc_cipher_is_supported :: "silc_crypto \<Rightarrow> bytes \<Rightarrow> bool" where
  "silc_cipher_is_supported reg name \<longleftrightarrow> name \<in> set (rg_ciphers reg)"

definition silc_cipher_alloc :: "silc_crypto \<Rightarrow> bytes \<Rightarrow> bytes option" where
  "silc_cipher_alloc reg name = (if name \<in> set (rg_ciphers reg) then Some name else None)"

definition silc_hash_is_supported :: "silc_crypto \<Rightarrow> bytes \<Rightarrow> bool" where
  "silc_hash_is_supported reg name \<longleftrightarrow> name \<in> set (rg_hashes reg)"

definition silc_hash_alloc :: "silc_crypto \<Rightarrow> bytes \<Rightarrow> bytes option" where
  "silc_hash_alloc reg name = (if name \<in> set (rg_hashes reg) then Some name else None)"

definition silc_hmac_is_supported :: "silc_crypto \<Rightarrow> bytes \<Rightarrow> bool" where
  "silc_hmac_is_supported reg name \<longleftrightarrow> name \<in> set (rg_hmacs reg)"

text \<open>The hash function of a MAC is named between its first two dashes.\<close>

definition hmac_hash_name :: "bytes \<Rightarrow> bytes" where
  "hmac_hash_name name =
     takeWhile (\<lambda>b. b \<noteq> 45) (if 45 \<in> set name then tl (dropWhile (\<lambda>b. b \<noteq> 45) name) else name)"

definition silc_hmac_alloc :: "silc_crypto \<Rightarrow> bytes \<Rightarrow> bytes option" where
  "silc_hmac_alloc reg name =
     (case silc_hash_alloc reg (hmac_hash_name name) of
        None \<Rightarrow> None
      | Some _ \<Rightarrow> if name \<in> set (rg_hmacs reg) then Some name else None)"

definition silc_pkcs_find_algorithm :: "silc_crypto \<Rightarrow> bytes \<Rightarrow> bool" where
  "silc_pkcs_find_algorithm reg name \<longleftrightarrow> name \<in> set (rg_pkcs reg)"

text \<open>The comma-separated lists: every name followed by a comma, the last comma overwritten by zero.\<close>

definition names_list :: "bytes list \<Rightarrow> bytes option" where
  "names_list names = (if names = [] then None else Some (butlast (concat (map (\<lambda>n. n @ [44]) names))))"

definition silc_cipher_get_supported :: "silc_crypto \<Rightarrow> bytes option" where
  "silc_cipher_get_supported reg = names_list (rg_ciphers reg)"

definition silc_hash_get_supported :: "silc_crypto \<Rightarrow> bytes option" where
  "silc_hash_get_supported reg = names_list (rg_hashes reg)"

definition silc_hmac_get_supported :: "silc_crypto \<Rightarrow> bytes option" where
  "silc_hmac_get_supported reg = names_list (rg_hmacs reg)"

definition silc_pkcs_get_supported :: "silc_crypto \<Rightarrow> bytes option" where
  "silc_pkcs_get_supported reg = names_list (rg_pkcs reg)"

section \<open>Diffie-Hellman groups\<close>

text \<open>Number and name of the groups; the moduli are constants the model does not use.\<close>

definition ascii :: "string \<Rightarrow> bytes" where
  "ascii s = map (\<lambda>c. of_nat (of_char c)) s"

definition silc_ske_groups :: "(nat \<times> bytes) list" where
  "silc_ske_groups = [(2, ascii ''diffie-hellman-group2''), (1, ascii ''diffie-hellman-group1'')]"

definition silc_ske_group_get_by_number :: "nat \<Rightarrow> silc_ske_status + nat \<times> bytes" where
  "silc_ske_group_get_by_number number =
     (case find (\<lambda>g. fst g = number) silc_ske_groups of
        None \<Rightarrow> Inl SILC_SKE_STATUS_UNKNOWN_GROUP
      | Some g \<Rightarrow> Inr g)"

definition silc_ske_group_get_by_name :: "bytes \<Rightarrow> silc_ske_status + nat \<times> bytes" where
  "silc_ske_group_get_by_name name =
     (case find (\<lambda>g. snd g = name) silc_ske_groups of
        None \<Rightarrow> Inl SILC_SKE_STATUS_UNKNOWN_GROUP
      | Some g \<Rightarrow> Inr g)"

definition silc_ske_get_supported_groups :: "nat \<Rightarrow> bytes option" where
  "silc_ske_get_supported_groups limit =
     names_list (map snd (if limit = 0 then silc_ske_groups else take limit silc_ske_groups))"

section \<open>Versions\<close>

text \<open>
  The part of \<open>silc_parse_version_string\<close> (\<open>lib/silcapputil/silcapputil.c\<close>) that decides whether a
  string is accepted; the numbers it can return are not used by the negotiation.
\<close>

definition after :: "byte \<Rightarrow> bytes \<Rightarrow> bytes option" where
  "after c s = (if c \<in> set s then Some (tl (dropWhile (\<lambda>b. b \<noteq> c) s)) else None)"

definition silc_parse_version_string :: "bytes \<Rightarrow> bool" where
  "silc_parse_version_string version =
     (if \<not> sublist (ascii ''SILC-'') version then False
      else
        (let cp = drop 5 version
         in if cp = [] then False
            else
              (case after 46 cp of
                 None \<Rightarrow> False
               | Some cp \<Rightarrow>
                   if cp = [] then False
                   else (case after 45 cp of None \<Rightarrow> False | Some cp \<Rightarrow> cp \<noteq> []))))"

definition silc_ske_check_version :: "bytes option \<Rightarrow> bytes option \<Rightarrow> silc_ske_status" where
  "silc_ske_check_version remote_version version =
     (case (remote_version, version) of
        (Some r, Some v) \<Rightarrow> if silc_parse_version_string (cstr r) then SILC_SKE_STATUS_OK else SILC_SKE_STATUS_BAD_VERSION
      | _ \<Rightarrow> SILC_SKE_STATUS_BAD_VERSION)"

section \<open>Selection\<close>

text \<open>The loop over a proposed list: the items between commas, up to the first that is supported.\<close>

function select_loop :: "(bytes \<Rightarrow> bool) \<Rightarrow> bytes \<Rightarrow> bytes option" where
  "select_loop supported cp =
     (let item = takeWhile (\<lambda>b. b \<noteq> 44) cp; rest = dropWhile (\<lambda>b. b \<noteq> 44) cp
      in if supported item then Some item
         else if rest = [] then None
         else select_loop supported (tl rest))"
  by pat_completeness auto
termination
proof (relation "measure (\<lambda>(f, cp). length cp)", goal_cases)
  case (2 supported cp item rest)
  then have "length (tl rest) < length rest" by (cases rest) auto
  also have "length rest \<le> length cp" using 2 by (simp add: length_dropWhile_le)
  finally show ?case by simp
qed simp

declare select_loop.simps [simp del]

text \<open>
  One list of the proposal: the length and the string of the reply. A list without a comma is
  taken as it is, with the length that was received.
\<close>

definition select_list :: "(bytes \<Rightarrow> bool) \<Rightarrow> u16 \<Rightarrow> bytes option \<Rightarrow> (u16 \<times> bytes option) option" where
  "select_list supported len ptr =
     (case ptr of
        Some l \<Rightarrow>
          if 44 \<in> set (cstr l) then
            map_option (\<lambda>item. (of_nat (length item), Some item)) (select_loop supported (cstr l))
          else Some (len, Some (cstr l))
      | None \<Rightarrow> Some (len, None))"

definition select_comp :: "bytes option \<Rightarrow> u16 \<times> bytes option" where
  "select_comp ptr =
     (case ptr of
        Some l \<Rightarrow>
          if 44 \<in> set (cstr l) then
            (case select_loop (\<lambda>item. item = ascii ''none'') (cstr l) of
               None \<Rightarrow> (0, None)
             | Some item \<Rightarrow> (of_nat (length item), Some item))
          else (0, None)
      | None \<Rightarrow> (0, None))"

record silc_ske_security_properties =
  prop_flags :: byte
  prop_group :: "nat \<times> bytes"
  prop_cipher :: bytes
  prop_hash :: bytes
  prop_hmac :: bytes
  prop_remote_port :: u16

text \<open>The cookie of the reply, and the port of the other side when it is in the cookie.\<close>

definition select_cookie :: "byte \<Rightarrow> u16 \<Rightarrow> bytes \<Rightarrow> bytes \<times> u16" where
  "select_cookie flags session_port cookie =
     (if flags AND SILC_SKE_SP_FLAG_IV_INCLUDED \<noteq> 0 \<and> session_port \<noteq> 0
      then (SILC_PUT16_MSB session_port @ drop 2 cookie, SILC_GET16_MSB cookie)
      else (cookie, 0))"

definition start_len :: "nat \<Rightarrow> u16 \<Rightarrow> u16 \<Rightarrow> u16 \<Rightarrow> u16 \<Rightarrow> u16 \<Rightarrow> u16 \<Rightarrow> u16" where
  "start_len v g p e h m c =
     of_nat (1 + 1 + 2 + SILC_SKE_COOKIE_LEN + 2 + v + 2 + unat g + 2 + unat p + 2 + unat e + 2 + unat h
             + 2 + unat m + 2 + unat c)"

definition silc_ske_select_security_properties ::
    "silc_crypto \<Rightarrow> bytes option \<Rightarrow> u16 \<Rightarrow> silc_ske_start_payload option
     \<Rightarrow> silc_ske_status + silc_ske_start_payload \<times> silc_ske_security_properties" where
  "silc_ske_select_security_properties reg version session_port remote_payload =
     (case remote_payload of
        None \<Rightarrow> Inl SILC_SKE_STATUS_BAD_VERSION
      | Some rp \<Rightarrow>
     if sp_ke_grp_len rp = 0 \<or> sp_pkcs_alg_len rp = 0 \<or> sp_enc_alg_len rp = 0 \<or> sp_hash_alg_len rp = 0
        \<or> sp_hmac_alg_len rp = 0
     then Inl SILC_SKE_STATUS_BAD_PAYLOAD
     else if silc_ske_check_version (Option.bind (sp_version rp) silc_memdup) version \<noteq> SILC_SKE_STATUS_OK
     then Inl SILC_SKE_STATUS_BAD_VERSION
     else
     (let (cookie, port) = select_cookie (sp_flags rp) session_port (ptr_bytes (sp_cookie rp))
      in case select_list (\<lambda>item. \<not> isl (silc_ske_group_get_by_name item)) (sp_ke_grp_len rp) (sp_ke_grp_list rp) of
        None \<Rightarrow> Inl SILC_SKE_STATUS_UNKNOWN_GROUP
      | Some (ke_grp_len, ke_grp_list) \<Rightarrow>
     (case silc_ske_group_get_by_name (ptr_bytes ke_grp_list) of
        Inl _ \<Rightarrow> Inl SILC_SKE_STATUS_UNKNOWN_GROUP
      | Inr grp \<Rightarrow>
     (case select_list (silc_pkcs_find_algorithm reg) (sp_pkcs_alg_len rp) (sp_pkcs_alg_list rp) of
        None \<Rightarrow> Inl SILC_SKE_STATUS_UNKNOWN_PKCS
      | Some (pkcs_alg_len, pkcs_alg_list) \<Rightarrow>
     (case select_list (silc_cipher_is_supported reg) (sp_enc_alg_len rp) (sp_enc_alg_list rp) of
        None \<Rightarrow> Inl SILC_SKE_STATUS_UNKNOWN_CIPHER
      | Some (enc_alg_len, enc_alg_list) \<Rightarrow>
     (case silc_cipher_alloc reg (ptr_bytes enc_alg_list) of
        None \<Rightarrow> Inl SILC_SKE_STATUS_UNKNOWN_CIPHER
      | Some cipher \<Rightarrow>
     (case select_list (silc_hash_is_supported reg) (sp_hash_alg_len rp) (sp_hash_alg_list rp) of
        None \<Rightarrow> Inl SILC_SKE_STATUS_UNKNOWN_HASH_FUNCTION
      | Some (hash_alg_len, hash_alg_list) \<Rightarrow>
     (case silc_hash_alloc reg (ptr_bytes hash_alg_list) of
        None \<Rightarrow> Inl SILC_SKE_STATUS_UNKNOWN_HASH_FUNCTION
      | Some hash \<Rightarrow>
     (case select_list (silc_hmac_is_supported reg) (sp_hmac_alg_len rp) (sp_hmac_alg_list rp) of
        None \<Rightarrow> Inl SILC_SKE_STATUS_UNKNOWN_HMAC
      | Some (hmac_alg_len, hmac_alg_list) \<Rightarrow>
     (case silc_hmac_alloc reg (ptr_bytes hmac_alg_list) of
        None \<Rightarrow> Inl SILC_SKE_STATUS_UNKNOWN_HMAC
      | Some hmac \<Rightarrow>
     (let (comp_alg_len, comp_alg_list) = select_comp (sp_comp_alg_list rp); v = ptr_bytes version
      in Inr
        (\<lparr>sp_flags = sp_flags rp,
          sp_len = start_len (unat (of_nat (length v) :: u16)) ke_grp_len pkcs_alg_len enc_alg_len hash_alg_len
                     hmac_alg_len comp_alg_len,
          sp_cookie = Some cookie, sp_cookie_len = of_nat SILC_SKE_COOKIE_LEN,
          sp_version = Some v, sp_version_len = of_nat (length v),
          sp_ke_grp_len = ke_grp_len, sp_ke_grp_list = ke_grp_list,
          sp_pkcs_alg_len = pkcs_alg_len, sp_pkcs_alg_list = pkcs_alg_list,
          sp_enc_alg_len = enc_alg_len, sp_enc_alg_list = enc_alg_list,
          sp_hash_alg_len = hash_alg_len, sp_hash_alg_list = hash_alg_list,
          sp_hmac_alg_len = hmac_alg_len, sp_hmac_alg_list = hmac_alg_list,
          sp_comp_alg_len = comp_alg_len, sp_comp_alg_list = comp_alg_list\<rparr>,
         \<lparr>prop_flags = sp_flags rp, prop_group = grp, prop_cipher = cipher, prop_hash = hash, prop_hmac = hmac,
          prop_remote_port = port\<rparr>))))))))))))"

section \<open>Proposal\<close>

text \<open>The random cookie is an argument; so are the first of the built-in algorithms for a small proposal.\<close>

definition proposal_list :: "bytes option \<Rightarrow> u16 \<times> bytes option" where
  "proposal_list l = (case l of None \<Rightarrow> (0, None) | Some d \<Rightarrow> (of_nat (length d), Some d))"

definition silc_ske_assemble_security_properties ::
    "silc_crypto \<Rightarrow> silc_crypto \<Rightarrow> bytes \<Rightarrow> u16 \<Rightarrow> byte \<Rightarrow> bytes \<Rightarrow> bool \<Rightarrow> silc_ske_start_payload" where
  "silc_ske_assemble_security_properties reg defaults rnd session_port flags version small_proposal =
     (let cookie = (if flags AND SILC_SKE_SP_FLAG_IV_INCLUDED \<noteq> 0 \<and> session_port \<noteq> 0
                    then SILC_PUT16_MSB session_port @ drop 2 rnd else rnd);
          (gl, g) = proposal_list (silc_ske_get_supported_groups (if small_proposal then 1 else 0));
          (pl, p) = proposal_list (if small_proposal then Some (rg_pkcs defaults ! 0) else silc_pkcs_get_supported reg);
          (el, e) = proposal_list (if small_proposal then Some (rg_ciphers defaults ! 0) else silc_cipher_get_supported reg);
          (hl, h) = proposal_list (if small_proposal then Some (rg_hashes defaults ! 0) else silc_hash_get_supported reg);
          (ml, m) = proposal_list (if small_proposal then Some (rg_hmacs defaults ! 0) else silc_hmac_get_supported reg);
          (cl, c) = proposal_list (if small_proposal then None else Some (ascii ''none''))
      in \<lparr>sp_flags = flags,
          sp_len = start_len (unat (of_nat (length version) :: u16)) gl pl el hl ml cl,
          sp_cookie = Some cookie, sp_cookie_len = of_nat SILC_SKE_COOKIE_LEN,
          sp_version = Some version, sp_version_len = of_nat (length version),
          sp_ke_grp_len = gl, sp_ke_grp_list = g, sp_pkcs_alg_len = pl, sp_pkcs_alg_list = p,
          sp_enc_alg_len = el, sp_enc_alg_list = e, sp_hash_alg_len = hl, sp_hash_alg_list = h,
          sp_hmac_alg_len = ml, sp_hmac_alg_list = m, sp_comp_alg_len = cl, sp_comp_alg_list = c\<rparr>)"

section \<open>Items of a list\<close>

fun split_comma :: "bytes \<Rightarrow> bytes list" where
  "split_comma [] = [[]]"
| "split_comma (b # bs) =
     (if b = 44 then [] # split_comma bs
      else (b # List.hd (split_comma bs)) # tl (split_comma bs))"

lemma split_comma_nonempty [simp]: "split_comma s \<noteq> []"
  by (induction s) auto

lemma split_comma_first:
  "split_comma s = takeWhile (\<lambda>b. b \<noteq> 44) s #
     (if 44 \<in> set s then split_comma (tl (dropWhile (\<lambda>b. b \<noteq> 44) s)) else [])"
  by (induction s) auto

lemma select_loop_find: "select_loop supported cp = find supported (split_comma cp)"
proof (induction supported cp rule: select_loop.induct)
  case (1 supported cp)
  have e: "dropWhile (\<lambda>b. b \<noteq> 44) cp = [] \<longleftrightarrow> 44 \<notin> set cp" by (auto simp: dropWhile_eq_Nil_conv)
  show ?case
    using "1.IH" [OF refl refl] by (subst select_loop.simps, subst split_comma_first) (auto simp: Let_def e)
qed

lemma split_comma_single: "44 \<notin> set s \<Longrightarrow> split_comma s = [s]"
  by (subst split_comma_first) (auto simp: takeWhile_eq_all_conv)

lemma split_comma_length: "i \<in> set (split_comma s) \<Longrightarrow> length i \<le> length s"
proof (induction s arbitrary: i)
  case (Cons b s)
  have "length (List.hd (split_comma s)) \<le> length s" using Cons.IH [of "List.hd (split_comma s)"] by simp
  moreover have "i \<in> set (tl (split_comma s)) \<Longrightarrow> length i \<le> length s" using Cons.IH [of i] by (cases "split_comma s") auto
  ultimately show ?case using Cons by (fastforce split: if_splits)
qed simp

lemma find_in_set: "find P xs = Some x \<Longrightarrow> x \<in> set xs \<and> P x"
  by (induction xs) (auto split: if_splits)

lemma cstr_id: "0 \<notin> set d \<Longrightarrow> cstr d = d"
  by (auto simp: cstr_def takeWhile_eq_all_conv)

text \<open>
  The outcome for one list that has no zero byte: the first supported item, or, when it has no
  comma, the item itself whether it is supported or not.
\<close>

lemma select_list_cases:
  assumes f: "field_ok len (Some d)" and z: "0 \<notin> set d" and e: "\<not> supported []"
  shows "case select_list supported len (Some d) of
      None \<Rightarrow> find supported (split_comma d) = None
    | Some (l, p) \<Rightarrow> \<exists>i. p = Some i \<and> field_ok l p \<and> length i \<le> length d
        \<and> find supported (split_comma d) = (if supported i then Some i else None) \<and> (44 \<in> set d \<longrightarrow> supported i)"
proof (cases "44 \<in> set d")
  case True
  then have sel: "select_list supported len (Some d) =
      map_option (\<lambda>item. (of_nat (length item), Some item)) (find supported (split_comma d))"
    by (simp add: select_list_def cstr_id [OF z] select_loop_find)
  show ?thesis
  proof (cases "find supported (split_comma d)")
    case None
    then show ?thesis by (simp add: sel)
  next
    case (Some i)
    then have i: "i \<in> set (split_comma d)" "supported i" by (auto dest: find_in_set)
    then have "i \<noteq> []" "length i \<le> length d" using e split_comma_length by auto
    moreover have "length d < 65536" using field_okD(4) [OF f] by (simp add: ptr_bytes_def)
    ultimately show ?thesis using Some i field_ok_of [of i] by (simp add: sel)
  qed
next
  case False
  then have "select_list supported len (Some d) = Some (len, Some d)"
    by (simp add: select_list_def cstr_id [OF z])
  then show ?thesis using f False by (simp add: split_comma_single)
qed


text \<open>
  The check that follows the selection from a list refuses a single item that is not supported, so
  that the two together find the first supported item of the list.
\<close>

lemma select_list_outcome:
  assumes f: "field_ok len ptr" and n: "len \<noteq> 0" and z: "0 \<notin> set (ptr_bytes ptr)"
  obtains (none) "select_list supported len ptr = None" "find supported (split_comma (ptr_bytes ptr)) = None"
  | (refused) l i where "select_list supported len ptr = Some (l, Some i)" "\<not> supported i"
      "find supported (split_comma (ptr_bytes ptr)) = None"
  | (chosen) i where "select_list supported len ptr = Some (of_nat (length i), Some i)" "supported i"
      "find supported (split_comma (ptr_bytes ptr)) = Some i" "length i \<le> unat len"
proof -
  obtain d where d: "ptr = Some d" using f n by (auto simp: field_ok_def split: option.splits)
  then have l: "length d = unat len" and ld: "of_nat (length d) = len" using field_okD(1,3) [OF f] by (auto simp: ptr_bytes_def)
  show thesis
  proof (cases "44 \<in> set d")
    case True
    then have sel: "select_list supported len (Some d) =
        map_option (\<lambda>item. (of_nat (length item), Some item)) (find supported (split_comma d))"
      using z by (simp add: d ptr_bytes_def select_list_def cstr_id select_loop_find)
    show thesis
    proof (cases "find supported (split_comma d)")
      case None
      then show thesis using none by (simp add: sel d ptr_bytes_def)
    next
      case (Some i)
      then have "i \<in> set (split_comma d)" "supported i" by (auto dest: find_in_set)
      then show thesis using chosen [of i] Some split_comma_length [of i d] l by (simp add: sel d ptr_bytes_def)
    qed
  next
    case False
    then have "select_list supported len (Some d) = Some (len, Some d)"
      using z by (simp add: d ptr_bytes_def select_list_def cstr_id)
    then show thesis
      using chosen [of d] refused [of len d] False l ld by (cases "supported d") (simp_all add: d split_comma_single ptr_bytes_def)
  qed
qed

section \<open>What the negotiation promises\<close>

text \<open>
  The choice without the strings and lengths of the payload: the first item of each list that is
  supported. A list of public key algorithms that has one item is not looked at.
\<close>

record choice =
  ch_group :: bytes
  ch_pkcs :: bytes
  ch_cipher :: bytes
  ch_hash :: bytes
  ch_hmac :: bytes
  ch_comp :: bytes

abbreviation group_supported :: "bytes \<Rightarrow> bool" where
  "group_supported i \<equiv> i \<in> set (map snd silc_ske_groups)"

definition pick :: "silc_ske_status \<Rightarrow> (bytes \<Rightarrow> bool) \<Rightarrow> bytes option \<Rightarrow> silc_ske_status + bytes" where
  "pick st supported l =
     (case find supported (split_comma (ptr_bytes l)) of None \<Rightarrow> Inl st | Some i \<Rightarrow> Inr i)"

definition negotiate :: "silc_crypto \<Rightarrow> silc_ske_start_payload \<Rightarrow> silc_ske_status + choice" where
  "negotiate reg rp =
     (if \<not> silc_parse_version_string (ptr_bytes (sp_version rp)) then Inl SILC_SKE_STATUS_BAD_VERSION
      else case pick SILC_SKE_STATUS_UNKNOWN_GROUP group_supported (sp_ke_grp_list rp) of
        Inl st \<Rightarrow> Inl st
      | Inr g \<Rightarrow>
     (case pick SILC_SKE_STATUS_UNKNOWN_PKCS
             (\<lambda>i. i \<in> set (rg_pkcs reg) \<or> 44 \<notin> set (ptr_bytes (sp_pkcs_alg_list rp))) (sp_pkcs_alg_list rp) of
        Inl st \<Rightarrow> Inl st
      | Inr p \<Rightarrow>
     (case pick SILC_SKE_STATUS_UNKNOWN_CIPHER (\<lambda>i. i \<in> set (rg_ciphers reg)) (sp_enc_alg_list rp) of
        Inl st \<Rightarrow> Inl st
      | Inr e \<Rightarrow>
     (case pick SILC_SKE_STATUS_UNKNOWN_HASH_FUNCTION (\<lambda>i. i \<in> set (rg_hashes reg)) (sp_hash_alg_list rp) of
        Inl st \<Rightarrow> Inl st
      | Inr h \<Rightarrow>
     (case pick SILC_SKE_STATUS_UNKNOWN_HMAC (\<lambda>i. i \<in> set (rg_hmacs reg)) (sp_hmac_alg_list rp) of
        Inl st \<Rightarrow> Inl st
      | Inr m \<Rightarrow>
        if hmac_hash_name m \<notin> set (rg_hashes reg) then Inl SILC_SKE_STATUS_UNKNOWN_HMAC
        else Inr \<lparr>ch_group = g, ch_pkcs = p, ch_cipher = e, ch_hash = h, ch_hmac = m,
                  ch_comp = ptr_bytes (snd (select_comp (sp_comp_alg_list rp)))\<rparr>)))))"

definition reply_choice :: "silc_ske_start_payload \<Rightarrow> choice" where
  "reply_choice p =
     \<lparr>ch_group = ptr_bytes (sp_ke_grp_list p), ch_pkcs = ptr_bytes (sp_pkcs_alg_list p),
      ch_cipher = ptr_bytes (sp_enc_alg_list p), ch_hash = ptr_bytes (sp_hash_alg_list p),
      ch_hmac = ptr_bytes (sp_hmac_alg_list p), ch_comp = ptr_bytes (sp_comp_alg_list p)\<rparr>"

text \<open>A proposal whose strings have no zero byte, and algorithm names that are not empty.\<close>

definition nul_free :: "silc_ske_start_payload \<Rightarrow> bool" where
  "nul_free p \<longleftrightarrow>
     list_all (\<lambda>l. 0 \<notin> set (ptr_bytes l))
       [sp_version p, sp_ke_grp_list p, sp_pkcs_alg_list p, sp_enc_alg_list p, sp_hash_alg_list p,
        sp_hmac_alg_list p, sp_comp_alg_list p]"

definition named :: "silc_crypto \<Rightarrow> bool" where
  "named reg \<longleftrightarrow> [] \<notin> set (rg_ciphers reg @ rg_hashes reg @ rg_hmacs reg @ rg_pkcs reg)"

lemma group_lookup:
  "isl (silc_ske_group_get_by_name i) \<longleftrightarrow> \<not> group_supported i"
  "\<exists>n. group_supported i \<longrightarrow> silc_ske_group_get_by_name i = Inr (n, i)"
  by (auto simp: silc_ske_group_get_by_name_def silc_ske_groups_def split: option.split)

text \<open>The reply that goes with a choice.\<close>

definition reply_of ::
    "bytes \<Rightarrow> u16 \<Rightarrow> silc_ske_start_payload \<Rightarrow> choice \<Rightarrow> silc_ske_start_payload \<times> silc_ske_security_properties" where
  "reply_of v port rp c =
     (let l = (\<lambda>f. of_nat (length (f c)) :: u16); (cl, cp) = select_comp (sp_comp_alg_list rp);
          (cookie, rport) = select_cookie (sp_flags rp) port (ptr_bytes (sp_cookie rp))
      in (\<lparr>sp_flags = sp_flags rp,
           sp_len = start_len (unat (of_nat (length v) :: u16)) (l ch_group) (l ch_pkcs) (l ch_cipher) (l ch_hash)
                      (l ch_hmac) cl,
           sp_cookie = Some cookie, sp_cookie_len = of_nat SILC_SKE_COOKIE_LEN,
           sp_version = Some v, sp_version_len = of_nat (length v),
           sp_ke_grp_len = l ch_group, sp_ke_grp_list = Some (ch_group c),
           sp_pkcs_alg_len = l ch_pkcs, sp_pkcs_alg_list = Some (ch_pkcs c),
           sp_enc_alg_len = l ch_cipher, sp_enc_alg_list = Some (ch_cipher c),
           sp_hash_alg_len = l ch_hash, sp_hash_alg_list = Some (ch_hash c),
           sp_hmac_alg_len = l ch_hmac, sp_hmac_alg_list = Some (ch_hmac c),
           sp_comp_alg_len = cl, sp_comp_alg_list = cp\<rparr>,
          \<lparr>prop_flags = sp_flags rp, prop_group = projr (silc_ske_group_get_by_name (ch_group c)),
           prop_cipher = ch_cipher c, prop_hash = ch_hash c, prop_hmac = ch_hmac c, prop_remote_port = rport\<rparr>))"

text \<open>One list and the check that follows it, as they occur in the selection.\<close>

lemma select_list_pick:
  assumes f: "field_ok len ptr" and n: "len \<noteq> 0" and z: "0 \<notin> set (ptr_bytes ptr)"
    and c: "\<And>i. check i = (if supported i then Some i else None)"
  shows "(case select_list supported len ptr of
      None \<Rightarrow> Inl st
    | Some (l, p) \<Rightarrow> (case check (ptr_bytes p) of None \<Rightarrow> Inl st | Some x \<Rightarrow> F l p x))
    = (case pick st supported ptr of Inl st \<Rightarrow> Inl st | Inr i \<Rightarrow> F (of_nat (length i)) (Some i) i)"
  by (rule select_list_outcome [OF f n z, of supported]) (simp_all add: pick_def c ptr_bytes_def)

lemma select_list_group:
  assumes f: "field_ok len ptr" and n: "len \<noteq> 0" and z: "0 \<notin> set (ptr_bytes ptr)"
  shows "(case select_list (\<lambda>i. \<not> isl (silc_ske_group_get_by_name i)) len ptr of
      None \<Rightarrow> Inl st
    | Some (l, p) \<Rightarrow> (case silc_ske_group_get_by_name (ptr_bytes p) of Inl _ \<Rightarrow> Inl st | Inr g \<Rightarrow> F l p g))
    = (case pick st group_supported ptr of
         Inl st \<Rightarrow> Inl st
       | Inr i \<Rightarrow> F (of_nat (length i)) (Some i) (projr (silc_ske_group_get_by_name i)))"
proof -
  have g: "(\<lambda>i. \<not> isl (silc_ske_group_get_by_name i)) = group_supported" by (simp add: group_lookup fun_eq_iff)
  define gg where "gg i = projr (silc_ske_group_get_by_name i)" for i
  have c: "silc_ske_group_get_by_name i = (if group_supported i then Inr (gg i) else Inl SILC_SKE_STATUS_UNKNOWN_GROUP)" for i
    by (auto simp: silc_ske_group_get_by_name_def silc_ske_groups_def gg_def)
  show ?thesis unfolding g gg_def [symmetric]
    by (rule select_list_outcome [OF f n z, of group_supported]) (simp_all add: pick_def c ptr_bytes_def)
qed

lemma select_list_pkcs:
  assumes f: "field_ok len ptr" and n: "len \<noteq> 0" and z: "0 \<notin> set (ptr_bytes ptr)"
  shows "(case select_list (silc_pkcs_find_algorithm reg) len ptr of None \<Rightarrow> Inl st | Some (l, p) \<Rightarrow> F l p)
    = (case pick st (\<lambda>i. i \<in> set (rg_pkcs reg) \<or> 44 \<notin> set (ptr_bytes ptr)) ptr of
         Inl st \<Rightarrow> Inl st
       | Inr i \<Rightarrow> F (of_nat (length i)) (Some i))"
proof (cases "44 \<in> set (ptr_bytes ptr)")
  case True
  then show ?thesis
    using z by (cases ptr) (simp_all add: select_list_def cstr_id select_loop_find pick_def ptr_bytes_def
        silc_pkcs_find_algorithm_def [abs_def] split: option.split)
next
  case False
  obtain d where "ptr = Some d" using f n by (auto simp: field_ok_def split: option.splits)
  then show ?thesis
    using z False field_okD(3) [OF f] by (simp add: select_list_def cstr_id pick_def ptr_bytes_def split_comma_single)
qed

lemma select_list_hmac:
  assumes f: "field_ok len ptr" and n: "len \<noteq> 0" and z: "0 \<notin> set (ptr_bytes ptr)"
  shows "(case select_list (silc_hmac_is_supported reg) len ptr of
      None \<Rightarrow> Inl st
    | Some (l, p) \<Rightarrow> (case silc_hmac_alloc reg (ptr_bytes p) of None \<Rightarrow> Inl st | Some x \<Rightarrow> F l p x))
    = (case pick st (\<lambda>i. i \<in> set (rg_hmacs reg)) ptr of
         Inl st \<Rightarrow> Inl st
       | Inr i \<Rightarrow> if hmac_hash_name i \<notin> set (rg_hashes reg) then Inl st else F (of_nat (length i)) (Some i) i)"
proof -
  have s: "silc_hmac_is_supported reg = (\<lambda>i. i \<in> set (rg_hmacs reg))" by (simp add: silc_hmac_is_supported_def fun_eq_iff)
  show ?thesis unfolding s
    by (rule select_list_outcome [OF f n z, of "\<lambda>i. i \<in> set (rg_hmacs reg)"])
       (simp_all add: pick_def silc_hmac_alloc_def silc_hash_alloc_def ptr_bytes_def)
qed

lemma select_eq:
  assumes ok: "start_ok rp" and z: "nul_free rp"
  shows "silc_ske_select_security_properties reg (Some v) port (Some rp) =
    map_sum (\<lambda>st. st) (reply_of v port rp) (negotiate reg rp)"
proof -
  have r: "start_raw rp" and n: "sp_version_len rp \<noteq> 0" "sp_ke_grp_len rp \<noteq> 0" "sp_pkcs_alg_len rp \<noteq> 0" "sp_enc_alg_len rp \<noteq> 0"
      "sp_hash_alg_len rp \<noteq> 0" "sp_hmac_alg_len rp \<noteq> 0"
    using ok by (auto simp: start_ok_def)
  note f = start_raw_fields [OF r]
  have zs: "0 \<notin> set (ptr_bytes (sp_version rp))" "0 \<notin> set (ptr_bytes (sp_ke_grp_list rp))"
      "0 \<notin> set (ptr_bytes (sp_pkcs_alg_list rp))" "0 \<notin> set (ptr_bytes (sp_enc_alg_list rp))"
      "0 \<notin> set (ptr_bytes (sp_hash_alg_list rp))" "0 \<notin> set (ptr_bytes (sp_hmac_alg_list rp))"
    using z by (auto simp: nul_free_def)
  obtain ver where ver: "sp_version rp = Some ver" "ver \<noteq> []"
    using f(2) n(1) by (auto simp: field_ok_def split: option.splits)
  have lv: "length ver < 65536" using field_okD(4) [OF f(2)] by (simp add: ver ptr_bytes_def)
  have check: "silc_ske_check_version (Option.bind (sp_version rp) silc_memdup) (Some v) =
      (if silc_parse_version_string (ptr_bytes (sp_version rp)) then SILC_SKE_STATUS_OK else SILC_SKE_STATUS_BAD_VERSION)"
    using zs(1) lv ver by (simp add: silc_ske_check_version_def ptr_bytes_def cstr_id silc_memdup_Some SILC_MAX_ALLOC_def)
  have e: "silc_cipher_alloc reg i = (if silc_cipher_is_supported reg i then Some i else None)"
    "silc_hash_alloc reg i = (if silc_hash_is_supported reg i then Some i else None)" for i
    by (simp_all add: silc_cipher_alloc_def silc_cipher_is_supported_def silc_hash_alloc_def silc_hash_is_supported_def)
  obtain cookie rport where ck: "select_cookie (sp_flags rp) port (ptr_bytes (sp_cookie rp)) = (cookie, rport)"
    by fastforce
  obtain cl cp where cm: "select_comp (sp_comp_alg_list rp) = (cl, cp)" by fastforce
  show ?thesis
    unfolding silc_ske_select_security_properties_def
    by (simp only: option.case n if_False check simp_thms Let_def prod.case ck
        select_list_group [OF f(3) n(2) zs(2)] select_list_pkcs [OF f(4) n(3) zs(3)]
        select_list_pick [OF f(5) n(4) zs(4) e(1)] select_list_pick [OF f(6) n(5) zs(5) e(2)]
        select_list_hmac [OF f(7) n(6) zs(6)])
      (simp add: negotiate_def reply_of_def ck cm silc_cipher_is_supported_def [abs_def]
        silc_hash_is_supported_def [abs_def] ptr_bytes_def [of "Some v"] split: sum.split)
qed

text \<open>What is chosen is not empty and not longer than the list it is chosen from.\<close>

lemma pick_chosen:
  assumes "pick st supported l = Inr i"
  shows "supported i" "i \<in> set (split_comma (ptr_bytes l))" "length i \<le> length (ptr_bytes l)"
  using assms split_comma_length [of i "ptr_bytes l"] by (auto simp: pick_def dest: find_in_set split: option.splits)

lemma negotiate_chosen:
  assumes ok: "start_ok rp" and nm: "named reg" and c: "negotiate reg rp = Inr c"
  shows "ch_group c \<noteq> []" "ch_pkcs c \<noteq> []" "ch_cipher c \<noteq> []" "ch_hash c \<noteq> []" "ch_hmac c \<noteq> []"
    "length (ch_group c) \<le> unat (sp_ke_grp_len rp)" "length (ch_pkcs c) \<le> unat (sp_pkcs_alg_len rp)"
    "length (ch_cipher c) \<le> unat (sp_enc_alg_len rp)" "length (ch_hash c) \<le> unat (sp_hash_alg_len rp)"
    "length (ch_hmac c) \<le> unat (sp_hmac_alg_len rp)"
    "ch_comp c = ptr_bytes (snd (select_comp (sp_comp_alg_list rp)))"
proof -
  have r: "start_raw rp" and n: "sp_pkcs_alg_len rp \<noteq> 0" using ok by (auto simp: start_ok_def)
  note l = start_raw_fields(1-8) [OF r, THEN field_okD(1)]
  from c have g: "pick SILC_SKE_STATUS_UNKNOWN_GROUP group_supported (sp_ke_grp_list rp) = Inr (ch_group c)"
    and p: "pick SILC_SKE_STATUS_UNKNOWN_PKCS
       (\<lambda>i. i \<in> set (rg_pkcs reg) \<or> 44 \<notin> set (ptr_bytes (sp_pkcs_alg_list rp))) (sp_pkcs_alg_list rp) = Inr (ch_pkcs c)"
    and e: "pick SILC_SKE_STATUS_UNKNOWN_CIPHER (\<lambda>i. i \<in> set (rg_ciphers reg)) (sp_enc_alg_list rp) = Inr (ch_cipher c)"
    and h: "pick SILC_SKE_STATUS_UNKNOWN_HASH_FUNCTION (\<lambda>i. i \<in> set (rg_hashes reg)) (sp_hash_alg_list rp) = Inr (ch_hash c)"
    and m: "pick SILC_SKE_STATUS_UNKNOWN_HMAC (\<lambda>i. i \<in> set (rg_hmacs reg)) (sp_hmac_alg_list rp) = Inr (ch_hmac c)"
    and k: "ch_comp c = ptr_bytes (snd (select_comp (sp_comp_alg_list rp)))"
    by (auto simp: negotiate_def split: if_splits sum.splits)
  show "ch_comp c = ptr_bytes (snd (select_comp (sp_comp_alg_list rp)))" by (rule k)
  show "ch_group c \<noteq> []" using pick_chosen(1) [OF g] by (auto simp: silc_ske_groups_def ascii_def)
  show "ch_cipher c \<noteq> []" "ch_hash c \<noteq> []" "ch_hmac c \<noteq> []"
    using pick_chosen(1) [OF e] pick_chosen(1) [OF h] pick_chosen(1) [OF m] nm by (auto simp: named_def)
  show "ch_pkcs c \<noteq> []"
  proof (cases "44 \<in> set (ptr_bytes (sp_pkcs_alg_list rp))")
    case True
    then show ?thesis using pick_chosen(1) [OF p] nm by (auto simp: named_def)
  next
    case False
    then show ?thesis using pick_chosen(2) [OF p] l(4) n by (auto simp: split_comma_single unat_eq_0)
  qed
  show "length (ch_group c) \<le> unat (sp_ke_grp_len rp)" "length (ch_pkcs c) \<le> unat (sp_pkcs_alg_len rp)"
    "length (ch_cipher c) \<le> unat (sp_enc_alg_len rp)" "length (ch_hash c) \<le> unat (sp_hash_alg_len rp)"
    "length (ch_hmac c) \<le> unat (sp_hmac_alg_len rp)"
    using pick_chosen(3) [OF g] pick_chosen(3) [OF p] pick_chosen(3) [OF e] pick_chosen(3) [OF h] pick_chosen(3) [OF m] l
    by simp_all
qed

lemma select_comp_ok:
  assumes "field_ok len ptr" and "0 \<notin> set (ptr_bytes ptr)" and "select_comp ptr = (cl, cp)"
  shows "field_ok cl cp" "unat cl \<le> unat len"
proof -
  have "field_ok cl cp \<and> unat cl \<le> unat len"
  proof (cases "cp")
    case None
    then show ?thesis using assms(3) by (auto simp: select_comp_def field_ok_def split: option.splits if_splits)
  next
    case (Some i)
    then obtain d where d: "ptr = Some d" "find (\<lambda>item. item = ascii ''none'') (split_comma d) = Some i" "cl = of_nat (length i)"
      using assms(2,3) by (auto simp: select_comp_def cstr_id select_loop_find ptr_bytes_def split: option.splits if_splits)
    then have i: "i \<in> set (split_comma d)" "i = ascii ''none''" by (auto dest: find_in_set)
    then have "length i = 4" by (simp add: ascii_def)
    then show ?thesis
      using split_comma_length [OF i(1)] field_okD(1) [OF assms(1)] d Some by (auto simp: field_ok_def ptr_bytes_def)
  qed
  then show "field_ok cl cp" "unat cl \<le> unat len" by auto
qed

lemma unat_start_len:
  assumes "v + unat g + unat p + unat e + unat h + unat m + unat c < 65502"
  shows "unat (start_len v g p e h m c) = 34 + v + unat g + unat p + unat e + unat h + unat m + unat c"
  using assms by (simp add: start_len_def SILC_SKE_COOKIE_LEN_def unat_of_nat_u16 del: of_nat_add of_nat_unat)

lemma length_select_cookie:
  "length cookie = 16 \<Longrightarrow> length (fst (select_cookie flags port cookie)) = 16"
  by (simp add: select_cookie_def)

lemma reply_ok:
  assumes ok: "start_ok rp" and z: "nul_free rp" and nm: "named reg" and c: "negotiate reg rp = Inr c"
    and v: "v \<noteq> []" "unat (sp_len rp) + length v < 65536"
  shows "start_ok (fst (reply_of v port rp c))" "reply_choice (fst (reply_of v port rp c)) = c"
proof -
  have r: "start_raw rp" and len: "unat (sp_len rp) = start_total rp" using ok by (auto simp: start_ok_def)
  note f = start_raw_fields [OF r] and n = negotiate_chosen [OF ok nm c]
  obtain cookie rport where ck: "select_cookie (sp_flags rp) port (ptr_bytes (sp_cookie rp)) = (cookie, rport)"
    by fastforce
  obtain cl cp where cm: "select_comp (sp_comp_alg_list rp) = (cl, cp)" by fastforce
  have "0 \<notin> set (ptr_bytes (sp_comp_alg_list rp))" using z by (simp add: nul_free_def)
  note co = select_comp_ok [OF f(8) this cm]
  have lc: "length cookie = 16"
    using length_select_cookie [of "ptr_bytes (sp_cookie rp)" "sp_flags rp" port] ck field_okD(1) [OF f(1)] f(9)
    by (simp add: SILC_SKE_COOKIE_LEN_def)
  have small: "18 + length v + length (ch_group c) + length (ch_pkcs c) + length (ch_cipher c) + length (ch_hash c)
      + length (ch_hmac c) + unat cl + 16 < 65536"
    using v(2) len n(6-10) co(2) f(9) by (simp add: start_total_def SILC_SKE_COOKIE_LEN_def)
  show "reply_choice (fst (reply_of v port rp c)) = c"
    using n(11) by (simp add: reply_choice_def reply_of_def ck cm ptr_bytes_def [of "Some _"])
  show "start_ok (fst (reply_of v port rp c))"
    using small n(1-5) co(1) lc v(1)
    by (simp add: start_ok_def start_raw_def start_total_def reply_of_def ck cm field_ok_def [of _ "Some _"] SILC_SKE_COOKIE_LEN_def
        unat_start_len of_nat_u16_eq_0 unat_of_nat_u16) (use lc in auto)
qed

section \<open>The proposal of an implementation\<close>

definition plain_names :: "bytes list \<Rightarrow> bool" where
  "plain_names ns \<longleftrightarrow> ns \<noteq> [] \<and> list_all (\<lambda>n. n \<noteq> [] \<and> 0 \<notin> set n \<and> 44 \<notin> set n) ns"

definition plain_registry :: "silc_crypto \<Rightarrow> bool" where
  "plain_registry reg \<longleftrightarrow>
     plain_names (rg_ciphers reg) \<and> plain_names (rg_hashes reg) \<and> plain_names (rg_hmacs reg) \<and> plain_names (rg_pkcs reg)"

lemma split_comma_append: "44 \<notin> set n \<Longrightarrow> split_comma (n @ 44 # s) = n # split_comma s"
  by (induction n) auto

lemma names_list_Some: "ns \<noteq> [] \<Longrightarrow> \<exists>d. names_list ns = Some d"
  by (simp add: names_list_def)

lemma names_list_Cons:
  "names_list [n] = Some n" "names_list (n # m # ns) = Some (n @ 44 # the (names_list (m # ns)))"
  by (simp_all add: names_list_def butlast_append)

lemma split_names_list: "plain_names ns \<Longrightarrow> split_comma (ptr_bytes (names_list ns)) = ns"
proof (induction ns rule: induct_list012)
  case (2 n)
  then show ?case by (simp add: names_list_Cons ptr_bytes_def plain_names_def split_comma_single)
next
  case (3 n m ns)
  then have "split_comma (ptr_bytes (names_list (m # ns))) = m # ns" by (simp add: plain_names_def)
  then show ?case using 3 names_list_Some [of "m # ns"]
    by (auto simp: names_list_Cons plain_names_def split_comma_append ptr_bytes_def)
qed (simp add: plain_names_def)

lemma names_list_plain:
  "plain_names ns \<Longrightarrow> 0 \<notin> set (ptr_bytes (names_list ns)) \<and> ptr_bytes (names_list ns) \<noteq> []"
proof (induction ns rule: induct_list012)
  case (3 n m ns)
  then have "0 \<notin> set (ptr_bytes (names_list (m # ns)))" by (simp add: plain_names_def)
  then show ?case using 3 names_list_Some [of "m # ns"]
    by (auto simp: names_list_Cons plain_names_def ptr_bytes_def)
qed (auto simp: plain_names_def names_list_Cons ptr_bytes_def)

lemma pick_first:
  assumes "plain_names ns" and "supported (List.hd ns)"
  shows "pick st supported (names_list ns) = Inr (List.hd ns)"
  using assms split_names_list [OF assms(1)] by (cases ns) (auto simp: pick_def plain_names_def)

lemma proposal_list_names:
  assumes "plain_names ns" and "length (ptr_bytes (names_list ns)) < 65536"
  obtains l where "proposal_list (names_list ns) = (l, names_list ns)" "field_ok l (names_list ns)" "l \<noteq> 0"
    "unat l = length (ptr_bytes (names_list ns))"
  using assms names_list_plain [OF assms(1)] names_list_Some [of ns]
  by (auto simp: proposal_list_def field_ok_def ptr_bytes_def plain_names_def of_nat_u16_eq_0)

lemma plain_groups: "plain_names (map snd silc_ske_groups)"
  by (simp add: plain_names_def silc_ske_groups_def ascii_def)


text \<open>The proposal is a well-formed start payload, from which the own registry chooses its first names.\<close>

definition proposal_size :: "silc_crypto \<Rightarrow> bytes \<Rightarrow> nat" where
  "proposal_size reg version =
     34 + length version + length (ptr_bytes (names_list (map snd silc_ske_groups)))
     + length (ptr_bytes (names_list (rg_pkcs reg))) + length (ptr_bytes (names_list (rg_ciphers reg)))
     + length (ptr_bytes (names_list (rg_hashes reg))) + length (ptr_bytes (names_list (rg_hmacs reg))) + 4"

lemma assemble_ok:
  fixes flags :: byte and port :: u16 and defaults :: silc_crypto
  assumes r: "plain_registry reg" and rnd: "length rnd = 16" and v: "version \<noteq> []" "0 \<notin> set version"
    and s: "proposal_size reg version < 65536"
  defines "p \<equiv> silc_ske_assemble_security_properties reg defaults rnd port flags version False"
  shows "start_ok p" "nul_free p" "unat (sp_len p) = proposal_size reg version"
    "sp_ke_grp_list p = names_list (map snd silc_ske_groups)" "sp_pkcs_alg_list p = names_list (rg_pkcs reg)"
    "sp_enc_alg_list p = names_list (rg_ciphers reg)" "sp_hash_alg_list p = names_list (rg_hashes reg)"
    "sp_hmac_alg_list p = names_list (rg_hmacs reg)" "sp_comp_alg_list p = Some (ascii ''none'')"
    "sp_version p = Some version" "sp_flags p = flags"
proof -
  note pl = r [unfolded plain_registry_def]
  obtain lg where g: "proposal_list (names_list (map snd silc_ske_groups)) = (lg, names_list (map snd silc_ske_groups))"
      "field_ok lg (names_list (map snd silc_ske_groups))" "lg \<noteq> 0" "unat lg = length (ptr_bytes (names_list (map snd silc_ske_groups)))"
    by (rule proposal_list_names [OF plain_groups]) (use s in \<open>simp_all add: proposal_size_def\<close>)
  obtain lp where k: "proposal_list (names_list (rg_pkcs reg)) = (lp, names_list (rg_pkcs reg))"
      "field_ok lp (names_list (rg_pkcs reg))" "lp \<noteq> 0" "unat lp = length (ptr_bytes (names_list (rg_pkcs reg)))"
    by (rule proposal_list_names [of "rg_pkcs reg"]) (use s pl in \<open>simp_all add: proposal_size_def\<close>)
  obtain le where e: "proposal_list (names_list (rg_ciphers reg)) = (le, names_list (rg_ciphers reg))"
      "field_ok le (names_list (rg_ciphers reg))" "le \<noteq> 0" "unat le = length (ptr_bytes (names_list (rg_ciphers reg)))"
    by (rule proposal_list_names [of "rg_ciphers reg"]) (use s pl in \<open>simp_all add: proposal_size_def\<close>)
  obtain lh where h: "proposal_list (names_list (rg_hashes reg)) = (lh, names_list (rg_hashes reg))"
      "field_ok lh (names_list (rg_hashes reg))" "lh \<noteq> 0" "unat lh = length (ptr_bytes (names_list (rg_hashes reg)))"
    by (rule proposal_list_names [of "rg_hashes reg"]) (use s pl in \<open>simp_all add: proposal_size_def\<close>)
  obtain lm where m: "proposal_list (names_list (rg_hmacs reg)) = (lm, names_list (rg_hmacs reg))"
      "field_ok lm (names_list (rg_hmacs reg))" "lm \<noteq> 0" "unat lm = length (ptr_bytes (names_list (rg_hmacs reg)))"
    by (rule proposal_list_names [of "rg_hmacs reg"]) (use s pl in \<open>simp_all add: proposal_size_def\<close>)
  have c: "proposal_list (Some (ascii ''none'')) = (4, Some (ascii ''none''))"
    by (simp add: proposal_list_def ascii_def)
  define cookie where "cookie = (if flags AND SILC_SKE_SP_FLAG_IV_INCLUDED \<noteq> 0 \<and> port \<noteq> 0 then SILC_PUT16_MSB port @ drop 2 rnd else rnd)"
  have ck: "length cookie = 16" using rnd by (simp add: cookie_def)
  have p: "p = \<lparr>sp_flags = flags, sp_len = start_len (unat (of_nat (length version) :: u16)) lg lp le lh lm 4,
      sp_cookie = Some cookie, sp_cookie_len = of_nat SILC_SKE_COOKIE_LEN,
      sp_version = Some version, sp_version_len = of_nat (length version),
      sp_ke_grp_len = lg, sp_ke_grp_list = names_list (map snd silc_ske_groups),
      sp_pkcs_alg_len = lp, sp_pkcs_alg_list = names_list (rg_pkcs reg),
      sp_enc_alg_len = le, sp_enc_alg_list = names_list (rg_ciphers reg),
      sp_hash_alg_len = lh, sp_hash_alg_list = names_list (rg_hashes reg),
      sp_hmac_alg_len = lm, sp_hmac_alg_list = names_list (rg_hmacs reg),
      sp_comp_alg_len = 4, sp_comp_alg_list = Some (ascii ''none'')\<rparr>"
    unfolding p_def silc_ske_assemble_security_properties_def silc_ske_get_supported_groups_def
      silc_pkcs_get_supported_def silc_cipher_get_supported_def silc_hash_get_supported_def silc_hmac_get_supported_def
    by (simp only: Let_def if_False prod.case g(1) k(1) e(1) h(1) m(1) c cookie_def simp_thms if_True)
  have lv: "length version < 65536" using s by (simp add: proposal_size_def)
  have len: "unat (start_len (length version) lg lp le lh lm 4) = proposal_size reg version"
    using s by (subst unat_start_len) (simp_all add: proposal_size_def g k e h m)
  show "start_ok p" "unat (sp_len p) = proposal_size reg version"
    using len g(2,3,4) k(2,3,4) e(2,3,4) h(2,3,4) m(2,3,4) v(1) lv ck
    by (auto simp: p start_ok_def start_raw_def start_total_def proposal_size_def field_ok_def [of _ "Some _"]
        SILC_SKE_COOKIE_LEN_def of_nat_u16_eq_0 unat_of_nat_u16 ascii_def)
  show "nul_free p"
    using v(2) names_list_plain [OF plain_groups] names_list_plain [of "rg_pkcs reg"] names_list_plain [of "rg_ciphers reg"]
      names_list_plain [of "rg_hashes reg"] names_list_plain [of "rg_hmacs reg"] pl
    by (simp add: p nul_free_def ptr_bytes_def [of "Some _"] ascii_def)
qed (simp_all add: p_def silc_ske_assemble_security_properties_def proposal_list_def ascii_def
  silc_ske_get_supported_groups_def silc_pkcs_get_supported_def silc_cipher_get_supported_def
  silc_hash_get_supported_def silc_hmac_get_supported_def split: option.split)

section \<open>Properties\<close>


definition demo_registry :: silc_crypto where
  "demo_registry =
     \<lparr>rg_ciphers = [[65], [66]], rg_hashes = [[104], [105]], rg_hmacs = [[109, 45, 104, 45, 57], [109, 45, 105]],
      rg_pkcs = [[114]]\<rparr>"

lemmas demo_eval = demo_registry_def plain_registry_def plain_names_def named_def ascii_def silc_parse_version_string_def
  sublist_def after_def proposal_size_def names_list_def silc_ske_groups_def ptr_bytes_def hmac_hash_name_def

lemma demo_registry_ok:
  "plain_registry demo_registry" "named demo_registry" "proposal_size demo_registry (ascii ''SILC-1.2-1.1'') < 60000"
  by (simp_all add: demo_eval)

lemma demo_version:
  "silc_parse_version_string (ascii ''SILC-1.2-1.1'')" "0 \<notin> set (ascii ''SILC-1.2-1.1'')" "ascii ''SILC-1.2-1.1'' \<noteq> []"
  by (simp_all add: silc_parse_version_string_def sublist_code ascii_def after_def)




text \<open>A proposal of which only the second group and the second MAC are known.\<close>

definition demo_proposal :: silc_ske_start_payload where
  "demo_proposal =
     \<lparr>sp_flags = 4, sp_len = 78, sp_cookie = Some (replicate 16 7), sp_cookie_len = 16,
      sp_version = Some (ascii ''SILC-1.2-1.1''), sp_version_len = 12,
      sp_ke_grp_len = 23, sp_ke_grp_list = Some (120 # 44 # ascii ''diffie-hellman-group1''),
      sp_pkcs_alg_len = 1, sp_pkcs_alg_list = Some [114],
      sp_enc_alg_len = 1, sp_enc_alg_list = Some [66],
      sp_hash_alg_len = 1, sp_hash_alg_list = Some [104],
      sp_hmac_alg_len = 6, sp_hmac_alg_list = Some [122, 44, 109, 45, 105, 44],
      sp_comp_alg_len = 0, sp_comp_alg_list = None\<rparr>"

lemma demo_proposal_ok: "start_ok demo_proposal" "nul_free demo_proposal"
  by (simp_all add: start_ok_def start_raw_def start_total_def demo_proposal_def field_ok_def SILC_SKE_COOKIE_LEN_def
      nul_free_def ptr_bytes_def ascii_def)

lemma demo_proposal_choice:
  "negotiate demo_registry demo_proposal =
     Inr \<lparr>ch_group = ascii ''diffie-hellman-group1'', ch_pkcs = [114], ch_cipher = [66],
          ch_hash = [104], ch_hmac = [109, 45, 105], ch_comp = []\<rparr>"
proof -
  have "split_comma (120 # 44 # ascii ''diffie-hellman-group1'') = [[120], ascii ''diffie-hellman-group1'']"
  proof -
    have "44 \<notin> set (ascii ''diffie-hellman-group1'')" by (simp add: ascii_def)
    then show ?thesis by (simp add: split_comma_single)
  qed
  moreover have "\<not> group_supported [120]" "group_supported (ascii ''diffie-hellman-group1'')"
    by (simp_all add: silc_ske_groups_def ascii_def)
  ultimately have "pick st group_supported (Some (120 # 44 # ascii ''diffie-hellman-group1'')) = Inr (ascii ''diffie-hellman-group1'')" for st
    by (simp only: pick_def ptr_bytes_def option.case find.simps if_True if_False sum.case)
  then show ?thesis
    using demo_version(1)
    by (simp add: negotiate_def demo_proposal_def) (simp add: pick_def demo_registry_def hmac_hash_name_def select_comp_def ptr_bytes_def)
qed


text \<open>
  A list with a zero byte in it and no comma before that: the reply has the string up to the
  zero byte but the length of the whole list, so that encoding the reply reads behind the string.
\<close>

theorem silc_ske_select_zero_byte:
  assumes "field_ok (sp_ke_grp_len rp) (sp_ke_grp_list rp)" and "sp_ke_grp_list rp = Some (g @ 0 # rest)"
    and "group_supported g"
    and "silc_ske_select_security_properties reg version port (Some rp) = Inr (reply, sprop)"
  shows "sp_ke_grp_list reply = Some g \<and> unat (sp_ke_grp_len reply) = length g + 1 + length rest"
proof -
  have "0 \<notin> set g" "44 \<notin> set g" using assms(3) by (auto simp: silc_ske_groups_def ascii_def)
  then have "cstr (g @ 0 # rest) = g" by (auto simp: cstr_def takeWhile_append takeWhile_eq_all_conv)
  then have sel: "select_list f (sp_ke_grp_len rp) (sp_ke_grp_list rp) = Some (sp_ke_grp_len rp, Some g)" for f
    using \<open>44 \<notin> set g\<close> by (simp add: select_list_def assms(2))
  have "sp_ke_grp_list reply = Some g \<and> sp_ke_grp_len reply = sp_ke_grp_len rp"
    using assms(4) unfolding silc_ske_select_security_properties_def option.case sel
    by (auto simp: Let_def split: if_splits prod.splits sum.splits option.splits)
  then show ?thesis using field_okD(1) [OF assms(1)] assms(2) by (simp add: ptr_bytes_def)
qed

definition demo_zero :: silc_ske_start_payload where
  "demo_zero = demo_proposal
     \<lparr>sp_ke_grp_len := 25, sp_ke_grp_list := Some (ascii ''diffie-hellman-group1'' @ 0 # [1, 2, 3]), sp_len := 80\<rparr>"

theorem silc_ske_select_zero_byte_witness:
  "\<exists>reply sprop. start_ok demo_zero
     \<and> silc_ske_select_security_properties demo_registry (Some [1]) 0 (Some demo_zero) = Inr (reply, sprop)
     \<and> sp_ke_grp_list reply = Some (ascii ''diffie-hellman-group1'') \<and> unat (sp_ke_grp_len reply) = 25"
proof -
  have ok: "start_ok demo_zero" "field_ok (sp_ke_grp_len demo_zero) (sp_ke_grp_list demo_zero)"
    by (simp_all add: start_ok_def start_raw_def start_total_def demo_zero_def demo_proposal_def field_ok_def
        SILC_SKE_COOKIE_LEN_def ascii_def)
  have sel: "select_list f 25 (Some (ascii ''diffie-hellman-group1'' @ [0, 1, 2, 3])) = Some (25, Some (ascii ''diffie-hellman-group1''))"
    "select_list (silc_pkcs_find_algorithm demo_registry) 1 (Some [114]) = Some (1, Some [114])"
    "select_list (silc_cipher_is_supported demo_registry) 1 (Some [66]) = Some (1, Some [66])"
    "select_list (silc_hash_is_supported demo_registry) 1 (Some [104]) = Some (1, Some [104])"
    "select_list (silc_hmac_is_supported demo_registry) 6 (Some [122, 44, 109, 45, 105, 44]) = Some (3, Some [109, 45, 105])" for f
    by (simp_all add: select_list_def cstr_def ascii_def select_loop_find demo_registry_def silc_hmac_is_supported_def)
  have grp: "silc_ske_group_get_by_name (ascii ''diffie-hellman-group1'') = Inr (1, ascii ''diffie-hellman-group1'')"
    by (simp add: silc_ske_group_get_by_name_def silc_ske_groups_def ascii_def)
  have dup: "silc_memdup (ascii ''SILC-1.2-1.1'') = Some (ascii ''SILC-1.2-1.1'')"
    by (simp add: silc_memdup_Some SILC_MAX_ALLOC_def ascii_def)
  have "\<not> isl (silc_ske_select_security_properties demo_registry (Some [1]) 0 (Some demo_zero))"
    using demo_version(1,2) sel grp dup
    by (simp add: silc_ske_select_security_properties_def demo_zero_def demo_proposal_def silc_ske_check_version_def
        silc_memdup_Some SILC_MAX_ALLOC_def select_cookie_def SILC_SKE_SP_FLAG_IV_INCLUDED_def ptr_bytes_def
        demo_registry_def silc_cipher_alloc_def silc_hash_alloc_def
        silc_hmac_alloc_def hmac_hash_name_def select_comp_def cstr_id)
  then obtain reply sprop where res:
      "silc_ske_select_security_properties demo_registry (Some [1]) 0 (Some demo_zero) = Inr (reply, sprop)"
    by (cases "silc_ske_select_security_properties demo_registry (Some [1]) 0 (Some demo_zero)") auto
  have l: "sp_ke_grp_list demo_zero = Some (ascii ''diffie-hellman-group1'' @ 0 # [1, 2, 3])" by (simp add: demo_zero_def)
  have g: "group_supported (ascii ''diffie-hellman-group1'')" by (simp add: silc_ske_groups_def)
  have "length (ascii ''diffie-hellman-group1'') + 1 + length [1, 2, 3 :: byte] = 25" by (simp add: ascii_def)
  then show ?thesis using silc_ske_select_zero_byte [OF ok(2) l g res] ok(1) res by metis
qed

end
