(* ===== verification/Silc_Cipher.thy ===== *)
theory Silc_Cipher
  imports Silc_Mpbin
begin

text \<open>
  \<open>lib/silccrypt/silccipher.c\<close> and the modes of operation of \<open>aes.c\<close>: cipher block chaining and
  counter mode. The block cipher with its key schedule is a parameter of the model: the functions
  \<open>aes_enc\<close> and \<open>aes_dec\<close> of the context are \<open>aes_encrypt\<close> and \<open>aes_decrypt\<close> for the key that was
  set. Source and destination may be the same memory; the result is the content of the
  destination.
\<close>

section \<open>Contexts\<close>

record aes_context =
  aes_enc :: "bytes \<Rightarrow> bytes"
  aes_dec :: "bytes \<Rightarrow> bytes"
  aes_pad :: bytes
  aes_pos :: nat

datatype silc_cipher_mode =
  SILC_CIPHER_MODE_ECB | SILC_CIPHER_MODE_CBC | SILC_CIPHER_MODE_CTR | SILC_CIPHER_MODE_CFB | SILC_CIPHER_MODE_OFB

text \<open>The AES entries of \<open>silc_default_ciphers\<close>, by the functions they are made of.\<close>

datatype silc_cipher_object = AES_CTR | AES_CBC

record silc_cipher =
  ci_cipher :: silc_cipher_object
  ci_context :: aes_context
  ci_iv :: bytes

section \<open>Cipher block chaining\<close>

text \<open>The exclusive or of two blocks, in four words as the code does it.\<close>

definition xor_block :: "bytes \<Rightarrow> bytes \<Rightarrow> bytes" where
  "xor_block a b =
     SILC_PUT32_MSB (SILC_GET32_MSB a XOR SILC_GET32_MSB b)
     @ SILC_PUT32_MSB (SILC_GET32_MSB (drop 4 a) XOR SILC_GET32_MSB (drop 4 b))
     @ SILC_PUT32_MSB (SILC_GET32_MSB (drop 8 a) XOR SILC_GET32_MSB (drop 8 b))
     @ SILC_PUT32_MSB (SILC_GET32_MSB (drop 12 a) XOR SILC_GET32_MSB (drop 12 b))"

fun cbc_encrypt_blocks :: "(bytes \<Rightarrow> bytes) \<Rightarrow> nat \<Rightarrow> bytes \<Rightarrow> bytes \<Rightarrow> bytes \<times> bytes" where
  "cbc_encrypt_blocks E 0 iv src = (iv, [])"
| "cbc_encrypt_blocks E (Suc nb) iv src =
     (let iv1 = E (xor_block iv src); (iv2, dst) = cbc_encrypt_blocks E nb iv1 (drop 16 src)
      in (iv2, iv1 @ dst))"

fun cbc_decrypt_blocks :: "(bytes \<Rightarrow> bytes) \<Rightarrow> nat \<Rightarrow> bytes \<Rightarrow> bytes \<Rightarrow> bytes \<times> bytes" where
  "cbc_decrypt_blocks D 0 iv src = (iv, [])"
| "cbc_decrypt_blocks D (Suc nb) iv src =
     (let tmp = take 16 src; d = xor_block (D (take 16 src)) iv;
          (iv2, dst) = cbc_decrypt_blocks D nb tmp (drop 16 src)
      in (iv2, d @ dst))"

text \<open>The result is the chaining value left in \<open>iv\<close> and the destination, or nothing for FALSE.\<close>

definition silc_aes_cbc_encrypt :: "aes_context \<Rightarrow> bytes \<Rightarrow> bytes \<Rightarrow> (aes_context \<times> bytes \<times> bytes) option" where
  "silc_aes_cbc_encrypt ctx src iv =
     (if length src mod 16 \<noteq> 0 then None
      else Some (ctx, cbc_encrypt_blocks (aes_enc ctx) (length src div 16) iv src))"

definition silc_aes_cbc_decrypt :: "aes_context \<Rightarrow> bytes \<Rightarrow> bytes \<Rightarrow> (aes_context \<times> bytes \<times> bytes) option" where
  "silc_aes_cbc_decrypt ctx src iv =
     (if length src mod 16 \<noteq> 0 then None
      else Some (ctx, cbc_decrypt_blocks (aes_dec ctx) (length src div 16) iv src))"

definition silc_aes_cbc_set_iv :: "aes_context \<Rightarrow> aes_context" where
  "silc_aes_cbc_set_iv ctx = ctx"

section \<open>Counter mode\<close>

text \<open>\<open>for (k = 15; k >= 0; k--) if (++iv[k]) break;\<close>\<close>

fun ctr_carry :: "nat \<Rightarrow> bytes \<Rightarrow> bytes" where
  "ctr_carry 0 iv = iv"
| "ctr_carry (Suc k) iv =
     (let iv' = iv[k := iv ! k + 1] in if iv' ! k \<noteq> 0 then iv' else ctr_carry k iv')"

fun ctr_loop :: "(bytes \<Rightarrow> bytes) \<Rightarrow> nat \<Rightarrow> bytes \<Rightarrow> bytes \<Rightarrow> bytes \<Rightarrow> nat \<times> bytes \<times> bytes \<times> bytes" where
  "ctr_loop E i iv pad [] = (i, iv, pad, [])"
| "ctr_loop E i iv pad (b # src) =
     (let (i, iv, pad) = (if i = 16 then let iv = ctr_carry 16 iv in (0, iv, E iv) else (i, iv, pad));
          (i', iv', pad', dst) = ctr_loop E (i + 1) iv pad src
      in (i', iv', pad', (b XOR pad ! i) # dst))"

definition silc_aes_ctr_encrypt :: "aes_context \<Rightarrow> bytes \<Rightarrow> bytes \<Rightarrow> (aes_context \<times> bytes \<times> bytes) option" where
  "silc_aes_ctr_encrypt ctx src iv =
     (let (i, iv', pad, dst) =
        ctr_loop (aes_enc ctx) (if aes_pos ctx = 0 then 16 else aes_pos ctx) iv (aes_pad ctx) src
      in Some (ctx\<lparr>aes_pad := pad, aes_pos := i\<rparr>, iv', dst))"

definition silc_aes_ctr_decrypt :: "aes_context \<Rightarrow> bytes \<Rightarrow> bytes \<Rightarrow> (aes_context \<times> bytes \<times> bytes) option" where
  "silc_aes_ctr_decrypt ctx src iv = silc_aes_ctr_encrypt ctx src iv"

definition silc_aes_ctr_set_iv :: "aes_context \<Rightarrow> aes_context" where
  "silc_aes_ctr_set_iv ctx = ctx\<lparr>aes_pos := 0\<rparr>"

section \<open>The cipher interface\<close>

definition silc_cipher_get_mode :: "silc_cipher \<Rightarrow> silc_cipher_mode" where
  "silc_cipher_get_mode c = (case ci_cipher c of AES_CTR \<Rightarrow> SILC_CIPHER_MODE_CTR | AES_CBC \<Rightarrow> SILC_CIPHER_MODE_CBC)"

definition silc_cipher_get_block_len :: "silc_cipher \<Rightarrow> nat" where
  "silc_cipher_get_block_len c = 16"

definition silc_cipher_get_iv_len :: "silc_cipher \<Rightarrow> nat" where
  "silc_cipher_get_iv_len c = 16"

definition silc_cipher_get_iv :: "silc_cipher \<Rightarrow> bytes" where
  "silc_cipher_get_iv c = ci_iv c"

text \<open>
  Without an \<open>iv\<close> argument the vector of the cipher is used and updated; an argument is updated in
  its place. The results are the cipher, the vector that was used and the destination.
\<close>

definition with_iv :: "silc_cipher \<Rightarrow> bytes option \<Rightarrow> (aes_context \<times> bytes \<times> bytes) option
     \<Rightarrow> (silc_cipher \<times> bytes \<times> bytes) option" where
  "with_iv c iv r =
     map_option (\<lambda>(ctx, iv', dst). (case iv of None \<Rightarrow> c\<lparr>ci_context := ctx, ci_iv := iv'\<rparr> | Some _ \<Rightarrow> c\<lparr>ci_context := ctx\<rparr>, iv', dst)) r"

definition silc_cipher_encrypt :: "silc_cipher \<Rightarrow> bytes \<Rightarrow> bytes option \<Rightarrow> (silc_cipher \<times> bytes \<times> bytes) option" where
  "silc_cipher_encrypt c src iv =
     (let v = (case iv of None \<Rightarrow> ci_iv c | Some v \<Rightarrow> v)
      in with_iv c iv (case ci_cipher c of
           AES_CTR \<Rightarrow> silc_aes_ctr_encrypt (ci_context c) src v
         | AES_CBC \<Rightarrow> silc_aes_cbc_encrypt (ci_context c) src v))"

definition silc_cipher_decrypt :: "silc_cipher \<Rightarrow> bytes \<Rightarrow> bytes option \<Rightarrow> (silc_cipher \<times> bytes \<times> bytes) option" where
  "silc_cipher_decrypt c src iv =
     (let v = (case iv of None \<Rightarrow> ci_iv c | Some v \<Rightarrow> v)
      in with_iv c iv (case ci_cipher c of
           AES_CTR \<Rightarrow> silc_aes_ctr_decrypt (ci_context c) src v
         | AES_CBC \<Rightarrow> silc_aes_cbc_decrypt (ci_context c) src v))"

definition silc_cipher_set_iv :: "silc_cipher \<Rightarrow> bytes option \<Rightarrow> silc_cipher" where
  "silc_cipher_set_iv c iv =
     (let c = (case iv of None \<Rightarrow> c | Some v \<Rightarrow> c\<lparr>ci_iv := take (silc_cipher_get_iv_len c) v\<rparr>)
      in c\<lparr>ci_context := (case ci_cipher c of
              AES_CTR \<Rightarrow> silc_aes_ctr_set_iv (ci_context c)
            | AES_CBC \<Rightarrow> silc_aes_cbc_set_iv (ci_context c))\<rparr>)"

section \<open>Blocks\<close>

definition xor_bytes :: "bytes \<Rightarrow> bytes \<Rightarrow> bytes" where
  "xor_bytes a b = map2 (XOR) a b"

lemma length_xor_block [simp]: "length (xor_block a b) = 16"
  by (simp add: xor_block_def)

lemma xor_word:
  "SILC_PUT32_MSB (SILC_GET32_MSB (a0 # a1 # a2 # a3 # as) XOR SILC_GET32_MSB (b0 # b1 # b2 # b3 # bs)) =
     [a0 XOR b0, a1 XOR b1, a2 XOR b2, a3 XOR b3]"
  unfolding SILC_GET32_MSB_def SILC_PUT32_MSB_def
  by (auto intro!: bit_word_eqI simp: bit_simps)

lemma xor_four:
  assumes "4 \<le> length x" "4 \<le> length y"
  shows "SILC_PUT32_MSB (SILC_GET32_MSB x XOR SILC_GET32_MSB y) = xor_bytes (take 4 x) (take 4 y)"
proof -
  have "\<exists>a b c d r. z = a # b # c # d # r" if "4 \<le> length z" for z :: bytes
    using that by (auto simp: numeral_eq_Suc Suc_le_length_iff)
  then obtain a b c d r a' b' c' d' r' where "x = a # b # c # d # r" "y = a' # b' # c' # d' # r'"
    using assms by metis
  then show ?thesis by (simp add: xor_word xor_bytes_def)
qed

lemma xor_bytes_split:
  "n \<le> length a \<Longrightarrow> n \<le> length b \<Longrightarrow> xor_bytes a b = xor_bytes (take n a) (take n b) @ xor_bytes (drop n a) (drop n b)"
  unfolding xor_bytes_def
  by (metis append_take_drop_id length_take min.absorb2 zip_append map_append)

lemma xor_block_bytes:
  assumes "length a = 16" and "16 \<le> length b"
  shows "xor_block a b = xor_bytes a (take 16 b)"
proof -
  have "xor_bytes a (take 16 b) =
      xor_bytes (take 4 a) (take 4 b) @ xor_bytes (take 4 (drop 4 a)) (take 4 (drop 4 b))
      @ xor_bytes (take 4 (drop 8 a)) (take 4 (drop 8 b)) @ xor_bytes (take 4 (drop 12 a)) (take 4 (drop 12 b))"
    using assms xor_bytes_split [of 4 a "take 16 b"] xor_bytes_split [of 4 "drop 4 a" "drop 4 (take 16 b)"]
      xor_bytes_split [of 4 "drop 8 a" "drop 8 (take 16 b)"]
    by (simp add: take_drop min_def)
  then show ?thesis using assms by (simp add: xor_block_def xor_four)
qed

lemma length_xor_bytes [simp]: "length (xor_bytes a b) = min (length a) (length b)"
  by (simp add: xor_bytes_def)

lemma xor_bytes_cancel: "length a = length b \<Longrightarrow> xor_bytes (xor_bytes a b) b = a"
  by (induction a b rule: list_induct2) (simp_all add: xor_bytes_def xor.assoc)

lemma xor_bytes_commute: "xor_bytes a b = xor_bytes b a"
  unfolding xor_bytes_def by (subst zip_commute) (simp add: case_prod_beta' xor.commute)

text \<open>The block cipher of a key: decryption inverts encryption on blocks.\<close>

definition block_cipher :: "(bytes \<Rightarrow> bytes) \<Rightarrow> (bytes \<Rightarrow> bytes) \<Rightarrow> bool" where
  "block_cipher E D \<longleftrightarrow> (\<forall>b. length b = 16 \<longrightarrow> length (E b) = 16 \<and> D (E b) = b)"

lemma block_cipherD:
  "block_cipher E D \<Longrightarrow> length b = 16 \<Longrightarrow> length (E b) = 16" "block_cipher E D \<Longrightarrow> length b = 16 \<Longrightarrow> D (E b) = b"
  by (auto simp: block_cipher_def)

lemma cbc_encrypt_length:
  assumes "block_cipher E D" and "length iv = 16"
  shows "length (snd (cbc_encrypt_blocks E nb iv src)) = 16 * nb \<and> length (fst (cbc_encrypt_blocks E nb iv src)) = 16"
  using assms(2)
proof (induction nb arbitrary: iv src)
  case (Suc nb)
  have "length (E (xor_block iv src)) = 16" using assms(1) by (simp add: block_cipherD(1))
  from Suc.IH [OF this, of "drop 16 src"] this show ?case by (simp add: Let_def case_prod_beta)
qed simp

text \<open>Decryption inverts encryption and ends with the same chaining value.\<close>

lemma cbc_roundtrip:
  assumes bc: "block_cipher E D" and "length iv = 16" and "length src = 16 * nb"
  shows "cbc_decrypt_blocks D nb iv (snd (cbc_encrypt_blocks E nb iv src)) = (fst (cbc_encrypt_blocks E nb iv src), src)"
  using assms(2,3)
proof (induction nb arbitrary: iv src)
  case (Suc nb)
  define iv1 where "iv1 = E (xor_block iv src)"
  have l1: "length iv1 = 16" using bc by (simp add: iv1_def block_cipherD(1))
  have "D iv1 = xor_block iv src" using bc by (simp add: iv1_def block_cipherD(2))
  also have "\<dots> = xor_bytes iv (take 16 src)" using Suc.prems by (simp add: xor_block_bytes)
  finally have "xor_block (D iv1) iv = take 16 src"
    using Suc.prems by (simp add: xor_block_bytes) (metis length_take min.absorb2 le_add1 mult_Suc_right xor_bytes_cancel xor_bytes_commute)
  moreover have "length (drop 16 src) = 16 * nb" using Suc.prems by simp
  ultimately show ?case
    using Suc.IH [OF l1, of "drop 16 src"] l1
    by (simp add: Let_def case_prod_beta flip: iv1_def)
qed simp

text \<open>Decrypting in two pieces is decrypting at once.\<close>

lemma cbc_decrypt_append:
  assumes "length a = 16 * m"
  shows "cbc_decrypt_blocks D (m + n) iv (a @ b) =
    (let (iv1, x) = cbc_decrypt_blocks D m iv a; (iv2, y) = cbc_decrypt_blocks D n iv1 b in (iv2, x @ y))"
  using assms
proof (induction m arbitrary: iv a)
  case (Suc m)
  then have "length (drop 16 a) = 16 * m" by simp
  from Suc.IH [OF this, of "take 16 a"] Suc.prems show ?case by (simp add: Let_def case_prod_beta)
qed simp

section \<open>The counter\<close>

lemma length_ctr_carry [simp]: "length (ctr_carry k iv) = length iv"
  by (induction k arbitrary: iv) (auto simp: Let_def)

lemma bin2mp_append: "silc_mp_bin2mp (a @ b) = silc_mp_bin2mp a * 256 ^ length b + silc_mp_bin2mp b"
proof (induction b rule: rev_induct)
  case (snoc x b)
  show ?case
    using snoc bin2mp_snoc [of "a @ b" x] by (simp add: algebra_simps)
qed (simp add: silc_mp_bin2mp_def)

text \<open>The first \<open>k\<close> bytes are incremented as a number, modulo its size; the others are unchanged.\<close>

lemma ctr_carry_take:
  "k \<le> length iv \<Longrightarrow> drop k (ctr_carry k iv) = drop k iv
     \<and> silc_mp_bin2mp (take k (ctr_carry k iv)) = (silc_mp_bin2mp (take k iv) + 1) mod 256 ^ k"
proof (induction k arbitrary: iv)
  case (Suc k)
  define iv' where "iv' = iv[k := iv ! k + 1]"
  have k: "k < length iv" using Suc.prems by simp
  have t: "take (Suc k) iv = take k iv @ [iv ! k]" "take (Suc k) iv' = take k iv @ [iv ! k + 1]"
    using k by (simp_all add: iv'_def take_Suc_conv_app_nth)
  have b: "silc_mp_bin2mp (take k iv) < 256 ^ k" using bin2mp_bound [of "take k iv"] k by simp
  show ?case
  proof (cases "iv ! k + 1 = 0")
    case False
    then have u: "unat (iv ! k + 1) = unat (iv ! k) + 1" by (metis unatSuc add.commute Suc_eq_plus1)
    then have "silc_mp_bin2mp (take k iv) * 256 + unat (iv ! k) + 1 < 256 ^ Suc k"
      using bin2mp_bound [of "take (Suc k) iv'"] k unfolding t by (simp add: iv'_def)
    then show ?thesis
      using k False t u by (simp add: Let_def iv'_def del: take_Suc_conv_app_nth)
  next
    case True
    then have m: "iv ! k = -1" by (metis add.commute add_eq_0_iff)
    then have u: "unat (iv ! k) = 255" by (simp add: unsigned_minus_1_eq_mask mask_eq_exp_minus_1)
    define iv2 where "iv2 = ctr_carry k iv'"
    have ih: "drop k iv2 = drop k iv'" "silc_mp_bin2mp (take k iv2) = (silc_mp_bin2mp (take k iv) + 1) mod 256 ^ k"
      using Suc.IH [of iv'] k by (simp_all add: iv2_def iv'_def)
    have n: "iv2 ! k = 0" using ih(1) k True by (metis Cons_nth_drop_Suc iv'_def iv2_def length_ctr_carry length_list_update list.inject nth_list_update_eq)
    have res: "ctr_carry (Suc k) iv = iv2" using k True by (simp add: Let_def iv2_def iv'_def)
    have "take (Suc k) iv2 = take k iv2 @ [0]" using k n by (simp add: take_Suc_conv_app_nth iv2_def iv'_def)
    moreover have "drop (Suc k) iv2 = drop (Suc k) iv"
      using ih(1) k by (metis drop_Suc tl_drop drop_update_cancel iv'_def lessI)
    ultimately show ?thesis
      unfolding res t(1) using ih(2) u by (simp add: mult_mod_right algebra_simps)
  qed
qed (simp add: silc_mp_bin2mp_def)


section \<open>The key stream\<close>

text \<open>
  The position, the counter block and the pad after \<open>n\<close> bytes, and the bytes of the pads that are
  used: they do not depend on the data.
\<close>

definition ctr_next :: "(bytes \<Rightarrow> bytes) \<Rightarrow> nat \<times> bytes \<times> bytes \<Rightarrow> nat \<times> bytes \<times> bytes" where
  "ctr_next E st = (case st of (i, iv, pad) \<Rightarrow> if i = 16 then let iv = ctr_carry 16 iv in (0, iv, E iv) else (i, iv, pad))"

fun key_stream :: "(bytes \<Rightarrow> bytes) \<Rightarrow> nat \<times> bytes \<times> bytes \<Rightarrow> nat \<Rightarrow> (nat \<times> bytes \<times> bytes) \<times> bytes" where
  "key_stream E st 0 = (st, [])"
| "key_stream E st (Suc n) =
     (case ctr_next E st of (i, iv, pad) \<Rightarrow>
        (case key_stream E (i + 1, iv, pad) n of (st', ks) \<Rightarrow> (st', pad ! i # ks)))"

lemma length_key_stream [simp]: "length (snd (key_stream E st n)) = n"
  by (induction n arbitrary: st) (simp_all add: case_prod_beta)

lemma ctr_loop_stream:
  "ctr_loop E i iv pad src =
     (case key_stream E (i, iv, pad) (length src) of ((i', iv', pad'), ks) \<Rightarrow> (i', iv', pad', xor_bytes src ks))"
  by (induction src arbitrary: i iv pad) (auto simp: xor_bytes_def ctr_next_def Let_def split: prod.splits)

lemma key_stream_add:
  "key_stream E st (m + n) =
     (case key_stream E st m of (st1, k1) \<Rightarrow> (case key_stream E st1 n of (st2, k2) \<Rightarrow> (st2, k1 @ k2)))"
  by (induction m arbitrary: st) (auto split: prod.splits)

text \<open>A whole block from the start of a block, whatever the pad was before.\<close>

lemma key_stream_within:
  "i + n \<le> 16 \<Longrightarrow> key_stream E (i, iv, pad) n = ((i + n, iv, pad), map ((!) pad) [i..<i + n])"
proof (induction n arbitrary: i)
  case (Suc n)
  then show ?case by (simp add: ctr_next_def upt_conv_Cons del: upt_Suc)
qed simp

lemma key_stream_block:
  assumes "length (E (ctr_carry 16 iv)) = 16"
  shows "key_stream E (16, iv, pad) 16 = ((16, ctr_carry 16 iv, E (ctr_carry 16 iv)), E (ctr_carry 16 iv))"
proof -
  have "key_stream E (16, iv, pad) 16 = key_stream E (0, ctr_carry 16 iv, E (ctr_carry 16 iv)) 16"
    using key_stream.simps(2) [of E "(16, iv, pad)" 15] key_stream.simps(2) [of E "(0, ctr_carry 16 iv, E (ctr_carry 16 iv))" 15]
    by (simp add: ctr_next_def Let_def del: key_stream.simps)
  also have "\<dots> = ((16, ctr_carry 16 iv, E (ctr_carry 16 iv)), map ((!) (E (ctr_carry 16 iv))) [0..<16])"
    using key_stream_within [of 0 16 E "ctr_carry 16 iv" "E (ctr_carry 16 iv)"] by simp
  finally show ?thesis using assms map_nth [of "E (ctr_carry 16 iv)"] by simp
qed

lemma length_stream_iv: "length (fst (snd (fst (key_stream E (i, iv, pad) n)))) = length iv"
  by (induction n arbitrary: i iv pad) (simp_all add: ctr_next_def Let_def case_prod_beta)

lemma key_stream_pad:
  "0 < n \<Longrightarrow> key_stream E (16, iv, pad) n = key_stream E (16, iv, pad') n"
  by (cases n) (simp_all add: ctr_next_def Let_def)

section \<open>A cipher and its inverse\<close>

text \<open>
  A cipher for receiving that corresponds to one for sending: the same mode, vector and position,
  and the keyed permutation or its inverse.
\<close>

definition cipher_pair :: "silc_cipher \<Rightarrow> silc_cipher \<Rightarrow> bool" where
  "cipher_pair s r \<longleftrightarrow>
     ci_cipher s = ci_cipher r \<and> ci_iv s = ci_iv r \<and> length (ci_iv s) = 16
     \<and> block_cipher (aes_enc (ci_context s)) (aes_dec (ci_context r))
     \<and> (ci_cipher s = AES_CTR \<longrightarrow> aes_enc (ci_context r) = aes_enc (ci_context s))"

lemma cipher_pair_set_iv:
  "cipher_pair s r \<Longrightarrow> cipher_pair (silc_cipher_set_iv s None) (silc_cipher_set_iv r None)"
  by (auto simp: cipher_pair_def silc_cipher_set_iv_def silc_aes_ctr_set_iv_def silc_aes_cbc_set_iv_def
      split: silc_cipher_object.splits)

text \<open>
  What was encrypted at once is decrypted in two pieces, a first block with an explicit vector and
  the rest with this vector set; the ciphers correspond again afterwards.
\<close>

lemma cbc_pieces:
  assumes p: "cipher_pair s r" and m: "ci_cipher s = AES_CBC" and d: "length data = 16 + n" "16 dvd n"
  obtains s' v ct r1 iv1 r2 where
    "silc_cipher_encrypt (silc_cipher_set_iv s None) data None = Some (s', v, ct)" "length ct = length data"
    "silc_cipher_decrypt (silc_cipher_set_iv r None) (take 16 ct) (Some (ci_iv s)) = Some (r1, iv1, take 16 data)"
    "silc_cipher_decrypt (silc_cipher_set_iv r1 (Some iv1)) (drop 16 ct) None = Some (r2, v, drop 16 data)"
    "cipher_pair s' r2" "ci_cipher r2 = ci_cipher r"
proof -
  define E where "E = aes_enc (ci_context s)"
  define D where "D = aes_dec (ci_context r)"
  define nb where "nb = n div 16"
  have bc: "block_cipher E D" and iv: "length (ci_iv s) = 16" "ci_iv r = ci_iv s" "ci_cipher r = AES_CBC"
    using p m by (auto simp: cipher_pair_def E_def D_def)
  have n: "n = 16 * nb" using d(2) by (simp add: nb_def)
  obtain v ct where enc: "cbc_encrypt_blocks E (Suc nb) (ci_iv s) data = (v, ct)" by fastforce
  have l: "length ct = 16 + n" "length v = 16"
    using cbc_encrypt_length [OF bc iv(1), of "Suc nb" data] by (simp_all add: enc n del: cbc_encrypt_blocks.simps)
  have dec: "cbc_decrypt_blocks D (Suc nb) (ci_iv s) ct = (v, data)"
    using cbc_roundtrip [OF bc iv(1), of data "Suc nb"] d(1) n by (simp add: enc del: cbc_encrypt_blocks.simps cbc_decrypt_blocks.simps)
  obtain iv1 x where first: "cbc_decrypt_blocks D 1 (ci_iv s) (take 16 ct) = (iv1, x)" by fastforce
  obtain iv2 y where rest: "cbc_decrypt_blocks D nb iv1 (drop 16 ct) = (iv2, y)" by fastforce
  have lx: "length x = 16" "iv1 = take 16 ct" using first by (auto simp: Let_def)
  have "(iv2, x @ y) = (v, data)"
    using cbc_decrypt_append [of "take 16 ct" 1 D nb "ci_iv s" "drop 16 ct"] dec first rest l(1)
    by (simp del: cbc_decrypt_blocks.simps)
  then have xy: "iv2 = v" "x = take 16 data" "y = drop 16 data" using lx by auto
  define s' where "s' = s\<lparr>ci_iv := v\<rparr>"
  define r2 where "r2 = r\<lparr>ci_iv := v\<rparr>"
  note defs = silc_cipher_set_iv_def silc_cipher_encrypt_def silc_cipher_decrypt_def with_iv_def
    silc_aes_cbc_encrypt_def silc_aes_cbc_decrypt_def silc_aes_cbc_set_iv_def silc_cipher_get_iv_len_def
  have k: "(16 + n) div 16 = Suc nb" "n div 16 = nb" using n by simp_all
  show thesis
  proof (rule that [of s' v ct r iv1 r2])
    show "silc_cipher_encrypt (silc_cipher_set_iv s None) data None = Some (s', v, ct)"
      using m enc d(1) n k by (simp add: defs s'_def E_def del: cbc_encrypt_blocks.simps)
    show "silc_cipher_decrypt (silc_cipher_set_iv r None) (take 16 ct) (Some (ci_iv s)) = Some (r, iv1, take 16 data)"
      using iv(3) first l(1) xy(2) by (simp add: defs D_def del: cbc_decrypt_blocks.simps)
    show "silc_cipher_decrypt (silc_cipher_set_iv r (Some iv1)) (drop 16 ct) None = Some (r2, v, drop 16 data)"
      using iv(3) rest l(1) xy n k lx by (simp add: defs D_def r2_def del: cbc_decrypt_blocks.simps)
    show "cipher_pair s' r2" using p l(2) m by (auto simp: cipher_pair_def s'_def r2_def)
  qed (use l d in \<open>simp_all add: r2_def\<close>)
qed

lemma ctr_pieces:
  assumes p: "cipher_pair s r" and m: "ci_cipher s = AES_CTR" and d: "length data = 16 + n"
  obtains s' v ct r1 iv1 r2 where
    "silc_cipher_encrypt (silc_cipher_set_iv s None) data None = Some (s', v, ct)" "length ct = length data"
    "silc_cipher_decrypt (silc_cipher_set_iv r None) (take 16 ct) (Some (ci_iv s)) = Some (r1, iv1, take 16 data)"
    "silc_cipher_decrypt (silc_cipher_set_iv r1 (Some iv1)) (drop 16 ct) None = Some (r2, v, drop 16 data)"
    "cipher_pair s' r2" "ci_cipher r2 = ci_cipher r"
proof -
  define E where "E = aes_enc (ci_context s)"
  have iv: "length (ci_iv s) = 16" "ci_iv r = ci_iv s" "ci_cipher r = AES_CTR" "aes_enc (ci_context r) = E"
    and bc: "block_cipher E (aes_dec (ci_context r))"
    using p m by (auto simp: cipher_pair_def E_def)
  define iv1 where "iv1 = ctr_carry 16 (ci_iv s)"
  have l1: "length iv1 = 16" "length (E iv1) = 16" using iv(1) bc by (simp_all add: iv1_def block_cipherD(1))
  have blk: "key_stream E (16, ci_iv s, pad) 16 = ((16, iv1, E iv1), E iv1)" for pad
    using key_stream_block [of E "ci_iv s" pad] l1 by (simp add: iv1_def)
  obtain i v pad ks where rest: "key_stream E (16, iv1, E iv1) n = ((i, v, pad), ks)" by (metis prod.exhaust_sel)
  have lk: "length ks = n" using length_key_stream [of E "(16, iv1, E iv1)" n] rest by simp
  define ct where "ct = xor_bytes data (E iv1 @ ks)"
  have whole: "key_stream E (16, ci_iv s, p0) (length data) = ((i, v, pad), E iv1 @ ks)" for p0
    unfolding d by (simp add: key_stream_add blk rest)
  have lct: "length ct = length data" using d lk l1 by (simp add: ct_def)
  have ct16: "take 16 ct = xor_bytes (take 16 data) (E iv1)" "drop 16 ct = xor_bytes (drop 16 data) ks"
    using xor_bytes_split [of 16 data "E iv1 @ ks"] d lk l1 by (simp_all add: ct_def)
  have pl: "xor_bytes (take 16 ct) (E iv1) = take 16 data" "xor_bytes (drop 16 ct) ks = drop 16 data"
    unfolding ct16 using d lk l1 by (simp_all add: xor_bytes_cancel)
  define s' where "s' = s\<lparr>ci_context := (ci_context s)\<lparr>aes_pad := pad, aes_pos := i\<rparr>, ci_iv := v\<rparr>"
  define r1 where "r1 = r\<lparr>ci_context := (ci_context r)\<lparr>aes_pad := E iv1, aes_pos := 16\<rparr>\<rparr>"
  define r2 where "r2 = r\<lparr>ci_context := (ci_context r)\<lparr>aes_pad := pad, aes_pos := i\<rparr>, ci_iv := v\<rparr>"
  note defs = silc_cipher_set_iv_def silc_cipher_encrypt_def silc_cipher_decrypt_def with_iv_def
    silc_aes_ctr_encrypt_def silc_aes_ctr_decrypt_def silc_aes_ctr_set_iv_def silc_cipher_get_iv_len_def ctr_loop_stream
  have "length v = 16" using length_stream_iv [of E 16 iv1 "E iv1" n] rest l1 by simp
  show thesis
  proof (rule that [of s' v ct r1 iv1 r2])
    show "silc_cipher_encrypt (silc_cipher_set_iv s None) data None = Some (s', v, ct)"
      using m whole by (simp add: defs s'_def E_def ct_def)
    show "silc_cipher_decrypt (silc_cipher_set_iv r None) (take 16 ct) (Some (ci_iv s)) = Some (r1, iv1, take 16 data)"
      using iv blk lct d pl by (simp add: defs r1_def)
    show "silc_cipher_decrypt (silc_cipher_set_iv r1 (Some iv1)) (drop 16 ct) None = Some (r2, v, drop 16 data)"
      using iv rest lct d pl l1 by (simp add: defs r1_def r2_def)
    show "cipher_pair s' r2" using p m \<open>length v = 16\<close> by (auto simp: cipher_pair_def s'_def r2_def)
  qed (use lct in \<open>simp_all add: r2_def\<close>)
qed

lemma cipher_pieces:
  assumes p: "cipher_pair s r" and d: "length data = 16 + n" "ci_cipher s = AES_CBC \<Longrightarrow> 16 dvd n"
  obtains s' v ct r1 iv1 r2 where
    "silc_cipher_encrypt (silc_cipher_set_iv s None) data None = Some (s', v, ct)" "length ct = length data"
    "silc_cipher_decrypt (silc_cipher_set_iv r None) (take 16 ct) (Some (ci_iv s)) = Some (r1, iv1, take 16 data)"
    "silc_cipher_decrypt (silc_cipher_set_iv r1 (Some iv1)) (drop 16 ct) None = Some (r2, v, drop 16 data)"
    "cipher_pair s' r2" "ci_cipher r2 = ci_cipher r"
proof (cases "ci_cipher s")
  case AES_CTR
  show thesis by (rule ctr_pieces [OF p AES_CTR d(1)]) (rule that)
next
  case AES_CBC
  show thesis by (rule cbc_pieces [OF p AES_CBC d(1) d(2) [OF AES_CBC]]) (rule that)
qed

section \<open>Counter mode as a stream cipher\<close>

text \<open>The counter block \<open>k\<close> blocks behind a vector, as a 128-bit number.\<close>

definition counter :: "bytes \<Rightarrow> nat \<Rightarrow> bytes" where
  "counter iv k = silc_mp_mp2bin_noalloc ((silc_mp_bin2mp iv + k) mod 256 ^ 16) 16"

lemma counter_0: "length iv = 16 \<Longrightarrow> counter iv 0 = iv"
  using mp2bin_bin2mp [of iv] bin2mp_bound [of iv] by (simp add: counter_def)

lemma bin2mp_counter: "silc_mp_bin2mp (counter iv k) = (silc_mp_bin2mp iv + k) mod 256 ^ 16"
  by (simp add: counter_def bin2mp_mp2bin)

lemma counter_carry: "length iv = 16 \<Longrightarrow> ctr_carry 16 iv = counter iv 1"
  using ctr_carry_take [of 16 iv] mp2bin_bin2mp [of "ctr_carry 16 iv"] by (simp add: counter_def)

lemma length_counter [simp]: "length (counter iv k) = 16"
  by (simp add: counter_def)

lemma counter_add: "counter (counter iv j) k = counter iv (j + k)"
  unfolding counter_def [of "counter iv j"] bin2mp_counter by (simp add: counter_def mod_simps ac_simps)

lemma key_stream_nth:
  assumes E: "\<And>b. length b = 16 \<Longrightarrow> length (E b) = 16" and iv: "length iv = 16" and j: "j < n"
  shows "snd (key_stream E (16, iv, pad) n) ! j = E (counter iv (1 + j div 16)) ! (j mod 16)"
  using iv j
proof (induction n arbitrary: iv pad j rule: less_induct)
  case (less n)
  have c: "ctr_carry 16 iv = counter iv 1" using less.prems by (simp add: counter_carry)
  have l: "length (E (counter iv 1)) = 16" by (simp add: E)
  show ?case
  proof (cases "n < 16")
    case True
    then obtain m where m: "n = Suc m" using less.prems by (cases n) auto
    have "key_stream E (16, iv, pad) n = key_stream E (0, counter iv 1, E (counter iv 1)) n"
      by (simp add: m ctr_next_def Let_def c)
    then show ?thesis using True less.prems key_stream_within [of 0 n E "counter iv 1" "E (counter iv 1)"] by simp
  next
    case False
    then obtain m where m: "n = 16 + m" using le_Suc_ex by (metis not_less)
    have ks: "snd (key_stream E (16, iv, pad) n) =
        E (counter iv 1) @ snd (key_stream E (16, counter iv 1, E (counter iv 1)) m)"
      using key_stream_block [of E iv pad, unfolded c, OF l] by (simp add: m key_stream_add)
        (simp add: case_prod_beta)
    show ?thesis
    proof (cases "j < 16")
      case True
      then show ?thesis using l by (simp add: ks nth_append)
    next
      case False
      then obtain i where i: "j = 16 + i" using le_Suc_ex by (metis not_less)
      have "snd (key_stream E (16, counter iv 1, E (counter iv 1)) m) ! i = E (counter (counter iv 1) (1 + i div 16)) ! (i mod 16)"
        using less.prems m i by (intro less.IH) auto
      moreover have "(16 + i) div 16 = Suc (i div 16)" by (simp add: div_add_self1)
      ultimately show ?thesis using l by (simp add: ks nth_append i counter_add)
    qed
  qed
qed

section \<open>Properties\<close>

text \<open>
  C38. Counter mode, started at a block boundary, is the stream cipher of the 128-bit counter: byte
  \<open>n\<close> is combined with byte \<open>n mod 16\<close> of the encryption of the vector plus \<open>1 + n div 16\<close>, where
  the sum wraps around at \<open>2 ^ 128\<close>. Encryption never fails and keeps the length.
\<close>

theorem silc_aes_ctr_counter:
  assumes "length iv = 16" and "\<And>b. length b = 16 \<Longrightarrow> length (aes_enc ctx b) = 16" and "aes_pos ctx = 0"
  shows "\<exists>ctx' iv' dst. silc_aes_ctr_encrypt ctx src iv = Some (ctx', iv', dst) \<and> length dst = length src
    \<and> (\<forall>n < length src. dst ! n = src ! n XOR aes_enc ctx (counter iv (1 + n div 16)) ! (n mod 16))
    \<and> silc_mp_bin2mp (counter iv k) = (silc_mp_bin2mp iv + k) mod 2 ^ 128"
proof -
  obtain i v p ks where ks: "key_stream (aes_enc ctx) (16, iv, aes_pad ctx) (length src) = ((i, v, p), ks)"
    by (metis prod.exhaust_sel)
  have l: "length ks = length src" using length_key_stream [of "aes_enc ctx" "(16, iv, aes_pad ctx)" "length src"] ks by simp
  have "silc_aes_ctr_encrypt ctx src iv = Some (ctx\<lparr>aes_pad := p, aes_pos := i\<rparr>, v, xor_bytes src ks)"
    using ks assms(3) by (simp add: silc_aes_ctr_encrypt_def ctr_loop_stream)
  moreover have "xor_bytes src ks ! n = src ! n XOR aes_enc ctx (counter iv (1 + n div 16)) ! (n mod 16)" if "n < length src" for n
    using key_stream_nth [of "aes_enc ctx", OF assms(2) assms(1) that, of "aes_pad ctx"] that l ks by (simp add: xor_bytes_def)
  ultimately show ?thesis using l bin2mp_counter [of iv k] by auto
qed

definition demo_aes :: aes_context where
  "demo_aes = \<lparr>aes_enc = rev, aes_dec = rev, aes_pad = [], aes_pos = 0\<rparr>"

theorem silc_aes_ctr_counter_witness:
  "\<exists>ctx' iv' dst. silc_aes_ctr_encrypt demo_aes [1, 2] (replicate 16 (- 1)) = Some (ctx', iv', dst) \<and> dst = [1, 2]"
proof -
  have "counter (replicate 16 (- 1)) 1 = replicate 16 0"
    using counter_carry [of "replicate 16 (- 1)"] by (simp add: numeral_eq_Suc)
  then show ?thesis
    using silc_aes_ctr_counter [of "replicate 16 (- 1)" demo_aes "[1, 2]" 0]
    by (auto simp: demo_aes_def less_Suc_eq numeral_2_eq_2 intro!: nth_equalityI)
qed

text \<open>
  A receiving cipher that corresponds to the sending one decrypts what that encrypted, in the
  two pieces in which the packet engine does it: a first block with a copy of the vector, then the
  rest after that vector was set. Both ciphers have the same vector again afterwards. In block
  chaining mode the length has to be a multiple of the block, otherwise both refuse the data.
\<close>

theorem silc_cipher_pieces:
  assumes "cipher_pair s r" and "16 \<le> length data"
  shows "if silc_cipher_get_mode s = SILC_CIPHER_MODE_CBC \<and> length data mod 16 \<noteq> 0
    then silc_cipher_encrypt (silc_cipher_set_iv s None) data None = None
    else \<exists>s' v ct r1 iv1 r2.
      silc_cipher_encrypt (silc_cipher_set_iv s None) data None = Some (s', v, ct) \<and> length ct = length data
      \<and> silc_cipher_decrypt (silc_cipher_set_iv r None) (take 16 ct) (Some (silc_cipher_get_iv r)) = Some (r1, iv1, take 16 data)
      \<and> silc_cipher_decrypt (silc_cipher_set_iv r1 (Some iv1)) (drop 16 ct) None = Some (r2, v, drop 16 data)
      \<and> cipher_pair s' r2"
proof (cases "silc_cipher_get_mode s = SILC_CIPHER_MODE_CBC \<and> length data mod 16 \<noteq> 0")
  case True
  then have "ci_cipher s = AES_CBC" by (auto simp: silc_cipher_get_mode_def split: silc_cipher_object.splits)
  then show ?thesis
    using True by (simp add: silc_cipher_encrypt_def silc_cipher_set_iv_def with_iv_def silc_aes_cbc_encrypt_def)
next
  case False
  obtain n where n: "length data = 16 + n" using assms(2) le_Suc_ex by blast
  have d: "16 dvd n" if "ci_cipher s = AES_CBC"
    using False that by (simp add: silc_cipher_get_mode_def n mod_eq_0_iff_dvd)
  have "silc_cipher_get_iv r = ci_iv s" using assms(1) by (simp add: silc_cipher_get_iv_def cipher_pair_def)
  then show ?thesis by (simp only: False if_False) (rule cipher_pieces [OF assms(1) n d], blast+)
qed

definition demo_cipher :: silc_cipher where
  "demo_cipher = \<lparr>ci_cipher = AES_CBC, ci_context = demo_aes, ci_iv = replicate 16 7\<rparr>"

lemma demo_cipher_pair: "cipher_pair demo_cipher demo_cipher"
  by (simp add: cipher_pair_def demo_cipher_def demo_aes_def block_cipher_def)

theorem silc_cipher_pieces_witness:
  "\<exists>s' v ct r1 iv1 r2.
      silc_cipher_encrypt (silc_cipher_set_iv demo_cipher None) (replicate 32 5) None = Some (s', v, ct)
      \<and> silc_cipher_decrypt (silc_cipher_set_iv demo_cipher None) (take 16 ct) (Some (replicate 16 7)) = Some (r1, iv1, replicate 16 5)
      \<and> silc_cipher_decrypt (silc_cipher_set_iv r1 (Some iv1)) (drop 16 ct) None = Some (r2, v, replicate 16 5)
      \<and> cipher_pair s' r2"
  using silc_cipher_pieces [OF demo_cipher_pair, of "replicate 32 5"]
  by (auto simp: silc_cipher_get_iv_def demo_cipher_def)

end
