(* ===== verification/Silc_Hmac.thy ===== *)
theory Silc_Hmac
  imports Silc_Prelude
begin

text \<open>
  \<open>lib/silccrypt/silchmac.c\<close>: message authentication codes from hash functions. A hash function is
  a parameter: its algorithm, the length of its results and of its blocks. The context of a hash
  between \<open>silc_hash_init\<close> and \<open>silc_hash_final\<close> is the data it was updated with. The length of a
  MAC is not more than that of the hash, as for all entries of \<open>silc_default_hmacs\<close>.
\<close>

section \<open>Model\<close>

record silc_hash =
  ha_make :: "bytes \<Rightarrow> bytes"
  ha_len :: nat
  ha_block_len :: nat

record silc_hmac =
  hm_len :: nat
  hm_hash :: silc_hash
  hm_context :: bytes
  hm_inner_pad :: bytes
  hm_outer_pad :: bytes
  hm_key :: "bytes option"

definition silc_hmac_len :: "silc_hmac \<Rightarrow> nat" where
  "silc_hmac_len hm = hm_len hm"

definition silc_hmac_set_key :: "silc_hmac \<Rightarrow> bytes \<Rightarrow> silc_hmac" where
  "silc_hmac_set_key hm key =
     hm\<lparr>hm_key := (if key = [] \<or> SILC_MAX_ALLOC \<le> length key then None else Some key)\<rparr>"

text \<open>The first \<open>n\<close> bytes of a pad are combined with a constant.\<close>

definition xor_pad :: "nat \<Rightarrow> byte \<Rightarrow> bytes \<Rightarrow> bytes" where
  "xor_pad n c pad = map (\<lambda>b. b XOR c) (take n pad) @ drop n pad"

definition silc_hmac_init_internal :: "silc_hmac \<Rightarrow> bytes \<Rightarrow> silc_hmac" where
  "silc_hmac_init_internal hm key =
     (let block_len = ha_block_len (hm_hash hm); pad = replicate 64 0;
          key = (if block_len < length key then take (ha_len (hm_hash hm)) (ha_make (hm_hash hm) key) else key);
          pad = memcpy pad 0 key
      in hm\<lparr>hm_inner_pad := xor_pad block_len 0x36 pad, hm_outer_pad := xor_pad block_len 0x5c pad\<rparr>)"

definition silc_hmac_init_with_key :: "silc_hmac \<Rightarrow> bytes \<Rightarrow> silc_hmac" where
  "silc_hmac_init_with_key hm key =
     (let hm = silc_hmac_init_internal hm key
      in hm\<lparr>hm_context := take (ha_block_len (hm_hash hm)) (hm_inner_pad hm)\<rparr>)"

definition silc_hmac_init :: "silc_hmac \<Rightarrow> silc_hmac" where
  "silc_hmac_init hm = silc_hmac_init_with_key hm (case hm_key hm of None \<Rightarrow> [] | Some k \<Rightarrow> k)"

definition silc_hmac_update :: "silc_hmac \<Rightarrow> bytes \<Rightarrow> silc_hmac" where
  "silc_hmac_update hm data = hm\<lparr>hm_context := hm_context hm @ data\<rparr>"

definition silc_hmac_final :: "silc_hmac \<Rightarrow> silc_hmac \<times> bytes" where
  "silc_hmac_final hm =
     (let mac = ha_make (hm_hash hm) (hm_context hm);
          ctx = take (ha_block_len (hm_hash hm)) (hm_outer_pad hm) @ take (ha_len (hm_hash hm)) mac;
          mac = ha_make (hm_hash hm) ctx
      in (hm\<lparr>hm_context := ctx\<rparr>, take (hm_len hm) mac))"

definition silc_hmac_make :: "silc_hmac \<Rightarrow> bytes \<Rightarrow> silc_hmac \<times> bytes" where
  "silc_hmac_make hm data = silc_hmac_final (silc_hmac_update (silc_hmac_init hm) data)"

definition silc_hmac_make_with_key :: "silc_hmac \<Rightarrow> bytes \<Rightarrow> bytes \<Rightarrow> silc_hmac \<times> bytes" where
  "silc_hmac_make_with_key hm data key = silc_hmac_final (silc_hmac_update (silc_hmac_init_with_key hm key) data)"

text \<open>The truncated MAC is copied from an array on the stack, whose content is given by \<open>J\<close>.\<close>

definition silc_hmac_make_truncated :: "junk \<Rightarrow> silc_hmac \<Rightarrow> bytes \<Rightarrow> nat \<Rightarrow> silc_hmac \<times> bytes" where
  "silc_hmac_make_truncated J hm data truncated_len =
     (let hvalue = map J [0..<64]; (hm, return_hash) = silc_hmac_final (silc_hmac_update (silc_hmac_init hm) data)
      in (hm, memcpy return_hash 0 (take truncated_len hvalue)))"

section \<open>The construction of RFC 2104\<close>

definition pad_key :: "silc_hash \<Rightarrow> bytes \<Rightarrow> bytes" where
  "pad_key h key =
     (let key = (if ha_block_len h < length key then ha_make h key else key)
      in key @ replicate (ha_block_len h - length key) 0)"

definition rfc2104 :: "silc_hash \<Rightarrow> bytes \<Rightarrow> bytes \<Rightarrow> bytes" where
  "rfc2104 h key text =
     ha_make h (map (\<lambda>b. b XOR 0x5c) (pad_key h key)
       @ ha_make h (map (\<lambda>b. b XOR 0x36) (pad_key h key) @ text))"

definition hash_ok :: "silc_hash \<Rightarrow> bool" where
  "hash_ok h \<longleftrightarrow> ha_len h \<le> ha_block_len h \<and> ha_block_len h \<le> 64 \<and> (\<forall>d. length (ha_make h d) = ha_len h)"

lemma hash_okD: "hash_ok h \<Longrightarrow> length (ha_make h d) = ha_len h" "hash_ok h \<Longrightarrow> ha_len h \<le> ha_block_len h"
  "hash_ok h \<Longrightarrow> ha_block_len h \<le> 64"
  by (simp_all add: hash_ok_def)

lemma take_xor_pad: "n \<le> length pad \<Longrightarrow> take n (xor_pad n c pad) = map (\<lambda>b. b XOR c) (take n pad)"
  by (simp add: xor_pad_def)

lemma init_internal_pads:
  assumes h: "hash_ok (hm_hash hm)"
  shows "take (ha_block_len (hm_hash hm)) (hm_inner_pad (silc_hmac_init_internal hm key)) =
      map (\<lambda>b. b XOR 0x36) (pad_key (hm_hash hm) key)"
    "take (ha_block_len (hm_hash hm)) (hm_outer_pad (silc_hmac_init_internal hm key)) =
      map (\<lambda>b. b XOR 0x5c) (pad_key (hm_hash hm) key)"
proof -
  define B where "B = ha_block_len (hm_hash hm)"
  define k where "k = (if B < length key then ha_make (hm_hash hm) key else key)"
  have l: "length k \<le> B" "B \<le> 64" using hash_okD [OF h] by (auto simp: k_def B_def)
  have kk: "(if B < length key then take (ha_len (hm_hash hm)) (ha_make (hm_hash hm) key) else key) = k"
    using hash_okD(1) [OF h] by (simp add: k_def)
  have m: "take B (memcpy (replicate 64 0) 0 k) = k @ replicate (B - length k) 0"
    using l by (simp add: memcpy_def min_def)
  have lm: "B \<le> length (memcpy (replicate 64 (0 :: byte)) 0 k)" using l by (simp add: memcpy_def)
  show "take (ha_block_len (hm_hash hm)) (hm_inner_pad (silc_hmac_init_internal hm key)) =
      map (\<lambda>b. b XOR 0x36) (pad_key (hm_hash hm) key)"
    "take (ha_block_len (hm_hash hm)) (hm_outer_pad (silc_hmac_init_internal hm key)) =
      map (\<lambda>b. b XOR 0x5c) (pad_key (hm_hash hm) key)"
    unfolding silc_hmac_init_internal_def B_def [symmetric] Let_def kk
    using m take_xor_pad [OF lm] by (simp_all add: pad_key_def flip: B_def k_def)
qed

lemma init_internal_fields [simp]:
  "hm_hash (silc_hmac_init_internal hm key) = hm_hash hm" "hm_len (silc_hmac_init_internal hm key) = hm_len hm"
  "hm_key (silc_hmac_init_internal hm key) = hm_key hm"
  by (simp_all add: silc_hmac_init_internal_def Let_def)

text \<open>A MAC over several pieces; the hash function, the length and the key of the object are kept.\<close>

definition hmac_mac :: "silc_hmac \<Rightarrow> bytes \<Rightarrow> bytes" where
  "hmac_mac hm data = snd (silc_hmac_make hm data)"

lemma silc_hmac_pieces:
  "snd (silc_hmac_final (silc_hmac_update (silc_hmac_update (silc_hmac_init hm) a) b)) = hmac_mac hm (a @ b)"
  by (simp add: hmac_mac_def silc_hmac_make_def silc_hmac_final_def silc_hmac_update_def Let_def)

lemma hmac_mac_rfc2104:
  assumes "hash_ok (hm_hash hm)"
  shows "hmac_mac hm data = take (hm_len hm) (rfc2104 (hm_hash hm) (case hm_key hm of None \<Rightarrow> [] | Some k \<Rightarrow> k) data)"
  using init_internal_pads [OF assms] hash_okD(1) [OF assms]
  by (simp add: hmac_mac_def silc_hmac_make_def silc_hmac_final_def silc_hmac_update_def silc_hmac_init_def
      silc_hmac_init_with_key_def rfc2104_def Let_def)

text \<open>A MAC that is not longer than its hash function makes.\<close>

definition hmac_ok :: "silc_hmac \<Rightarrow> bool" where
  "hmac_ok hm \<longleftrightarrow> hash_ok (hm_hash hm) \<and> hm_len hm \<le> ha_len (hm_hash hm)"

lemma length_mac: "hmac_ok hm \<Longrightarrow> length (hmac_mac hm d) = hm_len hm" "hmac_ok hm \<Longrightarrow> hm_len hm \<le> 64"
  using hash_okD [of "hm_hash hm"]
  by (auto simp: hmac_ok_def hmac_mac_rfc2104 rfc2104_def)

section \<open>Properties\<close>

text \<open>
  C39. The MAC of a message is the HMAC of RFC 2104 with the key of the object, truncated to the
  length of the MAC, however the message is passed in pieces; with a key argument it is that with
  the given key.
\<close>

theorem silc_hmac_rfc2104:
  assumes "hash_ok (hm_hash hm)" and "hm_key hm = Some key"
  shows "snd (silc_hmac_make hm (a @ b)) = take (hm_len hm) (rfc2104 (hm_hash hm) key (a @ b))
    \<and> snd (silc_hmac_final (silc_hmac_update (silc_hmac_update (silc_hmac_init hm) a) b)) = snd (silc_hmac_make hm (a @ b))
    \<and> snd (silc_hmac_make_with_key hm a key') = take (hm_len hm) (rfc2104 (hm_hash hm) key' a)"
  using hmac_mac_rfc2104 [OF assms(1), of "a @ b"] assms(2) silc_hmac_pieces [of hm a b]
    init_internal_pads [OF assms(1), of key'] hash_okD(1) [OF assms(1)]
  by (simp add: hmac_mac_def silc_hmac_make_with_key_def silc_hmac_final_def silc_hmac_update_def
      silc_hmac_init_with_key_def rfc2104_def Let_def)

definition demo_hash :: silc_hash where
  "demo_hash = \<lparr>ha_make = (\<lambda>d. [fold (+) d 0, of_nat (length d)]), ha_len = 2, ha_block_len = 4\<rparr>"

definition demo_hmac :: silc_hmac where
  "demo_hmac = \<lparr>hm_len = 1, hm_hash = demo_hash, hm_context = [], hm_inner_pad = [], hm_outer_pad = [], hm_key = Some [1, 2]\<rparr>"

lemma demo_hash_ok: "hash_ok demo_hash"
  by (simp add: hash_ok_def demo_hash_def)

theorem silc_hmac_rfc2104_witness:
  "snd (silc_hmac_make demo_hmac [9, 8]) = take 1 (rfc2104 demo_hash [1, 2] [9, 8])"
  using silc_hmac_rfc2104 [of demo_hmac "[1, 2]" "[9]" "[8]" "[]"] demo_hash_ok by (simp add: demo_hmac_def)

text \<open>The truncated variant returns what was on the stack: the MAC is computed and then overwritten.\<close>

lemma silc_hmac_make_truncated_junk:
  assumes "hash_ok (hm_hash hm)" and "truncated_len \<le> hm_len hm" and "hm_len hm \<le> ha_len (hm_hash hm)"
  shows "take truncated_len (snd (silc_hmac_make_truncated J hm data truncated_len)) = map J [0..<truncated_len]"
proof -
  have t: "truncated_len \<le> 64" using assms hash_okD(2,3) [OF assms(1)] by linarith
  then have "take truncated_len (map J [0..<64]) = map J [0..<truncated_len]" by (simp add: take_map min_def)
  then show ?thesis
    by (simp add: silc_hmac_make_truncated_def memcpy_def case_prod_beta Let_def)
qed

end
