(* ===== verification/Silc_Packet.thy ===== *)
theory Silc_Packet
  imports Silc_Id Silc_Cipher Silc_Hmac
begin

text \<open>
  \<open>lib/silccore/silcpacket.c\<close>: assembling, padding, encrypting and authenticating outgoing packets,
  and the loop that takes packets from the received data, verifies and decrypts them, parses their
  header and dispatches them. Random bytes are an argument \<open>R\<close> (the \<open>i\<close>-th byte taken), the
  content of fresh memory is \<open>J\<close>. A MAC object is initialised whenever it is used, so its intermediate state is
  not kept. Locks, the streams of the operating system and the table of UDP remotes are not
  modelled.
\<close>

section \<open>Constants and lengths\<close>

definition SILC_PACKET_MAX_LEN :: nat where "SILC_PACKET_MAX_LEN = 65535"
definition SILC_PACKET_DEFAULT_SIZE :: nat where "SILC_PACKET_DEFAULT_SIZE = 1024"
definition SILC_PACKET_HEADER_LEN :: nat where "SILC_PACKET_HEADER_LEN = 10"
definition SILC_PACKET_MIN_HEADER_LEN :: nat where "SILC_PACKET_MIN_HEADER_LEN = 16"
definition SILC_PACKET_MIN_HEADER_LEN_IV :: nat where "SILC_PACKET_MIN_HEADER_LEN_IV = 32 + 1"
definition SILC_PACKET_MAX_PADLEN :: int where "SILC_PACKET_MAX_PADLEN = 128"
definition SILC_PACKET_DEFAULT_PADLEN :: int where "SILC_PACKET_DEFAULT_PADLEN = 16"
definition SILC_PACKET_MIN_LEN :: nat where "SILC_PACKET_MIN_LEN = SILC_PACKET_HEADER_LEN + 1"

definition SILC_PACKET_SUCCESS :: byte where "SILC_PACKET_SUCCESS = 2"
definition SILC_PACKET_FAILURE :: byte where "SILC_PACKET_FAILURE = 3"
definition SILC_PACKET_CHANNEL_MESSAGE :: byte where "SILC_PACKET_CHANNEL_MESSAGE = 7"
definition SILC_PACKET_PRIVATE_MESSAGE :: byte where "SILC_PACKET_PRIVATE_MESSAGE = 9"
definition SILC_PACKET_REKEY_DONE :: byte where "SILC_PACKET_REKEY_DONE = 23"
definition SILC_PACKET_FLAG_PRIVMSG_KEY :: byte where "SILC_PACKET_FLAG_PRIVMSG_KEY = 1"
definition SILC_PACKET_FLAG_LONG_PAD :: byte where "SILC_PACKET_FLAG_LONG_PAD = 32"

datatype silc_packet_error =
  SILC_PACKET_ERR_READ | SILC_PACKET_ERR_WRITE | SILC_PACKET_ERR_MAC_FAILED | SILC_PACKET_ERR_DECRYPTION_FAILED
  | SILC_PACKET_ERR_UNKNOWN_SID | SILC_PACKET_ERR_MALFORMED | SILC_PACKET_ERR_NO_MEMORY

definition SILC_PACKET_LENGTH :: "bytes \<Rightarrow> nat \<times> nat" where
  "SILC_PACKET_LENGTH packetdata =
     (let truelen = unat (SILC_GET16_MSB packetdata) in (truelen, truelen + unat (packetdata ! 4)))"

definition SILC_PACKET_DATALEN :: "nat \<Rightarrow> nat \<Rightarrow> nat" where
  "SILC_PACKET_DATALEN data_len header_len =
     (if SILC_PACKET_MAX_LEN < add32 data_len header_len
      then sub32 data_len (sub32 (add32 data_len header_len) SILC_PACKET_MAX_LEN)
      else data_len)"

definition SILC_PACKET_PADLEN :: "int \<Rightarrow> int \<Rightarrow> int" where
  "SILC_PACKET_PADLEN packetlen blocklen =
     (let m = (if blocklen \<noteq> 0 then blocklen else SILC_PACKET_DEFAULT_PADLEN);
          padlen = SILC_PACKET_DEFAULT_PADLEN - packetlen mod m
      in if padlen < 8 then padlen + m else padlen)"

definition SILC_PACKET_PADLEN_MAX :: "int \<Rightarrow> int \<Rightarrow> int" where
  "SILC_PACKET_PADLEN_MAX packetlen blocklen =
     SILC_PACKET_MAX_PADLEN - packetlen mod (if blocklen \<noteq> 0 then blocklen else SILC_PACKET_DEFAULT_PADLEN)"

section \<open>Streams and packets\<close>

text \<open>
  A processor takes the packet types in its list, or all types without a list. The functions that
  receive packets are named by numbers, \<open>0\<close> for that of the engine.
\<close>

record silc_packet_process =
  pp_types :: "byte list option"
  pp_receive :: nat
  pp_priority :: int

record silc_packet_stream =
  ps_outbuf :: silc_buffer
  ps_process :: "silc_packet_process list option"
  ps_send_key :: "silc_cipher option"
  ps_send_key1 :: "silc_cipher option"
  ps_send_hmac :: "silc_hmac option"
  ps_send_hmac1 :: "silc_hmac option"
  ps_receive_key :: "silc_cipher option"
  ps_receive_key1 :: "silc_cipher option"
  ps_receive_hmac :: "silc_hmac option"
  ps_receive_hmac1 :: "silc_hmac option"
  ps_src_id :: "bytes option"
  ps_src_id_len :: nat
  ps_src_id_type :: byte
  ps_dst_id :: "bytes option"
  ps_dst_id_len :: nat
  ps_dst_id_type :: byte
  ps_send_psn :: u32
  ps_receive_psn :: u32
  ps_sid :: byte
  ps_local_is_router :: bool
  ps_is_router :: bool
  ps_destroyed :: bool
  ps_iv_included :: bool

record silc_packet =
  pk_buffer :: silc_buffer
  pk_src_id :: "bytes option"
  pk_src_id_len :: nat
  pk_src_id_type :: byte
  pk_dst_id :: "bytes option"
  pk_dst_id_len :: nat
  pk_dst_id_type :: byte
  pk_type :: byte
  pk_flags :: byte

text \<open>The callbacks that are made, and the packets that are put back into the pool, in their order.\<close>

datatype packet_event =
    Ev_receive nat silc_packet
  | Ev_error silc_packet_error
  | Ev_eos
  | Ev_free silc_packet

section \<open>The underlying stream\<close>

text \<open>
  What the stream answers when it is read: its end, nothing now, an error, or data. A failed
  enlargement of the buffer is not noticed. The results are the buffer, the callbacks and whether
  there is something to process.
\<close>

datatype stream_answer = Ans_eos | Ans_later | Ans_error | Ans_data bytes

definition silc_packet_stream_read :: "junk \<Rightarrow> silc_buffer \<Rightarrow> stream_answer \<Rightarrow> silc_buffer \<times> packet_event list \<times> bool" where
  "silc_packet_stream_read J inbuf ans =
     (let inbuf = (if silc_buffer_taillen inbuf < SILC_PACKET_DEFAULT_SIZE * 2
                   then (case silc_buffer_realloc J (Some inbuf) (add32 (silc_buffer_truelen inbuf) (SILC_PACKET_DEFAULT_SIZE * 2)) of
                           None \<Rightarrow> inbuf | Some b \<Rightarrow> b)
                   else inbuf)
      in case ans of
           Ans_eos \<Rightarrow> (silc_buffer_reset inbuf, [Ev_eos], False)
         | Ans_later \<Rightarrow> (inbuf, [], False)
         | Ans_error \<Rightarrow> (silc_buffer_reset inbuf, [Ev_error SILC_PACKET_ERR_READ], False)
         | Ans_data d \<Rightarrow>
             (let d = take (silc_buffer_taillen inbuf) d;
                  inbuf = inbuf\<lparr>sb_mem := memcpy (sb_mem inbuf) (sb_tail inbuf) d\<rparr>
              in (fst (silc_buffer_pull_tail inbuf (length d)), [], True)))"

text \<open>
  Writing the outgoing buffer. Each attempt is given as the function from the offered length to the
  result of the stream; without more attempts the stream does not take anything now. The results are
  the buffer, the bytes that were taken, the callbacks and the returned value.
\<close>

fun silc_packet_stream_write :: "silc_buffer \<Rightarrow> (nat \<Rightarrow> int) list \<Rightarrow> silc_buffer \<times> bytes \<times> packet_event list \<times> bool" where
  "silc_packet_stream_write outbuf [] =
     (if silc_buffer_len outbuf = 0 then (silc_buffer_reset outbuf, [], [], True) else (outbuf, [], [], True))"
| "silc_packet_stream_write outbuf (wr # wrs) =
     (if silc_buffer_len outbuf = 0 then (silc_buffer_reset outbuf, [], [], True)
      else
        (let i = wr (silc_buffer_len outbuf)
         in if i = 0 then (silc_buffer_reset outbuf, [], [Ev_eos], False)
            else if i = -2 then (silc_buffer_reset outbuf, [], [Ev_error SILC_PACKET_ERR_WRITE], False)
            else if i = -1 then (outbuf, [], [], True)
            else (let d = take (cast32 i) (sb_bytes outbuf);
                      (outbuf, ds, ev, ret) = silc_packet_stream_write (fst (silc_buffer_pull outbuf (cast32 i))) wrs
                  in (outbuf, d @ ds, ev, ret))))"

section \<open>Sending\<close>

text \<open>The result is the stream with the enlarged buffer, the offset of the packet in it, and the packet.\<close>

definition silc_packet_send_prepare ::
    "junk \<Rightarrow> silc_buffer \<Rightarrow> nat \<Rightarrow> silc_hmac option \<Rightarrow> (silc_buffer \<times> nat \<times> silc_buffer) option" where
  "silc_packet_send_prepare J outbuf totlen hmac =
     (let mac_len = (case hmac of None \<Rightarrow> 0 | Some hm \<Rightarrow> silc_hmac_len hm); totlen = add32 totlen mac_len
      in case (if silc_buffer_taillen outbuf < totlen
               then silc_buffer_realloc J (Some outbuf) (add32 (silc_buffer_truelen outbuf) totlen)
               else Some outbuf) of
           None \<Rightarrow> None
         | Some outbuf \<Rightarrow>
             (let oldptr = sb_tail outbuf; outbuf = fst (silc_buffer_pull_tail outbuf totlen);
                  packet = silc_buffer_set (take totlen (drop oldptr (sb_mem outbuf)))
              in Some (outbuf, oldptr, fst (silc_buffer_push_tail packet mac_len))))"

text \<open>The new counter block of the cipher, and the nonce to be included in the packet.\<close>

definition silc_packet_send_ctr_increment :: "byte \<Rightarrow> bool \<Rightarrow> bytes \<Rightarrow> bytes \<times> bytes" where
  "silc_packet_send_ctr_increment rnd iv_included iv =
     (let iv = memcpy iv 12 (replicate 4 0)
      in if iv_included then
           (let r0 = rnd; r1 = r0 + iv ! 4; r2 = r0 XOR r1; r3 = r0 + r2;
                pc1 = SILC_GET32_MSB (drop 8 iv) + 1;
                ret_iv = [r0, r1, r2, r3] @ SILC_PUT32_MSB pc1
            in (memcpy iv 4 ret_iv, ret_iv))
         else
           (let pc1 = SILC_GET32_MSB (drop 4 iv); pc2 = SILC_GET32_MSB (drop 8 iv);
                pc2 = pc2 + 1; pc1 = (if pc2 = 0 then pc1 + 1 else pc1)
            in (memcpy (memcpy iv 4 (SILC_PUT32_MSB pc1)) 8 (SILC_PUT32_MSB pc2), [])))"

definition cipher_is_ctr :: "silc_cipher option \<Rightarrow> bool" where
  "cipher_is_ctr cipher =
     (case cipher of None \<Rightarrow> False | Some c \<Rightarrow> silc_cipher_get_mode c = SILC_CIPHER_MODE_CTR)"

text \<open>Padding length and the length to encrypt, by the type of the packet.\<close>

definition send_lengths :: "bool \<Rightarrow> byte \<Rightarrow> byte \<Rightarrow> bool \<Rightarrow> nat \<Rightarrow> nat \<Rightarrow> nat \<Rightarrow> nat \<Rightarrow> nat \<times> nat" where
  "send_lengths router type flags ctr hdrlen truelen psnlen block_len =
     (if type = SILC_PACKET_PRIVATE_MESSAGE \<and> flags AND SILC_PACKET_FLAG_PRIVMSG_KEY \<noteq> 0 then
        (let padlen = (if \<not> ctr then nat (SILC_PACKET_PADLEN (int (hdrlen + psnlen)) (int block_len)) else 0)
         in (padlen, hdrlen + padlen + psnlen))
      else if type = SILC_PACKET_CHANNEL_MESSAGE then
        (if router then
           (let padlen = (if \<not> ctr then nat (SILC_PACKET_PADLEN (int (truelen + psnlen)) (int block_len)) else 0)
            in (padlen, truelen + padlen + psnlen))
         else
           (let padlen = (if \<not> ctr then nat (SILC_PACKET_PADLEN (int (hdrlen + psnlen)) (int block_len)) else 0)
            in (padlen, hdrlen + padlen + psnlen)))
      else
        (let padlen = (if flags AND SILC_PACKET_FLAG_LONG_PAD \<noteq> 0
                       then nat (SILC_PACKET_PADLEN_MAX (int (truelen + psnlen)) (int block_len))
                       else if \<not> ctr then nat (SILC_PACKET_PADLEN (int (truelen + psnlen)) (int block_len)) else 0)
         in (padlen, truelen + padlen + psnlen)))"

text \<open>The counter of the cipher, and the vector and sequence number to be included in the packet.\<close>

definition send_iv :: "(nat \<Rightarrow> byte) \<Rightarrow> silc_packet_stream \<Rightarrow> silc_cipher option \<Rightarrow> silc_cipher option \<times> bytes \<times> bytes" where
  "send_iv R stream cipher =
     (let psn = (if ps_iv_included stream \<and> cipher \<noteq> None then SILC_PUT32_MSB (ps_send_psn stream) else [])
      in case cipher of
           None \<Rightarrow> (None, [], psn)
         | Some c \<Rightarrow>
             if silc_cipher_get_mode c = SILC_CIPHER_MODE_CTR then
               (let (iv, ret_iv) = silc_packet_send_ctr_increment (R 0) (ps_iv_included stream) (silc_cipher_get_iv c)
                in (Some (c\<lparr>ci_iv := iv\<rparr>), if ps_iv_included stream then ps_sid stream # ret_iv else [], psn))
             else
               (Some c, if ps_iv_included stream
                        then ps_sid stream # take (silc_cipher_get_block_len c) (silc_cipher_get_iv c) else [], psn))"

definition packet_format :: "bytes \<Rightarrow> bytes \<Rightarrow> nat \<Rightarrow> byte \<Rightarrow> byte \<Rightarrow> bytes \<Rightarrow> byte \<Rightarrow> bytes option \<Rightarrow> nat
     \<Rightarrow> byte \<Rightarrow> bytes option \<Rightarrow> nat \<Rightarrow> bytes option \<Rightarrow> nat \<Rightarrow> fmt_param list" where
  "packet_format iv psn truelen flags type pad src_id_type src_id src_id_len dst_id_type dst_id dst_id_len data data_len =
     [FMT_NSTRING (Some iv) (length iv), FMT_NSTRING (Some psn) (length psn),
      FMT_SHORT (of_nat truelen), FMT_CHAR flags, FMT_CHAR type, FMT_CHAR (of_nat (length pad)), FMT_CHAR 0,
      FMT_CHAR (of_nat src_id_len), FMT_CHAR (of_nat dst_id_len), FMT_CHAR src_id_type,
      FMT_NSTRING src_id src_id_len, FMT_CHAR dst_id_type, FMT_NSTRING dst_id dst_id_len,
      FMT_NSTRING (Some pad) (length pad), FMT_NSTRING data data_len]"

text \<open>
  \<open>silc_packet_send_raw\<close>. The cipher is an object of the caller, returned as it is left. The packet
  is a part of the outgoing buffer and is written back into it.
\<close>

definition silc_packet_send_raw ::
    "junk \<Rightarrow> (nat \<Rightarrow> byte) \<Rightarrow> silc_packet_stream \<Rightarrow> byte \<Rightarrow> byte \<Rightarrow> byte \<Rightarrow> bytes option \<Rightarrow> nat
     \<Rightarrow> byte \<Rightarrow> bytes option \<Rightarrow> nat \<Rightarrow> bytes option \<Rightarrow> nat \<Rightarrow> silc_cipher option \<Rightarrow> silc_hmac option
     \<Rightarrow> silc_packet_stream \<times> silc_cipher option \<times> bool" where
  "silc_packet_send_raw J R stream type flags src_id_type src_id src_id_len dst_id_type dst_id dst_id_len
       data data_len cipher hmac =
     (let block_len = (case cipher of None \<Rightarrow> 0 | Some c \<Rightarrow> silc_cipher_get_block_len c);
          hdrlen = SILC_PACKET_HEADER_LEN + src_id_len + dst_id_len;
          data_len = SILC_PACKET_DATALEN data_len hdrlen;
          truelen = data_len + hdrlen;
          (cipher, iv, psnf) = send_iv R stream cipher;
          (padlen, enclen) = send_lengths (ps_local_is_router stream \<and> ps_is_router stream) type flags
                               (cipher_is_ctr cipher) hdrlen truelen (length psnf) block_len;
          flags = flags AND NOT SILC_PACKET_FLAG_LONG_PAD;
          tmppad = map (\<lambda>i. R (1 + i)) [0..<padlen]
      in case silc_packet_send_prepare J (ps_outbuf stream) (truelen + padlen + length iv + length psnf) hmac of
           None \<Rightarrow> (stream, cipher, False)
         | Some (outbuf, oldptr, packet) \<Rightarrow>
     (let psn = SILC_PUT32_MSB (ps_send_psn stream);
          (packet, i) = silc_buffer_format J packet
            (packet_format iv psnf truelen flags type tmppad src_id_type src_id src_id_len dst_id_type dst_id dst_id_len
               data data_len);
          written = (\<lambda>m. stream\<lparr>ps_outbuf := outbuf\<lparr>sb_mem := memcpy (sb_mem outbuf) oldptr m\<rparr>\<rparr>)
      in if i < 0 then (written (sb_mem packet), cipher, False)
         else
     (case (case cipher of
              None \<Rightarrow> Some (None, sb_mem packet)
            | Some c \<Rightarrow>
                (let off = sb_data packet + length iv
                 in case silc_cipher_encrypt (silc_cipher_set_iv c None) (take enclen (drop off (sb_mem packet))) None of
                      None \<Rightarrow> None
                    | Some (c, _, ct) \<Rightarrow> Some (Some c, memcpy (sb_mem packet) off ct))) of
        None \<Rightarrow> (written (sb_mem packet), map_option (\<lambda>c. silc_cipher_set_iv c None) cipher, False)
      | Some (cipher, mem) \<Rightarrow>
     (case hmac of
        None \<Rightarrow> (written mem, cipher, True)
      | Some hm \<Rightarrow>
          (let packet = packet\<lparr>sb_mem := mem\<rparr>;
               hm = silc_hmac_update (silc_hmac_update (silc_hmac_init hm) psn) (sb_bytes packet);
               mem = memcpy mem (sb_tail packet) (snd (silc_hmac_final hm))
           in ((written mem)\<lparr>ps_send_psn := ps_send_psn stream + 1\<rparr>, cipher, True))))))"

text \<open>
  The public functions queue a packet and write the outgoing buffer. \<open>packet_queue\<close> is the first
  part; the cipher and the MAC are those of the arguments, or else those of the stream. The results
  are the stream, the bytes that were written, the callbacks and the returned value.
\<close>

definition packet_queue ::
    "junk \<Rightarrow> (nat \<Rightarrow> byte) \<Rightarrow> silc_packet_stream \<Rightarrow> byte \<Rightarrow> byte \<Rightarrow> byte \<Rightarrow> bytes option \<Rightarrow> nat \<Rightarrow> byte \<Rightarrow> bytes option \<Rightarrow> nat
     \<Rightarrow> bytes option \<Rightarrow> nat \<Rightarrow> silc_packet_stream \<times> bool" where
  "packet_queue J R stream type flags src_id_type src_id src_id_len dst_id_type dst_id dst_id_len data data_len =
     (let (stream, cipher, ret) =
        silc_packet_send_raw J R stream type flags src_id_type src_id src_id_len dst_id_type dst_id dst_id_len data data_len
          (ps_send_key stream) (ps_send_hmac stream)
      in (stream\<lparr>ps_send_key := cipher\<rparr>, ret))"

definition packet_flush ::
    "(nat \<Rightarrow> int) list \<Rightarrow> silc_packet_stream \<times> bool \<Rightarrow> silc_packet_stream \<times> bytes \<times> packet_event list \<times> bool" where
  "packet_flush wrs q =
     (case q of
        (stream, False) \<Rightarrow> (stream, [], [], False)
      | (stream, True) \<Rightarrow>
          (let (outbuf, d, ev, ret) = silc_packet_stream_write (ps_outbuf stream) wrs
           in (stream\<lparr>ps_outbuf := outbuf\<rparr>, d, ev, ret)))"

definition silc_packet_send ::
    "junk \<Rightarrow> (nat \<Rightarrow> byte) \<Rightarrow> (nat \<Rightarrow> int) list \<Rightarrow> silc_packet_stream \<Rightarrow> byte \<Rightarrow> byte \<Rightarrow> bytes option \<Rightarrow> nat
     \<Rightarrow> silc_packet_stream \<times> bytes \<times> packet_event list \<times> bool" where
  "silc_packet_send J R wrs stream type flags data data_len =
     packet_flush wrs (packet_queue J R stream type flags (ps_src_id_type stream) (ps_src_id stream) (ps_src_id_len stream)
       (ps_dst_id_type stream) (ps_dst_id stream) (ps_dst_id_len stream) data data_len)"

text \<open>The identifier of an argument, or else that of the stream; \<open>None\<close> when the argument has no valid form.\<close>

definition id_argument :: "silc_id option \<Rightarrow> byte \<times> bytes option \<times> nat \<Rightarrow> (byte \<times> bytes option \<times> nat) option" where
  "id_argument sid dflt =
     (case sid of
        None \<Rightarrow> Some dflt
      | Some i \<Rightarrow> map_option (\<lambda>d. (ucast (id_type_of i), Some d, length d)) (silc_id_id2str i 32))"

definition silc_packet_send_ext ::
    "junk \<Rightarrow> (nat \<Rightarrow> byte) \<Rightarrow> (nat \<Rightarrow> int) list \<Rightarrow> silc_packet_stream \<Rightarrow> byte \<Rightarrow> byte \<Rightarrow> silc_id option \<Rightarrow> silc_id option
     \<Rightarrow> bytes option \<Rightarrow> nat \<Rightarrow> silc_cipher option \<Rightarrow> silc_hmac option
     \<Rightarrow> silc_packet_stream \<times> silc_cipher option \<times> bytes \<times> packet_event list \<times> bool" where
  "silc_packet_send_ext J R wrs stream type flags src_id dst_id data data_len cipher hmac =
     (case (id_argument src_id (ps_src_id_type stream, ps_src_id stream, ps_src_id_len stream),
            id_argument dst_id (ps_dst_id_type stream, ps_dst_id stream, ps_dst_id_len stream)) of
        (Some (st, src, sl), Some (dt, dst, dl)) \<Rightarrow>
          (let (stream, c, ret) =
             silc_packet_send_raw J R stream type flags st src sl dt dst dl data data_len
               (case cipher of None \<Rightarrow> ps_send_key stream | Some c \<Rightarrow> Some c)
               (case hmac of None \<Rightarrow> ps_send_hmac stream | Some h \<Rightarrow> Some h);
             (stream, d, ev, ret) =
               packet_flush wrs ((if cipher = None then stream\<lparr>ps_send_key := c\<rparr> else stream), ret)
           in (stream, if cipher = None then None else c, d, ev, ret))
      | _ \<Rightarrow> (stream, cipher, [], [], False))"

text \<open>Formatting the arguments into a buffer first.\<close>

definition silc_packet_send_va ::
    "junk \<Rightarrow> (nat \<Rightarrow> byte) \<Rightarrow> (nat \<Rightarrow> int) list \<Rightarrow> silc_packet_stream \<Rightarrow> byte \<Rightarrow> byte \<Rightarrow> fmt_param list
     \<Rightarrow> silc_packet_stream \<times> bytes \<times> packet_event list \<times> bool" where
  "silc_packet_send_va J R wrs stream type flags ps =
     (let (buf, ret) = silc_buffer_format J silc_buffer_empty ps
      in if ret < 0 then (stream, [], [], False)
         else silc_packet_send J R wrs stream type flags (Some (drop (sb_data buf) (sb_mem buf))) (silc_buffer_len buf))"

section \<open>Receiving\<close>

definition silc_packet_check_mac :: "silc_hmac option \<Rightarrow> bytes \<Rightarrow> bytes \<Rightarrow> bytes option \<Rightarrow> u32 \<Rightarrow> bool" where
  "silc_packet_check_mac hmac data packet_mac packet_seq sequence =
     (case hmac of
        None \<Rightarrow> True
      | Some hm \<Rightarrow>
          (let hm = silc_hmac_init hm;
               hm = silc_hmac_update hm (case packet_seq of None \<Rightarrow> SILC_PUT32_MSB sequence | Some s \<Rightarrow> take 4 s);
               mac = snd (silc_hmac_final (silc_hmac_update hm data))
           in take (length mac) packet_mac = mac))"

definition silc_packet_receive_ctr_increment :: "bool \<Rightarrow> bytes \<Rightarrow> bytes \<Rightarrow> bytes" where
  "silc_packet_receive_ctr_increment iv_included iv packet_iv =
     (let iv = (if iv_included then memcpy iv 4 (take 8 packet_iv)
                else (let pc1 = SILC_GET32_MSB (drop 4 iv); pc2 = SILC_GET32_MSB (drop 8 iv);
                          pc2 = pc2 + 1; pc1 = (if pc2 = 0 then pc1 + 1 else pc1)
                      in memcpy (memcpy iv 4 (SILC_PUT32_MSB pc1)) 8 (SILC_PUT32_MSB pc2)))
      in memcpy iv 12 (replicate 4 0))"

definition silc_packet_special_len :: "bytes \<Rightarrow> nat" where
  "silc_packet_special_len data = unat (data ! 4) + unat (data ! 6) + unat (data ! 7) + SILC_PACKET_HEADER_LEN"

text \<open>\<open>None\<close> for the result \<open>-1\<close>; otherwise the cipher and the buffer with the decrypted data.\<close>

definition decrypt_part :: "silc_cipher \<Rightarrow> silc_buffer \<Rightarrow> nat \<Rightarrow> (silc_cipher \<times> silc_buffer) option" where
  "decrypt_part c buffer len =
     (case silc_cipher_decrypt c (take len (drop (sb_data buffer) (sb_mem buffer))) None of
        None \<Rightarrow> None
      | Some (c, _, d) \<Rightarrow> Some (c, buffer\<lparr>sb_mem := memcpy (sb_mem buffer) (sb_data buffer) d\<rparr>))"

definition silc_packet_decrypt :: "silc_cipher \<Rightarrow> silc_buffer \<Rightarrow> bool \<Rightarrow> (silc_cipher \<times> silc_buffer) option" where
  "silc_packet_decrypt c buffer normal =
     (if normal then decrypt_part c buffer (silc_buffer_len buffer)
      else
        (let block_len = silc_cipher_get_block_len c;
             buffer = fst (silc_buffer_push buffer block_len);
             len = nat ((int (silc_packet_special_len (drop (sb_data buffer) (sb_mem buffer))) - int block_len) mod 65536);
             buffer = fst (silc_buffer_pull buffer block_len)
         in if silc_buffer_len buffer < len then None else decrypt_part c buffer len))"

text \<open>The identifiers stay in the packet's buffer; the model keeps the bytes the pointers refer to.\<close>

definition silc_packet_parse :: "silc_packet \<Rightarrow> silc_packet option" where
  "silc_packet_parse packet =
     (let buffer = pk_buffer packet; padlen = drop (sb_data buffer) (sb_mem buffer) ! 4
      in with_unformat buffer [UNF_ADVANCE, UNF_OFFSET 6, UNF_UI8_CHAR, UNF_UI8_CHAR, UNF_UI8_CHAR] None
        (\<lambda>buffer vs. case vs of
           [V8 src_id_len, V8 dst_id_len, V8 src_id_type] \<Rightarrow>
             if SILC_PACKET_MAX_ID_LEN < unat src_id_len \<or> SILC_PACKET_MAX_ID_LEN < unat dst_id_len then None
             else
               with_unformat buffer
                 [UNF_ADVANCE, UNF_DATA (unat src_id_len), UNF_UI8_CHAR, UNF_DATA (unat dst_id_len), UNF_OFFSET (int (unat padlen))]
                 None
                 (\<lambda>buffer vs. case vs of
                    [VPtr src_id, V8 dst_id_type, VPtr dst_id] \<Rightarrow>
                      if SILC_ID_CHANNEL < ucast src_id_type \<or> SILC_ID_CHANNEL < ucast dst_id_type then None
                      else Some (packet\<lparr>pk_buffer := buffer, pk_src_id := src_id, pk_dst_id := dst_id,
                                        pk_src_id_len := unat src_id_len, pk_dst_id_len := unat dst_id_len,
                                        pk_src_id_type := src_id_type, pk_dst_id_type := dst_id_type\<rparr>)
                  | _ \<Rightarrow> None)
         | _ \<Rightarrow> None))"

section \<open>Dispatching\<close>

text \<open>
  What the receiving functions do with the stream and whether they take the packet is an argument:
  \<open>cb f stream packet\<close> for function \<open>f\<close>.
\<close>

type_synonym packet_receive = "nat \<Rightarrow> silc_packet_stream \<Rightarrow> silc_packet \<Rightarrow> silc_packet_stream \<times> bool"

text \<open>Does a processor want the packet: no list of types, or the type is in the list.\<close>

definition process_wants :: "nat option \<Rightarrow> silc_packet_process \<Rightarrow> byte \<Rightarrow> bool" where
  "process_wants ignore_handler p type =
     (case pp_types p of
        None \<Rightarrow> True
      | Some types \<Rightarrow> list_ex (\<lambda>pt. pt = type \<and> ignore_handler \<noteq> Some (pp_receive p)) (takeWhile (\<lambda>pt. pt \<noteq> 0) types))"

fun dispatch_loop ::
    "packet_receive \<Rightarrow> nat option \<Rightarrow> silc_packet \<Rightarrow> bool \<Rightarrow> silc_packet_process list \<Rightarrow> silc_packet_stream
     \<Rightarrow> silc_packet_stream \<times> packet_event list" where
  "dispatch_loop cb ignore packet default_sent [] stream =
     (if \<not> default_sent then
        (case cb 0 stream packet of
           (stream, True) \<Rightarrow> (stream, [Ev_receive 0 packet])
         | (stream, False) \<Rightarrow> (stream, [Ev_receive 0 packet, Ev_free packet]))
      else (stream, [Ev_free packet]))"
| "dispatch_loop cb ignore packet default_sent (p # ps) stream =
     (let dflt = \<not> default_sent \<and> pp_priority p \<le> 0;
          (stream, taken) = (if dflt then cb 0 stream packet else (stream, False));
          ev = (if dflt then [Ev_receive 0 packet] else [])
      in if taken then (stream, ev)
         else
           (let wants = process_wants ignore p (pk_type packet);
                (stream, taken) = (if wants then cb (pp_receive p) stream packet else (stream, False));
                ev = ev @ (if wants then [Ev_receive (pp_receive p) packet] else [])
            in if taken then (stream, ev)
               else (let (stream, ev') = dispatch_loop cb ignore packet (default_sent \<or> dflt) ps stream
                     in (stream, ev @ ev'))))"

definition silc_packet_dispatch ::
    "packet_receive \<Rightarrow> nat option \<Rightarrow> silc_packet \<Rightarrow> silc_packet_stream \<Rightarrow> silc_packet_stream \<times> packet_event list \<times> bool" where
  "silc_packet_dispatch cb ignore packet stream =
     (let (stream, ev) =
        (case ps_process stream of
           None \<Rightarrow> (case cb 0 stream packet of
                      (stream, True) \<Rightarrow> (stream, [Ev_receive 0 packet])
                    | (stream, False) \<Rightarrow> (stream, [Ev_receive 0 packet, Ev_free packet]))
         | Some ps \<Rightarrow> dispatch_loop cb ignore packet False ps stream)
      in (stream, ev, \<not> ps_destroyed stream))"

section \<open>Reading packets\<close>

text \<open>
  The pool of packets is the list of their buffers, emptied when they were put back. A new packet
  has a buffer of uninitialised memory.
\<close>

definition silc_packet_alloc :: "junk \<Rightarrow> silc_buffer list \<Rightarrow> silc_buffer \<times> silc_buffer list" where
  "silc_packet_alloc J pool =
     (case pool of
        [] \<Rightarrow> (silc_buffer_reset (silc_buffer_set (map J [0..<SILC_PACKET_DEFAULT_SIZE])), [])
      | b # pool \<Rightarrow> (b, pool))"

definition silc_packet_free :: "silc_packet \<Rightarrow> silc_buffer list \<Rightarrow> silc_buffer list" where
  "silc_packet_free packet pool = pool @ [silc_buffer_reset (pk_buffer packet)]"

text \<open>Is the whole packet encrypted, or only its header and padding?\<close>

definition packet_normal :: "silc_packet_stream \<Rightarrow> byte \<Rightarrow> byte \<Rightarrow> bool" where
  "packet_normal stream type flags =
     (if type = SILC_PACKET_PRIVATE_MESSAGE \<and> flags AND SILC_PACKET_FLAG_PRIVMSG_KEY \<noteq> 0 then False
      else if ps_local_is_router stream
        then type \<noteq> SILC_PACKET_CHANNEL_MESSAGE \<or> type = SILC_PACKET_CHANNEL_MESSAGE \<and> ps_is_router stream
        else type \<noteq> SILC_PACKET_CHANNEL_MESSAGE)"

text \<open>
  The keys for a packet and its decrypted first block. The decryption uses a copy of the vector;
  the context of the cipher is changed. \<open>Inl\<close> is an unknown security ID. The results are the
  stream, whether the previous keys are used, the cipher, the MAC, the vector, the first block,
  and the lengths of the included vector and sequence number.
\<close>

record first_block =
  fb_old :: bool
  fb_cipher :: "silc_cipher option"
  fb_hmac :: "silc_hmac option"
  fb_iv :: bytes
  fb_header :: bytes
  fb_seq :: "bytes option"
  fb_block_len :: nat
  fb_ivlen :: nat
  fb_psnlen :: nat

definition read_first_block :: "junk \<Rightarrow> silc_packet_stream \<Rightarrow> bytes \<Rightarrow> first_block option" where
  "read_first_block J stream data =
     (case ps_receive_key stream of
        None \<Rightarrow>
          Some \<lparr>fb_old = False, fb_cipher = None, fb_hmac = ps_receive_hmac stream, fb_iv = [], fb_header = data,
                fb_seq = None, fb_block_len = SILC_PACKET_MIN_HEADER_LEN, fb_ivlen = 0, fb_psnlen = 0\<rparr>
      | Some cipher \<Rightarrow>
          (let block_len = silc_cipher_get_block_len cipher; ctr = (silc_cipher_get_mode cipher = SILC_CIPHER_MODE_CTR);
               incl = ps_iv_included stream; sid = data ! 0;
               iv = (if incl then
                       (if ctr then silc_packet_receive_ctr_increment True (take block_len (silc_cipher_get_iv cipher)) (drop 1 data)
                        else take block_len (drop 1 data))
                     else
                       (if ctr then silc_packet_receive_ctr_increment False (take block_len (silc_cipher_get_iv cipher)) []
                        else take block_len (silc_cipher_get_iv cipher)));
               ivlen = (if incl then (if ctr then 8 + 1 else block_len + 1) else 0);
               psnlen = (if incl then 4 else 0);
               keys = (if incl \<and> sid \<noteq> ps_sid stream then
                         (if 0 < sid \<and> 0 < ps_sid stream \<and> ps_sid stream - 1 = sid \<and> ps_receive_key1 stream \<noteq> None
                             \<and> ps_receive_hmac1 stream = None
                          then Some (True, the (ps_receive_key1 stream), ps_receive_hmac1 stream)
                          else None)
                       else Some (False, cipher, ps_receive_hmac stream))
           in case keys of
                None \<Rightarrow> None
              | Some (old, cipher, hmac) \<Rightarrow>
                  (let cipher = (if silc_cipher_get_mode cipher = SILC_CIPHER_MODE_CTR then silc_cipher_set_iv cipher None else cipher);
                       (cipher, iv, tmp) = (case silc_cipher_decrypt cipher (take block_len (drop ivlen data)) (Some iv) of
                                              None \<Rightarrow> (cipher, iv, map J [0..<SILC_PACKET_MIN_HEADER_LEN])
                                            | Some r \<Rightarrow> r)
                   in Some \<lparr>fb_old = old, fb_cipher = Some cipher, fb_hmac = hmac, fb_iv = iv,
                            fb_header = (if incl then drop 4 tmp else tmp), fb_seq = (if incl then Some tmp else None),
                            fb_block_len = block_len, fb_ivlen = ivlen, fb_psnlen = psnlen\<rparr>)))"

definition store_cipher :: "first_block \<Rightarrow> silc_cipher option \<Rightarrow> silc_packet_stream \<Rightarrow> silc_packet_stream" where
  "store_cipher fb cipher stream =
     (if fb_old fb then stream\<lparr>ps_receive_key1 := cipher\<rparr> else stream\<lparr>ps_receive_key := cipher\<rparr>)"

text \<open>
  One turn of the loop up to the dispatching: the packet is not complete, an error that ends the
  processing, or a packet and the number of bytes it took.
\<close>

datatype read_result =
    Read_partial silc_packet_stream
  | Read_error silc_packet_error silc_packet_stream "silc_buffer list"
  | Read_packet silc_packet nat silc_packet_stream "silc_buffer list"

definition packet_fill :: "first_block \<Rightarrow> bytes \<Rightarrow> nat \<Rightarrow> silc_buffer \<Rightarrow> silc_buffer" where
  "packet_fill fb data paddedlen buf =
     (let buf = fst (silc_buffer_pull_tail buf paddedlen);
          n = fb_block_len fb - fb_psnlen fb;
          buf = fst (silc_buffer_put buf (fb_header fb) n);
          buf = fst (silc_buffer_pull buf n)
      in fst (silc_buffer_put buf (drop (fb_ivlen fb + fb_psnlen fb + n) data)
               (sub32 (sub32 (sub32 paddedlen (fb_ivlen fb)) (fb_psnlen fb)) n)))"

definition packet_finish ::
    "first_block \<Rightarrow> silc_packet_stream \<Rightarrow> silc_buffer list \<Rightarrow> bool \<Rightarrow> byte \<Rightarrow> byte \<Rightarrow> silc_buffer \<Rightarrow> nat \<Rightarrow> read_result" where
  "packet_finish fb stream pool normal flags type buf taken =
     (let packet = \<lparr>pk_buffer = buf, pk_src_id = None, pk_src_id_len = 0, pk_src_id_type = 0, pk_dst_id = None,
                    pk_dst_id_len = 0, pk_dst_id_type = 0, pk_type = type, pk_flags = flags\<rparr>
      in case (case fb_cipher fb of
                 None \<Rightarrow> Some (stream, buf)
               | Some c \<Rightarrow>
                   (case silc_packet_decrypt (silc_cipher_set_iv c (Some (fb_iv fb))) buf normal of
                      None \<Rightarrow> None
                    | Some (c, buf) \<Rightarrow>
                        Some ((store_cipher fb (Some c) stream)\<lparr>ps_receive_psn := ps_receive_psn stream + 1\<rparr>, buf))) of
           None \<Rightarrow> Read_error SILC_PACKET_ERR_DECRYPTION_FAILED stream (silc_packet_free packet pool)
         | Some (stream, buf) \<Rightarrow>
             (let packet = packet\<lparr>pk_buffer := fst (silc_buffer_push buf (fb_block_len fb))\<rparr>
              in case silc_packet_parse packet of
                   None \<Rightarrow> Read_error SILC_PACKET_ERR_MALFORMED stream (silc_packet_free packet pool)
                 | Some packet \<Rightarrow> Read_packet packet taken stream pool))"

definition read_packet :: "junk \<Rightarrow> silc_packet_stream \<Rightarrow> silc_buffer list \<Rightarrow> silc_buffer \<Rightarrow> read_result" where
  "read_packet J stream pool inbuf =
     (let data = drop (sb_data inbuf) (sb_mem inbuf)
      in if silc_buffer_len inbuf < (if ps_iv_included stream then SILC_PACKET_MIN_HEADER_LEN_IV else SILC_PACKET_MIN_HEADER_LEN)
         then Read_partial stream
         else
     (case read_first_block J stream data of
        None \<Rightarrow> Read_error SILC_PACKET_ERR_UNKNOWN_SID stream pool
      | Some fb \<Rightarrow>
     (let mac_len = (case ps_receive_hmac stream of None \<Rightarrow> 0 | Some hm \<Rightarrow> silc_hmac_len hm);
          stream = (if fb_cipher fb = None then stream else store_cipher fb (fb_cipher fb) stream);
          (packetlen, paddedlen) = SILC_PACKET_LENGTH (fb_header fb);
          flags = fb_header fb ! 2; type = fb_header fb ! 3; normal = packet_normal stream type flags
      in if fb_cipher fb \<noteq> None \<and> \<not> cipher_is_ctr (fb_cipher fb) \<and>
            (normal \<and> fb_block_len fb \<noteq> 0 \<and> paddedlen mod fb_block_len fb \<noteq> 0 \<or>
             \<not> normal \<and> fb_block_len fb \<noteq> 0 \<and> silc_packet_special_len (fb_header fb) mod fb_block_len fb \<noteq> 0)
         then Read_error SILC_PACKET_ERR_MALFORMED stream pool
         else if silc_buffer_len inbuf < paddedlen + fb_ivlen fb + mac_len then Read_partial stream
         else if \<not> silc_packet_check_mac (fb_hmac fb) (take (paddedlen + fb_ivlen fb) data)
                    (drop (fb_ivlen fb + paddedlen) data) (fb_seq fb) (ps_receive_psn stream)
         then Read_error SILC_PACKET_ERR_MAC_FAILED stream pool
         else if packetlen < SILC_PACKET_MIN_LEN then Read_error SILC_PACKET_ERR_MALFORMED stream pool
         else
     (let (buf, pool) = silc_packet_alloc J pool
      in case (if silc_buffer_truelen buf < paddedlen then silc_buffer_realloc J (Some buf) paddedlen else Some buf) of
           None \<Rightarrow> Read_error SILC_PACKET_ERR_NO_MEMORY stream (pool @ [silc_buffer_reset buf])
         | Some buf \<Rightarrow>
             packet_finish fb stream pool normal flags type (packet_fill fb data paddedlen buf) (paddedlen + mac_len)))))"

text \<open>A packet takes at least one byte and no more than there are.\<close>

lemma packet_finish_taken: "packet_finish fb stream pool normal flags type buf taken = Read_packet p n s q \<Longrightarrow> n = taken"
  by (auto simp: packet_finish_def Let_def split: option.splits prod.splits)

lemma read_packet_taken:
  "read_packet J stream pool inbuf = Read_packet p n s q \<Longrightarrow> 0 < n \<and> n \<le> silc_buffer_len inbuf"
  unfolding read_packet_def
  by (auto simp: Let_def SILC_PACKET_LENGTH_def SILC_PACKET_MIN_LEN_def SILC_PACKET_HEADER_LEN_def
      split: if_splits option.splits prod.splits dest!: packet_finish_taken)

text \<open>
  \<open>silc_packet_read_process\<close>: the stream and the pool, the events, and the input buffer when it is
  kept because a packet in it is not complete; otherwise it is emptied.
\<close>

definition event_pool :: "packet_event list \<Rightarrow> silc_buffer list \<Rightarrow> silc_buffer list" where
  "event_pool ev pool = fold (\<lambda>e pool. case e of Ev_free p \<Rightarrow> silc_packet_free p pool | _ \<Rightarrow> pool) ev pool"

function read_loop ::
    "packet_receive \<Rightarrow> junk \<Rightarrow> silc_packet_stream \<Rightarrow> silc_buffer list \<Rightarrow> silc_buffer
     \<Rightarrow> silc_packet_stream \<times> silc_buffer list \<times> packet_event list \<times> silc_buffer option" where
  "read_loop cb J stream pool inbuf =
     (if silc_buffer_len inbuf = 0 then (stream, pool, [], None)
      else
        (case read_packet J stream pool inbuf of
           Read_partial stream \<Rightarrow> (stream, pool, [], Some inbuf)
         | Read_error err stream pool \<Rightarrow> (stream, pool, [Ev_error err], None)
         | Read_packet packet n stream pool \<Rightarrow>
             (let inbuf = fst (silc_buffer_pull inbuf n);
                  (stream, ev, alive) = silc_packet_dispatch cb None packet stream;
                  pool = event_pool ev pool
              in if \<not> alive then (stream, pool, ev, None)
                 else (let (stream, pool, ev', rest) = read_loop cb J stream pool inbuf
                       in (stream, pool, ev @ ev', rest)))))"
  by pat_completeness auto
termination
  by (relation "measure (\<lambda>(cb, J, stream, pool, inbuf). silc_buffer_len inbuf)")
     (auto simp: pull_len dest!: read_packet_taken)

declare read_loop.simps [simp del]

definition silc_packet_read_process ::
    "packet_receive \<Rightarrow> junk \<Rightarrow> silc_packet_stream \<Rightarrow> silc_buffer list \<Rightarrow> silc_buffer
     \<Rightarrow> silc_packet_stream \<times> silc_buffer list \<times> packet_event list \<times> silc_buffer" where
  "silc_packet_read_process cb J stream pool inbuf =
     (let (stream, pool, ev, rest) = read_loop cb J stream pool inbuf
      in (stream, pool, ev, case rest of None \<Rightarrow> silc_buffer_reset inbuf | Some b \<Rightarrow> b))"

section \<open>The notifier of the stream\<close>

datatype stream_status = SILC_STREAM_CAN_READ stream_answer | SILC_STREAM_CAN_WRITE "(nat \<Rightarrow> int) list"

definition silc_packet_stream_io ::
    "packet_receive \<Rightarrow> junk \<Rightarrow> stream_status \<Rightarrow> silc_packet_stream \<Rightarrow> silc_buffer list \<Rightarrow> silc_buffer
     \<Rightarrow> silc_packet_stream \<times> silc_buffer list \<times> silc_buffer \<times> bytes \<times> packet_event list" where
  "silc_packet_stream_io cb J status stream pool inbuf =
     (if ps_destroyed stream then (stream, pool, inbuf, [], [])
      else
        (case status of
           SILC_STREAM_CAN_READ ans \<Rightarrow>
             (case silc_packet_stream_read J inbuf ans of
                (inbuf, ev, False) \<Rightarrow> (stream, pool, inbuf, [], ev)
              | (inbuf, ev, True) \<Rightarrow>
                  (let (stream, pool, ev', inbuf) = silc_packet_read_process cb J stream pool inbuf
                   in (stream, pool, inbuf, [], ev @ ev')))
         | SILC_STREAM_CAN_WRITE wrs \<Rightarrow>
             if silc_buffer_headlen (ps_outbuf stream) = 0 then (stream, pool, inbuf, [], [])
             else (let (outbuf, d, ev, ret) = silc_packet_stream_write (ps_outbuf stream) wrs
                   in (stream\<lparr>ps_outbuf := outbuf\<rparr>, pool, inbuf, d, ev))))"

section \<open>Processors\<close>

text \<open>
  A new processor goes before the first one with a lower priority. The types are the arguments up
  to \<open>SILC_PACKET_ANY\<close> or \<open>-1\<close>; without any type the processor gets all packets.
\<close>

definition SILC_PACKET_ANY :: int where "SILC_PACKET_ANY = 0"

fun insert_process :: "silc_packet_process \<Rightarrow> silc_packet_process list \<Rightarrow> silc_packet_process list" where
  "insert_process p [] = [p]"
| "insert_process p (e # es) = (if pp_priority e < pp_priority p then p # e # es else e # insert_process p es)"

definition silc_packet_stream_link :: "silc_packet_stream \<Rightarrow> nat \<Rightarrow> int \<Rightarrow> int list \<Rightarrow> silc_packet_stream" where
  "silc_packet_stream_link stream receive priority args =
     (let types = takeWhile (\<lambda>t. t \<noteq> SILC_PACKET_ANY \<and> t \<noteq> -1) args;
          p = \<lparr>pp_types = (if types = [] then None else Some (map of_int types @ [0])), pp_receive = receive, pp_priority = priority\<rparr>
      in stream\<lparr>ps_process := Some (insert_process p (case ps_process stream of None \<Rightarrow> [] | Some ps \<Rightarrow> ps))\<rparr>)"

text \<open>\<open>None\<close> is the use of the list of a stream that has none.\<close>

fun remove_process :: "nat \<Rightarrow> silc_packet_process list \<Rightarrow> silc_packet_process list" where
  "remove_process receive [] = []"
| "remove_process receive (p # ps) = (if pp_receive p = receive then ps else p # remove_process receive ps)"

definition silc_packet_stream_unlink :: "silc_packet_stream \<Rightarrow> nat \<Rightarrow> silc_packet_stream option" where
  "silc_packet_stream_unlink stream receive =
     (case ps_process stream of
        None \<Rightarrow> None
      | Some ps \<Rightarrow>
          (let ps = remove_process receive ps
           in Some (stream\<lparr>ps_process := (if ps = [] then None else Some ps)\<rparr>)))"

section \<open>Keys and identifiers\<close>

text \<open>
  Keys that are not given are kept. With included vectors the old keys would be kept for packets
  under way, but only when there are old keys already. \<open>change_keys\<close> is the part behind the sending
  of the REKEY_DONE packet.
\<close>

definition new_key :: "'a option \<Rightarrow> 'a option \<Rightarrow> 'a option" where
  "new_key old given = (case given of None \<Rightarrow> old | Some k \<Rightarrow> Some k)"

definition old_key :: "bool \<Rightarrow> 'a option \<Rightarrow> 'a option \<Rightarrow> 'a option \<Rightarrow> 'a option" where
  "old_key iv_included k0 k1 given = (if iv_included \<and> k1 \<noteq> None \<and> given \<noteq> None then k0 else k1)"

definition change_keys ::
    "silc_packet_stream \<Rightarrow> silc_cipher option \<Rightarrow> silc_cipher option \<Rightarrow> silc_hmac option \<Rightarrow> silc_hmac option \<Rightarrow> silc_packet_stream" where
  "change_keys s send_key receive_key send_hmac receive_hmac =
     s\<lparr>ps_send_key1 := old_key (ps_iv_included s) (ps_send_key s) (ps_send_key1 s) send_key,
       ps_receive_key1 := old_key (ps_iv_included s) (ps_receive_key s) (ps_receive_key1 s) receive_key,
       ps_send_hmac1 := old_key (ps_iv_included s) (ps_send_hmac s) (ps_send_hmac1 s) send_hmac,
       ps_receive_hmac1 := old_key (ps_iv_included s) (ps_receive_hmac s) (ps_receive_hmac1 s) receive_hmac,
       ps_send_key := new_key (ps_send_key s) send_key,
       ps_receive_key := new_key (ps_receive_key s) receive_key,
       ps_send_hmac := new_key (ps_send_hmac s) send_hmac,
       ps_receive_hmac := new_key (ps_receive_hmac s) receive_hmac\<rparr>"

definition silc_packet_set_keys ::
    "junk \<Rightarrow> (nat \<Rightarrow> byte) \<Rightarrow> (nat \<Rightarrow> int) list \<Rightarrow> silc_packet_stream \<Rightarrow> silc_cipher option \<Rightarrow> silc_cipher option
     \<Rightarrow> silc_hmac option \<Rightarrow> silc_hmac option \<Rightarrow> bool \<Rightarrow> silc_packet_stream \<times> bytes \<times> packet_event list \<times> bool" where
  "silc_packet_set_keys J R wrs s send_key receive_key send_hmac receive_hmac rekey =
     (if rekey then
        (case silc_packet_send J R wrs s SILC_PACKET_REKEY_DONE 0 None 0 of
           (s, d, ev, False) \<Rightarrow> (s, d, ev, False)
         | (s, d, ev, True) \<Rightarrow> (change_keys s send_key receive_key send_hmac receive_hmac, d, ev, True))
      else (change_keys s send_key receive_key send_hmac receive_hmac, [], [], True))"

definition silc_packet_get_keys ::
    "silc_packet_stream \<Rightarrow> (silc_cipher option \<times> silc_cipher option \<times> silc_hmac option \<times> silc_hmac option) option" where
  "silc_packet_get_keys s =
     (if ps_send_key s = None \<and> ps_receive_key s = None \<and> ps_send_hmac s = None \<and> ps_receive_hmac s = None then None
      else Some (ps_send_key s, ps_receive_key s, ps_send_hmac s, ps_receive_hmac s))"

definition silc_packet_set_ids :: "silc_packet_stream \<Rightarrow> silc_id option \<Rightarrow> silc_id option \<Rightarrow> silc_packet_stream \<times> bool" where
  "silc_packet_set_ids s src_id dst_id =
     (if src_id = None \<and> dst_id = None then (s, False)
      else
        (case (case src_id of
                 None \<Rightarrow> Some s
               | Some i \<Rightarrow>
                   (case silc_id_id2str i 32 of
                      None \<Rightarrow> None
                    | Some tmp \<Rightarrow> map_option (\<lambda>d. s\<lparr>ps_src_id := Some d, ps_src_id_type := ucast (id_type_of i),
                                                    ps_src_id_len := length tmp\<rparr>) (silc_memdup tmp))) of
           None \<Rightarrow> (s, False)
         | Some s \<Rightarrow>
             (case dst_id of
                None \<Rightarrow> (s, True)
              | Some i \<Rightarrow>
                  (case silc_id_id2str i 32 of
                     None \<Rightarrow> (s, False)
                   | Some tmp \<Rightarrow>
                       (case silc_memdup tmp of
                          None \<Rightarrow> (s, False)
                        | Some d \<Rightarrow> (s\<lparr>ps_dst_id := Some d, ps_dst_id_type := ucast (id_type_of i),
                                       ps_dst_id_len := length tmp\<rparr>, True))))))"

text \<open>The identifiers that are set; \<open>None\<close> for the result \<open>FALSE\<close>.\<close>

definition get_id :: "bytes option \<Rightarrow> byte \<Rightarrow> silc_id option option" where
  "get_id p type =
     (case p of
        None \<Rightarrow> Some None
      | Some d \<Rightarrow> (case silc_id_str2id2 d (ucast type) of None \<Rightarrow> None | Some i \<Rightarrow> Some (Some i)))"

definition silc_packet_get_ids :: "silc_packet_stream \<Rightarrow> (silc_id option \<times> silc_id option) option" where
  "silc_packet_get_ids s =
     (case get_id (ps_src_id s) (ps_src_id_type s) of
        None \<Rightarrow> None
      | Some i \<Rightarrow> (case get_id (ps_dst_id s) (ps_dst_id_type s) of None \<Rightarrow> None | Some j \<Rightarrow> Some (i, j)))"

definition silc_packet_set_sid :: "silc_packet_stream \<Rightarrow> byte \<Rightarrow> silc_packet_stream \<times> bool" where
  "silc_packet_set_sid s sid = (if \<not> ps_iv_included s then (s, False) else (s\<lparr>ps_sid := sid\<rparr>, True))"

definition silc_packet_stream_set_router :: "silc_packet_stream \<Rightarrow> silc_packet_stream" where
  "silc_packet_stream_set_router s = s\<lparr>ps_is_router := True\<rparr>"

definition silc_packet_stream_set_iv_included :: "silc_packet_stream \<Rightarrow> silc_packet_stream" where
  "silc_packet_stream_set_iv_included s = s\<lparr>ps_iv_included := True\<rparr>"

end
