(* ===== verification/Silc_Packet_Wire.thy ===== *)
theory Silc_Packet_Wire
  imports Silc_Packet
begin

text \<open>
  Sending and receiving packets over one stream: what sending puts into the outgoing buffer, and
  that the receiving side, with corresponding keys, takes the same packets out of it, in any
  segmentation. The two ends stay synchronised.
\<close>

section \<open>Lengths\<close>

lemma padlen_bounds:
  assumes "blocklen \<in> {0, 8, 16}" and "0 \<le> packetlen"
  shows "8 \<le> SILC_PACKET_PADLEN packetlen blocklen" "SILC_PACKET_PADLEN packetlen blocklen \<le> 23"
    "(packetlen + SILC_PACKET_PADLEN packetlen blocklen) mod (if blocklen = 0 then 16 else blocklen) = 0"
    "113 \<le> SILC_PACKET_PADLEN_MAX packetlen blocklen" "SILC_PACKET_PADLEN_MAX packetlen blocklen \<le> 128"
    "(packetlen + SILC_PACKET_PADLEN_MAX packetlen blocklen) mod (if blocklen = 0 then 16 else blocklen) = 0"
  using assms
  by (auto simp: SILC_PACKET_PADLEN_def SILC_PACKET_PADLEN_MAX_def SILC_PACKET_DEFAULT_PADLEN_def
      SILC_PACKET_MAX_PADLEN_def Let_def) presburger+

lemma datalen_cases:
  assumes "data_len + header_len < u32_max" and "header_len \<le> SILC_PACKET_MAX_LEN"
  shows "SILC_PACKET_DATALEN data_len header_len = min data_len (SILC_PACKET_MAX_LEN - header_len)"
proof -
  have "SILC_PACKET_MAX_LEN < u32_max" by (simp add: SILC_PACKET_MAX_LEN_def u32_max_def)
  then show ?thesis
    using assms by (auto simp: SILC_PACKET_DATALEN_def silc_arith min_def)
qed

section \<open>What sending writes\<close>

definition ptr_len :: "bytes option \<Rightarrow> nat \<Rightarrow> bool" where
  "ptr_len p n \<longleftrightarrow> length (opt_bytes p) = n"

definition packet_bytes :: "byte \<Rightarrow> byte \<Rightarrow> bytes \<Rightarrow> byte \<Rightarrow> bytes \<Rightarrow> byte \<Rightarrow> bytes \<Rightarrow> bytes \<Rightarrow> bytes" where
  "packet_bytes flags type pad st src dt dst data =
     SILC_PUT16_MSB (of_nat (10 + length src + length dst + length data))
     @ [flags, type, of_nat (length pad), 0, of_nat (length src), of_nat (length dst), st]
     @ src @ [dt] @ dst @ pad @ data"

lemma length_packet_bytes:
  "length (packet_bytes flags type pad st src dt dst data) = 10 + length src + length dst + length pad + length data"
  by (simp add: packet_bytes_def)

lemma packet_format_bytes:
  assumes "ptr_len src sl" "ptr_len dst dl" "n \<le> length (opt_bytes data)"
  shows "fmt_all (packet_format [] [] (10 + sl + dl + n) flags type pad st src sl dt dst dl data n) =
      packet_bytes flags type pad st (opt_bytes src) dt (opt_bytes dst) (take n (opt_bytes data))"
    "list_all fmt_plain (packet_format [] [] (10 + sl + dl + n) flags type pad st src sl dt dst dl data n)"
  using assms
  by (auto simp: packet_format_def packet_bytes_def ptr_len_def opt_bytes_def min_def split: option.splits)

definition mac_length :: "silc_hmac option \<Rightarrow> nat" where
  "mac_length hmac = (case hmac of None \<Rightarrow> 0 | Some hm \<Rightarrow> hm_len hm)"

lemma mac_length_simps [simp]: "mac_length None = 0" "mac_length (Some hm) = hm_len hm"
  by (simp_all add: mac_length_def)

text \<open>The packet is a part of the outgoing buffer; writing it wb appends it to what the buffer holds.\<close>

lemma prepare_ok:
  assumes wf: "wf_buffer ob" and room: "length (sb_mem ob) + n + mac_length hmac < SILC_MAX_ALLOC"
  obtains ob1 reg where
    "silc_packet_send_prepare J ob n hmac = Some (ob1, sb_tail ob, \<lparr>sb_mem = reg, sb_data = 0, sb_tail = n\<rparr>)"
    "length reg = n + mac_length hmac"
    "\<And>reg'. length reg' = n + mac_length hmac \<Longrightarrow>
       wf_buffer (ob1\<lparr>sb_mem := memcpy (sb_mem ob1) (sb_tail ob) reg'\<rparr>)
       \<and> sb_bytes (ob1\<lparr>sb_mem := memcpy (sb_mem ob1) (sb_tail ob) reg'\<rparr>) = sb_bytes ob @ reg'
       \<and> length (memcpy (sb_mem ob1) (sb_tail ob) reg') \<le> length (sb_mem ob) + n + mac_length hmac"
proof -
  define m where "m = mac_length hmac"
  have small: "length (sb_mem ob) + n + m < u32_max" using room max_alloc_less_u32 by (auto simp: m_def)
  note lens = wf_buffer_lens [OF wf]
  note wf' = wf [unfolded wf_buffer_def]
  have ml: "(case hmac of None \<Rightarrow> 0 | Some hm \<Rightarrow> silc_hmac_len hm) = m"
    by (simp add: m_def mac_length_def silc_hmac_len_def split: option.split)
  define e where "e = (if length (sb_mem ob) - sb_tail ob < n + m then map J [length (sb_mem ob)..<length (sb_mem ob) + (n + m)] else [])"
  have grow: "(if silc_buffer_taillen ob < n + m then silc_buffer_realloc J (Some ob) (add32 (silc_buffer_truelen ob) (n + m)) else Some ob) =
      Some (ob\<lparr>sb_mem := sb_mem ob @ e\<rparr>)"
  proof (cases "length (sb_mem ob) - sb_tail ob < n + m")
    case True
    then have "silc_buffer_realloc J (Some ob) (length (sb_mem ob) + (n + m)) = Some (ob\<lparr>sb_mem := sb_mem ob @ e\<rparr>)"
      unfolding e_def using room by (subst realloc_grow [OF wf]) (auto simp: m_def)
    then show ?thesis using True small by (simp add: lens silc_arith)
  qed (simp add: lens e_def)
  define ob1 where "ob1 = ob\<lparr>sb_mem := sb_mem ob @ e, sb_tail := sb_tail ob + (n + m)\<rparr>"
  have le: "sb_tail ob + (n + m) \<le> length (sb_mem ob @ e)" using wf' by (auto simp: e_def)
  have lmem: "length (sb_mem ob @ e) \<le> length (sb_mem ob) + n + m" by (auto simp: e_def)
  have tl: "silc_buffer_taillen (ob\<lparr>sb_mem := sb_mem ob @ e\<rparr>) = length (sb_mem ob @ e) - sb_tail ob"
    using le lmem small wf' by (auto simp: silc_buffer_taillen_def silc_arith)
  have pt: "fst (silc_buffer_pull_tail (ob\<lparr>sb_mem := sb_mem ob @ e\<rparr>) (n + m)) = ob1"
    using le tl by (auto simp: silc_buffer_pull_tail_def ob1_def)
  define reg where "reg = take (n + m) (drop (sb_tail ob) (sb_mem ob @ e))"
  have lr: "length reg = n + m" using le by (simp add: reg_def)
  have prep: "silc_packet_send_prepare J ob n hmac = Some (ob1, sb_tail ob, \<lparr>sb_mem = reg, sb_data = 0, sb_tail = n\<rparr>)"
  proof -
    have a: "add32 n m = n + m" using small by (simp add: silc_arith)
    have r: "take (n + m) (drop (sb_tail ob) (sb_mem ob1)) = reg" by (simp add: reg_def ob1_def)
    have t: "sb_tail (ob\<lparr>sb_mem := sb_mem ob @ e\<rparr>) = sb_tail ob" by simp
    have p: "fst (silc_buffer_push_tail (silc_buffer_set reg) m) = \<lparr>sb_mem = reg, sb_data = 0, sb_tail = n\<rparr>"
      using lr by (simp add: silc_buffer_push_tail_def silc_buffer_set_def)
    show ?thesis
      by (simp only: silc_packet_send_prepare_def ml Let_def a grow option.case pt t r p)
  qed
  have wb: "wf_buffer (ob1\<lparr>sb_mem := memcpy (sb_mem ob1) (sb_tail ob) reg'\<rparr>)
      \<and> sb_bytes (ob1\<lparr>sb_mem := memcpy (sb_mem ob1) (sb_tail ob) reg'\<rparr>) = sb_bytes ob @ reg'
      \<and> length (memcpy (sb_mem ob1) (sb_tail ob) reg') \<le> length (sb_mem ob) + n + m" if "length reg' = n + m" for reg'
    using that le lmem small wf'
    by (auto simp: wf_buffer_def ob1_def sb_bytes_def memcpy_def drop_take)
  show thesis by (rule that [OF prep]) (use lr wb in \<open>simp_all add: m_def\<close>)
qed


text \<open>The keys of a stream for the next packet, when vectors are not included in packets.\<close>

definition send_cipher :: "silc_cipher option \<Rightarrow> silc_cipher option" where
  "send_cipher c = map_option (\<lambda>c. if silc_cipher_get_mode c = SILC_CIPHER_MODE_CTR
     then c\<lparr>ci_iv := fst (silc_packet_send_ctr_increment 0 False (silc_cipher_get_iv c))\<rparr> else c) c"

lemma send_iv_plain:
  assumes "\<not> ps_iv_included stream"
  shows "send_iv R stream c = (send_cipher c, [], [])"
  using assms
  by (simp add: send_iv_def send_cipher_def silc_packet_send_ctr_increment_def Let_def split: option.split)

lemma ctr_send_cipher: "cipher_is_ctr (send_cipher c) = cipher_is_ctr c"
  by (auto simp: cipher_is_ctr_def send_cipher_def silc_cipher_get_mode_def split: option.split)

text \<open>
  What a packet is on the wire: the first \<open>enclen\<close> bytes encrypted, and the MAC of the sequence
  number and all of it behind it.
\<close>

definition seal :: "silc_cipher option \<Rightarrow> nat \<Rightarrow> bytes \<Rightarrow> (silc_cipher option \<times> bytes) option" where
  "seal c enclen B =
     (case c of
        None \<Rightarrow> Some (None, B)
      | Some c \<Rightarrow> (case silc_cipher_encrypt (silc_cipher_set_iv c None) (take enclen B) None of
                     None \<Rightarrow> None
                   | Some (c', _, ct) \<Rightarrow> Some (Some c', ct @ drop enclen B)))"

definition mac_of :: "silc_hmac option \<Rightarrow> u32 \<Rightarrow> bytes \<Rightarrow> bytes" where
  "mac_of hmac psn body = (case hmac of None \<Rightarrow> [] | Some hm \<Rightarrow> hmac_mac hm (SILC_PUT32_MSB psn @ body))"

lemma length_mac_of: "pred_option hmac_ok hmac \<Longrightarrow> length (mac_of hmac psn body) = mac_length hmac"
  by (cases hmac) (simp_all add: mac_of_def length_mac)

lemma send_lengths_le:
  assumes "send_lengths router type flags ctr hdrlen truelen 0 b = (padlen, enclen)" and "hdrlen \<le> truelen"
  shows "enclen \<le> truelen + padlen" "hdrlen + padlen \<le> enclen"
  using assms by (auto simp: send_lengths_def Let_def split: if_splits)

lemma send_raw_ok:
  assumes wf: "wf_buffer (ps_outbuf stream)" and iv: "\<not> ps_iv_included stream"
    and ptr: "ptr_len src sl" "ptr_len dst dl" "ptr_len data n" and fits: "10 + sl + dl + n \<le> SILC_PACKET_MAX_LEN"
    and lens: "send_lengths (ps_local_is_router stream \<and> ps_is_router stream) type flags (cipher_is_ctr c)
        (10 + sl + dl) (10 + sl + dl + n) 0 (if c = None then 0 else 16) = (padlen, enclen)"
    and B: "B = packet_bytes (flags AND NOT SILC_PACKET_FLAG_LONG_PAD) type (map (\<lambda>i. R (1 + i)) [0..<padlen]) st (opt_bytes src) dt
        (opt_bytes dst) (opt_bytes data)"
    and sealed: "seal (send_cipher c) enclen B = Some (c', body)" and lb: "length body = length B"
    and hm: "pred_option hmac_ok hmac"
    and room: "length (sb_mem (ps_outbuf stream)) + length B + mac_length hmac < SILC_MAX_ALLOC"
  obtains ob where
    "silc_packet_send_raw J R stream type flags st src sl dt dst dl data n c hmac =
       (stream\<lparr>ps_outbuf := ob, ps_send_psn := ps_send_psn stream + (if hmac = None then 0 else 1)\<rparr>, c', True)"
    "wf_buffer ob" "sb_bytes ob = sb_bytes (ps_outbuf stream) @ body @ mac_of hmac (ps_send_psn stream) body"
    "length (sb_mem ob) \<le> length (sb_mem (ps_outbuf stream)) + length B + mac_length hmac"
proof -
  have dl: "SILC_PACKET_DATALEN n (10 + sl + dl) = n"
    using fits datalen_cases [of n "10 + sl + dl"] by (simp add: SILC_PACKET_MAX_LEN_def u32_max_def)
  define pad where "pad = map (\<lambda>i. R (1 + i)) [0..<padlen]"
  have lB: "length B = 10 + sl + dl + n + padlen"
    using ptr by (simp add: B length_packet_bytes ptr_len_def)
  have blk: "(case c of None \<Rightarrow> 0 | Some c \<Rightarrow> silc_cipher_get_block_len c) = (if c = None then 0 else 16)"
    by (auto simp: silc_cipher_get_block_len_def split: option.split)
  obtain ob1 reg where prep: "silc_packet_send_prepare J (ps_outbuf stream) (10 + sl + dl + n + padlen) hmac =
      Some (ob1, sb_tail (ps_outbuf stream), \<lparr>sb_mem = reg, sb_data = 0, sb_tail = 10 + sl + dl + n + padlen\<rparr>)"
    and lreg: "length reg = 10 + sl + dl + n + padlen + mac_length hmac"
    and wb: "\<And>reg'. length reg' = 10 + sl + dl + n + padlen + mac_length hmac \<Longrightarrow>
       wf_buffer (ob1\<lparr>sb_mem := memcpy (sb_mem ob1) (sb_tail (ps_outbuf stream)) reg'\<rparr>)
       \<and> sb_bytes (ob1\<lparr>sb_mem := memcpy (sb_mem ob1) (sb_tail (ps_outbuf stream)) reg'\<rparr>) = sb_bytes (ps_outbuf stream) @ reg'
       \<and> length (memcpy (sb_mem ob1) (sb_tail (ps_outbuf stream)) reg') \<le>
           length (sb_mem (ps_outbuf stream)) + (10 + sl + dl + n + padlen) + mac_length hmac"
    using prepare_ok [OF wf, of "10 + sl + dl + n + padlen" hmac J] room lB by metis
  define pk where "pk = \<lparr>sb_mem = reg, sb_data = 0, sb_tail = 10 + sl + dl + n + padlen\<rparr>"
  have wfp: "wf_buffer pk" "silc_buffer_len pk = length B"
    using lreg lB room max_alloc_less_u32 [of "length B + mac_length hmac"]
    by (auto simp: pk_def wf_buffer_def silc_buffer_len_def silc_arith)
  define fmt where "fmt = packet_format [] [] (10 + sl + dl + n) (flags AND NOT SILC_PACKET_FLAG_LONG_PAD) type pad st src sl dt dst dl data n"
  have f: "fmt_all fmt = B" "list_all fmt_plain fmt"
    using packet_format_bytes [OF ptr(1,2), of n data "flags AND NOT SILC_PACKET_FLAG_LONG_PAD" type pad st dt] ptr(3)
    by (simp_all add: fmt_def B pad_def ptr_len_def)
  have form: "silc_buffer_format J pk fmt = (pk\<lparr>sb_mem := B @ drop (length B) reg\<rparr>, int (length B))"
    using format_fits [OF wfp(1) f(2), of J] wfp(2) by (simp add: f(1) pk_def memcpy_def)
  have hdr: "SILC_PACKET_HEADER_LEN + sl + dl = 10 + sl + dl" by (simp add: SILC_PACKET_HEADER_LEN_def)
  have tot: "n + (10 + sl + dl) = 10 + sl + dl + n" by simp
  define mem where "mem = body @ drop (length B) reg"
  have lm: "length mem = 10 + sl + dl + n + padlen + mac_length hmac" using lreg lB lb by (simp add: mem_def)
  have crypt: "(case send_cipher c of
              None \<Rightarrow> Some (None, B @ drop (length B) reg)
            | Some c \<Rightarrow>
                (case silc_cipher_encrypt (silc_cipher_set_iv c None) (take enclen (B @ drop (length B) reg)) None of
                      None \<Rightarrow> None
                    | Some (c, _, ct) \<Rightarrow> Some (Some c, memcpy (B @ drop (length B) reg) 0 ct))) = Some (c', mem)"
  proof (cases "send_cipher c")
    case None
    then show ?thesis using sealed by (simp add: seal_def mem_def)
  next
    case (Some k)
    then obtain v ct where e: "silc_cipher_encrypt (silc_cipher_set_iv k None) (take enclen B) None = Some (the c', v, ct)"
      "body = ct @ drop enclen B" "c' = Some (the c')"
      using sealed by (auto simp: seal_def split: option.splits)
    have "enclen \<le> length B" using send_lengths_le(1) [OF lens] lB by simp
    moreover from this have "length ct = enclen" using lb e(2) by simp
    ultimately show ?thesis using Some e by (simp add: mem_def memcpy_def)
  qed
  have data: "sb_data pk = 0" "sb_tail pk = length B" by (simp_all add: pk_def lB)
  have upd: "sb_mem (pk\<lparr>sb_mem := m\<rparr>) = m" "sb_data (pk\<lparr>sb_mem := m\<rparr>) = 0" "sb_tail (pk\<lparr>sb_mem := m\<rparr>) = length B"
    "pk\<lparr>sb_mem := m, sb_mem := m'\<rparr> = pk\<lparr>sb_mem := m'\<rparr>" for m m'
    by (simp_all add: data)
  have raw: "silc_packet_send_raw J R stream type flags st src sl dt dst dl data n c hmac =
     (let written = (\<lambda>m. stream\<lparr>ps_outbuf := ob1\<lparr>sb_mem := memcpy (sb_mem ob1) (sb_tail (ps_outbuf stream)) m\<rparr>\<rparr>)
      in case hmac of
        None \<Rightarrow> (written mem, c', True)
      | Some hm \<Rightarrow>
          ((written (memcpy mem (length B) (snd (silc_hmac_final (silc_hmac_update (silc_hmac_update (silc_hmac_init hm)
             (SILC_PUT32_MSB (ps_send_psn stream))) (sb_bytes (pk\<lparr>sb_mem := mem\<rparr>)))))))
             \<lparr>ps_send_psn := ps_send_psn stream + 1\<rparr>, c', True))"
    unfolding silc_packet_send_raw_def hdr dl tot Let_def send_iv_plain [OF iv] prod.case blk list.size(3) lens ctr_send_cipher
      pad_def [symmetric] add_0_right prep option.case pk_def [symmetric] fmt_def [symmetric] form upd drop_0 crypt
    by simp
  have bytes: "sb_bytes (pk\<lparr>sb_mem := mem\<rparr>) = body" using lb by (simp add: sb_bytes_def data mem_def)
  define reg' where "reg' = body @ mac_of hmac (ps_send_psn stream) body"
  have reg': "length reg' = 10 + sl + dl + n + padlen + mac_length hmac" using lb lB length_mac_of [OF hm] by (simp add: reg'_def)
  define ob where "ob = ob1\<lparr>sb_mem := memcpy (sb_mem ob1) (sb_tail (ps_outbuf stream)) reg'\<rparr>"
  show thesis
  proof (rule that [of ob])
    show "silc_packet_send_raw J R stream type flags st src sl dt dst dl data n c hmac =
       (stream\<lparr>ps_outbuf := ob, ps_send_psn := ps_send_psn stream + (if hmac = None then 0 else 1)\<rparr>, c', True)"
    proof (cases hmac)
      case None
      then have "mem = reg'" using lreg lB by (simp add: mem_def reg'_def mac_of_def)
      then show ?thesis unfolding raw by (simp add: None ob_def)
    next
      case (Some k)
      have "memcpy mem (length B) (hmac_mac k (SILC_PUT32_MSB (ps_send_psn stream) @ body)) = reg'"
        using lb lreg lB hm Some by (simp add: mem_def memcpy_def reg'_def mac_of_def length_mac)
      then show ?thesis unfolding raw by (simp add: Some ob_def bytes silc_hmac_pieces)
    qed
  qed (use wb [OF reg'] lB in \<open>simp_all add: ob_def reg'_def\<close>)
qed

section \<open>Bounds of the lengths\<close>

lemma send_lengths_pad:
  assumes "send_lengths router type flags ctr hdrlen truelen 0 b = (padlen, enclen)" and "b \<in> {0, 16}"
  shows "padlen \<noteq> 1" "padlen \<le> 128" "\<not> ctr \<Longrightarrow> 8 \<le> padlen \<and> enclen mod 16 = 0"
proof -
  have t: "8 \<le> nat k \<and> nat k \<le> 128 \<and> (m + nat k) mod 16 = 0" if "8 \<le> k" "k \<le> 128" "(int m + k) mod 16 = 0" for k :: int and m :: nat
  proof -
    obtain j where "k = int j" using zero_le_imp_eq_int [of k] \<open>8 \<le> k\<close> by auto
    with that show ?thesis by (simp; presburger)
  qed
  have P: "8 \<le> nat (SILC_PACKET_PADLEN (int m) (int b)) \<and> nat (SILC_PACKET_PADLEN (int m) (int b)) \<le> 128
      \<and> (m + nat (SILC_PACKET_PADLEN (int m) (int b))) mod 16 = 0"
    "8 \<le> nat (SILC_PACKET_PADLEN_MAX (int m) (int b)) \<and> nat (SILC_PACKET_PADLEN_MAX (int m) (int b)) \<le> 128
      \<and> (m + nat (SILC_PACKET_PADLEN_MAX (int m) (int b))) mod 16 = 0" for m
    using padlen_bounds [of "int b" "int m"] assms(2) by (intro t; auto)+
  define q where "q = (\<lambda>m. nat (SILC_PACKET_PADLEN (int m) (int b)))"
  define q' where "q' = (\<lambda>m. nat (SILC_PACKET_PADLEN_MAX (int m) (int b)))"
  have Q: "q m \<noteq> 1" "8 \<le> q m" "q m \<le> 128" "(m + q m) mod 16 = 0" "q' m \<noteq> 1" "8 \<le> q' m" "q' m \<le> 128" "(m + q' m) mod 16 = 0" for m
    using P [of m] by (auto simp: q_def q'_def)
  have f: "nat (SILC_PACKET_PADLEN (int m) (int b)) = q m" "nat (SILC_PACKET_PADLEN_MAX (int m) (int b)) = q' m" for m
    by (simp_all add: q_def q'_def)
  show "padlen \<noteq> 1" "padlen \<le> 128" "\<not> ctr \<Longrightarrow> 8 \<le> padlen \<and> enclen mod 16 = 0"
    using assms(1) Q unfolding send_lengths_def Let_def add_0_right f by (auto split: if_splits)
qed



end
