(* ===== verification/Silc_Packet_Receive.thy ===== *)
theory Silc_Packet_Receive
  imports Silc_Packet_Wire
begin

text \<open>
  The receiving side of the packet engine on what the sending side wrote: the header is parsed, the
  ciphers of the two ends open what the other sealed, and one turn of the receiving loop gives the
  packet that was sent.
\<close>

unbundle bit_operations_syntax

section \<open>Parsing the header\<close>

definition opt_ptr :: "bytes \<Rightarrow> bytes option" where
  "opt_ptr d = (if d = [] then None else Some d)"

definition ids_ok :: "byte \<Rightarrow> bytes \<Rightarrow> byte \<Rightarrow> bytes \<Rightarrow> bool" where
  "ids_ok st src dt dst \<longleftrightarrow> length src \<le> SILC_PACKET_MAX_ID_LEN \<and> length dst \<le> SILC_PACKET_MAX_ID_LEN \<and> st \<le> 3 \<and> dt \<le> 3"

lemma rd_one: "rd (Suc 0) (x # r) = Some ([x], r)"
  by (simp add: rd_def u32_max_def)

lemma id_type_le: "t \<le> 3 \<Longrightarrow> \<not> SILC_ID_CHANNEL < ucast (t :: byte)"
  by (simp add: SILC_ID_CHANNEL_def word_less_nat_alt word_le_nat_alt unsigned_ucast_eq take_bit_nat_eq_self)

lemma parse_packet:
  assumes wf: "wf_buffer b" and bytes: "sb_bytes b = packet_bytes flags type pad st src dt dst data"
    and ids: "ids_ok st src dt dst" and pad: "length pad \<noteq> 1" "length pad < 256"
  shows "silc_packet_parse \<lparr>pk_buffer = b, pk_src_id = None, pk_src_id_len = 0, pk_src_id_type = 0, pk_dst_id = None,
        pk_dst_id_len = 0, pk_dst_id_type = 0, pk_type = t, pk_flags = f\<rparr> =
    Some \<lparr>pk_buffer = adv b (10 + length src + length dst + length pad), pk_src_id = opt_ptr src,
      pk_src_id_len = length src, pk_src_id_type = st,
      pk_dst_id = opt_ptr dst, pk_dst_id_len = length dst, pk_dst_id_type = dt, pk_type = t, pk_flags = f\<rparr>"
proof -
  define h where "h = SILC_PUT16_MSB (of_nat (10 + length src + length dst + length data)) @ [flags, type, of_nat (length pad), 0]"
  define r where "r = src @ dt # dst @ pad @ data"
  have B: "sb_bytes b = h @ of_nat (length src) # of_nat (length dst) # st # r"
    by (simp add: bytes packet_bytes_def h_def r_def)
  have lh: "length h = 6" by (simp add: h_def)
  have len: "silc_buffer_len b = 10 + length src + length dst + length pad + length data"
    using length_sb_bytes [OF wf] by (simp add: bytes length_packet_bytes)
  have s: "unat (of_nat (length src) :: byte) = length src" "unat (of_nat (length dst) :: byte) = length dst"
    "unat (of_nat (length pad) :: byte) = length pad"
    using ids pad by (auto simp: ids_ok_def SILC_PACKET_MAX_ID_LEN_def)
  have small: "length src + 1 < u32_max" "length dst + 1 < u32_max" "length pad + 1 < u32_max" "6 + 1 < u32_max"
    using ids pad by (auto simp: ids_ok_def SILC_PACKET_MAX_ID_LEN_def u32_max_def)
  have pl: "drop (sb_data b) (sb_mem b) ! 4 = of_nat (length pad)"
  proof -
    have "sb_bytes b ! 4 = of_nat (length pad)"
      by (simp add: B h_def nth_append SILC_PUT16_MSB_def)
    moreover have "4 < sb_tail b - sb_data b" using len by (simp add: wf_buffer_lens [OF wf])
    ultimately show ?thesis by (simp add: sb_bytes_def)
  qed
  have p1: "parse_skip [UNF_OFFSET 6, UNF_UI8_CHAR, UNF_UI8_CHAR, UNF_UI8_CHAR] (sb_bytes b) =
     Some ([V8 (of_nat (length src)), V8 (of_nat (length dst)), V8 st], r)"
    unfolding B using lh small by (simp add: rd_append rd_one)
  have lr: "length r = 1 + length src + length dst + length pad + length data" by (simp add: r_def)
  have a: "silc_buffer_len b - length r = 9" using len lr by simp
  define b1 where "b1 = adv b 9"
  have b1: "wf_buffer b1" "sb_bytes b1 = r" "silc_buffer_len b1 = length r"
    using wf len lr lh by (simp_all add: b1_def wf_adv sb_bytes_adv B len_adv)
  have p2: "parse_skip [UNF_DATA (length src), UNF_UI8_CHAR, UNF_DATA (length dst), UNF_OFFSET (int (length pad))] r =
     Some ([VPtr (opt_ptr src), V8 dt, VPtr (opt_ptr dst)], data)"
    unfolding r_def using small by (simp add: rd_append rd_one opt_ptr_def)
  have sk: "list_all unf_skip [UNF_DATA (length src), UNF_UI8_CHAR, UNF_DATA (length dst), UNF_OFFSET (int (length pad))]"
    using pad by (cases pad) auto
  have a2: "adv b1 (silc_buffer_len b1 - length data) = adv b (10 + length src + length dst + length pad)"
    using b1(3) lr by (simp add: b1_def)
  have t: "\<not> (SILC_ID_CHANNEL < ucast st \<or> SILC_ID_CHANNEL < ucast dt)" 
    "\<not> (SILC_PACKET_MAX_ID_LEN < length src \<or> SILC_PACKET_MAX_ID_LEN < length dst)"
    using ids id_type_le by (auto simp: ids_ok_def)
  have w1: "with_unformat b [UNF_ADVANCE, UNF_OFFSET 6, UNF_UI8_CHAR, UNF_UI8_CHAR, UNF_UI8_CHAR] None k =
      k b1 [V8 (of_nat (length src)), V8 (of_nat (length dst)), V8 st]" for k :: "silc_buffer \<Rightarrow> unf_val list \<Rightarrow> silc_packet option"
    by (subst with_unformat_advance [OF wf]) (simp_all only: p1 option.case prod.case a b1_def, simp_all)
  have w2: "with_unformat b1 [UNF_ADVANCE, UNF_DATA (length src), UNF_UI8_CHAR, UNF_DATA (length dst), UNF_OFFSET (int (length pad))] None k =
      k (adv b (10 + length src + length dst + length pad)) [VPtr (opt_ptr src), V8 dt, VPtr (opt_ptr dst)]"
    for k :: "silc_buffer \<Rightarrow> unf_val list \<Rightarrow> silc_packet option"
    by (subst with_unformat_advance [OF b1(1) sk]) (simp only: b1(2) p2 a2 option.case prod.case)
  show ?thesis
    unfolding silc_packet_parse_def silc_packet.select_convs Let_def pl w1 by (simp add: s t w2 del: unat_of_nat_byte)
qed

section \<open>Encryption and decryption of a packet\<close>

text \<open>Both ends advance the counter block by the same function.\<close>

lemma split_iv:
  fixes iv :: bytes
  assumes "length iv = 16"
  obtains a b c d where "iv = a @ b @ c @ d" "length a = 4" "length b = 4" "length c = 4" "length d = 4"
proof -
  have s: "xs = take 4 xs @ drop 4 xs" for xs :: bytes by simp
  have "iv = take 4 iv @ take 4 (drop 4 iv) @ take 4 (drop 8 iv) @ drop 12 iv"
    using s [of iv] s [of "drop 4 iv"] s [of "drop 8 iv"] by (simp del: append_take_drop_id)
  then show thesis by (rule that) (use assms in auto)
qed

lemma ctr_increment_agrees:
  assumes "length iv = 16"
  shows "fst (silc_packet_send_ctr_increment 0 False iv) = silc_packet_receive_ctr_increment False iv []"
    and "length (silc_packet_receive_ctr_increment False iv []) = 16"
proof -
  obtain a b c d where iv: "iv = a @ b @ c @ d" and l: "length a = 4" "length b = 4" "length c = 4" "length d = 4"
    using split_iv [OF assms] .
  have g: "SILC_GET32_MSB (b @ x) = SILC_GET32_MSB b" if "length b = 4" for b x
    using that by (auto simp: SILC_GET32_MSB_def nth_append)
  show "fst (silc_packet_send_ctr_increment 0 False iv) = silc_packet_receive_ctr_increment False iv []"
    using l by (simp add: silc_packet_send_ctr_increment_def silc_packet_receive_ctr_increment_def Let_def iv memcpy_def g)
  show "length (silc_packet_receive_ctr_increment False iv []) = 16"
    using l by (simp add: silc_packet_receive_ctr_increment_def Let_def iv memcpy_def)
qed

text \<open>The cipher and the vector with which the first block is decrypted.\<close>

definition first_cipher :: "silc_cipher \<Rightarrow> silc_cipher" where
  "first_cipher c = (if silc_cipher_get_mode c = SILC_CIPHER_MODE_CTR then silc_cipher_set_iv c None else c)"

definition first_iv :: "silc_cipher \<Rightarrow> bytes" where
  "first_iv c = (if silc_cipher_get_mode c = SILC_CIPHER_MODE_CTR
     then silc_packet_receive_ctr_increment False (take 16 (ci_iv c)) [] else take 16 (ci_iv c))"

lemma decrypt_given_iv:
  assumes "silc_cipher_decrypt (silc_cipher_set_iv (c\<lparr>ci_iv := w\<rparr>) None) d (Some iv) = Some (c', v, x)"
  obtains c1 where "silc_cipher_decrypt (first_cipher c) d (Some iv) = Some (c1, v, x)"
    "silc_cipher_set_iv c1 (Some v) = silc_cipher_set_iv c' (Some v)" "ci_cipher c1 = ci_cipher c"
proof -
  have "silc_cipher_decrypt (first_cipher c) d (Some iv) = Some (c'\<lparr>ci_iv := ci_iv c\<rparr>, v, x)"
    using assms
    by (auto simp: silc_cipher_decrypt_def with_iv_def first_cipher_def silc_cipher_set_iv_def silc_cipher_get_mode_def
        silc_aes_cbc_set_iv_def split: silc_cipher_object.splits)
  moreover have "ci_cipher c' = ci_cipher c"
    using assms by (auto simp: silc_cipher_decrypt_def with_iv_def silc_cipher_set_iv_def Let_def)
  ultimately show thesis
    using that [of "c'\<lparr>ci_iv := ci_iv c\<rparr>"] by (simp add: silc_cipher_set_iv_def silc_cipher_get_iv_len_def Let_def)
qed

lemma seal_open:
  assumes p: "cipher_pair s r" and enc: "16 \<le> enclen" "enclen \<le> length B"
    and cbc: "silc_cipher_get_mode s \<noteq> SILC_CIPHER_MODE_CTR \<Longrightarrow> enclen mod 16 = 0"
  obtains s' ct c1 iv1 c2 v where
    "seal (send_cipher (Some s)) enclen B = Some (Some s', ct @ drop enclen B)" "length ct = enclen"
    "silc_cipher_decrypt (first_cipher r) (take 16 ct) (Some (first_iv r)) = Some (c1, iv1, take 16 B)"
    "silc_cipher_get_mode c1 = silc_cipher_get_mode r"
    "silc_cipher_decrypt (silc_cipher_set_iv c1 (Some iv1)) (drop 16 ct) None = Some (c2, v, drop 16 (take enclen B))"
    "cipher_pair s' c2"
proof -
  define s1 where "s1 = the (send_cipher (Some s))"
  define r1 where "r1 = r\<lparr>ci_iv := ci_iv s1\<rparr>"
  have s1: "send_cipher (Some s) = Some s1" by (simp add: s1_def send_cipher_def)
  have iv: "length (ci_iv s) = 16" "ci_iv r = ci_iv s" "ci_cipher r = ci_cipher s" using p by (auto simp: cipher_pair_def)
  have fi: "first_iv r = ci_iv s1" "length (ci_iv s1) = 16"
    using iv ctr_increment_agrees [OF iv(1)]
    by (simp_all add: first_iv_def s1_def send_cipher_def silc_cipher_get_mode_def silc_cipher_get_iv_def)
  have k: "ci_cipher s1 = ci_cipher s" "ci_context s1 = ci_context s" by (simp_all add: s1_def send_cipher_def)
  have p1: "cipher_pair s1 r1" using p k fi by (auto simp: cipher_pair_def r1_def)
  obtain n where n: "length (take enclen B) = 16 + n" using enc le_Suc_ex by (metis length_take min.absorb2)
  have d: "16 dvd n" if "ci_cipher s1 = AES_CBC"
  proof -
    have "enclen mod 16 = 0" using cbc k that by (simp add: silc_cipher_get_mode_def)
    moreover have "enclen = 16 + n" using n enc by simp
    ultimately show ?thesis by (simp add: mod_eq_0_iff_dvd)
  qed
  obtain s' v ct q iv1 c2 where e: "silc_cipher_encrypt (silc_cipher_set_iv s1 None) (take enclen B) None = Some (s', v, ct)"
    "length ct = length (take enclen B)"
    "silc_cipher_decrypt (silc_cipher_set_iv r1 None) (take 16 ct) (Some (ci_iv s1)) = Some (q, iv1, take 16 (take enclen B))"
    "silc_cipher_decrypt (silc_cipher_set_iv q (Some iv1)) (drop 16 ct) None = Some (c2, v, drop 16 (take enclen B))"
    "cipher_pair s' c2"
    using cipher_pieces [OF p1 n d] by metis
  obtain c1 where c1: "silc_cipher_decrypt (first_cipher r) (take 16 ct) (Some (ci_iv s1)) = Some (c1, iv1, take 16 (take enclen B))"
    "silc_cipher_set_iv c1 (Some iv1) = silc_cipher_set_iv q (Some iv1)" "ci_cipher c1 = ci_cipher r"
    using decrypt_given_iv [OF e(3) [unfolded r1_def]] .
  show thesis
  proof (rule that [of s' ct c1 iv1 c2 v])
    show "seal (send_cipher (Some s)) enclen B = Some (Some s', ct @ drop enclen B)"
      by (simp add: seal_def s1 e(1))
    show "silc_cipher_get_mode c1 = silc_cipher_get_mode r" by (simp add: silc_cipher_get_mode_def c1(3))
    show "silc_cipher_decrypt (first_cipher r) (take 16 ct) (Some (first_iv r)) = Some (c1, iv1, take 16 B)"
      using c1(1) enc by (simp add: fi min_def)
  qed (use e(2,4,5) c1(2) enc in simp_all)
qed

section \<open>Receiving what was sent\<close>

lemma header_fields:
  assumes B: "B = packet_bytes flags type pad st src dt dst data" and H: "take 16 H = take 16 B" and len: "16 \<le> length B"
    and fits: "10 + length src + length dst + length data \<le> SILC_PACKET_MAX_LEN" and ids: "ids_ok st src dt dst"
    and pad: "length pad < 256"
  shows "SILC_PACKET_LENGTH H = (10 + length src + length dst + length data, length B)"
    "H ! 2 = flags" "H ! 3 = type" "silc_packet_special_len H = 10 + length src + length dst + length pad"
proof -
  define n where "n = 10 + length src + length dst + length data"
  have i: "H ! i = B ! i" if "i < 16" for i
  proof -
    have "take 16 H ! i = take 16 B ! i" using H by simp
    then show ?thesis using that by simp
  qed
  have g: "SILC_GET16_MSB H = SILC_GET16_MSB B" by (simp add: SILC_GET16_MSB_def i)
  have B': "B = SILC_PUT16_MSB (of_nat n) @ flags # type # of_nat (length pad) # 0 # of_nat (length src) # of_nat (length dst) # st
       # src @ [dt] @ dst @ pad @ data"
    by (simp add: B packet_bytes_def n_def)
  have two: "length (SILC_PUT16_MSB w) = 2" for w by simp
  have n: "n < 65536" using fits by (simp add: n_def SILC_PACKET_MAX_LEN_def)
  have nth: "B ! 2 = flags" "B ! 3 = type" "B ! 4 = of_nat (length pad)" "B ! 6 = of_nat (length src)" "B ! 7 = of_nat (length dst)"
    by (simp_all add: B' nth_append)
  have small: "length src < 256" "length dst < 256" using ids by (auto simp: ids_ok_def SILC_PACKET_MAX_ID_LEN_def)
  have lB: "length B = n + length pad" by (simp add: B length_packet_bytes n_def)
  have "SILC_GET16_MSB B = of_nat n" by (simp add: B')
  then show "SILC_PACKET_LENGTH H = (10 + length src + length dst + length data, length B)"
    unfolding n_def [symmetric] using n pad by (simp add: SILC_PACKET_LENGTH_def Let_def g i nth lB)
  show "H ! 2 = flags" "H ! 3 = type" "silc_packet_special_len H = 10 + length src + length dst + length pad"
    using pad small by (simp_all add: i nth silc_packet_special_len_def SILC_PACKET_HEADER_LEN_def)
qed

definition pool_ok :: "silc_buffer list \<Rightarrow> bool" where
  "pool_ok pool \<longleftrightarrow> list_all (\<lambda>b. wf_buffer b \<and> sb_data b = 0 \<and> sb_tail b = 0) pool"

lemma packet_room:
  assumes "pool_ok pool" and "n < SILC_MAX_ALLOC"
  obtains b0 pool' b where "silc_packet_alloc J pool = (b0, pool')" "pool_ok pool'"
    "(if silc_buffer_truelen b0 < n then silc_buffer_realloc J (Some b0) n else Some b0) = Some b"
    "wf_buffer b" "sb_data b = 0" "sb_tail b = 0" "n \<le> length (sb_mem b)"
proof -
  obtain b0 pool' where a: "silc_packet_alloc J pool = (b0, pool')" by fastforce
  have b0: "wf_buffer b0" "sb_data b0 = 0" "sb_tail b0 = 0" "pool_ok pool'"
    using a assms(1)
    by (auto simp: silc_packet_alloc_def pool_ok_def silc_buffer_reset_def wf_buffer_def SILC_PACKET_DEFAULT_SIZE_def u32_max_def
        split: list.splits)
  note tl = wf_buffer_lens(1) [OF b0(1)]
  show thesis
  proof (cases "length (sb_mem b0) < n")
    case True
    obtain e where "silc_buffer_realloc J (Some b0) n = Some (b0\<lparr>sb_mem := sb_mem b0 @ e\<rparr>)" "length (sb_mem b0 @ e) = n"
      using realloc_grow [OF b0(1), of n J] True assms(2) by auto
    then show thesis
      using that [OF a b0(4), of "b0\<lparr>sb_mem := sb_mem b0 @ e\<rparr>"] True b0 tl assms(2) max_alloc_less_u32 [of n]
      by (auto simp: wf_buffer_def)
  next
    case False
    then show thesis using that [OF a b0(4), of b0] b0 tl by simp
  qed
qed

lemma packet_fill_ok:
  assumes wf: "wf_buffer buf" "sb_data buf = 0" "sb_tail buf = 0" "n \<le> length (sb_mem buf)"
    and fb: "fb_block_len fb = 16" "fb_ivlen fb = 0" "fb_psnlen fb = 0" "16 \<le> length (fb_header fb)"
    and n: "16 \<le> n" "n \<le> length data"
  shows "packet_fill fb data n buf =
    \<lparr>sb_mem = take 16 (fb_header fb) @ take (n - 16) (drop 16 data) @ drop n (sb_mem buf), sb_data = 16, sb_tail = n\<rparr>"
proof -
  define M where "M = sb_mem buf"
  have M: "n \<le> length M" "length M < u32_max" "buf = \<lparr>sb_mem = M, sb_data = 0, sb_tail = 0\<rparr>"
    using wf by (auto simp: M_def wf_buffer_def)
  define H where "H = take 16 (fb_header fb)"
  have H: "length H = 16" using fb by (simp add: H_def)
  have l: "silc_buffer_len \<lparr>sb_mem = m, sb_data = d, sb_tail = n\<rparr> = n - d" if "d \<le> n" for m d
    using that M by (simp add: silc_buffer_len_def silc_arith)
  have s: "sub32 (sub32 (sub32 n 0) 0) 16 = n - 16" using n M by (simp add: silc_arith)
  have tl: "silc_buffer_taillen \<lparr>sb_mem = M, sb_data = 0, sb_tail = 0\<rparr> = length M"
    using M by (simp add: silc_buffer_taillen_def silc_arith)
  have m1: "memcpy M 0 H = H @ drop 16 M" using H M n by (simp add: memcpy_def)
  have m2: "memcpy (H @ drop 16 M) 16 (take (n - 16) (drop 16 data)) = H @ take (n - 16) (drop 16 data) @ drop n M"
    using H M n by (simp add: memcpy_def)
  show ?thesis
    unfolding packet_fill_def M(3) fb Let_def
    using n M(1)
    by (simp add: silc_buffer_pull_tail_def tl silc_buffer_put_def silc_buffer_pull_def l s H_def [symmetric] m1 m2)
qed

text \<open>Which part of a packet is encrypted, by the two ends.\<close>

definition whole_encrypted :: "bool \<Rightarrow> byte \<Rightarrow> byte \<Rightarrow> bool" where
  "whole_encrypted router type flags \<longleftrightarrow>
     \<not> (type = SILC_PACKET_PRIVATE_MESSAGE \<and> flags AND SILC_PACKET_FLAG_PRIVMSG_KEY \<noteq> 0)
     \<and> (type = SILC_PACKET_CHANNEL_MESSAGE \<longrightarrow> router)"

lemma packet_normal_eq:
  "packet_normal r type flags = whole_encrypted (ps_local_is_router r \<and> ps_is_router r) type flags"
  by (auto simp: packet_normal_def whole_encrypted_def)

lemma whole_encrypted_flags:
  "whole_encrypted router type (flags AND NOT SILC_PACKET_FLAG_LONG_PAD) = whole_encrypted router type flags"
proof -
  have "(flags AND NOT SILC_PACKET_FLAG_LONG_PAD) AND SILC_PACKET_FLAG_PRIVMSG_KEY = flags AND SILC_PACKET_FLAG_PRIVMSG_KEY"
    by (rule bit_word_eqI) (auto simp: SILC_PACKET_FLAG_LONG_PAD_def SILC_PACKET_FLAG_PRIVMSG_KEY_def bit_simps less_Suc_eq)
  then show ?thesis by (simp add: whole_encrypted_def)
qed

lemma send_lengths_enclen:
  assumes "send_lengths router type flags ctr hdrlen truelen 0 b = (padlen, enclen)"
  shows "enclen = (if whole_encrypted router type flags then truelen + padlen else hdrlen + padlen)"
  using assms by (auto simp: send_lengths_def whole_encrypted_def Let_def split: if_splits)

text \<open>
  The two ends of a connection: ciphers and MACs correspond, either both or none are set, both ends
  agree on the sequence number and on whether this is a link between routers, and vectors are not
  included in packets.
\<close>

definition hmac_link :: "silc_hmac option \<Rightarrow> silc_hmac option \<Rightarrow> bool" where
  "hmac_link = rel_option (\<lambda>s r. hmac_ok s \<and> hm_len r = hm_len s \<and> hmac_mac r = hmac_mac s)"

definition stream_sync :: "silc_packet_stream \<Rightarrow> silc_packet_stream \<Rightarrow> bool" where
  "stream_sync s r \<longleftrightarrow>
     \<not> ps_iv_included s \<and> \<not> ps_iv_included r
     \<and> rel_option cipher_pair (ps_send_key s) (ps_receive_key r)
     \<and> hmac_link (ps_send_hmac s) (ps_receive_hmac r)
     \<and> (ps_send_key s = None) = (ps_send_hmac s = None)
     \<and> ps_send_psn s = ps_receive_psn r
     \<and> (ps_local_is_router s \<and> ps_is_router s) = (ps_local_is_router r \<and> ps_is_router r)"

lemma mac_of_link: "hmac_link hs hr \<Longrightarrow> mac_of hs psn body = mac_of hr psn body \<and> mac_length hs = mac_length hr"
  by (auto simp: hmac_link_def mac_of_def mac_length_def elim!: option.rel_cases)

lemma check_mac_ok:
  assumes "hmac_link hs hr"
  shows "silc_packet_check_mac hr body (mac_of hr psn body @ rest) None psn"
  using assms by (auto simp: silc_packet_check_mac_def mac_of_def Let_def silc_hmac_pieces split: option.split)

lemma first_block_plain:
  assumes "\<not> ps_iv_included r"
  shows "ps_receive_key r = None \<Longrightarrow> read_first_block J r data =
      Some \<lparr>fb_old = False, fb_cipher = None, fb_hmac = ps_receive_hmac r, fb_iv = [], fb_header = data,
            fb_seq = None, fb_block_len = 16, fb_ivlen = 0, fb_psnlen = 0\<rparr>"
    "ps_receive_key r = Some c \<Longrightarrow> silc_cipher_decrypt (first_cipher c) (take 16 data) (Some (first_iv c)) = Some (c1, iv1, H) \<Longrightarrow>
     read_first_block J r data =
      Some \<lparr>fb_old = False, fb_cipher = Some c1, fb_hmac = ps_receive_hmac r, fb_iv = iv1, fb_header = H,
            fb_seq = None, fb_block_len = 16, fb_ivlen = 0, fb_psnlen = 0\<rparr>"
  using assms
  by (cases "silc_cipher_get_mode c = SILC_CIPHER_MODE_CTR";
      simp add: read_first_block_def SILC_PACKET_MIN_HEADER_LEN_def silc_cipher_get_block_len_def Let_def
        first_cipher_def first_iv_def silc_cipher_get_iv_def)+

lemma decrypt_part_ok:
  assumes "length H = 16" "length body = n" "length B = n" "16 \<le> enclen" "enclen \<le> n" "drop enclen body = drop enclen B"
    and "silc_cipher_decrypt c (take (enclen - 16) (drop 16 body)) None = Some (c2, v, take (enclen - 16) (drop 16 B))"
  shows "decrypt_part c \<lparr>sb_mem = H @ drop 16 body @ X, sb_data = 16, sb_tail = n\<rparr> (enclen - 16) =
    Some (c2, \<lparr>sb_mem = H @ drop 16 B @ X, sb_data = 16, sb_tail = n\<rparr>)"
proof -
  have t: "take (enclen - 16) (drop 16 (H @ drop 16 body @ X)) = take (enclen - 16) (drop 16 body)"
    using assms(1-5) by simp
  have "take (enclen - 16) (drop 16 B) @ drop (enclen - 16) (drop 16 body) = drop 16 B"
    using assms(4-6) append_take_drop_id [of "enclen - 16" "drop 16 B"] by (simp del: append_take_drop_id)
  then have "memcpy (H @ drop 16 body @ X) 16 (take (enclen - 16) (drop 16 B)) = H @ drop 16 B @ X"
    using assms(1-5) by (simp add: memcpy_def add.commute)
  then show ?thesis using assms(7) unfolding decrypt_part_def silc_buffer.select_convs t by simp
qed

lemma packet_decrypt_ok:
  assumes "length B = n" "length body = n" "16 \<le> enclen" "enclen \<le> n" "drop enclen body = drop enclen B" "n + length X < u32_max"
    and "silc_cipher_decrypt c (take (enclen - 16) (drop 16 body)) None = Some (c2, v, take (enclen - 16) (drop 16 B))"
    and "if normal then enclen = n else \<forall>h. take 16 h = take 16 B \<longrightarrow> silc_packet_special_len h = enclen" and "\<not> normal \<Longrightarrow> enclen < 65536"
  shows "silc_packet_decrypt c \<lparr>sb_mem = take 16 B @ drop 16 body @ X, sb_data = 16, sb_tail = n\<rparr> normal =
    Some (c2, \<lparr>sb_mem = B @ X, sb_data = 16, sb_tail = n\<rparr>)"
proof -
  define b where "b = \<lparr>sb_mem = take 16 B @ drop 16 body @ X, sb_data = 16, sb_tail = n\<rparr>"
  have l: "silc_buffer_len b = n - 16" using assms(3,4,6) by (simp add: b_def silc_buffer_len_def silc_arith)
  have part: "decrypt_part c b (enclen - 16) = Some (c2, \<lparr>sb_mem = take 16 B @ drop 16 B @ X, sb_data = 16, sb_tail = n\<rparr>)"
    unfolding b_def using assms(1-7) by (intro decrypt_part_ok) auto
  have B: "take 16 B @ drop 16 B @ X = B @ X" by (simp flip: append_assoc)
  have push: "fst (silc_buffer_push b 16) = b\<lparr>sb_data := 0\<rparr>" "fst (silc_buffer_pull (b\<lparr>sb_data := 0\<rparr>) 16) = b"
    using assms(3,4,6) by (simp_all add: b_def silc_buffer_push_def silc_buffer_pull_def silc_buffer_len_def silc_arith)
  show ?thesis
  proof (cases normal)
    case True
    then show ?thesis using assms(8) part l by (simp add: silc_packet_decrypt_def b_def [symmetric] B)
  next
    case False
    have "silc_packet_special_len (drop 0 (sb_mem b)) = enclen" using assms(1,3,4,8) False by (simp add: b_def)
    then have e: "nat ((int (silc_packet_special_len (drop (sb_data (b\<lparr>sb_data := 0\<rparr>)) (sb_mem (b\<lparr>sb_data := 0\<rparr>)))) - int 16) mod 65536) = enclen - 16"
      using assms(3,9) False by (simp add: of_nat_diff [symmetric] nat_mod_distrib)
    show ?thesis
      unfolding silc_packet_decrypt_def b_def [symmetric] silc_cipher_get_block_len_def Let_def push e
      using False l assms(4) part by (simp add: B)
  qed
qed


text \<open>What the receiver delivers.\<close>

definition sent_packet :: "silc_buffer \<Rightarrow> byte \<Rightarrow> byte \<Rightarrow> byte \<Rightarrow> bytes \<Rightarrow> byte \<Rightarrow> bytes \<Rightarrow> silc_packet" where
  "sent_packet b flags type st src dt dst =
     \<lparr>pk_buffer = b, pk_src_id = opt_ptr src, pk_src_id_len = length src, pk_src_id_type = st,
      pk_dst_id = opt_ptr dst, pk_dst_id_len = length dst, pk_dst_id_type = dt, pk_type = type, pk_flags = flags\<rparr>"

lemma packet_finish_ok:
  assumes B: "B = packet_bytes flags type pad st src dt dst data" and ids: "ids_ok st src dt dst"
    and pad: "length pad \<noteq> 1" "length pad < 256" and n: "16 \<le> length B" "length B + length X < u32_max"
    and fb: "fb_block_len fb = 16" "fb_old fb = False"
    and dec: "case fb_cipher fb of None \<Rightarrow> body = B
      | Some c \<Rightarrow> silc_packet_decrypt (silc_cipher_set_iv c (Some (fb_iv fb)))
          \<lparr>sb_mem = take 16 B @ drop 16 body @ X, sb_data = 16, sb_tail = length B\<rparr> normal =
          Some (c2, \<lparr>sb_mem = B @ X, sb_data = 16, sb_tail = length B\<rparr>)"
  shows "packet_finish fb stream pool normal flags type
      \<lparr>sb_mem = take 16 B @ drop 16 body @ X, sb_data = 16, sb_tail = length B\<rparr> taken =
    Read_packet (sent_packet (adv \<lparr>sb_mem = B @ X, sb_data = 0, sb_tail = length B\<rparr> (length B - length data)) flags type st src dt dst)
      taken (if fb_cipher fb = None then stream
             else stream\<lparr>ps_receive_key := Some c2, ps_receive_psn := ps_receive_psn stream + 1\<rparr>) pool"
proof -
  define b where "b = \<lparr>sb_mem = B @ X, sb_data = 0, sb_tail = length B\<rparr>"
  have wf: "wf_buffer b" "sb_bytes b = packet_bytes flags type pad st src dt dst data"
    using n by (simp_all add: b_def wf_buffer_def sb_bytes_def B)
  note parse = parse_packet [OF wf ids pad]
  have a: "10 + length src + length dst + length pad = length B - length data" by (simp add: B length_packet_bytes)
  have push: "fst (silc_buffer_push \<lparr>sb_mem = B @ X, sb_data = 16, sb_tail = length B\<rparr> 16) = b"
    by (simp add: silc_buffer_push_def b_def)
  have B': "take 16 B @ drop 16 B @ X = B @ X" by (simp flip: append_assoc)
  show ?thesis
  proof (cases "fb_cipher fb")
    case None
    then have bB: "body = B" using dec by simp
    show ?thesis
      unfolding packet_finish_def Let_def None option.case fb bB B' silc_packet.update_convs push prod.case parse
      by (simp add: sent_packet_def b_def a)
  next
    case (Some c)
    then have d: "silc_packet_decrypt (silc_cipher_set_iv c (Some (fb_iv fb)))
          \<lparr>sb_mem = take 16 B @ drop 16 body @ X, sb_data = 16, sb_tail = length B\<rparr> normal =
          Some (c2, \<lparr>sb_mem = B @ X, sb_data = 16, sb_tail = length B\<rparr>)" using dec by simp
    show ?thesis
      unfolding packet_finish_def Let_def Some option.case d fb silc_packet.update_convs prod.case push parse
      by (simp add: sent_packet_def b_def a store_cipher_def fb)
  qed
qed

text \<open>What a packet needs to be carried: it fits, and what is encrypted is at least one block.\<close>

definition packet_ok :: "bool \<Rightarrow> silc_cipher option \<Rightarrow> nat \<Rightarrow> byte \<Rightarrow> byte \<Rightarrow> bytes \<Rightarrow> byte \<Rightarrow> bytes \<Rightarrow> byte \<Rightarrow> bytes \<Rightarrow> bytes \<Rightarrow> bool" where
  "packet_ok router sk enclen flags type pad st src dt dst data \<longleftrightarrow>
     ids_ok st src dt dst \<and> length pad \<noteq> 1 \<and> length pad < 256
     \<and> 10 + length src + length dst + length data \<le> SILC_PACKET_MAX_LEN \<and> 0 < length src + length dst + length data
     \<and> 16 \<le> enclen \<and> (sk \<noteq> None \<longrightarrow> \<not> cipher_is_ctr sk \<longrightarrow> enclen mod 16 = 0)
     \<and> enclen = 10 + length src + length dst + length pad + (if whole_encrypted router type flags then length data else 0)"

text \<open>
  The first block is open: its header is that of the packet \<open>B\<close>, and the rest of the packet can be
  decrypted from the body that was received.
\<close>

definition opened :: "silc_packet_stream \<Rightarrow> silc_cipher option \<Rightarrow> silc_cipher option \<Rightarrow> bytes \<Rightarrow> bytes \<Rightarrow> bool
     \<Rightarrow> first_block \<Rightarrow> silc_cipher \<Rightarrow> bool" where
  "opened r sk sk' B body whole fb c2 \<longleftrightarrow>
     fb_block_len fb = 16 \<and> fb_old fb = False \<and> fb_ivlen fb = 0 \<and> fb_psnlen fb = 0
     \<and> fb_hmac fb = ps_receive_hmac r \<and> fb_seq fb = None \<and> take 16 (fb_header fb) = take 16 B
     \<and> (fb_cipher fb = None) = (sk = None) \<and> cipher_is_ctr (fb_cipher fb) = cipher_is_ctr sk
     \<and> rel_option cipher_pair sk (fb_cipher fb)
     \<and> rel_option cipher_pair sk' (if sk = None then None else Some c2)
     \<and> (\<forall>X. length B + length X < u32_max \<longrightarrow> (case fb_cipher fb of None \<Rightarrow> body = B
        | Some c \<Rightarrow> silc_packet_decrypt (silc_cipher_set_iv c (Some (fb_iv fb)))
            \<lparr>sb_mem = take 16 B @ drop 16 body @ X, sb_data = 16, sb_tail = length B\<rparr> whole =
            Some (c2, \<lparr>sb_mem = B @ X, sb_data = 16, sb_tail = length B\<rparr>)))"

lemma receive_open:
  assumes ok: "packet_ok router sk enclen flags type pad st src dt dst data"
    and B: "B = packet_bytes flags type pad st src dt dst data"
    and r: "\<not> ps_iv_included r" "rel_option cipher_pair sk (ps_receive_key r)"
  obtains sk' body where "seal (send_cipher sk) enclen B = Some (sk', body)" "length body = length B"
    "\<And>data'. take 16 data' = take 16 body \<Longrightarrow> \<exists>fb c2.
       read_first_block J r data' = Some fb \<and> opened r sk sk' B body (whole_encrypted router type flags) fb c2"
proof -
  have lB: "length B = 10 + length src + length dst + length pad + length data" by (simp add: B length_packet_bytes)
  have enc: "16 \<le> enclen" "enclen \<le> length B" using ok by (auto simp: packet_ok_def lB)
  show thesis
  proof (cases sk)
    case None
    then have k: "ps_receive_key r = None" using r(2) by simp
    show thesis
      by (rule that [of None B])
        (auto simp: opened_def seal_def send_cipher_def None first_block_plain(1) [OF r(1) k] cipher_is_ctr_def)
  next
    case (Some s)
    then obtain c where c: "ps_receive_key r = Some c" "cipher_pair s c" using r(2) by (auto simp: option_rel_Some1)
    have "sk \<noteq> None \<longrightarrow> \<not> cipher_is_ctr sk \<longrightarrow> enclen mod 16 = 0" using ok unfolding packet_ok_def by blast
    then have "enclen mod 16 = 0" if "silc_cipher_get_mode s \<noteq> SILC_CIPHER_MODE_CTR"
      using that by (simp add: Some cipher_is_ctr_def)
    then obtain s' ct c1 iv1 c2 v where
      e: "seal (send_cipher (Some s)) enclen B = Some (Some s', ct @ drop enclen B)" "length ct = enclen"
        "silc_cipher_decrypt (first_cipher c) (take 16 ct) (Some (first_iv c)) = Some (c1, iv1, take 16 B)"
        "silc_cipher_get_mode c1 = silc_cipher_get_mode c"
        "silc_cipher_decrypt (silc_cipher_set_iv c1 (Some iv1)) (drop 16 ct) None = Some (c2, v, drop 16 (take enclen B))"
        "cipher_pair s' c2"
      using seal_open [OF c(2) enc] by metis
    have keep: "cipher_pair s c1"
      using c(2) e(3) by (auto simp: cipher_pair_def first_cipher_def silc_cipher_decrypt_def with_iv_def silc_cipher_set_iv_def Let_def
          silc_aes_ctr_decrypt_def silc_aes_ctr_encrypt_def silc_aes_cbc_decrypt_def silc_aes_ctr_set_iv_def silc_aes_cbc_set_iv_def
          split: silc_cipher_object.splits if_splits prod.splits)
    have m: "silc_cipher_get_mode c = silc_cipher_get_mode s" using c(2) by (simp add: cipher_pair_def silc_cipher_get_mode_def)
    define body where "body = ct @ drop enclen B"
    have t16: "take 16 body = take 16 ct" using e(2) enc by (simp add: body_def)
    have spec: "if whole_encrypted router type flags then enclen = length B
        else \<forall>h. take 16 h = take 16 B \<longrightarrow> silc_packet_special_len h = enclen"
      using ok header_fields(4) [OF B] enc lB by (auto simp: packet_ok_def)
    have small: "\<not> whole_encrypted router type flags \<Longrightarrow> enclen < 65536"
      using ok by (auto simp: packet_ok_def ids_ok_def SILC_PACKET_MAX_ID_LEN_def)
    have dec: "silc_packet_decrypt (silc_cipher_set_iv c1 (Some iv1))
        \<lparr>sb_mem = take 16 B @ drop 16 body @ X, sb_data = 16, sb_tail = length B\<rparr> (whole_encrypted router type flags) =
        Some (c2, \<lparr>sb_mem = B @ X, sb_data = 16, sb_tail = length B\<rparr>)" if "length B + length X < u32_max" for X
      using enc e(2,5) that spec small
      by (intro packet_decrypt_ok [where enclen = enclen and v = v]) (simp_all add: body_def drop_take)
    show thesis
    proof (rule that [of "Some s'" body])
      show "seal (send_cipher sk) enclen B = Some (Some s', body)" using e(1) by (simp add: Some body_def)
      show "length body = length B" using e(2) enc by (simp add: body_def)
      fix data' :: bytes
      assume "take 16 data' = take 16 body"
      then have fb: "read_first_block J r data' =
        Some \<lparr>fb_old = False, fb_cipher = Some c1, fb_hmac = ps_receive_hmac r, fb_iv = iv1, fb_header = take 16 B,
            fb_seq = None, fb_block_len = 16, fb_ivlen = 0, fb_psnlen = 0\<rparr>"
        using first_block_plain(2) [OF r(1) c(1)] e(3) t16 by simp
      show "\<exists>fb c2.
       read_first_block J r data' = Some fb \<and> opened r sk (Some s') B body (whole_encrypted router type flags) fb c2"
        unfolding fb by (rule exI, rule exI [of _ c2]) (auto simp: opened_def dec keep e(4,6) m Some cipher_is_ctr_def)
    qed
  qed
qed

lemma bytes_prefix:
  assumes "wf_buffer inbuf" and "sb_bytes inbuf = w" and "n \<le> length w"
  shows "take n (drop (sb_data inbuf) (sb_mem inbuf)) = take n w" "silc_buffer_len inbuf = length w"
    "take (length w) (drop (sb_data inbuf) (sb_mem inbuf)) = w"
  using assms length_sb_bytes [OF assms(1)] wf_buffer_lens(2) [OF assms(1)] by (auto simp: sb_bytes_def min_def)

lemma store_cipher_plain:
  "fb_old fb = False \<Longrightarrow> (if fb_cipher fb = None then r else store_cipher fb (fb_cipher fb) r) =
     (if fb_cipher fb = None then r else r\<lparr>ps_receive_key := fb_cipher fb\<rparr>)"
  by (simp add: store_cipher_def)

text \<open>The check of the block length passes: what is encrypted is a multiple of the block.\<close>

lemma encrypted_multiple:
  assumes ok: "packet_ok router sk enclen flags type pad st src dt dst data"
    and "(c = None) = (sk = None)" "cipher_is_ctr c = cipher_is_ctr sk"
  shows "\<not> (c \<noteq> None \<and> \<not> cipher_is_ctr c \<and>
      (whole_encrypted router type flags \<and> (16 :: nat) \<noteq> 0
         \<and> (10 + length src + length dst + length pad + length data) mod 16 \<noteq> 0 \<or>
       \<not> whole_encrypted router type flags \<and> (16 :: nat) \<noteq> 0 \<and> (10 + length src + length dst + length pad) mod 16 \<noteq> 0))"
proof -
  have "sk \<noteq> None \<longrightarrow> \<not> cipher_is_ctr sk \<longrightarrow> enclen mod 16 = 0"
    and "enclen = 10 + length src + length dst + length pad + (if whole_encrypted router type flags then length data else 0)"
    using ok unfolding packet_ok_def by blast+
  then show ?thesis unfolding assms(2,3) by (cases "whole_encrypted router type flags") auto
qed

lemma receive_ok:
  assumes ok: "packet_ok router sk enclen flags type pad st src dt dst data"
    and B: "B = packet_bytes flags type pad st src dt dst data"
    and r: "\<not> ps_iv_included r" "rel_option cipher_pair sk (ps_receive_key r)" "(ps_local_is_router r \<and> ps_is_router r) = router"
      "hmac_link hs (ps_receive_hmac r)"
    and seal: "seal (send_cipher sk) enclen B = Some (sk', body)"
    and inbuf: "wf_buffer inbuf" "sb_bytes inbuf = body @ mac_of hs (ps_receive_psn r) body @ rest"
    and pool: "pool_ok pool"
  obtains b pool' r' where
    "read_packet J r pool inbuf = Read_packet (sent_packet b flags type st src dt dst) (length B + mac_length hs) r' pool'"
    "pool_ok pool'" "wf_buffer b" "sb_bytes b = data" "rel_option cipher_pair sk' (ps_receive_key r')"
    "r' = r\<lparr>ps_receive_key := ps_receive_key r', ps_receive_psn := ps_receive_psn r + (if sk = None then 0 else 1)\<rparr>"
proof -
  define d where "d = drop (sb_data inbuf) (sb_mem inbuf)"
  define W where "W = body @ mac_of hs (ps_receive_psn r) body @ rest"
  obtain sk2 body2 where o: "seal (send_cipher sk) enclen B = Some (sk2, body2)" "length body2 = length B"
    "\<And>data'. take 16 data' = take 16 body2 \<Longrightarrow> \<exists>fb c2.
       read_first_block J r data' = Some fb \<and> opened r sk sk2 B body2 (whole_encrypted router type flags) fb c2"
    by (rule receive_open [OF ok B r(1,2)]) (rule that, assumption+)
  have same: "sk2 = sk'" "body2 = body" using o(1) seal by auto
  have lB: "length B = 10 + length src + length dst + length pad + length data" by (simp add: B length_packet_bytes)
  have enc: "16 \<le> enclen" "enclen \<le> length B" using ok by (auto simp: packet_ok_def lB)
  have lb: "length body = length B" using o(2) same by simp
  note macl = mac_of_link [OF r(4)]
  have ml: "length (mac_of hs psn x) = mac_length hs" for psn x
    using r(4) by (intro length_mac_of) (auto simp: hmac_link_def pred_option_def elim!: option.rel_cases)
  have lW: "silc_buffer_len inbuf = length W" "length B + mac_length hs \<le> length W"
    using bytes_prefix(2) [OF inbuf(1), of W 0] inbuf(2) lb ml by (simp_all add: W_def)
  have dW: "take (length W) d = W" using bytes_prefix(3) [OF inbuf(1), of W 0] inbuf(2) by (simp add: d_def W_def)
  define mac where "mac = mac_of (ps_receive_hmac r) (ps_receive_psn r) body"
  define Y where "Y = rest @ drop (length W) d"
  have d: "d = body @ mac @ Y"
    by (subst append_take_drop_id [of "length W" d, symmetric], subst dW) (simp add: W_def Y_def mac_def macl)
  have t: "take 16 d = take 16 body" "take (length B) d = body" "drop (length B) d = mac @ Y" "16 \<le> length d" "length B \<le> length d"
    using enc lb by (simp_all add: d)
  obtain fb c2 where fb: "read_first_block J r d = Some fb" "fb_block_len fb = 16" "fb_old fb = False" "fb_ivlen fb = 0" "fb_psnlen fb = 0"
      "fb_hmac fb = ps_receive_hmac r" "fb_seq fb = None" and H: "take 16 (fb_header fb) = take 16 B"
    and c: "(fb_cipher fb = None) = (sk = None)" "cipher_is_ctr (fb_cipher fb) = cipher_is_ctr sk"
      "rel_option cipher_pair sk' (if sk = None then None else Some c2)"
    and dec: "\<And>X. length B + length X < u32_max \<Longrightarrow> (case fb_cipher fb of None \<Rightarrow> body = B
          | Some c \<Rightarrow> silc_packet_decrypt (silc_cipher_set_iv c (Some (fb_iv fb)))
              \<lparr>sb_mem = take 16 B @ drop 16 body @ X, sb_data = 16, sb_tail = length B\<rparr> (whole_encrypted router type flags) =
              Some (c2, \<lparr>sb_mem = B @ X, sb_data = 16, sb_tail = length B\<rparr>))"
    using o(3) [of d] t(1) unfolding same opened_def by auto
  define r1 where "r1 = (if fb_cipher fb = None then r else r\<lparr>ps_receive_key := fb_cipher fb\<rparr>)"
  have pad: "length pad \<noteq> 1" "length pad < 256" and ids: "ids_ok st src dt dst"
    and fits: "10 + length src + length dst + length data \<le> SILC_PACKET_MAX_LEN" and min: "\<not> 10 + length src + length dst + length data < SILC_PACKET_MIN_LEN"
    using ok by (auto simp: packet_ok_def SILC_PACKET_MIN_LEN_def SILC_PACKET_HEADER_LEN_def)
  note h = header_fields [OF B H order_trans [OF enc] fits ids pad(2)]
  have nrm: "packet_normal r1 type flags = whole_encrypted router type flags"
    using r(3) by (auto simp: packet_normal_eq r1_def)
  note blk = encrypted_multiple [OF ok c(1,2)]
  have mlr: "(case ps_receive_hmac r of None \<Rightarrow> 0 | Some hm \<Rightarrow> silc_hmac_len hm) = mac_length hs"
    using macl by (simp add: mac_length_def silc_hmac_len_def split: option.splits)
  have chk: "silc_packet_check_mac (ps_receive_hmac r) body (mac @ Y) None (ps_receive_psn r1)"
    using check_mac_ok [OF r(4)] by (simp add: mac_def r1_def)
  have big: "\<not> length W < 16" "\<not> length W < length B + 0 + mac_length hs" using lW enc by auto
  have alloc: "length B < SILC_MAX_ALLOC"
    using fits pad by (simp add: lB SILC_PACKET_MAX_LEN_def SILC_MAX_ALLOC_def)
  obtain b0 pool' buf where buf: "silc_packet_alloc J pool = (b0, pool')" "pool_ok pool'"
    "(if silc_buffer_truelen b0 < length B then silc_buffer_realloc J (Some b0) (length B) else Some b0) = Some buf"
    "wf_buffer buf" "sb_data buf = 0" "sb_tail buf = 0" "length B \<le> length (sb_mem buf)"
    using packet_room [OF pool alloc] by metis
  define X where "X = drop (length B) (sb_mem buf)"
  have X: "length B + length X < u32_max" using buf(4,7) by (auto simp: X_def wf_buffer_def)
  have lH: "16 \<le> length (fb_header fb)" using H enc by (metis length_take min.absorb2 min.bounded_iff order_trans order_refl)
  have "take (length B - 16) (drop 16 d) = drop 16 body" using enc lb by (simp add: d)
  then have fill: "packet_fill fb d (length B) buf =
      \<lparr>sb_mem = take 16 B @ drop 16 body @ X, sb_data = 16, sb_tail = length B\<rparr>"
    using packet_fill_ok [OF buf(4-7) fb(2,4,5) lH _ t(5)] enc by (simp add: H X_def)
  have rd: "read_packet J r pool inbuf = packet_finish fb r1 pool' (whole_encrypted router type flags) flags type
      \<lparr>sb_mem = take 16 B @ drop 16 body @ X, sb_data = 16, sb_tail = length B\<rparr> (length B + mac_length hs)"
    unfolding read_packet_def Let_def d_def [symmetric] lW(1) fb(1) option.case store_cipher_plain [OF fb(3)] r1_def [symmetric]
      h prod.case nrm fb(2,4,6,7) mlr add_0_right add_0_left t(2,3) buf(1,3) fill
    using blk big chk min r(1) lB by (simp add: SILC_PACKET_MIN_HEADER_LEN_def) auto
  define b where "b = adv \<lparr>sb_mem = B @ X, sb_data = 0, sb_tail = length B\<rparr> (length B - length data)"
  have b: "wf_buffer b" "sb_bytes b = data"
  proof -
    have "B = (SILC_PUT16_MSB (of_nat (10 + length src + length dst + length data))
        @ [flags, type, of_nat (length pad), 0, of_nat (length src), of_nat (length dst), st] @ src @ [dt] @ dst @ pad) @ data"
      by (simp add: B packet_bytes_def)
    then have "drop (length B - length data) B = data" by (simp only: length_append diff_add_inverse2 append_eq_conv_conj simp_thms) simp
    then show "wf_buffer b" "sb_bytes b = data" using X lB by (simp_all add: b_def wf_buffer_def sb_bytes_def)
  qed
  define r' where "r' = (if fb_cipher fb = None then r1 else r1\<lparr>ps_receive_key := Some c2, ps_receive_psn := ps_receive_psn r1 + 1\<rparr>)"
  show thesis
  proof (rule that [of b r' pool'])
    show "read_packet J r pool inbuf = Read_packet (sent_packet b flags type st src dt dst) (length B + mac_length hs) r' pool'"
      unfolding rd b_def r'_def
      using enc by (intro packet_finish_ok [OF B ids pad _ X fb(2,3) dec [OF X]]) auto
    show "rel_option cipher_pair sk' (ps_receive_key r')"
      using c r(2) by (auto simp: r'_def r1_def split: if_splits)
    show "r' = r\<lparr>ps_receive_key := ps_receive_key r', ps_receive_psn := ps_receive_psn r + (if sk = None then 0 else 1)\<rparr>"
      using c(1) by (auto simp: r'_def r1_def)
  qed (use buf(2) b in auto)
qed

text \<open>As long as the packet is not complete, the receiver waits for the rest of it.\<close>

lemma receive_partial:
  assumes ok: "packet_ok router sk enclen flags type pad st src dt dst data"
    and B: "B = packet_bytes flags type pad st src dt dst data"
    and r: "\<not> ps_iv_included r" "rel_option cipher_pair sk (ps_receive_key r)" "(ps_local_is_router r \<and> ps_is_router r) = router"
      "hmac_link hs (ps_receive_hmac r)"
    and seal: "seal (send_cipher sk) enclen B = Some (sk', body)"
    and inbuf: "wf_buffer inbuf" "body @ mac_of hs psn body = sb_bytes inbuf @ rest" "rest \<noteq> []"
  obtains r' where "read_packet J r pool inbuf = Read_partial r'" "rel_option cipher_pair sk (ps_receive_key r')"
    "r' = r\<lparr>ps_receive_key := ps_receive_key r'\<rparr>"
proof -
  define d where "d = drop (sb_data inbuf) (sb_mem inbuf)"
  define p where "p = sb_bytes inbuf"
  have p: "silc_buffer_len inbuf = length p" "take (length p) d = p"
    using bytes_prefix(2,3) [OF inbuf(1), of p 0] by (simp_all add: p_def d_def)
  show thesis
  proof (cases "length p < 16")
    case True
    then have "read_packet J r pool inbuf = Read_partial r"
      using r(1) by (simp add: read_packet_def p SILC_PACKET_MIN_HEADER_LEN_def)
    then show thesis using that [of r] r(2) by simp
  next
    case False
    obtain sk2 body2 where o: "seal (send_cipher sk) enclen B = Some (sk2, body2)" "length body2 = length B"
      "\<And>data'. take 16 data' = take 16 body2 \<Longrightarrow> \<exists>fb c2.
       read_first_block J r data' = Some fb \<and> opened r sk sk2 B body2 (whole_encrypted router type flags) fb c2"
      by (rule receive_open [OF ok B r(1,2)]) (rule that, assumption+)
    have same: "body2 = body" using o(1) seal by auto
    have lB: "length B = 10 + length src + length dst + length pad + length data" by (simp add: B length_packet_bytes)
    have enc: "16 \<le> enclen" "enclen \<le> length B" using ok by (auto simp: packet_ok_def lB)
    have lb: "length body = length B" using o(2) same by simp
    have "take 16 d = take 16 p" using p(2) False by (metis min.absorb1 not_less take_take)
    also have "\<dots> = take 16 (body @ mac_of hs psn body)" using inbuf(2) False by (simp add: p_def)
    finally have t: "take 16 d = take 16 body" using lb enc by simp
    obtain fb c2 where fb: "read_first_block J r d = Some fb" "fb_block_len fb = 16" "fb_old fb = False" "fb_ivlen fb = 0"
      and H: "take 16 (fb_header fb) = take 16 B"
      and c: "(fb_cipher fb = None) = (sk = None)" "cipher_is_ctr (fb_cipher fb) = cipher_is_ctr sk"
        "rel_option cipher_pair sk (fb_cipher fb)"
      using o(3) [of d] t unfolding same opened_def by auto
    define r1 where "r1 = (if fb_cipher fb = None then r else r\<lparr>ps_receive_key := fb_cipher fb\<rparr>)"
    have pad: "length pad < 256" and ids: "ids_ok st src dt dst"
      and fits: "10 + length src + length dst + length data \<le> SILC_PACKET_MAX_LEN"
      using ok by (auto simp: packet_ok_def)
    note h = header_fields [OF B H order_trans [OF enc] fits ids pad]
    have nrm: "packet_normal r1 type flags = whole_encrypted router type flags"
      using r(3) by (auto simp: packet_normal_eq r1_def)
    note blk = encrypted_multiple [OF ok c(1,2)]
    have mlr: "(case ps_receive_hmac r of None \<Rightarrow> 0 | Some hm \<Rightarrow> silc_hmac_len hm) = mac_length hs"
      using mac_of_link [OF r(4)] by (simp add: mac_length_def silc_hmac_len_def split: option.splits)
    have "length (mac_of hs psn body) = mac_length hs"
      using r(4) by (intro length_mac_of) (auto simp: hmac_link_def pred_option_def elim!: option.rel_cases)
    then have "length p < length B + 0 + mac_length hs"
      using arg_cong [OF inbuf(2), of length] inbuf(3) lb by (cases rest) (simp_all add: p_def)
    then have "read_packet J r pool inbuf = Read_partial r1"
      unfolding read_packet_def Let_def d_def [symmetric] p(1) fb(1) option.case store_cipher_plain [OF fb(3)] r1_def [symmetric]
        h prod.case nrm fb(2,4) mlr
      using blk False r(1) lB by (simp add: SILC_PACKET_MIN_HEADER_LEN_def)
    then show thesis using that [of r1] c r(2) by (auto simp: r1_def split: if_splits)
  qed
qed

end
