(* ===== verification/Silc_Packet_Io.thy ===== *)
theory Silc_Packet_Io
  imports Silc_Packet_Receive
begin

text \<open>
  The packet engine as a whole: the functions that send packets at one end, a stream that takes and
  gives the bytes in any portions, and the loop that receives packets at the other end.
\<close>

section \<open>One packet over a link\<close>

type_synonym message = "byte \<times> byte \<times> bytes"

text \<open>
  A message the engine can carry: the identifiers are valid, the packet is not longer than the
  length field says and has some content, and in counter mode, where there is no padding, what is
  encrypted is at least one block.
\<close>

fun sendable :: "silc_packet_stream \<Rightarrow> message \<Rightarrow> bool" where
  "sendable s (type, flags, data) \<longleftrightarrow>
     (let src = opt_bytes (ps_src_id s); dst = opt_bytes (ps_dst_id s)
      in length src = ps_src_id_len s \<and> length dst = ps_dst_id_len s
         \<and> ids_ok (ps_src_id_type s) src (ps_dst_id_type s) dst
         \<and> 10 + length src + length dst + length data \<le> SILC_PACKET_MAX_LEN \<and> 0 < length src + length dst + length data
         \<and> (cipher_is_ctr (ps_send_key s) \<longrightarrow>
            16 \<le> 10 + length src + length dst
              + (if whole_encrypted (ps_local_is_router s \<and> ps_is_router s) type flags then length data else 0)))"

text \<open>The packet delivered for a message.\<close>

fun delivered :: "silc_packet_stream \<Rightarrow> message \<Rightarrow> silc_packet \<Rightarrow> bool" where
  "delivered s (type, flags, data) p \<longleftrightarrow>
     p = sent_packet (pk_buffer p) (flags AND NOT SILC_PACKET_FLAG_LONG_PAD) type
           (ps_src_id_type s) (opt_bytes (ps_src_id s)) (ps_dst_id_type s) (opt_bytes (ps_dst_id s))
     \<and> sb_bytes (pk_buffer p) = data"

definition same_setup :: "silc_packet_stream \<Rightarrow> silc_packet_stream \<Rightarrow> bool" where
  "same_setup r r' \<longleftrightarrow> ps_process r' = ps_process r \<and> ps_destroyed r' = ps_destroyed r"

text \<open>The bytes \<open>w\<close> carry a message, whatever comes behind them, and nothing less than \<open>w\<close> does.\<close>

definition carries :: "silc_packet_stream \<Rightarrow> message \<Rightarrow> bytes \<Rightarrow> silc_packet_stream \<Rightarrow> bool" where
  "carries s m w s' \<longleftrightarrow> w \<noteq> [] \<and>
     (\<forall>J r pool inbuf rest. stream_sync s r \<longrightarrow> pool_ok pool \<longrightarrow> wf_buffer inbuf \<longrightarrow>
        (sb_bytes inbuf = w @ rest \<longrightarrow>
          (\<exists>p r' pool'. read_packet J r pool inbuf = Read_packet p (length w) r' pool' \<and> delivered s m p
             \<and> stream_sync s' r' \<and> pool_ok pool' \<and> same_setup r r' \<and> wf_buffer (pk_buffer p))) \<and>
        (w = sb_bytes inbuf @ rest \<longrightarrow> rest \<noteq> [] \<longrightarrow>
          (\<exists>r'. read_packet J r pool inbuf = Read_partial r' \<and> stream_sync s r' \<and> same_setup r r')))"

lemma seal_ctr:
  "seal c enclen B = Some (c', body) \<Longrightarrow> cipher_is_ctr c' = cipher_is_ctr c \<and> (c' = None) = (c = None)"
  by (auto simp: seal_def cipher_is_ctr_def silc_cipher_encrypt_def with_iv_def silc_cipher_set_iv_def silc_cipher_get_mode_def Let_def
      split: option.splits prod.splits)

lemma hmac_link_ok: "hmac_link hs hr \<Longrightarrow> pred_option hmac_ok hs \<and> mac_length hs \<le> 64"
  using length_mac(2) by (auto simp: hmac_link_def pred_option_def mac_length_def elim!: option.rel_cases)

lemma sync_packet_ok:
  assumes sync: "stream_sync s r" and m: "sendable s (type, flags, data)"
    and lens: "send_lengths (ps_local_is_router s \<and> ps_is_router s) type flags (cipher_is_ctr (ps_send_key s))
        (10 + ps_src_id_len s + ps_dst_id_len s) (10 + ps_src_id_len s + ps_dst_id_len s + length data) 0
        (if ps_send_key s = None then 0 else 16) = (length pad, enclen)"
  shows "packet_ok (ps_local_is_router s \<and> ps_is_router s) (ps_send_key s) enclen (flags AND NOT SILC_PACKET_FLAG_LONG_PAD) type pad
     (ps_src_id_type s) (opt_bytes (ps_src_id s)) (ps_dst_id_type s) (opt_bytes (ps_dst_id s)) data"
    "length pad \<le> 128"
proof -
  note e = send_lengths_enclen [OF lens]
  have b: "(if ps_send_key s = None then 0 else 16) \<in> {0, 16 :: nat}" by simp
  note p = send_lengths_pad [OF lens b]
  show "length pad \<le> 128" by (rule p(2))
  have l: "length (opt_bytes (ps_src_id s)) = ps_src_id_len s" "length (opt_bytes (ps_dst_id s)) = ps_dst_id_len s"
    using m by (auto simp: Let_def)
  show "packet_ok (ps_local_is_router s \<and> ps_is_router s) (ps_send_key s) enclen (flags AND NOT SILC_PACKET_FLAG_LONG_PAD) type pad
     (ps_src_id_type s) (opt_bytes (ps_src_id s)) (ps_dst_id_type s) (opt_bytes (ps_dst_id s)) data"
    unfolding packet_ok_def whole_encrypted_flags l
  proof (intro conjI)
    show "16 \<le> enclen"
    proof (cases "cipher_is_ctr (ps_send_key s)")
      case True
      then show ?thesis using m e l by (auto simp: Let_def)
    next
      case False
      then show ?thesis using p(3) send_lengths_le(2) [OF lens] by auto
    qed
  qed (use m e p l in \<open>auto simp: Let_def\<close>)
qed

lemma send_step:
  assumes sync: "stream_sync s r" and m: "sendable s (type, flags, data)" and wf: "wf_buffer (ps_outbuf s)"
    and room: "length (sb_mem (ps_outbuf s)) + length data + 258 < SILC_MAX_ALLOC"
  obtains s' w where "packet_queue J R s type flags (ps_src_id_type s) (ps_src_id s) (ps_src_id_len s)
       (ps_dst_id_type s) (ps_dst_id s) (ps_dst_id_len s) (Some data) (length data) = (s', True)"
    "wf_buffer (ps_outbuf s')" "sb_bytes (ps_outbuf s') = sb_bytes (ps_outbuf s) @ w"
    "length (sb_mem (ps_outbuf s')) \<le> length (sb_mem (ps_outbuf s)) + length data + 258"
    "length w \<le> length data + 258" "carries s (type, flags, data) w s'" "\<And>m. sendable s' m = sendable s m" "\<And>m. delivered s' m = delivered s m"
proof -
  define sl dl where "sl = ps_src_id_len s" and "dl = ps_dst_id_len s"
  define router where "router = (ps_local_is_router s \<and> ps_is_router s)"
  define k where "k = ps_send_key s"
  obtain padlen enclen where lens: "send_lengths router type flags (cipher_is_ctr k) (10 + sl + dl) (10 + sl + dl + length data) 0
      (if k = None then 0 else 16) = (padlen, enclen)" by fastforce
  define pad where "pad = map (\<lambda>i. R (1 + i)) [0..<padlen]"
  have lens': "send_lengths router type flags (cipher_is_ctr k) (10 + sl + dl) (10 + sl + dl + length data) 0
      (if k = None then 0 else 16) = (length pad, enclen)" using lens by (simp add: pad_def)
  note ok = sync_packet_ok(1) [OF sync m lens' [unfolded router_def k_def sl_def dl_def], folded router_def k_def]
    and pad128 = sync_packet_ok(2) [OF sync m lens' [unfolded router_def k_def sl_def dl_def]]
  define B where "B = packet_bytes (flags AND NOT SILC_PACKET_FLAG_LONG_PAD) type pad (ps_src_id_type s) (opt_bytes (ps_src_id s))
     (ps_dst_id_type s) (opt_bytes (ps_dst_id s)) data"
  have sy: "\<not> ps_iv_included s" "\<not> ps_iv_included r" "rel_option cipher_pair k (ps_receive_key r)"
      "hmac_link (ps_send_hmac s) (ps_receive_hmac r)" "(k = None) = (ps_send_hmac s = None)"
    using sync by (auto simp: stream_sync_def k_def)
  obtain k' body where sealed: "seal (send_cipher k) enclen B = Some (k', body)" "length body = length B"
    using receive_open [OF ok B_def sy(2,3)] by blast
  have ptr: "ptr_len (ps_src_id s) sl" "ptr_len (ps_dst_id s) dl" "ptr_len (Some data) (length data)"
    and fits: "10 + sl + dl + length data \<le> SILC_PACKET_MAX_LEN" and ids: "sl \<le> 28" "dl \<le> 28"
    using m by (auto simp: Let_def ptr_len_def sl_def dl_def opt_bytes_def ids_ok_def SILC_PACKET_MAX_ID_LEN_def)
  have B': "B = packet_bytes (flags AND NOT SILC_PACKET_FLAG_LONG_PAD) type (map (\<lambda>i. R (1 + i)) [0..<padlen]) (ps_src_id_type s)
     (opt_bytes (ps_src_id s)) (ps_dst_id_type s) (opt_bytes (ps_dst_id s)) (opt_bytes (Some data))"
    by (simp add: B_def pad_def opt_bytes_def)
  have "length B = 10 + sl + dl + padlen + length data"
    using ptr by (simp add: B_def length_packet_bytes ptr_len_def pad_def)
  then have lB: "length B + mac_length (ps_send_hmac s) \<le> length data + 258"
    using ids pad128 hmac_link_ok [OF sy(4)] by (simp add: pad_def)
  have room': "length (sb_mem (ps_outbuf s)) + length B + mac_length (ps_send_hmac s) < SILC_MAX_ALLOC"
    using room lB by simp
  obtain ob where snd: "silc_packet_send_raw J R s type flags (ps_src_id_type s) (ps_src_id s) sl (ps_dst_id_type s) (ps_dst_id s) dl
       (Some data) (length data) k (ps_send_hmac s) =
       (s\<lparr>ps_outbuf := ob, ps_send_psn := ps_send_psn s + (if ps_send_hmac s = None then 0 else 1)\<rparr>, k', True)"
    "wf_buffer ob" "sb_bytes ob = sb_bytes (ps_outbuf s) @ body @ mac_of (ps_send_hmac s) (ps_send_psn s) body"
    "length (sb_mem ob) \<le> length (sb_mem (ps_outbuf s)) + length B + mac_length (ps_send_hmac s)"
    using send_raw_ok [OF wf sy(1) ptr fits lens [unfolded router_def] B' sealed _ room'] hmac_link_ok [OF sy(4)] by metis
  define s' where "s' = s\<lparr>ps_outbuf := ob, ps_send_psn := ps_send_psn s + (if ps_send_hmac s = None then 0 else 1), ps_send_key := k'\<rparr>"
  define w where "w = body @ mac_of (ps_send_hmac s) (ps_send_psn s) body"
  have kk: "cipher_is_ctr k' = cipher_is_ctr k" "(k' = None) = (k = None)"
    using seal_ctr [OF sealed(1)] by (simp_all add: ctr_send_cipher) (simp add: send_cipher_def)
  have w: "w \<noteq> []" "length w = length B + mac_length (ps_send_hmac s)"
    using sealed(2) \<open>length B = _\<close> hmac_link_ok [OF sy(4)] by (auto simp: w_def length_mac_of)
  have car: "carries s (type, flags, data) w s'"
    unfolding carries_def
  proof (intro conjI allI impI w(1))
    fix J q pool inbuf rest
    assume q: "stream_sync s q" and pool: "pool_ok pool" and inb: "wf_buffer inbuf"
    have sq: "\<not> ps_iv_included q" "rel_option cipher_pair k (ps_receive_key q)" "(ps_local_is_router q \<and> ps_is_router q) = router"
        "hmac_link (ps_send_hmac s) (ps_receive_hmac q)" and psn: "ps_receive_psn q = ps_send_psn s"
      using q by (auto simp: stream_sync_def k_def router_def)
    {
      assume "sb_bytes inbuf = w @ rest"
      then have i: "sb_bytes inbuf = body @ mac_of (ps_send_hmac s) (ps_receive_psn q) body @ rest" by (simp add: w_def psn)
      obtain b pool' r' where rd: "read_packet J q pool inbuf = Read_packet (sent_packet b (flags AND NOT SILC_PACKET_FLAG_LONG_PAD) type
          (ps_src_id_type s) (opt_bytes (ps_src_id s)) (ps_dst_id_type s) (opt_bytes (ps_dst_id s))) (length w) r' pool'"
        "pool_ok pool'" "wf_buffer b" "sb_bytes b = data" "rel_option cipher_pair k' (ps_receive_key r')"
        "r' = q\<lparr>ps_receive_key := ps_receive_key r', ps_receive_psn := ps_receive_psn q + (if k = None then 0 else 1)\<rparr>"
        using receive_ok [OF ok B_def sq sealed(1) inb i pool] w(2) by metis
      have "stream_sync s' r' \<and> same_setup q r'"
        using rd(5) q sy(5) kk(2) by (subst rd(6), subst (2) rd(6)) (auto simp: stream_sync_def s'_def same_setup_def k_def)
      then show "\<exists>p r' pool'. read_packet J q pool inbuf = Read_packet p (length w) r' pool' \<and> delivered s (type, flags, data) p
             \<and> stream_sync s' r' \<and> pool_ok pool' \<and> same_setup q r' \<and> wf_buffer (pk_buffer p)"
        using rd(1-4) by (auto simp: sent_packet_def)
    next
      assume "w = sb_bytes inbuf @ rest" and ne: "rest \<noteq> []"
      then have i: "body @ mac_of (ps_send_hmac s) (ps_send_psn s) body = sb_bytes inbuf @ rest" by (simp add: w_def)
      obtain r' where rd: "read_packet J q pool inbuf = Read_partial r'" "rel_option cipher_pair k (ps_receive_key r')"
        "r' = q\<lparr>ps_receive_key := ps_receive_key r'\<rparr>"
        using receive_partial [OF ok B_def sq sealed(1) inb i ne] by metis
      have "stream_sync s r' \<and> same_setup q r'"
        using rd(2) q by (subst rd(3), subst (2) rd(3)) (auto simp: stream_sync_def same_setup_def k_def)
      then show "\<exists>r'. read_packet J q pool inbuf = Read_partial r' \<and> stream_sync s r' \<and> same_setup q r'"
        using rd(1) by blast
    }
  qed
  show thesis
  proof (rule that [of s' w])
    show "packet_queue J R s type flags (ps_src_id_type s) (ps_src_id s) (ps_src_id_len s)
       (ps_dst_id_type s) (ps_dst_id s) (ps_dst_id_len s) (Some data) (length data) = (s', True)"
      using snd(1) by (simp add: packet_queue_def sl_def dl_def k_def s'_def)
  qed (use snd lB car kk w(2) in \<open>auto simp: s'_def w_def k_def Let_def split: prod.splits\<close>)
qed

section \<open>The receiving loop\<close>

text \<open>An application that takes every packet and leaves the stream alone.\<close>

definition accept_all :: packet_receive where "accept_all f stream packet = (stream, True)"

definition listening :: "silc_packet_stream \<Rightarrow> bool" where
  "listening r \<longleftrightarrow> ps_process r = None \<and> \<not> ps_destroyed r"

lemma listening_setup: "same_setup r r' \<Longrightarrow> listening r' = listening r"
  by (simp add: same_setup_def listening_def)

inductive carries_all :: "silc_packet_stream \<Rightarrow> message list \<Rightarrow> bytes list \<Rightarrow> silc_packet_stream \<Rightarrow> bool" where
  carries_Nil: "carries_all s [] [] s"
| carries_Cons: "carries s m w s1 \<Longrightarrow> delivered s1 = delivered s \<Longrightarrow> carries_all s1 ms ws s2 \<Longrightarrow> carries_all s (m # ms) (w # ws) s2"

inductive_simps carries_all_simps: "carries_all s ms [] s'" "carries_all s ms (w # ws) s'"

definition event_for :: "silc_packet_stream \<Rightarrow> message \<Rightarrow> packet_event \<Rightarrow> bool" where
  "event_for s m e \<longleftrightarrow> (\<exists>p. e = Ev_receive 0 p \<and> delivered s m p)"

lemma dispatch_accept:
  "listening r \<Longrightarrow> silc_packet_dispatch accept_all None p r = (r, [Ev_receive 0 p], True)"
  by (simp add: silc_packet_dispatch_def listening_def accept_all_def)

lemma process_prefix:
  assumes "carries_all s ms ws s'" and "stream_sync s r" "listening r" "pool_ok pool" "wf_buffer inbuf"
    and "sb_bytes inbuf @ rest = concat ws"
  shows "\<exists>ms1 ms2 ws2 s1 r' pool' ev out p. ms = ms1 @ ms2 \<and> read_loop accept_all J r pool inbuf = (r', pool', ev, out)
    \<and> list_all2 (event_for s) ms1 ev \<and> carries_all s1 ms2 ws2 s' \<and> delivered s1 = delivered s \<and> stream_sync s1 r' \<and> listening r' \<and> pool_ok pool'
    \<and> p @ rest = concat ws2 \<and> (ws2 \<noteq> [] \<longrightarrow> length p < length (hd ws2))
    \<and> (case out of None \<Rightarrow> p = [] | Some b \<Rightarrow> wf_buffer b \<and> sb_bytes b = p \<and> sb_mem b = sb_mem inbuf)"
  using assms
proof (induction arbitrary: r pool inbuf rule: carries_all.induct)
  case (carries_Nil s)
  then have "silc_buffer_len inbuf = 0" using length_sb_bytes [of inbuf] by simp
  then have "read_loop accept_all J r pool inbuf = (r, pool, [], None)" by (subst read_loop.simps) simp
  with carries_Nil carries_all.carries_Nil [of s] show ?case by fastforce
next
  case (carries_Cons s m w s1 ms ws s2)
  note len = length_sb_bytes [OF \<open>wf_buffer inbuf\<close>]
  have car: "carries_all s (m # ms) (w # ws) s2" using carries_Cons.hyps by (blast intro: carries_all.intros)
  consider (none) "sb_bytes inbuf = []" | (part) u where "w = sb_bytes inbuf @ u" "u \<noteq> []" "sb_bytes inbuf \<noteq> []"
    | (whole) u where "sb_bytes inbuf = w @ u" "u @ rest = concat ws"
  proof (cases "sb_bytes inbuf = []")
    case False
    have "\<exists>u. sb_bytes inbuf = w @ u \<and> u @ rest = concat ws \<or> sb_bytes inbuf @ u = w \<and> rest = u @ concat ws"
      using carries_Cons.prems(5) by (auto simp: append_eq_append_conv2)
    then show ?thesis using that False by (metis append_Nil2 self_append_conv2)
  qed (rule that)
  then show ?case
  proof cases
    case none
    then have "read_loop accept_all J r pool inbuf = (r, pool, [], None)"
      using len by (subst read_loop.simps) simp
    moreover have "m # ms = [] @ (m # ms)" "[] @ rest = concat (w # ws)" "w \<noteq> []"
      using none carries_Cons.prems(5) carries_Cons.hyps(1) by (auto simp: carries_def)
    ultimately show ?thesis using car carries_Cons.prems by fastforce
  next
    case part
    obtain r' where r': "read_packet J r pool inbuf = Read_partial r'" "stream_sync s r'" "same_setup r r'"
      using carries_Cons.hyps(1) carries_Cons.prems(1,3,4) part unfolding carries_def by blast
    have "silc_buffer_len inbuf \<noteq> 0" using part(3) len by (metis length_0_conv)
    with r' have "read_loop accept_all J r pool inbuf = (r', pool, [], Some inbuf)"
      by (subst read_loop.simps) auto
    moreover have "m # ms = [] @ (m # ms)" "length (sb_bytes inbuf) < length w" using part by auto
    ultimately show ?thesis
      using car r' carries_Cons.prems listening_setup [OF r'(3)] by fastforce
  next
    case whole
    obtain p r' pool' where rd: "read_packet J r pool inbuf = Read_packet p (length w) r' pool'" "delivered s m p"
       "stream_sync s1 r'" "pool_ok pool'" "same_setup r r'"
      using carries_Cons.hyps(1) carries_Cons.prems(1,3,4) whole(1) unfolding carries_def by blast
    define ib where "ib = fst (silc_buffer_pull inbuf (length w))"
    have ib: "ib = adv inbuf (length w)" "wf_buffer ib" "sb_bytes ib = u" "sb_mem ib = sb_mem inbuf"
      using whole(1) len \<open>wf_buffer inbuf\<close> by (simp_all add: ib_def pull_ok adv_def [symmetric] wf_adv sb_bytes_adv)
    note l = listening_setup [OF rd(5)]
    obtain ms1 ms2 ws2 s3 r3 pool3 ev out q where IH: "ms = ms1 @ ms2" "read_loop accept_all J r' pool' ib = (r3, pool3, ev, out)"
      "list_all2 (event_for s1) ms1 ev" "carries_all s3 ms2 ws2 s2" "delivered s3 = delivered s1" "stream_sync s3 r3" "listening r3" "pool_ok pool3"
      "q @ rest = concat ws2" "ws2 \<noteq> [] \<longrightarrow> length q < length (hd ws2)" "case out of None \<Rightarrow> q = [] | Some b \<Rightarrow> wf_buffer b \<and> sb_bytes b = q \<and> sb_mem b = sb_mem ib"
      using carries_Cons.IH [OF rd(3) _ rd(4) ib(2), unfolded ib(3), OF _ whole(2)] l carries_Cons.prems(2) by blast
    have "w \<noteq> []" using carries_Cons.hyps(1) by (simp add: carries_def)
    then have ne: "silc_buffer_len inbuf \<noteq> 0" using whole(1) len by (metis append_is_Nil_conv length_0_conv)
    have lp: "read_loop accept_all J r pool inbuf = (r3, pool3, Ev_receive 0 p # ev, out)"
      using ne l carries_Cons.prems(2)
      by (subst read_loop.simps) (auto simp: rd(1) ib_def [symmetric] dispatch_accept event_pool_def IH(2))
    have evs: "list_all2 (event_for s) (m # ms1) (Ev_receive 0 p # ev)"
      using rd(2) IH(3) carries_Cons.hyps(2) by (auto simp: event_for_def [abs_def])
    show ?thesis
      by (rule exI [of _ "m # ms1"], rule exI [of _ ms2], rule exI [of _ ws2], rule exI [of _ s3], rule exI [of _ r3],
          rule exI [of _ pool3], rule exI [of _ "Ev_receive 0 p # ev"], rule exI [of _ out], rule exI [of _ q])
        (use lp evs IH carries_Cons.hyps(2) ib(4) in \<open>simp split: option.splits\<close>)
  qed
qed

section \<open>Any number of packets in any pieces\<close>

lemma stream_read_data:
  assumes "wf_buffer inbuf" and "length c \<le> 2048" and "length (sb_mem inbuf) + 2048 < SILC_MAX_ALLOC"
  obtains b where "silc_packet_stream_read J inbuf (Ans_data c) = (b, [], True)" "wf_buffer b"
    "sb_bytes b = sb_bytes inbuf @ c" "length (sb_mem b) \<le> length (sb_mem inbuf) + 2048"
proof -
  note wf = assms(1) [unfolded wf_buffer_def] and lens = wf_buffer_lens [OF assms(1)]
  have small: "length (sb_mem inbuf) + 2048 < u32_max" using max_alloc_less_u32 [OF assms(3)] .
  define e where "e = (if length (sb_mem inbuf) - sb_tail inbuf < 2048 then map J [length (sb_mem inbuf)..<length (sb_mem inbuf) + 2048] else [])"
  have grow: "(if silc_buffer_taillen inbuf < SILC_PACKET_DEFAULT_SIZE * 2
      then (case silc_buffer_realloc J (Some inbuf) (add32 (silc_buffer_truelen inbuf) (SILC_PACKET_DEFAULT_SIZE * 2)) of
              None \<Rightarrow> inbuf | Some b \<Rightarrow> b) else inbuf) = inbuf\<lparr>sb_mem := sb_mem inbuf @ e\<rparr>"
  proof (cases "length (sb_mem inbuf) - sb_tail inbuf < 2048")
    case True
    have "silc_buffer_realloc J (Some inbuf) (length (sb_mem inbuf) + 2048) = Some (inbuf\<lparr>sb_mem := sb_mem inbuf @ e\<rparr>)"
      using True assms(3) by (subst realloc_grow [OF assms(1)]) (auto simp: e_def)
    then show ?thesis using True small by (simp add: lens silc_arith SILC_PACKET_DEFAULT_SIZE_def)
  qed (simp add: lens e_def SILC_PACKET_DEFAULT_SIZE_def)
  have le: "sb_tail inbuf + 2048 \<le> length (sb_mem inbuf @ e)" "length (sb_mem inbuf @ e) \<le> length (sb_mem inbuf) + 2048"
    using wf by (auto simp: e_def)
  have tl: "silc_buffer_taillen (inbuf\<lparr>sb_mem := m\<rparr>) = length m - sb_tail inbuf" if "length m = length (sb_mem inbuf @ e)" for m
    using le small that by (auto simp: silc_buffer_taillen_def silc_arith)
  have t: "take (length (sb_mem inbuf @ e) - sb_tail inbuf) c = c" using le assms(2) by simp
  define M where "M = memcpy (sb_mem inbuf @ e) (sb_tail inbuf) c"
  have lM: "length M = length (sb_mem inbuf @ e)" unfolding M_def using le assms(2) by (intro length_memcpy) auto
  define b where "b = inbuf\<lparr>sb_mem := M, sb_tail := sb_tail inbuf + length c\<rparr>"
  show thesis
  proof (rule that [of b])
    have "fst (silc_buffer_pull_tail (inbuf\<lparr>sb_mem := M\<rparr>) (length c)) = b"
      using tl [OF lM] lM le assms(2) by (auto simp: silc_buffer_pull_tail_def b_def)
    then show "silc_packet_stream_read J inbuf (Ans_data c) = (b, [], True)"
      unfolding silc_packet_stream_read_def grow Let_def stream_answer.case tl [OF refl] t by (simp add: M_def)
    show "wf_buffer b" using wf le lM small assms(2) by (auto simp: wf_buffer_def b_def)
    have "take (sb_tail inbuf + length c) M = take (sb_tail inbuf) (sb_mem inbuf) @ c"
      using wf le by (simp add: M_def memcpy_def)
    then show "sb_bytes b = sb_bytes inbuf @ c"
      using wf by (simp add: sb_bytes_def b_def flip: drop_take)
    show "length (sb_mem b) \<le> length (sb_mem inbuf) + 2048" using lM le by (simp add: b_def)
  qed
qed

primrec io_run :: "packet_receive \<Rightarrow> junk \<Rightarrow> bytes list \<Rightarrow> silc_packet_stream \<Rightarrow> silc_buffer list \<Rightarrow> silc_buffer
     \<Rightarrow> silc_packet_stream \<times> silc_buffer list \<times> silc_buffer \<times> packet_event list" where
  "io_run cb J [] stream pool inbuf = (stream, pool, inbuf, [])"
| "io_run cb J (c # cs) stream pool inbuf =
     (let (stream, pool, inbuf, _, ev) = silc_packet_stream_io cb J (SILC_STREAM_CAN_READ (Ans_data c)) stream pool inbuf;
          (stream, pool, inbuf, ev') = io_run cb J cs stream pool inbuf
      in (stream, pool, inbuf, ev @ ev'))"

lemma io_run_delivers:
  assumes "carries_all s ms ws s'" and "stream_sync s r" "listening r" "pool_ok pool" "wf_buffer inbuf"
    and "sb_bytes inbuf @ concat cs = concat ws" and "\<forall>c\<in>set cs. length c \<le> 2048"
    and "length (sb_mem inbuf) + 2048 * length cs < SILC_MAX_ALLOC"
    and "ws \<noteq> [] \<Longrightarrow> length (sb_bytes inbuf) < length (hd ws)"
  shows "\<exists>r' pool' inbuf' ev. io_run accept_all J cs r pool inbuf = (r', pool', inbuf', ev)
     \<and> list_all2 (event_for s) ms ev \<and> stream_sync s' r' \<and> sb_bytes inbuf' = []"
  using assms
proof (induction cs arbitrary: s ms ws r pool inbuf)
  case Nil
  then have "ws = []" by (cases ws) auto
  with Nil show ?case by (auto simp: carries_all_simps)
next
  case (Cons c cs)
  obtain b where b: "silc_packet_stream_read J inbuf (Ans_data c) = (b, [], True)" "wf_buffer b" "sb_bytes b = sb_bytes inbuf @ c"
    "length (sb_mem b) \<le> length (sb_mem inbuf) + 2048"
    using stream_read_data [of inbuf c J] Cons.prems by auto
  have "sb_bytes b @ concat cs = concat ws" using Cons.prems(6) b(3) by simp
  from process_prefix [OF Cons.prems(1-4) b(2) this, of J]
  obtain ms1 ms2 ws2 s1 r' pool' ev out p where L: "ms = ms1 @ ms2" "read_loop accept_all J r pool b = (r', pool', ev, out)"
    "list_all2 (event_for s) ms1 ev" "carries_all s1 ms2 ws2 s'" "delivered s1 = delivered s" "stream_sync s1 r'" "listening r'" "pool_ok pool'"
    "p @ concat cs = concat ws2" "ws2 \<noteq> [] \<longrightarrow> length p < length (hd ws2)" "case out of None \<Rightarrow> p = [] | Some b' \<Rightarrow> wf_buffer b' \<and> sb_bytes b' = p \<and> sb_mem b' = sb_mem b"
    by blast
  define ib where "ib = (case out of None \<Rightarrow> silc_buffer_reset b | Some b' \<Rightarrow> b')"
  have ib: "wf_buffer ib" "sb_bytes ib = p" "sb_mem ib = sb_mem b"
    using L(11) wf_reset [OF b(2)] by (auto simp: ib_def silc_buffer_reset_def sb_bytes_def split: option.splits)
  have io: "silc_packet_stream_io accept_all J (SILC_STREAM_CAN_READ (Ans_data c)) r pool inbuf = (r', pool', ib, [], ev)"
    using Cons.prems(3) by (simp add: silc_packet_stream_io_def listening_def b(1) silc_packet_read_process_def L(2) ib_def)
  obtain r2 pool2 ib2 ev2 where IH: "io_run accept_all J cs r' pool' ib = (r2, pool2, ib2, ev2)"
     "list_all2 (event_for s1) ms2 ev2" "stream_sync s' r2" "sb_bytes ib2 = []"
    using Cons.IH [OF L(4,6,7,8) ib(1)] ib(2,3) L(9,10) Cons.prems(7,8) b(4) by auto
  have "event_for s1 = event_for s" using L(5) by (simp add: event_for_def [abs_def])
  then have "list_all2 (event_for s) ms (ev @ ev2)" using L(1,3) IH(2) by (simp add: list_all2_appendI)
  with IH show ?case by (simp add: io)
qed

text \<open>A stream that works: each attempt takes some of what it is offered, or nothing now.\<close>

definition working :: "(nat \<Rightarrow> int) list \<Rightarrow> bool" where
  "working wrs \<longleftrightarrow> (\<forall>wr\<in>set wrs. \<forall>n>0. wr n = -1 \<or> 1 \<le> wr n \<and> wr n \<le> int n)"

lemma stream_write_working:
  assumes "working wrs" and "wf_buffer ob"
  shows "\<exists>ob' d. silc_packet_stream_write ob wrs = (ob', d, [], True) \<and> wf_buffer ob' \<and> d @ sb_bytes ob' = sb_bytes ob
    \<and> sb_mem ob' = sb_mem ob"
  using assms
proof (induction wrs arbitrary: ob)
  case Nil
  then show ?case using length_sb_bytes [of ob] by (auto simp: wf_reset) (auto simp: silc_buffer_reset_def sb_bytes_def)
next
  case (Cons wr wrs)
  define n where "n = silc_buffer_len ob"
  note len = length_sb_bytes [OF Cons.prems(2)]
  show ?case
  proof (cases "n = 0")
    case True
    then show ?thesis using len wf_reset [OF Cons.prems(2)] by (auto simp: n_def silc_buffer_reset_def sb_bytes_def)
  next
    case False
    then consider "wr n = -1" | "1 \<le> wr n" "wr n \<le> int n" using Cons.prems(1) by (auto simp: working_def)
    then show ?thesis
    proof cases
      case 1
      then show ?thesis using False Cons.prems(2) by (simp add: n_def)
    next
      case 2
      define k where "k = nat (wr n)"
      have k: "cast32 (wr n) = k" "k \<le> n"
        using 2 cast32_exact [of k] silc_buffer_len_less [of ob] by (auto simp: k_def n_def)
      define b where "b = fst (silc_buffer_pull ob k)"
      have b: "wf_buffer b" "take k (sb_bytes ob) @ sb_bytes b = sb_bytes ob" "sb_mem b = sb_mem ob"
        using Cons.prems(2) k(2) by (simp_all add: b_def n_def pull_ok adv_def [symmetric] sb_bytes_adv wf_adv)
      obtain ob' d where IH: "silc_packet_stream_write b wrs = (ob', d, [], True)" "wf_buffer ob'" "d @ sb_bytes ob' = sb_bytes b" "sb_mem ob' = sb_mem b"
        using Cons.IH [OF _ b(1)] Cons.prems(1) by (auto simp: working_def)
      have "silc_packet_stream_write ob (wr # wrs) = (ob', take k (sb_bytes ob) @ d, [], True)"
        using 2 False by (simp add: n_def [symmetric] k(1) b_def [symmetric] IH(1))
      then show ?thesis using IH(2-4) b(2,3) by simp
    qed
  qed
qed

text \<open>Sending several messages one after the other, with fresh random bytes for each.\<close>

primrec send_all ::
    "junk \<Rightarrow> (nat \<Rightarrow> nat \<Rightarrow> byte) \<Rightarrow> (nat \<Rightarrow> (nat \<Rightarrow> int) list) \<Rightarrow> silc_packet_stream \<Rightarrow> message list
     \<Rightarrow> silc_packet_stream \<times> bytes \<times> packet_event list \<times> bool" where
  "send_all J R W s [] = (s, [], [], True)"
| "send_all J R W s (m # ms) =
     (let (type, flags, data) = m; (s, d, ev, ret) = silc_packet_send J (R 0) (W 0) s type flags (Some data) (length data);
          (s, ds, evs, rets) = send_all J (\<lambda>i. R (Suc i)) (\<lambda>i. W (Suc i)) s ms
      in (s, d @ ds, ev @ evs, ret \<and> rets))"

lemma carries_outbuf: "carries s m w (s'\<lparr>ps_outbuf := ob\<rparr>) = carries s m w s'"
proof -
  have "stream_sync (s'\<lparr>ps_outbuf := ob\<rparr>) = stream_sync s'" by (rule ext) (simp add: stream_sync_def)
  then show ?thesis by (simp only: carries_def)
qed

lemma delivered_outbuf: "delivered (s\<lparr>ps_outbuf := ob\<rparr>) m = delivered s m"
proof (rule ext)
  fix p
  obtain type flags data where m: "m = (type, flags, data)" by (cases m)
  have "ps_src_id_type (s\<lparr>ps_outbuf := ob\<rparr>) = ps_src_id_type s" "ps_src_id (s\<lparr>ps_outbuf := ob\<rparr>) = ps_src_id s"
    "ps_dst_id_type (s\<lparr>ps_outbuf := ob\<rparr>) = ps_dst_id_type s" "ps_dst_id (s\<lparr>ps_outbuf := ob\<rparr>) = ps_dst_id s" by simp_all
  then show "delivered (s\<lparr>ps_outbuf := ob\<rparr>) m p = delivered s m p" unfolding m by (simp only: delivered.simps)
qed

lemma sendable_outbuf: "sendable (s\<lparr>ps_outbuf := ob\<rparr>) m = sendable s m"
  by (cases m) simp

lemma send_all_carries:
  assumes "stream_sync s r" and "\<forall>m\<in>set ms. sendable s m" and "wf_buffer (ps_outbuf s)" and "\<forall>i. working (W i)"
    and "length (sb_mem (ps_outbuf s)) + (\<Sum>m\<leftarrow>ms. length (snd (snd m)) + 258) < SILC_MAX_ALLOC"
  shows "\<exists>s' d ws. send_all J R W s ms = (s', d, [], True) \<and> carries_all s ms ws s'
     \<and> d @ sb_bytes (ps_outbuf s') = sb_bytes (ps_outbuf s) @ concat ws
     \<and> length (concat ws) \<le> (\<Sum>m\<leftarrow>ms. length (snd (snd m)) + 258)"
  using assms
proof (induction ms arbitrary: s r R W)
  case Nil
  then show ?case using carries_all.carries_Nil [of s] by fastforce
next
  case (Cons m ms)
  obtain type flags data where m: "m = (type, flags, data)" by (cases m)
  obtain s0 w where s0: "packet_queue J (R 0) s type flags (ps_src_id_type s) (ps_src_id s) (ps_src_id_len s)
       (ps_dst_id_type s) (ps_dst_id s) (ps_dst_id_len s) (Some data) (length data) = (s0, True)"
    "wf_buffer (ps_outbuf s0)" "sb_bytes (ps_outbuf s0) = sb_bytes (ps_outbuf s) @ w" "length w \<le> length data + 258"
    "length (sb_mem (ps_outbuf s0)) \<le> length (sb_mem (ps_outbuf s)) + length data + 258"
    "carries s m w s0" "\<And>m. sendable s0 m = sendable s m" "\<And>m. delivered s0 m = delivered s m"
  proof -
    have "sendable s (type, flags, data)" "length (sb_mem (ps_outbuf s)) + length data + 258 < SILC_MAX_ALLOC"
      using Cons.prems(2,5) m by simp_all
    then show thesis using send_step [OF Cons.prems(1) _ Cons.prems(3)] that m by metis
  qed
  obtain ob d where wr: "silc_packet_stream_write (ps_outbuf s0) (W 0) = (ob, d, [], True)" "wf_buffer ob"
    "d @ sb_bytes ob = sb_bytes (ps_outbuf s0)" "sb_mem ob = sb_mem (ps_outbuf s0)"
    using stream_write_working [OF _ s0(2), of "W 0"] Cons.prems(4) by blast
  define s1 where "s1 = s0\<lparr>ps_outbuf := ob\<rparr>"
  have s1: "silc_packet_send J (R 0) (W 0) s type flags (Some data) (length data) = (s1, d, [], True)"
    by (simp add: silc_packet_send_def s0(1) packet_flush_def wr(1) s1_def)
  have car: "carries s m w s1" "\<And>m. sendable s1 m = sendable s m" "\<And>m. delivered s1 m = delivered s m" "ps_outbuf s1 = ob"
    using s0(6-8) by (simp_all add: s1_def carries_outbuf delivered_outbuf sendable_outbuf)
  have "length w < u32_max"
    using length_sb_bytes [OF s0(2)] silc_buffer_len_less [of "ps_outbuf s0"] by (simp add: s0(3))
  then have "wf_buffer (silc_buffer_set w)" "sb_bytes (silc_buffer_set w) = w @ []" "pool_ok []" by (simp_all add: pool_ok_def)
  with car(1) Cons.prems(1) obtain r' where "stream_sync s1 r'" unfolding carries_def by meson
  moreover have "\<forall>m\<in>set ms. sendable s1 m" "wf_buffer (ps_outbuf s1)" "\<forall>i. working (W (Suc i))"
    "length (sb_mem (ps_outbuf s1)) + (\<Sum>m\<leftarrow>ms. length (snd (snd m)) + 258) < SILC_MAX_ALLOC"
    using Cons.prems(2,4,5) car(2,4) wr(2,4) s0(5) m by auto
  ultimately
  obtain s' ds ws where IH: "send_all J (\<lambda>i. R (Suc i)) (\<lambda>i. W (Suc i)) s1 ms = (s', ds, [], True)" "carries_all s1 ms ws s'"
     "ds @ sb_bytes (ps_outbuf s') = sb_bytes ob @ concat ws" "length (concat ws) \<le> (\<Sum>m\<leftarrow>ms. length (snd (snd m)) + 258)"
    using Cons.IH [of s1 r' "\<lambda>i. W (Suc i)" "\<lambda>i. R (Suc i)"] car(4) by auto
  have "carries_all s (m # ms) (w # ws) s'"
    using car(1,3) IH(2) by (intro carries_all.carries_Cons) auto
  moreover have "(d @ ds) @ sb_bytes (ps_outbuf s') = sb_bytes (ps_outbuf s) @ concat (w # ws)"
    using IH(3) wr(3) s0(3) by (metis append_assoc concat.simps(2))
  ultimately show ?case using s1 IH(1,4) s0(4) m by (intro exI [of _ s'] exI [of _ "d @ ds"] exI [of _ "w # ws"]) simp
qed

section \<open>Properties\<close>

text \<open>
  C1. Delivery. Two ends with corresponding keys; any messages that the engine can carry are sent
  one after the other through a stream that may take them in any portions, until nothing is left to
  be written. However the stream cuts the written bytes when the other end reads them, the receiver
  delivers exactly these messages, in their order and unchanged, has nothing left over, and the two
  ends correspond again.
\<close>

theorem silc_packet_delivery:
  assumes "stream_sync s r" "listening r" "pool_ok pool" "wf_buffer inbuf" "sb_bytes inbuf = []"
    and "\<forall>m\<in>set ms. sendable s m" and "wf_buffer (ps_outbuf s)" "sb_bytes (ps_outbuf s) = []" and "\<forall>i. working (W i)"
    and "length (sb_mem (ps_outbuf s)) + (\<Sum>m\<leftarrow>ms. length (snd (snd m)) + 258) < SILC_MAX_ALLOC"
    and "send_all J R W s ms = (s', d, sev, ret)" and "sb_bytes (ps_outbuf s') = []"
    and "concat cs = d" and "\<forall>c\<in>set cs. length c \<le> 2048"
    and "length (sb_mem inbuf) + 2048 * length cs < SILC_MAX_ALLOC"
    and "io_run accept_all J' cs r pool inbuf = (r', pool', inbuf', ev)"
  shows "ret \<and> list_all2 (event_for s) ms ev \<and> stream_sync s' r' \<and> sb_bytes inbuf' = []"
proof -
  obtain ws where ws: "ret" "carries_all s ms ws s'" "d = concat ws"
    using send_all_carries [OF assms(1,6,7,9,10), of J R] assms(8,11,12) by auto
  have "length (sb_bytes inbuf) < length (hd ws)" if "ws \<noteq> []"
    using ws(2) that assms(5) by (cases ws) (auto simp: carries_all_simps carries_def)
  then show ?thesis
    using io_run_delivers [OF ws(2) assms(1-4) _ assms(14,15), of J'] assms(5,13,16) ws(1,3) by auto
qed

text \<open>A stream with the demonstration keys, to itself.\<close>

definition demo_stream :: silc_packet_stream where
  "demo_stream =
     \<lparr>ps_outbuf = silc_buffer_empty, ps_process = None, ps_send_key = Some demo_cipher, ps_send_key1 = None,
      ps_send_hmac = Some demo_hmac, ps_send_hmac1 = None, ps_receive_key = Some demo_cipher, ps_receive_key1 = None,
      ps_receive_hmac = Some demo_hmac, ps_receive_hmac1 = None,
      ps_src_id = Some (replicate 8 3), ps_src_id_len = 8, ps_src_id_type = 1,
      ps_dst_id = None, ps_dst_id_len = 0, ps_dst_id_type = 0, ps_send_psn = 7, ps_receive_psn = 7, ps_sid = 0,
      ps_local_is_router = False, ps_is_router = False, ps_destroyed = False, ps_iv_included = False\<rparr>"

lemma demo_hmac_ok: "hmac_ok demo_hmac"
  using demo_hash_ok by (simp add: hmac_ok_def demo_hmac_def) (simp add: demo_hash_def)

lemma demo_sync: "stream_sync demo_stream demo_stream"
  by (simp add: stream_sync_def demo_stream_def demo_cipher_pair hmac_link_def demo_hmac_ok)

lemma write_everything: "sb_bytes (fst (silc_packet_stream_write ob [int])) = []"
proof -
  have c: "cast32 (int (silc_buffer_len ob)) = silc_buffer_len ob" by (intro cast32_exact silc_buffer_len_less)
  have "silc_buffer_len (fst (silc_buffer_pull ob (silc_buffer_len ob))) = 0" by (subst pull_len) simp_all
  then show ?thesis by (simp add: c silc_buffer_reset_def sb_bytes_def)
qed

lemma flush_everything: "packet_flush [int] q = (s, d, ev, True) \<Longrightarrow> sb_bytes (ps_outbuf s) = []"
  using write_everything [of "ps_outbuf (fst q)"]
  by (auto simp: packet_flush_def split: prod.splits bool.splits simp del: silc_packet_stream_write.simps)

theorem silc_packet_delivery_witness:
  "\<exists>s' d r' pool' inbuf' ev.
     send_all (\<lambda>_. 0) (\<lambda>_ _. 5) (\<lambda>_. [int]) demo_stream [(4, 0, [1, 2, 3]), (7, 0, [9])] = (s', d, [], True)
     \<and> io_run accept_all (\<lambda>_. 0) (map (\<lambda>b. [b]) d) demo_stream [] silc_buffer_empty = (r', pool', inbuf', ev)
     \<and> list_all2 (event_for demo_stream) [(4, 0, [1, 2, 3]), (7, 0, [9])] ev \<and> stream_sync s' r'"
proof -
  define ms :: "message list" where "ms = [(4, 0, [1, 2, 3]), (7, 0, [9])]"
  have sm: "\<forall>m\<in>set ms. sendable demo_stream m"
    by (simp add: ms_def demo_stream_def opt_bytes_def ids_ok_def SILC_PACKET_MAX_ID_LEN_def SILC_PACKET_MAX_LEN_def
        cipher_is_ctr_def demo_cipher_def silc_cipher_get_mode_def)
  have W: "\<forall>i. working ((\<lambda>_. [int]) i)" by (simp add: working_def)
  have ob: "wf_buffer (ps_outbuf demo_stream)" "sb_bytes (ps_outbuf demo_stream) = []" "sb_mem (ps_outbuf demo_stream) = []"
    by (simp_all add: demo_stream_def sb_bytes_def)
  have sum: "(\<Sum>m\<leftarrow>ms. length (snd (snd m)) + 258) = 520" by (simp add: ms_def)
  then have room: "length (sb_mem (ps_outbuf demo_stream)) + (\<Sum>m\<leftarrow>ms. length (snd (snd m)) + 258) < SILC_MAX_ALLOC"
    by (simp add: ob SILC_MAX_ALLOC_def)
  obtain s' d ws where snd: "send_all (\<lambda>_. 0) (\<lambda>_ _. 5) (\<lambda>_. [int]) demo_stream ms = (s', d, [], True)"
    "d @ sb_bytes (ps_outbuf s') = concat ws" "length (concat ws) \<le> 520"
    using send_all_carries [OF demo_sync sm ob(1) W room, of "\<lambda>_. 0" "\<lambda>_ _. 5"] ob(2) sum by auto
  have fl: "sb_bytes (ps_outbuf s') = []"
    using snd(1) by (auto simp: ms_def silc_packet_send_def split: prod.splits dest: flush_everything)
  have l: "length d \<le> 520" using arg_cong [OF snd(2), of length] snd(3) by simp
  obtain r' pool' inbuf' ev where run: "io_run accept_all (\<lambda>_. 0) (map (\<lambda>b. [b]) d) demo_stream [] silc_buffer_empty = (r', pool', inbuf', ev)"
    by (metis prod.exhaust_sel)
  have "listening demo_stream" "pool_ok []" "wf_buffer silc_buffer_empty" "sb_bytes silc_buffer_empty = []"
    "concat (map (\<lambda>b. [b]) d) = d" "\<forall>c\<in>set (map (\<lambda>b. [b]) d). length c \<le> 2048"
    "length (sb_mem silc_buffer_empty) + 2048 * length (map (\<lambda>b. [b]) d) < SILC_MAX_ALLOC"
    using l by (auto simp: listening_def demo_stream_def pool_ok_def sb_bytes_def SILC_MAX_ALLOC_def)
  then show ?thesis
    using silc_packet_delivery [OF demo_sync _ _ _ _ sm ob(1,2) W room snd(1) fl _ _ _ run] snd(1) run
    unfolding ms_def by blast
qed

end
