(* ===== verification/Silc_Packet_Dispatch.thy ===== *)
theory Silc_Packet_Dispatch
  imports Silc_Packet_Io
begin

text \<open>
  Dispatching of received packets: the processors that are linked to a stream, and the order in which
  they are offered a packet.
\<close>

section \<open>The order of the processors\<close>

text \<open>
  Who is offered a packet, in which order: the engine's own function comes before the first
  processor whose priority is not positive, or at the end.
\<close>

fun handlers :: "byte \<Rightarrow> bool \<Rightarrow> silc_packet_process list \<Rightarrow> nat list" where
  "handlers type sent [] = (if sent then [] else [0])"
| "handlers type sent (p # ps) =
     (if \<not> sent \<and> pp_priority p \<le> 0 then [0] else []) @ (if process_wants None p type then [pp_receive p] else [])
     @ handlers type (sent \<or> pp_priority p \<le> 0) ps"

text \<open>A packet is offered to one after the other until one takes it; otherwise it is freed.\<close>

fun offer :: "packet_receive \<Rightarrow> silc_packet \<Rightarrow> nat list \<Rightarrow> silc_packet_stream \<Rightarrow> silc_packet_stream \<times> packet_event list" where
  "offer cb packet [] stream = (stream, [Ev_free packet])"
| "offer cb packet (f # fs) stream =
     (case cb f stream packet of
        (stream, True) \<Rightarrow> (stream, [Ev_receive f packet])
      | (stream, False) \<Rightarrow> (let (stream, ev) = offer cb packet fs stream in (stream, Ev_receive f packet # ev)))"

lemma dispatch_loop_offer:
  "dispatch_loop cb None packet sent ps stream = offer cb packet (handlers (pk_type packet) sent ps) stream"
proof (induction ps arbitrary: sent stream)
  case Nil
  then show ?case by (auto split: prod.splits bool.splits)
next
  case (Cons p ps)
  show ?case
    by (cases "\<not> sent \<and> pp_priority p \<le> 0"; cases "process_wants None p (pk_type packet)")
      (auto simp: Cons.IH Let_def split: prod.splits bool.splits)
qed

definition by_priority :: "silc_packet_process list \<Rightarrow> bool" where
  "by_priority ps \<longleftrightarrow> sorted_wrt (\<lambda>p q. pp_priority q \<le> pp_priority p) ps"

lemma handlers_sent: "handlers type True ps = map pp_receive (filter (\<lambda>p. process_wants None p type) ps)"
  by (induction ps) auto

lemma handlers_sorted:
  "by_priority ps \<Longrightarrow> handlers type False ps =
     map pp_receive (filter (\<lambda>p. process_wants None p type \<and> 0 < pp_priority p) ps)
     @ 0 # map pp_receive (filter (\<lambda>p. process_wants None p type \<and> pp_priority p \<le> 0) ps)"
proof (induction ps)
  case (Cons p ps)
  show ?case
  proof (cases "pp_priority p \<le> 0")
    case True
    then have "\<forall>q\<in>set ps. pp_priority q \<le> 0" using Cons.prems by (auto simp: by_priority_def)
    then have "filter (\<lambda>q. process_wants None q type \<and> 0 < pp_priority q) ps = []"
      "filter (\<lambda>q. process_wants None q type \<and> pp_priority q \<le> 0) ps = filter (\<lambda>q. process_wants None q type) ps"
      by (force simp: filter_empty_conv intro: filter_cong)+
    then show ?thesis using True by (simp add: handlers_sent)
  next
    case False
    then show ?thesis using Cons by (simp add: by_priority_def)
  qed
qed simp

lemma insert_process_set: "set (insert_process p ps) = insert p (set ps)"
  by (induction ps) auto

lemma insert_process_sorted: "by_priority ps \<Longrightarrow> by_priority (insert_process p ps)"
  by (induction ps) (auto simp: by_priority_def insert_process_set intro: order_trans)

lemma remove_process_sorted: "by_priority ps \<Longrightarrow> by_priority (remove_process f ps)"
proof (induction ps)
  case (Cons q ps)
  have "set (remove_process f ps) \<subseteq> set ps" by (induction ps) auto
  with Cons show ?case by (auto simp: by_priority_def)
qed (simp add: by_priority_def)

text \<open>What a sequence of linkings and unlinkings of processors makes of a stream.\<close>

inductive linked :: "silc_packet_stream \<Rightarrow> bool" where
  linked_new: "ps_process s = None \<Longrightarrow> linked s"
| linked_link: "linked s \<Longrightarrow> linked (silc_packet_stream_link s f prio types)"
| linked_unlink: "linked s \<Longrightarrow> silc_packet_stream_unlink s f = Some s' \<Longrightarrow> linked s'"

lemma linked_sorted: "linked s \<Longrightarrow> pred_option (\<lambda>ps. ps \<noteq> [] \<and> by_priority ps) (ps_process s)"
proof (induction rule: linked.induct)
  case (linked_link s f prio types)
  have "insert_process p ps \<noteq> []" for p ps by (cases ps) auto
  then show ?case
    using linked_link.IH insert_process_sorted
    by (auto simp: silc_packet_stream_link_def Let_def by_priority_def pred_option_def split: option.splits)
next
  case (linked_unlink s f s')
  then show ?case
    by (auto simp: silc_packet_stream_unlink_def Let_def remove_process_sorted split: option.splits)
qed auto


definition demo_packet :: silc_packet where
  "demo_packet = \<lparr>pk_buffer = silc_buffer_empty, pk_src_id = None, pk_src_id_len = 0, pk_src_id_type = 0, pk_dst_id = None,
     pk_dst_id_len = 0, pk_dst_id_type = 0, pk_type = 4, pk_flags = 0\<rparr>"


end
