(* ===== verification/Silc_Packet_Safety.thy ===== *)
theory Silc_Packet_Safety
  imports Silc_Packet_Io
begin

text \<open>
  What the receiving side of the packet engine guarantees for any input, and where it does not do
  what it should: packets that are shorter than a block, pending output after a write that took
  nothing.
\<close>

section \<open>Authentication and errors\<close>

lemma first_block_no_iv:
  assumes "\<not> ps_iv_included r" and "read_first_block J r data = Some fb"
  shows "fb_old fb = False" "fb_hmac fb = ps_receive_hmac r" "fb_seq fb = None" "fb_ivlen fb = 0"
    "(fb_cipher fb = None) = (ps_receive_key r = None)"
  using assms by (auto simp: read_first_block_def Let_def split: option.splits prod.splits)

lemma packet_finish_psn:
  "packet_finish fb s pool normal flags type buf n = Read_packet p n' s' pool' \<Longrightarrow>
     ps_receive_psn s' = ps_receive_psn s + (if fb_cipher fb = None then 0 else 1) \<and> n' = n"
  "packet_finish fb s pool normal flags type buf n = Read_partial s' \<Longrightarrow> False"
  by (auto simp: packet_finish_def Let_def store_cipher_def split: option.splits prod.splits if_splits)

text \<open>
  C7. Authentication. While vectors are not included in packets and a MAC is set: one turn of the
  receiving loop gives a packet only if the bytes it took end in the MAC of the expected sequence
  number and all bytes before; it takes no more than was received, and with a cipher the next packet
  is expected with the next number. Waiting for more data changes no number. An error of any kind
  delivers nothing: it is reported, and all that was received is dropped.
\<close>

theorem silc_packet_authentic:
  assumes "\<not> ps_iv_included r" and "ps_receive_hmac r = Some hm" and "hmac_ok hm"
    and "wf_buffer inbuf" and "sb_bytes inbuf = w" and "w \<noteq> []"
  shows "case read_packet J r pool inbuf of
      Read_packet p n r' pool' \<Rightarrow>
        hm_len hm + 11 \<le> n \<and> n \<le> length w
        \<and> take (hm_len hm) (drop (n - hm_len hm) w) =
            hmac_mac hm (SILC_PUT32_MSB (ps_receive_psn r) @ take (n - hm_len hm) w)
        \<and> ps_receive_psn r' = ps_receive_psn r + (if ps_receive_key r = None then 0 else 1)
    | Read_partial r' \<Rightarrow>
        ps_receive_psn r' = ps_receive_psn r \<and> silc_packet_read_process cb J r pool inbuf = (r', pool, [], inbuf)
    | Read_error e r' pool' \<Rightarrow>
        silc_packet_read_process cb J r pool inbuf = (r', pool', [Ev_error e], silc_buffer_reset inbuf)"
proof -
  define d where "d = drop (sb_data inbuf) (sb_mem inbuf)"
  have len: "silc_buffer_len inbuf = length w" "take (length w) d = w" and ne: "silc_buffer_len inbuf \<noteq> 0"
    using bytes_prefix(2,3) [OF assms(4,5), of 0] assms(6) by (simp_all add: d_def)
  have td: "take k d = take k w" if "k \<le> length w" for k
    using arg_cong [OF len(2), of "take k"] that by (simp add: min_def)
  show ?thesis
  proof (cases "read_packet J r pool inbuf")
    case (Read_partial r')
    then have "ps_receive_psn r' = ps_receive_psn r"
      by (auto simp: read_packet_def Let_def store_cipher_def dest: packet_finish_psn(2)
          split: if_splits option.splits prod.splits)
    then show ?thesis using Read_partial ne by (simp add: silc_packet_read_process_def read_loop.simps [of _ _ _ _ inbuf])
  next
    case (Read_error e r' pool')
    then show ?thesis using ne by (simp add: silc_packet_read_process_def read_loop.simps [of _ _ _ _ inbuf])
  next
    case (Read_packet p n r' pool')
    obtain fb where fb: "read_first_block J r d = Some fb"
      using Read_packet by (auto simp: read_packet_def Let_def d_def [symmetric] split: if_splits option.splits prod.splits)
    note f = first_block_no_iv [OF assms(1) fb]
    obtain pk pl where L: "SILC_PACKET_LENGTH (fb_header fb) = (pk, pl)" "pk \<le> pl" by (auto simp: SILC_PACKET_LENGTH_def Let_def)
    define s1 where "s1 = (if fb_cipher fb = None then r else store_cipher fb (fb_cipher fb) r)"
    have s1: "ps_receive_psn s1 = ps_receive_psn r" by (simp add: s1_def store_cipher_def)
    note R = Read_packet [unfolded read_packet_def Let_def d_def [symmetric] fb option.case L prod.case s1_def [symmetric] f(2-4)
        assms(2) len(1) silc_hmac_len_def add_0_right add_0_left]
    have mac: "silc_packet_check_mac (Some hm) (take pl d) (drop pl d) None (ps_receive_psn s1)"
      and le: "\<not> length w < pl + hm_len hm" "\<not> pk < SILC_PACKET_MIN_LEN"
      using R by (auto split: if_splits)
    obtain normal flags type buf pool1 where "packet_finish fb s1 pool1 normal flags type buf (pl + hm_len hm) = Read_packet p n r' pool'"
      using R by (auto split: if_splits option.splits prod.splits)
    from packet_finish_psn(1) [OF this] have psn: "ps_receive_psn r' = ps_receive_psn r + (if ps_receive_key r = None then 0 else 1)"
      "n = pl + hm_len hm" using s1 f(5) by auto
    have "take (hm_len hm) (drop pl d) = hmac_mac hm (SILC_PUT32_MSB (ps_receive_psn r) @ take pl d)"
      using mac length_mac(1) [OF assms(3)] by (simp add: silc_packet_check_mac_def Let_def silc_hmac_pieces s1)
    moreover have "take (hm_len hm) (drop pl d) = take (hm_len hm) (drop pl w)"
      using td [of "pl + hm_len hm"] le(1) by (simp add: take_drop add.commute)
    ultimately show ?thesis
      using le L(2) psn td [of pl] Read_packet by (simp add: SILC_PACKET_MIN_LEN_def SILC_PACKET_HEADER_LEN_def)
  qed
qed

theorem silc_packet_authentic_witness:
  "silc_packet_read_process accept_all (\<lambda>_. 0) demo_stream [] (silc_buffer_set [1, 2, 3]) = (demo_stream, [], [], silc_buffer_set [1, 2, 3])"
proof -
  have "read_packet (\<lambda>_. 0) demo_stream [] (silc_buffer_set [1, 2, 3]) = Read_partial demo_stream"
    by (simp add: read_packet_def demo_stream_def SILC_PACKET_MIN_HEADER_LEN_def u32_max_def)
  moreover have "\<not> ps_iv_included demo_stream" "ps_receive_hmac demo_stream = Some demo_hmac" "wf_buffer (silc_buffer_set [1, 2, 3])"
    by (simp_all add: demo_stream_def u32_max_def)
  ultimately show ?thesis
    using silc_packet_authentic [where r = demo_stream and hm = demo_hmac and inbuf = "silc_buffer_set [1, 2, 3]" and w = "[1, 2, 3]"
      and J = "\<lambda>_. 0" and pool = "[]" and cb = accept_all] demo_hmac_ok
    by simp
qed

section \<open>Packets shorter than a block\<close>

text \<open>
  Without keys, a packet of 11 to 15 bytes with its padding passes all checks, but the copies into
  the packet's buffer fail without notice. What is parsed and delivered is the old content of the
  buffer from the pool; of what was received only the length, the type and the flags matter.
\<close>

lemma silc_packet_short_stale:
  assumes r: "\<not> ps_iv_included r" "ps_receive_key r = None" "ps_receive_hmac r = None"
    and inbuf: "wf_buffer inbuf" "sb_bytes inbuf = w" "16 \<le> length w"
    and short: "SILC_PACKET_LENGTH w = (pk, n)" "11 \<le> pk" "n < 16"
    and pool: "pool = b # pool'" "wf_buffer b" "sb_data b = 0" "sb_tail b = 0" "16 \<le> length (sb_mem b)"
  shows "read_packet J r pool inbuf =
    (let packet = \<lparr>pk_buffer = b\<lparr>sb_tail := n\<rparr>, pk_src_id = None, pk_src_id_len = 0, pk_src_id_type = 0, pk_dst_id = None,
                   pk_dst_id_len = 0, pk_dst_id_type = 0, pk_type = w ! 3, pk_flags = w ! 2\<rparr>
     in case silc_packet_parse packet of
          None \<Rightarrow> Read_error SILC_PACKET_ERR_MALFORMED r (silc_packet_free packet pool')
        | Some packet \<Rightarrow> Read_packet packet n r pool')"
proof -
  define d where "d = drop (sb_data inbuf) (sb_mem inbuf)"
  have len: "silc_buffer_len inbuf = length w" "take (length w) d = w"
    using bytes_prefix(2,3) [OF inbuf(1,2), of 0] by (simp_all add: d_def)
  have nth: "d ! i = w ! i" if "i < length w" for i
    using arg_cong [OF len(2), of "\<lambda>x. x ! i"] that by simp
  have "w \<noteq> []" using inbuf(3) by auto
  then have L: "SILC_PACKET_LENGTH d = (pk, n)" "d ! 2 = w ! 2" "d ! 3 = w ! 3"
    using short(1) inbuf(3) nth [of 0] nth [of 1] nth [of 2] nth [of 3] nth [of 4]
    by (auto simp: SILC_PACKET_LENGTH_def SILC_GET16_MSB_def Let_def)
  have n: "pk \<le> n" using short(1) by (auto simp: SILC_PACKET_LENGTH_def Let_def)
  have lb: "length (sb_mem b) < u32_max" "silc_buffer_truelen b = length (sb_mem b)" "silc_buffer_taillen b = length (sb_mem b)"
    using pool(2-4) by (auto simp: wf_buffer_def wf_buffer_lens [OF pool(2)])
  have "(int n - 16 + 4294967296) mod 4294967296 = int n - 16 + 4294967296"
    by (rule mod_pos_pos_trivial) (use short(3) in auto)
  then have "(int n - 16) mod 4294967296 = int n - 16 + 4294967296" by (simp only: mod_add_self2)
  then have s: "sub32 n 16 = 4294967280 + n" by (simp add: sub32_def u32_max_def)
  have bl: "silc_buffer_len (b\<lparr>sb_tail := n\<rparr>) = n" using pool(3) short(3) by (simp add: silc_buffer_len_def silc_arith u32_max_def)
  have fill: "packet_fill fb d n b = b\<lparr>sb_tail := n\<rparr>" if "fb_block_len fb = 16" "fb_ivlen fb = 0" "fb_psnlen fb = 0" for fb
    unfolding packet_fill_def Let_def that
    using short(3) pool(4,5) s
    by (simp add: silc_buffer_pull_tail_def lb silc_buffer_put_def silc_buffer_pull_def bl silc_arith u32_max_def)
  have push: "fst (silc_buffer_push (b\<lparr>sb_tail := n\<rparr>) 16) = b\<lparr>sb_tail := n\<rparr>" by (simp add: silc_buffer_push_def pool(3))
  have "\<not> length (sb_mem b) < n" using pool(5) short(3) by simp
  then show ?thesis
    unfolding read_packet_def Let_def d_def [symmetric] first_block_plain(1) [OF r(1,2)] option.case first_block.select_convs
      L prod.case pool(1) silc_packet_alloc_def list.case lb(2)
    using r inbuf(3) len(1) short n
    by (simp add: fill packet_finish_def push silc_packet_check_mac_def SILC_PACKET_MIN_HEADER_LEN_def SILC_PACKET_MIN_LEN_def
        SILC_PACKET_HEADER_LEN_def Let_def split: option.split)
qed

section \<open>Pending output\<close>

text \<open>
  When a write took nothing, \<open>data\<close> is still at the start of the outgoing buffer. The notification
  that the stream can be written then does nothing, whatever the stream would take: the packets stay
  in the buffer until another packet is sent.
\<close>

lemma silc_packet_pending_stalls:
  assumes "wf_buffer (ps_outbuf s)" and "sb_data (ps_outbuf s) = 0"
  shows "silc_packet_stream_io cb J (SILC_STREAM_CAN_WRITE wrs) s pool inbuf = (s, pool, inbuf, [], [])"
  using assms by (simp add: silc_packet_stream_io_def wf_buffer_lens)

end
