(* ===== verification/Silc_Fsm.thy ===== *)
theory Silc_Fsm
  imports Silc_Prelude
begin

text \<open>
  \<open>lib/silcutil/silcfsm.c\<close>: finite state machines, their threads and the events they wait for. A
  world holds the machines, the events, the tasks given to the scheduler and the stack of machines
  whose state functions are being executed. State functions are code of the users of the library:
  they are arbitrary sequences of calls of the library, a step of the model each. The scheduler may
  execute the tasks it has in any order. Real system threads are not modelled; the code falls back to
  the modelled kind when they are not available.
\<close>

section \<open>Machines, events and tasks\<close>

datatype silc_fsm_status = SILC_FSM_ST_CONTINUE | SILC_FSM_ST_YIELD | SILC_FSM_ST_WAIT | SILC_FSM_ST_FINISH

record silc_fsm =
  fs_next_state :: "nat option"
  fs_event :: "nat option"
  fs_thread :: bool
  fs_threads :: int
  fs_machine :: nat
  fs_term_event :: "nat option"
  fs_finished :: bool
  fs_event_timedout :: bool
  fs_synchronous :: bool
  fs_next_later :: bool
  fs_started :: bool

record silc_fsm_event =
  fe_waiters :: "nat list"
  fe_value :: nat
  fe_refcnt :: nat
  fe_allocated :: bool

datatype fsm_task = Task_run nat | Task_finish nat | Task_signal nat nat | Task_timedout nat

text \<open>
  An event that was freed is \<open>None\<close>. A frame of the stack is a machine whose state function is
  being executed, and the event to unreference when \<open>silc_fsm_run\<close> returns. \<open>fw_rewait\<close> is the event by
  which the machine on the top was resumed, until its state function waits for it again.
\<close>

record fsm_world =
  fw_fsm :: "nat \<Rightarrow> silc_fsm"
  fw_event :: "nat \<Rightarrow> silc_fsm_event option"
  fw_tasks :: "fsm_task list"
  fw_stack :: "(nat \<times> nat option) list"
  fw_rewait :: "nat option"
  fw_destroyed :: "nat list"
  fw_aborted :: bool

definition upd_fsm :: "nat \<Rightarrow> (silc_fsm \<Rightarrow> silc_fsm) \<Rightarrow> fsm_world \<Rightarrow> fsm_world" where
  "upd_fsm f g w = w\<lparr>fw_fsm := (fw_fsm w)(f := g (fw_fsm w f))\<rparr>"

definition upd_event :: "nat \<Rightarrow> (silc_fsm_event \<Rightarrow> silc_fsm_event) \<Rightarrow> fsm_world \<Rightarrow> fsm_world" where
  "upd_event e g w = w\<lparr>fw_event := (fw_event w)(e := map_option g (fw_event w e))\<rparr>"

definition task_add :: "fsm_task \<Rightarrow> fsm_world \<Rightarrow> fsm_world" where
  "task_add t w = w\<lparr>fw_tasks := fw_tasks w @ [t]\<rparr>"

definition task_del :: "fsm_task \<Rightarrow> fsm_world \<Rightarrow> fsm_world" where
  "task_del t w = w\<lparr>fw_tasks := filter (\<lambda>x. x \<noteq> t) (fw_tasks w)\<rparr>"

definition waiters :: "fsm_world \<Rightarrow> nat \<Rightarrow> nat list" where
  "waiters w e = (case fw_event w e of None \<Rightarrow> [] | Some ev \<Rightarrow> fe_waiters ev)"

definition event_value :: "fsm_world \<Rightarrow> nat \<Rightarrow> nat" where
  "event_value w e = (case fw_event w e of None \<Rightarrow> 0 | Some ev \<Rightarrow> fe_value ev)"

section \<open>Starting, continuing and finishing\<close>

definition silc_fsm_init :: "nat \<Rightarrow> bool \<Rightarrow> fsm_world \<Rightarrow> bool \<times> fsm_world" where
  "silc_fsm_init f schedule w =
     (if \<not> schedule then (False, w)
      else (True, upd_fsm f (\<lambda>m. m\<lparr>fs_thread := False, fs_started := False, fs_threads := 0\<rparr>) w))"

definition silc_fsm_thread_init :: "nat \<Rightarrow> nat \<Rightarrow> fsm_world \<Rightarrow> fsm_world" where
  "silc_fsm_thread_init t f w =
     upd_fsm f (\<lambda>m. m\<lparr>fs_threads := fs_threads m + 1\<rparr>)
       (upd_fsm t (\<lambda>m. m\<lparr>fs_thread := True, fs_started := False, fs_machine := f\<rparr>) w)"

definition started_in :: "nat \<Rightarrow> bool \<Rightarrow> silc_fsm \<Rightarrow> silc_fsm" where
  "started_in st sync m = m\<lparr>fs_finished := False, fs_next_state := Some st, fs_synchronous := sync, fs_started := True\<rparr>"

definition silc_fsm_start :: "nat \<Rightarrow> nat \<Rightarrow> fsm_world \<Rightarrow> fsm_world" where
  "silc_fsm_start f st w = task_add (Task_run f) (upd_fsm f (started_in st False) w)"

text \<open>Executing \<open>silc_fsm_run\<close>: the state function is called.\<close>

definition silc_fsm_run :: "nat \<Rightarrow> nat option \<Rightarrow> fsm_world \<Rightarrow> fsm_world" where
  "silc_fsm_run f unref w = w\<lparr>fw_stack := (f, unref) # fw_stack w\<rparr>"

definition silc_fsm_start_sync :: "nat \<Rightarrow> nat \<Rightarrow> fsm_world \<Rightarrow> fsm_world" where
  "silc_fsm_start_sync f st w = silc_fsm_run f None (upd_fsm f (started_in st True) w)"

definition silc_fsm_next :: "nat \<Rightarrow> nat \<Rightarrow> fsm_world \<Rightarrow> fsm_world" where
  "silc_fsm_next f st = upd_fsm f (\<lambda>m. m\<lparr>fs_next_state := Some st\<rparr>)"

definition silc_fsm_next_later :: "nat \<Rightarrow> nat \<Rightarrow> nat \<Rightarrow> nat \<Rightarrow> fsm_world \<Rightarrow> fsm_world" where
  "silc_fsm_next_later f st seconds useconds w =
     (let w = silc_fsm_next f st w
      in if seconds = 0 \<and> useconds = 0 then w
         else upd_fsm f (\<lambda>m. m\<lparr>fs_next_later := True\<rparr>) (task_add (Task_run f) w))"

definition cancel_later :: "nat \<Rightarrow> fsm_world \<Rightarrow> fsm_world" where
  "cancel_later f w =
     (if fs_next_later (fw_fsm w f) then upd_fsm f (\<lambda>m. m\<lparr>fs_next_later := False\<rparr>) (task_del (Task_run f) w) else w)"

definition silc_fsm_continue :: "nat \<Rightarrow> fsm_world \<Rightarrow> fsm_world" where
  "silc_fsm_continue f w = task_add (Task_run f) (cancel_later f w)"

definition silc_fsm_continue_sync :: "nat \<Rightarrow> nat option \<Rightarrow> fsm_world \<Rightarrow> fsm_world" where
  "silc_fsm_continue_sync f unref w = silc_fsm_run f unref (cancel_later f w)"

section \<open>Events\<close>

definition silc_fsm_event_init :: "nat \<Rightarrow> bool \<Rightarrow> fsm_world \<Rightarrow> fsm_world" where
  "silc_fsm_event_init e allocated w =
     w\<lparr>fw_event := (fw_event w)(e \<mapsto> \<lparr>fe_waiters = [], fe_value = 0, fe_refcnt = 0, fe_allocated = allocated\<rparr>)\<rparr>"

definition silc_fsm_event_free :: "nat \<Rightarrow> fsm_world \<Rightarrow> fsm_world" where
  "silc_fsm_event_free e w =
     (case fw_event w e of
        None \<Rightarrow> w
      | Some ev \<Rightarrow> if 0 < fe_refcnt ev then w
                   else if 0 < length (fe_waiters ev) then w
                   else w\<lparr>fw_event := (fw_event w)(e := None)\<rparr>)"

text \<open>The counters are bit fields of 10 and 21 bits.\<close>

definition silc_fsm_event_ref :: "nat \<Rightarrow> fsm_world \<Rightarrow> fsm_world" where
  "silc_fsm_event_ref e = upd_event e (\<lambda>ev. ev\<lparr>fe_refcnt := (fe_refcnt ev + 1) mod 1024\<rparr>)"

definition silc_fsm_event_unref :: "nat \<Rightarrow> fsm_world \<Rightarrow> fsm_world" where
  "silc_fsm_event_unref e w =
     (let w = upd_event e (\<lambda>ev. ev\<lparr>fe_refcnt := (fe_refcnt ev + 1023) mod 1024\<rparr>) w
      in case fw_event w e of
           None \<Rightarrow> w
         | Some ev \<Rightarrow> if fe_refcnt ev = 0 \<and> fe_allocated ev then silc_fsm_event_free e w else w)"

definition silc_fsm_event_wait :: "nat \<Rightarrow> nat \<Rightarrow> fsm_world \<Rightarrow> nat \<times> fsm_world" where
  "silc_fsm_event_wait e f w =
     (if event_value w e = 0 then (0, upd_event e (\<lambda>ev. ev\<lparr>fe_waiters := fe_waiters ev @ [f]\<rparr>) w)
      else
        (1, upd_event e (\<lambda>ev.
              let ev = ev\<lparr>fe_waiters := remove1 f (fe_waiters ev)\<rparr>
              in if fe_waiters ev = [] then ev\<lparr>fe_value := fe_value ev - 1\<rparr> else ev) w))"

text \<open>The results are the value, whether the time was out, and the world.\<close>

definition silc_fsm_event_timedwait :: "nat \<Rightarrow> nat \<Rightarrow> fsm_world \<Rightarrow> nat \<times> bool \<times> fsm_world" where
  "silc_fsm_event_timedwait e f w =
     (if fs_event_timedout (fw_fsm w f) then (1, True, upd_fsm f (\<lambda>m. m\<lparr>fs_event_timedout := False\<rparr>) w)
      else
        (let (value, w) = silc_fsm_event_wait e f w
         in (value, False,
             if value = 0 then upd_fsm f (\<lambda>m. m\<lparr>fs_event := Some e\<rparr>) (task_add (Task_timedout f) w) else w)))"

text \<open>\<open>None\<close> is the use of \<open>fsm->event\<close> when it is not set.\<close>

definition silc_fsm_event_timedout :: "nat \<Rightarrow> fsm_world \<Rightarrow> fsm_world option" where
  "silc_fsm_event_timedout f w =
     (case fs_event (fw_fsm w f) of
        None \<Rightarrow> None
      | Some e \<Rightarrow>
          Some (upd_fsm f (\<lambda>m. m\<lparr>fs_event_timedout := True, fs_event := None\<rparr>)
                 (silc_fsm_continue f (upd_event e (\<lambda>ev. ev\<lparr>fe_waiters := remove1 f (fe_waiters ev)\<rparr>) w))))"

definition signal_waiter :: "nat \<Rightarrow> nat \<Rightarrow> fsm_world \<Rightarrow> fsm_world" where
  "signal_waiter e f w =
     (let w = (if fs_event (fw_fsm w f) \<noteq> None
               then upd_fsm f (\<lambda>m. m\<lparr>fs_event := None\<rparr>) (task_del (Task_timedout f) w) else w)
      in task_add (Task_signal e f) (silc_fsm_event_ref e w))"

definition silc_fsm_event_signal :: "nat \<Rightarrow> fsm_world \<Rightarrow> fsm_world" where
  "silc_fsm_event_signal e w =
     fold (signal_waiter e) (waiters w e) (upd_event e (\<lambda>ev. ev\<lparr>fe_value := (fe_value ev + 1) mod 2097152\<rparr>) w)"

text \<open>
  The delivery of a signal; the event is unreferenced when the machine's turn is over. Resumed like
  this, the state function waits for the event again.
\<close>

definition silc_fsm_signal :: "nat \<Rightarrow> nat \<Rightarrow> fsm_world \<Rightarrow> fsm_world" where
  "silc_fsm_signal e f w =
     (if event_value w e = 0 then silc_fsm_event_unref e w
      else if f \<notin> set (waiters w e) then silc_fsm_event_unref e w
      else (silc_fsm_continue_sync f (Some e) w)\<lparr>fw_rewait := Some e\<rparr>)"

section \<open>Threads and the end of machines\<close>

definition silc_fsm_thread_wait :: "nat \<Rightarrow> nat \<Rightarrow> nat \<Rightarrow> fsm_world \<Rightarrow> fsm_world" where
  "silc_fsm_thread_wait f t e w =
     snd (silc_fsm_event_wait e f
       (upd_fsm t (\<lambda>m. m\<lparr>fs_term_event := Some e\<rparr>) (silc_fsm_event_init e True w)))"

definition resume_waiter :: "nat \<Rightarrow> nat \<Rightarrow> fsm_world \<Rightarrow> fsm_world" where
  "resume_waiter e f w = silc_fsm_continue f (upd_event e (\<lambda>ev. ev\<lparr>fe_waiters := remove1 f (fe_waiters ev)\<rparr>) w)"

definition silc_fsm_thread_termination_signal :: "nat \<Rightarrow> fsm_world \<Rightarrow> fsm_world" where
  "silc_fsm_thread_termination_signal e w = fold (resume_waiter e) (waiters w e) w"

definition silc_fsm_finish_fsm :: "nat \<Rightarrow> fsm_world \<Rightarrow> fsm_world" where
  "silc_fsm_finish_fsm f w =
     (let w = upd_fsm f (\<lambda>m. m\<lparr>fs_next_state := None\<rparr>) w; m = fw_fsm w f
      in if fs_thread m then
           (let w = (case fs_term_event m of
                       None \<Rightarrow> w
                     | Some e \<Rightarrow> upd_fsm f (\<lambda>m. m\<lparr>fs_term_event := None\<rparr>)
                                   (silc_fsm_event_free e (silc_fsm_thread_termination_signal e w)));
                w = upd_fsm (fs_machine m) (\<lambda>m. m\<lparr>fs_threads := fs_threads m - 1\<rparr>) w
            in if \<not> fs_finished (fw_fsm w (fs_machine m)) then w\<lparr>fw_destroyed := fw_destroyed w @ [f]\<rparr> else w)
         else if fs_threads m \<noteq> 0 then w\<lparr>fw_aborted := True\<rparr>
         else w\<lparr>fw_destroyed := fw_destroyed w @ [f]\<rparr>)"

definition silc_fsm_finish :: "nat \<Rightarrow> fsm_world \<Rightarrow> fsm_world" where
  "silc_fsm_finish f w =
     (let w = upd_fsm f (\<lambda>m. m\<lparr>fs_started := False, fs_finished := True\<rparr>) w;
          w = upd_fsm f (\<lambda>m. m\<lparr>fs_next_later := False\<rparr>) (task_del (Task_run f) w)
      in if fs_synchronous (fw_fsm w f) then silc_fsm_finish_fsm f w else task_add (Task_finish f) w)"

text \<open>What \<open>silc_fsm_run\<close> does with the status of the state function; on \<open>CONTINUE\<close> the next one is called.\<close>

definition run_return :: "silc_fsm_status \<Rightarrow> fsm_world \<Rightarrow> fsm_world" where
  "run_return status w =
     (case fw_stack w of
        [] \<Rightarrow> w
      | (f, unref) # stack \<Rightarrow>
          if status = SILC_FSM_ST_CONTINUE then w
          else
            (let w = (case status of
                        SILC_FSM_ST_YIELD \<Rightarrow> silc_fsm_continue f w
                      | SILC_FSM_ST_WAIT \<Rightarrow> upd_fsm f (\<lambda>m. m\<lparr>fs_synchronous := False\<rparr>) w
                      | _ \<Rightarrow> silc_fsm_finish f w);
                 w = w\<lparr>fw_stack := stack\<rparr>
             in case unref of None \<Rightarrow> w | Some e \<Rightarrow> silc_fsm_event_unref e w))"

end
