(* ===== verification/Silc_Fsm_Inv.thy ===== *)
theory Silc_Fsm_Inv
  imports Silc_Fsm
begin

text \<open>
  The invariant of the state machine runtime and its preservation by every operation of the library:
  the reference counter of an event counts the signals under way (\<open>inv_refs\<close>), a machine waits for
  at most one event and once (\<open>inv_waiters\<close>), a signalled waiter has a task (\<open>inv_wakeup\<close>), a
  timeout task belongs to a machine in a timed wait (\<open>inv_timeout\<close>) and a finished machine is out of
  everything (\<open>inv_finished\<close>).
\<close>

section \<open>The invariant\<close>

definition waiting :: "fsm_world \<Rightarrow> nat \<Rightarrow> bool" where
  "waiting w f \<longleftrightarrow> (\<exists>e. f \<in> set (waiters w e))"

definition is_signal :: "nat \<Rightarrow> fsm_task \<Rightarrow> bool" where
  "is_signal e t = (case t of Task_signal e' f \<Rightarrow> e' = e | _ \<Rightarrow> False)"

lemma is_signal_simps [simp]:
  "is_signal e (Task_signal e' f) = (e' = e)" "\<not> is_signal e (Task_run f)" "\<not> is_signal e (Task_finish f)"
  "\<not> is_signal e (Task_timedout f)"
  by (simp_all add: is_signal_def)

definition pending :: "nat \<Rightarrow> fsm_world \<Rightarrow> nat" where
  "pending e w = length (filter (is_signal e) (fw_tasks w)) + length (filter (\<lambda>fr. snd fr = Some e) (fw_stack w))"

definition refcnt :: "fsm_world \<Rightarrow> nat \<Rightarrow> nat" where
  "refcnt w e = (case fw_event w e of None \<Rightarrow> 0 | Some ev \<Rightarrow> fe_refcnt ev)"

definition running :: "fsm_world \<Rightarrow> nat set" where
  "running w = fst ` set (fw_stack w)"

text \<open>
  The references of an event: its signals under way and its frames, and one more for the event
  \<open>k\<close> that is about to be unreferenced.
\<close>

definition extra :: "nat option \<Rightarrow> nat \<Rightarrow> nat" where
  "extra k e = (if k = Some e then 1 else 0)"

lemma extra_None [simp]: "extra None e = 0"
  by (simp add: extra_def)

definition inv_refs :: "nat option \<Rightarrow> fsm_world \<Rightarrow> bool" where
  "inv_refs k w \<longleftrightarrow> (\<forall>e. pending e w + extra k e = refcnt w e \<and> refcnt w e < 1024)"

definition inv_waiters :: "fsm_world \<Rightarrow> bool" where
  "inv_waiters w \<longleftrightarrow> (\<forall>e. distinct (waiters w e)) \<and> (\<forall>e e' f. f \<in> set (waiters w e) \<longrightarrow> f \<in> set (waiters w e') \<longrightarrow> e = e')"

definition resumed :: "fsm_world \<Rightarrow> nat \<Rightarrow> nat \<Rightarrow> bool" where
  "resumed w e f \<longleftrightarrow> fw_rewait w = Some e \<and> (\<exists>u st. fw_stack w = (f, u) # st)"

definition inv_wakeup :: "fsm_world \<Rightarrow> bool" where
  "inv_wakeup w \<longleftrightarrow>
     (\<forall>e f. 0 < event_value w e \<longrightarrow> f \<in> set (waiters w e) \<longrightarrow> Task_signal e f \<in> set (fw_tasks w) \<or> resumed w e f)
     \<and> (\<forall>e. fw_rewait w = Some e \<longrightarrow> 0 < event_value w e \<and> (\<exists>f. resumed w e f \<and> f \<in> set (waiters w e)))"

definition inv_timeout :: "fsm_world \<Rightarrow> bool" where
  "inv_timeout w \<longleftrightarrow>
     (\<forall>f e. fs_event (fw_fsm w f) = Some e \<longrightarrow> f \<in> set (waiters w e) \<and> event_value w e = 0)
     \<and> (\<forall>f. Task_timedout f \<in> set (fw_tasks w) \<longrightarrow> fs_event (fw_fsm w f) \<noteq> None)
     \<and> (\<forall>f. count_list (fw_tasks w) (Task_timedout f) \<le> 1)
     \<and> (\<forall>t f e. fs_term_event (fw_fsm w t) = Some e \<longrightarrow> fs_event (fw_fsm w f) \<noteq> Some e)"

definition inv_finished :: "fsm_world \<Rightarrow> bool" where
  "inv_finished w \<longleftrightarrow>
     (\<forall>f. fs_finished (fw_fsm w f) \<longrightarrow> Task_run f \<notin> set (fw_tasks w) \<and> \<not> waiting w f \<and> f \<notin> running w)"

definition fsm_inv :: "nat option \<Rightarrow> fsm_world \<Rightarrow> bool" where
  "fsm_inv k w \<longleftrightarrow> inv_refs k w \<and> inv_waiters w \<and> inv_wakeup w \<and> inv_timeout w \<and> inv_finished w"

lemmas inv_defs = inv_refs_def inv_waiters_def inv_wakeup_def inv_timeout_def inv_finished_def

lemma inv_timeoutD: "fsm_inv k w \<Longrightarrow> fs_event (fw_fsm w f) = Some e \<Longrightarrow> f \<in> set (waiters w e) \<and> event_value w e = 0"
  by (simp add: fsm_inv_def inv_timeout_def)

lemma inv_waitersD: "fsm_inv k w \<Longrightarrow> f \<in> set (waiters w e) \<Longrightarrow> f \<in> set (waiters w e') \<Longrightarrow> e = e'"
  unfolding fsm_inv_def inv_waiters_def by blast

text \<open>Projections of the elementary changes.\<close>

lemma upd_fsm_proj [simp]:
  "fw_event (upd_fsm f g w) = fw_event w" "fw_tasks (upd_fsm f g w) = fw_tasks w" "fw_stack (upd_fsm f g w) = fw_stack w"
  "fw_rewait (upd_fsm f g w) = fw_rewait w" "fw_fsm (upd_fsm f g w) = (fw_fsm w)(f := g (fw_fsm w f))"
  by (simp_all add: upd_fsm_def)

lemma upd_event_proj [simp]:
  "fw_fsm (upd_event e g w) = fw_fsm w" "fw_tasks (upd_event e g w) = fw_tasks w" "fw_stack (upd_event e g w) = fw_stack w"
  "fw_rewait (upd_event e g w) = fw_rewait w" "fw_event (upd_event e g w) = (fw_event w)(e := map_option g (fw_event w e))"
  by (simp_all add: upd_event_def)

lemma task_proj [simp]:
  "fw_fsm (task_add t w) = fw_fsm w" "fw_event (task_add t w) = fw_event w" "fw_stack (task_add t w) = fw_stack w"
  "fw_rewait (task_add t w) = fw_rewait w" "fw_tasks (task_add t w) = fw_tasks w @ [t]"
  "fw_fsm (task_del t w) = fw_fsm w" "fw_event (task_del t w) = fw_event w" "fw_stack (task_del t w) = fw_stack w"
  "fw_rewait (task_del t w) = fw_rewait w" "fw_tasks (task_del t w) = filter (\<lambda>x. x \<noteq> t) (fw_tasks w)"
  by (simp_all add: task_add_def task_del_def)

lemma views [simp]:
  "waiters (upd_fsm f g w) = waiters w" "event_value (upd_fsm f g w) = event_value w" "refcnt (upd_fsm f g w) = refcnt w"
  "waiters (task_add t w) = waiters w" "event_value (task_add t w) = event_value w" "refcnt (task_add t w) = refcnt w"
  "waiters (task_del t w) = waiters w" "event_value (task_del t w) = event_value w" "refcnt (task_del t w) = refcnt w"
  by (auto simp: waiters_def [abs_def] event_value_def [abs_def] refcnt_def [abs_def])

lemma views_stack [simp]:
  "waiters (w\<lparr>fw_stack := st\<rparr>) = waiters w" "event_value (w\<lparr>fw_stack := st\<rparr>) = event_value w" "refcnt (w\<lparr>fw_stack := st\<rparr>) = refcnt w"
  "waiters (w\<lparr>fw_tasks := ts\<rparr>) = waiters w" "event_value (w\<lparr>fw_tasks := ts\<rparr>) = event_value w" "refcnt (w\<lparr>fw_tasks := ts\<rparr>) = refcnt w"
  "waiters (w\<lparr>fw_rewait := r\<rparr>) = waiters w" "event_value (w\<lparr>fw_rewait := r\<rparr>) = event_value w" "refcnt (w\<lparr>fw_rewait := r\<rparr>) = refcnt w"
  by (auto simp: waiters_def [abs_def] event_value_def [abs_def] refcnt_def [abs_def])

lemma count_task [simp]:
  "count_list (filter (\<lambda>x. x \<noteq> t) ts) y = (if y = t then 0 else count_list ts y)"
  "count_list (remove1 t ts) y = (if y = t then count_list ts y - 1 else count_list ts y)"
  by (induction ts) (auto simp: count_list_0_iff)

text \<open>Changes that concern no waiting, no end and no event.\<close>

lemma inv_upd_fsm:
  assumes "fsm_inv k w" and "\<And>m. fs_event (g m) = fs_event m" "\<And>m x. fs_term_event (g m) = Some x \<Longrightarrow> fs_term_event m = Some x"
    and "fs_finished (g (fw_fsm w f)) \<Longrightarrow> fs_finished (fw_fsm w f)"
  shows "fsm_inv k (upd_fsm f g w)"
proof -
  have e: "fs_event (fw_fsm (upd_fsm f g w) h) = fs_event (fw_fsm w h)" for h
    by (simp add: assms(2))
  have n: "fs_finished (fw_fsm (upd_fsm f g w) h) \<Longrightarrow> fs_finished (fw_fsm w h)" for h
    by (cases "h = f") (use assms(4) in simp_all)
  have t: "fs_term_event (fw_fsm (upd_fsm f g w) h) = Some x \<Longrightarrow> fs_term_event (fw_fsm w h) = Some x" for h x
    by (cases "h = f") (use assms(3) [of "fw_fsm w f" x] in simp_all)
  have "inv_timeout (upd_fsm f g w)"
    using assms(1) t unfolding fsm_inv_def inv_timeout_def e upd_fsm_proj(2) views(1,2) by blast
  moreover have "inv_finished (upd_fsm f g w)"
    using assms(1) n unfolding fsm_inv_def inv_finished_def waiting_def running_def upd_fsm_proj(2,3) views(1) by blast
  ultimately show ?thesis
    using assms(1) by (auto simp: fsm_inv_def inv_refs_def inv_waiters_def inv_wakeup_def pending_def resumed_def)
qed

lemma inv_add_run:
  assumes "fsm_inv k w" and "\<not> fs_finished (fw_fsm w f)"
  shows "fsm_inv k (task_add (Task_run f) w)"
  using assms
  by (auto simp: fsm_inv_def inv_defs pending_def waiting_def running_def resumed_def)

lemma inv_del_run: "fsm_inv k w \<Longrightarrow> fsm_inv k (task_del (Task_run f) w)"
proof -
  assume inv: "fsm_inv k w"
  have "filter (is_signal e) (filter (\<lambda>x. x \<noteq> Task_run f) ts) = filter (is_signal e) ts" for e ts
    by (induction ts) auto
  then show ?thesis using inv
    by (auto simp: fsm_inv_def inv_defs pending_def waiting_def running_def resumed_def)
qed

lemma inv_cancel_later: "fsm_inv k w \<Longrightarrow> fsm_inv k (cancel_later f w)"
  by (auto simp: cancel_later_def intro!: inv_upd_fsm inv_del_run)

lemma cancel_later_proj [simp]:
  "fw_event (cancel_later f w) = fw_event w" "fw_stack (cancel_later f w) = fw_stack w" "fw_rewait (cancel_later f w) = fw_rewait w"
  "waiters (cancel_later f w) = waiters w" "event_value (cancel_later f w) = event_value w"
  "fs_finished (fw_fsm (cancel_later f w) g) = fs_finished (fw_fsm w g)" "fs_event (fw_fsm (cancel_later f w) g) = fs_event (fw_fsm w g)"
  "fs_term_event (fw_fsm (cancel_later f w) g) = fs_term_event (fw_fsm w g)"
  by (auto simp: cancel_later_def)

lemma inv_continue: "fsm_inv k w \<Longrightarrow> \<not> fs_finished (fw_fsm w f) \<Longrightarrow> fsm_inv k (silc_fsm_continue f w)"
  by (simp add: silc_fsm_continue_def inv_add_run inv_cancel_later)

lemma inv_run:
  assumes "fsm_inv k w" and "\<not> fs_finished (fw_fsm w f)" and "fw_rewait w = None"
  shows "fsm_inv k (silc_fsm_run f None w)"
  using assms
  by (auto simp: silc_fsm_run_def fsm_inv_def inv_defs pending_def waiting_def running_def resumed_def)

lemma inv_continue_sync:
  "fsm_inv k w \<Longrightarrow> \<not> fs_finished (fw_fsm w f) \<Longrightarrow> fw_rewait w = None \<Longrightarrow> fsm_inv k (silc_fsm_continue_sync f None w)"
  by (simp add: silc_fsm_continue_sync_def inv_run inv_cancel_later)

lemma inv_remove_task:
  assumes "fsm_inv k w" and "\<And>e. \<not> is_signal e t"
  shows "fsm_inv k (w\<lparr>fw_tasks := remove1 t (fw_tasks w)\<rparr>)"
proof -
  have f: "filter (is_signal e) (remove1 t ts) = filter (is_signal e) ts" for e ts
    using assms(2) by (induction ts) auto
  have s: "Task_signal e f \<in> set (remove1 t ts) \<longleftrightarrow> Task_signal e f \<in> set ts" for e f ts
    using assms(2) [of e] by (cases t) (auto simp: in_set_remove1)
  show ?thesis using assms(1)
    by (auto simp: fsm_inv_def inv_defs pending_def waiting_def running_def resumed_def f s dest: set_mp [OF set_remove1_subset])
qed

section \<open>Events\<close>

lemma upd_event_views:
  "waiters (upd_event e g w) x = (if x = e then (case fw_event w e of None \<Rightarrow> [] | Some ev \<Rightarrow> fe_waiters (g ev)) else waiters w x)"
  "event_value (upd_event e g w) x = (if x = e then (case fw_event w e of None \<Rightarrow> 0 | Some ev \<Rightarrow> fe_value (g ev)) else event_value w x)"
  "refcnt (upd_event e g w) x = (if x = e then (case fw_event w e of None \<Rightarrow> 0 | Some ev \<Rightarrow> fe_refcnt (g ev)) else refcnt w x)"
  by (auto simp: waiters_def event_value_def refcnt_def split: option.split)

lemma inv_event_init:
  assumes "fsm_inv k w" and "fw_event w e = None"
  shows "fsm_inv k (silc_fsm_event_init e a w)"
proof -
  have v: "waiters (silc_fsm_event_init e a w) = waiters w" "event_value (silc_fsm_event_init e a w) = event_value w"
    "refcnt (silc_fsm_event_init e a w) = refcnt w"
    using assms(2) by (auto simp: silc_fsm_event_init_def waiters_def event_value_def refcnt_def)
  show ?thesis using assms(1)
    by (simp add: fsm_inv_def inv_defs v pending_def waiting_def running_def resumed_def) (simp add: silc_fsm_event_init_def)
qed

lemma inv_event_free:
  assumes "fsm_inv k w" and "fw_rewait w \<noteq> Some e"
  shows "fsm_inv k (silc_fsm_event_free e w)"
proof -
  define w' where "w' = w\<lparr>fw_event := (fw_event w)(e := None)\<rparr>"
  have "fsm_inv k w'" if ev: "fw_event w e = Some ev" "fe_refcnt ev = 0" "fe_waiters ev = []" for ev
  proof -
    have v: "waiters w' = waiters w" "refcnt w' = refcnt w" "event_value w' = (event_value w)(e := 0)"
      using ev by (auto simp: w'_def waiters_def event_value_def refcnt_def)
    have "waiters w e = []" using ev by (simp add: waiters_def)
    moreover from this have "fs_event (fw_fsm w f) \<noteq> Some e" for f using inv_timeoutD [OF assms(1), of f e] by auto
    ultimately show ?thesis using assms
      by (simp add: fsm_inv_def inv_defs v pending_def waiting_def running_def resumed_def) (auto simp: w'_def)
  qed
  then show ?thesis
    using assms(1) by (auto simp: silc_fsm_event_free_def w'_def split: option.split)
qed

text \<open>A machine waits: for an event that was not signalled, or one that was.\<close>

lemma inv_event_wait:
  assumes inv: "fsm_inv k w" and "fw_event w e \<noteq> None" "\<not> waiting w f" "\<not> fs_finished (fw_fsm w f)" "fw_rewait w = None"
  shows "fsm_inv k (snd (silc_fsm_event_wait e f w))"
proof -
  obtain ev where ev: "fw_event w e = Some ev" using assms(2) by blast
  have nf: "f \<notin> set (fe_waiters ev)" using assms(3) ev by (auto simp: waiting_def waiters_def dest: spec [of _ e])
  show ?thesis
  proof (cases "event_value w e = 0")
    case True
    define w' where "w' = snd (silc_fsm_event_wait e f w)"
    have w': "fw_fsm w' = fw_fsm w" "fw_tasks w' = fw_tasks w" "fw_stack w' = fw_stack w" "fw_rewait w' = fw_rewait w"
      using True by (simp_all add: w'_def silc_fsm_event_wait_def)
    have v: "waiters w' = (waiters w)(e := waiters w e @ [f])" "event_value w' = event_value w" "refcnt w' = refcnt w"
      using True ev by (auto simp: w'_def silc_fsm_event_wait_def upd_event_views waiters_def event_value_def refcnt_def)
    show ?thesis
      using assms True nf ev unfolding w'_def [symmetric]
      by (auto simp: fsm_inv_def inv_defs v w' pending_def waiting_def running_def resumed_def)
  next
    case False
    have "remove1 f (fe_waiters ev) = fe_waiters ev" using nf by (simp add: remove1_idem)
    define w' where "w' = snd (silc_fsm_event_wait e f w)"
    have w': "fw_fsm w' = fw_fsm w" "fw_tasks w' = fw_tasks w" "fw_stack w' = fw_stack w" "fw_rewait w' = fw_rewait w"
      using False by (simp_all add: w'_def silc_fsm_event_wait_def)
    have v: "waiters w' = waiters w" "event_value w' = (event_value w)(e := if waiters w e = [] then event_value w e - 1 else event_value w e)"
       "refcnt w' = refcnt w"
      using False ev \<open>remove1 f (fe_waiters ev) = _\<close>
      by (auto simp: w'_def silc_fsm_event_wait_def upd_event_views waiters_def event_value_def refcnt_def Let_def)
    show ?thesis
      using assms unfolding w'_def [symmetric]
      by (auto simp: fsm_inv_def inv_defs v w' pending_def waiting_def running_def resumed_def)
  qed
qed

text \<open>The wait of a machine that was resumed by the event ends its waiting.\<close>

lemma inv_rewait:
  assumes inv: "fsm_inv k w" and rw: "fw_rewait w = Some e" and st: "fw_stack w = (f, u) # st"
  shows "fsm_inv k ((snd (silc_fsm_event_wait e f w))\<lparr>fw_rewait := None\<rparr>)"
    and "fst (silc_fsm_event_wait e f w) = 1" "\<not> waiting (snd (silc_fsm_event_wait e f w)) f"
proof -
  have pos: "0 < event_value w e" and fin: "f \<in> set (waiters w e)"
    using inv rw st by (auto simp: fsm_inv_def inv_wakeup_def resumed_def)
  obtain ev where ev: "fw_event w e = Some ev" using pos by (cases "fw_event w e") (auto simp: event_value_def)
  define w' where "w' = (snd (silc_fsm_event_wait e f w))\<lparr>fw_rewait := None\<rparr>"
  have w': "fw_fsm w' = fw_fsm w" "fw_tasks w' = fw_tasks w" "fw_stack w' = fw_stack w" "fw_rewait w' = None"
    using pos by (simp_all add: w'_def silc_fsm_event_wait_def)
  define ws where "ws = remove1 f (waiters w e)"
  have d: "distinct (waiters w e)" using inv by (simp add: fsm_inv_def inv_waiters_def)
  then have sws: "set ws = set (waiters w e) - {f}" "distinct ws" by (simp_all add: ws_def)
  have v: "waiters w' = (waiters w)(e := ws)" "event_value w' = (event_value w)(e := if ws = [] then event_value w e - 1 else event_value w e)"
       "refcnt w' = refcnt w"
    using pos ev by (auto simp: w'_def silc_fsm_event_wait_def upd_event_views waiters_def event_value_def refcnt_def Let_def ws_def)
  show "fst (silc_fsm_event_wait e f w) = 1" using pos by (simp add: silc_fsm_event_wait_def)
  have "waiters (snd (silc_fsm_event_wait e f w)) = waiters w'" by (simp add: w'_def)
  then show "\<not> waiting (snd (silc_fsm_event_wait e f w)) f"
    using inv fin sws by (auto simp: waiting_def v fsm_inv_def inv_waiters_def)
  have "inv_refs k w'" using inv by (simp add: fsm_inv_def inv_refs_def v pending_def w')
  moreover have "inv_waiters w'" using inv sws by (auto simp: fsm_inv_def inv_waiters_def v)
  moreover have "inv_wakeup w'"
  proof -
    have "Task_signal x g \<in> set (fw_tasks w)" if "0 < event_value w' x" "g \<in> set (waiters w' x)" for x g
    proof -
      have "0 < event_value w x" "g \<in> set (waiters w x)" "x = e \<Longrightarrow> g \<noteq> f" using that sws by (auto simp: v split: if_splits)
      then show ?thesis using inv rw st by (auto simp: fsm_inv_def inv_wakeup_def resumed_def)
    qed
    then show ?thesis by (simp add: inv_wakeup_def w')
  qed
  moreover have "inv_timeout w'"
  proof -
    have "x \<noteq> e" if "fs_event (fw_fsm w g) = Some x" for g x using inv_timeoutD [OF inv that] pos by auto
    then show ?thesis using inv by (simp add: fsm_inv_def inv_timeout_def v w')
  qed
  moreover have "inv_finished w'" using inv sws by (auto simp: fsm_inv_def inv_finished_def v w' waiting_def running_def split: if_splits)
  ultimately show "fsm_inv k ((snd (silc_fsm_event_wait e f w))\<lparr>fw_rewait := None\<rparr>)"
    by (simp add: fsm_inv_def w'_def)
qed

lemma timedwait_eq:
  "snd (snd (silc_fsm_event_timedwait e f w)) =
    (if fs_event_timedout (fw_fsm w f) then upd_fsm f (\<lambda>m. m\<lparr>fs_event_timedout := False\<rparr>) w
     else if event_value w e = 0
       then upd_fsm f (\<lambda>m. m\<lparr>fs_event := Some e\<rparr>) (task_add (Task_timedout f) (snd (silc_fsm_event_wait e f w)))
       else snd (silc_fsm_event_wait e f w))"
  by (simp add: silc_fsm_event_timedwait_def silc_fsm_event_wait_def Let_def)

lemma wait_waiters:
  "fw_event w e \<noteq> None \<Longrightarrow> event_value w e = 0 \<Longrightarrow> f \<in> set (waiters (snd (silc_fsm_event_wait e f w)) e)"
  "event_value w e = 0 \<Longrightarrow> event_value (snd (silc_fsm_event_wait e f w)) e = 0"
  "fw_fsm (snd (silc_fsm_event_wait e f w)) = fw_fsm w" "fw_tasks (snd (silc_fsm_event_wait e f w)) = fw_tasks w"
  by (auto simp: silc_fsm_event_wait_def upd_event_views event_value_def split: option.splits)

lemma inv_timedwait:
  assumes inv: "fsm_inv k w" and "fw_event w e \<noteq> None" "\<not> waiting w f" "\<not> fs_finished (fw_fsm w f)" "fw_rewait w = None"
    and noterm: "\<forall>t. fs_term_event (fw_fsm w t) \<noteq> Some e"
  shows "fsm_inv k (snd (snd (silc_fsm_event_timedwait e f w)))"
proof -
  note w1 = inv_event_wait [OF assms(1-5)]
  have "fs_event (fw_fsm w f) = None"
    using inv_timeoutD [OF inv, of f] assms(3) by (cases "fs_event (fw_fsm w f)") (auto simp: waiting_def)
  then have cnt: "count_list (fw_tasks w) (Task_timedout f) = 0"
    using inv by (auto simp: fsm_inv_def inv_timeout_def count_list_0_iff)
  have "fsm_inv k (upd_fsm f (\<lambda>m. m\<lparr>fs_event := Some e\<rparr>) (task_add (Task_timedout f) (snd (silc_fsm_event_wait e f w))))"
    if "event_value w e = 0"
    using w1 that wait_waiters [where w = w and e = e and f = f] assms(2) noterm cnt
    by (auto simp: fsm_inv_def inv_defs pending_def waiting_def running_def resumed_def wait_waiters(3,4))
  then show ?thesis using inv w1 by (auto simp: timedwait_eq intro!: inv_upd_fsm)
qed

text \<open>A time-out takes the machine from the waiters and lets it run.\<close>

lemma inv_unwait:
  assumes inv: "fsm_inv k w" and rw: "fw_rewait w = None" and t: "Task_timedout f \<in> set (fw_tasks w) \<or> fs_event (fw_fsm w f) = None"
  shows "fsm_inv k (upd_event e (\<lambda>ev. ev\<lparr>fe_waiters := remove1 f (fe_waiters ev)\<rparr>)
     (upd_fsm f (\<lambda>m. m\<lparr>fs_event := None\<rparr>) (w\<lparr>fw_tasks := remove1 (Task_timedout f) (fw_tasks w)\<rparr>)))"
    (is "fsm_inv k ?w'")
proof -
  have v: "waiters ?w' = (waiters w)(e := remove1 f (waiters w e))" "event_value ?w' = event_value w" "refcnt ?w' = refcnt w"
    by (auto simp: upd_event_views waiters_def event_value_def refcnt_def split: option.splits)
  have d: "distinct (waiters w e)" using inv by (simp add: fsm_inv_def inv_waiters_def)
  have f: "filter (is_signal x) (remove1 (Task_timedout f) ts) = filter (is_signal x) ts" for x ts
    by (induction ts) auto
  have "count_list (fw_tasks w) (Task_timedout f) \<le> 1" using inv by (simp add: fsm_inv_def inv_timeout_def)
  then have "count_list (remove1 (Task_timedout f) (fw_tasks w)) (Task_timedout f) = 0" by simp
  then have g: "Task_timedout f \<notin> set (remove1 (Task_timedout f) (fw_tasks w))" by (simp only: count_list_0_iff simp_thms)
  have k: "x \<in> set (remove1 (Task_timedout f) ts) \<longleftrightarrow> x \<in> set ts" if "x \<noteq> Task_timedout f" for x ts
    using that by (simp add: in_set_remove1)
  show ?thesis using inv rw d
    by (auto simp: fsm_inv_def inv_defs v pending_def waiting_def running_def resumed_def f g k)
qed

lemma waiting_not_finished: "fsm_inv k w \<Longrightarrow> f \<in> set (waiters w e) \<Longrightarrow> \<not> fs_finished (fw_fsm w f)"
  by (auto simp: fsm_inv_def inv_finished_def waiting_def)

lemma inv_timedout:
  assumes inv: "fsm_inv k w" and rw: "fw_rewait w = None" and t: "Task_timedout f \<in> set (fw_tasks w)"
  shows "\<exists>w'. silc_fsm_event_timedout f (w\<lparr>fw_tasks := remove1 (Task_timedout f) (fw_tasks w)\<rparr>) = Some w' \<and> fsm_inv k w'"
proof -
  obtain e where e: "fs_event (fw_fsm w f) = Some e" using inv t by (auto simp: fsm_inv_def inv_timeout_def)
  define w0 where "w0 = upd_event e (\<lambda>ev. ev\<lparr>fe_waiters := remove1 f (fe_waiters ev)\<rparr>)
     (upd_fsm f (\<lambda>m. m\<lparr>fs_event := None\<rparr>) (w\<lparr>fw_tasks := remove1 (Task_timedout f) (fw_tasks w)\<rparr>))"
  have w0: "fsm_inv k w0" unfolding w0_def using inv rw t by (intro inv_unwait) auto
  have nf: "\<not> fs_finished (fw_fsm w f)" using inv_timeoutD [OF inv e] waiting_not_finished [OF inv] by blast
  have "silc_fsm_event_timedout f (w\<lparr>fw_tasks := remove1 (Task_timedout f) (fw_tasks w)\<rparr>) =
      Some (upd_fsm f (\<lambda>m. m\<lparr>fs_event_timedout := True\<rparr>) (silc_fsm_continue f w0))"
    using e by (cases "fw_fsm w f") (simp add: silc_fsm_event_timedout_def w0_def silc_fsm_continue_def cancel_later_def upd_fsm_def upd_event_def
        task_add_def task_del_def)
  moreover have "fsm_inv k (upd_fsm f (\<lambda>m. m\<lparr>fs_event_timedout := True\<rparr>) (silc_fsm_continue f w0))"
    using w0 nf by (intro inv_upd_fsm inv_continue) (auto simp: w0_def silc_fsm_continue_def)
  ultimately show ?thesis by blast
qed

section \<open>Signals\<close>

lemma signal_waiter_proj:
  "fw_stack (signal_waiter e f w) = fw_stack w" "fw_rewait (signal_waiter e f w) = fw_rewait w"
  "waiters (signal_waiter e f w) = waiters w" "event_value (signal_waiter e f w) = event_value w"
  "refcnt (signal_waiter e f w) = (refcnt w)(e := if fw_event w e = None then 0 else (refcnt w e + 1) mod 1024)"
  "(fw_event (signal_waiter e f w) x = None) = (fw_event w x = None)"
  "fw_fsm (signal_waiter e f w) g = (if g = f then (fw_fsm w f)\<lparr>fs_event := None\<rparr> else fw_fsm w g)"
  "fw_tasks (signal_waiter e f w) =
     (if fs_event (fw_fsm w f) \<noteq> None then filter (\<lambda>x. x \<noteq> Task_timedout f) (fw_tasks w) else fw_tasks w) @ [Task_signal e f]"
  by (auto simp: signal_waiter_def silc_fsm_event_ref_def Let_def fun_eq_iff upd_event_views refcnt_def waiters_def event_value_def
      split: option.splits)

lemma signal_fold:
  assumes "distinct ws" and "fw_event w e \<noteq> None" and "refcnt w e + length ws < 1024"
  shows "fw_stack (fold (signal_waiter e) ws w) = fw_stack w \<and> fw_rewait (fold (signal_waiter e) ws w) = fw_rewait w
    \<and> waiters (fold (signal_waiter e) ws w) = waiters w \<and> event_value (fold (signal_waiter e) ws w) = event_value w
    \<and> refcnt (fold (signal_waiter e) ws w) = (refcnt w)(e := refcnt w e + length ws)
    \<and> (\<forall>g. fw_fsm (fold (signal_waiter e) ws w) g = (if g \<in> set ws then (fw_fsm w g)\<lparr>fs_event := None\<rparr> else fw_fsm w g))
    \<and> (\<forall>x. filter (is_signal x) (fw_tasks (fold (signal_waiter e) ws w)) =
             filter (is_signal x) (fw_tasks w) @ (if x = e then map (Task_signal e) ws else []))
    \<and> (\<forall>t. t \<in> set (fw_tasks (fold (signal_waiter e) ws w)) \<longleftrightarrow>
             t \<in> set (fw_tasks w) \<and> \<not> (\<exists>f\<in>set ws. t = Task_timedout f \<and> fs_event (fw_fsm w f) \<noteq> None) \<or> t \<in> Task_signal e ` set ws)
    \<and> (\<forall>f. count_list (fw_tasks (fold (signal_waiter e) ws w)) (Task_timedout f) \<le> count_list (fw_tasks w) (Task_timedout f))"
  using assms
proof (induction ws arbitrary: w)
  case (Cons f ws)
  have r: "refcnt (signal_waiter e f w) e = refcnt w e + 1" using Cons.prems by (simp add: signal_waiter_proj)
  have s: "filter (\<lambda>t. t \<noteq> Task_timedout g \<and> is_signal x t) ts = filter (is_signal x) ts" for x g ts
    by (rule filter_cong) auto
  have c: "count_list (fw_tasks (signal_waiter e f w)) (Task_timedout g) \<le> count_list (fw_tasks w) (Task_timedout g)" for g
    by (simp add: signal_waiter_proj)
  define w1 where "w1 = signal_waiter e f w"
  have "distinct ws" "fw_event w1 e \<noteq> None" "refcnt w1 e + length ws < 1024"
    using Cons.prems r by (auto simp: signal_waiter_proj w1_def)
  note IH = Cons.IH [OF this]
  note p = signal_waiter_proj [of e f w, folded w1_def]
  have r': "refcnt w1 = (refcnt w)(e := refcnt w e + 1)" using Cons.prems by (auto simp: p)
  have f: "fold (signal_waiter e) (f # ws) w = fold (signal_waiter e) ws w1" by (simp add: w1_def)
  show ?case
    unfolding f
  proof (intro conjI allI)
    show "refcnt (fold (signal_waiter e) ws w1) = (refcnt w)(e := refcnt w e + length (f # ws))"
      using IH r' by (simp add: fun_upd_def) (simp add: fun_eq_iff)
    show "fw_fsm (fold (signal_waiter e) ws w1) g = (if g \<in> set (f # ws) then (fw_fsm w g)\<lparr>fs_event := None\<rparr> else fw_fsm w g)" for g
      using IH by (auto simp: p)
    show "filter (is_signal x) (fw_tasks (fold (signal_waiter e) ws w1)) =
             filter (is_signal x) (fw_tasks w) @ (if x = e then map (Task_signal e) (f # ws) else [])" for x
      using IH by (simp add: p s)
    show "t \<in> set (fw_tasks (fold (signal_waiter e) ws w1)) \<longleftrightarrow>
       t \<in> set (fw_tasks w) \<and> \<not> (\<exists>f\<in>set (f # ws). t = Task_timedout f \<and> fs_event (fw_fsm w f) \<noteq> None) \<or> t \<in> Task_signal e ` set (f # ws)" for t
      using IH Cons.prems(1) by (cases t) (auto simp: p)
    show "count_list (fw_tasks (fold (signal_waiter e) ws w1)) (Task_timedout g) \<le> count_list (fw_tasks w) (Task_timedout g)" for g
      by (rule order_trans [OF _ c [of g, folded w1_def]]) (use IH in simp)
  qed (use IH p in simp_all)
qed auto

text \<open>Signalling an event: every waiter gets a task that will resume it.\<close>

lemma inv_event_signal:
  assumes inv: "fsm_inv None w" and ev: "fw_event w e = Some ev" and rw: "fw_rewait w = None"
    and bounds: "fe_value ev + 1 < 2097152" "pending e w + length (waiters w e) < 1024"
  shows "fsm_inv None (silc_fsm_event_signal e w)"
proof -
  define w0 where "w0 = upd_event e (\<lambda>ev. ev\<lparr>fe_value := (fe_value ev + 1) mod 2097152\<rparr>) w"
  define w' where "w' = fold (signal_waiter e) (waiters w e) w0"
  have w0: "fw_fsm w0 = fw_fsm w" "fw_tasks w0 = fw_tasks w" "fw_stack w0 = fw_stack w" "fw_rewait w0 = None"
    "waiters w0 = waiters w" "refcnt w0 = refcnt w" "event_value w0 = (event_value w)(e := event_value w e + 1)" "fw_event w0 e \<noteq> None"
    using ev rw bounds(1) by (auto simp: w0_def upd_event_views waiters_def refcnt_def event_value_def)
  have d: "distinct (waiters w e)" using inv by (simp add: fsm_inv_def inv_waiters_def)
  have ref: "refcnt w e + length (waiters w e) < 1024" "pending x w = refcnt w x" "refcnt w x < 1024" for x
    using inv bounds(2) by (auto simp: fsm_inv_def inv_refs_def)
  note F = signal_fold [OF d w0(8), unfolded w0(6), OF ref(1), folded w'_def]
  have fs: "fs_event (fw_fsm w' g) = (if g \<in> set (waiters w e) then None else fs_event (fw_fsm w g))"
    "fs_term_event (fw_fsm w' g) = fs_term_event (fw_fsm w g)" "fs_finished (fw_fsm w' g) = fs_finished (fw_fsm w g)" for g
    using F by (simp_all add: w0)
  have tm: "t \<in> set (fw_tasks w') \<longleftrightarrow>
       t \<in> set (fw_tasks w) \<and> \<not> (\<exists>f\<in>set (waiters w e). t = Task_timedout f \<and> fs_event (fw_fsm w f) \<noteq> None) \<or> t \<in> Task_signal e ` set (waiters w e)" for t
    using F by (simp add: w0)
  have v: "waiters w' = waiters w" "event_value w' = (event_value w)(e := event_value w e + 1)" "fw_stack w' = fw_stack w" "fw_rewait w' = None"
    "refcnt w' = (refcnt w)(e := refcnt w e + length (waiters w e))"
    using F by (simp_all add: w0)
  have "inv_refs None w'"
    using F ref by (auto simp: inv_refs_def v pending_def w0)
  moreover have "inv_waiters w'" using inv by (simp add: fsm_inv_def inv_waiters_def v)
  moreover have "inv_wakeup w'"
    using inv rw by (auto simp: fsm_inv_def inv_wakeup_def v tm resumed_def split: if_splits)
  moreover have "inv_timeout w'"
  proof -
    have cnt: "count_list (fw_tasks w') (Task_timedout f) \<le> 1" for f
      using F inv by (auto simp: w0 fsm_inv_def inv_timeout_def intro: order_trans)
    have "x \<noteq> e" if "fs_event (fw_fsm w' g) = Some x" for g x
      using that inv_timeoutD [OF inv, of g x] by (auto simp: fs split: if_splits)
    with cnt show ?thesis
      using inv by (auto simp: fsm_inv_def inv_timeout_def v tm fs split: if_splits)
  qed
  moreover have "inv_finished w'"
    using inv by (auto simp: fsm_inv_def inv_finished_def v tm fs waiting_def running_def)
  ultimately show ?thesis by (simp add: fsm_inv_def silc_fsm_event_signal_def w'_def w0_def)
qed

section \<open>References\<close>

lemma inv_unref:
  assumes inv: "fsm_inv (Some e) w" and rw: "fw_rewait w \<noteq> Some e"
  shows "fsm_inv None (silc_fsm_event_unref e w)"
proof -
  define w' where "w' = upd_event e (\<lambda>ev. ev\<lparr>fe_refcnt := (fe_refcnt ev + 1023) mod 1024\<rparr>) w"
  have r: "pending x w + extra (Some e) x = refcnt w x" "refcnt w x < 1024" for x
    using inv by (auto simp: fsm_inv_def inv_refs_def)
  then have pos: "0 < refcnt w e" using r(1) [of e] by (simp add: extra_def)
  then obtain ev where ev: "fw_event w e = Some ev" by (auto simp: refcnt_def split: option.splits)
  have m: "(fe_refcnt ev + 1023) mod 1024 = fe_refcnt ev - 1"
  proof -
    have "0 < fe_refcnt ev" "fe_refcnt ev < 1024" using pos r(2) [of e] ev by (simp_all add: refcnt_def)
    then have "fe_refcnt ev + 1023 = (fe_refcnt ev - 1) + 1024" "fe_refcnt ev - 1 < 1024" by arith+
    then show ?thesis by (metis mod_add_self2 mod_less)
  qed
  have v: "waiters w' = waiters w" "event_value w' = event_value w" "refcnt w' = (refcnt w)(e := refcnt w e - 1)"
    using ev m by (auto simp: w'_def upd_event_views waiters_def event_value_def refcnt_def)
  have p: "pending x w' = pending x w" for x by (simp add: pending_def w'_def)
  have x: "pending y w' + extra None y = refcnt w' y \<and> refcnt w' y < 1024" for y
    using r(1) [of y] r(2) [of y] by (cases "y = e") (auto simp: v p extra_def)
  have "inv_refs None w'" unfolding inv_refs_def using x by blast
  moreover have "inv_waiters w'" "inv_wakeup w'" "inv_timeout w'" "inv_finished w'"
    using inv by (simp_all add: fsm_inv_def inv_defs v waiting_def running_def resumed_def) (simp_all add: w'_def)
  ultimately have "fsm_inv None w'" by (simp add: fsm_inv_def)
  moreover have "fw_rewait w' \<noteq> Some e" using rw by (simp add: w'_def)
  ultimately show ?thesis
    using inv_event_free [of None w' e] ev by (simp add: silc_fsm_event_unref_def w'_def Let_def)
qed

text \<open>The end of a turn: the frame is popped, its event is about to be unreferenced.\<close>

lemma inv_pop:
  assumes inv: "fsm_inv None w" and st: "fw_stack w = (f, u) # st" and rw: "fw_rewait w = None"
  shows "fsm_inv u (w\<lparr>fw_stack := st\<rparr>)"
proof -
  have "pending e w = pending e (w\<lparr>fw_stack := st\<rparr>) + extra u e" for e
    by (simp add: pending_def st extra_def)
  then have "inv_refs u (w\<lparr>fw_stack := st\<rparr>)" using inv by (simp add: fsm_inv_def inv_refs_def)
  moreover have "inv_waiters (w\<lparr>fw_stack := st\<rparr>)" "inv_wakeup (w\<lparr>fw_stack := st\<rparr>)" "inv_timeout (w\<lparr>fw_stack := st\<rparr>)"
    using inv rw by (simp_all add: fsm_inv_def inv_defs resumed_def)
  moreover have "inv_finished (w\<lparr>fw_stack := st\<rparr>)"
    using inv by (simp add: fsm_inv_def inv_finished_def waiting_def running_def st)
  ultimately show ?thesis by (simp add: fsm_inv_def)
qed

section \<open>The delivery of a signal\<close>

lemma remove1_signal:
  assumes "Task_signal e f \<in> set ts"
  shows "length (filter (is_signal x) ts) = length (filter (is_signal x) (remove1 (Task_signal e f) ts)) + (if x = e then 1 else 0)"
  using assms by (induction ts) auto

lemma inv_signal_drop:
  assumes inv: "fsm_inv None w" and t: "Task_signal e f \<in> set (fw_tasks w)" and "fw_rewait w = None"
    and no: "event_value w e = 0 \<or> f \<notin> set (waiters w e)"
  shows "fsm_inv (Some e) (w\<lparr>fw_tasks := remove1 (Task_signal e f) (fw_tasks w)\<rparr>)" (is "fsm_inv _ ?w")
proof -
  have p: "pending x w = pending x ?w + extra (Some e) x" for x
    using remove1_signal [OF t, of x] by (simp add: pending_def extra_def)
  have k: "y \<in> set (remove1 (Task_signal e f) ts) \<longleftrightarrow> y \<in> set ts" if "y \<noteq> Task_signal e f" for y ts
    using that by (simp add: in_set_remove1)
  have "inv_refs (Some e) ?w" using inv by (simp add: fsm_inv_def inv_refs_def p)
  moreover have "inv_waiters ?w" using inv by (simp add: fsm_inv_def inv_waiters_def)
  moreover have "inv_wakeup ?w"
  proof -
    have "Task_signal x g \<in> set (fw_tasks ?w) \<or> resumed ?w x g" if "0 < event_value w x" "g \<in> set (waiters w x)" for x g
    proof -
      have "Task_signal x g \<noteq> Task_signal e f" using that no by auto
      moreover have "Task_signal x g \<in> set (fw_tasks w) \<or> resumed w x g" using inv that by (simp add: fsm_inv_def inv_wakeup_def)
      ultimately show ?thesis by (simp add: resumed_def k)
    qed
    then show ?thesis using assms(3) by (simp add: inv_wakeup_def)
  qed
  moreover have "inv_timeout ?w" using inv by (simp add: fsm_inv_def inv_timeout_def k)
  moreover have "inv_finished ?w" using inv by (simp add: fsm_inv_def inv_finished_def waiting_def running_def k)
  ultimately show ?thesis by (simp add: fsm_inv_def)
qed

lemma inv_signal_push:
  assumes inv: "fsm_inv None w" and t: "Task_signal e f \<in> set (fw_tasks w)" and rw: "fw_rewait w = None"
    and pos: "0 < event_value w e" and f: "f \<in> set (waiters w e)"
  shows "fsm_inv None (w\<lparr>fw_tasks := remove1 (Task_signal e f) (fw_tasks w), fw_stack := (f, Some e) # fw_stack w, fw_rewait := Some e\<rparr>)"
    (is "fsm_inv _ ?w")
proof -
  have p: "pending x w = pending x ?w" for x
    using remove1_signal [OF t, of x] by (simp add: pending_def)
  have k: "y \<in> set (remove1 (Task_signal e f) ts) \<longleftrightarrow> y \<in> set ts" if "y \<noteq> Task_signal e f" for y ts
    using that by (simp add: in_set_remove1)
  have res: "resumed ?w e f" by (simp add: resumed_def)
  have "inv_refs None ?w" using inv by (simp add: fsm_inv_def inv_refs_def p)
  moreover have "inv_waiters ?w" using inv by (simp add: fsm_inv_def inv_waiters_def)
  moreover have "inv_wakeup ?w"
  proof -
    have "Task_signal x g \<in> set (fw_tasks ?w) \<or> resumed ?w x g" if "0 < event_value w x" "g \<in> set (waiters w x)" for x g
    proof -
      have "Task_signal x g \<in> set (fw_tasks w)" using inv rw that by (simp add: fsm_inv_def inv_wakeup_def resumed_def)
      then show ?thesis using res by (cases "Task_signal x g = Task_signal e f") (simp_all add: k)
    qed
    then show ?thesis using res pos f by (auto simp: inv_wakeup_def)
  qed
  moreover have "inv_timeout ?w" using inv by (simp add: fsm_inv_def inv_timeout_def k)
  moreover have "inv_finished ?w"
    using inv waiting_not_finished [OF inv f] by (auto simp: fsm_inv_def inv_finished_def waiting_def running_def k)
  ultimately show ?thesis by (simp add: fsm_inv_def)
qed

lemma inv_signal:
  assumes inv: "fsm_inv None w" and t: "Task_signal e f \<in> set (fw_tasks w)" and rw: "fw_rewait w = None"
  shows "fsm_inv None (silc_fsm_signal e f (w\<lparr>fw_tasks := remove1 (Task_signal e f) (fw_tasks w)\<rparr>))"
proof (cases "event_value w e = 0 \<or> f \<notin> set (waiters w e)")
  case True
  then show ?thesis using inv_unref [OF inv_signal_drop [OF assms True]] rw by (auto simp: silc_fsm_signal_def)
next
  case False
  define w0 where "w0 = cancel_later f w"
  have "Task_signal e f \<in> set (fw_tasks w0)" using t by (simp add: w0_def cancel_later_def)
  with False have "fsm_inv None (w0\<lparr>fw_tasks := remove1 (Task_signal e f) (fw_tasks w0), fw_stack := (f, Some e) # fw_stack w0, fw_rewait := Some e\<rparr>)"
    by (intro inv_signal_push) (simp_all add: w0_def inv inv_cancel_later rw)
  moreover have "silc_fsm_signal e f (w\<lparr>fw_tasks := remove1 (Task_signal e f) (fw_tasks w)\<rparr>) =
    w0\<lparr>fw_tasks := remove1 (Task_signal e f) (fw_tasks w0), fw_stack := (f, Some e) # fw_stack w0, fw_rewait := Some e\<rparr>"
    using False
    by (simp add: silc_fsm_signal_def silc_fsm_continue_sync_def silc_fsm_run_def w0_def cancel_later_def upd_fsm_def task_del_def filter_remove1)
  ultimately show ?thesis by simp
qed

section \<open>The end of a machine\<close>

lemma inv_ended [simp]:
  "fsm_inv k (w\<lparr>fw_destroyed := d\<rparr>) = fsm_inv k w" "fsm_inv k (w\<lparr>fw_aborted := b\<rparr>) = fsm_inv k w"
  by (simp_all add: fsm_inv_def inv_defs pending_def waiting_def running_def resumed_def waiters_def event_value_def refcnt_def)

lemma inv_resume_waiter:
  assumes inv: "fsm_inv k w" and rw: "fw_rewait w = None" and t: "fs_term_event (fw_fsm w m) = Some e" and f: "f \<in> set (waiters w e)"
  shows "fsm_inv k (resume_waiter e f w)"
proof -
  have none: "fs_event (fw_fsm w f) = None"
  proof (rule ccontr)
    assume "fs_event (fw_fsm w f) \<noteq> None"
    then obtain x where x: "fs_event (fw_fsm w f) = Some x" by blast
    then have "x = e" using inv_timeoutD [OF inv x] inv_waitersD [OF inv _ f] by blast
    then show False using inv t x by (auto simp: fsm_inv_def inv_timeout_def)
  qed
  then have "Task_timedout f \<notin> set (fw_tasks w)" using inv by (auto simp: fsm_inv_def inv_timeout_def)
  then have "remove1 (Task_timedout f) (fw_tasks w) = fw_tasks w" by (rule remove1_idem)
  moreover have "upd_fsm f (\<lambda>m. m\<lparr>fs_event := None\<rparr>) w = w" using none by (cases "fw_fsm w f") (simp add: upd_fsm_def fun_upd_idem)
  ultimately have "fsm_inv k (upd_event e (\<lambda>ev. ev\<lparr>fe_waiters := remove1 f (fe_waiters ev)\<rparr>) w)"
    using inv_unwait [OF inv rw, of f e] none by simp
  then show ?thesis using waiting_not_finished [OF inv f] by (simp add: resume_waiter_def inv_continue)
qed

lemma continue_proj [simp]:
  "fw_event (silc_fsm_continue f w) = fw_event w" "fw_rewait (silc_fsm_continue f w) = fw_rewait w" "fw_stack (silc_fsm_continue f w) = fw_stack w"
  "waiters (silc_fsm_continue f w) = waiters w" "event_value (silc_fsm_continue f w) = event_value w"
  "fs_term_event (fw_fsm (silc_fsm_continue f w) g) = fs_term_event (fw_fsm w g)"
  "fs_finished (fw_fsm (silc_fsm_continue f w) g) = fs_finished (fw_fsm w g)"
  by (simp_all add: silc_fsm_continue_def)

lemma resume_waiter_proj:
  "fw_rewait (resume_waiter e f w) = fw_rewait w" "fw_stack (resume_waiter e f w) = fw_stack w"
  "waiters (resume_waiter e f w) e = remove1 f (waiters w e)"
  "fs_term_event (fw_fsm (resume_waiter e f w) g) = fs_term_event (fw_fsm w g)"
  by (simp_all add: resume_waiter_def upd_event_views) (simp add: waiters_def split: option.split)

lemma inv_termination:
  assumes "fsm_inv k w" "fw_rewait w = None" "fs_term_event (fw_fsm w m) = Some e" "distinct ws" "set ws \<subseteq> set (waiters w e)"
  shows "fsm_inv k (fold (resume_waiter e) ws w) \<and> fw_rewait (fold (resume_waiter e) ws w) = None"
  using assms
proof (induction ws arbitrary: w)
  case (Cons f ws)
  have sub: "set ws \<subseteq> set (remove1 f (waiters w e))" 
    using Cons.prems by (auto simp: fsm_inv_def inv_waiters_def)
  have "fsm_inv k (resume_waiter e f w)" using Cons.prems by (intro inv_resume_waiter) simp_all
  from Cons.IH [OF this] Cons.prems sub show ?case by (simp add: resume_waiter_proj)
qed simp

lemma inv_finish_fsm:
  assumes inv: "fsm_inv k w" and rw: "fw_rewait w = None"
  shows "fsm_inv k (silc_fsm_finish_fsm f w)"
proof -
  define w0 where "w0 = upd_fsm f (\<lambda>m. m\<lparr>fs_next_state := None\<rparr>) w"
  have w0: "fsm_inv k w0" "fw_rewait w0 = None" unfolding w0_def using inv rw by (auto intro: inv_upd_fsm)
  have te: "fsm_inv k (upd_fsm f (\<lambda>m. m\<lparr>fs_term_event := None\<rparr>) (silc_fsm_event_free e (silc_fsm_thread_termination_signal e w0)))"
    if "fs_term_event (fw_fsm w0 f) = Some e" for e
  proof -
    have "distinct (waiters w0 e)" using w0(1) by (simp add: fsm_inv_def inv_waiters_def)
    note this subset_refl
    note inv_termination [OF w0 that this]
    then show ?thesis
      by (intro inv_upd_fsm inv_event_free) (simp_all add: silc_fsm_thread_termination_signal_def)
  qed
  have d: "fsm_inv k (upd_fsm g (\<lambda>m. m\<lparr>fs_threads := fs_threads m - 1\<rparr>) x)" if "fsm_inv k x" for g x
    using that by (intro inv_upd_fsm) simp_all
  show ?thesis
    using w0 te
    by (auto simp: silc_fsm_finish_fsm_def Let_def w0_def [symmetric] split: option.split intro: d)
qed

lemma inv_mark_finished:
  assumes inv: "fsm_inv k w" and "Task_run f \<notin> set (fw_tasks w)" "\<not> waiting w f" "f \<notin> running w"
    and "\<And>m. fs_event (g m) = fs_event m" "\<And>m. fs_term_event (g m) = fs_term_event m"
  shows "fsm_inv k (upd_fsm f g w)"
proof -
  have "fs_event (fw_fsm (upd_fsm f g w) h) = fs_event (fw_fsm w h)" "fs_term_event (fw_fsm (upd_fsm f g w) h) = fs_term_event (fw_fsm w h)" for h
    by (simp_all add: assms)
  then have "inv_timeout (upd_fsm f g w)"
    using inv unfolding fsm_inv_def inv_timeout_def upd_fsm_proj(2) views(1,2) by metis
  moreover have "inv_finished (upd_fsm f g w)"
    using assms(1-4) by (auto simp: fsm_inv_def inv_finished_def waiting_def running_def)
  ultimately show ?thesis
    using inv by (auto simp: fsm_inv_def inv_refs_def inv_waiters_def inv_wakeup_def pending_def resumed_def)
qed

lemma inv_add_finish: "fsm_inv k w \<Longrightarrow> fsm_inv k (task_add (Task_finish f) w)"
  by (auto simp: fsm_inv_def inv_defs pending_def waiting_def running_def resumed_def)

lemma inv_finish:
  assumes inv: "fsm_inv k w" and rw: "fw_rewait w = None" and "\<not> waiting w f" "f \<notin> running w"
  shows "fsm_inv k (silc_fsm_finish f w)"
proof -
  define w1 where "w1 = upd_fsm f (\<lambda>m. m\<lparr>fs_started := False, fs_finished := True, fs_next_later := False\<rparr>) (task_del (Task_run f) w)"
  have "fsm_inv k w1" unfolding w1_def using assms by (intro inv_mark_finished inv_del_run) (simp_all add: waiting_def running_def)
  moreover have "fw_rewait w1 = None" using rw by (simp add: w1_def)
  moreover have "upd_fsm f (\<lambda>m. m\<lparr>fs_next_later := False\<rparr>) (task_del (Task_run f) (upd_fsm f (\<lambda>m. m\<lparr>fs_started := False, fs_finished := True\<rparr>) w)) = w1"
    by (simp add: w1_def upd_fsm_def task_del_def)
  ultimately show ?thesis by (simp add: silc_fsm_finish_def Let_def inv_finish_fsm inv_add_finish)
qed

end
