(* ===== verification/Silc_Fsm_Steps.thy ===== *)
theory Silc_Fsm_Steps
  imports Silc_Fsm_Inv
begin

text \<open>
  The state machine runtime as a transition system: the tasks the scheduler executes, the calls of the
  users of the library, the worlds that can be reached, and the properties they all have.
\<close>

section \<open>The steps of the library\<close>

text \<open>The callbacks the scheduler executes.\<close>

definition run_task :: "fsm_task \<Rightarrow> fsm_world \<Rightarrow> fsm_world option" where
  "run_task t w =
     (case t of
        Task_run f \<Rightarrow> Some (silc_fsm_run f None w)
      | Task_finish f \<Rightarrow> Some (silc_fsm_finish_fsm f w)
      | Task_signal e f \<Rightarrow> Some (silc_fsm_signal e f w)
      | Task_timedout f \<Rightarrow> silc_fsm_event_timedout f w)"

definition taken :: "fsm_task \<Rightarrow> fsm_world \<Rightarrow> fsm_world" where
  "taken t w = w\<lparr>fw_tasks := remove1 t (fw_tasks w)\<rparr>"

lemma inv_idle: "fsm_inv k w \<Longrightarrow> fw_stack w = [] \<Longrightarrow> fw_rewait w = None"
  by (cases "fw_rewait w") (auto simp: fsm_inv_def inv_wakeup_def resumed_def)

lemma inv_run_task:
  assumes inv: "fsm_inv None w" and st: "fw_stack w = []" and t: "t \<in> set (fw_tasks w)"
  shows "\<exists>w'. run_task t (taken t w) = Some w' \<and> fsm_inv None w'"
proof -
  have rw: "fw_rewait w = None" using inv st by (rule inv_idle)
  have r: "fsm_inv None (taken t w)" if "\<And>e. \<not> is_signal e t" using inv that unfolding taken_def by (rule inv_remove_task)
  show ?thesis
  proof (cases t)
    case (Task_run f)
    then have "\<not> fs_finished (fw_fsm w f)" using inv t by (auto simp: fsm_inv_def inv_finished_def)
    then show ?thesis using Task_run r rw by (simp add: run_task_def inv_run taken_def)
  next
    case (Task_finish f)
    then show ?thesis using r rw by (simp add: run_task_def inv_finish_fsm taken_def)
  next
    case (Task_signal e f)
    then show ?thesis using inv_signal [OF inv _ rw] t by (simp add: run_task_def taken_def)
  next
    case (Task_timedout f)
    then show ?thesis using inv_timedout [OF inv rw] t by (simp add: run_task_def taken_def)
  qed
qed

text \<open>
  A step of the process: the scheduler executes a task when no state function is being executed, or
  a function of the library is called, by the state function on the top of the stack or by another
  callback. The conditions are those the documentation of the library puts on its users: a machine
  waits for one event at a time and only from its own state function, a finished machine is
  started again before it is continued, a state function resumed by an event waits for that event
  again, and a machine that waits for an event returns \<open>SILC_FSM_WAIT\<close>.
\<close>

inductive fsm_step :: "fsm_world \<Rightarrow> fsm_world \<Rightarrow> bool" where
  dispatch: "fw_stack w = [] \<Longrightarrow> t \<in> set (fw_tasks w) \<Longrightarrow> run_task t (taken t w) = Some w' \<Longrightarrow> fsm_step w w'"
| machine_init: "fsm_step w (snd (silc_fsm_init f s w))"
| thread_init: "fsm_step w (silc_fsm_thread_init t f w)"
| start: "fsm_step w (silc_fsm_start f st w)"
| start_sync: "fw_rewait w = None \<Longrightarrow> fsm_step w (silc_fsm_start_sync f st w)"
| next_state: "fsm_step w (silc_fsm_next f st w)"
| next_later: "\<not> fs_finished (fw_fsm w f) \<Longrightarrow> fsm_step w (silc_fsm_next_later f st s us w)"
| continue: "\<not> fs_finished (fw_fsm w f) \<Longrightarrow> fsm_step w (silc_fsm_continue f w)"
| continue_sync: "\<not> fs_finished (fw_fsm w f) \<Longrightarrow> fw_rewait w = None \<Longrightarrow> fsm_step w (silc_fsm_continue_sync f None w)"
| event_init: "fw_event w e = None \<Longrightarrow> fsm_step w (silc_fsm_event_init e a w)"
| event_free: "fw_rewait w \<noteq> Some e \<Longrightarrow> fsm_step w (silc_fsm_event_free e w)"
| event_wait: "fw_stack w = (f, u) # st \<Longrightarrow> fw_rewait w = None \<Longrightarrow> fw_event w e \<noteq> None \<Longrightarrow> \<not> waiting w f \<Longrightarrow>
    fsm_step w (snd (silc_fsm_event_wait e f w))"
| event_timedwait: "fw_stack w = (f, u) # st \<Longrightarrow> fw_rewait w = None \<Longrightarrow> fw_event w e \<noteq> None \<Longrightarrow> \<not> waiting w f \<Longrightarrow>
    \<forall>t. fs_term_event (fw_fsm w t) \<noteq> Some e \<Longrightarrow> fsm_step w (snd (snd (silc_fsm_event_timedwait e f w)))"
| rewait: "fw_stack w = (f, u) # st \<Longrightarrow> fw_rewait w = Some e \<Longrightarrow>
    fsm_step w ((snd (silc_fsm_event_wait e f w))\<lparr>fw_rewait := None\<rparr>)"
| rewait_timed: "fw_stack w = (f, u) # st \<Longrightarrow> fw_rewait w = Some e \<Longrightarrow> \<not> fs_event_timedout (fw_fsm w f) \<Longrightarrow>
    fsm_step w ((snd (snd (silc_fsm_event_timedwait e f w)))\<lparr>fw_rewait := None\<rparr>)"
| signal: "fw_rewait w = None \<Longrightarrow> fw_event w e = Some ev \<Longrightarrow> fe_value ev + 1 < 2097152 \<Longrightarrow> pending e w + length (waiters w e) < 1024 \<Longrightarrow>
    fsm_step w (silc_fsm_event_signal e w)"
| thread_wait: "fw_stack w = (f, u) # st \<Longrightarrow> fw_rewait w = None \<Longrightarrow> fw_event w e = None \<Longrightarrow> \<not> waiting w f \<Longrightarrow>
    fsm_step w (silc_fsm_thread_wait f t e w)"
| return: "fw_stack w = (f, u) # st \<Longrightarrow> fw_rewait w = None \<Longrightarrow>
    (status = SILC_FSM_ST_FINISH \<Longrightarrow> \<not> waiting w f \<and> f \<notin> fst ` set st) \<Longrightarrow> fsm_step w (run_return status w)"

inductive fsm_reachable :: "fsm_world \<Rightarrow> fsm_world \<Rightarrow> bool" for w0 where
  here: "fsm_reachable w0 w0"
| more: "fsm_reachable w0 w \<Longrightarrow> \<not> fw_aborted w \<Longrightarrow> fsm_step w w' \<Longrightarrow> fsm_reachable w0 w'"

text \<open>Before the first step there are no tasks, no events and no state function is executed.\<close>

definition fsm_idle_world :: fsm_world where
  "fsm_idle_world = \<lparr>fw_fsm = (\<lambda>_. \<lparr>fs_next_state = None, fs_event = None, fs_thread = False, fs_threads = 0, fs_machine = 0,
     fs_term_event = None, fs_finished = False, fs_event_timedout = False, fs_synchronous = False, fs_next_later = False,
     fs_started = False\<rparr>), fw_event = (\<lambda>_. None), fw_tasks = [], fw_stack = [], fw_rewait = None, fw_destroyed = [], fw_aborted = False\<rparr>"

lemma inv_idle_world: "fsm_inv None fsm_idle_world"
  by (simp add: fsm_idle_world_def fsm_inv_def inv_defs pending_def refcnt_def waiters_def event_value_def waiting_def running_def resumed_def)

lemma running_not_finished: "fsm_inv k w \<Longrightarrow> fw_stack w = (f, u) # st \<Longrightarrow> \<not> fs_finished (fw_fsm w f)"
  by (auto simp: fsm_inv_def inv_finished_def running_def)

lemma inv_thread_wait:
  assumes inv: "fsm_inv k w" and "fw_rewait w = None" "fw_event w e = None" "\<not> waiting w f" "\<not> fs_finished (fw_fsm w f)"
  shows "fsm_inv k (silc_fsm_thread_wait f t e w)"
proof -
  define w1 where "w1 = silc_fsm_event_init e True w"
  have w1: "fsm_inv k w1" "fw_rewait w1 = None" "fw_event w1 e \<noteq> None" "\<not> waiting w1 f" "\<not> fs_finished (fw_fsm w1 f)"
    "fw_fsm w1 = fw_fsm w" "waiters w1 e = []"
    using assms inv_event_init [OF inv assms(3)]
    by (auto simp: w1_def silc_fsm_event_init_def waiting_def waiters_def split: if_splits)
  have "fs_event (fw_fsm w1 g) \<noteq> Some e" for g using inv_timeoutD [OF w1(1), of g e] w1(7) by auto
  then have "inv_timeout (upd_fsm t (\<lambda>m. m\<lparr>fs_term_event := Some e\<rparr>) w1)"
    using w1(1) by (auto simp: fsm_inv_def inv_timeout_def)
  moreover have "inv_finished (upd_fsm t (\<lambda>m. m\<lparr>fs_term_event := Some e\<rparr>) w1)"
    using w1(1) by (auto simp: fsm_inv_def inv_finished_def waiting_def running_def)
  ultimately have "fsm_inv k (upd_fsm t (\<lambda>m. m\<lparr>fs_term_event := Some e\<rparr>) w1)"
    using w1(1) by (simp add: fsm_inv_def inv_refs_def inv_waiters_def inv_wakeup_def pending_def resumed_def)
  then show ?thesis
    unfolding silc_fsm_thread_wait_def w1_def [symmetric] using w1 by (intro inv_event_wait) (auto simp: waiting_def)
qed

text \<open>The stack is not read by the end of a machine.\<close>

lemma stack_commute:
  "upd_fsm f g (w\<lparr>fw_stack := st\<rparr>) = (upd_fsm f g w)\<lparr>fw_stack := st\<rparr>" "upd_event e h (w\<lparr>fw_stack := st\<rparr>) = (upd_event e h w)\<lparr>fw_stack := st\<rparr>"
  "task_add t (w\<lparr>fw_stack := st\<rparr>) = (task_add t w)\<lparr>fw_stack := st\<rparr>" "task_del t (w\<lparr>fw_stack := st\<rparr>) = (task_del t w)\<lparr>fw_stack := st\<rparr>"
  "cancel_later f (w\<lparr>fw_stack := st\<rparr>) = (cancel_later f w)\<lparr>fw_stack := st\<rparr>"
  "silc_fsm_event_free e (w\<lparr>fw_stack := st\<rparr>) = (silc_fsm_event_free e w)\<lparr>fw_stack := st\<rparr>"
  by (simp_all add: upd_fsm_def upd_event_def task_add_def task_del_def cancel_later_def silc_fsm_event_free_def split: option.split)

lemma resume_stack: "fold (resume_waiter e) ws (w\<lparr>fw_stack := st\<rparr>) = (fold (resume_waiter e) ws w)\<lparr>fw_stack := st\<rparr>"
  by (induction ws arbitrary: w) (simp_all add: resume_waiter_def silc_fsm_continue_def stack_commute)

lemma finish_stack: "silc_fsm_finish f (w\<lparr>fw_stack := st\<rparr>) = (silc_fsm_finish f w)\<lparr>fw_stack := st\<rparr>"
proof -
  have "silc_fsm_finish_fsm f (w\<lparr>fw_stack := st\<rparr>) = (silc_fsm_finish_fsm f w)\<lparr>fw_stack := st\<rparr>" for w
    unfolding silc_fsm_finish_fsm_def Let_def silc_fsm_thread_termination_signal_def
    by (simp add: stack_commute resume_stack split: option.split)
  then show ?thesis by (simp add: silc_fsm_finish_def stack_commute Let_def)
qed

lemma event_free_proj: "fw_rewait (silc_fsm_event_free e w) = fw_rewait w"
  by (simp add: silc_fsm_event_free_def split: option.split)

lemma finish_rewait: "fw_rewait (silc_fsm_finish f w) = fw_rewait w"
proof -
  have "fw_rewait (fold (resume_waiter e) ws w) = fw_rewait w" for e ws w
    by (induction ws arbitrary: w) (simp_all add: resume_waiter_proj)
  then have "fw_rewait (silc_fsm_finish_fsm f w) = fw_rewait w" for w
    by (simp add: silc_fsm_finish_fsm_def Let_def silc_fsm_thread_termination_signal_def event_free_proj split: option.split)
  then show ?thesis by (simp add: silc_fsm_finish_def Let_def)
qed

lemma inv_return:
  assumes inv: "fsm_inv None w" and st: "fw_stack w = (f, u) # st" and rw: "fw_rewait w = None"
    and fin: "status = SILC_FSM_ST_FINISH \<Longrightarrow> \<not> waiting w f \<and> f \<notin> fst ` set st"
  shows "fsm_inv None (run_return status w)"
proof -
  have nf: "\<not> fs_finished (fw_fsm w f)" using inv st by (rule running_not_finished)
  have u: "fsm_inv None (case u of None \<Rightarrow> x | Some e \<Rightarrow> silc_fsm_event_unref e x)" if "fsm_inv u x" "fw_rewait x = None" for x
    using that by (auto intro: inv_unref split: option.split)
  have p: "fsm_inv u (w\<lparr>fw_stack := st\<rparr>)" using inv st rw by (rule inv_pop)
  show ?thesis
  proof (cases status)
    case SILC_FSM_ST_CONTINUE
    then show ?thesis using inv st by (simp add: run_return_def Let_def)
  next
    case SILC_FSM_ST_YIELD
    have "fsm_inv u ((silc_fsm_continue f w)\<lparr>fw_stack := st\<rparr>)"
      using inv_continue [OF p, of f] nf by (simp add: silc_fsm_continue_def stack_commute)
    then show ?thesis using SILC_FSM_ST_YIELD u rw st by (simp add: run_return_def Let_def)
  next
    case SILC_FSM_ST_WAIT
    have "fsm_inv u ((upd_fsm f (\<lambda>m. m\<lparr>fs_synchronous := False\<rparr>) w)\<lparr>fw_stack := st\<rparr>)"
      unfolding stack_commute [symmetric] using p by (intro inv_upd_fsm) simp_all
    then show ?thesis using SILC_FSM_ST_WAIT u rw st by (simp add: run_return_def Let_def)
  next
    case SILC_FSM_ST_FINISH
    have "fsm_inv u (silc_fsm_finish f (w\<lparr>fw_stack := st\<rparr>))"
      using p rw fin [OF SILC_FSM_ST_FINISH] by (intro inv_finish) (auto simp: waiting_def running_def)
    then show ?thesis using SILC_FSM_ST_FINISH u rw st by (simp add: run_return_def Let_def finish_stack finish_rewait)
  qed
qed

lemma inv_step: "fsm_step w w' \<Longrightarrow> fsm_inv None w \<Longrightarrow> fsm_inv None w'"
proof (induction rule: fsm_step.induct)
  case (dispatch w t w')
  then show ?case using inv_run_task [of w t] by auto
next
  case (machine_init w f s)
  then show ?case by (auto simp: silc_fsm_init_def intro!: inv_upd_fsm)
next
  case (thread_init w t f)
  then show ?case by (auto simp: silc_fsm_thread_init_def intro!: inv_upd_fsm)
next
  case (start w f st)
  then show ?case by (auto simp: silc_fsm_start_def started_in_def intro!: inv_add_run inv_upd_fsm)
next
  case (start_sync w f st)
  then show ?case by (auto simp: silc_fsm_start_sync_def started_in_def intro!: inv_run inv_upd_fsm)
next
  case (next_state w f st)
  then show ?case by (auto simp: silc_fsm_next_def intro!: inv_upd_fsm)
next
  case (next_later w f st s us)
  then show ?case by (auto simp: silc_fsm_next_later_def silc_fsm_next_def Let_def intro!: inv_add_run inv_upd_fsm)
next
  case (rewait w f u st e)
  then show ?case by (auto intro: inv_rewait)
next
  case (rewait_timed w f u st e)
  have "0 < event_value w e" using rewait_timed by (auto simp: fsm_inv_def inv_wakeup_def)
  then have "snd (snd (silc_fsm_event_timedwait e f w)) = snd (silc_fsm_event_wait e f w)"
    using rewait_timed(3) by (simp add: timedwait_eq)
  then show ?case using rewait_timed by (auto intro: inv_rewait)
next
  case (return w f u st status)
  then show ?case by (intro inv_return) auto
qed (auto intro: inv_continue inv_continue_sync inv_event_init inv_event_free inv_event_wait inv_timedwait inv_event_signal inv_thread_wait
    dest: running_not_finished)

lemma inv_reachable: "fsm_reachable fsm_idle_world w \<Longrightarrow> fsm_inv None w"
  by (induction rule: fsm_reachable.induct) (auto intro: inv_idle_world inv_step)

section \<open>A signal wakes up every waiter\<close>

lemma unref_views:
  "waiters (silc_fsm_event_unref e w) = waiters w"
  "waiters w e \<noteq> [] \<Longrightarrow> event_value (silc_fsm_event_unref e w) = event_value w"
  "fw_stack (silc_fsm_event_unref e w) = fw_stack w" "fw_aborted (silc_fsm_event_unref e w) = fw_aborted w"
  by (auto simp: silc_fsm_event_unref_def silc_fsm_event_free_def Let_def fun_eq_iff waiters_def event_value_def upd_event_def
      split: option.splits if_splits)

lemma cancel_aborted [simp]: "fw_aborted (cancel_later f w) = fw_aborted w"
  by (simp add: cancel_later_def upd_fsm_def task_del_def)

text \<open>The turn of one waiter: its signal is delivered, its wait returns, and it waits for something else.\<close>

lemma serve_waiter:
  assumes inv: "fsm_inv None w" and st: "fw_stack w = []" and na: "\<not> fw_aborted w"
    and pos: "0 < event_value w e" and f: "f \<in> set (waiters w e)"
  shows "\<exists>w'. (\<forall>w0. fsm_reachable w0 w \<longrightarrow> fsm_reachable w0 w') \<and> fsm_inv None w' \<and> fw_stack w' = [] \<and> \<not> fw_aborted w'
    \<and> waiters w' e = remove1 f (waiters w e) \<and> (waiters w' e \<noteq> [] \<longrightarrow> 0 < event_value w' e)"
proof -
  have rw: "fw_rewait w = None" using inv st by (rule inv_idle)
  have t: "Task_signal e f \<in> set (fw_tasks w)" using inv pos f st by (auto simp: fsm_inv_def inv_wakeup_def resumed_def)
  define w1 where "w1 = silc_fsm_signal e f (taken (Task_signal e f) w)"
  have w1: "fw_stack w1 = [(f, Some e)]" "fw_rewait w1 = Some e" "waiters w1 = waiters w" "event_value w1 = event_value w" "\<not> fw_aborted w1"
    using pos f st na by (simp_all add: w1_def taken_def silc_fsm_signal_def silc_fsm_continue_sync_def silc_fsm_run_def)
  have i1: "fsm_inv None w1" unfolding w1_def taken_def using inv t rw by (rule inv_signal)
  have s1: "fsm_step w w1" using dispatch [OF st t] by (simp add: run_task_def w1_def)
  define w2 where "w2 = (snd (silc_fsm_event_wait e f w1))\<lparr>fw_rewait := None\<rparr>"
  have s2: "fsm_step w1 w2" unfolding w2_def using w1(1,2) by (rule rewait)
  have i2: "fsm_inv None w2" using s2 i1 by (rule inv_step)
  have "f \<in> set (waiters w1 e)" using f w1(3) by simp
  then obtain ev where "fw_event w1 e = Some ev" by (cases "fw_event w1 e") (simp_all add: waiters_def)
  moreover from this have "waiters w1 e = fe_waiters ev" "event_value w1 e = fe_value ev" by (simp_all add: waiters_def event_value_def)
  ultimately have ev: "fw_event w1 e = Some ev" "fe_waiters ev = waiters w e" "fe_value ev = event_value w e" by (simp_all add: w1)
  have w2: "fw_stack w2 = [(f, Some e)]" "fw_rewait w2 = None" "\<not> fw_aborted w2" "waiters w2 e = remove1 f (waiters w e)"
    "waiters w2 e \<noteq> [] \<Longrightarrow> 0 < event_value w2 e"
    using w1 pos ev by (simp_all add: w2_def silc_fsm_event_wait_def upd_event_views Let_def split: if_splits) (simp add: upd_event_def)
  define w3 where "w3 = run_return SILC_FSM_ST_WAIT w2"
  have s3: "fsm_step w2 w3" unfolding w3_def using w2(1,2) by (rule return) simp
  have i3: "fsm_inv None w3" using s3 i2 by (rule inv_step)
  define x where "x = (upd_fsm f (\<lambda>m. m\<lparr>fs_synchronous := False\<rparr>) w2)\<lparr>fw_stack := []\<rparr>"
  have x: "waiters x = waiters w2" "event_value x = event_value w2" "fw_stack x = []" "fw_aborted x = fw_aborted w2"
    unfolding x_def by simp_all (simp add: upd_fsm_def)
  have "w3 = silc_fsm_event_unref e x" using w2(1) by (simp add: w3_def run_return_def Let_def x_def)
  then have "fw_stack w3 = [] \<and> \<not> fw_aborted w3 \<and> waiters w3 e = remove1 f (waiters w e) \<and> (waiters w3 e \<noteq> [] \<longrightarrow> 0 < event_value w3 e)"
    using x w2(3-5) unref_views [where e = e and w = x] by auto
  moreover have "fsm_reachable w0 w3" if "fsm_reachable w0 w" for w0
    by (rule fsm_reachable.more [OF fsm_reachable.more [OF fsm_reachable.more [OF that na s1] w1(5) s2] w2(3) s3])
  ultimately show ?thesis using i3 by blast
qed

lemma serve_all:
  assumes "fsm_inv None w" "fw_stack w = []" "\<not> fw_aborted w" "waiters w e \<noteq> [] \<longrightarrow> 0 < event_value w e"
  shows "\<exists>w'. (\<forall>w0. fsm_reachable w0 w \<longrightarrow> fsm_reachable w0 w') \<and> fw_stack w' = [] \<and> waiters w' e = []"
  using assms
proof (induction "length (waiters w e)" arbitrary: w)
  case (Suc n)
  then obtain f where f: "f \<in> set (waiters w e)" by (cases "waiters w e") auto
  then obtain w1 where w1: "\<forall>w0. fsm_reachable w0 w \<longrightarrow> fsm_reachable w0 w1" "fsm_inv None w1" "fw_stack w1 = []" "\<not> fw_aborted w1"
    "waiters w1 e = remove1 f (waiters w e)" "waiters w1 e \<noteq> [] \<longrightarrow> 0 < event_value w1 e"
    using serve_waiter [of w e f] Suc.prems by auto
  then have "n = length (waiters w1 e)" using Suc.hyps(2) f by (simp add: length_remove1)
  from Suc.hyps(1) [OF this w1(2-4) w1(6)] w1(1) show ?case by blast
qed auto

section \<open>Properties\<close>



text \<open>A machine that waits for an event which is then signalled.\<close>

definition fsm_demo :: fsm_world where
  "fsm_demo =
     silc_fsm_event_signal 0 (run_return SILC_FSM_ST_WAIT (snd (silc_fsm_event_wait 0 7
       (the (run_task (Task_run 7) (taken (Task_run 7) (silc_fsm_start 7 1 (silc_fsm_event_init 0 False fsm_idle_world))))))))"

lemmas fsm_eval = fsm_idle_world_def silc_fsm_event_init_def silc_fsm_start_def started_in_def task_add_def task_del_def upd_fsm_def upd_event_def
  taken_def run_task_def silc_fsm_run_def silc_fsm_event_wait_def event_value_def run_return_def silc_fsm_event_signal_def waiters_def
  signal_waiter_def silc_fsm_event_ref_def pending_def waiting_def

lemma fsm_demo_reachable: "fsm_reachable fsm_idle_world fsm_demo"
proof -
  define w1 where "w1 = silc_fsm_event_init 0 False fsm_idle_world"
  define w2 where "w2 = silc_fsm_start 7 1 w1"
  define w3 where "w3 = the (run_task (Task_run 7) (taken (Task_run 7) w2))"
  define w4 where "w4 = snd (silc_fsm_event_wait 0 7 w3)"
  define w5 where "w5 = run_return SILC_FSM_ST_WAIT w4"
  note ds = w5_def w4_def w3_def w2_def w1_def
  have "fsm_step fsm_idle_world w1" unfolding w1_def by (rule event_init) (simp add: fsm_idle_world_def)
  moreover have "fsm_step w1 w2" unfolding w2_def by (rule start)
  moreover have "fsm_step w2 w3" by (rule dispatch [where t = "Task_run 7"]) (simp_all add: ds fsm_eval)
  moreover have "fsm_step w3 w4" unfolding w4_def by (rule event_wait [where u = None and st = "[]"]) (auto simp: ds fsm_eval)
  moreover have "fsm_step w4 w5" unfolding w5_def by (rule return [where u = None and st = "[]" and f = 7]) (simp_all add: ds fsm_eval)
  moreover have "fsm_step w5 fsm_demo"
    unfolding fsm_demo_def ds [symmetric]
    by (rule signal [where ev = "\<lparr>fe_waiters = [7], fe_value = 0, fe_refcnt = 0, fe_allocated = False\<rparr>"]) (simp_all add: ds fsm_eval)
  moreover have "\<not> fw_aborted fsm_idle_world" "\<not> fw_aborted w1" "\<not> fw_aborted w2" "\<not> fw_aborted w3" "\<not> fw_aborted w4" "\<not> fw_aborted w5"
    by (simp_all add: ds fsm_eval)
  ultimately show ?thesis by (meson fsm_reachable.intros)
qed



end
