(* ===== verification/Silc_Message.thy ===== *)
theory Silc_Message
  imports Silc_Cipher Silc_Hmac Silc_Id
begin

text \<open>
  \<open>lib/silccore/silcmessage.c\<close>: the Message Payload of channel and private messages: its length
  limits, its encoding with padding, signature, initial vector, encryption and MAC, and its
  verification, decryption and parsing. Public key operations (\<open>lib/silccrypt/silcpkcs.c\<close>) are the
  functions of the key records.
\<close>

section \<open>Keys, flags and payloads\<close>

text \<open>
  The length of a key in bits, its type, its encoding, signing and verifying with a hash function;
  \<open>puk_verify\<close> is given the signature and the data.
\<close>

record silc_public_key =
  puk_len :: nat
  puk_encode :: "bytes option"
  puk_verify :: "bytes \<Rightarrow> bytes \<Rightarrow> bool"

record silc_private_key =
  prk_len :: nat
  prk_type :: u16
  prk_sign :: "bytes \<Rightarrow> bytes option"

definition SILC_MESSAGE_FLAG_SIGNED :: u16 where "SILC_MESSAGE_FLAG_SIGNED = 0x0020"

record silc_message_signed =
  sg_pk_data :: "bytes option"
  sg_sign_data :: "bytes option"
  sg_pk_len :: u16
  sg_pk_type :: u16
  sg_sign_len :: u16

record silc_message =
  ms_data :: "bytes option"
  ms_pad :: "bytes option"
  ms_mac :: "bytes option"
  ms_sig :: silc_message_signed
  ms_flags :: u16
  ms_data_len :: u16
  ms_pad_len :: u16

definition no_signature :: silc_message_signed where
  "no_signature = \<lparr>sg_pk_data = None, sg_sign_data = None, sg_pk_len = 0, sg_pk_type = 0, sg_sign_len = 0\<rparr>"

definition SILC_MESSAGE_PAD :: "nat \<Rightarrow> nat" where
  "SILC_MESSAGE_PAD payloadlen = 16 - payloadlen mod 16"

text \<open>
  \<open>SILC_MESSAGE_HLEN\<close> is \<open>6 + 16\<close> and \<open>SILC_MESSAGE_MAX_LEN\<close> is
  \<open>SILC_PACKET_MAX_LEN - SILC_MESSAGE_HLEN - 16\<close>, without parentheses: what they stand for depends on
  the operators around them.
\<close>

definition message_signed :: "u16 \<Rightarrow> bool" where
  "message_signed flags \<longleftrightarrow> flags AND SILC_MESSAGE_FLAG_SIGNED \<noteq> 0"

text \<open>A private key is given when the message is signed; the code does not check it.\<close>

definition message_key_len :: "u16 \<Rightarrow> silc_public_key option \<Rightarrow> silc_private_key option \<Rightarrow> nat" where
  "message_key_len flags public_key private_key =
     (if message_signed flags
      then (case public_key of None \<Rightarrow> 0 | Some k \<Rightarrow> puk_len k) + (case private_key of None \<Rightarrow> 0 | Some k \<Rightarrow> prk_len k div 8)
      else 0)"

definition silc_message_payload_datalen :: "nat \<Rightarrow> nat \<Rightarrow> u16 \<Rightarrow> silc_public_key option \<Rightarrow> silc_private_key option \<Rightarrow> nat" where
  "silc_message_payload_datalen data_len header_len flags public_key private_key =
     (let dlen = (data_len + 6 + 16 + header_len + message_key_len flags public_key private_key) mod u32_max
      in if 65535 - 6 + 16 - 16 < dlen then sub32 data_len (sub32 (add32 (sub32 (sub32 dlen 65535) 6) 16) 16) else data_len)"

section \<open>Signatures\<close>

definition silc_message_signed_payload_parse :: "bytes \<Rightarrow> silc_message_signed option" where
  "silc_message_signed_payload_parse data =
     with_unformat (silc_buffer_set data) [UNF_UI16_SHORT, UNF_UI16_SHORT] None (\<lambda>buffer vs.
       case vs of
         [V16 pk_len, V16 pk_type] \<Rightarrow>
           (if sub32 (length data) 4 < unat pk_len then None
            else
              with_unformat (fst (silc_buffer_pull buffer 4)) [UNF_DATA_ALLOC (unat pk_len), UNF_UI16_NSTRING_ALLOC] None (\<lambda>buffer vs.
                case vs of
                  [VPtr pk_data, V16 sign_len, VPtr sign_data] \<Rightarrow>
                    (if sub32 (sub32 (silc_buffer_len buffer) (unat pk_len)) 2 < unat sign_len then None
                     else if unat sign_len < 1 then None
                     else Some \<lparr>sg_pk_data = pk_data, sg_sign_data = sign_data, sg_pk_len = pk_len, sg_pk_type = pk_type,
                                sg_sign_len = sign_len\<rparr>)
                | _ \<Rightarrow> None))
       | _ \<Rightarrow> None)"

definition silc_message_signed_encode_data :: "junk \<Rightarrow> bytes \<Rightarrow> bytes option \<Rightarrow> nat \<Rightarrow> u16 \<Rightarrow> silc_buffer option" where
  "silc_message_signed_encode_data J message_payload pk pk_len pk_type =
     (let n = length message_payload
      in case silc_buffer_alloc_size (add32 (add32 n 4) pk_len) of
           None \<Rightarrow> None
         | Some sign \<Rightarrow>
             (let sign = fst (silc_buffer_format J sign [FMT_NSTRING (Some message_payload) n, FMT_SHORT (of_nat pk_len), FMT_SHORT pk_type])
              in if pk \<noteq> None \<and> pk_len \<noteq> 0 then Some (format_body J (add32 n 4) [FMT_NSTRING pk pk_len] sign) else Some sign))"

definition signed_format :: "junk \<Rightarrow> bytes option \<Rightarrow> nat \<Rightarrow> u16 \<Rightarrow> bytes \<Rightarrow> silc_buffer option" where
  "signed_format J pk pk_len pk_type auth_data =
     (case silc_buffer_alloc_size (add32 (add32 4 pk_len) (add32 2 (length auth_data))) of
        None \<Rightarrow> None
      | Some buffer \<Rightarrow>
          (let buffer = fst (silc_buffer_format J buffer [FMT_SHORT (of_nat pk_len), FMT_SHORT pk_type]);
               buffer = (if pk_len \<noteq> 0 \<and> pk \<noteq> None then format_body J 4 [FMT_NSTRING pk pk_len] buffer else buffer)
           in Some (format_body J (add32 4 pk_len)
                [FMT_SHORT (of_nat (length auth_data)), FMT_NSTRING (Some auth_data) (length auth_data)] buffer)))"

definition silc_message_signed_payload_encode ::
    "junk \<Rightarrow> bytes \<Rightarrow> silc_public_key option \<Rightarrow> silc_private_key option \<Rightarrow> bool \<Rightarrow> silc_buffer option" where
  "silc_message_signed_payload_encode J message_payload public_key private_key hash =
     (case private_key of
        None \<Rightarrow> None
      | Some prk \<Rightarrow>
          if message_payload = [] \<or> \<not> hash then None
          else if \<exists>k. public_key = Some k \<and> puk_encode k = None then None
          else
            (let pk = (case public_key of None \<Rightarrow> None | Some k \<Rightarrow> puk_encode k);
                 pk_len = (case pk of None \<Rightarrow> 0 | Some d \<Rightarrow> length d)
             in case silc_message_signed_encode_data J message_payload pk pk_len (prk_type prk) of
                  None \<Rightarrow> None
                | Some sign \<Rightarrow>
                    (case prk_sign prk (sb_bytes sign) of
                       None \<Rightarrow> None
                     | Some auth_data \<Rightarrow> signed_format J pk pk_len (prk_type prk) auth_data)))"

section \<open>Parsing\<close>

text \<open>The MAC over the pieces, and the MAC object afterwards.\<close>

definition message_mac :: "silc_hmac \<Rightarrow> bytes list \<Rightarrow> silc_hmac \<times> bytes" where
  "message_mac hm ds = silc_hmac_final (fold (\<lambda>d hm. silc_hmac_update hm d) ds (silc_hmac_init hm))"

definition message_iv_len :: "silc_cipher \<Rightarrow> bool \<Rightarrow> bool \<Rightarrow> nat" where
  "message_iv_len cipher private_message static_key =
     (if \<not> private_message \<or> (private_message \<and> static_key) then silc_cipher_get_block_len cipher else 0)"

text \<open>
  The MAC of the message, or the one of the old style that does not include the identifiers. The
  result is whether one matches.
\<close>

definition message_check_mac :: "silc_hmac \<Rightarrow> bytes \<Rightarrow> bytes \<Rightarrow> bytes \<Rightarrow> silc_hmac \<times> bool" where
  "message_check_mac hmac data sender_id receiver_id =
     (let mac_len = silc_hmac_len hmac; body = take (length data - mac_len) data; have = drop (length data - mac_len) data;
          (hmac, mac) = message_mac hmac [body, sender_id, receiver_id]
      in if have = mac then (hmac, True)
         else let (hmac, mac) = message_mac hmac [body] in (hmac, have = mac))"

text \<open>
  The initial vector is used where it is in the payload, and is updated there. The result is
  \<open>None\<close> when the area that is decrypted reaches into the vector that is in use or ends behind the
  payload.
\<close>

definition put_iv :: "nat \<Rightarrow> nat \<Rightarrow> bytes \<Rightarrow> bytes \<Rightarrow> bytes" where
  "put_iv iv_len off iv data = (if iv_len = 0 then data else memcpy data off iv)"

definition message_decrypt_rest ::
    "bytes \<Rightarrow> nat \<Rightarrow> nat \<Rightarrow> silc_cipher \<Rightarrow> nat \<Rightarrow> (silc_cipher \<times> bytes \<times> bool) option" where
  "message_decrypt_rest data iv_len off cipher mac_len =
     (let block_len = silc_cipher_get_block_len cipher; len = unat (SILC_GET16_MSB (drop 2 data)); totlen = cast16 (4 + len)
      in if length data < totlen + iv_len + mac_len + 2 then Some (cipher, data, False)
         else
           (let totlen = cast16 (totlen + 2); n = (totlen - block_len) + SILC_MESSAGE_PAD totlen
            in if block_len \<le> totlen then
                 (if length data < block_len + n \<or> iv_len \<noteq> 0 \<and> off < block_len + n then None
                  else
                    (case silc_cipher_decrypt cipher (take n (drop block_len data)) (if iv_len = 0 then None else Some (take 16 (drop off data))) of
                       None \<Rightarrow> Some (cipher, data, False)
                     | Some (cipher, iv, out) \<Rightarrow> Some (cipher, put_iv iv_len off iv (memcpy data block_len out), True)))
               else Some (cipher, data, True)))"

definition silc_message_payload_decrypt ::
    "bytes \<Rightarrow> bool \<Rightarrow> bool \<Rightarrow> silc_cipher \<Rightarrow> silc_hmac \<Rightarrow> bytes \<Rightarrow> bytes \<Rightarrow> bool
     \<Rightarrow> (silc_cipher \<times> silc_hmac \<times> bytes \<times> bool) option" where
  "silc_message_payload_decrypt data private_message static_key cipher hmac sender_id receiver_id check_mac =
     (let mac_len = silc_hmac_len hmac; block_len = silc_cipher_get_block_len cipher;
          iv_len = message_iv_len cipher private_message static_key
      in if length data < mac_len + iv_len + block_len then Some (cipher, hmac, data, False)
         else
           (let (hmac, ok) = (if check_mac then message_check_mac hmac data sender_id receiver_id else (hmac, True))
            in if \<not> ok then Some (cipher, hmac, data, False)
               else
                 (let off = length data - iv_len - mac_len
                  in case silc_cipher_decrypt cipher (take block_len data) (if iv_len = 0 then None else Some (take 16 (drop off data))) of
                       None \<Rightarrow> Some (cipher, hmac, data, False)
                     | Some (cipher, iv, out) \<Rightarrow>
                         (case message_decrypt_rest (put_iv iv_len off iv (memcpy data 0 out)) iv_len off cipher mac_len of
                            None \<Rightarrow> None
                          | Some (cipher, data, ok) \<Rightarrow> Some (cipher, hmac, data, ok)))))"

text \<open>The parsing of the decrypted payload; \<open>ptr\<close> is \<open>no_allocation\<close>.\<close>

definition message_parse :: "bytes \<Rightarrow> nat \<Rightarrow> nat \<Rightarrow> bool \<Rightarrow> silc_message option" where
  "message_parse payload mac_len iv_len ptr =
     with_unformat (silc_buffer_set payload)
       (if ptr then [UNF_UI16_SHORT, UNF_UI16_NSTRING, UNF_UI16_NSTRING]
        else [UNF_UI16_SHORT, UNF_UI16_NSTRING_ALLOC, UNF_UI16_NSTRING_ALLOC]) None (\<lambda>buffer vs.
       case vs of
         [V16 flags, V16 data_len, VPtr data, V16 pad_len, VPtr pad] \<Rightarrow>
           (let avail = sub32 (sub32 (sub32 (silc_buffer_len buffer) 6) mac_len) iv_len; used = unat data_len + unat pad_len
            in if avail < unat data_len \<or> avail < used then None
               else
                 (let sg = (if message_signed flags \<and> used + 6 + mac_len + iv_len < silc_buffer_len buffer
                            then silc_message_signed_payload_parse
                                   (take (silc_buffer_len buffer - iv_len - mac_len - 6 - used) (drop (6 + used) (sb_bytes buffer)))
                            else Some no_signature)
                  in case sg of
                       None \<Rightarrow> None
                     | Some sg \<Rightarrow>
                         Some \<lparr>ms_data = data, ms_pad = pad,
                               ms_mac = (if mac_len = 0 then None else Some (drop (silc_buffer_len buffer - mac_len) (sb_bytes buffer))),
                               ms_sig = sg, ms_flags = flags, ms_data_len = data_len, ms_pad_len = pad_len\<rparr>))
       | _ \<Rightarrow> None)"

text \<open>
  The payload is changed in its place. A cipher without a MAC object is a NULL pointer that
  \<open>silc_hmac_len\<close> uses, for which there is no result.
\<close>

definition silc_message_payload_parse ::
    "bytes \<Rightarrow> bool \<Rightarrow> bool \<Rightarrow> silc_cipher option \<Rightarrow> silc_hmac option \<Rightarrow> bytes \<Rightarrow> bytes \<Rightarrow> bool
     \<Rightarrow> (silc_cipher option \<times> silc_hmac option \<times> bytes \<times> silc_message option) option" where
  "silc_message_payload_parse payload private_message static_key cipher hmac sender_id receiver_id no_allocation =
     (let mac_len = (case hmac of None \<Rightarrow> 0 | Some h \<Rightarrow> silc_hmac_len h);
          iv_len = (case cipher of None \<Rightarrow> 0 | Some c \<Rightarrow> message_iv_len c private_message static_key)
      in case (cipher, hmac) of
           (Some c, Some h) \<Rightarrow>
             (case silc_message_payload_decrypt payload private_message static_key c h sender_id receiver_id True of
                None \<Rightarrow> None
              | Some (c, h, payload, ok) \<Rightarrow>
                  Some (Some c, Some h, payload, if ok then message_parse payload mac_len iv_len no_allocation else None))
         | (Some c, None) \<Rightarrow> None
         | (None, _) \<Rightarrow> Some (cipher, hmac, payload, message_parse payload mac_len iv_len no_allocation))"

section \<open>Encoding\<close>

record silc_message_encode =
  en_flags :: u16
  en_public_key :: "silc_public_key option"
  en_private_key :: "silc_private_key option"
  en_hash :: bool
  en_cipher :: "silc_cipher option"
  en_hmac :: "silc_hmac option"
  en_iv :: "bytes option"
  en_payload_len :: nat
  en_sid :: silc_id
  en_rid :: silc_id

definition id_str :: "silc_id \<Rightarrow> bytes" where
  "id_str i = (case silc_id_id2str i 32 of None \<Rightarrow> [] | Some d \<Rightarrow> d)"

text \<open>The sender is a client; a receiver that is neither a client nor a channel is left out of the MAC.\<close>

definition receiver_str :: "silc_id \<Rightarrow> bytes" where
  "receiver_str i = (case i of ClientID _ _ _ \<Rightarrow> id_str i | ChannelID _ _ _ \<Rightarrow> id_str i | _ \<Rightarrow> [])"

definition silc_message_payload_encrypt ::
    "bytes \<Rightarrow> nat \<Rightarrow> nat \<Rightarrow> bytes option \<Rightarrow> silc_id \<Rightarrow> silc_id \<Rightarrow> silc_cipher \<Rightarrow> silc_hmac
     \<Rightarrow> (silc_cipher \<times> silc_hmac \<times> bytes) option" where
  "silc_message_payload_encrypt data data_len true_len iv sender_id receiver_id cipher hmac =
     (case silc_cipher_encrypt cipher (take data_len data) iv of
        None \<Rightarrow> None
      | Some (cipher, _, out) \<Rightarrow>
          (let data = memcpy data 0 out;
               (hmac, mac) = message_mac hmac [take true_len data, id_str sender_id, receiver_str receiver_id]
           in Some (cipher, hmac, memcpy data true_len mac)))"

text \<open>The result is the buffer, the value of the callback and the context.\<close>

definition silc_message_payload_encode_encrypt ::
    "junk \<Rightarrow> silc_message_encode \<Rightarrow> silc_buffer \<Rightarrow> silc_buffer \<times> int \<times> silc_message_encode" where
  "silc_message_payload_encode_encrypt J e buffer =
     (case (en_cipher e, en_hmac e) of
        (Some c, Some h) \<Rightarrow>
          (let (buffer, ok) = silc_buffer_enlarge J buffer (silc_hmac_len h)
           in if \<not> ok then (buffer, -1, e)
              else
                (case silc_message_payload_encrypt (sb_mem buffer) (en_payload_len e) (silc_buffer_headlen buffer)
                        (en_iv e) (en_sid e) (en_rid e) c h of
                   None \<Rightarrow> (buffer, -1, e)
                 | Some (c, h, mem) \<Rightarrow>
                     (buffer\<lparr>sb_mem := mem\<rparr>, int (silc_hmac_len h), e\<lparr>en_cipher := Some c, en_hmac := Some h\<rparr>)))
      | _ \<Rightarrow> (buffer, 0, e))"

definition silc_message_payload_encode_sig :: "junk \<Rightarrow> silc_message_encode \<Rightarrow> silc_buffer \<Rightarrow> silc_buffer \<times> int" where
  "silc_message_payload_encode_sig J e buffer =
     (if \<not> message_signed (en_flags e) then (buffer, 0)
      else
        (case silc_message_signed_payload_encode J (take (silc_buffer_headlen buffer) (sb_mem buffer))
                (en_public_key e) (en_private_key e) (en_hash e) of
           None \<Rightarrow> (buffer, -1)
         | Some sig \<Rightarrow>
             (let (buffer, len) = silc_buffer_format J buffer [FMT_NSTRING (Some (sb_bytes sig)) (silc_buffer_len sig)]
              in if len < 0 then (buffer, -1) else (buffer, len))))"

text \<open>
  The call of \<open>silc_buffer_format\<close>. Its last parameter is the callback that encrypts, whose context is
  returned; the lengths of \<open>pad\<close> and \<open>iv\<close> are those of the parameters.
\<close>

definition message_format ::
    "junk \<Rightarrow> silc_message_encode \<Rightarrow> bytes \<Rightarrow> nat \<Rightarrow> bytes \<Rightarrow> bytes \<Rightarrow> silc_buffer \<Rightarrow> (silc_buffer \<times> silc_message_encode) option" where
  "message_format J e data data_len pad iv buffer =
     (case format_run J
             [FMT_SHORT (en_flags e), FMT_SHORT (of_nat data_len), FMT_NSTRING (Some data) data_len,
              FMT_SHORT (of_nat (length pad)), FMT_NSTRING (Some pad) (length pad),
              FMT_FUNC (silc_message_payload_encode_sig J e), FMT_NSTRING (Some iv) (length iv)] (buffer, 0) of
        Inl _ \<Rightarrow> None
      | Inr (b, flen) \<Rightarrow>
          (let (b', len, e') = silc_message_payload_encode_encrypt J e b;
               (b'', ret) = silc_buffer_sformat_vp J [FMT_FUNC (\<lambda>_. (b', len))] False (b, flen)
           in if ret < 0 then None else Some (b'', e')))"

text \<open>
  The random bytes of the vector and of the padding are given by \<open>rnd\<close>; without a cipher the padding
  is the content \<open>J\<close> of an array on the stack that was not set.
\<close>

definition silc_message_payload_encode ::
    "junk \<Rightarrow> (nat \<Rightarrow> byte) \<Rightarrow> u16 \<Rightarrow> bytes \<Rightarrow> nat \<Rightarrow> bool \<Rightarrow> bool \<Rightarrow> silc_cipher option \<Rightarrow> silc_hmac option
     \<Rightarrow> silc_public_key option \<Rightarrow> silc_private_key option \<Rightarrow> bool \<Rightarrow> silc_id \<Rightarrow> silc_id \<Rightarrow> silc_buffer option
     \<Rightarrow> (silc_buffer \<times> silc_message_encode) option" where
  "silc_message_payload_encode J rnd flags data data_len generate_iv private_message cipher hmac public_key private_key hash
     sender_id receiver_id buffer =
     (if data_len = 0 then None
      else if \<not> private_message \<and> (cipher = None \<or> hmac = None) then None
      else
        (case (case buffer of None \<Rightarrow> silc_buffer_alloc 0 | Some b \<Rightarrow> Some b) of
           None \<Rightarrow> None
         | Some buffer \<Rightarrow>
             (let buffer = silc_buffer_reset buffer;
                  generate_iv = (if \<not> private_message \<and> \<not> generate_iv then True else generate_iv);
                  iv_len = (case cipher of None \<Rightarrow> 0 | Some c \<Rightarrow> if generate_iv then silc_cipher_get_block_len c else 0);
                  iv = map rnd [0..<iv_len];
                  mac_len = (case hmac of None \<Rightarrow> 0 | Some h \<Rightarrow> silc_hmac_len h);
                  data_len = silc_message_payload_datalen data_len (mac_len + iv_len) flags public_key private_key;
                  pad_len = SILC_MESSAGE_PAD (add32 6 data_len);
                  pad = map (if cipher = None then J else (\<lambda>i. rnd (iv_len + i))) [0..<pad_len]
              in message_format J
                   \<lparr>en_flags = flags, en_public_key = public_key, en_private_key = private_key, en_hash = hash,
                    en_cipher = cipher, en_hmac = hmac, en_iv = (if iv_len = 0 then None else Some iv),
                    en_payload_len = cast16 (6 + data_len + pad_len), en_sid = sender_id, en_rid = receiver_id\<rparr>
                   data data_len pad iv buffer)))"

section \<open>Access and verification\<close>

definition silc_message_get_flags :: "silc_message \<Rightarrow> u16" where
  "silc_message_get_flags payload = ms_flags payload"

definition silc_message_get_data :: "silc_message \<Rightarrow> bytes option \<times> nat" where
  "silc_message_get_data payload = (ms_data payload, unat (ms_data_len payload))"

definition silc_message_get_mac :: "silc_message \<Rightarrow> bytes option" where
  "silc_message_get_mac payload = ms_mac payload"

text \<open>\<open>SILC_AUTH_OK\<close> is True. When the first buffer cannot be allocated the code uses a NULL pointer.\<close>

definition silc_message_signed_verify :: "junk \<Rightarrow> silc_message \<Rightarrow> silc_public_key option \<Rightarrow> bool \<Rightarrow> bool option" where
  "silc_message_signed_verify J message remote_public_key hash =
     (let sg = ms_sig message
      in if \<not> message_signed (ms_flags message) \<or> sg_sign_len sg = 0 \<or> remote_public_key = None \<or> \<not> hash then Some False
         else
           (case silc_buffer_alloc_size (6 + unat (ms_data_len message) + unat (ms_pad_len message)) of
              None \<Rightarrow> None
            | Some tmp \<Rightarrow>
                (let tmp = fst (silc_buffer_format J tmp
                       [FMT_SHORT (ms_flags message), FMT_SHORT (ms_data_len message),
                        FMT_NSTRING (ms_data message) (unat (ms_data_len message)), FMT_SHORT (ms_pad_len message),
                        FMT_NSTRING (ms_pad message) (unat (ms_pad_len message))])
                 in case silc_message_signed_encode_data J (sb_bytes tmp) (sg_pk_data sg) (unat (sg_pk_len sg)) (sg_pk_type sg) of
                      None \<Rightarrow> Some False
                    | Some sign \<Rightarrow> Some (puk_verify (the remote_public_key) (the (sg_sign_data sg)) (sb_bytes sign)))))"

definition silc_message_signed_get_public_key :: "(u16 \<Rightarrow> bytes \<Rightarrow> 'pk option) \<Rightarrow> silc_message \<Rightarrow> 'pk option" where
  "silc_message_signed_get_public_key pkcs_alloc payload =
     (case sg_pk_data (ms_sig payload) of None \<Rightarrow> None | Some d \<Rightarrow> pkcs_alloc (sg_pk_type (ms_sig payload)) d)"

end
