(* ===== verification/Silc_Message_Wire.thy ===== *)
theory Silc_Message_Wire
  imports Silc_Message
begin

text \<open>
  What a message payload looks like on the wire: the two pieces in which its cipher text is
  decrypted (\<open>message_pieces\<close>), the signature block, and the bytes the encoder produces with and
  without a cipher (\<open>message_encode\<close>, \<open>message_encode_plain\<close>).
\<close>

section \<open>Two pieces with or without a vector of the message\<close>

text \<open>Ciphers that correspond, between messages: whole blocks were encrypted so far.\<close>

definition cipher_sync :: "silc_cipher \<Rightarrow> silc_cipher \<Rightarrow> bool" where
  "cipher_sync s r \<longleftrightarrow> cipher_pair s r \<and> aes_pos (ci_context s) \<in> {0, 16} \<and> aes_pos (ci_context r) \<in> {0, 16}"

lemma key_stream_aligned:
  assumes E: "\<And>b. length b = 16 \<Longrightarrow> length (E b) = 16" and "length iv = 16"
  shows "fst (fst (key_stream E (16, iv, pad) (16 * k))) = 16"
  using assms(2)
proof (induction k arbitrary: iv pad)
  case (Suc k)
  have "key_stream E (16, iv, pad) 16 = ((16, ctr_carry 16 iv, E (ctr_carry 16 iv)), E (ctr_carry 16 iv))"
    using Suc.prems by (intro key_stream_block E) simp
  moreover have "fst (fst (key_stream E (16, ctr_carry 16 iv, E (ctr_carry 16 iv)) (16 * k))) = 16"
    using Suc.prems by (intro Suc.IH) simp
  ultimately show ?case using key_stream_add [of E "(16, iv, pad)" 16 "16 * k"] by (simp add: case_prod_beta)
qed simp

definition used_iv :: "silc_cipher \<Rightarrow> bytes option \<Rightarrow> bytes" where
  "used_iv c iv = (case iv of None \<Rightarrow> ci_iv c | Some v \<Rightarrow> v)"

definition put_back :: "silc_cipher \<Rightarrow> bytes option \<Rightarrow> aes_context \<Rightarrow> bytes \<Rightarrow> silc_cipher" where
  "put_back c iv ctx v = (case iv of None \<Rightarrow> c\<lparr>ci_context := ctx, ci_iv := v\<rparr> | Some _ \<Rightarrow> c\<lparr>ci_context := ctx\<rparr>)"

lemma put_back_simps [simp]:
  "ci_cipher (put_back c iv ctx v) = ci_cipher c" "ci_context (put_back c iv ctx v) = ctx"
  "ci_iv (put_back c iv ctx v) = (case iv of None \<Rightarrow> v | Some _ \<Rightarrow> ci_iv c)"
  by (simp_all add: put_back_def split: option.split)

lemma cbc_ops:
  "ci_cipher c = AES_CBC \<Longrightarrow> length src = 16 * nb \<Longrightarrow> silc_cipher_encrypt c src iv =
     (case cbc_encrypt_blocks (aes_enc (ci_context c)) nb (used_iv c iv) src of (v, dst) \<Rightarrow> Some (put_back c iv (ci_context c) v, v, dst))"
  "ci_cipher c = AES_CBC \<Longrightarrow> length src = 16 * nb \<Longrightarrow> silc_cipher_decrypt c src iv =
     (case cbc_decrypt_blocks (aes_dec (ci_context c)) nb (used_iv c iv) src of (v, dst) \<Rightarrow> Some (put_back c iv (ci_context c) v, v, dst))"
  by (simp_all add: silc_cipher_encrypt_def silc_cipher_decrypt_def silc_aes_cbc_encrypt_def silc_aes_cbc_decrypt_def with_iv_def
      used_iv_def put_back_def split: prod.splits option.splits)

lemma ctr_ops:
  "ci_cipher c = AES_CTR \<Longrightarrow> aes_pos (ci_context c) \<in> {0, 16} \<Longrightarrow> silc_cipher_encrypt c src iv =
     (case key_stream (aes_enc (ci_context c)) (16, used_iv c iv, aes_pad (ci_context c)) (length src) of
        ((i, v, pad), ks) \<Rightarrow> Some (put_back c iv ((ci_context c)\<lparr>aes_pad := pad, aes_pos := i\<rparr>) v, v, xor_bytes src ks))"
  "ci_cipher c = AES_CTR \<Longrightarrow> silc_cipher_decrypt c src iv = silc_cipher_encrypt c src iv"
  by (auto simp: silc_cipher_encrypt_def silc_cipher_decrypt_def silc_aes_ctr_encrypt_def silc_aes_ctr_decrypt_def with_iv_def
      used_iv_def put_back_def ctr_loop_stream split: prod.splits option.splits)

lemma sync_put_back:
  assumes "cipher_sync s r" and "length v = 16" "aes_enc c = aes_enc (ci_context s)" "aes_enc c' = aes_enc (ci_context r)"
    "aes_dec c' = aes_dec (ci_context r)" "aes_pos c \<in> {0, 16}" "aes_pos c' \<in> {0, 16}"
  shows "cipher_sync (put_back s iv c v) (put_back r iv c' v)"
  using assms by (auto simp: cipher_sync_def cipher_pair_def put_back_def split: option.split)

lemma message_pieces:
  assumes sync: "cipher_sync s r" and d: "length data = 16 + 16 * nb" and iv: "pred_option (\<lambda>v. length v = 16) iv"
  obtains s' v ct r1 iv1 r2 v2 where
    "silc_cipher_encrypt s data iv = Some (s', v, ct)" "length ct = length data"
    "silc_cipher_decrypt r (take 16 ct) iv = Some (r1, iv1, take 16 data)" "length iv1 = 16"
    "silc_cipher_decrypt r1 (drop 16 ct) (map_option (\<lambda>_. iv1) iv) = Some (r2, v2, drop 16 data)" "length v2 = 16"
    "cipher_sync s' r2" "nb = 0 \<Longrightarrow> cipher_sync s' r1"
proof -
  define iv0 where "iv0 = used_iv s iv"
  have p: "cipher_pair s r" using sync by (simp add: cipher_sync_def)
  have iv0: "length iv0 = 16" "used_iv r iv = iv0"
    using p iv by (auto simp: iv0_def used_iv_def cipher_pair_def split: option.split)
  define E where "E = aes_enc (ci_context s)"
  define D where "D = aes_dec (ci_context r)"
  have bc: "block_cipher E D" using p by (simp add: cipher_pair_def E_def D_def)
  have len: "length (take 16 data) = 16 * 1" "length (drop 16 data) = 16 * nb" "length data = 16 * Suc nb" using d by simp_all
  show thesis
  proof (cases "ci_cipher s")
    case AES_CBC
    then have r: "ci_cipher r = AES_CBC" using p by (simp add: cipher_pair_def)
    obtain v ct where enc: "cbc_encrypt_blocks E (Suc nb) iv0 data = (v, ct)" by fastforce
    have l: "length ct = 16 * Suc nb" "length v = 16"
      using cbc_encrypt_length [OF bc iv0(1), of "Suc nb" data] enc by (simp_all del: cbc_encrypt_blocks.simps)
    have dec: "cbc_decrypt_blocks D (Suc nb) iv0 ct = (v, data)"
      using cbc_roundtrip [OF bc iv0(1) len(3)] enc by (simp del: cbc_encrypt_blocks.simps cbc_decrypt_blocks.simps)
    obtain iv1 x where first: "cbc_decrypt_blocks D 1 iv0 (take 16 ct) = (iv1, x)" by fastforce
    obtain iv2 y where rest: "cbc_decrypt_blocks D nb iv1 (drop 16 ct) = (iv2, y)" by fastforce
    have lx: "length x = 16" "iv1 = take 16 ct" using first by (auto simp: Let_def)
    have "(iv2, x @ y) = (v, data)"
      using cbc_decrypt_append [of "take 16 ct" 1 D nb iv0 "drop 16 ct"] dec first rest l(1) by (simp del: cbc_decrypt_blocks.simps)
    then have xy: "iv2 = v" "x = take 16 data" "y = drop 16 data" using lx by auto
    define r1 where "r1 = put_back r iv (ci_context r) iv1"
    have u1: "used_iv r1 (map_option (\<lambda>_. iv1) iv) = iv1" by (simp add: used_iv_def r1_def put_back_def split: option.split)
    have l16: "length (take 16 ct) = 16 * 1" "length (drop 16 ct) = 16 * nb" using l by simp_all
    have e: "silc_cipher_encrypt s data iv = Some (put_back s iv (ci_context s) v, v, ct)"
      using cbc_ops(1) [OF AES_CBC len(3), of iv] enc by (simp add: E_def iv0_def del: cbc_encrypt_blocks.simps)
    have d1: "silc_cipher_decrypt r (take 16 ct) iv = Some (r1, iv1, take 16 data)"
      using cbc_ops(2) [OF r l16(1), of iv] first xy(2) by (simp add: D_def iv0 r1_def del: cbc_decrypt_blocks.simps)
    have d2: "silc_cipher_decrypt r1 (drop 16 ct) (map_option (\<lambda>_. iv1) iv) = Some (put_back r iv (ci_context r) v, v, drop 16 data)"
      using cbc_ops(2) [of r1 "drop 16 ct" nb "map_option (\<lambda>_. iv1) iv"] rest xy l16 r u1
      by (simp add: D_def r1_def put_back_def del: cbc_decrypt_blocks.simps split: option.split)
    have s2: "cipher_sync (put_back s iv (ci_context s) v) (put_back r iv (ci_context r) v)"
      using sync l(2) by (intro sync_put_back) (auto simp: cipher_sync_def)
    have "nb = 0 \<Longrightarrow> iv1 = v" using rest xy(1) by simp
    then have "nb = 0 \<Longrightarrow> cipher_sync (put_back s iv (ci_context s) v) r1" using s2 by (simp add: r1_def)
    then show thesis by (intro that [OF e _ d1 _ d2 _ s2]) (use l lx len in auto)
  next
    case AES_CTR
    then have r: "ci_cipher r = AES_CTR" and er: "aes_enc (ci_context r) = E" using p by (auto simp: cipher_pair_def E_def)
    have pos: "aes_pos (ci_context s) \<in> {0, 16}" "aes_pos (ci_context r) \<in> {0, 16}" using sync by (auto simp: cipher_sync_def)
    have E16: "length b = 16 \<Longrightarrow> length (E b) = 16" for b using bc by (rule block_cipherD(1))
    define iv1 where "iv1 = ctr_carry 16 iv0"
    have l1: "length iv1 = 16" "length (E iv1) = 16" using iv0 E16 by (simp_all add: iv1_def)
    have blk: "key_stream E (16, iv0, pad) 16 = ((16, iv1, E iv1), E iv1)" for pad
      using key_stream_block [of E iv0 pad] l1 by (simp add: iv1_def)
    obtain i v pad ks where rest: "key_stream E (16, iv1, E iv1) (16 * nb) = ((i, v, pad), ks)" by (metis prod.exhaust_sel)
    have i: "i = 16" using key_stream_aligned [of E iv1 "E iv1" nb] E16 l1(1) rest by simp
    have lk: "length ks = 16 * nb" using length_key_stream [of E "(16, iv1, E iv1)" "16 * nb"] rest by simp
    have lv: "length v = 16" using length_stream_iv [of E 16 iv1 "E iv1" "16 * nb"] rest l1 by simp
    define ct where "ct = xor_bytes data (E iv1 @ ks)"
    have whole: "key_stream E (16, iv0, p0) (length data) = ((i, v, pad), E iv1 @ ks)" for p0
      unfolding d by (simp add: key_stream_add blk rest)
    have lct: "length ct = length data" using d lk l1 by (simp add: ct_def)
    have ct16: "take 16 ct = xor_bytes (take 16 data) (E iv1)" "drop 16 ct = xor_bytes (drop 16 data) ks"
      using xor_bytes_split [of 16 data "E iv1 @ ks"] d lk l1 by (simp_all add: ct_def)
    have pl: "xor_bytes (take 16 ct) (E iv1) = take 16 data" "xor_bytes (drop 16 ct) ks = drop 16 data"
      unfolding ct16 using d lk l1 by (simp_all add: xor_bytes_cancel)
    define c1 where "c1 = (ci_context r)\<lparr>aes_pad := E iv1, aes_pos := 16\<rparr>"
    define r1 where "r1 = put_back r iv c1 iv1"
    define sc where "sc = (ci_context s)\<lparr>aes_pad := pad, aes_pos := i\<rparr>"
    define rc where "rc = (ci_context r)\<lparr>aes_pad := pad, aes_pos := i\<rparr>"
    have u1: "used_iv r1 (map_option (\<lambda>_. iv1) iv) = iv1" by (simp add: used_iv_def r1_def put_back_def split: option.split)
    have e: "silc_cipher_encrypt s data iv = Some (put_back s iv sc v, v, ct)"
      using ctr_ops(1) [OF AES_CTR pos(1), of data iv] whole by (simp add: iv0_def ct_def sc_def flip: E_def)
    have l16: "length (take 16 ct) = 16" "length (drop 16 ct) = 16 * nb" using lct d by simp_all
    have d1: "silc_cipher_decrypt r (take 16 ct) iv = Some (r1, iv1, take 16 data)"
      unfolding ctr_ops(2) [OF r] ctr_ops(1) [OF r pos(2)] l16 using blk pl(1) by (simp add: er iv0(2) r1_def c1_def)
    have r1c: "ci_cipher r1 = AES_CTR" "aes_pos (ci_context r1) \<in> {0, 16}" "aes_enc (ci_context r1) = E" "aes_pad (ci_context r1) = E iv1"
      by (simp_all add: r1_def r c1_def er)
    have d2: "silc_cipher_decrypt r1 (drop 16 ct) (map_option (\<lambda>_. iv1) iv) = Some (put_back r iv rc v, v, drop 16 data)"
      unfolding ctr_ops(2) [OF r1c(1)] ctr_ops(1) [OF r1c(1,2)] l16 using rest pl(2) u1 r1c(3,4)
      by (simp add: r1_def put_back_def rc_def c1_def split: option.split)
    have s2: "cipher_sync (put_back s iv sc v) (put_back r iv rc v)"
      using sync lv i by (intro sync_put_back) (simp_all add: sc_def rc_def)
    have "iv1 = v" "c1 = rc" if "nb = 0" using rest that i by (auto simp: rc_def c1_def)
    then have "nb = 0 \<Longrightarrow> cipher_sync (put_back s iv sc v) r1" using s2 by (simp add: r1_def)
    then show thesis by (intro that [OF e _ d1 _ d2 _ s2]) (use lct lv l1 in auto)
  qed
qed

section \<open>A buffer that is written from its head\<close>

definition holds :: "silc_buffer \<Rightarrow> bytes \<Rightarrow> bool" where
  "holds b d \<longleftrightarrow> wf_buffer b \<and> sb_data b = length d \<and> sb_tail b = length d \<and> take (length d) (sb_mem b) = d"

lemma holds_reset: "wf_buffer b \<Longrightarrow> holds (silc_buffer_reset b) []"
  by (auto simp: holds_def silc_buffer_reset_def wf_buffer_def)

lemma take_memcpy_end: "length d \<le> length mem \<Longrightarrow> take (length d) mem = d \<Longrightarrow> take (length d + length x) (memcpy mem (length d) x) = d @ x"
  by (simp add: memcpy_def)

lemma holds_len: "holds b d \<Longrightarrow> length d \<le> length (sb_mem b)"
  by (auto simp: holds_def wf_buffer_def)

lemma holds_put:
  assumes "holds b d" and "length d + length x < SILC_MAX_ALLOC"
    and "length (sb_mem b @ m) = max (length (sb_mem b)) (sb_data b + length x)"
  shows "holds (put_state b m x) (d @ x)"
proof -
  have "take (length d + length x) (memcpy (sb_mem b @ m) (length d) x) = d @ x"
    using assms(1) holds_len [OF assms(1)] by (intro take_memcpy_end) (simp_all add: holds_def)
  moreover have "wf_buffer (put_state b m x)" using assms by (intro wf_put_state) (simp_all add: holds_def)
  ultimately show ?thesis using assms(1) by (simp add: holds_def put_state_def)
qed

lemma holds_run:
  assumes "holds b d" and "list_all fmt_plain ps" and "length d + length (fmt_all ps) < SILC_MAX_ALLOC"
  shows "\<exists>b'. format_run J ps (b, flen) = Inr (b', flen + int (length (fmt_all ps))) \<and> holds b' (d @ fmt_all ps)"
proof -
  have "wf_buffer b" "sb_data b + length (fmt_all ps) < SILC_MAX_ALLOC" using assms by (simp_all add: holds_def)
  from format_run_grow [OF this(1) assms(2) this(2), of J flen] obtain m where
    "format_run J ps (b, flen) = Inr (put_state b m (fmt_all ps), flen + int (length (fmt_all ps)))"
    "length (sb_mem b @ m) = max (length (sb_mem b)) (sb_data b + length (fmt_all ps))" by blast
  with holds_put [OF assms(1,3), of m] show ?thesis by blast
qed

text \<open>A callback that formats one string.\<close>

lemma holds_format:
  assumes "holds b d" and "length d + length x < SILC_MAX_ALLOC"
  obtains b' where "silc_buffer_format J b [FMT_NSTRING (Some x) (length x)] = (b', int (length x))"
    "holds (fst (silc_buffer_pull b' (length x))) (d @ x)"
proof -
  have "wf_buffer b" "sb_data b + length x < SILC_MAX_ALLOC" using assms by (simp_all add: holds_def)
  then obtain m where f: "silc_buffer_format J b [FMT_NSTRING (Some x) (length x)] =
      (\<lparr>sb_mem = memcpy (sb_mem b @ m) (sb_data b) x, sb_data = sb_data b, sb_tail = max (sb_tail b) (sb_data b + length x)\<rparr>, int (length x))"
      (is "_ = (?b, _)")
    and m: "length (sb_mem b @ m) = max (length (sb_mem b)) (sb_data b + length x)"
    using format_grow [of b "[FMT_NSTRING (Some x) (length x)]" J] by auto
  have h: "holds (put_state b m x) (d @ x)" using assms m by (rule holds_put)
  then have "length (d @ x) < u32_max" by (simp add: holds_def wf_buffer_def)
  then have "silc_buffer_len ?b = length x" using assms(1) by (simp add: silc_buffer_len_def holds_def silc_arith)
  then have "silc_buffer_pull ?b (length x) = (put_state b m x, Some (sb_data b))"
    by (subst pull_ok) (simp_all add: put_state_def)
  with h show thesis by (intro that [OF f]) simp
qed

text \<open>The end of \<open>silc_buffer_format\<close>: back to the head.\<close>

lemma holds_finish:
  assumes "holds b d"
  shows "wf_buffer (format_finish False (b, int (length d)))" "sb_bytes (format_finish False (b, int (length d))) = d"
proof -
  have l: "length d < u32_max" using assms by (simp add: holds_def wf_buffer_def)
  then have f: "format_finish False (b, int (length d)) = b\<lparr>sb_data := 0\<rparr>"
    using assms by (simp add: format_finish_def cast32_exact push_ok holds_def)
  show "wf_buffer (format_finish False (b, int (length d)))" using assms unfolding f by (auto simp: holds_def wf_buffer_def)
  show "sb_bytes (format_finish False (b, int (length d))) = d" using assms unfolding f by (simp add: sb_bytes_def holds_def)
qed

section \<open>Signatures\<close>

definition signed_data :: "bytes \<Rightarrow> bytes option \<Rightarrow> u16 \<Rightarrow> bytes" where
  "signed_data mp pk t = mp @ SILC_PUT16_MSB (of_nat (length (opt_bytes pk))) @ SILC_PUT16_MSB t @ opt_bytes pk"

definition signed_bytes :: "bytes option \<Rightarrow> u16 \<Rightarrow> bytes \<Rightarrow> bytes" where
  "signed_bytes pk t auth =
     SILC_PUT16_MSB (of_nat (length (opt_bytes pk))) @ SILC_PUT16_MSB t @ opt_bytes pk @ SILC_PUT16_MSB (of_nat (length auth)) @ auth"

lemma fresh_buffer:
  assumes "n < SILC_MAX_ALLOC"
  shows "wf_buffer \<lparr>sb_mem = replicate n 0, sb_data = 0, sb_tail = n\<rparr>" "silc_buffer_len \<lparr>sb_mem = replicate n 0, sb_data = 0, sb_tail = n\<rparr> = n"
  using max_alloc_less_u32 [OF assms] by (simp_all add: wf_buffer_def silc_buffer_len_def silc_arith)

lemma signed_encode_data_eq:
  assumes "length mp + 4 + length (opt_bytes pk) < SILC_MAX_ALLOC"
  shows "silc_message_signed_encode_data J mp pk (length (opt_bytes pk)) t = Some (silc_buffer_set (signed_data mp pk t))"
proof -
  define k where "k = length (opt_bytes pk)"
  define n where "n = length mp + 4 + k"
  let ?b = "\<lparr>sb_mem = replicate n 0, sb_data = 0, sb_tail = n\<rparr>"
  let ?h = "[FMT_NSTRING (Some mp) (length mp), FMT_SHORT (of_nat k), FMT_SHORT t]"
  have n: "n < SILC_MAX_ALLOC" using assms by (simp add: n_def k_def)
  note b = fresh_buffer [OF n]
  have "fst (silc_buffer_format J ?b ?h) = overwrite ?b (fmt_all ?h)"
    using format_fits [OF b(1), of ?h J] b(2) by (simp add: overwrite_def n_def)
  moreover have "format_body J (length mp + 4) [FMT_NSTRING (Some (opt_bytes pk)) k] (overwrite ?b (fmt_all ?h)) = overwrite ?b (fmt_all ?h @ opt_bytes pk)"
    using format_body_fits [OF b(1), of "[FMT_NSTRING (Some (opt_bytes pk)) k]" "fmt_all ?h" "length mp + 4" J] b(2)
    by (simp add: n_def k_def)
  moreover have "overwrite ?b (fmt_all ?h @ opt_bytes pk) = silc_buffer_set (fmt_all ?h @ opt_bytes pk)"
    by (intro overwrite_whole) (simp add: n_def k_def)
  moreover have "add32 (add32 (length mp) 4) k = n" "add32 (length mp) 4 = length mp + 4"
    using max_alloc_less_u32 [OF n] by (simp_all add: n_def silc_arith)
  moreover have "silc_buffer_alloc_size n = Some ?b" using n by (simp add: alloc_size_Some n_def)
  moreover have "pk = Some (opt_bytes pk)" if "pk \<noteq> None" using that by (auto simp: opt_bytes_def)
  moreover have "opt_bytes pk = []" if "pk = None \<or> k = 0" using that by (auto simp: opt_bytes_def k_def)
  ultimately show ?thesis
    by (simp add: silc_message_signed_encode_data_def Let_def signed_data_def flip: k_def) (cases pk; auto simp: k_def opt_bytes_def)
qed

lemma signed_format_eq:
  assumes "6 + length (opt_bytes pk) + length auth < SILC_MAX_ALLOC"
  shows "signed_format J pk (length (opt_bytes pk)) t auth = Some (silc_buffer_set (signed_bytes pk t auth))"
proof -
  define k where "k = length (opt_bytes pk)"
  define n where "n = 4 + k + (2 + length auth)"
  let ?b = "\<lparr>sb_mem = replicate n 0, sb_data = 0, sb_tail = n\<rparr>"
  let ?h = "[FMT_SHORT (of_nat k), FMT_SHORT t]"
  let ?a = "[FMT_SHORT (of_nat (length auth)), FMT_NSTRING (Some auth) (length auth)]"
  have n: "n < SILC_MAX_ALLOC" using assms by (simp add: n_def k_def)
  note b = fresh_buffer [OF n]
  have hdr: "fst (silc_buffer_format J ?b ?h) = overwrite ?b (fmt_all ?h)"
    using format_fits [OF b(1), of ?h J] b(2) by (simp add: overwrite_def n_def)
  have pkb: "format_body J 4 [FMT_NSTRING (Some (opt_bytes pk)) k] (overwrite ?b (fmt_all ?h)) = overwrite ?b (fmt_all ?h @ opt_bytes pk)"
    using format_body_fits [OF b(1), of "[FMT_NSTRING (Some (opt_bytes pk)) k]" "fmt_all ?h" 4 J] b(2)
    by (simp add: n_def k_def)
  have "format_body J (4 + k) ?a (overwrite ?b (fmt_all ?h @ opt_bytes pk)) = overwrite ?b ((fmt_all ?h @ opt_bytes pk) @ fmt_all ?a)"
    using format_body_fits [OF b(1), of ?a "fmt_all ?h @ opt_bytes pk" "4 + k" J] b(2) by (simp add: n_def k_def)
  also have "\<dots> = silc_buffer_set ((fmt_all ?h @ opt_bytes pk) @ fmt_all ?a)" by (intro overwrite_whole) (simp add: n_def k_def)
  finally have body: "format_body J (4 + k) ?a (overwrite ?b (fmt_all ?h @ opt_bytes pk)) = silc_buffer_set (signed_bytes pk t auth)"
    by (simp add: signed_bytes_def k_def)
  have add: "add32 4 k = 4 + k" "add32 (4 + k) (add32 2 (length auth)) = n"
    using max_alloc_less_u32 [OF n] by (simp_all add: n_def silc_arith)
  have al: "silc_buffer_alloc_size n = Some ?b" using n by (simp add: alloc_size_Some n_def)
  have pk: "(if k \<noteq> 0 \<and> pk \<noteq> None then format_body J 4 [FMT_NSTRING pk k] (overwrite ?b (fmt_all ?h)) else overwrite ?b (fmt_all ?h))
    = overwrite ?b (fmt_all ?h @ opt_bytes pk)"
    using pkb by (cases pk) (auto simp: opt_bytes_def k_def)
  show ?thesis unfolding signed_format_def Let_def k_def [symmetric] add al option.case hdr pk body ..
qed

text \<open>The signature block of a message, empty when the message is not signed.\<close>

definition message_auth :: "u16 \<Rightarrow> silc_public_key option \<Rightarrow> silc_private_key option \<Rightarrow> bytes \<Rightarrow> bytes option \<Rightarrow> bytes \<Rightarrow> bool" where
  "message_auth flags public_key private_key mp pk auth \<longleftrightarrow>
     (message_signed flags \<longrightarrow> (\<exists>prk. private_key = Some prk \<and> prk_sign prk (signed_data mp pk (prk_type prk)) = Some auth)
        \<and> (case public_key of None \<Rightarrow> pk = None | Some k \<Rightarrow> puk_encode k = pk \<and> pk \<noteq> None)
        \<and> length (opt_bytes pk) < 65536 \<and> auth \<noteq> [] \<and> length auth < 65536)"

definition message_sig :: "u16 \<Rightarrow> silc_private_key option \<Rightarrow> bytes option \<Rightarrow> bytes \<Rightarrow> bytes" where
  "message_sig flags private_key pk auth = (if message_signed flags then signed_bytes pk (prk_type (the private_key)) auth else [])"

lemma length_message_sig:
  "message_auth flags public_key private_key mp pk auth \<Longrightarrow> length (message_sig flags private_key pk auth) < 140000"
  by (auto simp: message_sig_def message_auth_def signed_bytes_def)

lemma signed_payload_encode_eq:
  assumes "message_auth flags public_key private_key mp pk auth" and "message_signed flags" and "mp \<noteq> []" "length mp < 70000"
  shows "silc_message_signed_payload_encode J mp public_key private_key True = Some (silc_buffer_set (message_sig flags private_key pk auth))"
proof -
  obtain prk where p: "private_key = Some prk" "prk_sign prk (signed_data mp pk (prk_type prk)) = Some auth"
    and pk: "case public_key of None \<Rightarrow> pk = None | Some k \<Rightarrow> puk_encode k = pk \<and> pk \<noteq> None"
    and l: "length (opt_bytes pk) < 65536" "length auth < 65536"
    using assms(1,2) by (auto simp: message_auth_def)
  have pk': "(case public_key of None \<Rightarrow> None | Some k \<Rightarrow> puk_encode k) = pk" "\<not> (\<exists>k. public_key = Some k \<and> puk_encode k = None)"
    using pk by (auto split: option.splits)
  have len: "(case pk of None \<Rightarrow> 0 | Some d \<Rightarrow> length d) = length (opt_bytes pk)" by (simp add: opt_bytes_def split: option.split)
  have "silc_message_signed_encode_data J mp pk (length (opt_bytes pk)) (prk_type prk) = Some (silc_buffer_set (signed_data mp pk (prk_type prk)))"
    using assms(4) l by (intro signed_encode_data_eq) (simp add: SILC_MAX_ALLOC_def)
  moreover have "signed_format J pk (length (opt_bytes pk)) (prk_type prk) auth = Some (silc_buffer_set (signed_bytes pk (prk_type prk) auth))"
    using l by (intro signed_format_eq) (simp add: SILC_MAX_ALLOC_def)
  ultimately show ?thesis
    using p assms(2,3) pk' by (simp add: silc_message_signed_payload_encode_def pk' len Let_def message_sig_def)
qed

section \<open>The MAC\<close>

definition hmac_sync :: "silc_hmac \<Rightarrow> silc_hmac \<Rightarrow> bool" where
  "hmac_sync h h' \<longleftrightarrow> hm_hash h' = hm_hash h \<and> hm_len h' = hm_len h \<and> hm_key h' = hm_key h"

lemma fold_update: "fold (\<lambda>d hm. silc_hmac_update hm d) ds hm = silc_hmac_update hm (concat ds)"
  by (induction ds arbitrary: hm) (simp_all add: silc_hmac_update_def)

lemma message_mac_eq:
  "snd (message_mac h ds) = hmac_mac h (concat ds)" "hmac_sync h (fst (message_mac h ds))"
  unfolding message_mac_def fold_update
  by (simp_all add: hmac_mac_def silc_hmac_make_def hmac_sync_def silc_hmac_final_def silc_hmac_update_def
      silc_hmac_init_def silc_hmac_init_with_key_def Let_def)

lemma hmac_sync_mac: "hmac_sync h h' \<Longrightarrow> hmac_mac h' d = hmac_mac h d"
  by (simp add: hmac_sync_def hmac_mac_def silc_hmac_make_def silc_hmac_final_def silc_hmac_update_def silc_hmac_init_def
      silc_hmac_init_with_key_def silc_hmac_init_internal_def Let_def)

lemma hmac_sync_trans: "hmac_sync a b \<Longrightarrow> hmac_sync b c \<Longrightarrow> hmac_sync a c"
  and hmac_sync_refl [simp]: "hmac_sync a a"
  by (simp_all add: hmac_sync_def)

section \<open>The encoder\<close>

definition message_plain :: "u16 \<Rightarrow> bytes \<Rightarrow> bytes \<Rightarrow> bytes" where
  "message_plain flags data pad =
     SILC_PUT16_MSB flags @ SILC_PUT16_MSB (of_nat (length data)) @ data @ SILC_PUT16_MSB (of_nat (length pad)) @ pad"

lemma length_message_plain: "length (message_plain flags data pad) = 6 + length data + length pad"
  by (simp add: message_plain_def)

lemma encode_sig_holds:
  assumes h: "holds b d" and au: "message_auth (en_flags e) (en_public_key e) (en_private_key e) d pk auth"
    and "d \<noteq> []" "length d < 70000" "en_hash e"
  defines "sg \<equiv> message_sig (en_flags e) (en_private_key e) pk auth"
  obtains b' where "format_step J (FMT_FUNC (silc_message_payload_encode_sig J e)) (b, flen) = Inr (b', flen + int (length sg))"
    "holds b' (d @ sg)"
proof (cases "message_signed (en_flags e)")
  case False
  then have "sg = []" by (simp add: sg_def message_sig_def)
  then show thesis using False h by (intro that [of b]) (simp_all add: format_func_def silc_message_payload_encode_sig_def)
next
  case True
  have l: "length sg < 140000" using length_message_sig [OF au] by (simp add: sg_def)
  then have "length d + length sg < SILC_MAX_ALLOC" using assms(4) by (simp add: SILC_MAX_ALLOC_def)
  then obtain b' where f: "silc_buffer_format J b [FMT_NSTRING (Some sg) (length sg)] = (b', int (length sg))"
    and hb: "holds (fst (silc_buffer_pull b' (length sg))) (d @ sg)" by (rule holds_format [OF h])
  have hl: "silc_buffer_headlen b = length d" using h by (auto simp: holds_def wf_buffer_lens)
  have "silc_message_signed_payload_encode J (take (silc_buffer_headlen b) (sb_mem b)) (en_public_key e) (en_private_key e) True = Some (silc_buffer_set sg)"
    using signed_payload_encode_eq [OF au True assms(3,4), of J] h by (simp add: hl holds_def sg_def)
  moreover have "sg \<noteq> []" using True by (simp add: sg_def message_sig_def signed_bytes_def SILC_PUT16_MSB_def)
  ultimately show thesis
    using True f hb l assms(5)
    by (intro that [of "fst (silc_buffer_pull b' (length sg))"])
       (simp_all add: silc_message_payload_encode_sig_def format_func_def u32_max_def)
qed

lemma encode_encrypt_holds:
  assumes hb: "holds b (pl @ rest)" and enc: "silc_cipher_encrypt c pl (en_iv e) = Some (c', v, ct)" "length ct = length pl"
    and e: "en_cipher e = Some c" "en_hmac e = Some h" "en_payload_len e = length pl" and mac: "hmac_ok h"
    and room: "length pl + length rest + 64 < SILC_MAX_ALLOC"
  defines "m \<equiv> hmac_mac h (ct @ rest @ id_str (en_sid e) @ receiver_str (en_rid e))"
  obtains b' h' where "silc_message_payload_encode_encrypt J e b = (b', int (length m), e\<lparr>en_cipher := Some c', en_hmac := Some h'\<rparr>)"
    "holds (fst (silc_buffer_pull b' (length m))) (ct @ rest @ m)" "hmac_sync h h'"
proof -
  let ?d = "pl @ rest"
  have lm: "length m = hm_len h" "hm_len h \<le> 64" using mac by (simp_all add: m_def length_mac)
  have wf: "wf_buffer b" and db: "sb_data b = length ?d" "sb_tail b = length ?d" "take (length ?d) (sb_mem b) = ?d" using hb by (auto simp: holds_def)
  obtain x where en: "silc_buffer_enlarge J b (hm_len h) = (b\<lparr>sb_mem := sb_mem b @ x, sb_tail := max (sb_tail b) (sb_data b + hm_len h)\<rparr>, True)"
    and lx: "length (sb_mem b @ x) = max (length (sb_mem b)) (sb_data b + hm_len h)"
    using enlarge_ok [OF wf, of "hm_len h" J] room lm db by auto
  define M where "M = sb_mem b @ x"
  define b1 where "b1 = b\<lparr>sb_mem := M, sb_tail := length ?d + hm_len h\<rparr>"
  have en1: "silc_buffer_enlarge J b (hm_len h) = (b1, True)" using en db by (simp add: b1_def M_def)
  have mb: "sb_mem b1 = M" by (simp add: b1_def)
  have wf1: "wf_buffer b1" using wf_enlarge [OF wf, of J "hm_len h"] en1 by simp
  have hl: "silc_buffer_headlen b1 = length ?d" using wf1 db by (simp add: wf_buffer_lens b1_def)
  have lM: "length ?d + hm_len h \<le> length M" using lx db by (simp add: M_def)
  have tM: "take (length ?d) M = ?d" using db holds_len [OF hb] by (simp add: M_def)
  then have tp: "take (length pl) M = pl" "take (length rest) (drop (length pl) M) = rest"
    by (metis append_eq_conv_conj take_take min.absorb1 le_add1 length_append)
      (metis tM take_drop length_append append_eq_conv_conj add.commute)
  define M1 where "M1 = memcpy M 0 ct"
  have tM1: "take (length ?d) M1 = ct @ rest" using tp enc(2) by (simp add: M1_def memcpy_def)
  obtain h' where h': "message_mac h [take (length ?d) M1, id_str (en_sid e), receiver_str (en_rid e)] = (h', m)" "hmac_sync h h'"
    using message_mac_eq [of h "[take (length ?d) M1, id_str (en_sid e), receiver_str (en_rid e)]"] tM1
    by (cases "message_mac h [take (length ?d) M1, id_str (en_sid e), receiver_str (en_rid e)]") (simp add: m_def)
  define b2 where "b2 = b1\<lparr>sb_mem := memcpy M1 (length ?d) m\<rparr>"
  have lM1: "length M1 = length M" using lM enc(2) by (simp add: M1_def)
  have "silc_message_payload_encrypt M (length pl) (length ?d) (en_iv e) (en_sid e) (en_rid e) c h = Some (c', h', memcpy M1 (length ?d) m)"
    using enc(1) tp h' by (simp add: silc_message_payload_encrypt_def M1_def)
  then have r: "silc_message_payload_encode_encrypt J e b = (b2, int (length m), e\<lparr>en_cipher := Some c', en_hmac := Some h'\<rparr>)"
    using en1 e hl lm h'(2) mb by (simp add: silc_message_payload_encode_encrypt_def silc_hmac_len_def b2_def hmac_sync_def)
  have wf2: "wf_buffer b2" using wf1 lM lM1 lm by (auto simp: b2_def wf_buffer_def b1_def)
  have "silc_buffer_len b2 = length m" using wf2 lm db by (simp add: wf_buffer_lens b2_def b1_def)
  then have p: "fst (silc_buffer_pull b2 (length m)) = b2\<lparr>sb_data := length ?d + length m\<rparr>" using db by (simp add: pull_ok b2_def b1_def)
  have t2: "take (length (ct @ rest) + length m) (memcpy M1 (length (ct @ rest)) m) = (ct @ rest) @ m"
    using tM1 lM lM1 enc(2) by (intro take_memcpy_end) simp_all
  have "holds (fst (silc_buffer_pull b2 (length m))) (ct @ rest @ m)"
    unfolding p using wf2 t2 enc(2) lm by (auto simp: holds_def b2_def b1_def wf_buffer_def add.assoc)
  from that [OF r this h'(2)] show thesis .
qed

lemma pad_bounds: "0 < SILC_MESSAGE_PAD n" "SILC_MESSAGE_PAD n \<le> 16" "16 dvd n + SILC_MESSAGE_PAD n"
proof -
  show "0 < SILC_MESSAGE_PAD n" "SILC_MESSAGE_PAD n \<le> 16" by (simp_all add: SILC_MESSAGE_PAD_def)
  have "n + SILC_MESSAGE_PAD n = 16 * (n div 16 + 1)"
    unfolding SILC_MESSAGE_PAD_def using mult_div_mod_eq [of 16 n] mod_less_divisor [of 16 n, OF zero_less_numeral] by arith
  then show "16 dvd n + SILC_MESSAGE_PAD n" by simp
qed

lemma datalen_fits:
  assumes "n + 22 + header_len + message_key_len flags puk prk \<le> 65529"
  shows "silc_message_payload_datalen n header_len flags puk prk = n"
  using assms by (simp add: silc_message_payload_datalen_def u32_max_def)

lemma encode_prefix:
  assumes b: "holds b []" and "length data < 65530" "length pad \<le> 16" "length iv \<le> 16" "en_flags e = flags" "en_hash e"
    and au: "message_auth flags (en_public_key e) (en_private_key e) (message_plain flags data pad) pk auth"
  shows "\<exists>b'. format_run J
      [FMT_SHORT flags, FMT_SHORT (of_nat (length data)), FMT_NSTRING (Some data) (length data),
       FMT_SHORT (of_nat (length pad)), FMT_NSTRING (Some pad) (length pad),
       FMT_FUNC (silc_message_payload_encode_sig J e), FMT_NSTRING (Some iv) (length iv)] (b, 0) =
     Inr (b', int (length (message_plain flags data pad @ message_sig flags (en_private_key e) pk auth @ iv)))
     \<and> holds b' (message_plain flags data pad @ message_sig flags (en_private_key e) pk auth @ iv)"
proof -
  define ps where "ps = [FMT_SHORT flags, FMT_SHORT (of_nat (length data)), FMT_NSTRING (Some data) (length data),
       FMT_SHORT (of_nat (length pad)), FMT_NSTRING (Some pad) (length pad)]"
  define pl where "pl = message_plain flags data pad"
  define sg where "sg = message_sig flags (en_private_key e) pk auth"
  have ps: "list_all fmt_plain ps" "fmt_all ps = pl" by (simp_all add: ps_def pl_def message_plain_def)
  have lp: "length pl < 70000" "pl \<noteq> []" using assms(2,3) by (auto simp: pl_def message_plain_def SILC_PUT16_MSB_def)
  have lg: "length sg < 140000" using length_message_sig [OF au] by (simp add: sg_def)
  from holds_run [OF b ps(1), of J 0] ps(2) lp obtain b1 where
    r1: "format_run J ps (b, 0) = Inr (b1, int (length pl))" and h1: "holds b1 pl" by (auto simp: SILC_MAX_ALLOC_def)
  have "message_auth (en_flags e) (en_public_key e) (en_private_key e) pl pk auth" using au assms(5) by (simp add: pl_def)
  from encode_sig_holds [OF h1 this lp(2,1) assms(6), of J "int (length pl)"] assms(5) obtain b2 where
    r2: "format_step J (FMT_FUNC (silc_message_payload_encode_sig J e)) (b1, int (length pl)) = Inr (b2, int (length pl) + int (length sg))"
    and h2: "holds b2 (pl @ sg)" by (auto simp: sg_def)
  have "length (pl @ sg) + length (fmt_all [FMT_NSTRING (Some iv) (length iv)]) < SILC_MAX_ALLOC"
    using lp lg assms(4) by (simp add: SILC_MAX_ALLOC_def)
  from holds_run [OF h2 _ this, of J "int (length pl) + int (length sg)"] obtain b3 where
    r3: "format_run J [FMT_NSTRING (Some iv) (length iv)] (b2, int (length pl) + int (length sg)) =
      Inr (b3, int (length pl) + int (length sg) + int (length iv))" and h3: "holds b3 ((pl @ sg) @ iv)" by auto
  have "format_run J (ps @ [FMT_FUNC (silc_message_payload_encode_sig J e)] @ [FMT_NSTRING (Some iv) (length iv)]) (b, 0) =
    Inr (b3, int (length pl) + int (length sg) + int (length iv))"
    unfolding format_run_append r1 using r2 r3 by (simp del: format_step.simps(1))
  then show ?thesis using h3 unfolding pl_def [symmetric] sg_def [symmetric] by (intro exI [of _ b3]) (simp add: ps_def)
qed

lemma format_encrypted:
  assumes b: "holds b []" and "length data < 65530" "length pad \<le> 16" "length iv \<le> 16" "en_flags e = flags" "en_hash e"
    and au: "message_auth flags (en_public_key e) (en_private_key e) (message_plain flags data pad) pk auth" and mac: "hmac_ok h"
    and e: "en_cipher e = Some c" "en_hmac e = Some h" "en_payload_len e = length (message_plain flags data pad)"
    and enc: "silc_cipher_encrypt c (message_plain flags data pad) (en_iv e) = Some (c', v, ct)" "length ct = length (message_plain flags data pad)"
    and body: "body = ct @ message_sig flags (en_private_key e) pk auth @ iv"
  shows "\<exists>b' h'. message_format J e data (length data) pad iv b = Some (b', e\<lparr>en_cipher := Some c', en_hmac := Some h'\<rparr>)
    \<and> wf_buffer b' \<and> sb_bytes b' = body @ hmac_mac h (body @ id_str (en_sid e) @ receiver_str (en_rid e)) \<and> hmac_sync h h'"
proof -
  let ?pl = "message_plain flags data pad" and ?sg = "message_sig flags (en_private_key e) pk auth"
  from encode_prefix [OF assms(1-7), of J] obtain b1 where
    run: "format_run J
      [FMT_SHORT flags, FMT_SHORT (of_nat (length data)), FMT_NSTRING (Some data) (length data),
       FMT_SHORT (of_nat (length pad)), FMT_NSTRING (Some pad) (length pad),
       FMT_FUNC (silc_message_payload_encode_sig J e), FMT_NSTRING (Some iv) (length iv)] (b, 0) =
     Inr (b1, int (length (?pl @ ?sg @ iv)))" and hb: "holds b1 (?pl @ ?sg @ iv)" by blast
  have "length ?sg < 140000" using au by (rule length_message_sig)
  then have sum: "length ?pl + length (?sg @ iv) + 64 < SILC_MAX_ALLOC"
    using assms(2-4) by (simp add: SILC_MAX_ALLOC_def length_message_plain)
  define m where "m = hmac_mac h (body @ id_str (en_sid e) @ receiver_str (en_rid e))"
  obtain b' h' where ee: "silc_message_payload_encode_encrypt J e b1 = (b', int (length m), e\<lparr>en_cipher := Some c', en_hmac := Some h'\<rparr>)"
    and hb': "holds (fst (silc_buffer_pull b' (length m))) (body @ m)" and hs: "hmac_sync h h'"
    using encode_encrypt_holds [OF hb enc e mac sum, of J] by (auto simp: m_def body)
  have bl: "length (?pl @ ?sg @ iv) = length body" using enc(2) by (simp add: body)
  have pull0: "fst (silc_buffer_pull b' 0) = b'" by (simp add: silc_buffer_pull_def)
  have fin: "silc_buffer_sformat_vp J [FMT_FUNC (\<lambda>_. (b', int (length m)))] False (b1, int (length body)) =
      (format_finish False (fst (silc_buffer_pull b' (length m)), int (length (body @ m))), int (length (body @ m)))"
    using pull0 by (cases "length m = 0") (simp_all add: format_func_def)
  have "message_format J e data (length data) pad iv b =
      Some (format_finish False (fst (silc_buffer_pull b' (length m)), int (length (body @ m))), e\<lparr>en_cipher := Some c', en_hmac := Some h'\<rparr>)"
    unfolding message_format_def assms(5) run bl sum.case prod.case ee Let_def fin by simp
  with holds_finish [OF hb'] hs show ?thesis unfolding m_def by blast
qed

lemma format_unencrypted:
  assumes b: "holds b []" and "length data < 65530" "length pad \<le> 16" "length iv \<le> 16" "en_flags e = flags" "en_hash e"
    and au: "message_auth flags (en_public_key e) (en_private_key e) (message_plain flags data pad) pk auth"
    and e: "en_cipher e = None"
  shows "\<exists>b'. message_format J e data (length data) pad iv b = Some (b', e)
    \<and> wf_buffer b' \<and> sb_bytes b' = message_plain flags data pad @ message_sig flags (en_private_key e) pk auth @ iv"
proof -
  let ?d = "message_plain flags data pad @ message_sig flags (en_private_key e) pk auth @ iv"
  from encode_prefix [OF assms(1-7), of J] obtain b1 where
    run: "format_run J
      [FMT_SHORT flags, FMT_SHORT (of_nat (length data)), FMT_NSTRING (Some data) (length data),
       FMT_SHORT (of_nat (length pad)), FMT_NSTRING (Some pad) (length pad),
       FMT_FUNC (silc_message_payload_encode_sig J e), FMT_NSTRING (Some iv) (length iv)] (b, 0) =
     Inr (b1, int (length ?d))" and hb: "holds b1 ?d" by blast
  have ee: "silc_message_payload_encode_encrypt J e b1 = (b1, 0, e)" using e by (simp add: silc_message_payload_encode_encrypt_def)
  have fin: "silc_buffer_sformat_vp J [FMT_FUNC (\<lambda>_. (b1, 0))] False (b1, int (length ?d)) = (format_finish False (b1, int (length ?d)), int (length ?d))"
    by (simp add: format_func_def)
  have "message_format J e data (length data) pad iv b = Some (format_finish False (b1, int (length ?d)), e)"
    unfolding message_format_def assms(5) run sum.case prod.case ee Let_def fin by simp
  then show ?thesis using holds_finish [OF hb] by blast
qed

text \<open>The bytes of an encoded message, with and without a cipher.\<close>

definition iv_length :: "bool \<Rightarrow> bool \<Rightarrow> nat" where
  "iv_length private_message generate_iv = (if \<not> private_message \<or> generate_iv then 16 else 0)"

lemma buffer_start:
  assumes "pred_option wf_buffer buffer"
  obtains b where "(case buffer of None \<Rightarrow> silc_buffer_alloc 0 | Some b \<Rightarrow> Some b) = Some b" "holds (silc_buffer_reset b) []"
  using assms by (cases buffer) (auto simp: silc_buffer_alloc_def holds_reset)

lemma message_encode:
  assumes bu: "pred_option wf_buffer buffer" and data: "data \<noteq> []" and ivl: "iv_len = iv_length private_message generate_iv"
    and fits: "length data + 22 + hm_len h + iv_len + message_key_len flags puk prk \<le> 65529"
    and iv: "iv = map rnd [0..<iv_len]" and pad: "pad = map (\<lambda>i. rnd (iv_len + i)) [0..<SILC_MESSAGE_PAD (6 + length data)]"
    and au: "message_auth flags puk prk (message_plain flags data pad) pk auth" and mac: "hmac_ok h"
    and enc: "silc_cipher_encrypt c (message_plain flags data pad) (if iv_len = 0 then None else Some iv) = Some (c', v, ct)"
      "length ct = length (message_plain flags data pad)"
    and body: "body = ct @ message_sig flags prk pk auth @ iv"
  shows "\<exists>b e' h'. silc_message_payload_encode J rnd flags data (length data) generate_iv private_message (Some c) (Some h) puk prk True
      sid rid buffer = Some (b, e') \<and> wf_buffer b \<and> sb_bytes b = body @ hmac_mac h (body @ id_str sid @ receiver_str rid)
      \<and> en_cipher e' = Some c' \<and> en_hmac e' = Some h' \<and> hmac_sync h h'"
proof -
  from bu obtain b0 where b0: "(case buffer of None \<Rightarrow> silc_buffer_alloc 0 | Some b \<Rightarrow> Some b) = Some b0" "holds (silc_buffer_reset b0) []"
    by (rule buffer_start)
  have l16: "length pad \<le> 16" "length iv \<le> 16" "length data < 65530"
    using iv pad pad_bounds(2) [of "6 + length data"] fits by (simp_all add: ivl iv_length_def)
  have lpl: "cast16 (6 + length data + length pad) = length (message_plain flags data pad)"
    using fits l16 by (simp add: cast16_def length_message_plain)
  define e where "e = \<lparr>en_flags = flags, en_public_key = puk, en_private_key = prk, en_hash = True, en_cipher = Some c, en_hmac = Some h,
      en_iv = (if iv_len = 0 then None else Some iv), en_payload_len = cast16 (6 + length data + length pad), en_sid = sid, en_rid = rid\<rparr>"
  have gi: "(if (if \<not> private_message \<and> \<not> generate_iv then True else generate_iv) then silc_cipher_get_block_len c else 0) = iv_len"
    by (simp add: ivl silc_cipher_get_block_len_def iv_length_def)
  have dl: "silc_message_payload_datalen (length data) (hm_len h + iv_len) flags puk prk = length data"
    using fits by (intro datalen_fits) simp
  have a32: "add32 6 (length data) = 6 + length data" using fits by (simp add: add32_def u32_max_def)
  have "silc_message_payload_encode J rnd flags data (length data) generate_iv private_message (Some c) (Some h) puk prk True sid rid buffer =
      message_format J e data (length data) pad iv (silc_buffer_reset b0)"
    unfolding silc_message_payload_encode_def b0(1) option.case Let_def gi silc_hmac_len_def dl a32 e_def iv pad
    using data by simp
  moreover have "\<exists>b' h'. message_format J e data (length data) pad iv (silc_buffer_reset b0) = Some (b', e\<lparr>en_cipher := Some c', en_hmac := Some h'\<rparr>)
    \<and> wf_buffer b' \<and> sb_bytes b' = body @ hmac_mac h (body @ id_str (en_sid e) @ receiver_str (en_rid e)) \<and> hmac_sync h h'"
    by (rule format_encrypted [OF b0(2) l16(3) l16(1) l16(2), where flags = flags and pk = pk and auth = auth and c = c and v = v and ct = ct])
       (use au mac enc body lpl in \<open>simp_all add: e_def\<close>)
  ultimately show ?thesis by (auto simp: e_def)
qed

lemma message_encode_plain:
  assumes bu: "pred_option wf_buffer buffer" and data: "data \<noteq> []"
    and fits: "length data + 22 + message_key_len flags puk prk \<le> 65529"
    and pad: "pad = map J [0..<SILC_MESSAGE_PAD (6 + length data)]"
    and au: "message_auth flags puk prk (message_plain flags data pad) pk auth"
  shows "\<exists>b e'. silc_message_payload_encode J rnd flags data (length data) generate_iv True None None puk prk True
      sid rid buffer = Some (b, e') \<and> wf_buffer b \<and> sb_bytes b = message_plain flags data pad @ message_sig flags prk pk auth"
proof -
  from bu obtain b0 where b0: "(case buffer of None \<Rightarrow> silc_buffer_alloc 0 | Some b \<Rightarrow> Some b) = Some b0" "holds (silc_buffer_reset b0) []"
    by (rule buffer_start)
  have l16: "length pad \<le> 16" "length data < 65530"
    using pad pad_bounds(2) [of "6 + length data"] fits by simp_all
  define e where "e = \<lparr>en_flags = flags, en_public_key = puk, en_private_key = prk, en_hash = True, en_cipher = None, en_hmac = None,
      en_iv = None, en_payload_len = cast16 (6 + length data + length pad), en_sid = sid, en_rid = rid\<rparr>"
  have dl: "silc_message_payload_datalen (length data) 0 flags puk prk = length data"
    using fits by (intro datalen_fits) simp
  have a32: "add32 6 (length data) = 6 + length data" using fits by (simp add: add32_def u32_max_def)
  have "silc_message_payload_encode J rnd flags data (length data) generate_iv True None None puk prk True sid rid buffer =
      message_format J e data (length data) pad [] (silc_buffer_reset b0)"
    unfolding silc_message_payload_encode_def b0(1) option.case Let_def e_def pad
    using data dl a32 by simp
  moreover have "\<exists>b'. message_format J e data (length data) pad [] (silc_buffer_reset b0) = Some (b', e)
    \<and> wf_buffer b' \<and> sb_bytes b' = message_plain flags data pad @ message_sig flags (en_private_key e) pk auth @ []"
    by (rule format_unencrypted [OF b0(2) l16(2,1)]) (use au in \<open>simp_all add: e_def\<close>)
  ultimately show ?thesis by (auto simp: e_def)
qed

end
