(* ===== verification/Silc_Message_Codec.thy ===== *)
theory Silc_Message_Codec
  imports Silc_Message_Wire
begin

text \<open>
  The receiver of message payloads: parsing, decryption and verification of what the encoder made,
  what is refused, and the limits of lengths.
\<close>

section \<open>The parser\<close>

definition signature_of :: "bytes option \<Rightarrow> u16 \<Rightarrow> bytes \<Rightarrow> silc_message_signed" where
  "signature_of pk t auth =
     \<lparr>sg_pk_data = (if opt_bytes pk = [] then None else Some (opt_bytes pk)), sg_sign_data = Some auth,
      sg_pk_len = of_nat (length (opt_bytes pk)), sg_pk_type = t, sg_sign_len = of_nat (length auth)\<rparr>"

lemma unat_of_nat_16: "n < 65536 \<Longrightarrow> unat (of_nat n :: u16) = n"
  by (simp add: unat_of_nat)

lemma signed_parse_eq:
  assumes "length (opt_bytes pk) < 65536" and "auth \<noteq> []" "length auth < 65536"
  shows "silc_message_signed_payload_parse (signed_bytes pk t auth) = Some (signature_of pk t auth)"
proof -
  define k where "k = opt_bytes pk"
  define D where "D = signed_bytes pk t auth"
  have D: "D = SILC_PUT16_MSB (of_nat (length k)) @ SILC_PUT16_MSB t @ k @ SILC_PUT16_MSB (of_nat (length auth)) @ auth"
    by (simp add: D_def signed_bytes_def k_def)
  have lk: "length k < 65536" using assms(1) by (simp add: k_def)
  have len: "length D = 6 + length k + length auth" by (simp add: D)
  then have lD: "length D < u32_max" "4 \<le> length D" using lk assms(3) by (simp_all add: u32_max_def)
  have dr: "drop 4 D = k @ SILC_PUT16_MSB (of_nat (length auth)) @ auth" by (simp add: D)
  have h: "parse_all [UNF_UI16_SHORT, UNF_UI16_SHORT] D = Some ([V16 (of_nat (length k)), V16 t], drop 4 D)"
    unfolding dr by (simp add: D parse_UI16 del: parse_step.simps)
  have u: "unat (of_nat (length k) :: u16) = length k" "unat (of_nat (length auth) :: u16) = length auth"
    using lk assms(3) by (simp_all add: unat_of_nat_16)
  have n2: "parse_step UNF_UI16_NSTRING_ALLOC (SILC_PUT16_MSB (of_nat (length auth)) @ auth) = Some ([V16 (of_nat (length auth)), VPtr (Some auth)], [])"
    using parse_NSTRING16_ALLOC [OF u(2), of "[]"] assms(2,3) by simp
  have b: "parse_all [UNF_DATA_ALLOC (length k), UNF_UI16_NSTRING_ALLOC] (drop 4 D) =
      Some ([VPtr (if k = [] then None else Some k), V16 (of_nat (length auth)), VPtr (Some auth)], [])"
    unfolding dr using n2 lk by (simp add: parse_DATA_ALLOC u32_max_def del: parse_step.simps)
  have pull: "fst (silc_buffer_pull (silc_buffer_set D) 4) = adv (silc_buffer_set D) 4" using lD by (simp add: pull_set)
  have bl: "silc_buffer_len (adv (silc_buffer_set D) 4) = length D - 4" using lD by (simp add: adv_set_facts)
  have s1: "sub32 (length D) 4 = length D - 4" "sub32 (sub32 (length D - 4) (length k)) 2 = length auth"
    using lD len by (simp_all add: silc_arith)
  have "silc_message_signed_payload_parse D = Some (signature_of pk t auth)"
    unfolding silc_message_signed_payload_parse_def
    using h b lD pull s1 bl u len assms(2)
    by (simp add: with_unformat_set with_unformat_adv signature_of_def k_def [symmetric])
  then show ?thesis by (simp add: D_def)
qed

lemma message_parse_eq:
  assumes "data \<noteq> []" "length data < 65536" "pad \<noteq> []" "length pad < 65536"
    and au: "message_auth flags puk prk mp pk auth" and tr: "length tr = iv_len + mac_len" "length tr < 1000"
  defines "P \<equiv> message_plain flags data pad @ message_sig flags prk pk auth @ tr"
  shows "message_parse P mac_len iv_len ptr =
    Some \<lparr>ms_data = Some data, ms_pad = Some pad, ms_mac = (if mac_len = 0 then None else Some (drop iv_len tr)),
          ms_sig = (if message_signed flags then signature_of pk (prk_type (the prk)) auth else no_signature),
          ms_flags = flags, ms_data_len = of_nat (length data), ms_pad_len = of_nat (length pad)\<rparr>"
proof -
  let ?sg = "message_sig flags prk pk auth"
  define r where "r = ?sg @ tr"
  have P: "P = SILC_PUT16_MSB flags @ SILC_PUT16_MSB (of_nat (length data)) @ data @ SILC_PUT16_MSB (of_nat (length pad)) @ pad @ r"
    by (simp add: P_def message_plain_def r_def)
  have lsg: "length ?sg < 140000" using au by (rule length_message_sig)
  have len: "length P = 6 + length data + length pad + length ?sg + length tr" by (simp add: P r_def)
  then have lP: "length P < u32_max" using assms lsg by (simp add: u32_max_def)
  have u: "unat (of_nat (length data) :: u16) = length data" "unat (of_nat (length pad) :: u16) = length pad"
    using assms by (simp_all add: unat_of_nat_16)
  have pa: "parse_all (if ptr then [UNF_UI16_SHORT, UNF_UI16_NSTRING, UNF_UI16_NSTRING]
        else [UNF_UI16_SHORT, UNF_UI16_NSTRING_ALLOC, UNF_UI16_NSTRING_ALLOC]) P =
      Some ([V16 flags, V16 (of_nat (length data)), VPtr (Some data), V16 (of_nat (length pad)), VPtr (Some pad)], r)"
    unfolding P using assms(1-4) u by (auto simp: parse_UI16 parse_NSTRING16 parse_NSTRING16_ALLOC simp del: parse_step.simps)
  have pl: "list_all unf_plain (if ptr then [UNF_UI16_SHORT, UNF_UI16_NSTRING, UNF_UI16_NSTRING]
        else [UNF_UI16_SHORT, UNF_UI16_NSTRING_ALLOC, UNF_UI16_NSTRING_ALLOC])" by simp
  have sub: "sub32 (sub32 (sub32 (length P) 6) mac_len) iv_len = length data + length pad + length ?sg"
    using lP len tr by (simp add: silc_arith)
  have drop_sg: "take (length P - iv_len - mac_len - 6 - (length data + length pad)) (drop (6 + (length data + length pad)) P) = ?sg"
    using len tr by (simp add: P r_def)
  have mac: "drop (length P - mac_len) P = drop iv_len tr"
  proof -
    have "length P - mac_len = length (message_plain flags data pad @ ?sg) + iv_len" using len tr by (simp add: length_message_plain)
    moreover have "P = (message_plain flags data pad @ ?sg) @ tr" by (simp add: P_def)
    ultimately show ?thesis by (simp only: drop_append) simp
  qed
  have sg: "(if message_signed flags \<and> length data + length pad + 6 + mac_len + iv_len < length P then silc_message_signed_payload_parse ?sg
      else Some no_signature) = Some (if message_signed flags then signature_of pk (prk_type (the prk)) auth else no_signature)"
  proof (cases "message_signed flags")
    case True
    then have "silc_message_signed_payload_parse ?sg = Some (signature_of pk (prk_type (the prk)) auth)" "0 < length ?sg"
      using au signed_parse_eq [of pk auth "prk_type (the prk)"] by (auto simp: message_auth_def message_sig_def signed_bytes_def SILC_PUT16_MSB_def)
    then show ?thesis using True len tr by simp
  qed simp
  show ?thesis
    unfolding message_parse_def with_unformat_set [OF lP pl] pa option.case prod.case list.case unf_val.case Let_def u len_set [OF lP]
      sb_bytes_set sub drop_sg sg mac
    by simp
qed

section \<open>Decryption\<close>

lemma memcpy_mid: "length a' = length a \<Longrightarrow> memcpy (p @ a @ b) (length p) a' = p @ a' @ b"
  by (simp add: memcpy_def)

lemma check_mac_own:
  assumes "hmac_sync hs hr" "hmac_ok hs"
  shows "\<exists>hr'. message_check_mac hr (body @ hmac_mac hs (body @ sid @ rid)) sid rid = (hr', True) \<and> hmac_sync hr hr'"
proof -
  define m where "m = hmac_mac hs (body @ sid @ rid)"
  have lm: "length m = hm_len hr" using assms by (simp add: m_def length_mac hmac_sync_def)
  have "snd (message_mac hr [body, sid, rid]) = m" using hmac_sync_mac [OF assms(1)] by (simp add: message_mac_eq m_def)
  then show ?thesis
    using lm message_mac_eq(2) [of hr "[body, sid, rid]"]
    by (cases "message_mac hr [body, sid, rid]") (simp add: message_check_mac_def silc_hmac_len_def Let_def flip: m_def)
qed

lemma message_len_field:
  assumes "16 \<le> length (message_plain flags data pad)" "length data < 65536"
  shows "unat (SILC_GET16_MSB (drop 2 (take 16 (message_plain flags data pad) @ r))) = length data"
proof -
  have "drop 2 (take 16 (message_plain flags data pad) @ r) = SILC_PUT16_MSB (of_nat (length data))
      @ take 12 (data @ SILC_PUT16_MSB (of_nat (length pad)) @ pad) @ r"
    using assms(1) by (simp add: message_plain_def SILC_PUT16_MSB_def)
  then show ?thesis using assms(2) by (simp only: unat_of_nat_16 GET16_PUT16_MSB)
qed

lemma decrypt_own:
  assumes h: "hmac_sync hs hr" "hmac_ok hs"
    and pl: "pl = message_plain flags data pad" "length pad = SILC_MESSAGE_PAD (6 + length data)" "length data < 65520"
    and nb: "length pl = 16 + 16 * nb"
    and iv: "length iv = iv_len" "iv_len = message_iv_len r private_message static_key"
    and ct: "length ct = length pl"
    and d1: "silc_cipher_decrypt r (take 16 ct) (if iv_len = 0 then None else Some iv) = Some (r1, iv1, take 16 pl)" "length iv1 = 16"
    and d2: "silc_cipher_decrypt r1 (drop 16 ct) (map_option (\<lambda>_. iv1) (if iv_len = 0 then None else Some iv)) = Some (r2, v2, drop 16 pl)"
      "length v2 = 16"
    and body: "body = ct @ sg @ iv"
  shows "\<exists>hr' tr. silc_message_payload_decrypt (body @ hmac_mac hs (body @ sid @ rid)) private_message static_key r hr sid rid True =
      Some (if nb = 0 then r1 else r2, hr', pl @ sg @ tr, True) \<and> hmac_sync hr hr'
      \<and> length tr = iv_len + hm_len hs \<and> drop iv_len tr = hmac_mac hs (body @ sid @ rid)"
proof -
  define m where "m = hmac_mac hs (body @ sid @ rid)"
  define W where "W = body @ m"
  have lm: "length m = hm_len hs" "hm_len hr = hm_len hs" using h by (simp_all add: m_def length_mac hmac_sync_def)
  have i16: "iv_len = 0 \<or> iv_len = 16" using iv(2) by (simp add: message_iv_len_def silc_cipher_get_block_len_def)
  define off where "off = length (ct @ sg)"
  have W: "W = (ct @ sg) @ iv @ m" by (simp add: W_def body)
  have lW: "length W = length pl + length sg + iv_len + hm_len hs" using lm ct iv by (simp add: W)
  have lpl: "length pl = 6 + length data + SILC_MESSAGE_PAD (6 + length data)" using pl by (simp add: length_message_plain)
  obtain hr' where mac: "message_check_mac hr W sid rid = (hr', True)" "hmac_sync hr hr'"
    using check_mac_own [OF h, of body sid rid] by (auto simp: W_def m_def)
  define iv' where "iv' = (\<lambda>x. if iv_len = 0 then [] else x :: bytes)"
  have iv': "iv' iv = iv" "length (iv' x) = iv_len \<longleftrightarrow> iv_len = 0 \<or> length x = iv_len" for x using iv(1) by (auto simp: iv'_def)
  have put: "put_iv iv_len off x (p @ sg @ iv' y @ m) = p @ sg @ iv' x @ m" if "length p = length ct" "length x = 16" "length y = 16 \<or> iv_len = 0" for x y p
    using memcpy_mid [of x y "p @ sg" m] that i16 by (auto simp: put_iv_def iv'_def off_def)
  have first: "take 16 W = take 16 ct" using nb ct by (simp add: W)
  have ivarg: "(if iv_len = 0 then None else Some (take 16 (drop off (p @ sg @ iv' x @ m)))) = (if iv_len = 0 then None else Some x)"
    if "length p = length ct" "iv_len = 16 \<Longrightarrow> length x = 16" for p x using that i16 by (auto simp: off_def iv'_def)
  have offW: "length W - iv_len - hm_len hr = off" using lW lm ct by (simp add: off_def)
  define D1 where "D1 = take 16 pl @ (drop 16 ct @ sg @ iv' iv1 @ m)"
  have D1: "put_iv iv_len off iv1 (memcpy W 0 (take 16 pl)) = D1"
  proof -
    have "memcpy W 0 (take 16 pl) = (take 16 pl @ drop 16 ct) @ sg @ iv' iv @ m"
      using nb ct by (simp add: W memcpy_def iv')
    then show ?thesis using put [of "take 16 pl @ drop 16 ct" iv1 iv] nb ct d1(2) iv i16 by (auto simp: D1_def)
  qed
  have lD1: "length D1 = length W" using lW nb ct lm d1(2) i16 by (auto simp: D1_def iv'_def)
  have field: "unat (SILC_GET16_MSB (drop 2 D1)) = length data"
    unfolding D1_def pl(1) using nb pl(1,3) by (intro message_len_field) simp_all
  have tot: "cast16 (4 + length data) = 4 + length data" "cast16 (4 + length data + 2) = 6 + length data" using pl(3) by (simp_all add: cast16_def)
  have nolen: "\<not> length D1 < 4 + length data + iv_len + hm_len hr + 2" using lD1 lW lpl lm by simp
  have padb: "SILC_MESSAGE_PAD (6 + length data) \<le> 16" "0 < SILC_MESSAGE_PAD (6 + length data)" by (rule pad_bounds)+
  have rest: "message_decrypt_rest D1 iv_len off r1 (hm_len hr) =
      Some (if nb = 0 then r1 else r2, pl @ sg @ iv' (if nb = 0 then iv1 else v2) @ m, True)"
  proof (cases "nb = 0")
    case True
    then have "6 + length data < 16" using nb lpl padb by linarith
    moreover have "pl = take 16 pl" "drop 16 ct = []" using True nb ct by simp_all
    ultimately show ?thesis
      using True nolen field tot by (simp add: message_decrypt_rest_def silc_cipher_get_block_len_def Let_def) (simp add: D1_def)
  next
    case False
    then have ge: "16 \<le> 6 + length data" and n: "6 + length data - 16 + SILC_MESSAGE_PAD (6 + length data) = 16 * nb"
      using nb lpl padb by linarith+
    have "length D1 \<ge> 16 + 16 * nb" "off \<ge> 16 + 16 * nb" using lD1 lW nb ct by (simp_all add: off_def)
    moreover have "take (16 * nb) (drop 16 D1) = drop 16 ct" using nb ct by (simp add: D1_def)
    moreover have "(if iv_len = 0 then None else Some (take 16 (drop off D1))) = map_option (\<lambda>_. iv1) (if iv_len = 0 then None else Some iv)"
    proof -
      have "D1 = (take 16 pl @ drop 16 ct) @ sg @ iv' iv1 @ m" by (simp add: D1_def)
      then have "(if iv_len = 0 then None else Some (take 16 (drop off D1))) = (if iv_len = 0 then None else Some iv1)"
        by (simp only:) (rule ivarg, use nb ct d1(2) in simp_all)
      then show ?thesis by simp
    qed
    moreover have "put_iv iv_len off v2 (memcpy D1 16 (drop 16 pl)) = pl @ sg @ iv' v2 @ m"
    proof -
      have "memcpy D1 16 (drop 16 pl) = pl @ sg @ iv' iv1 @ m"
        using memcpy_mid [of "drop 16 pl" "drop 16 ct" "take 16 pl" "sg @ iv' iv1 @ m"] nb ct by (simp add: D1_def)
      then show ?thesis using put [of pl v2 iv1] ct d1(2) d2(2) by simp
    qed
    ultimately show ?thesis
      unfolding message_decrypt_rest_def Let_def field tot silc_cipher_get_block_len_def n
      using nolen ge False d2(1) by simp
  qed
  have "silc_message_payload_decrypt W private_message static_key r hr sid rid True =
      Some (if nb = 0 then r1 else r2, hr', pl @ sg @ iv' (if nb = 0 then iv1 else v2) @ m, True)"
  proof -
    have "\<not> length W < hm_len hr + iv_len + 16" using lW nb lm by simp
    moreover have "(if iv_len = 0 then None else Some (take 16 (drop off W))) = (if iv_len = 0 then None else Some iv)"
    proof -
      have "W = ct @ sg @ iv' iv @ m" by (simp add: W iv')
      then show ?thesis by (simp only:) (rule ivarg, use iv(1) i16 in auto)
    qed
    ultimately show ?thesis
      unfolding silc_message_payload_decrypt_def Let_def iv(2) [symmetric] silc_hmac_len_def silc_cipher_get_block_len_def offW first
      using mac(1) d1(1) D1 rest by simp
  qed
  moreover have "length (iv' (if nb = 0 then iv1 else v2)) = iv_len" using i16 d1(2) d2(2) by (auto simp: iv'_def)
  ultimately show ?thesis
    using mac(2) lm by (intro exI [of _ hr'] exI [of _ "iv' (if nb = 0 then iv1 else v2) @ m"]) (simp add: W_def m_def)
qed

section \<open>Verification\<close>

lemma verify_own:
  assumes au: "message_auth flags puk prk (message_plain flags data pad) pk auth" and sg: "message_signed flags"
    and l: "length data < 65536" "length pad \<le> 16"
    and m: "ms_sig m = signature_of pk (prk_type (the prk)) auth" "ms_flags m = flags" "ms_data m = Some data" "ms_pad m = Some pad"
      "ms_data_len m = of_nat (length data)" "ms_pad_len m = of_nat (length pad)"
    and K: "\<And>d a. prk_sign (the prk) d = Some a \<Longrightarrow> puk_verify K a d"
  shows "silc_message_signed_verify J m (Some K) True = Some True"
proof -
  let ?ps = "[FMT_SHORT flags, FMT_SHORT (of_nat (length data)), FMT_NSTRING (Some data) (length data), FMT_SHORT (of_nat (length pad)),
      FMT_NSTRING (Some pad) (length pad)]"
  let ?n = "6 + length data + length pad"
  obtain p where p: "prk = Some p" "prk_sign p (signed_data (message_plain flags data pad) pk (prk_type p)) = Some auth"
    and lk: "length (opt_bytes pk) < 65536" "auth \<noteq> []" "length auth < 65536" using au sg by (auto simp: message_auth_def)
  have n: "?n < SILC_MAX_ALLOC" using l by (simp add: SILC_MAX_ALLOC_def)
  have tmp: "fst (silc_buffer_format J \<lparr>sb_mem = replicate ?n 0, sb_data = 0, sb_tail = ?n\<rparr> ?ps) = silc_buffer_set (message_plain flags data pad)"
    using format_alloc [of ?n ?ps J] n by (simp add: message_plain_def)
  have al: "silc_buffer_alloc_size ?n = Some \<lparr>sb_mem = replicate ?n 0, sb_data = 0, sb_tail = ?n\<rparr>" using n by (simp add: alloc_size_Some)
  define pk' where "pk' = (if opt_bytes pk = [] then None else Some (opt_bytes pk))"
  have pk': "opt_bytes pk' = opt_bytes pk" by (simp add: pk'_def) (simp add: opt_bytes_def)
  have sd: "silc_message_signed_encode_data J (message_plain flags data pad) pk' (length (opt_bytes pk')) (prk_type p) =
      Some (silc_buffer_set (signed_data (message_plain flags data pad) pk (prk_type p)))"
    using signed_encode_data_eq [of "message_plain flags data pad" pk' J "prk_type p"] l lk
    by (simp add: pk' signed_data_def SILC_MAX_ALLOC_def length_message_plain)
  have u: "unat (of_nat (length data) :: u16) = length data" "unat (of_nat (length pad) :: u16) = length pad"
    "unat (of_nat (length (opt_bytes pk)) :: u16) = length (opt_bytes pk')" "(of_nat (length auth) :: u16) \<noteq> 0"
    using l lk pk' by (simp_all add: unat_of_nat_16) (metis unat_of_nat_16 unat_0 length_0_conv)
  have sgf: "sg_pk_data (ms_sig m) = pk'" "sg_sign_data (ms_sig m) = Some auth" "sg_pk_len (ms_sig m) = of_nat (length (opt_bytes pk))"
    "sg_pk_type (ms_sig m) = prk_type p" "sg_sign_len (ms_sig m) = of_nat (length auth)"
    using p(1) by (simp_all add: m(1) signature_of_def pk'_def)
  have "puk_verify K auth (signed_data (message_plain flags data pad) pk (prk_type p))" using K p by simp
  then show ?thesis
    unfolding silc_message_signed_verify_def Let_def m(2-6) sgf u(1-3) al option.case tmp sb_bytes_set sd
    using sg u(4) by simp
qed

section \<open>Properties\<close>

definition can_sign :: "u16 \<Rightarrow> silc_public_key option \<Rightarrow> silc_private_key option \<Rightarrow> bool" where
  "can_sign flags puk prk \<longleftrightarrow>
     (message_signed flags \<longrightarrow>
        (\<exists>p. prk = Some p \<and> (\<forall>d. \<exists>a. prk_sign p d = Some a \<and> a \<noteq> [] \<and> length a < 65536))
        \<and> (\<forall>k. puk = Some k \<longrightarrow> (\<exists>d. puk_encode k = Some d \<and> length d < 65536)))"

lemma can_sign_auth:
  assumes "can_sign flags puk prk"
  obtains pk auth where "message_auth flags puk prk mp pk auth"
proof (cases "message_signed flags")
  case False
  then show thesis by (intro that [of None "[]"]) (simp add: message_auth_def)
next
  case True
  define pk where "pk = (case puk of None \<Rightarrow> None | Some k \<Rightarrow> puk_encode k)"
  obtain p where p: "prk = Some p" "\<forall>d. \<exists>a. prk_sign p d = Some a \<and> a \<noteq> [] \<and> length a < 65536"
    using assms True by (auto simp: can_sign_def)
  obtain a where "prk_sign p (signed_data mp pk (prk_type p)) = Some a" "a \<noteq> []" "length a < 65536" using p(2) by blast
  moreover have "\<forall>k. puk = Some k \<longrightarrow> (\<exists>d. puk_encode k = Some d \<and> length d < 65536)" using assms True by (simp add: can_sign_def)
  ultimately show thesis
    using p(1) by (intro that [of pk a]) (auto simp: message_auth_def pk_def opt_bytes_def split: option.splits)
qed

text \<open>
  C2. A channel message or a private message with its own key that was encoded, signed, encrypted and
  given a MAC is accepted by the receiver with the flags and the data of the sender, whatever the
  padding and the initial vector are and whether the vector is in the message; its signature verifies; and
  the ciphers of both ends correspond again for the next message.
\<close>

theorem silc_message_payload_roundtrip:
  assumes "cipher_sync s r" and "hmac_sync hs hr" and "hmac_ok hs" and "pred_option wf_buffer buffer" and "data \<noteq> []"
    and "length data + 22 + hm_len hs + iv_length private_message generate_iv + message_key_len flags puk prk \<le> 65529"
    and "private_message \<longrightarrow> static_key = generate_iv" and "can_sign flags puk prk"
  shows "\<exists>b e s' hs' r' hr' payload m.
    silc_message_payload_encode J rnd flags data (length data) generate_iv private_message (Some s) (Some hs) puk prk True sid rid buffer = Some (b, e)
    \<and> en_cipher e = Some s' \<and> en_hmac e = Some hs'
    \<and> silc_message_payload_parse (sb_bytes b) private_message static_key (Some r) (Some hr) (id_str sid) (receiver_str rid) no_allocation =
        Some (Some r', Some hr', payload, Some m)
    \<and> silc_message_get_flags m = flags \<and> silc_message_get_data m = (Some data, length data)
    \<and> (message_signed flags \<and> (\<forall>d a. prk_sign (the prk) d = Some a \<longrightarrow> puk_verify K a d) \<longrightarrow> silc_message_signed_verify J m (Some K) True = Some True)
    \<and> cipher_sync s' r' \<and> hmac_sync hs' hr'"
proof -
  define iv_len where "iv_len = iv_length private_message generate_iv"
  define iv where "iv = map rnd [0..<iv_len]"
  define pad where "pad = map (\<lambda>i. rnd (iv_len + i)) [0..<SILC_MESSAGE_PAD (6 + length data)]"
  define pl where "pl = message_plain flags data pad"
  obtain pk auth where au: "message_auth flags puk prk pl pk auth" using assms(8) by (rule can_sign_auth)
  have fits: "length data + 22 + hm_len hs + iv_len + message_key_len flags puk prk \<le> 65529" using assms(6) by (simp add: iv_len_def)
  have lpad: "length pad = SILC_MESSAGE_PAD (6 + length data)" by (simp add: pad_def)
  have padb: "length pad \<le> 16" "pad \<noteq> []" "16 dvd 6 + length data + length pad"
    using pad_bounds [of "6 + length data"] by (simp_all add: lpad) (simp add: pad_def)
  have lpl: "length pl = 6 + length data + length pad" by (simp add: pl_def length_message_plain)
  have "16 dvd length pl" "0 < length pl" using padb(3) lpl by simp_all
  then obtain q where "length pl = 16 * q" "0 < q" by (auto elim: dvdE)
  then obtain nb where nb: "length pl = 16 + 16 * nb" by (cases q) auto
  define sg where "sg = message_sig flags prk pk auth"
  define ivo where "ivo = (if iv_len = 0 then None else Some iv)"
  have liv: "length iv = iv_len" "iv_len = 0 \<or> iv_len = 16" by (simp_all add: iv_def iv_len_def iv_length_def)
  then have "pred_option (\<lambda>v. length v = 16) ivo" by (auto simp: ivo_def)
  from message_pieces [OF assms(1) nb this] obtain s' v ct r1 iv1 r2 v2 where
    enc: "silc_cipher_encrypt s pl ivo = Some (s', v, ct)" "length ct = length pl"
    and d1: "silc_cipher_decrypt r (take 16 ct) ivo = Some (r1, iv1, take 16 pl)" "length iv1 = 16"
    and d2: "silc_cipher_decrypt r1 (drop 16 ct) (map_option (\<lambda>_. iv1) ivo) = Some (r2, v2, drop 16 pl)" "length v2 = 16"
    and sync: "cipher_sync s' r2" "nb = 0 \<Longrightarrow> cipher_sync s' r1" by blast
  define body where "body = ct @ sg @ iv"
  obtain b e hs' where en: "silc_message_payload_encode J rnd flags data (length data) generate_iv private_message (Some s) (Some hs) puk prk True
      sid rid buffer = Some (b, e)" "sb_bytes b = body @ hmac_mac hs (body @ id_str sid @ receiver_str rid)" "en_cipher e = Some s'"
      "en_hmac e = Some hs'" "hmac_sync hs hs'"
    using message_encode [OF assms(4,5) iv_len_def fits iv_def pad_def au [unfolded pl_def] assms(3)
        enc [unfolded pl_def ivo_def] body_def [unfolded sg_def], of J sid rid] by blast
  have ivm: "iv_len = message_iv_len r private_message static_key"
    using assms(7) by (auto simp: iv_len_def iv_length_def message_iv_len_def silc_cipher_get_block_len_def)
  have ld: "length data < 65520" using fits by simp
  obtain hr' tr where dec: "silc_message_payload_decrypt (sb_bytes b) private_message static_key r hr (id_str sid) (receiver_str rid) True =
      Some (if nb = 0 then r1 else r2, hr', pl @ sg @ tr, True)" "hmac_sync hr hr'" "length tr = iv_len + hm_len hs"
    using decrypt_own [OF assms(2,3) pl_def lpad ld nb liv(1) ivm enc(2) d1 [unfolded ivo_def] d2 [unfolded ivo_def] body_def,
        of "id_str sid" "receiver_str rid"] en(2) by auto
  define m where "m = \<lparr>ms_data = Some data, ms_pad = Some pad, ms_mac = (if hm_len hs = 0 then None else Some (drop iv_len tr)),
          ms_sig = (if message_signed flags then signature_of pk (prk_type (the prk)) auth else no_signature),
          ms_flags = flags, ms_data_len = of_nat (length data), ms_pad_len = of_nat (length pad)\<rparr>"
  have "hm_len hs \<le> 64" using assms(3) by (simp add: length_mac)
  then have lt: "length tr < 1000" using dec(3) liv(2) by auto
  have par: "message_parse (pl @ sg @ tr) (hm_len hs) iv_len no_allocation = Some m"
    unfolding m_def pl_def sg_def using assms(5) ld padb lt
    by (intro message_parse_eq [OF _ _ _ _ au dec(3)]) simp_all
  have hl: "silc_hmac_len hr = hm_len hs" using assms(2) by (simp add: silc_hmac_len_def hmac_sync_def)
  have parse: "silc_message_payload_parse (sb_bytes b) private_message static_key (Some r) (Some hr) (id_str sid) (receiver_str rid) no_allocation =
      Some (Some (if nb = 0 then r1 else r2), Some hr', pl @ sg @ tr, Some m)"
    unfolding silc_message_payload_parse_def using dec(1) par by (simp add: hl ivm [symmetric])
  have ver: "silc_message_signed_verify J m (Some K) True = Some True"
    if "message_signed flags" "\<forall>d a. prk_sign (the prk) d = Some a \<longrightarrow> puk_verify K a d"
    using that padb ld by (intro verify_own [OF au [unfolded pl_def] that(1)]) (simp_all add: m_def)
  have "silc_message_get_data m = (Some data, length data)" using ld by (simp add: silc_message_get_data_def m_def unat_of_nat_16)
  moreover have "cipher_sync s' (if nb = 0 then r1 else r2)" using sync by simp
  moreover have "hmac_sync hs' hr'" using en(5) assms(2) dec(2) by (simp add: hmac_sync_def)
  moreover have "silc_message_get_flags m = flags" by (simp add: silc_message_get_flags_def m_def)
  ultimately show ?thesis using en(1,3,4) parse ver by blast
qed

lemma silc_message_payload_roundtrip_plain:
  assumes "pred_option wf_buffer buffer" and "data \<noteq> []" and "length data + 22 + message_key_len flags puk prk \<le> 65529"
    and "can_sign flags puk prk"
  shows "\<exists>b e m.
    silc_message_payload_encode J rnd flags data (length data) generate_iv True None None puk prk True sid rid buffer = Some (b, e)
    \<and> silc_message_payload_parse (sb_bytes b) True static_key None None sender_id receiver_id no_allocation = Some (None, None, sb_bytes b, Some m)
    \<and> silc_message_get_flags m = flags \<and> silc_message_get_data m = (Some data, length data)
    \<and> ms_pad m = Some (map J [0..<SILC_MESSAGE_PAD (6 + length data)])"
proof -
  define pad where "pad = map J [0..<SILC_MESSAGE_PAD (6 + length data)]"
  obtain pk auth where au: "message_auth flags puk prk (message_plain flags data pad) pk auth" using assms(4) by (rule can_sign_auth)
  have padb: "length pad \<le> 16" "pad \<noteq> []" using pad_bounds [of "6 + length data"] by (simp_all add: pad_def)
  obtain b e where en: "silc_message_payload_encode J rnd flags data (length data) generate_iv True None None puk prk True sid rid buffer = Some (b, e)"
      "sb_bytes b = message_plain flags data pad @ message_sig flags prk pk auth"
    using message_encode_plain [OF assms(1-3) pad_def au, of rnd generate_iv sid rid] by blast
  define m where "m = \<lparr>ms_data = Some data, ms_pad = Some pad, ms_mac = None,
          ms_sig = (if message_signed flags then signature_of pk (prk_type (the prk)) auth else no_signature),
          ms_flags = flags, ms_data_len = of_nat (length data), ms_pad_len = of_nat (length pad)\<rparr>"
  have ld: "length data < 65536" using assms(3) by simp
  have "message_parse (sb_bytes b) 0 0 no_allocation = Some m"
    using message_parse_eq [OF assms(2) ld padb(2) _ au, of "[]" 0 0 no_allocation] padb(1) by (simp add: en(2) m_def)
  then have "silc_message_payload_parse (sb_bytes b) True static_key None None sender_id receiver_id no_allocation = Some (None, None, sb_bytes b, Some m)"
    by (simp add: silc_message_payload_parse_def)
  then show ?thesis using en(1) ld by (intro exI [of _ b] exI [of _ e] exI [of _ m])
      (simp add: silc_message_get_flags_def silc_message_get_data_def m_def pad_def unat_of_nat_16)
qed

text \<open>
  C14. A message with a key of its own is accepted only with a MAC made with this key: over the payload
  and the identifiers of sender and receiver, or, in the old style, over the payload alone.
  Otherwise nothing is decrypted or returned and the cipher stays as it was.
\<close>

theorem silc_message_payload_authentic:
  assumes "mac = drop (length payload - hm_len h) payload" and "body = take (length payload - hm_len h) payload"
    and "mac \<noteq> hmac_mac h (body @ sender_id @ receiver_id)" and "mac \<noteq> hmac_mac h body"
  shows "\<exists>h'. silc_message_payload_parse payload private_message static_key (Some c) (Some h) sender_id receiver_id no_allocation =
    Some (Some c, Some h', payload, None) \<and> hmac_sync h h'"
proof -
  obtain h1 m1 where h1: "message_mac h [body, sender_id, receiver_id] = (h1, m1)" by fastforce
  obtain h2 m2 where h2: "message_mac h1 [body] = (h2, m2)" by fastforce
  have m1: "m1 = hmac_mac h (body @ sender_id @ receiver_id)" "hmac_sync h h1"
    using message_mac_eq [of h "[body, sender_id, receiver_id]"] h1 by simp_all
  have m2: "m2 = hmac_mac h body" "hmac_sync h h2"
    using message_mac_eq [of h1 "[body]"] h2 hmac_sync_mac [OF m1(2)] hmac_sync_trans [OF m1(2)] by simp_all
  have "message_check_mac h payload sender_id receiver_id = (h2, False)"
    using assms h1 h2 m1 m2 by (simp add: message_check_mac_def silc_hmac_len_def Let_def)
  then show ?thesis
    using m2(2) by (simp add: silc_message_payload_parse_def silc_message_payload_decrypt_def Let_def)
qed

section \<open>The length limit\<close>

lemma int_add32: "int (add32 a b) = (int a + int b) mod int u32_max"
  and int_sub32: "int (sub32 a b) = (int a - int b) mod int u32_max"
  by (simp_all add: add32_def sub32_def zmod_int u32_max_def)

text \<open>
  The length of the data that fits: the data of a message within the limit is not changed, and that of any longer
  message becomes the longest with a total of 65541 bytes. For totals of 65530 to 65540 this is
  more than the data has, so that up to 11 bytes behind it are sent.
\<close>

theorem silc_message_payload_datalen_exact:
  assumes "k = 22 + header_len + message_key_len flags puk prk" and "n + k < u32_max" and "k \<le> 65541"
  shows "silc_message_payload_datalen n header_len flags puk prk = (if n + k \<le> 65529 then n else 65541 - k)
    \<and> (n < silc_message_payload_datalen n header_len flags puk prk \<longleftrightarrow> 65529 < n + k \<and> n + k < 65541)"
proof -
  define d where "d = n + k"
  have dlen: "(n + 6 + 16 + header_len + message_key_len flags puk prk) mod u32_max = d"
    using assms(1,2) by (simp add: d_def)
  have "int (sub32 n (sub32 (add32 (sub32 (sub32 d 65535) 6) 16) 16)) = (int n - (int d - 65541)) mod int u32_max"
    by (simp add: int_sub32 int_add32 mod_simps)
  also have "\<dots> = int (65541 - k)" using assms(3) by (simp add: d_def u32_max_def)
  finally have "sub32 n (sub32 (add32 (sub32 (sub32 d 65535) 6) 16) 16) = 65541 - k" by simp
  then have "silc_message_payload_datalen n header_len flags puk prk = (if n + k \<le> 65529 then n else 65541 - k)"
    unfolding silc_message_payload_datalen_def dlen Let_def by (auto simp: d_def)
  then show ?thesis using assms(3) by auto
qed

theorem silc_message_payload_datalen_exact_witness:
  "silc_message_payload_datalen 65508 0 0 None None = 65519 \<and> silc_message_payload_datalen 65507 0 0 None None = 65507"
  using silc_message_payload_datalen_exact [of 22 0 0 None None 65508] silc_message_payload_datalen_exact [of 22 0 0 None None 65507]
  by (simp add: message_key_len_def message_signed_def u32_max_def)

section \<open>Decryption behind the payload\<close>

text \<open>
  A message with the right MAC whose length field leaves no room for the padding: the area that is
  decrypted ends behind the payload when the MAC is shorter than a block and no vector is sent.
\<close>

lemma silc_message_payload_decrypt_beyond:
  assumes h: "hmac_ok h" "hm_len h < 16" and n: "length data = 16 * nb + 10" "length data < 65000"
    and sync: "cipher_sync s r" and pl: "pl = SILC_PUT16_MSB flags @ SILC_PUT16_MSB (of_nat (length data)) @ data @ [x, y]"
    and enc: "silc_cipher_encrypt s pl None = Some (s', v, ct)"
  shows "silc_message_payload_decrypt (ct @ hmac_mac h (ct @ sid @ rid)) True False r h sid rid True = None"
proof -
  have lpl: "length pl = 16 + 16 * nb" using n by (simp add: pl)
  obtain ct' r1 iv1 where "map_option (\<lambda>(_, _, c). c) (silc_cipher_encrypt s pl None) = Some ct'" "length ct' = length pl"
    "silc_cipher_decrypt r (take 16 ct') None = Some (r1, iv1, take 16 pl)"
    by (rule message_pieces [OF sync lpl, of None]) auto
  then have lct: "length ct = length pl" and d1: "silc_cipher_decrypt r (take 16 ct) None = Some (r1, iv1, take 16 pl)" using enc by simp_all
  define m where "m = hmac_mac h (ct @ sid @ rid)"
  have lm: "length m = hm_len h" using h by (simp add: m_def length_mac)
  obtain h' where mac: "message_check_mac h (ct @ m) sid rid = (h', True)"
    using check_mac_own [OF hmac_sync_refl h(1), of ct sid rid] by (auto simp: m_def)
  have f: "unat (SILC_GET16_MSB (drop 2 (take 16 pl @ drop 16 ct @ m))) = length data"
  proof -
    have "drop 2 (take 16 pl @ drop 16 ct @ m) = SILC_PUT16_MSB (of_nat (length data)) @ take 12 (data @ [x, y]) @ drop 16 ct @ m"
      using n by (simp add: pl SILC_PUT16_MSB_def)
    then show ?thesis using n(2) by (simp only: GET16_PUT16_MSB unat_of_nat_16)
  qed
  have pad: "SILC_MESSAGE_PAD (6 + length data) = 16" using n by (simp add: SILC_MESSAGE_PAD_def)
  have "message_decrypt_rest (take 16 pl @ drop 16 ct @ m) 0 (length ct) r1 (hm_len h) = None"
    unfolding message_decrypt_rest_def Let_def f silc_cipher_get_block_len_def
    using n lpl lct lm h(2) pad by (simp add: cast16_def)
  moreover have "memcpy (ct @ m) 0 (take 16 pl) = take 16 pl @ drop 16 ct @ m" using lpl lct by (simp add: memcpy_def)
  ultimately show ?thesis
    unfolding m_def [symmetric] silc_message_payload_decrypt_def Let_def
    using mac d1 lpl lct lm by (simp add: silc_hmac_len_def silc_cipher_get_block_len_def message_iv_len_def put_iv_def)
qed

section \<open>Witnesses\<close>

lemma demo_cipher_sync: "cipher_sync demo_cipher demo_cipher"
  using demo_cipher_pair by (simp add: cipher_sync_def demo_cipher_def demo_aes_def)

lemma demo_hmac_usable: "hmac_ok demo_hmac"
  using demo_hash_ok by (simp add: hmac_ok_def demo_hmac_def) (simp add: demo_hash_def)

definition demo_sender :: silc_id where
  "demo_sender = ClientID \<lparr>ip_data = [1, 2, 3, 4], ip_data_len = 4\<rparr> 5 (replicate 11 6)"

definition demo_receiver :: silc_id where
  "demo_receiver = ChannelID \<lparr>ip_data = [1, 2, 3, 4], ip_data_len = 4\<rparr> 7 8"

theorem silc_message_payload_roundtrip_witness:
  "\<exists>b e s' hs' r' hr' payload m.
    silc_message_payload_encode (\<lambda>_. 9) (\<lambda>i. of_nat i) 0x100 [72, 105] (length [72, 105 :: byte]) False False (Some demo_cipher) (Some demo_hmac)
      None None True demo_sender demo_receiver None = Some (b, e)
    \<and> en_cipher e = Some s' \<and> en_hmac e = Some hs'
    \<and> silc_message_payload_parse (sb_bytes b) False False (Some demo_cipher) (Some demo_hmac) (id_str demo_sender) (receiver_str demo_receiver) False =
        Some (Some r', Some hr', payload, Some m)
    \<and> silc_message_get_flags m = 0x100 \<and> silc_message_get_data m = (Some [72, 105], length [72, 105 :: byte])
    \<and> (message_signed 0x100 \<and> (\<forall>d a. prk_sign (the (None :: silc_private_key option)) d = Some a \<longrightarrow> puk_verify \<lparr>puk_len = 0, puk_encode = None, puk_verify = \<lambda>_ _. True\<rparr> a d)
          \<longrightarrow> silc_message_signed_verify (\<lambda>_. 9) m (Some \<lparr>puk_len = 0, puk_encode = None, puk_verify = \<lambda>_ _. True\<rparr>) True = Some True)
    \<and> cipher_sync s' r' \<and> hmac_sync hs' hr'"
proof -
  have "\<not> message_signed 0x100" by (simp add: message_signed_def SILC_MESSAGE_FLAG_SIGNED_def)
  then have k: "message_key_len 0x100 None None = 0" "can_sign 0x100 None None" by (simp_all add: message_key_len_def can_sign_def)
  have l: "hm_len demo_hmac \<le> 64" using demo_hmac_usable by (rule length_mac)
  show ?thesis
    by (rule silc_message_payload_roundtrip [OF demo_cipher_sync hmac_sync_refl demo_hmac_usable]) (use k l in \<open>simp_all add: iv_length_def\<close>)
qed

theorem silc_message_payload_authentic_witness:
  "\<exists>h'. silc_message_payload_parse (replicate 34 0) False False (Some demo_cipher) (Some demo_hmac) [1] [2] False =
    Some (Some demo_cipher, Some h', replicate 34 0, None) \<and> hmac_sync demo_hmac h'"
proof (rule silc_message_payload_authentic [where mac = "[0]" and body = "replicate 33 0"])
  show "[0] = drop (length (replicate 34 (0 :: byte)) - hm_len demo_hmac) (replicate 34 0)" by (simp add: demo_hmac_def)
  show "replicate 33 0 = take (length (replicate 34 (0 :: byte)) - hm_len demo_hmac) (replicate 34 0)" by (simp add: demo_hmac_def)
  show "[0] \<noteq> hmac_mac demo_hmac (replicate 33 0 @ [1] @ [2])" by code_simp
  show "[0] \<noteq> hmac_mac demo_hmac (replicate 33 0)" by code_simp
qed

end
