(* ===== verification/Silc_Utf8.thy ===== *)
theory Silc_Utf8
  imports Silc_Prelude
begin

text \<open>
  \<open>lib/silcutil/silcutf8.c\<close>: conversion of strings of several encodings to UTF-8 and back. A buffer
  for the result is given by its size, or is NULL when only the length is asked for; the results are the
  value that is returned, which is zero for an error, and the bytes that were written. Functions of the C
  library that depend on the locale are parameters: \<open>iconv\<close>, which gives the converted string if it is
  available and successful, and \<open>isprint\<close>. The NUL that \<open>silc_snprintf\<close> puts behind a hexadecimal number is
  not among the bytes that are listed, nor are the bytes of the character at which an error ends the loop.
\<close>

section \<open>Encodings\<close>

datatype silc_string_encoding =
    SILC_STRING_ASCII | SILC_STRING_ASCII_ESC | SILC_STRING_BMP | SILC_STRING_BMP_LSB
  | SILC_STRING_UNIVERSAL | SILC_STRING_UNIVERSAL_LSB | SILC_STRING_LOCALE | SILC_STRING_UTF8
  | SILC_STRING_PRINTABLE | SILC_STRING_VISIBLE | SILC_STRING_TELETEX | SILC_STRING_NUMERICAL
  | SILC_STRING_LDAP_DN

record locale_env =
  le_to_utf8 :: "bytes \<Rightarrow> nat \<Rightarrow> bytes option"
  le_from_utf8 :: "bytes \<Rightarrow> nat \<Rightarrow> bytes option"
  le_isprint :: "byte \<Rightarrow> bool"

text \<open>A write of \<open>n\<close> bytes behind \<open>out\<close> fits into the buffer.\<close>

definition has_room :: "nat option \<Rightarrow> nat \<Rightarrow> bytes \<Rightarrow> bool" where
  "has_room room n out = (case room of None \<Rightarrow> True | Some s \<Rightarrow> \<not> s < add32 (length out) n)"

section \<open>Decoding\<close>

definition cont_byte :: "byte \<Rightarrow> bool" where
  "cont_byte b \<longleftrightarrow> b AND 0xc0 = 0x80"

definition low6 :: "byte \<Rightarrow> u32" where
  "low6 b = ucast (b AND 0x3f)"

text \<open>One character: its value, its number of bytes and what follows it.\<close>

fun utf8_char :: "bytes \<Rightarrow> (u32 \<times> nat \<times> bytes) option" where
  "utf8_char [] = None"
| "utf8_char (b # r) =
     (if b AND 0x80 = 0x00 then Some (ucast (b AND 0x7f), 1, r)
      else if b AND 0xe0 = 0xc0 then
        (case r of
           b1 # r \<Rightarrow>
             (if \<not> cont_byte b1 then None
              else let charval = push_bit 6 (ucast (b AND 0x1f)) OR low6 b1
                   in if charval < 0x80 then None else Some (charval, 2, r))
         | _ \<Rightarrow> None)
      else if b AND 0xf0 = 0xe0 then
        (case r of
           b1 # b2 # r \<Rightarrow>
             (if \<not> cont_byte b1 \<or> \<not> cont_byte b2 then None
              else if b = 0xed \<and> b1 \<ge> 0xa0 \<and> b1 \<le> 0xbf \<and> b2 \<ge> 0x80 \<and> b2 \<le> 0xbf then None
              else let charval = push_bit 12 (ucast (b AND 0xf)) OR push_bit 6 (low6 b1) OR low6 b2
                   in if charval < 0x800 then None else Some (charval, 3, r))
         | _ \<Rightarrow> None)
      else if b AND 0xf8 = 0xf0 then
        (case r of
           b1 # b2 # b3 # r \<Rightarrow>
             (if \<not> cont_byte b1 \<or> \<not> cont_byte b2 \<or> \<not> cont_byte b3 then None
              else let charval = push_bit 18 (ucast (b AND 0x7)) OR push_bit 12 (low6 b1) OR push_bit 6 (low6 b2) OR low6 b3
                   in if charval < 0x10000 then None else Some (charval, 4, r))
         | _ \<Rightarrow> None)
      else if b AND 0xfc = 0xf8 then
        (case r of
           b1 # b2 # b3 # b4 # r \<Rightarrow>
             (if \<not> cont_byte b1 \<or> \<not> cont_byte b2 \<or> \<not> cont_byte b3 \<or> \<not> cont_byte b4 then None
              else let charval = push_bit 24 (ucast (b AND 0x3)) OR push_bit 18 (low6 b1) OR push_bit 12 (low6 b2)
                                 OR push_bit 6 (low6 b3) OR low6 b4
                   in if charval < 0x200000 then None else Some (charval, 5, r))
         | _ \<Rightarrow> None)
      else if b AND 0xfe = 0xfc then
        (case r of
           b1 # b2 # b3 # b4 # b5 # r \<Rightarrow>
             (if \<not> cont_byte b1 \<or> \<not> cont_byte b2 \<or> \<not> cont_byte b3 \<or> \<not> cont_byte b4 \<or> \<not> cont_byte b5 then None
              else let charval = push_bit 30 (ucast (b AND 0x1)) OR push_bit 24 (low6 b1) OR push_bit 18 (low6 b2)
                                 OR push_bit 12 (low6 b3) OR push_bit 6 (low6 b4) OR low6 b5
                   in if charval < 0x4000000 then None else Some (charval, 6, r))
         | _ \<Rightarrow> None)
      else None)"

lemma utf8_char_shorter: "utf8_char bs = Some (c, n, r) \<Longrightarrow> length r < length bs"
  by (cases bs) (auto simp: Let_def split: if_splits list.splits)

text \<open>A character of a distinguished name; the first and the last one of the string are special.\<close>

definition hex_digit :: "byte \<Rightarrow> byte" where
  "hex_digit d = (if d < 10 then d + 0x30 else d + 0x37)"

definition dn_escape :: "locale_env \<Rightarrow> bool \<Rightarrow> bool \<Rightarrow> byte \<Rightarrow> bytes" where
  "dn_escape env start last_char cv =
     (if start \<and> (cv = 0x23 \<or> cv = 0x20) then [0x5c, cv]
      else if last_char \<and> cv = 0x20 then [0x5c, cv]
      else if cv \<in> {0x2c, 0x2b, 0x22, 0x5c, 0x3c, 0x3e, 0x3b} then [0x5c, cv]
      else if \<not> le_isprint env cv then [0x5c, hex_digit (drop_bit 4 cv), hex_digit (cv AND 0xf)]
      else [cv])"

fun dn_char :: "locale_env \<Rightarrow> nat option \<Rightarrow> bool \<Rightarrow> bytes \<Rightarrow> bytes \<Rightarrow> bytes option" where
  "dn_char env room last_char [] out = Some out"
| "dn_char env room last_char (cv # cvs) out =
     (let e = dn_escape env (out = []) last_char cv
      in if has_room room (length e) out then dn_char env room last_char cvs (out @ e) else None)"

definition put_out :: "nat option \<Rightarrow> bytes \<Rightarrow> bytes \<Rightarrow> bytes option" where
  "put_out room e out = (if has_room room (length e) out then Some (out @ e) else None)"

text \<open>One character to the result; \<open>src\<close> are its bytes in the string that is decoded.\<close>

definition decode_put ::
    "locale_env \<Rightarrow> silc_string_encoding \<Rightarrow> nat option \<Rightarrow> u32 \<Rightarrow> bytes \<Rightarrow> bool \<Rightarrow> bytes \<Rightarrow> bytes option" where
  "decode_put env bin_encoding room charval src last_char out =
     (case bin_encoding of
        SILC_STRING_ASCII \<Rightarrow> put_out room [ucast charval] out
      | SILC_STRING_PRINTABLE \<Rightarrow> put_out room [ucast charval] out
      | SILC_STRING_VISIBLE \<Rightarrow> put_out room [ucast charval] out
      | SILC_STRING_TELETEX \<Rightarrow> put_out room [ucast charval] out
      | SILC_STRING_NUMERICAL \<Rightarrow> put_out room [ucast charval] out
      | SILC_STRING_BMP \<Rightarrow> put_out room (SILC_PUT16_MSB (ucast charval)) out
      | SILC_STRING_BMP_LSB \<Rightarrow> put_out room (SILC_PUT16_LSB (ucast charval)) out
      | SILC_STRING_UNIVERSAL \<Rightarrow> put_out room (SILC_PUT32_MSB charval) out
      | SILC_STRING_UNIVERSAL_LSB \<Rightarrow> put_out room (SILC_PUT32_LSB charval) out
      | SILC_STRING_LDAP_DN \<Rightarrow> dn_char env room last_char src out
      | _ \<Rightarrow> None)"

function decode_loop :: "locale_env \<Rightarrow> silc_string_encoding \<Rightarrow> nat option \<Rightarrow> bytes \<Rightarrow> bytes \<Rightarrow> nat \<times> bytes" where
  "decode_loop env bin_encoding room bs out =
     (if bs = [] then (cast32 (int (length out)), out)
      else
        (case utf8_char bs of
           None \<Rightarrow> (0, out)
         | Some (charval, n, r) \<Rightarrow>
             (case decode_put env bin_encoding room charval (take n bs) (r = []) out of
                None \<Rightarrow> (0, out)
              | Some out \<Rightarrow> decode_loop env bin_encoding room r out)))"
  by pat_completeness auto
termination
  by (relation "measure (\<lambda>(_, _, _, bs, _). length bs)") (auto dest: utf8_char_shorter)

declare decode_loop.simps [simp del]

definition silc_utf8_valid :: "locale_env \<Rightarrow> bytes \<Rightarrow> bool" where
  "silc_utf8_valid env utf8 \<longleftrightarrow> utf8 \<noteq> [] \<and> fst (decode_loop env SILC_STRING_ASCII None utf8 []) \<noteq> 0"

definition silc_utf8_decode :: "locale_env \<Rightarrow> bytes \<Rightarrow> silc_string_encoding \<Rightarrow> nat option \<Rightarrow> nat \<times> bytes" where
  "silc_utf8_decode env utf8 bin_encoding bin =
     (if utf8 = [] then (0, [])
      else if bin_encoding = SILC_STRING_UTF8 then
        (if \<not> silc_utf8_valid env utf8 \<or> (case bin of None \<Rightarrow> 0 | Some n \<Rightarrow> n) < length utf8 then (0, []) else (length utf8, utf8))
      else if bin_encoding = SILC_STRING_LOCALE then
        (case (case bin of None \<Rightarrow> None | Some n \<Rightarrow> le_from_utf8 env utf8 n) of
           Some out \<Rightarrow> (length out, out)
         | None \<Rightarrow> decode_loop env SILC_STRING_ASCII bin utf8 [])
      else decode_loop env bin_encoding bin utf8 [])"

section \<open>Encoding\<close>

text \<open>The next character of a string and what follows it.\<close>

definition read_char :: "locale_env \<Rightarrow> silc_string_encoding \<Rightarrow> bytes \<Rightarrow> (u32 \<times> bytes) option" where
  "read_char env bin_encoding bs =
     (case bin_encoding of
        SILC_STRING_ASCII \<Rightarrow> Some (ucast (hd bs), tl bs)
      | SILC_STRING_TELETEX \<Rightarrow> Some (ucast (hd bs), tl bs)
      | SILC_STRING_BMP \<Rightarrow> if length bs < 2 then None else Some (ucast (SILC_GET16_MSB bs), drop 2 bs)
      | SILC_STRING_BMP_LSB \<Rightarrow> if length bs < 2 then None else Some (ucast (SILC_GET16_LSB bs), drop 2 bs)
      | SILC_STRING_UNIVERSAL \<Rightarrow> if length bs < 4 then None else Some (SILC_GET32_MSB bs, drop 4 bs)
      | SILC_STRING_UNIVERSAL_LSB \<Rightarrow> if length bs < 4 then None else Some (SILC_GET32_LSB bs, drop 4 bs)
      | SILC_STRING_PRINTABLE \<Rightarrow> if \<not> le_isprint env (hd bs) then None else Some (ucast (hd bs), tl bs)
      | SILC_STRING_VISIBLE \<Rightarrow> if \<not> le_isprint env (hd bs) then None else Some (ucast (hd bs), tl bs)
      | SILC_STRING_NUMERICAL \<Rightarrow>
          if hd bs \<noteq> 0x20 \<and> \<not> (0x30 \<le> hd bs \<and> hd bs \<le> 0x39) then None else Some (ucast (hd bs), tl bs)
      | _ \<Rightarrow> None)"

definition utf8_bits :: "u32 \<Rightarrow> nat \<Rightarrow> u32 \<Rightarrow> u32 \<Rightarrow> byte" where
  "utf8_bits charval shift m tag = ucast ((drop_bit shift charval AND m) OR tag)"

text \<open>The bytes of a character. For one byte the check of the buffer lets one byte too many pass.\<close>

definition encode_put :: "nat option \<Rightarrow> u32 \<Rightarrow> bytes \<Rightarrow> bytes option" where
  "encode_put room charval out =
     (if charval < 0x80 then (if has_room room 0 out then Some (out @ [ucast charval]) else None)
      else if charval < 0x800 then
        put_out room [utf8_bits charval 6 0x1f 0xc0, utf8_bits charval 0 0x3f 0x80] out
      else if charval < 0x10000 then
        put_out room [utf8_bits charval 12 0xf 0xe0, utf8_bits charval 6 0x3f 0x80, utf8_bits charval 0 0x3f 0x80] out
      else if charval < 0x200000 then
        put_out room [utf8_bits charval 18 0x7 0xf0, utf8_bits charval 12 0x3f 0x80, utf8_bits charval 6 0x3f 0x80,
                      utf8_bits charval 0 0x3f 0x80] out
      else if charval < 0x4000000 then
        put_out room [utf8_bits charval 24 0x3 0xf8, utf8_bits charval 18 0x3f 0x80, utf8_bits charval 12 0x3f 0x80,
                      utf8_bits charval 6 0x3f 0x80, utf8_bits charval 0 0x3f 0x80] out
      else
        put_out room [utf8_bits charval 30 0x1 0xfc, utf8_bits charval 24 0x3f 0x80, utf8_bits charval 18 0x3f 0x80,
                      utf8_bits charval 12 0x3f 0x80, utf8_bits charval 6 0x3f 0x80, utf8_bits charval 0 0x3f 0x80] out)"

lemma read_char_shorter: "read_char env enc bs = Some (c, r) \<Longrightarrow> bs \<noteq> [] \<Longrightarrow> length r < length bs"
  by (cases bs) (auto simp: read_char_def split: silc_string_encoding.splits if_splits)

function encode_loop :: "locale_env \<Rightarrow> silc_string_encoding \<Rightarrow> nat option \<Rightarrow> bytes \<Rightarrow> bytes \<Rightarrow> nat \<times> bytes" where
  "encode_loop env bin_encoding room bs out =
     (if bs = [] then (cast32 (int (length out)), out)
      else
        (case read_char env bin_encoding bs of
           None \<Rightarrow> (0, out)
         | Some (charval, r) \<Rightarrow>
             (case encode_put room charval out of
                None \<Rightarrow> (0, out)
              | Some out \<Rightarrow> encode_loop env bin_encoding room r out)))"
  by pat_completeness auto
termination
  by (relation "measure (\<lambda>(_, _, _, bs, _). length bs)") (auto dest: read_char_shorter)

declare encode_loop.simps [simp del]

text \<open>
  \<open>sscanf\<close> with \<open>%02X\<close>: white space is skipped, and at most two characters are read, a sign among them.
  The end of the string ends the number, too; the source would read on.
\<close>

definition c_isspace :: "byte \<Rightarrow> bool" where
  "c_isspace c \<longleftrightarrow> c = 0x20 \<or> (0x09 \<le> c \<and> c \<le> 0x0d)"

definition xdigit :: "byte \<Rightarrow> byte option" where
  "xdigit c = (if 0x30 \<le> c \<and> c \<le> 0x39 then Some (c - 0x30)
               else if 0x41 \<le> c \<and> c \<le> 0x46 then Some (c - 0x37)
               else if 0x61 \<le> c \<and> c \<le> 0x66 then Some (c - 0x57) else None)"

fun scan_item :: "bytes \<Rightarrow> byte option" where
  "scan_item [c, d] =
     (if c = 0x2d then map_option uminus (xdigit d)
      else if c = 0x2b then xdigit d
      else if c = 0x30 \<and> (d = 0x78 \<or> d = 0x58) then None
      else
        (case xdigit c of
           None \<Rightarrow> None
         | Some x \<Rightarrow> (case xdigit d of None \<Rightarrow> Some x | Some y \<Rightarrow> Some (x * 16 + y))))"
| "scan_item [c] = xdigit c"
| "scan_item _ = None"

definition scan_hex :: "bytes \<Rightarrow> byte option" where
  "scan_hex bs = scan_item (take 2 (dropWhile c_isspace bs))"

text \<open>A string with escaped characters; a hexadecimal number is skipped as two characters.\<close>

function unescape_loop :: "nat option \<Rightarrow> bytes \<Rightarrow> bytes \<Rightarrow> nat \<times> bytes" where
  "unescape_loop room bs out =
     (case bs of
        [] \<Rightarrow> (cast32 (int (length out)), out)
      | b # r \<Rightarrow>
          if b = 0x5c then
            (case r of
               [] \<Rightarrow> (0, out)
             | cv # r' \<Rightarrow>
                 if cv \<notin> {0x2c, 0x2b, 0x22, 0x5c, 0x3c, 0x3e, 0x3b, 0x20, 0x23} then
                   (if r' = [] then (0, out)
                    else
                      (case scan_hex r of
                         None \<Rightarrow> (0, out)
                       | Some hexval \<Rightarrow>
                           if has_room room 1 out then unescape_loop room (tl r') (out @ [hexval]) else (0, out)))
                 else if has_room room 1 out then unescape_loop room r' (out @ [cv]) else (0, out))
          else if has_room room 1 out then unescape_loop room r (out @ [b]) else (0, out))"
  by pat_completeness auto
termination
  by (relation "measure (\<lambda>(_, bs, _). length bs)") auto

declare unescape_loop.simps [simp del]

definition silc_utf8_encode :: "locale_env \<Rightarrow> bytes \<Rightarrow> silc_string_encoding \<Rightarrow> nat option \<Rightarrow> nat \<times> bytes" where
  "silc_utf8_encode env bin bin_encoding utf8 =
     (if bin = [] then (0, [])
      else if bin_encoding = SILC_STRING_UTF8 then
        (if \<not> silc_utf8_valid env bin then (0, [])
         else
           (case utf8 of
              None \<Rightarrow> (length bin, [])
            | Some n \<Rightarrow> if n < length bin then (0, []) else (length bin, bin)))
      else if bin_encoding = SILC_STRING_LDAP_DN then unescape_loop utf8 bin []
      else if bin_encoding = SILC_STRING_LOCALE then
        (case (case utf8 of None \<Rightarrow> None | Some n \<Rightarrow> le_to_utf8 env bin n) of
           Some out \<Rightarrow> (length out, out)
         | None \<Rightarrow> encode_loop env SILC_STRING_ASCII utf8 bin [])
      else encode_loop env bin_encoding utf8 bin [])"

definition silc_utf8_encoded_len :: "locale_env \<Rightarrow> bytes \<Rightarrow> silc_string_encoding \<Rightarrow> nat" where
  "silc_utf8_encoded_len env bin bin_encoding = fst (silc_utf8_encode env bin bin_encoding None)"

definition silc_utf8_decoded_len :: "locale_env \<Rightarrow> bytes \<Rightarrow> silc_string_encoding \<Rightarrow> nat" where
  "silc_utf8_decoded_len env bin bin_encoding = fst (silc_utf8_decode env bin bin_encoding None)"

section \<open>Wide characters\<close>

text \<open>The number that is returned, and the array; its rest is zero. \<open>malloc\<close> fails for large sizes.\<close>

fun wide_read :: "bytes \<Rightarrow> u16 list" where
  "wide_read (a # b # r) = SILC_GET16_MSB [a, b] # wide_read r"
| "wide_read _ = []"

definition silc_utf8_c2w :: "locale_env \<Rightarrow> bytes \<Rightarrow> nat \<Rightarrow> nat \<times> u16 list" where
  "silc_utf8_c2w env utf8 utf8_wide_size =
     (let tmp_len = silc_utf8_decoded_len env utf8 SILC_STRING_BMP
      in if tmp_len = 0 then (0, [])
         else if utf8_wide_size < tmp_len div 2 then (0, [])
         else if SILC_MAX_ALLOC \<le> tmp_len then (0, replicate utf8_wide_size 0)
         else
           (let w = wide_read (snd (silc_utf8_decode env utf8 SILC_STRING_BMP (Some tmp_len)))
            in (length w + 1, w @ replicate (utf8_wide_size - length w) 0)))"

text \<open>Only every second index is used: half of the array \<open>tmp\<close> keeps the content \<open>J\<close>.\<close>

fun wide_write :: "u16 list \<Rightarrow> nat \<Rightarrow> nat \<Rightarrow> bytes \<Rightarrow> bytes" where
  "wide_write [] i n tmp = tmp"
| "wide_write (c # cs) i n tmp = (if i < n then wide_write cs (i + 2) n (memcpy tmp i (SILC_PUT16_MSB c)) else tmp)"

definition silc_utf8_w2c :: "locale_env \<Rightarrow> junk \<Rightarrow> u16 list \<Rightarrow> nat \<Rightarrow> nat \<times> bytes" where
  "silc_utf8_w2c env J wide_str utf8_size =
     (let tmp_len = cast32 (int (length wide_str * 2))
      in if utf8_size < tmp_len then (0, [])
         else
           (case silc_malloc J tmp_len of
              None \<Rightarrow> (0, replicate utf8_size 0)
            | Some tmp \<Rightarrow>
                (let (ret, out) = silc_utf8_encode env (wide_write wide_str 0 (length wide_str) tmp) SILC_STRING_BMP (Some utf8_size)
                 in (ret, memcpy (replicate utf8_size 0) 0 out))))"

end
