(* ===== verification/Silc_Utf8_Codec.thy ===== *)
theory Silc_Utf8_Codec
  imports Silc_Utf8
begin

text \<open>
  The conversions of \<open>silcutf8.c\<close> against a reference on natural numbers: the bytes of a character, which
  strings are accepted, the round trips through UTF-8 and through the escaped form of distinguished names,
  and the bound of what is written.
\<close>

section \<open>Bytes and their values\<close>

lemma byte_enumerate: "(\<forall>n\<in>set [0..<256]. P (of_nat n :: byte)) \<Longrightarrow> P b"
proof -
  assume "\<forall>n\<in>set [0..<256]. P (of_nat n)"
  moreover have "unat b \<in> set [0..<256]"
    by simp
  ultimately have "P (of_nat (unat b))"
    by blast
  then show "P b"
    by simp
qed

lemma tag_masks:
  "((b :: byte) AND 0x80 = 0x00 \<longleftrightarrow> unat b < 128)
   \<and> (b AND 0xc0 = 0x80 \<longleftrightarrow> 128 \<le> unat b \<and> unat b < 192)
   \<and> (b AND 0xe0 = 0xc0 \<longleftrightarrow> 192 \<le> unat b \<and> unat b < 224)
   \<and> (b AND 0xf0 = 0xe0 \<longleftrightarrow> 224 \<le> unat b \<and> unat b < 240)
   \<and> (b AND 0xf8 = 0xf0 \<longleftrightarrow> 240 \<le> unat b \<and> unat b < 248)
   \<and> (b AND 0xfc = 0xf8 \<longleftrightarrow> 248 \<le> unat b \<and> unat b < 252)
   \<and> (b AND 0xfe = 0xfc \<longleftrightarrow> 252 \<le> unat b \<and> unat b < 254)"
  by (rule byte_enumerate) code_simp

lemma low_masks:
  "unat (b AND 0x7f :: byte) = unat b mod 128" "unat (b AND 0x3f) = unat b mod 64" "unat (b AND 0x1f) = unat b mod 32"
  "unat (b AND 0xf) = unat b mod 16" "unat (b AND 0x7) = unat b mod 8" "unat (b AND 0x3) = unat b mod 4"
  "unat (b AND 0x1) = unat b mod 2"
proof -
  have m: "unat (b AND mask k) = unat b mod 2 ^ k" for k
    by (simp add: take_bit_eq_mask [symmetric] unsigned_take_bit_eq) (simp add: take_bit_eq_mod)
  show "unat (b AND 0x7f :: byte) = unat b mod 128" using m [of 7] by (simp add: mask_eq_exp_minus_1)
  show "unat (b AND 0x3f) = unat b mod 64" using m [of 6] by (simp add: mask_eq_exp_minus_1)
  show "unat (b AND 0x1f) = unat b mod 32" using m [of 5] by (simp add: mask_eq_exp_minus_1)
  show "unat (b AND 0xf) = unat b mod 16" using m [of 4] by (simp add: mask_eq_exp_minus_1)
  show "unat (b AND 0x7) = unat b mod 8" using m [of 3] by (simp add: mask_eq_exp_minus_1)
  show "unat (b AND 0x3) = unat b mod 4" using m [of 2] by (simp add: mask_eq_exp_minus_1)
  show "unat (b AND 0x1) = unat b mod 2" using m [of 1] by (simp add: mask_eq_exp_minus_1)
qed

lemma unat_or_push_bit:
  assumes "unat (x :: u32) < 2 ^ k" and "k \<le> 32" and "unat y * 2 ^ k < 2 ^ 32"
  shows "unat (push_bit k y OR x) = unat y * 2 ^ k + unat x"
proof -
  have "take_bit k x = x"
    using assms(1) by (simp add: word_eq_iff_unsigned [where ?'a = nat] unsigned_take_bit_eq take_bit_nat_eq_self_iff)
  then have "bit x n \<Longrightarrow> n < k" for n
    by (metis bit_take_bit_iff)
  then have "push_bit k y AND x = 0"
    by (intro bit_eqI) (auto simp: bit_and_iff bit_push_bit_iff not_less [symmetric])
  then have eq: "push_bit k y OR x = push_bit k y + x"
    by (simp add: disjunctive_add_eq_or)
  have sh: "unat (push_bit k y) = unat y * 2 ^ k"
    using assms(3) by (subst unsigned_push_bit_eq) (simp add: take_bit_eq_mod push_bit_eq_mult)
  have "(unat y + 1) * 2 ^ k \<le> 2 ^ (32 - k) * 2 ^ k"
  proof (rule mult_right_mono)
    have "unat y * 2 ^ k < 2 ^ (32 - k) * 2 ^ k"
      using assms(2,3) by (simp add: power_add [symmetric])
    then show "unat y + 1 \<le> 2 ^ (32 - k)"
      by simp
  qed simp
  then have "unat y * 2 ^ k + unat x < 2 ^ 32"
    using assms(1,2) by (simp add: power_add [symmetric])
  then show ?thesis
    by (simp add: eq unat_word_ariths sh)
qed

lemma or_step:
  assumes "unat (x :: u32) < 2 ^ k" and "unat (y :: u32) < 2 ^ m" and "k + m < 32"
  shows "unat (push_bit k y OR x) = unat y * 2 ^ k + unat x" and "unat (push_bit k y OR x) < 2 ^ (k + m)"
proof -
  have "(unat y + 1) * 2 ^ k \<le> 2 ^ m * 2 ^ k"
    using assms(2) by (intro mult_right_mono) simp_all
  then have le: "unat y * 2 ^ k + 2 ^ k \<le> 2 ^ (k + m)"
    by (simp add: power_add mult.commute)
  moreover have "(2 :: nat) ^ (k + m) < 2 ^ 32"
    using assms(3) by (intro power_strict_increasing) simp_all
  moreover have "(0 :: nat) < 2 ^ k"
    by simp
  ultimately have "unat y * 2 ^ k < 2 ^ 32"
    by linarith
  then show eq: "unat (push_bit k y OR x) = unat y * 2 ^ k + unat x"
    using assms by (intro unat_or_push_bit) simp_all
  show "unat (push_bit k y OR x) < 2 ^ (k + m)"
    using le assms(1) by (simp add: eq)
qed

lemma unat_low6: "unat (low6 b) = unat b mod 64"
  by (simp add: low6_def low_masks)

lemma unat_low6_less: "unat (low6 b) < 2 ^ 6"
  by (simp add: unat_low6)

section \<open>Reference: the encoding of a character\<close>

text \<open>
  The encoding of RFC 2279 on natural numbers: the number of continuation bytes follows from the value,
  each of them carries six bits, and the first byte has the rest of the bits below its tag.
\<close>

definition char_len :: "nat \<Rightarrow> nat" where
  "char_len v = (if v < 0x80 then 0 else if v < 0x800 then 1 else if v < 0x10000 then 2
                 else if v < 0x200000 then 3 else if v < 0x4000000 then 4 else 5)"

definition lead_tag :: "nat \<Rightarrow> nat" where
  "lead_tag k = [0, 192, 224, 240, 248, 252] ! k"

fun cont_bytes :: "nat \<Rightarrow> nat \<Rightarrow> bytes" where
  "cont_bytes 0 v = []"
| "cont_bytes (Suc k) v = cont_bytes k (v div 64) @ [of_nat (128 + v mod 64)]"

definition utf8_ref :: "nat \<Rightarrow> bytes" where
  "utf8_ref v = (let k = char_len v in of_nat (lead_tag k + v div 64 ^ k) # cont_bytes k v)"

definition scalar :: "nat \<Rightarrow> bool" where
  "scalar v \<longleftrightarrow> v < 0x80000000 \<and> \<not> (0xd800 \<le> v \<and> v \<le> 0xdfff)"

section \<open>Reference: reading a character\<close>

definition lead :: "byte \<Rightarrow> (nat \<times> nat) option" where
  "lead b = (let n = unat b in
     if n < 128 then Some (0, n) else if n < 192 then None else if n < 224 then Some (1, n mod 32)
     else if n < 240 then Some (2, n mod 16) else if n < 248 then Some (3, n mod 8)
     else if n < 252 then Some (4, n mod 4) else if n < 254 then Some (5, n mod 2) else None)"

fun cont_value :: "nat \<Rightarrow> bytes \<Rightarrow> nat" where
  "cont_value v [] = v"
| "cont_value v (b # bs) = cont_value (v * 64 + unat b mod 64) bs"

lemma cont_byte_iff: "cont_byte b \<longleftrightarrow> 128 \<le> unat b \<and> unat b < 192"
  by (simp add: cont_byte_def tag_masks)

lemma charval2: "unat (push_bit 6 (ucast (b AND 0x1f :: byte)) OR low6 b1 :: u32) = unat b mod 32 * 64 + unat b1 mod 64"
  using or_step(1) [where x = "low6 b1" and k = 6 and y = "ucast (b AND 0x1f)" and m = 5]
  by (simp add: unat_low6 low_masks)

lemma or6:
  assumes "unat (x :: u32) < 2 ^ k" and "k + 6 < 32"
  shows "unat (push_bit k (low6 b) OR x) = unat b mod 64 * 2 ^ k + unat x" and "unat (push_bit k (low6 b) OR x) < 2 ^ (k + 6)"
  using or_step [where x = x and k = k and y = "low6 b" and m = 6] assms unat_low6_less [of b] by (simp_all add: unat_low6)

lemma low12: "unat (push_bit 6 (low6 a) OR low6 b) = unat a mod 64 * 64 + unat b mod 64"
  and low12_less: "unat (push_bit 6 (low6 a) OR low6 b) < 2 ^ 12"
  using or6 [where x = "low6 b" and k = 6 and b = a] unat_low6_less [of b] by (simp_all add: unat_low6)

lemma low18: "unat (push_bit 12 (low6 a) OR (push_bit 6 (low6 b) OR low6 c)) = unat a mod 64 * 4096 + unat b mod 64 * 64 + unat c mod 64"
  and low18_less: "unat (push_bit 12 (low6 a) OR (push_bit 6 (low6 b) OR low6 c)) < 2 ^ 18"
  using or6 [OF low12_less [of b c], where b = a] by (simp_all add: low12)

lemma low24:
  "unat (push_bit 18 (low6 a) OR (push_bit 12 (low6 b) OR (push_bit 6 (low6 c) OR low6 d)))
   = unat a mod 64 * 262144 + unat b mod 64 * 4096 + unat c mod 64 * 64 + unat d mod 64"
  and low24_less: "unat (push_bit 18 (low6 a) OR (push_bit 12 (low6 b) OR (push_bit 6 (low6 c) OR low6 d))) < 2 ^ 24"
  using or6 [OF low18_less [of b c d], where b = a] by (simp_all add: low18)

lemma low30:
  "unat (push_bit 24 (low6 a) OR (push_bit 18 (low6 b) OR (push_bit 12 (low6 c) OR (push_bit 6 (low6 d) OR low6 e))))
   = unat a mod 64 * 16777216 + unat b mod 64 * 262144 + unat c mod 64 * 4096 + unat d mod 64 * 64 + unat e mod 64"
  and low30_less:
  "unat (push_bit 24 (low6 a) OR (push_bit 18 (low6 b) OR (push_bit 12 (low6 c) OR (push_bit 6 (low6 d) OR low6 e)))) < 2 ^ 30"
  using or6 [OF low24_less [of b c d e], where b = a] by (simp_all add: low24)

lemma charval3:
  "unat (push_bit 12 (ucast (b AND 0xf :: byte)) OR push_bit 6 (low6 b1) OR low6 b2 :: u32) =
   unat b mod 16 * 4096 + unat b1 mod 64 * 64 + unat b2 mod 64"
  using or_step(1) [OF low12_less [of b1 b2], where m = 4 and y = "ucast (b AND 0xf)"]
  by (simp add: low12 low_masks or.assoc)

lemma charval4:
  "unat (push_bit 18 (ucast (b AND 0x7 :: byte)) OR push_bit 12 (low6 b1) OR push_bit 6 (low6 b2) OR low6 b3 :: u32) =
   unat b mod 8 * 262144 + unat b1 mod 64 * 4096 + unat b2 mod 64 * 64 + unat b3 mod 64"
  using or_step(1) [OF low18_less [of b1 b2 b3], where m = 3 and y = "ucast (b AND 0x7)"]
  by (simp add: low18 low_masks or.assoc)

lemma charval5:
  "unat (push_bit 24 (ucast (b AND 0x3 :: byte)) OR push_bit 18 (low6 b1) OR push_bit 12 (low6 b2) OR push_bit 6 (low6 b3)
         OR low6 b4 :: u32) =
   unat b mod 4 * 16777216 + unat b1 mod 64 * 262144 + unat b2 mod 64 * 4096 + unat b3 mod 64 * 64 + unat b4 mod 64"
  using or_step(1) [OF low24_less [of b1 b2 b3 b4], where m = 2 and y = "ucast (b AND 0x3)"]
  by (simp add: low24 low_masks or.assoc)

lemma charval6:
  "unat (push_bit 30 (ucast (b AND 0x1 :: byte)) OR push_bit 24 (low6 b1) OR push_bit 18 (low6 b2) OR push_bit 12 (low6 b3)
         OR push_bit 6 (low6 b4) OR low6 b5 :: u32) =
   unat b mod 2 * 1073741824 + unat b1 mod 64 * 16777216 + unat b2 mod 64 * 262144 + unat b3 mod 64 * 4096
   + unat b4 mod 64 * 64 + unat b5 mod 64"
proof -
  have "unat (ucast (b AND 0x1) :: u32) < 2 ^ 1"
    using low_masks(7) [of b] by simp
  from or_step(1) [OF low30_less [of b1 b2 b3 b4 b5] this] show ?thesis
    by (simp add: low30 low_masks(7) [simplified] or.assoc)
qed

definition ref_char :: "byte \<Rightarrow> bytes \<Rightarrow> (nat \<times> nat) option" where
  "ref_char b r =
     (case lead b of
        None \<Rightarrow> None
      | Some (k, x) \<Rightarrow>
          if k \<le> length r \<and> list_all cont_byte (take k r)
             \<and> char_len (cont_value x (take k r)) = k \<and> scalar (cont_value x (take k r))
          then Some (k, cont_value x (take k r)) else None)"

lemma length_ge_cases:
  "1 \<le> length r \<longleftrightarrow> (\<exists>b1 s. r = b1 # s)"
  "2 \<le> length r \<longleftrightarrow> (\<exists>b1 b2 s. r = b1 # b2 # s)"
  "3 \<le> length r \<longleftrightarrow> (\<exists>b1 b2 b3 s. r = b1 # b2 # b3 # s)"
  "4 \<le> length r \<longleftrightarrow> (\<exists>b1 b2 b3 b4 s. r = b1 # b2 # b3 # b4 # s)"
  "5 \<le> length r \<longleftrightarrow> (\<exists>b1 b2 b3 b4 b5 s. r = b1 # b2 # b3 # b4 # b5 # s)"
  by (auto simp: numeral_eq_Suc Suc_le_length_iff)

lemma utf8_char_1: "unat b < 128 \<Longrightarrow> utf8_char (b # r) = Some (ucast b, 1, r)"
proof -
  assume "unat b < 128"
  then have "b AND 0x7f = b"
    by (simp add: word_eq_iff_unsigned [where ?'a = nat] low_masks)
  then show ?thesis
    using \<open>unat b < 128\<close> by (simp add: tag_masks)
qed

lemma charval_test:
  assumes "unat (cv :: u32) = v"
  shows "(if cv < m then None else Some (cv, n, s)) =
         (if v < unat m then None else Some (of_nat v, n, s))"
  using assms by (auto simp: word_less_nat_alt)

lemma utf8_char_2:
  assumes "192 \<le> unat b" "unat b < 224"
  shows "utf8_char (b # b1 # s) =
    (let v = unat b mod 32 * 64 + unat b1 mod 64
     in if cont_byte b1 \<and> \<not> v < 0x80 then Some (of_nat v, 2, s) else None)"
  using assms by (simp add: tag_masks Let_def charval_test [OF charval2] del: of_nat_add of_nat_mult)

lemma utf8_char_3:
  assumes "224 \<le> unat b" "unat b < 240"
  shows "utf8_char (b # b1 # b2 # s) =
    (let v = unat b mod 16 * 4096 + unat b1 mod 64 * 64 + unat b2 mod 64
     in if cont_byte b1 \<and> cont_byte b2 \<and> \<not> (b = 0xed \<and> 0xa0 \<le> b1) \<and> \<not> v < 0x800
        then Some (of_nat v, 3, s) else None)"
proof -
  have "cont_byte b1 \<and> cont_byte b2 \<Longrightarrow> (b1 \<le> 0xbf \<and> 0x80 \<le> b2 \<and> b2 \<le> 0xbf)"
    by (auto simp: cont_byte_iff word_le_nat_alt)
  then show ?thesis
    using assms by (auto simp: tag_masks Let_def charval_test [OF charval3] simp del: of_nat_add of_nat_mult)
qed

lemma utf8_char_4:
  assumes "240 \<le> unat b" "unat b < 248"
  shows "utf8_char (b # b1 # b2 # b3 # s) =
    (let v = unat b mod 8 * 262144 + unat b1 mod 64 * 4096 + unat b2 mod 64 * 64 + unat b3 mod 64
     in if cont_byte b1 \<and> cont_byte b2 \<and> cont_byte b3 \<and> \<not> v < 0x10000 then Some (of_nat v, 4, s) else None)"
  using assms by (simp add: tag_masks Let_def charval_test [OF charval4] del: of_nat_add of_nat_mult)

lemma utf8_char_5:
  assumes "248 \<le> unat b" "unat b < 252"
  shows "utf8_char (b # b1 # b2 # b3 # b4 # s) =
    (let v = unat b mod 4 * 16777216 + unat b1 mod 64 * 262144 + unat b2 mod 64 * 4096 + unat b3 mod 64 * 64 + unat b4 mod 64
     in if cont_byte b1 \<and> cont_byte b2 \<and> cont_byte b3 \<and> cont_byte b4 \<and> \<not> v < 0x200000
        then Some (of_nat v, 5, s) else None)"
  using assms by (simp add: tag_masks Let_def charval_test [OF charval5] del: of_nat_add of_nat_mult)

lemma utf8_char_6:
  assumes "252 \<le> unat b" "unat b < 254"
  shows "utf8_char (b # b1 # b2 # b3 # b4 # b5 # s) =
    (let v = unat b mod 2 * 1073741824 + unat b1 mod 64 * 16777216 + unat b2 mod 64 * 262144 + unat b3 mod 64 * 4096
             + unat b4 mod 64 * 64 + unat b5 mod 64
     in if cont_byte b1 \<and> cont_byte b2 \<and> cont_byte b3 \<and> cont_byte b4 \<and> cont_byte b5 \<and> \<not> v < 0x4000000
        then Some (of_nat v, 6, s) else None)"
  using assms
  by (simp add: tag_masks Let_def charval_test [OF charval6, simplified] del: of_nat_add of_nat_mult)

lemma utf8_char_short:
  "192 \<le> unat b \<Longrightarrow> unat b < 224 \<Longrightarrow> length r < 1 \<Longrightarrow> utf8_char (b # r) = None"
  "224 \<le> unat b \<Longrightarrow> unat b < 240 \<Longrightarrow> length r < 2 \<Longrightarrow> utf8_char (b # r) = None"
  "240 \<le> unat b \<Longrightarrow> unat b < 248 \<Longrightarrow> length r < 3 \<Longrightarrow> utf8_char (b # r) = None"
  "248 \<le> unat b \<Longrightarrow> unat b < 252 \<Longrightarrow> length r < 4 \<Longrightarrow> utf8_char (b # r) = None"
  "252 \<le> unat b \<Longrightarrow> unat b < 254 \<Longrightarrow> length r < 5 \<Longrightarrow> utf8_char (b # r) = None"
  by (auto simp: tag_masks split: list.splits)

lemma utf8_char_bad:
  "128 \<le> unat b \<Longrightarrow> unat b < 192 \<Longrightarrow> utf8_char (b # r) = None"
  "254 \<le> unat b \<Longrightarrow> utf8_char (b # r) = None"
  by (auto simp: tag_masks)

lemma mod_tag:
  assumes "t \<le> n" and "n < t + d" and "(t :: nat) mod d = 0"
  shows "n = t + n mod d" and "n mod d < d"
proof -
  obtain x where x: "n = t + x"
    using assms(1) nat_le_iff_add by auto
  then have "n mod d = x"
    using assms by (simp add: mod_add_left_eq [symmetric, of t])
  then show "n = t + n mod d" and "n mod d < d"
    using x assms(2) by simp_all
qed

lemma cont_tag: "cont_byte b \<Longrightarrow> unat b = 128 + unat b mod 64"
  using mod_tag(1) [where t = 128 and d = 64 and n = "unat b"] by (simp add: cont_byte_iff)

lemma lead_tags:
  "192 \<le> unat b \<Longrightarrow> unat b < 224 \<Longrightarrow> unat b = 192 + unat b mod 32"
  "224 \<le> unat b \<Longrightarrow> unat b < 240 \<Longrightarrow> unat b = 224 + unat b mod 16"
  "240 \<le> unat b \<Longrightarrow> unat b < 248 \<Longrightarrow> unat b = 240 + unat b mod 8"
  "248 \<le> unat b \<Longrightarrow> unat b < 252 \<Longrightarrow> unat b = 248 + unat b mod 4"
  "252 \<le> unat b \<Longrightarrow> unat b < 254 \<Longrightarrow> unat b = 252 + unat b mod 2"
  using mod_tag(1) [where t = 192 and d = 32 and n = "unat b"] mod_tag(1) [where t = 224 and d = 16 and n = "unat b"]
    mod_tag(1) [where t = 240 and d = 8 and n = "unat b"] mod_tag(1) [where t = 248 and d = 4 and n = "unat b"]
    mod_tag(1) [where t = 252 and d = 2 and n = "unat b"]
  by simp_all

lemma surrogate_bytes:
  assumes "224 \<le> unat (b :: byte)" "unat b < 240" "cont_byte b1" "cont_byte b2"
  shows "b = 0xed \<and> 0xa0 \<le> b1 \<longleftrightarrow>
    0xd800 \<le> unat b mod 16 * 4096 + unat b1 mod 64 * 64 + unat b2 mod 64 \<and>
    unat b mod 16 * 4096 + unat b1 mod 64 * 64 + unat b2 mod 64 \<le> 0xdfff"
proof -
  have "b = 0xed \<longleftrightarrow> unat b = 237"
    by (simp add: word_eq_iff_unsigned [where ?'a = nat])
  then have "b = 0xed \<longleftrightarrow> unat b mod 16 = 13"
    using lead_tags(2) [OF assms(1,2)] by linarith
  moreover have "0xa0 \<le> b1 \<longleftrightarrow> 32 \<le> unat b1 mod 64"
    using cont_tag [OF assms(3)] unfolding word_le_nat_alt by (simp, linarith)
  moreover have "unat b1 mod 64 < 64" "unat b2 mod 64 < 64" "unat b mod 16 < 16"
    by simp_all
  moreover have "x = 13 \<and> 32 \<le> y \<longleftrightarrow> 0xd800 \<le> x * 4096 + y * 64 + z \<and> x * 4096 + y * 64 + z \<le> 0xdfff"
    if "y < 64" "z < 64" for x y z :: nat
  proof -
    consider "x \<le> 12" | "x = 13" "y < 32" | "x = 13" "32 \<le> y" | "14 \<le> x"
      by linarith
    then show ?thesis
      using that by cases auto
  qed
  ultimately show ?thesis
    by simp
qed

lemma char_len_range:
  "char_len v = 0 \<longleftrightarrow> v < 0x80"
  "char_len v = 1 \<longleftrightarrow> 0x80 \<le> v \<and> v < 0x800"
  "char_len v = 2 \<longleftrightarrow> 0x800 \<le> v \<and> v < 0x10000"
  "char_len v = 3 \<longleftrightarrow> 0x10000 \<le> v \<and> v < 0x200000"
  "char_len v = 4 \<longleftrightarrow> 0x200000 \<le> v \<and> v < 0x4000000"
  "char_len v = 5 \<longleftrightarrow> 0x4000000 \<le> v"
  by (auto simp: char_len_def)

lemma cont_bits: "unat (b :: byte) mod 64 < 64"
  by simp

lemma utf8_char_ref_2:
  assumes "192 \<le> unat b" "unat b < 224"
  shows "utf8_char (b # r) = map_option (\<lambda>(k, v). (of_nat v, k + 1, drop k r)) (ref_char b r)"
proof (cases "1 \<le> length r")
  case True
  then obtain b1 s where r: "r = b1 # s"
    unfolding length_ge_cases by blast
  define v where "v = unat b mod 32 * 64 + unat b1 mod 64"
  have cv: "cont_value (unat b mod 32) (take 1 r) = v"
    by (simp add: r v_def)
  have "unat b mod 32 < 32"
    by simp
  then have "v < 0x800"
    unfolding v_def using cont_bits [of b1] by linarith
  then have *: "char_len v = 1 \<and> scalar v \<longleftrightarrow> \<not> v < 0x80"
    unfolding char_len_range scalar_def by linarith
  have ref: "ref_char b r = (if cont_byte b1 \<and> char_len v = 1 \<and> scalar v then Some (1, v) else None)"
    using assms cv by (simp add: ref_char_def lead_def) (simp add: r)
  from * show ?thesis
    using assms(1,2)
    by (auto simp: ref [unfolded r] r utf8_char_2 Let_def v_def [symmetric] simp del: utf8_char.simps of_nat_add of_nat_mult)
qed (use assms utf8_char_short(1) [of b r] in \<open>simp add: not_le ref_char_def lead_def del: utf8_char.simps\<close>)

lemma utf8_char_ref_3:
  assumes "224 \<le> unat b" "unat b < 240"
  shows "utf8_char (b # r) = map_option (\<lambda>(k, v). (of_nat v, k + 1, drop k r)) (ref_char b r)"
proof (cases "2 \<le> length r")
  case True
  then obtain b1 b2 s where r: "r = b1 # b2 # s"
    unfolding length_ge_cases by blast
  define v where "v = unat b mod 16 * 4096 + unat b1 mod 64 * 64 + unat b2 mod 64"
  have cv: "cont_value (unat b mod 16) (take 2 r) = v"
    by (simp add: r v_def)
  have "unat b mod 16 < 16"
    by simp
  then have "v < 0x10000"
    unfolding v_def using cont_bits [of b1] cont_bits [of b2] by linarith
  then have *: "char_len v = 2 \<and> scalar v \<longleftrightarrow> \<not> v < 0x800 \<and> \<not> (0xd800 \<le> v \<and> v \<le> 0xdfff)"
    unfolding char_len_range scalar_def by linarith
  have ref: "ref_char b r = (if cont_byte b1 \<and> cont_byte b2 \<and> char_len v = 2 \<and> scalar v then Some (2, v) else None)"
    using assms cv by (simp add: ref_char_def lead_def) (simp add: r)
  from * show ?thesis
    using assms(1,2) surrogate_bytes [OF assms(1,2), of b1 b2, folded v_def]
    by (auto simp: ref [unfolded r] r utf8_char_3 Let_def v_def [symmetric] simp del: utf8_char.simps of_nat_add of_nat_mult)
qed (use assms in \<open>simp add: utf8_char_short(2) ref_char_def lead_def del: utf8_char.simps\<close>)

lemma utf8_char_ref_4:
  assumes "240 \<le> unat b" "unat b < 248"
  shows "utf8_char (b # r) = map_option (\<lambda>(k, v). (of_nat v, k + 1, drop k r)) (ref_char b r)"
proof (cases "3 \<le> length r")
  case True
  then obtain b1 b2 b3 s where r: "r = b1 # b2 # b3 # s"
    unfolding length_ge_cases by blast
  define v where "v = unat b mod 8 * 262144 + unat b1 mod 64 * 4096 + unat b2 mod 64 * 64 + unat b3 mod 64"
  have cv: "cont_value (unat b mod 8) (take 3 r) = v"
    by (simp add: r v_def)
  have "unat b mod 8 < 8"
    by simp
  then have "v < 0x200000"
    unfolding v_def using cont_bits [of b1] cont_bits [of b2] cont_bits [of b3] by linarith
  then have *: "char_len v = 3 \<and> scalar v \<longleftrightarrow> \<not> v < 0x10000"
    unfolding char_len_range scalar_def by linarith
  have ref: "ref_char b r = (if cont_byte b1 \<and> cont_byte b2 \<and> cont_byte b3 \<and> char_len v = 3 \<and> scalar v then Some (3, v) else None)"
    using assms cv by (simp add: ref_char_def lead_def) (simp add: r)
  from * show ?thesis
    using assms(1,2)
    by (auto simp: ref [unfolded r] r utf8_char_4 Let_def v_def [symmetric] simp del: utf8_char.simps of_nat_add of_nat_mult)
qed (use assms in \<open>simp add: utf8_char_short(3) ref_char_def lead_def del: utf8_char.simps\<close>)

lemma utf8_char_ref_5:
  assumes "248 \<le> unat b" "unat b < 252"
  shows "utf8_char (b # r) = map_option (\<lambda>(k, v). (of_nat v, k + 1, drop k r)) (ref_char b r)"
proof (cases "4 \<le> length r")
  case True
  then obtain b1 b2 b3 b4 s where r: "r = b1 # b2 # b3 # b4 # s"
    unfolding length_ge_cases by blast
  define v where "v = unat b mod 4 * 16777216 + unat b1 mod 64 * 262144 + unat b2 mod 64 * 4096 + unat b3 mod 64 * 64 + unat b4 mod 64"
  have cv: "cont_value (unat b mod 4) (take 4 r) = v"
    by (simp add: r v_def)
  have "unat b mod 4 < 4"
    by simp
  then have "v < 0x4000000"
    unfolding v_def using cont_bits [of b1] cont_bits [of b2] cont_bits [of b3] cont_bits [of b4] by linarith
  then have *: "char_len v = 4 \<and> scalar v \<longleftrightarrow> \<not> v < 0x200000"
    unfolding char_len_range scalar_def by linarith
  have ref: "ref_char b r = (if cont_byte b1 \<and> cont_byte b2 \<and> cont_byte b3 \<and> cont_byte b4 \<and> char_len v = 4 \<and> scalar v then Some (4, v) else None)"
    using assms cv by (simp add: ref_char_def lead_def) (simp add: r)
  from * show ?thesis
    using assms(1,2)
    by (auto simp: ref [unfolded r] r utf8_char_5 Let_def v_def [symmetric] simp del: utf8_char.simps of_nat_add of_nat_mult)
qed (use assms in \<open>simp add: utf8_char_short(4) ref_char_def lead_def del: utf8_char.simps\<close>)

lemma utf8_char_ref_6:
  assumes "252 \<le> unat b" "unat b < 254"
  shows "utf8_char (b # r) = map_option (\<lambda>(k, v). (of_nat v, k + 1, drop k r)) (ref_char b r)"
proof (cases "5 \<le> length r")
  case True
  then obtain b1 b2 b3 b4 b5 s where r: "r = b1 # b2 # b3 # b4 # b5 # s"
    unfolding length_ge_cases by blast
  define v where "v = unat b mod 2 * 1073741824 + unat b1 mod 64 * 16777216 + unat b2 mod 64 * 262144 + unat b3 mod 64 * 4096 + unat b4 mod 64 * 64 + unat b5 mod 64"
  have cv: "cont_value (unat b mod 2) (take 5 r) = v"
    by (simp add: r v_def)
  have "unat b mod 2 < 2"
    by simp
  then have "v < 0x80000000"
    unfolding v_def using cont_bits [of b1] cont_bits [of b2] cont_bits [of b3] cont_bits [of b4] cont_bits [of b5] by linarith
  then have *: "char_len v = 5 \<and> scalar v \<longleftrightarrow> \<not> v < 0x4000000"
    unfolding char_len_range scalar_def by linarith
  have ref: "ref_char b r = (if cont_byte b1 \<and> cont_byte b2 \<and> cont_byte b3 \<and> cont_byte b4 \<and> cont_byte b5 \<and> char_len v = 5 \<and> scalar v then Some (5, v) else None)"
    using assms cv by (simp add: ref_char_def lead_def) (simp add: r)
  from * show ?thesis
    using assms(1,2)
    by (auto simp: ref [unfolded r] r utf8_char_6 Let_def v_def [symmetric] simp del: utf8_char.simps of_nat_add of_nat_mult)
qed (use assms in \<open>simp add: utf8_char_short(5) ref_char_def lead_def del: utf8_char.simps\<close>)

lemma utf8_char_ref:
  "utf8_char (b # r) = map_option (\<lambda>(k, v). (of_nat v, k + 1, drop k r)) (ref_char b r)"
proof -
  consider "unat b < 192 \<or> 254 \<le> unat b" | "192 \<le> unat b" "unat b < 224" | "224 \<le> unat b" "unat b < 240"
    | "240 \<le> unat b" "unat b < 248" | "248 \<le> unat b" "unat b < 252" | "252 \<le> unat b" "unat b < 254"
    by linarith
  then show ?thesis
  proof cases
    case 1
    then show ?thesis
      by (cases "unat b < 128")
        (auto simp: ref_char_def lead_def utf8_char_bad char_len_range scalar_def utf8_char_1 simp del: utf8_char.simps)
  qed (rule utf8_char_ref_2 utf8_char_ref_3 utf8_char_ref_4 utf8_char_ref_5 utf8_char_ref_6, assumption, assumption)+
qed

lemma cont_value_snoc: "cont_value x (bs @ [b]) = cont_value x bs * 64 + unat b mod 64"
  by (induction x bs rule: cont_value.induct) simp_all

lemma cont_value_div: "cont_value x bs div 64 ^ length bs = x"
proof (induction bs rule: rev_induct)
  case (snoc b bs)
  have "cont_value x (bs @ [b]) div 64 ^ length (bs @ [b]) = cont_value x (bs @ [b]) div 64 div 64 ^ length bs"
    by (simp only: length_append_singleton power_Suc div_mult2_eq)
  then show ?case
    by (simp add: snoc cont_value_snoc)
qed simp

lemma cont_byte_of_nat: "cont_byte b \<Longrightarrow> of_nat (128 + unat b mod 64) = b"
proof -
  have "cont_byte b \<longrightarrow> of_nat (128 + unat b mod 64) = b"
    by (rule byte_enumerate) code_simp
  then show "cont_byte b \<Longrightarrow> of_nat (128 + unat b mod 64) = b"
    by blast
qed

lemma cont_bytes_value: "list_all cont_byte bs \<Longrightarrow> cont_bytes (length bs) (cont_value x bs) = bs"
proof (induction bs rule: rev_induct)
  case (snoc b bs)
  then have "b = of_nat (128 + unat b mod 64)"
    by (simp add: cont_byte_of_nat del: of_nat_add)
  then show ?case
    using snoc by (auto simp: cont_value_snoc simp del: of_nat_add)
qed simp

lemma length_cont_bytes [simp]: "length (cont_bytes k v) = k"
  by (induction k v rule: cont_bytes.induct) simp_all

lemma cont_bytes_cont: "list_all cont_byte (cont_bytes k v)"
proof (induction k v rule: cont_bytes.induct)
  case (2 k v)
  have "v mod 64 < 64"
    by simp
  then have "cont_byte (of_nat (128 + v mod 64))"
    by (simp add: cont_byte_iff del: of_nat_add)
  then show ?case
    using 2 by (simp del: of_nat_add)
qed simp

lemma cont_value_bytes: "cont_value (v div 64 ^ k) (cont_bytes k v) = v"
proof (induction k v rule: cont_bytes.induct)
  case (2 k v)
  have "(128 + v mod 64) mod 64 = v mod 64"
    by (simp add: mod_add_left_eq [symmetric])
  moreover have "(128 + v mod 64) mod 256 = 128 + v mod 64"
    using mod_less_divisor [of 64 v] by simp
  ultimately show ?case
    using 2 by (simp add: cont_value_snoc div_mult2_eq [symmetric] del: of_nat_add)
qed simp

lemma char_len_cases: "char_len v \<in> {0, 1, 2, 3, 4, 5}"
  by (simp add: char_len_def)

lemma lead_byte: "lead b = Some (k, x) \<Longrightarrow> k \<le> 5 \<and> of_nat (lead_tag k + x) = b"
proof -
  have "case lead b of None \<Rightarrow> True | Some (k, x) \<Rightarrow> k \<le> 5 \<and> of_nat (lead_tag k + x) = b"
    by (rule byte_enumerate) code_simp
  then show "lead b = Some (k, x) \<Longrightarrow> k \<le> 5 \<and> of_nat (lead_tag k + x) = b"
    by simp
qed

lemma lead_of_tag: "k \<le> 5 \<Longrightarrow> x < [128, 32, 16, 8, 4, 2] ! k \<Longrightarrow> lead (of_nat (lead_tag k + x)) = Some (k, x)"
proof -
  have "\<forall>k\<in>set [0..<6]. \<forall>x\<in>set [0..<[128, 32, 16, 8, 4, 2] ! k]. lead (of_nat (lead_tag k + x)) = Some (k, x)"
    by code_simp
  then show "k \<le> 5 \<Longrightarrow> x < [128, 32, 16, 8, 4, 2] ! k \<Longrightarrow> lead (of_nat (lead_tag k + x)) = Some (k, x)"
    by simp
qed

lemma lead_bits: "v < 0x80000000 \<Longrightarrow> v div 64 ^ char_len v < [128, 32, 16, 8, 4, 2] ! char_len v"
  by (auto simp: char_len_def less_mult_imp_div_less)

text \<open>What is read as one character is the encoding of its value, and no other bytes are accepted.\<close>

lemma utf8_char_Some_iff:
  "utf8_char bs = Some (c, n, r) \<longleftrightarrow>
   (\<exists>v. scalar v \<and> c = of_nat v \<and> bs = utf8_ref v @ r \<and> n = length (utf8_ref v))"
proof
  assume *: "utf8_char bs = Some (c, n, r)"
  then obtain b s where bs: "bs = b # s"
    by (cases bs) auto
  with * obtain k v where rc: "ref_char b s = Some (k, v)" and out: "c = of_nat v" "n = k + 1" "r = drop k s"
    by (auto simp: utf8_char_ref simp del: utf8_char.simps)
  from rc obtain x where x: "lead b = Some (k, x)" "k \<le> length s" "list_all cont_byte (take k s)"
      "v = cont_value x (take k s)" "char_len v = k" "scalar v"
    by (auto simp: ref_char_def split: option.splits prod.splits if_splits)
  have len: "length (take k s) = k"
    using x(2) by simp
  have "cont_bytes k v = take k s" "v div 64 ^ k = x"
    using cont_bytes_value [OF x(3), of x] cont_value_div [of x "take k s"] by (simp_all only: len x(4))
  then have "utf8_ref v = b # take k s"
    using lead_byte [OF x(1)] by (simp add: utf8_ref_def Let_def x(5) del: of_nat_add)
  then show "\<exists>v. scalar v \<and> c = of_nat v \<and> bs = utf8_ref v @ r \<and> n = length (utf8_ref v)"
    using x(2,6) bs out by (intro exI [of _ v]) simp
next
  assume "\<exists>v. scalar v \<and> c = of_nat v \<and> bs = utf8_ref v @ r \<and> n = length (utf8_ref v)"
  then obtain v where v: "scalar v" "c = of_nat v" "bs = utf8_ref v @ r" "n = length (utf8_ref v)"
    by blast
  define k where "k = char_len v"
  have "k \<le> 5"
    unfolding k_def char_len_def by simp
  moreover have "v div 64 ^ k < [128, 32, 16, 8, 4, 2] ! k"
    using v(1) lead_bits unfolding k_def by (simp add: scalar_def)
  ultimately have l: "lead (of_nat (lead_tag k + v div 64 ^ k)) = Some (k, v div 64 ^ k)"
    by (rule lead_of_tag)
  have "ref_char (of_nat (lead_tag k + v div 64 ^ k)) (cont_bytes k v @ r) = Some (k, v)"
    unfolding ref_char_def l using v(1)
    by (simp add: cont_bytes_cont cont_value_bytes k_def [symmetric])
  then show "utf8_char bs = Some (c, n, r)"
    using v by (simp add: utf8_ref_def Let_def k_def [symmetric] utf8_char_ref del: utf8_char.simps of_nat_add)
qed

lemma ucast_byte: "(ucast (w :: u32) :: byte) = of_nat (unat w)"
  by simp

lemma utf8_bits_value:
  assumes "tag AND mask j = 0" and "unat tag + 2 ^ j \<le> 256" and "j \<le> 8"
  shows "utf8_bits c shift (mask j) tag = of_nat (unat tag + unat c div 2 ^ shift mod 2 ^ j)"
proof -
  define x where "x = drop_bit shift c AND mask j"
  have ux: "unat x = unat c div 2 ^ shift mod 2 ^ j"
    by (simp add: x_def take_bit_eq_mask [symmetric] unsigned_take_bit_eq unsigned_drop_bit_eq)
      (simp add: take_bit_eq_mod drop_bit_eq_div)
  have "x AND tag = 0"
    using assms(1) by (simp add: x_def and.assoc and.commute [of "mask j"])
  then have or: "x OR tag = x + tag"
    by (simp add: disjunctive_add_eq_or)
  have "unat x < 2 ^ j"
    by (simp add: ux)
  then have "unat (x OR tag) = unat tag + unat x"
    using assms(2) by (simp add: or unat_word_ariths)
  then have "(of_nat (unat (x OR tag)) :: byte) = of_nat (unat tag + unat c div 2 ^ shift mod 2 ^ j)"
    by (simp only: ux)
  then show ?thesis
    unfolding utf8_bits_def x_def [symmetric] by (simp only: ucast_byte)
qed

lemma masks: "(0x3f :: u32) = mask 6" "(0x1f :: u32) = mask 5" "(0xf :: u32) = mask 4" "(0x7 :: u32) = mask 3"
  "(0x3 :: u32) = mask 2" "(1 :: u32) = mask 1"
  by (simp_all add: mask_eq_exp_minus_1)

lemma utf8_bits_values:
  "utf8_bits c shift 0x3f 0x80 = of_nat (128 + unat c div 2 ^ shift mod 64)"
  "utf8_bits c shift 0x1f 0xc0 = of_nat (192 + unat c div 2 ^ shift mod 32)"
  "utf8_bits c shift 0xf 0xe0 = of_nat (224 + unat c div 2 ^ shift mod 16)"
  "utf8_bits c shift 0x7 0xf0 = of_nat (240 + unat c div 2 ^ shift mod 8)"
  "utf8_bits c shift 0x3 0xf8 = of_nat (248 + unat c div 2 ^ shift mod 4)"
  "utf8_bits c shift 1 0xfc = of_nat (252 + unat c div 2 ^ shift mod 2)"
  using utf8_bits_value [where j = 6 and tag = "0x80" and c = c and shift = shift]
    utf8_bits_value [where j = 5 and tag = "0xc0" and c = c and shift = shift]
    utf8_bits_value [where j = 4 and tag = "0xe0" and c = c and shift = shift]
    utf8_bits_value [where j = 3 and tag = "0xf0" and c = c and shift = shift]
    utf8_bits_value [where j = 2 and tag = "0xf8" and c = c and shift = shift]
    utf8_bits_value [where j = 1 and tag = "0xfc" and c = c and shift = shift]
  by (simp_all add: mask_eq_exp_minus_1)

lemma cont_bytes_numeral:
  "cont_bytes 1 v = [of_nat (128 + v mod 64)]"
  "cont_bytes (numeral k) v = cont_bytes (pred_numeral k) (v div 64) @ [of_nat (128 + v mod 64)]"
  by (simp_all only: One_nat_def numeral_eq_Suc cont_bytes.simps append_Nil)

lemma utf8_ref_cases:
  "v < 0x80 \<Longrightarrow> utf8_ref v = [of_nat v]"
  "0x80 \<le> v \<Longrightarrow> v < 0x800 \<Longrightarrow> utf8_ref v = [of_nat (192 + v div 64), of_nat (128 + v mod 64)]"
  "0x800 \<le> v \<Longrightarrow> v < 0x10000 \<Longrightarrow>
     utf8_ref v = [of_nat (224 + v div 4096), of_nat (128 + v div 64 mod 64), of_nat (128 + v mod 64)]"
  "0x10000 \<le> v \<Longrightarrow> v < 0x200000 \<Longrightarrow>
     utf8_ref v = [of_nat (240 + v div 262144), of_nat (128 + v div 4096 mod 64), of_nat (128 + v div 64 mod 64),
       of_nat (128 + v mod 64)]"
  "0x200000 \<le> v \<Longrightarrow> v < 0x4000000 \<Longrightarrow>
     utf8_ref v = [of_nat (248 + v div 16777216), of_nat (128 + v div 262144 mod 64), of_nat (128 + v div 4096 mod 64),
       of_nat (128 + v div 64 mod 64), of_nat (128 + v mod 64)]"
  "0x4000000 \<le> v \<Longrightarrow>
     utf8_ref v = [of_nat (252 + v div 1073741824), of_nat (128 + v div 16777216 mod 64), of_nat (128 + v div 262144 mod 64),
       of_nat (128 + v div 4096 mod 64), of_nat (128 + v div 64 mod 64), of_nat (128 + v mod 64)]"
  by (simp_all add: utf8_ref_def char_len_def lead_tag_def cont_bytes_numeral [unfolded One_nat_def] div_mult2_eq [symmetric] del: of_nat_add)

lemma length_utf8_ref: "length (utf8_ref v) = char_len v + 1"
  by (simp add: utf8_ref_def Let_def)

lemma encode_put_ref:
  assumes "unat c < 0x80000000"
  shows "encode_put room c out =
    (if has_room room (if c < 0x80 then 0 else length (utf8_ref (unat c))) out then Some (out @ utf8_ref (unat c)) else None)"
proof -
  have ucast: "ucast c = (of_nat (unat c) :: byte)"
    by simp
  consider "unat c < 0x80" | "0x80 \<le> unat c" "unat c < 0x800" | "0x800 \<le> unat c" "unat c < 0x10000"
    | "0x10000 \<le> unat c" "unat c < 0x200000" | "0x200000 \<le> unat c" "unat c < 0x4000000" | "0x4000000 \<le> unat c"
    by linarith
  then show ?thesis
    using assms
    by cases (simp_all add: encode_put_def put_out_def word_less_nat_alt utf8_bits_values utf8_ref_cases ucast
      less_mult_imp_div_less del: of_nat_add of_nat_unat)
qed

section \<open>Strings\<close>

definition utf8_text :: "nat list \<Rightarrow> bytes" where
  "utf8_text vs = concat (map utf8_ref vs)"

lemma utf8_text_simps [simp]: "utf8_text [] = []" "utf8_text (v # vs) = utf8_ref v @ utf8_text vs"
  by (simp_all add: utf8_text_def)

lemma utf8_ref_nonempty [simp]: "utf8_ref v \<noteq> []"
  by (simp add: utf8_ref_def Let_def)

lemma utf8_text_Nil_iff [simp]: "utf8_text vs = [] \<longleftrightarrow> vs = []"
  by (cases vs) simp_all

lemma utf8_char_text: "scalar v \<Longrightarrow> utf8_char (utf8_ref v @ r) = Some (of_nat v, length (utf8_ref v), r)"
  unfolding utf8_char_Some_iff by blast

lemma decode_loop_Nil [simp]: "decode_loop env enc room [] out = (cast32 (int (length out)), out)"
  by (subst decode_loop.simps) simp

lemma decode_loop_char:
  "scalar v \<Longrightarrow> decode_loop env enc room (utf8_ref v @ r) out =
     (case decode_put env enc room (of_nat v) (utf8_ref v) (r = []) out of
        None \<Rightarrow> (0, out) | Some out \<Rightarrow> decode_loop env enc room r out)"
  by (subst decode_loop.simps) (simp add: utf8_char_text split: option.splits)

lemma decode_loop_bad:
  "bs \<noteq> [] \<Longrightarrow> utf8_char bs = None \<Longrightarrow> decode_loop env enc room bs out = (0, out)"
  by (subst decode_loop.simps) simp

text \<open>Every string is a text and a rest that does not begin with a character.\<close>

lemma utf8_split: "\<exists>vs r. bs = utf8_text vs @ r \<and> list_all scalar vs \<and> utf8_char r = None"
proof (induction "length bs" arbitrary: bs rule: less_induct)
  case less
  show ?case
  proof (cases "utf8_char bs")
    case None
    then show ?thesis
      by (intro exI [of _ "[]"] exI [of _ bs]) simp
  next
    case (Some p)
    then obtain c n r where c: "utf8_char bs = Some (c, n, r)"
      by (cases p) auto
    then obtain v where v: "scalar v" "bs = utf8_ref v @ r"
      unfolding utf8_char_Some_iff by blast
    obtain vs s where "r = utf8_text vs @ s" "list_all scalar vs" "utf8_char s = None"
      using less [OF utf8_char_shorter [OF c]] by blast
    then show ?thesis
      using v by (intro exI [of _ "v # vs"] exI [of _ s]) simp
  qed
qed

lemma has_room_None [simp]: "has_room None n out"
  by (simp add: has_room_def)

lemma put_out_None [simp]: "put_out None e out = Some (out @ e)"
  by (simp add: put_out_def)

lemma decode_ascii_text:
  "list_all scalar vs \<Longrightarrow>
   decode_loop env SILC_STRING_ASCII None (utf8_text vs @ r) out = decode_loop env SILC_STRING_ASCII None r (out @ map of_nat vs)"
  by (induction vs arbitrary: out) (simp_all add: decode_loop_char decode_put_def)

lemma length_utf8_text: "length vs \<le> length (utf8_text vs)"
  by (induction vs) (simp_all add: length_utf8_ref)

lemma utf8_text_no_rest:
  "utf8_text vs = utf8_text us @ r \<Longrightarrow> list_all scalar vs \<Longrightarrow> list_all scalar us \<Longrightarrow> utf8_char r = None \<Longrightarrow> r = []"
proof (induction us arbitrary: vs)
  case Nil
  then show ?case
    using utf8_char_text by (cases vs) auto
next
  case (Cons u us)
  then obtain v ws where v: "vs = v # ws" "scalar v" "list_all scalar ws"
    by (cases vs) auto
  have "utf8_char (utf8_ref v @ utf8_text ws) = utf8_char (utf8_ref u @ utf8_text us @ r)"
    using Cons.prems(1) by (simp add: v)
  then have "utf8_text ws = utf8_text us @ r"
    using v Cons.prems by (simp add: utf8_char_text)
  then show ?case
    using Cons v by simp
qed

lemma silc_utf8_valid_text:
  assumes "length bs < u32_max"
  shows "silc_utf8_valid env bs \<longleftrightarrow> (\<exists>vs. vs \<noteq> [] \<and> list_all scalar vs \<and> bs = utf8_text vs)"
proof -
  obtain us r where split: "bs = utf8_text us @ r" "list_all scalar us" "utf8_char r = None"
    using utf8_split by blast
  note dec = decode_ascii_text [OF split(2), of env r "[]", folded split(1)]
  show ?thesis
  proof (cases "r = []")
    case True
    then have bs: "bs = utf8_text us"
      using split(1) by simp
    have "length us < u32_max"
      using assms length_utf8_text [of us] bs by simp
    then have "silc_utf8_valid env bs \<longleftrightarrow> us \<noteq> []"
      using dec by (simp add: True silc_utf8_valid_def cast32_exact) (simp add: bs)
    moreover have "vs \<noteq> []" if "bs = utf8_text vs" "us \<noteq> []" for vs
      using that bs utf8_text_Nil_iff [of us] by (metis utf8_text_simps(1))
    moreover have "us \<noteq> []" if "bs = utf8_text vs" "vs \<noteq> []" for vs
      using that bs utf8_text_Nil_iff [of vs] by (metis utf8_text_simps(1))
    ultimately show ?thesis
      using bs split(2) by blast
  next
    case False
    have "fst (decode_loop env SILC_STRING_ASCII None bs []) = 0"
      using dec False split(3) by (simp add: decode_loop_bad)
    moreover have "\<not> (list_all scalar vs \<and> bs = utf8_text vs)" for vs
      using utf8_text_no_rest [of vs us r] split False by auto
    ultimately show ?thesis
      unfolding silc_utf8_valid_def by blast
  qed
qed

section \<open>Round trips\<close>

text \<open>A character in one of the fixed-width encodings, and the values that it can have there.\<close>

definition wide_char :: "silc_string_encoding \<Rightarrow> nat \<Rightarrow> bytes" where
  "wide_char enc v =
     (case enc of
        SILC_STRING_BMP \<Rightarrow> SILC_PUT16_MSB (of_nat v)
      | SILC_STRING_BMP_LSB \<Rightarrow> SILC_PUT16_LSB (of_nat v)
      | SILC_STRING_UNIVERSAL \<Rightarrow> SILC_PUT32_MSB (of_nat v)
      | SILC_STRING_UNIVERSAL_LSB \<Rightarrow> SILC_PUT32_LSB (of_nat v)
      | _ \<Rightarrow> [of_nat v])"

definition char_width :: "silc_string_encoding \<Rightarrow> nat" where
  "char_width enc =
     (if enc \<in> {SILC_STRING_BMP, SILC_STRING_BMP_LSB} then 2
      else if enc \<in> {SILC_STRING_UNIVERSAL, SILC_STRING_UNIVERSAL_LSB} then 4 else 1)"

definition plain_encoding :: "silc_string_encoding \<Rightarrow> bool" where
  "plain_encoding enc \<longleftrightarrow>
     enc \<in> {SILC_STRING_ASCII, SILC_STRING_TELETEX, SILC_STRING_BMP, SILC_STRING_BMP_LSB, SILC_STRING_UNIVERSAL,
            SILC_STRING_UNIVERSAL_LSB}"

definition fits :: "silc_string_encoding \<Rightarrow> nat \<Rightarrow> bool" where
  "fits enc v \<longleftrightarrow> scalar v \<and> v < 256 ^ char_width enc"

definition wide_text :: "silc_string_encoding \<Rightarrow> nat list \<Rightarrow> bytes" where
  "wide_text enc vs = concat (map (wide_char enc) vs)"

lemma wide_text_simps [simp]: "wide_text enc [] = []" "wide_text enc (v # vs) = wide_char enc v @ wide_text enc vs"
  by (simp_all add: wide_text_def)

lemma length_wide_char: "length (wide_char enc v) = char_width enc"
  by (cases enc) (simp_all add: wide_char_def char_width_def)

lemma char_width_pos: "0 < char_width enc"
  by (simp add: char_width_def)

lemma wide_char_nonempty [simp]: "wide_char enc v \<noteq> []"
  using length_wide_char [of enc v] char_width_pos [of enc] by fastforce

lemma ucast_of_nat_wide:
  "v < 256 \<Longrightarrow> ucast (of_nat v :: byte) = (of_nat v :: u32)" "v < 65536 \<Longrightarrow> ucast (of_nat v :: u16) = (of_nat v :: u32)"
  by (simp_all add: word_eq_iff_unsigned [where ?'a = nat])

lemma drop_PUT: "drop 2 (SILC_PUT16_MSB w @ r) = r" "drop 2 (SILC_PUT16_LSB w @ r) = r"
  "drop 4 (SILC_PUT32_MSB x @ r) = r" "drop 4 (SILC_PUT32_LSB x @ r) = r"
  by simp_all

lemma read_wide_char:
  assumes "plain_encoding enc" and "fits enc v"
  shows "read_char env enc (wide_char enc v @ r) = Some (of_nat v, r)"
proof (cases enc)
qed (use assms in \<open>simp_all add: plain_encoding_def fits_def read_char_def wide_char_def char_width_def ucast_of_nat_wide drop_PUT\<close>)

lemma decode_put_wide:
  "plain_encoding enc \<Longrightarrow> decode_put env enc room (of_nat v) src l out = put_out room (wide_char enc v) out"
  by (auto simp: plain_encoding_def decode_put_def wide_char_def)

text \<open>A buffer of the length of the result has room for every step.\<close>

definition roomy :: "nat option \<Rightarrow> nat \<Rightarrow> bool" where
  "roomy room n \<longleftrightarrow> n < u32_max \<and> (\<forall>s. room = Some s \<longrightarrow> n \<le> s)"

lemma roomy_has_room: "roomy room n \<Longrightarrow> length out + k \<le> n \<Longrightarrow> has_room room k out"
  by (auto simp: roomy_def has_room_def add32_exact split: option.splits)

lemma decode_loop_wide:
  assumes "plain_encoding enc" and "roomy room n"
  shows "list_all (fits enc) vs \<Longrightarrow> length out + length (wide_text enc vs) \<le> n \<Longrightarrow>
    decode_loop env enc room (utf8_text vs) out = (length out + length (wide_text enc vs), out @ wide_text enc vs)"
proof (induction vs arbitrary: out)
  case Nil
  then show ?case
    using assms(2) by (simp add: roomy_def cast32_exact)
next
  case (Cons v vs)
  then have "has_room room (length (wide_char enc v)) out"
    by (intro roomy_has_room [OF assms(2)]) simp
  then show ?case
    using Cons by (simp add: decode_loop_char fits_def decode_put_wide [OF assms(1)] put_out_def)
qed

lemma encode_loop_wide:
  assumes "plain_encoding enc" and "roomy room n"
  shows "list_all (fits enc) vs \<Longrightarrow> length out + length (utf8_text vs) \<le> n \<Longrightarrow>
    encode_loop env enc room (wide_text enc vs) out = (length out + length (utf8_text vs), out @ utf8_text vs)"
proof (induction vs arbitrary: out)
  case Nil
  then show ?case
    using assms(2) by (subst encode_loop.simps) (simp add: roomy_def cast32_exact)
next
  case (Cons v vs)
  have v: "unat (of_nat v :: u32) = v" "v < 0x80000000"
    using Cons.prems by (simp_all add: fits_def scalar_def)
  have "has_room room (if (of_nat v :: u32) < 0x80 then 0 else length (utf8_ref v)) out"
    using Cons.prems by (intro roomy_has_room [OF assms(2)]) simp
  then have "encode_put room (of_nat v) out = Some (out @ utf8_ref v)"
    using v by (simp only: encode_put_ref if_True)
  then show ?case
    using Cons by (subst encode_loop.simps) (simp add: read_wide_char [OF assms(1)])
qed

section \<open>Distinguished names\<close>

lemma hex_digit_scan: "scan_item [hex_digit (drop_bit 4 cv), hex_digit (cv AND 0xf)] = Some cv"
  by (rule byte_enumerate) code_simp

lemma hex_digit_range:
  "(0x30 \<le> hex_digit (drop_bit 4 cv) \<and> hex_digit (drop_bit 4 cv) \<le> 0x39)
   \<or> (0x41 \<le> hex_digit (drop_bit 4 cv) \<and> hex_digit (drop_bit 4 cv) \<le> 0x46)"
  by (rule byte_enumerate) code_simp

lemma hex_digit_plain:
  "\<not> c_isspace (hex_digit (drop_bit 4 cv))"
  "hex_digit (drop_bit 4 cv) \<notin> {0x2c, 0x2b, 0x22, 0x5c, 0x3c, 0x3e, 0x3b, 0x20, 0x23}"
  using hex_digit_range [of cv] by (auto simp: c_isspace_def word_le_nat_alt)

lemma scan_hex_digits: "scan_hex (hex_digit (drop_bit 4 cv) # hex_digit (cv AND 0xf) # r) = Some cv"
  using hex_digit_plain(1) [of cv] hex_digit_scan [of cv] by (simp add: scan_hex_def)

lemma dn_escape_cases:
  obtains (pair) "dn_escape env start l cv = [0x5c, cv]" "cv \<in> {0x2c, 0x2b, 0x22, 0x5c, 0x3c, 0x3e, 0x3b, 0x20, 0x23}"
  | (hex) "dn_escape env start l cv = [0x5c, hex_digit (drop_bit 4 cv), hex_digit (cv AND 0xf)]"
  | (raw) "dn_escape env start l cv = [cv]" "cv \<noteq> 0x5c"
proof -
  have "dn_escape env start l cv = [0x5c, cv] \<and> cv \<in> {0x2c, 0x2b, 0x22, 0x5c, 0x3c, 0x3e, 0x3b, 0x20, 0x23}
    \<or> dn_escape env start l cv = [0x5c, hex_digit (drop_bit 4 cv), hex_digit (cv AND 0xf)]
    \<or> dn_escape env start l cv = [cv] \<and> cv \<noteq> 0x5c"
    unfolding dn_escape_def by (simp, blast)
  then show thesis
    using that by blast
qed

lemma unescape_char:
  "unescape_loop room (dn_escape env start l cv @ r) out =
   (if has_room room 1 out then unescape_loop room r (out @ [cv]) else (0, out))"
proof (cases rule: dn_escape_cases [of env start l cv])
  case pair
  show ?thesis
    unfolding pair(1) by (subst unescape_loop.simps) (use pair(2) in \<open>simp split del: if_split\<close>)
next
  case hex
  then show ?thesis
    using hex_digit_plain(2) [of cv] by (subst unescape_loop.simps) (simp add: scan_hex_digits)
next
  case raw
  then show ?thesis
    by (subst unescape_loop.simps) simp
qed

text \<open>\<open>e\<close> is an escaped form of \<open>s\<close>: removing the escapes gives \<open>s\<close>, in every buffer with room for it.\<close>

definition escapes :: "bytes \<Rightarrow> bytes \<Rightarrow> bool" where
  "escapes e s \<longleftrightarrow> length e \<le> 3 * length s \<and> (s \<noteq> [] \<longrightarrow> e \<noteq> []) \<and>
     (\<forall>room n r out. roomy room n \<longrightarrow> length out + length s \<le> n \<longrightarrow>
        unescape_loop room (e @ r) out = unescape_loop room r (out @ s))"

lemma escapes_Nil: "escapes [] []"
  by (simp add: escapes_def)

lemma escapes_append: "escapes e s \<Longrightarrow> escapes f t \<Longrightarrow> escapes (e @ f) (s @ t)"
  unfolding escapes_def
proof (intro conjI allI impI)
  fix room n r and out :: bytes
  assume "length e \<le> 3 * length s \<and> (s \<noteq> [] \<longrightarrow> e \<noteq> []) \<and> (\<forall>room n r out. roomy room n \<longrightarrow> length out + length s \<le> n \<longrightarrow>
        unescape_loop room (e @ r) out = unescape_loop room r (out @ s))"
    and "length f \<le> 3 * length t \<and> (t \<noteq> [] \<longrightarrow> f \<noteq> []) \<and> (\<forall>room n r out. roomy room n \<longrightarrow> length out + length t \<le> n \<longrightarrow>
        unescape_loop room (f @ r) out = unescape_loop room r (out @ t))"
    and "roomy room n" and "length out + length (s @ t) \<le> n"
  then have "unescape_loop room (e @ f @ r) out = unescape_loop room (f @ r) (out @ s)"
    and "unescape_loop room (f @ r) (out @ s) = unescape_loop room r ((out @ s) @ t)"
    by (auto simp del: append_assoc)
  then show "unescape_loop room ((e @ f) @ r) out = unescape_loop room r (out @ s @ t)"
    by simp
qed auto

lemma escapes_char: "escapes (dn_escape env start l cv) [cv]"
  unfolding escapes_def
proof (intro conjI allI impI)
  show "length (dn_escape env start l cv) \<le> 3 * length [cv]" "dn_escape env start l cv \<noteq> []"
    by (cases rule: dn_escape_cases [of env start l cv]; simp)+
  show "unescape_loop room (dn_escape env start l cv @ r) out = unescape_loop room r (out @ [cv])"
    if "roomy room n" "length out + length [cv] \<le> n" for room n r out
    using roomy_has_room [OF that(1), of out 1] that(2) by (simp add: unescape_char)
qed

lemma dn_char_escapes:
  "roomy room n \<Longrightarrow> length out + 3 * length src \<le> n \<Longrightarrow> \<exists>e. dn_char env room l src out = Some (out @ e) \<and> escapes e src"
proof (induction src arbitrary: out)
  case Nil
  then show ?case
    by (simp add: escapes_Nil)
next
  case (Cons cv src)
  define d where "d = dn_escape env (out = []) l cv"
  have d: "escapes d [cv]"
    unfolding d_def by (rule escapes_char)
  then have len: "length d \<le> 3"
    by (simp add: escapes_def)
  then have "has_room room (length d) out"
    using Cons.prems(2) by (intro roomy_has_room [OF Cons.prems(1)]) simp
  moreover obtain e where "dn_char env room l src (out @ d) = Some ((out @ d) @ e)" "escapes e src"
    using Cons.IH [of "out @ d"] Cons.prems len by auto
  ultimately show ?case
    using escapes_append [OF d] by (intro exI [of _ "d @ e"]) (simp add: Let_def d_def [symmetric])
qed

lemma decode_loop_escapes:
  "roomy room n \<Longrightarrow> list_all scalar vs \<Longrightarrow> length out + 3 * length (utf8_text vs) \<le> n \<Longrightarrow>
   \<exists>e. decode_loop env SILC_STRING_LDAP_DN room (utf8_text vs) out = (length (out @ e), out @ e) \<and> escapes e (utf8_text vs)"
proof (induction vs arbitrary: out)
  case Nil
  then show ?case
    by (simp add: escapes_Nil roomy_def cast32_exact)
next
  case (Cons v vs)
  have "length out + 3 * length (utf8_ref v) \<le> n"
    using Cons.prems by simp
  then obtain d where d: "dn_char env room (utf8_text vs = []) (utf8_ref v) out = Some (out @ d)" "escapes d (utf8_ref v)"
    using dn_char_escapes [OF Cons.prems(1)] by blast
  then have len: "length d \<le> 3 * length (utf8_ref v)"
    by (simp add: escapes_def)
  obtain e where e: "decode_loop env SILC_STRING_LDAP_DN room (utf8_text vs) (out @ d) = (length ((out @ d) @ e), (out @ d) @ e)"
      "escapes e (utf8_text vs)"
    using Cons.IH [of "out @ d"] Cons.prems len by auto
  show ?case
    using Cons.prems d e escapes_append [OF d(2) e(2)]
    by (intro exI [of _ "d @ e"]) (simp add: decode_loop_char decode_put_def)
qed

section \<open>Properties\<close>

text \<open>
  C22. A string is valid UTF-8 for \<open>silc_utf8_valid\<close> exactly when it is the encoding of a sequence of
  characters, each below \<open>2 ^ 31\<close>, not a surrogate and in its shortest form.
\<close>

theorem silc_utf8_valid_iff:
  assumes "length utf8 < u32_max"
  shows "silc_utf8_valid env utf8 \<longleftrightarrow> (\<exists>vs. vs \<noteq> [] \<and> list_all scalar vs \<and> utf8 = concat (map utf8_ref vs))"
  using silc_utf8_valid_text [OF assms] by (simp add: utf8_text_def)

definition ascii_env :: locale_env where
  "ascii_env = \<lparr>le_to_utf8 = (\<lambda>_ _. None), le_from_utf8 = (\<lambda>_ _. None), le_isprint = (\<lambda>c. 0x20 \<le> c \<and> c < 0x7f)\<rparr>"

theorem silc_utf8_valid_iff_witness:
  "(\<exists>vs. vs \<noteq> [] \<and> list_all scalar vs \<and> [0x41, 0xc3, 0xa4, 0xe2, 0x82, 0xac] = concat (map utf8_ref vs))
   \<and> \<not> (\<exists>vs. vs \<noteq> [] \<and> list_all scalar vs \<and> [0xc0, 0x80] = concat (map utf8_ref vs))"
proof -
  have "silc_utf8_valid ascii_env [0x41, 0xc3, 0xa4, 0xe2, 0x82, 0xac]" "\<not> silc_utf8_valid ascii_env [0xc0, 0x80]"
    by (simp_all add: silc_utf8_valid_def decode_loop.simps decode_put_def low6_def cont_byte_def cast32_def u32_max_def)
  moreover have "length [0x41, 0xc3, 0xa4, 0xe2, 0x82, 0xac :: byte] < u32_max" "length [0xc0, 0x80 :: byte] < u32_max"
    by (simp_all add: u32_max_def)
  ultimately show ?thesis
    using silc_utf8_valid_iff [of "[0x41, 0xc3, 0xa4, 0xe2, 0x82, 0xac]" ascii_env] silc_utf8_valid_iff [of "[0xc0, 0x80]" ascii_env]
    by blast
qed

lemma silc_utf8_conversions:
  assumes "plain_encoding enc" and "vs \<noteq> []" and "list_all (fits enc) vs"
    and "bin = concat (map (wide_char enc) vs)" and "utf8 = concat (map utf8_ref vs)"
    and "length bin < u32_max" and "length utf8 < u32_max" and "length utf8 \<le> utf8_size" and "length bin \<le> bin_size"
  shows "silc_utf8_encode env bin enc (Some utf8_size) = (length utf8, utf8)"
    and "silc_utf8_decode env utf8 enc (Some bin_size) = (length bin, bin)"
    and "silc_utf8_encoded_len env bin enc = length utf8"
    and "silc_utf8_decoded_len env utf8 enc = length bin"
proof -
  have bin: "bin = wide_text enc vs" and utf8: "utf8 = utf8_text vs" and ne: "bin \<noteq> []" "utf8 \<noteq> []"
    using assms(2,4,5) by (auto simp: wide_text_def utf8_text_def neq_Nil_conv)
  have enc: "enc \<noteq> SILC_STRING_UTF8" "enc \<noteq> SILC_STRING_LDAP_DN" "enc \<noteq> SILC_STRING_LOCALE"
    using assms(1) by (auto simp: plain_encoding_def)
  note e = encode_loop_wide [OF assms(1) _ assms(3), of _ "length utf8" "[]" env]
  note d = decode_loop_wide [OF assms(1) _ assms(3), of _ "length bin" "[]" env]
  show "silc_utf8_encode env bin enc (Some utf8_size) = (length utf8, utf8)"
    using e [of "Some utf8_size"] assms(7,8) ne enc by (simp add: silc_utf8_encode_def roomy_def bin utf8)
  show "silc_utf8_decode env utf8 enc (Some bin_size) = (length bin, bin)"
    using d [of "Some bin_size"] assms(6,9) ne enc by (simp add: silc_utf8_decode_def roomy_def bin utf8)
  show "silc_utf8_encoded_len env bin enc = length utf8"
    using e [of None] assms(7) ne enc by (simp add: silc_utf8_encoded_len_def silc_utf8_encode_def roomy_def bin utf8)
  show "silc_utf8_decoded_len env utf8 enc = length bin"
    using d [of None] assms(6) ne enc by (simp add: silc_utf8_decoded_len_def silc_utf8_decode_def roomy_def bin utf8)
qed

text \<open>
  C23. A text in one of the fixed-width encodings is encoded to the UTF-8 encoding of its characters and
  decoded back unchanged, the length functions foretell both lengths, and buffers of these lengths are
  enough.
\<close>

theorem silc_utf8_roundtrip:
  assumes "plain_encoding enc" and "vs \<noteq> []" and "list_all (fits enc) vs"
    and "bin = concat (map (wide_char enc) vs)" and "utf8 = concat (map utf8_ref vs)"
    and "length bin < u32_max" and "length utf8 < u32_max" and "length utf8 \<le> utf8_size" and "length bin \<le> bin_size"
  shows "silc_utf8_encode env bin enc (Some utf8_size) = (length utf8, utf8) \<and>
    silc_utf8_decode env utf8 enc (Some bin_size) = (length bin, bin) \<and>
    silc_utf8_encoded_len env bin enc = length utf8 \<and>
    silc_utf8_decoded_len env utf8 enc = length bin"
  using silc_utf8_conversions [OF assms] by blast

theorem silc_utf8_roundtrip_witness:
  "silc_utf8_encode ascii_env [0x00, 0x41, 0x20, 0xac] SILC_STRING_BMP (Some 4) = (4, [0x41, 0xe2, 0x82, 0xac])
   \<and> silc_utf8_decode ascii_env [0x41, 0xe2, 0x82, 0xac] SILC_STRING_BMP (Some 4) = (4, [0x00, 0x41, 0x20, 0xac])"
proof -
  have p: "plain_encoding SILC_STRING_BMP" "[0x41, 0x20ac] \<noteq> ([] :: nat list)" "list_all (fits SILC_STRING_BMP) [0x41, 0x20ac]"
    by (simp_all add: plain_encoding_def fits_def scalar_def char_width_def)
  have w: "[0x00, 0x41, 0x20, 0xac] = concat (map (wide_char SILC_STRING_BMP) [0x41, 0x20ac])"
    by (simp add: wide_char_def SILC_PUT16_MSB_def)
  have u: "[0x41, 0xe2, 0x82, 0xac] = concat (map utf8_ref [0x41, 0x20ac])"
    by (simp add: utf8_ref_cases)
  have l: "length [0x00, 0x41, 0x20, 0xac :: byte] < u32_max" "length [0x41, 0xe2, 0x82, 0xac :: byte] < u32_max"
    "length [0x41, 0xe2, 0x82, 0xac :: byte] \<le> 4" "length [0x00, 0x41, 0x20, 0xac :: byte] \<le> 4"
    by (simp_all add: u32_max_def)
  show ?thesis
    using silc_utf8_roundtrip [OF p w u l, of ascii_env] by simp
qed

text \<open>
  The escaped form of a valid UTF-8 string, as it stands in a distinguished name, is converted back to
  the string, whatever characters the locale calls printable; it is at most three times as long.
\<close>

theorem silc_utf8_dn_roundtrip:
  assumes "silc_utf8_valid env utf8" and "3 * length utf8 < u32_max" and "3 * length utf8 \<le> bin_size"
  shows "\<exists>e. silc_utf8_decode env utf8 SILC_STRING_LDAP_DN (Some bin_size) = (length e, e) \<and> length e \<le> 3 * length utf8 \<and>
    silc_utf8_encode env' e SILC_STRING_LDAP_DN (Some (length utf8)) = (length utf8, utf8)"
proof -
  have "length utf8 < u32_max"
    using assms(2) by linarith
  then obtain vs where vs: "vs \<noteq> []" "list_all scalar vs" "utf8 = utf8_text vs"
    using silc_utf8_valid_text assms(1) by blast
  have "roomy (Some bin_size) (3 * length utf8)"
    using assms(2,3) by (simp add: roomy_def)
  then obtain e where e: "decode_loop env SILC_STRING_LDAP_DN (Some bin_size) utf8 [] = (length e, e)" "escapes e utf8"
    using decode_loop_escapes [of "Some bin_size" "3 * length utf8" vs "[]" env] vs by auto
  have ne: "utf8 \<noteq> []"
    using vs by simp
  then have "e \<noteq> []"
    using e(2) by (auto simp: escapes_def)
  have "roomy (Some (length utf8)) (length utf8)"
    using \<open>length utf8 < u32_max\<close> by (simp add: roomy_def)
  then have "unescape_loop (Some (length utf8)) (e @ []) [] = unescape_loop (Some (length utf8)) [] ([] @ utf8)"
    using e(2) unfolding escapes_def by (metis add_0 le_refl list.size(3))
  then have "unescape_loop (Some (length utf8)) e [] = (length utf8, utf8)"
    using \<open>length utf8 < u32_max\<close> by (simp add: unescape_loop.simps [of _ "[]"] cast32_exact)
  then show ?thesis
    using e ne \<open>e \<noteq> []\<close> by (intro exI [of _ e]) (simp add: silc_utf8_decode_def silc_utf8_encode_def escapes_def)
qed

theorem silc_utf8_dn_roundtrip_witness:
  "\<exists>e. silc_utf8_decode ascii_env [0x20, 0xc3, 0xa4, 0x2c] SILC_STRING_LDAP_DN (Some 12) = (length e, e) \<and> length e \<le> 12 \<and>
    silc_utf8_encode ascii_env e SILC_STRING_LDAP_DN (Some 4) = (4, [0x20, 0xc3, 0xa4, 0x2c])"
proof -
  have "silc_utf8_valid ascii_env [0x20, 0xc3, 0xa4, 0x2c]"
    by (simp add: silc_utf8_valid_def decode_loop.simps decode_put_def low6_def cont_byte_def cast32_def u32_max_def)
  moreover have l: "length [0x20, 0xc3, 0xa4, 0x2c :: byte] = 4"
    by simp
  ultimately show ?thesis
    using silc_utf8_dn_roundtrip [of ascii_env "[0x20, 0xc3, 0xa4, 0x2c]" 12 ascii_env] unfolding l u32_max_def by simp
qed

section \<open>Buffer bounds\<close>

lemma put_out_bound: "put_out (Some n) e out = Some o' \<Longrightarrow> length out + length e < u32_max \<Longrightarrow> length o' \<le> n"
  by (auto simp: put_out_def has_room_def add32_exact split: if_splits)

lemma dn_char_bound:
  "dn_char env (Some n) l src out = Some o' \<Longrightarrow> length out \<le> n \<Longrightarrow> n + 6 < u32_max \<Longrightarrow> length o' \<le> n"
proof (induction src arbitrary: out)
  case (Cons cv src)
  define d where "d = dn_escape env (out = []) l cv"
  have "length d \<le> 3"
    unfolding d_def using escapes_char [of env "out = []" l cv] by (simp add: escapes_def)
  then have "length (out @ d) \<le> n" "dn_char env (Some n) l src (out @ d) = Some o'"
    using Cons.prems by (auto simp: d_def [symmetric] Let_def has_room_def add32_exact split: if_splits)
  then show ?case
    using Cons by blast
qed simp

lemma decode_put_bound:
  assumes "decode_put env enc (Some n) c src l out = Some o'" and "length out \<le> n" and "n + 6 < u32_max"
  shows "length o' \<le> n"
proof (cases enc)
  case SILC_STRING_LDAP_DN
  then show ?thesis
    using assms dn_char_bound by (simp add: decode_put_def)
qed (use assms in \<open>auto simp: decode_put_def dest!: put_out_bound\<close>)

lemma decode_loop_bound:
  "length out \<le> n \<Longrightarrow> n + 6 < u32_max \<Longrightarrow> length (snd (decode_loop env enc (Some n) bs out)) \<le> n"
proof (induction "length bs" arbitrary: bs out rule: less_induct)
  case less
  show ?case
    using less decode_put_bound utf8_char_shorter
    by (subst decode_loop.simps) (auto split: option.splits)
qed

text \<open>
  \<open>silc_utf8_decode\<close> writes no more characters than its buffer holds, for every encoding but that of the
  locale, whatever the bytes it is given; \<open>silc_utf8_encode\<close> may write one byte too many.
\<close>

theorem silc_utf8_decode_bound:
  assumes "enc \<noteq> SILC_STRING_LOCALE" and "bin_size + 6 < u32_max"
  shows "length (snd (silc_utf8_decode env utf8 enc (Some bin_size))) \<le> bin_size"
  using decode_loop_bound [of "[]" bin_size env enc utf8] assms by (auto simp: silc_utf8_decode_def)

theorem silc_utf8_decode_bound_witness:
  "length (snd (silc_utf8_decode ascii_env [0x41, 0x41, 0x41] SILC_STRING_ASCII (Some 2))) \<le> 2"
  using silc_utf8_decode_bound [of SILC_STRING_ASCII 2 ascii_env "[0x41, 0x41, 0x41]"] by (simp add: u32_max_def)

lemma silc_utf8_encode_overrun:
  "silc_utf8_encode env [0x41, 0x42] SILC_STRING_ASCII (Some 1) = (2, [0x41, 0x42])"
  by (simp add: silc_utf8_encode_def encode_loop.simps read_char_def encode_put_def has_room_def add32_def cast32_def u32_max_def)

end
