(* ===== verification/Silc_Auth.thy ===== *)
theory Silc_Auth
  imports Silc_Message Silc_Utf8_Codec
begin

text \<open>
  \<open>lib/silccore/silcauth.c\<close>: the Authentication Payload with a passphrase or a signature, generating and
  verifying the authentication data, and the Key Agreement Payload. Public key operations are the
  functions of the key records, and the random number generator is a parameter.
\<close>

section \<open>Authentication Payload\<close>

definition SILC_AUTH_NONE :: u16 where "SILC_AUTH_NONE = 0"
definition SILC_AUTH_PASSWORD :: u16 where "SILC_AUTH_PASSWORD = 1"
definition SILC_AUTH_PUBLIC_KEY :: u16 where "SILC_AUTH_PUBLIC_KEY = 2"

record silc_auth_payload =
  au_len :: u16
  au_method :: u16
  au_random_len :: u16
  au_random_data :: "bytes option"
  au_auth_len :: u16
  au_auth_data :: "bytes option"

definition silc_auth_payload_parse :: "bytes \<Rightarrow> silc_auth_payload option" where
  "silc_auth_payload_parse data =
     with_unformat (silc_buffer_set data) [UNF_UI16_SHORT, UNF_UI16_SHORT, UNF_UI16_NSTRING_ALLOC, UNF_UI16_NSTRING_ALLOC] None
       (\<lambda>buffer vs.
         case vs of
           [V16 len, V16 auth_method, V16 random_len, VPtr random_data, V16 auth_len, VPtr auth_data] \<Rightarrow>
             (if unat len \<noteq> silc_buffer_len buffer \<or> sub32 (silc_buffer_len buffer) 8 < unat random_len + unat auth_len then None
              else if unat auth_len < 1 then None
              else if auth_method = SILC_AUTH_PASSWORD \<and> random_len \<noteq> 0 then None
              else if auth_method = SILC_AUTH_PUBLIC_KEY \<and> unat random_len < 128 then None
              else Some \<lparr>au_len = len, au_method = auth_method, au_random_len = random_len, au_random_data = random_data,
                         au_auth_len = auth_len, au_auth_data = auth_data\<rparr>)
         | _ \<Rightarrow> None)"

text \<open>A passphrase that is not UTF-8 is converted; its new length is stored in 16 bits.\<close>

definition auth_passphrase :: "locale_env \<Rightarrow> u16 \<Rightarrow> bytes \<Rightarrow> u16 \<Rightarrow> (bytes \<times> u16) option" where
  "auth_passphrase env auth_method auth_data auth_len =
     (let bin = take (unat auth_len) auth_data
      in if auth_method = SILC_AUTH_PASSWORD \<and> \<not> silc_utf8_valid env bin then
           (let autf8_len = silc_utf8_encoded_len env bin SILC_STRING_ASCII
            in if autf8_len = 0 then None
               else
                 (let (n, autf8) = silc_utf8_encode env bin SILC_STRING_ASCII (Some autf8_len)
                  in Some (autf8, of_nat n)))
         else Some (auth_data, auth_len))"

definition silc_auth_payload_encode ::
    "locale_env \<Rightarrow> junk \<Rightarrow> u16 \<Rightarrow> bytes option \<Rightarrow> u16 \<Rightarrow> bytes \<Rightarrow> u16 \<Rightarrow> silc_buffer option" where
  "silc_auth_payload_encode env J auth_method random_data random_len auth_data auth_len =
     (case auth_passphrase env auth_method auth_data auth_len of
        None \<Rightarrow> None
      | Some (auth_data, auth_len) \<Rightarrow>
          (let len = 2 + 2 + 2 + unat random_len + 2 + unat auth_len
           in alloc_format J len
                [FMT_SHORT (of_nat len), FMT_SHORT auth_method, FMT_SHORT random_len, FMT_NSTRING random_data (unat random_len),
                 FMT_SHORT auth_len, FMT_NSTRING (Some auth_data) (unat auth_len)]))"

definition silc_auth_get_method :: "silc_auth_payload \<Rightarrow> u16" where
  "silc_auth_get_method payload = au_method payload"

definition silc_auth_get_public_data :: "silc_auth_payload \<Rightarrow> bytes option \<times> nat" where
  "silc_auth_get_public_data payload = (au_random_data payload, unat (au_random_len payload))"

definition silc_auth_get_data :: "silc_auth_payload \<Rightarrow> bytes option \<times> nat" where
  "silc_auth_get_data payload = (au_auth_data payload, unat (au_auth_len payload))"

section \<open>Authentication\<close>

text \<open>The data that is signed: the random data, the identifier and the public key.\<close>

definition silc_auth_public_key_encode_data :: "junk \<Rightarrow> silc_public_key \<Rightarrow> bytes option \<Rightarrow> nat \<Rightarrow> silc_id \<Rightarrow> bytes option" where
  "silc_auth_public_key_encode_data J public_key randomdata random_len sid =
     (case puk_encode public_key of
        None \<Rightarrow> None
      | Some pk \<Rightarrow>
          (case silc_id_id2str sid 32 of
             None \<Rightarrow> None
           | Some id_data \<Rightarrow>
               (case alloc_format J (add32 (add32 random_len (length id_data)) (length pk))
                       [FMT_NSTRING randomdata random_len, FMT_NSTRING (Some id_data) (length id_data),
                        FMT_NSTRING (Some pk) (length pk)] of
                  None \<Rightarrow> None
                | Some buf \<Rightarrow> (let (_, ret, ret_len) = silc_buffer_steal buf in Some (take ret_len ret)))))"

definition silc_auth_public_key_auth_generate_wpub ::
    "locale_env \<Rightarrow> junk \<Rightarrow> silc_public_key \<Rightarrow> silc_private_key \<Rightarrow> bytes \<Rightarrow> silc_id \<Rightarrow> silc_buffer option" where
  "silc_auth_public_key_auth_generate_wpub env J public_key private_key pubdata sid =
     (case silc_auth_public_key_encode_data J public_key (Some pubdata) (length pubdata) sid of
        None \<Rightarrow> None
      | Some tmp \<Rightarrow>
          (case prk_sign private_key tmp of
             None \<Rightarrow> None
           | Some auth_data \<Rightarrow>
               if 65536 < length auth_data then None
               else silc_auth_payload_encode env J SILC_AUTH_PUBLIC_KEY (Some pubdata) (of_nat (length pubdata)) auth_data
                      (of_nat (length auth_data))))"

definition silc_auth_public_key_auth_generate ::
    "locale_env \<Rightarrow> junk \<Rightarrow> silc_public_key \<Rightarrow> silc_private_key \<Rightarrow> (nat \<Rightarrow> bytes option) \<Rightarrow> silc_id \<Rightarrow> silc_buffer option" where
  "silc_auth_public_key_auth_generate env J public_key private_key rng sid =
     (case rng 256 of
        None \<Rightarrow> None
      | Some randomdata \<Rightarrow> silc_auth_public_key_auth_generate_wpub env J public_key private_key randomdata sid)"

definition silc_auth_public_key_auth_verify :: "junk \<Rightarrow> silc_auth_payload \<Rightarrow> silc_public_key \<Rightarrow> silc_id \<Rightarrow> bool" where
  "silc_auth_public_key_auth_verify J payload public_key sid =
     (case silc_auth_public_key_encode_data J public_key (au_random_data payload) (unat (au_random_len payload)) sid of
        None \<Rightarrow> False
      | Some tmp \<Rightarrow> puk_verify public_key (take (unat (au_auth_len payload)) (opt_bytes (au_auth_data payload))) tmp)"

definition silc_auth_public_key_auth_verify_data :: "junk \<Rightarrow> bytes \<Rightarrow> silc_public_key \<Rightarrow> silc_id \<Rightarrow> bool" where
  "silc_auth_public_key_auth_verify_data J payload public_key sid =
     (case silc_auth_payload_parse payload of
        None \<Rightarrow> False
      | Some auth_payload \<Rightarrow> silc_auth_public_key_auth_verify J auth_payload public_key sid)"

text \<open>
  The argument \<open>auth_data\<close> of the source is a passphrase or a public key, as \<open>auth_method\<close> says; here it is
  two arguments.
\<close>

definition silc_auth_verify ::
    "junk \<Rightarrow> silc_auth_payload option \<Rightarrow> u16 \<Rightarrow> bytes option \<Rightarrow> silc_public_key \<Rightarrow> silc_id \<Rightarrow> bool" where
  "silc_auth_verify J payload auth_method auth_data public_key sid =
     (case payload of
        None \<Rightarrow> False
      | Some payload \<Rightarrow>
          if auth_method \<noteq> au_method payload then False
          else if au_method payload = SILC_AUTH_NONE then True
          else if au_method payload = SILC_AUTH_PASSWORD then
            (case auth_data of
               None \<Rightarrow> False
             | Some auth_data \<Rightarrow>
                 if unat (au_auth_len payload) = 0 \<or> unat (au_auth_len payload) \<noteq> length auth_data then False
                 else take (length auth_data) (opt_bytes (au_auth_data payload)) = auth_data)
          else if au_method payload = SILC_AUTH_PUBLIC_KEY then silc_auth_public_key_auth_verify J payload public_key sid
          else False)"

definition silc_auth_verify_data :: "junk \<Rightarrow> bytes \<Rightarrow> u16 \<Rightarrow> bytes option \<Rightarrow> silc_public_key \<Rightarrow> silc_id \<Rightarrow> bool" where
  "silc_auth_verify_data J payload auth_method auth_data public_key sid =
     (case silc_auth_payload_parse payload of
        None \<Rightarrow> False
      | Some auth_payload \<Rightarrow>
          if au_auth_len auth_payload = 0 then False
          else silc_auth_verify J (Some auth_payload) auth_method auth_data public_key sid)"

section \<open>Key Agreement Payload\<close>

record silc_key_agreement_payload =
  ka_hostname_len :: u16
  ka_hostname :: "bytes option"
  ka_protocol :: u16
  ka_port :: u16

definition silc_key_agreement_payload_parse :: "bytes \<Rightarrow> silc_key_agreement_payload option" where
  "silc_key_agreement_payload_parse payload =
     with_unformat (silc_buffer_set payload) [UNF_UI16_NSTRING_ALLOC, UNF_UI16_SHORT, UNF_UI16_SHORT] None
       (\<lambda>buffer vs.
         case vs of
           [V16 hostname_len, VPtr hostname, V16 protocol, V16 port] \<Rightarrow>
             (if sub32 (silc_buffer_len buffer) 6 < unat hostname_len then None
              else Some \<lparr>ka_hostname_len = hostname_len, ka_hostname = hostname, ka_protocol = protocol, ka_port = port\<rparr>)
         | _ \<Rightarrow> None)"

definition silc_key_agreement_payload_encode :: "junk \<Rightarrow> bytes option \<Rightarrow> u16 \<Rightarrow> u16 \<Rightarrow> silc_buffer option" where
  "silc_key_agreement_payload_encode J hostname protocol port =
     (let len = length (opt_bytes hostname)
      in alloc_format J (add32 (add32 2 len) 4)
           [FMT_SHORT (of_nat len), FMT_NSTRING hostname len, FMT_SHORT protocol, FMT_SHORT port])"

definition silc_key_agreement_get_hostname :: "silc_key_agreement_payload \<Rightarrow> bytes option" where
  "silc_key_agreement_get_hostname payload = ka_hostname payload"

definition silc_key_agreement_get_protocol :: "silc_key_agreement_payload \<Rightarrow> u16" where
  "silc_key_agreement_get_protocol payload = ka_protocol payload"

definition silc_key_agreement_get_port :: "silc_key_agreement_payload \<Rightarrow> u16" where
  "silc_key_agreement_get_port payload = ka_port payload"

end
