(* ===== verification/Silc_Auth_Verify.thy ===== *)
theory Silc_Auth_Verify
  imports Silc_Auth
begin

text \<open>
  The Authentication Payload of \<open>silcauth.c\<close>: its wire format, what verification accepts, that what the
  client generates is accepted, and the wire format of the Key Agreement Payload.
\<close>

section \<open>Wire format\<close>

definition auth_valid :: "u16 \<Rightarrow> bytes \<Rightarrow> bytes \<Rightarrow> bool" where
  "auth_valid m rnd auth \<longleftrightarrow> auth \<noteq> [] \<and> (m = SILC_AUTH_PASSWORD \<longrightarrow> rnd = []) \<and> (m = SILC_AUTH_PUBLIC_KEY \<longrightarrow> 128 \<le> length rnd)"

definition auth_bytes :: "u16 \<Rightarrow> bytes \<Rightarrow> bytes \<Rightarrow> bytes \<Rightarrow> bytes" where
  "auth_bytes m rnd auth rest =
     SILC_PUT16_MSB (of_nat (8 + length rnd + length auth + length rest)) @ SILC_PUT16_MSB m @ field16 rnd @ field16 auth @ rest"

definition auth_repr :: "u16 \<Rightarrow> bytes \<Rightarrow> bytes \<Rightarrow> bytes \<Rightarrow> silc_auth_payload" where
  "auth_repr m rnd auth rest =
     \<lparr>au_len = of_nat (8 + length rnd + length auth + length rest), au_method = m, au_random_len = of_nat (length rnd),
      au_random_data = (if rnd = [] then None else Some rnd), au_auth_len = of_nat (length auth), au_auth_data = Some auth\<rparr>"

lemma length_auth_bytes [simp]: "length (auth_bytes m rnd auth rest) = 8 + length rnd + length auth + length rest"
  by (simp add: auth_bytes_def)

lemma u16_zero: "length d < 65536 \<Longrightarrow> (of_nat (length d) = (0 :: u16)) = (d = [])"
  by (simp add: of_nat_u16_eq_0)

lemma auth_parse_bytes:
  assumes "auth_valid m rnd auth" and "8 + length rnd + length auth + length rest < 65536"
  shows "silc_auth_payload_parse (auth_bytes m rnd auth rest) = Some (auth_repr m rnd auth rest)"
proof -
  define D where "D = auth_bytes m rnd auth rest"
  have len: "length D = 8 + length rnd + length auth + length rest" and small: "length D < u32_max"
    using assms(2) by (simp_all add: D_def u32_max_def)
  have n: "length rnd < 65536" "length auth < 65536" "auth \<noteq> []"
    using assms by (simp_all add: auth_valid_def)
  have "parse_all [UNF_UI16_SHORT, UNF_UI16_SHORT, UNF_UI16_NSTRING_ALLOC, UNF_UI16_NSTRING_ALLOC] D =
      Some ([V16 (of_nat (8 + length rnd + length auth + length rest)), V16 m, V16 (of_nat (length rnd)),
             VPtr (if rnd = [] then None else Some rnd), V16 (of_nat (length auth)), VPtr (Some auth)], rest)"
    using n by (simp add: D_def auth_bytes_def parse_field16 parse_UI16 del: parse_step.simps of_nat_add)
  moreover have "sub32 (length D) 8 = length rnd + length auth + length rest"
    using small by (simp add: len sub32_exact)
  ultimately show ?thesis
    unfolding D_def [symmetric] silc_auth_payload_parse_def with_unformat_set [OF small]
    using n assms small
    by (simp add: with_unformat_set [OF small] auth_repr_def auth_valid_def u16_zero Suc_le_eq len not_less del: parse_all.simps of_nat_add)
qed

lemma auth_parse_inv:
  assumes p: "silc_auth_payload_parse bs = Some p" and small: "length bs < u32_max"
  shows "\<exists>m rnd auth rest. auth_valid m rnd auth \<and> length bs < 65536 \<and> p = auth_repr m rnd auth rest \<and> bs = auth_bytes m rnd auth rest"
proof (cases "parse_all [UNF_UI16_SHORT, UNF_UI16_SHORT, UNF_UI16_NSTRING_ALLOC, UNF_UI16_NSTRING_ALLOC] bs")
  case None
  with p small show ?thesis
    by (simp add: silc_auth_payload_parse_def with_unformat_fail del: parse_all.simps)
next
  case (Some vr)
  then obtain t m rnd auth r where
    vr: "vr = ([V16 t, V16 m, V16 (of_nat (length rnd)), VPtr (if rnd = [] then None else Some rnd),
      V16 (of_nat (length auth)), VPtr (if auth = [] then None else Some auth)], r)"
    and b: "bs = SILC_PUT16_MSB t @ SILC_PUT16_MSB m @ field16 rnd @ field16 auth @ r"
    and len: "length rnd < 65536" "length auth < 65536"
    by (auto split: option.splits prod.splits elim!: parse_field16_inv dest!: parse_UI16_inv simp del: parse_step.simps)
  have t: "unat t = length bs" and v: "auth_valid m rnd auth"
    and p': "p = \<lparr>au_len = t, au_method = m, au_random_len = of_nat (length rnd), au_random_data = (if rnd = [] then None else Some rnd),
      au_auth_len = of_nat (length auth), au_auth_data = Some auth\<rparr>"
    using p Some [unfolded vr] small len
    by (auto simp: silc_auth_payload_parse_def with_unformat_ok auth_valid_def u16_zero
        split: if_splits simp del: parse_all.simps)
  have lb: "length bs = 8 + length rnd + length auth + length r"
    by (simp add: b)
  have "t = of_nat (8 + length rnd + length auth + length r)"
    using arg_cong [OF t, of "of_nat :: nat \<Rightarrow> u16"] by (simp add: lb del: of_nat_add)
  then have "bs = auth_bytes m rnd auth r" "p = auth_repr m rnd auth r"
    using b p' v by (simp_all add: auth_bytes_def auth_repr_def auth_valid_def)
  moreover have "length bs < 65536"
    using t unat_u16_less [of t] by simp
  ultimately show ?thesis
    using v by blast
qed

lemma auth_encode_bytes:
  assumes "auth_passphrase env m auth_data auth_len = Some (auth, of_nat (length auth))"
    and "length rnd < 65536" and "length auth < 65536" and "random_data = Some rnd \<or> (random_data = None \<and> rnd = [])"
  shows "silc_auth_payload_encode env J m random_data (of_nat (length rnd)) auth_data auth_len =
    Some (silc_buffer_set (auth_bytes m rnd auth []))"
proof -
  have "alloc_format J (8 + length rnd + length auth)
      [FMT_SHORT (of_nat (8 + length rnd + length auth)), FMT_SHORT m, FMT_SHORT (of_nat (length rnd)), FMT_NSTRING random_data (length rnd),
       FMT_SHORT (of_nat (length auth)), FMT_NSTRING (Some auth) (length auth)] = Some (silc_buffer_set (auth_bytes m rnd auth []))"
    using assms(2-4)
    by (subst alloc_format_exact) (auto simp: auth_bytes_def field16_def SILC_MAX_ALLOC_def)
  then show ?thesis
    using assms(2,3) by (simp add: silc_auth_payload_encode_def assms(1) Let_def add.assoc del: of_nat_add)
qed

lemma auth_passphrase_plain:
  "m \<noteq> SILC_AUTH_PASSWORD \<or> silc_utf8_valid env auth \<Longrightarrow> length auth < 65536 \<Longrightarrow>
   auth_passphrase env m auth (of_nat (length auth)) = Some (auth, of_nat (length auth))"
  by (auto simp: auth_passphrase_def)

text \<open>A passphrase is taken as 8-bit characters when it is not UTF-8.\<close>

definition utf8_passphrase :: "locale_env \<Rightarrow> bytes \<Rightarrow> bytes" where
  "utf8_passphrase env auth = (if silc_utf8_valid env auth then auth else concat (map (\<lambda>b. utf8_ref (unat b)) auth))"

lemma byte_scalar: "scalar (unat (b :: byte))"
  using unat_byte_less [of b] by (simp add: scalar_def, linarith)

lemma wide_char_ascii: "wide_char SILC_STRING_ASCII (unat b) = [b]"
  by (simp add: wide_char_def)

lemma auth_passphrase_utf8:
  assumes "auth \<noteq> []" and "length (utf8_passphrase env auth) < 65536" and "length auth < 65536"
  shows "auth_passphrase env SILC_AUTH_PASSWORD auth (of_nat (length auth)) =
    Some (utf8_passphrase env auth, of_nat (length (utf8_passphrase env auth)))"
proof (cases "silc_utf8_valid env auth")
  case True
  then show ?thesis
    using assms(3) by (simp add: utf8_passphrase_def auth_passphrase_plain)
next
  case False
  define vs where "vs = map unat auth"
  have vs: "vs \<noteq> []" "list_all (fits SILC_STRING_ASCII) vs" "auth = concat (map (wide_char SILC_STRING_ASCII) vs)"
    "utf8_passphrase env auth = concat (map utf8_ref vs)"
    using assms(1) False
    by (simp_all add: vs_def list_all_iff fits_def byte_scalar char_width_def wide_char_ascii o_def utf8_passphrase_def)
  have small: "length auth < u32_max" "length (utf8_passphrase env auth) < u32_max" and p: "plain_encoding SILC_STRING_ASCII"
    using assms(2,3) by (simp_all add: u32_max_def plain_encoding_def)
  note rt = silc_utf8_conversions [OF p vs(1,2,3,4) small le_refl le_refl]
  have "utf8_passphrase env auth \<noteq> []"
    using vs by (cases vs) simp_all
  then show ?thesis
    using False assms(3) rt(1,3) [of env] by (simp add: auth_passphrase_def Let_def)
qed

section \<open>What is signed\<close>

lemma auth_encode_data:
  assumes "puk_encode pk = Some pkd" and "wf_id sid" and "rndp = Some rnd \<or> (rndp = None \<and> rnd = [])"
    and "length rnd < 65536" and "length pkd < 65536"
  shows "silc_auth_public_key_encode_data J pk rndp (length rnd) sid = Some (rnd @ id2str_bytes sid @ pkd)"
proof -
  have il: "length (id2str_bytes sid) \<le> 32"
    using id_len_bounds [OF assms(2)] id_get_len_wf [OF assms(2)] by simp
  have len: "add32 (add32 (length rnd) (length (id2str_bytes sid))) (length pkd) = length rnd + length (id2str_bytes sid) + length pkd"
    using il assms(4,5) by (simp add: add32_exact u32_max_def)
  have a: "alloc_format J (length rnd + length (id2str_bytes sid) + length pkd)
      [FMT_NSTRING rndp (length rnd), FMT_NSTRING (Some (id2str_bytes sid)) (length (id2str_bytes sid)), FMT_NSTRING (Some pkd) (length pkd)] =
      Some (silc_buffer_set (rnd @ id2str_bytes sid @ pkd))"
    using il assms(3-5) by (subst alloc_format_exact) (auto simp: SILC_MAX_ALLOC_def)
  have "length (rnd @ id2str_bytes sid @ pkd) < u32_max"
    using il assms(4,5) by (simp add: u32_max_def)
  then have steal: "sub32 (length (rnd @ id2str_bytes sid @ pkd)) 0 = length (rnd @ id2str_bytes sid @ pkd)"
    by (simp add: sub32_exact)
  show ?thesis
    by (simp add: silc_auth_public_key_encode_data_def assms(1) id2str_wf [OF assms(2)] len a
        silc_buffer_steal_def silc_buffer_truelen_def steal [simplified])
qed

lemma auth_verify_repr:
  assumes "auth_valid m rnd auth" and "8 + length rnd + length auth + length rest < 65536"
    and "puk_encode pk = Some pkd" and "wf_id sid" and "length pkd < 65536"
  shows "silc_auth_verify J (Some (auth_repr m rnd auth rest)) m' pass pk sid \<longleftrightarrow> m' = m \<and>
    (m = SILC_AUTH_NONE \<or> m = SILC_AUTH_PASSWORD \<and> pass = Some auth \<or>
     m = SILC_AUTH_PUBLIC_KEY \<and> puk_verify pk auth (rnd @ id2str_bytes sid @ pkd))"
proof -
  have n: "length rnd < 65536" "length auth < 65536" "auth \<noteq> []"
    using assms(1,2) by (simp_all add: auth_valid_def)
  have "silc_auth_public_key_encode_data J pk (if rnd = [] then None else Some rnd) (length rnd) sid = Some (rnd @ id2str_bytes sid @ pkd)"
    using n assms(3-5) by (intro auth_encode_data) auto
  then show ?thesis
    using n
    by (auto simp: silc_auth_verify_def auth_repr_def silc_auth_public_key_auth_verify_def opt_bytes_def
        SILC_AUTH_NONE_def SILC_AUTH_PASSWORD_def SILC_AUTH_PUBLIC_KEY_def split: option.splits)
qed

lemma auth_verify_data_bytes:
  assumes "auth_valid m rnd auth" and "8 + length rnd + length auth + length rest < 65536"
    and "puk_encode pk = Some pkd" and "wf_id sid" and "length pkd < 65536"
  shows "silc_auth_verify_data J (auth_bytes m rnd auth rest) m' pass pk sid \<longleftrightarrow> m' = m \<and>
    (m = SILC_AUTH_NONE \<or> m = SILC_AUTH_PASSWORD \<and> pass = Some auth \<or>
     m = SILC_AUTH_PUBLIC_KEY \<and> puk_verify pk auth (rnd @ id2str_bytes sid @ pkd))"
proof -
  have "au_auth_len (auth_repr m rnd auth rest) \<noteq> 0"
    using assms(1,2) by (simp add: auth_repr_def auth_valid_def u16_zero)
  then show ?thesis
    using auth_verify_repr [OF assms] by (simp add: silc_auth_verify_data_def auth_parse_bytes [OF assms(1,2)])
qed

section \<open>Properties\<close>

text \<open>
  C6. \<open>silc_auth_verify_data\<close> accepts a byte string exactly when it is an Authentication Payload of the
  required method with the right length field, and the method is none, or its data is the passphrase, or
  its data is a signature over the random data, of 128 bytes at least, the identifier and the public key.
\<close>

theorem silc_auth_verify_data_iff:
  assumes "length bs < u32_max" and "puk_encode pk = Some pkd" and "wf_id sid" and "length pkd < 65536"
  shows "silc_auth_verify_data J bs m pass pk sid \<longleftrightarrow>
    (\<exists>rnd auth rest. bs = auth_bytes m rnd auth rest \<and> length bs < 65536 \<and> auth_valid m rnd auth \<and>
      (m = SILC_AUTH_NONE \<or> m = SILC_AUTH_PASSWORD \<and> pass = Some auth \<or>
       m = SILC_AUTH_PUBLIC_KEY \<and> puk_verify pk auth (rnd @ id2str_bytes sid @ pkd)))"
proof
  assume v: "silc_auth_verify_data J bs m pass pk sid"
  then obtain p where "silc_auth_payload_parse bs = Some p"
    by (auto simp: silc_auth_verify_data_def split: option.splits)
  then obtain m' rnd auth rest where b: "auth_valid m' rnd auth" "length bs < 65536" "bs = auth_bytes m' rnd auth rest"
    using auth_parse_inv [OF _ assms(1)] by blast
  then show "\<exists>rnd auth rest. bs = auth_bytes m rnd auth rest \<and> length bs < 65536 \<and> auth_valid m rnd auth \<and>
      (m = SILC_AUTH_NONE \<or> m = SILC_AUTH_PASSWORD \<and> pass = Some auth \<or>
       m = SILC_AUTH_PUBLIC_KEY \<and> puk_verify pk auth (rnd @ id2str_bytes sid @ pkd))"
    using v auth_verify_data_bytes [OF b(1) _ assms(2-4), of rest J m pass] by auto
next
  assume "\<exists>rnd auth rest. bs = auth_bytes m rnd auth rest \<and> length bs < 65536 \<and> auth_valid m rnd auth \<and>
      (m = SILC_AUTH_NONE \<or> m = SILC_AUTH_PASSWORD \<and> pass = Some auth \<or>
       m = SILC_AUTH_PUBLIC_KEY \<and> puk_verify pk auth (rnd @ id2str_bytes sid @ pkd))"
  then show "silc_auth_verify_data J bs m pass pk sid"
    using auth_verify_data_bytes [OF _ _ assms(2-4)] by auto
qed

text \<open>
  C15. Authentication data that the client generates is accepted: a signature with the private key of the
  public key over 256 random bytes, and a passphrase, which is sent in UTF-8.
\<close>

theorem silc_auth_accepted:
  assumes "puk_encode pk = Some pkd" and "wf_id sid" and "length pkd < 65536"
    and "rng 256 = Some rnd" and "length rnd = 256" and "prk_sign prk (rnd @ id2str_bytes sid @ pkd) = Some sig"
    and "puk_verify pk sig (rnd @ id2str_bytes sid @ pkd)" and "sig \<noteq> []" and "length sig < 65536 - 264"
    and "pass \<noteq> []" and "length pass < 65536" and "length (utf8_passphrase env pass) < 65536 - 8"
  shows "(\<exists>b. silc_auth_public_key_auth_generate env J pk prk rng sid = Some b \<and>
      silc_auth_verify_data J' (sb_bytes b) SILC_AUTH_PUBLIC_KEY None pk sid) \<and>
    (\<exists>b. silc_auth_payload_encode env J SILC_AUTH_PASSWORD None 0 pass (of_nat (length pass)) = Some b \<and>
      silc_auth_verify_data J' (sb_bytes b) SILC_AUTH_PASSWORD (Some (utf8_passphrase env pass)) pk sid)"
proof -
  have ne: "utf8_passphrase env pass \<noteq> []"
    using assms(10) by (cases pass) (simp_all add: utf8_passphrase_def)
  have "silc_auth_public_key_auth_generate env J pk prk rng sid = Some (silc_buffer_set (auth_bytes SILC_AUTH_PUBLIC_KEY rnd sig []))"
    using assms auth_encode_data [OF assms(1,2), of "Some rnd" rnd J]
      auth_encode_bytes [OF auth_passphrase_plain, of SILC_AUTH_PUBLIC_KEY env sig rnd "Some rnd" J]
    by (simp add: silc_auth_public_key_auth_generate_def silc_auth_public_key_auth_generate_wpub_def
        SILC_AUTH_PUBLIC_KEY_def SILC_AUTH_PASSWORD_def)
  moreover have "silc_auth_verify_data J' (auth_bytes SILC_AUTH_PUBLIC_KEY rnd sig []) SILC_AUTH_PUBLIC_KEY None pk sid"
    using assms by (subst auth_verify_data_bytes [where pkd = pkd])
      (simp_all add: auth_valid_def SILC_AUTH_PUBLIC_KEY_def SILC_AUTH_PASSWORD_def)
  moreover have "silc_auth_payload_encode env J SILC_AUTH_PASSWORD None 0 pass (of_nat (length pass)) =
      Some (silc_buffer_set (auth_bytes SILC_AUTH_PASSWORD [] (utf8_passphrase env pass) []))"
    using auth_encode_bytes [OF auth_passphrase_utf8 [OF assms(10) _ assms(11)], where rnd = "[]" and random_data = None and J = J] assms(12)
    by simp
  moreover have "silc_auth_verify_data J' (auth_bytes SILC_AUTH_PASSWORD [] (utf8_passphrase env pass) [])
      SILC_AUTH_PASSWORD (Some (utf8_passphrase env pass)) pk sid"
    using assms ne by (subst auth_verify_data_bytes [where pkd = pkd])
      (simp_all add: auth_valid_def SILC_AUTH_PUBLIC_KEY_def SILC_AUTH_PASSWORD_def)
  ultimately show ?thesis
    by simp
qed

section \<open>Witnesses\<close>

definition demo_auth_pk :: silc_public_key where
  "demo_auth_pk = \<lparr>puk_len = 8, puk_encode = Some [7], puk_verify = (\<lambda>s d. s = [hd d])\<rparr>"

definition demo_auth_prk :: silc_private_key where
  "demo_auth_prk = \<lparr>prk_len = 8, prk_type = 1, prk_sign = (\<lambda>d. Some [hd d])\<rparr>"

definition demo_auth_id :: silc_id where
  "demo_auth_id = ServerID \<lparr>ip_data = replicate 16 0, ip_data_len = 4\<rparr> 706 9"

lemma demo_auth_id_wf: "wf_id demo_auth_id"
  by (simp add: demo_auth_id_def wf_ip_def)

theorem silc_auth_verify_data_iff_witness:
  "silc_auth_verify_data (\<lambda>_. 0) [0, 10, 0, 1, 0, 0, 0, 2, 65, 66] SILC_AUTH_PASSWORD (Some [65, 66]) demo_auth_pk demo_auth_id"
proof -
  have b: "[0, 10, 0, 1, 0, 0, 0, 2, 65, 66] = auth_bytes SILC_AUTH_PASSWORD [] [65, 66] []"
    by (simp add: auth_bytes_def field16_def SILC_AUTH_PASSWORD_def SILC_PUT16_MSB_def)
  have l: "length [0, 10, 0, 1, 0, 0, 0, 2, 65, 66 :: byte] < 65536" "length [0, 10, 0, 1, 0, 0, 0, 2, 65, 66 :: byte] < u32_max"
    by (simp_all add: u32_max_def)
  have v: "auth_valid SILC_AUTH_PASSWORD [] [65, 66]"
    by (simp add: auth_valid_def SILC_AUTH_PASSWORD_def SILC_AUTH_PUBLIC_KEY_def)
  have k: "puk_encode demo_auth_pk = Some [7]" "length [7 :: byte] < 65536"
    by (simp_all add: demo_auth_pk_def)
  show ?thesis
    unfolding silc_auth_verify_data_iff [OF l(2) k(1) demo_auth_id_wf k(2)]
    using b l(1) v by blast
qed

theorem silc_auth_accepted_witness:
  "(\<exists>b. silc_auth_public_key_auth_generate ascii_env (\<lambda>_. 0) demo_auth_pk demo_auth_prk (\<lambda>n. Some (replicate n 5)) demo_auth_id = Some b \<and>
      silc_auth_verify_data (\<lambda>_. 1) (sb_bytes b) SILC_AUTH_PUBLIC_KEY None demo_auth_pk demo_auth_id) \<and>
    (\<exists>b. silc_auth_payload_encode ascii_env (\<lambda>_. 0) SILC_AUTH_PASSWORD None 0 [0x70, 0xe4] 2 = Some b \<and>
      silc_auth_verify_data (\<lambda>_. 1) (sb_bytes b) SILC_AUTH_PASSWORD (Some [0x70, 0xc3, 0xa4]) demo_auth_pk demo_auth_id)"
proof -
  have u: "utf8_passphrase ascii_env [0x70, 0xe4] = [0x70, 0xc3, 0xa4]"
    by (simp add: utf8_passphrase_def silc_utf8_valid_def decode_loop.simps decode_put_def utf8_ref_cases cast32_def u32_max_def)
  have h: "hd (replicate 256 (5 :: byte) @ d) = 5" for d
    by simp
  have "of_nat (length [0x70, 0xe4 :: byte]) = (2 :: u16)"
    by simp
  then show ?thesis
    using silc_auth_accepted [of demo_auth_pk "[7]" demo_auth_id "\<lambda>n. Some (replicate n 5)" "replicate 256 5" demo_auth_prk "[5]"
        "[0x70, 0xe4]" ascii_env "\<lambda>_. 0" "\<lambda>_. 1"] demo_auth_id_wf h
    by (simp add: u demo_auth_pk_def demo_auth_prk_def)
qed

section \<open>Key Agreement Payload\<close>

type_synonym key_agreement = "bytes \<times> u16 \<times> u16"

fun agreement_repr :: "key_agreement \<Rightarrow> silc_key_agreement_payload" where
  "agreement_repr (host, protocol, port) =
     \<lparr>ka_hostname_len = of_nat (length host), ka_hostname = (if host = [] then None else Some host), ka_protocol = protocol, ka_port = port\<rparr>"

fun agreement_bytes :: "key_agreement \<Rightarrow> bytes" where
  "agreement_bytes (host, protocol, port) = field16 host @ SILC_PUT16_MSB protocol @ SILC_PUT16_MSB port"

definition agreement_valid :: "key_agreement \<Rightarrow> bool" where
  "agreement_valid a \<longleftrightarrow> length (fst a) < 65536"

lemma agreement_encode_eq:
  "length host < 65536 \<Longrightarrow>
   silc_key_agreement_payload_encode J (if host = [] then None else Some host) protocol port =
     Some (silc_buffer_set (agreement_bytes (host, protocol, port)))"
  by (cases "host = []")
    (simp_all add: silc_key_agreement_payload_encode_def opt_bytes_def Let_def add32_exact u32_max_def
      alloc_format_exact field16_def SILC_MAX_ALLOC_def)

lemma agreement_parse_iff:
  assumes small: "length bs < u32_max"
  shows "silc_key_agreement_payload_parse bs = Some p \<longleftrightarrow>
    (\<exists>a rest. agreement_valid a \<and> bs = agreement_bytes a @ rest \<and> p = agreement_repr a)"
proof
  assume p: "silc_key_agreement_payload_parse bs = Some p"
  then obtain vr where vr: "parse_all [UNF_UI16_NSTRING_ALLOC, UNF_UI16_SHORT, UNF_UI16_SHORT] bs = Some vr"
    using small by (cases "parse_all [UNF_UI16_NSTRING_ALLOC, UNF_UI16_SHORT, UNF_UI16_SHORT] bs")
      (auto simp: silc_key_agreement_payload_parse_def with_unformat_fail simp del: parse_all.simps)
  then obtain host protocol port r where
    v: "vr = ([V16 (of_nat (length host)), VPtr (if host = [] then None else Some host), V16 protocol, V16 port], r)"
    and b: "bs = field16 host @ SILC_PUT16_MSB protocol @ SILC_PUT16_MSB port @ r" and len: "length host < 65536"
    by (auto split: option.splits prod.splits elim!: parse_field16_inv dest!: parse_UI16_inv simp del: parse_step.simps)
  have "p = agreement_repr (host, protocol, port)"
    using p vr [unfolded v] small
    by (auto simp: silc_key_agreement_payload_parse_def with_unformat_ok split: if_splits simp del: parse_all.simps)
  then show "\<exists>a rest. agreement_valid a \<and> bs = agreement_bytes a @ rest \<and> p = agreement_repr a"
    using b len by (intro exI [of _ "(host, protocol, port)"] exI [of _ r]) (simp add: agreement_valid_def)
next
  assume "\<exists>a rest. agreement_valid a \<and> bs = agreement_bytes a @ rest \<and> p = agreement_repr a"
  then obtain host protocol port r where len: "length host < 65536"
    and b: "bs = field16 host @ SILC_PUT16_MSB protocol @ SILC_PUT16_MSB port @ r" and p: "p = agreement_repr (host, protocol, port)"
    by (auto simp: agreement_valid_def)
  have "parse_all [UNF_UI16_NSTRING_ALLOC, UNF_UI16_SHORT, UNF_UI16_SHORT] bs =
      Some ([V16 (of_nat (length host)), VPtr (if host = [] then None else Some host), V16 protocol, V16 port], r)"
    using len by (simp add: b parse_field16 parse_UI16 del: parse_step.simps)
  moreover have "length host \<le> sub32 (length bs) 6"
    using small by (simp add: b sub32_exact)
  ultimately show "silc_key_agreement_payload_parse bs = Some p"
    using small len by (simp add: silc_key_agreement_payload_parse_def with_unformat_ok p not_less del: parse_all.simps)
qed

interpretation agreement_codec: payload_codec
  "\<lambda>(host, protocol, port). silc_key_agreement_payload_encode J (if host = [] then None else Some host) protocol port"
  silc_key_agreement_payload_parse agreement_valid agreement_repr
proof
  fix a :: key_agreement
  obtain host protocol port where a: "a = (host, protocol, port)" by (cases a)
  assume ok: "agreement_valid a"
  then have e: "(case a of (host, protocol, port) \<Rightarrow> silc_key_agreement_payload_encode J (if host = [] then None else Some host) protocol port) =
      Some (silc_buffer_set (agreement_bytes a))"
    by (simp add: a agreement_valid_def agreement_encode_eq)
  have small: "length (agreement_bytes a) < u32_max"
    using ok by (simp add: a agreement_valid_def u32_max_def)
  then show "\<exists>b. (case a of (host, protocol, port) \<Rightarrow> silc_key_agreement_payload_encode J (if host = [] then None else Some host) protocol port) =
      Some b \<and> wf_buffer b"
    by (simp add: e)
  fix b
  assume "(case a of (host, protocol, port) \<Rightarrow> silc_key_agreement_payload_encode J (if host = [] then None else Some host) protocol port) = Some b"
  moreover have "silc_key_agreement_payload_parse (agreement_bytes a) = Some (agreement_repr a)"
    using ok by (intro agreement_parse_iff [OF small, THEN iffD2] exI [of _ a] exI [of _ "[]"]) simp
  ultimately show "silc_key_agreement_payload_parse (sb_bytes b) = Some (agreement_repr a)"
    unfolding e by auto
qed

text \<open>What the getters give after an encoded payload was parsed.\<close>

lemma silc_key_agreement_payload_roundtrip:
  assumes "length host < 65536" and "host \<noteq> []"
  shows "\<exists>b p. silc_key_agreement_payload_encode J (Some host) protocol port = Some b \<and>
    silc_key_agreement_payload_parse (sb_bytes b) = Some p \<and> silc_key_agreement_get_hostname p = Some host \<and>
    silc_key_agreement_get_protocol p = protocol \<and> silc_key_agreement_get_port p = port"
  using agreement_codec.roundtrip [of "(host, protocol, port)" J] assms
  by (auto simp: agreement_valid_def silc_key_agreement_get_hostname_def silc_key_agreement_get_protocol_def silc_key_agreement_get_port_def)

end
