(* ===== verification/Silc_Strutil.thy ===== *)
theory Silc_Strutil
  imports Silc_Prelude
begin

text \<open>
  \<open>lib/silcutil/silcstrutil.c\<close>: base 64, bounded concatenation, comparison with wildcards, splitting, and
  regular expressions from lists of patterns. A C string is the list of its characters before the
  terminating NUL; a block of memory has the NUL and what lies behind it, too.
\<close>

section \<open>Base 64\<close>

definition pem_enc :: bytes where
  "pem_enc = map of_nat ([65..<91] @ [97..<123] @ [48..<58] @ [43, 47])"

text \<open>The three counters of the loop: the bits that are not written yet, how many bytes they are, and the result.\<close>

fun base64_encode_loop :: "bytes \<Rightarrow> u32 \<Rightarrow> nat \<Rightarrow> bytes \<Rightarrow> u32 \<times> nat \<times> bytes" where
  "base64_encode_loop [] bits char_count pem = (bits, char_count, pem)"
| "base64_encode_loop (c # data) bits char_count pem =
     (let bits = bits + ucast c
      in if char_count + 1 = 3 then
           base64_encode_loop data 0 0
             (pem @ [pem_enc ! unat (drop_bit 18 bits), pem_enc ! unat (drop_bit 12 bits AND 0x3f),
                     pem_enc ! unat (drop_bit 6 bits AND 0x3f), pem_enc ! unat (bits AND 0x3f)])
         else base64_encode_loop data (push_bit 8 bits) (char_count + 1) pem)"

definition base64_encode_rest :: "u32 \<times> nat \<times> bytes \<Rightarrow> bytes" where
  "base64_encode_rest st =
     (case st of (bits, char_count, pem) \<Rightarrow>
        if char_count \<noteq> 0 then
          (let bits = push_bit (16 - 8 * char_count) bits;
               pem = pem @ [pem_enc ! unat (drop_bit 18 bits), pem_enc ! unat (drop_bit 12 bits AND 0x3f)]
           in if char_count = 1 then pem @ [0x3d, 0x3d] else pem @ [pem_enc ! unat (drop_bit 6 bits AND 0x3f), 0x3d])
        else pem)"

text \<open>The characters that are written and the size of the zeroed block; a block that is refused is written through NULL.\<close>

definition base64_block :: "nat \<Rightarrow> nat" where
  "base64_block len = ((len * 8 + 5) mod u32_max) div 6 + 5"

definition silc_base64_encode :: "bytes \<Rightarrow> (bytes \<times> nat) option" where
  "silc_base64_encode data =
     (case silc_calloc (base64_block (length data)) 1 of
        None \<Rightarrow> None
      | Some pem \<Rightarrow> Some (base64_encode_rest (base64_encode_loop data 0 0 []), length pem))"

text \<open>\<open>len\<close> grows with every newline, so that the loop ends when all characters are copied.\<close>

function base64_lines :: "nat \<Rightarrow> bytes \<Rightarrow> bytes" where
  "base64_lines cols [] = []"
| "base64_lines cols (c # pem) =
     (if cols = 72 then 0x0a # base64_lines 1 (c # pem) else c # base64_lines (cols + 1) pem)"
  by pat_completeness auto
termination
  by (relation "measure (\<lambda>(cols, pem). 2 * length pem + (if cols = 72 then 1 else 0))") auto

definition silc_base64_encode_file :: "bytes \<Rightarrow> (bytes \<times> nat) option" where
  "silc_base64_encode_file data =
     (case silc_base64_encode data of
        None \<Rightarrow> None
      | Some (pem, _) \<Rightarrow>
          (case silc_calloc (length pem + length pem div 72 + 1) 1 of
             None \<Rightarrow> None
           | Some pem2 \<Rightarrow> Some (base64_lines 1 pem, length pem2)))"

definition base64_index :: "byte \<Rightarrow> nat option" where
  "base64_index c = List.find (\<lambda>i. pem_enc ! i = c) [0..<64]"

fun base64_decode_loop :: "bytes \<Rightarrow> u32 \<Rightarrow> nat \<Rightarrow> bytes \<Rightarrow> u32 \<times> nat \<times> bytes" where
  "base64_decode_loop [] bits char_count data = (bits, char_count, data)"
| "base64_decode_loop (c # base64) bits char_count data =
     (if c = 0x3d then (bits, char_count, data)
      else
        (case (if 127 < c then None else base64_index c) of
           None \<Rightarrow> base64_decode_loop base64 bits char_count data
         | Some i \<Rightarrow>
             (let bits = bits + of_nat i
              in if char_count + 1 = 4 then
                   base64_decode_loop base64 0 0
                     (data @ [ucast (drop_bit 16 bits), ucast (drop_bit 8 bits AND 0xff), ucast (bits AND 0xff)])
                 else base64_decode_loop base64 (push_bit 6 bits) (char_count + 1) data)))"

definition base64_decode_rest :: "u32 \<times> nat \<times> bytes \<Rightarrow> bytes option" where
  "base64_decode_rest st =
     (case st of (bits, char_count, data) \<Rightarrow>
        if char_count = 1 then None
        else if char_count = 2 then Some (data @ [ucast (drop_bit 10 bits)])
        else if char_count = 3 then Some (data @ [ucast (drop_bit 16 bits), ucast (drop_bit 8 bits AND 0xff)])
        else Some data)"

text \<open>
  \<open>base64\<close> is the memory from the argument on; its length is zero for a string. The results are the bytes that
  are written, whose number is \<open>ret_len\<close>, and the size of the block.
\<close>

definition silc_base64_decode :: "bytes \<Rightarrow> nat \<Rightarrow> (bytes \<times> nat) option" where
  "silc_base64_decode base64 base64_len =
     (let s = (if base64_len = 0 then takeWhile (\<lambda>c. c \<noteq> 0) base64 else take base64_len base64)
      in case base64_decode_rest (base64_decode_loop s 0 0 []) of
           None \<Rightarrow> None
         | Some data \<Rightarrow>
             Some (data, case silc_calloc (((length s * 6) mod u32_max) div 8) 1 of None \<Rightarrow> 0 | Some block \<Rightarrow> length block))"

section \<open>Strings\<close>

text \<open>
  \<open>silc_strncat\<close> on a block that holds a string; \<open>len\<close> is an \<open>int\<close> that is not negative, since the last
  byte was set to NUL. \<open>strncat\<close> stops at the end of \<open>src\<close>.
\<close>

definition silc_strncat :: "bytes \<Rightarrow> bytes \<Rightarrow> nat \<Rightarrow> bytes" where
  "silc_strncat dest src src_len =
     (let dest = dest[length dest - 1 := 0];
          s = takeWhile (\<lambda>c. c \<noteq> 0) dest;
          len = length dest - 1 - length s;
          add = (if len < src_len then take len (takeWhile (\<lambda>c. c \<noteq> 0) src) else take src_len (takeWhile (\<lambda>c. c \<noteq> 0) src))
      in memcpy dest (length s) (add @ [0]))"

text \<open>Strings are compared up to the NUL that ends them: a string that is shorter differs.\<close>

definition c_strncmp :: "bytes \<Rightarrow> bytes \<Rightarrow> nat \<Rightarrow> bool" where
  "c_strncmp s t n \<longleftrightarrow> take n (s @ [0]) = take n (t @ [0])"

text \<open>
  The loop of \<open>silc_string_compare\<close>: \<open>tmpstr1\<close> is only read, \<open>tmpstr2\<close> is changed and is the result. The
  copies are one byte longer than the strings; None when the loop reads behind that of \<open>tmpstr2\<close> or
  overwrites its NUL.
\<close>

definition c_at :: "bytes \<Rightarrow> nat \<Rightarrow> byte" where
  "c_at s i = (if i < length s then s ! i else 0)"

function compare_loop :: "bytes \<Rightarrow> bytes \<Rightarrow> nat \<Rightarrow> bytes option" where
  "compare_loop tmpstr1 tmpstr2 i =
     (if i < length tmpstr1 then
        (if tmpstr1 ! i = 0x2a \<and> c_strncmp tmpstr1 tmpstr2 i then Some (take i tmpstr1)
         else if tmpstr1 ! i = 0x3f \<and> c_strncmp tmpstr1 tmpstr2 i then
           (if c_at tmpstr1 (i + 1) \<noteq> 0x3f \<and> length tmpstr2 < i + 1 then None
            else if c_at tmpstr1 (i + 1) \<noteq> 0x3f \<and> c_at tmpstr1 (i + 1) \<noteq> c_at tmpstr2 (i + 1) then compare_loop tmpstr1 tmpstr2 (i + 1)
            else if \<not> length tmpstr1 < length tmpstr2 then
              (if i < length tmpstr2 then compare_loop tmpstr1 (tmpstr2[i := 0x3f]) (i + 1) else None)
            else compare_loop tmpstr1 tmpstr2 (i + 1))
         else compare_loop tmpstr1 tmpstr2 (i + 1))
      else Some tmpstr2)"
  by pat_completeness auto
termination
  by (relation "measure (\<lambda>(tmpstr1, tmpstr2, i). length tmpstr1 - i)") auto

declare compare_loop.simps [simp del]

definition silc_string_compare :: "bytes option \<Rightarrow> bytes option \<Rightarrow> bool option" where
  "silc_string_compare string1 string2 =
     (case (string1, string2) of
        (Some s1, Some s2) \<Rightarrow>
          if c_strncmp s1 s2 (length s2) \<and> length s2 = length s1 then Some True
          else if length s2 < length s1 \<and> 0x2a \<notin> set s1 then Some False
          else map_option (\<lambda>tmpstr2. takeWhile (\<lambda>c. c \<noteq> 0x2a) s1 = tmpstr2) (compare_loop s1 s2 0)
      | _ \<Rightarrow> Some False)"

text \<open>
  \<open>silc_string_split\<close>; the separator given to \<open>strcspn\<close> is taken to be a string of one character, although the
  source does not terminate it. The copies are those of \<open>silc_memdup\<close>; the array of \<open>i\<close> pointers of eight
  bytes grows by one.
\<close>

function split_loop :: "bytes \<Rightarrow> byte \<Rightarrow> nat \<Rightarrow> bytes list option" where
  "split_loop cp ch i =
     (let item = takeWhile (\<lambda>c. c \<noteq> ch) cp
      in case silc_memdup item of
           None \<Rightarrow> None
         | Some item' \<Rightarrow>
             if SILC_MAX_ALLOC \<le> (i + 1) * 8 then None
             else
               (case drop (length item) cp of
                  [] \<Rightarrow> Some [item']
                | c # rest \<Rightarrow> map_option (\<lambda>items. item' # items) (split_loop rest ch (i + 1))))"
  by pat_completeness auto
termination
  by (relation "measure (\<lambda>(cp, ch, i). length cp)") (auto dest!: arg_cong [of _ _ length])

declare split_loop.simps [simp del]

definition silc_string_split :: "bytes option \<Rightarrow> byte \<Rightarrow> bytes list option" where
  "silc_string_split string ch =
     (case string of
        None \<Rightarrow> None
      | Some s \<Rightarrow>
          if ch \<notin> set s then map_option (\<lambda>item. [item]) (silc_memdup s) else split_loop s ch 0)"

text \<open>A pattern list as a regular expression; \<open>i\<close> is the index of the character. The block has room for four more characters.\<close>

fun regexify_count :: "bytes \<Rightarrow> nat" where
  "regexify_count [] = 0"
| "regexify_count (c # s) =
     (if c = 0x2a \<or> c = 0x3f then 1 else 0) + (if c = 0x2c then 2 else 0) + regexify_count s"

fun regexify_loop :: "nat \<Rightarrow> nat \<Rightarrow> bytes \<Rightarrow> bytes" where
  "regexify_loop len i [] = []"
| "regexify_loop len i (c # s) =
     (if c = 0x2a \<or> c = 0x3f then [0x2e, c]
      else if c = 0x2c then (if i + 2 = len then [] else [0x7c, 0x5e])
      else [c]) @ regexify_loop len (i + 1) s"

definition silc_string_regexify :: "bytes option \<Rightarrow> (bytes \<times> nat) option" where
  "silc_string_regexify string =
     (case string of
        None \<Rightarrow> None
      | Some s \<Rightarrow>
          (case silc_calloc (length s + (4 + regexify_count s) + 1) 1 of
             None \<Rightarrow> None
           | Some regex \<Rightarrow> Some ([0x28, 0x5e] @ regexify_loop (length s) 0 s @ [0x29, 0x24], length regex)))"

text \<open>\<open>strncat\<close> takes its length as unsigned: for a first string shorter than two characters it copies all of it. The second one is not empty.\<close>

definition silc_string_regex_combine :: "bytes option \<Rightarrow> bytes option \<Rightarrow> (bytes \<times> nat) option" where
  "silc_string_regex_combine string1 string2 =
     (case (string1, string2) of
        (Some s1, Some s2) \<Rightarrow>
          (case silc_calloc (2 + length s1 + length s2) 1 of
             None \<Rightarrow> None
           | Some tmp \<Rightarrow> Some ((if length s1 < 2 then s1 else take (length s1 - 2) s1) @ [0x7c] @ tl s2, length tmp))
      | _ \<Rightarrow> None)"

end
