(* ===== verification/Silc_Strutil_Codec.thy ===== *)
theory Silc_Strutil_Codec
  imports Silc_Strutil
begin

text \<open>
  The string utilities of \<open>silcstrutil.c\<close>: base 64 as a recursive function on bytes and its round trip, the
  sizes of the blocks, splitting and joining, matching a prefix, and bounded concatenation.
\<close>

section \<open>Base 64 on numbers\<close>

definition pem_codes :: "nat list" where
  "pem_codes = [65..<91] @ [97..<123] @ [48..<58] @ [43, 47]"

lemma pem_enc_codes: "pem_enc = map of_nat pem_codes"
  by (simp add: pem_enc_def pem_codes_def)

lemma length_pem_codes: "length pem_codes = 64"
  by (simp add: pem_codes_def)

lemma pem_codes_range: "n \<in> set pem_codes \<Longrightarrow> n < 128 \<and> n \<noteq> 61 \<and> n \<noteq> 0 \<and> n \<noteq> 10"
  by (auto simp: pem_codes_def)

lemma of_nat_byte_inj: "m < 128 \<Longrightarrow> n < 128 \<Longrightarrow> (of_nat m :: byte) = of_nat n \<longleftrightarrow> m = n"
  by (auto simp: word_eq_iff_unsigned [where ?'a = nat])

lemma pem_enc_nth: "k < 64 \<Longrightarrow> pem_enc ! k = of_nat (pem_codes ! k) \<and> pem_codes ! k \<in> set pem_codes"
  by (simp add: pem_enc_codes length_pem_codes)

lemma pem_enc_char:
  assumes "k < 64"
  shows "base64_index (pem_enc ! k) = Some k" and "pem_enc ! k \<noteq> 0x3d" and "\<not> 127 < pem_enc ! k" and "pem_enc ! k \<noteq> 0"
proof -
  have r: "pem_codes ! j < 128" "pem_codes ! j \<noteq> 61" "pem_codes ! j \<noteq> 0" if "j < 64" for j
    using pem_enc_nth [OF that] pem_codes_range by auto
  have u: "unat (pem_enc ! k) = pem_codes ! k"
    using pem_enc_nth [OF assms] r [OF assms] by simp
  show "pem_enc ! k \<noteq> 0x3d" "pem_enc ! k \<noteq> 0"
    using u r [OF assms] by auto
  show "\<not> 127 < pem_enc ! k"
    using u r [OF assms] by (simp add: word_less_nat_alt)
  have "distinct pem_codes"
    by (simp add: pem_codes_def)
  then have "pem_enc ! j \<noteq> pem_enc ! k" if "j < k" for j
    using that assms r [of j] r [of k] pem_enc_nth [of j] pem_enc_nth [of k] length_pem_codes
    by (simp add: of_nat_byte_inj nth_eq_iff_index_eq)
  then show "base64_index (pem_enc ! k) = Some k"
    using assms by (simp add: base64_index_def find_Some_iff) (metis diff_zero nth_upt plus_nat.add_0 length_upt less_trans)
qed

lemma base64_skip: "base64_index 0x0a = None"
proof -
  have "pem_enc ! j \<noteq> 0x0a" if "j < 64" for j
    using pem_enc_nth [OF that] pem_codes_range [of "pem_codes ! j"] of_nat_byte_inj [of "pem_codes ! j" 10] by auto
  then show ?thesis
    by (simp add: base64_index_def find_None_iff)
qed

lemma unat_shift_add:
  assumes "unat (x :: u32) * 2 ^ k + n < 2 ^ 32"
  shows "unat (push_bit k x + of_nat n) = unat x * 2 ^ k + n"
proof -
  have "unat (push_bit k x) = unat x * 2 ^ k"
    using assms by (subst unsigned_push_bit_eq) (simp add: take_bit_eq_mod push_bit_eq_mult)
  then show ?thesis
    using assms by (simp add: unat_word_ariths)
qed

lemma unat_and_63: "unat (x AND 0x3f :: u32) = unat x mod 64"
proof -
  have "x AND 0x3f = take_bit 6 x"
    by (simp add: take_bit_eq_mask mask_eq_exp_minus_1)
  then show ?thesis
    by (simp only: unsigned_take_bit_eq) (simp add: take_bit_eq_mod)
qed

lemma unat_and_255: "unat (x AND 0xff :: u32) = unat x mod 256"
proof -
  have "x AND 0xff = take_bit 8 x"
    by (simp add: take_bit_eq_mask mask_eq_exp_minus_1)
  then show ?thesis
    by (simp only: unsigned_take_bit_eq) (simp add: take_bit_eq_mod)
qed

lemma unat_drop: "unat (drop_bit k (x :: u32)) = unat x div 2 ^ k"
  by (simp only: unsigned_drop_bit_eq) (simp add: drop_bit_eq_div take_bit_eq_mod)

text \<open>The four characters of a number of 24 bits, and the three bytes of one.\<close>

definition sextets :: "nat \<Rightarrow> nat list" where
  "sextets v = [v div 262144, v div 4096 mod 64, v div 64 mod 64, v mod 64]"

definition octets :: "nat \<Rightarrow> bytes" where
  "octets v = [of_nat (v div 65536), of_nat (v div 256), of_nat v]"

definition pem_chars :: "nat list \<Rightarrow> bytes" where
  "pem_chars ks = map (\<lambda>k. pem_enc ! k) ks"

lemma encode_three:
  "base64_encode_loop (a # b # c # r) 0 0 pem =
   base64_encode_loop r 0 0 (pem @ pem_chars (sextets (unat a * 65536 + unat b * 256 + unat c)))"
proof -
  define x where "x = push_bit 8 (ucast a :: u32) + of_nat (unat b)"
  define y where "y = push_bit 8 x + of_nat (unat c)"
  have x: "unat x = unat a * 256 + unat b"
    unfolding x_def using unat_shift_add [where x = "ucast a" and k = 8 and n = "unat b"] unat_byte_less [of a] unat_byte_less [of b]
    by simp
  have y: "unat y = unat a * 65536 + unat b * 256 + unat c"
    unfolding y_def using unat_shift_add [where x = x and k = 8 and n = "unat c"]
      unat_byte_less [of a] unat_byte_less [of b] unat_byte_less [of c] by (simp add: x)
  have u: "ucast b = (of_nat (unat b) :: u32)" "ucast c = (of_nat (unat c) :: u32)"
    by simp_all
  have "base64_encode_loop (a # b # c # r) 0 0 pem =
      base64_encode_loop r 0 0 (pem @ [pem_enc ! unat (drop_bit 18 y), pem_enc ! unat (drop_bit 12 y AND 0x3f),
                     pem_enc ! unat (drop_bit 6 y AND 0x3f), pem_enc ! unat (y AND 0x3f)])"
    unfolding y_def x_def by (simp add: Let_def)
  then show ?thesis
    by (simp add: unat_and_63 unat_drop y pem_chars_def sextets_def)
qed

lemma decode_char:
  "k < 64 \<Longrightarrow> base64_decode_loop (pem_enc ! k # r) bits n out =
     (if n + 1 = 4 then
        base64_decode_loop r 0 0 (out @ [ucast (drop_bit 16 (bits + of_nat k)), ucast (drop_bit 8 (bits + of_nat k) AND 0xff), ucast ((bits + of_nat k) AND 0xff)])
      else base64_decode_loop r (push_bit 6 (bits + of_nat k)) (n + 1) out)"
  using pem_enc_char [of k] by (simp add: Let_def)

lemma decode_newline: "base64_decode_loop (0x0a # r) bits n out = base64_decode_loop r bits n out"
  by (simp add: base64_skip)

lemma decode_stop: "base64_decode_loop (0x3d # r) bits n out = (bits, n, out)"
  by simp

declare base64_decode_loop.simps(2) [simp del]

lemma decode_bits:
  assumes "i < 64" "j < 64" "k < 64" "l < 64"
  shows "unat (push_bit 6 (of_nat i :: u32) + of_nat j) = i * 64 + j"
    and "unat (push_bit 6 (push_bit 6 (of_nat i :: u32) + of_nat j) + of_nat k) = (i * 64 + j) * 64 + k"
    and "unat (push_bit 6 (push_bit 6 (push_bit 6 (of_nat i :: u32) + of_nat j) + of_nat k) + of_nat l) = ((i * 64 + j) * 64 + k) * 64 + l"
proof -
  show 1: "unat (push_bit 6 (of_nat i :: u32) + of_nat j) = i * 64 + j"
    using unat_shift_add [where x = "of_nat i" and k = 6 and n = j] assms by simp
  show 2: "unat (push_bit 6 (push_bit 6 (of_nat i :: u32) + of_nat j) + of_nat k) = (i * 64 + j) * 64 + k"
    using unat_shift_add [where x = "push_bit 6 (of_nat i) + of_nat j" and k = 6 and n = k] assms by (simp add: 1)
  show "unat (push_bit 6 (push_bit 6 (push_bit 6 (of_nat i :: u32) + of_nat j) + of_nat k) + of_nat l) = ((i * 64 + j) * 64 + k) * 64 + l"
    using unat_shift_add [where x = "push_bit 6 (push_bit 6 (of_nat i) + of_nat j) + of_nat k" and k = 6 and n = l] assms by (simp add: 2)
qed

lemma ucast_u32_byte: "(ucast (w :: u32) :: byte) = of_nat (unat w)"
  by simp

lemma of_nat_mod_byte: "(of_nat (n mod 256) :: byte) = of_nat n"
  by (simp add: word_eq_iff_unsigned [where ?'a = nat])

lemma sextets_value:
  "((v div 262144 * 64 + v div 4096 mod 64) * 64 + v div 64 mod 64) * 64 + v mod 64 = (v :: nat)"
  "(v div 262144 * 64 + v div 4096 mod 64) * 64 + v div 64 mod 64 = v div 64"
  "v div 262144 * 64 + v div 4096 mod 64 = v div 4096"
proof -
  have a: "w div 64 * 64 + w mod 64 = w" for w :: nat
    by simp
  show 3: "v div 262144 * 64 + v div 4096 mod 64 = v div 4096"
    using a [of "v div 4096"] by (simp add: div_mult2_eq [symmetric])
  show 2: "(v div 262144 * 64 + v div 4096 mod 64) * 64 + v div 64 mod 64 = v div 64"
    unfolding 3 using a [of "v div 64"] by (simp add: div_mult2_eq [symmetric])
  show "((v div 262144 * 64 + v div 4096 mod 64) * 64 + v div 64 mod 64) * 64 + v mod 64 = v"
    unfolding 2 by (rule a)
qed

lemma decode_four:
  assumes "v < 16777216"
  shows "base64_decode_loop (pem_chars (sextets v) @ r) 0 0 out = base64_decode_loop r 0 0 (out @ octets v)"
proof -
  have s: "v div 262144 < 64" "v div 4096 mod 64 < 64" "v div 64 mod 64 < 64" "v mod 64 < 64"
    using assms by (simp_all add: less_mult_imp_div_less)
  define y where "y = (push_bit 6 (push_bit 6 (push_bit 6 (of_nat (v div 262144) :: u32) + of_nat (v div 4096 mod 64)) + of_nat (v div 64 mod 64)) + of_nat (v mod 64))"
  have y: "unat y = v"
    unfolding y_def decode_bits(3) [OF s] by (rule sextets_value(1))
  have "base64_decode_loop (pem_chars (sextets v) @ r) 0 0 out =
      base64_decode_loop r 0 0 (out @ [ucast (drop_bit 16 y), ucast (drop_bit 8 y AND 0xff), ucast (y AND 0xff)])"
    unfolding y_def pem_chars_def sextets_def using s by (simp add: decode_char del: of_nat_mod of_nat_div)
  also have "[ucast (drop_bit 16 y), ucast (drop_bit 8 y AND 0xff), ucast (y AND 0xff)] = octets v"
    unfolding octets_def ucast_u32_byte unat_and_255 unat_drop y of_nat_mod_byte by simp
  finally show ?thesis .
qed

lemma octets_three: "octets (unat a * 65536 + unat b * 256 + unat (c :: byte)) = [a, b, c]" for a b :: byte
proof -
  have d1: "(unat a * 65536 + unat b * 256 + unat c) div 65536 = unat a"
    using unat_byte_less [of b] unat_byte_less [of c] by (intro div_nat_eqI; simp; linarith)
  have d2: "(unat a * 65536 + unat b * 256 + unat c) div 256 = unat a * 256 + unat b"
    using unat_byte_less [of c] by (intro div_nat_eqI) simp_all
  have m: "(of_nat (x * 256 + unat w) :: byte) = w" for x and w :: byte
    by (simp add: word_eq_iff_unsigned [where ?'a = nat] del: of_nat_add of_nat_mult)
  have "unat a * 65536 + unat b * 256 + unat c = (unat a * 256 + unat b) * 256 + unat c"
    by simp
  then have c: "(of_nat (unat a * 65536 + unat b * 256 + unat c) :: byte) = c"
    by (simp only: m)
  show ?thesis
    unfolding octets_def d1 d2 c m by simp
qed


section \<open>Round trip\<close>

text \<open>The text of a byte string, as a recursive function.\<close>

fun base64_text :: "bytes \<Rightarrow> bytes" where
  "base64_text (a # b # c # r) = pem_chars (sextets (unat a * 65536 + unat b * 256 + unat c)) @ base64_text r"
| "base64_text [a, b] = pem_chars (take 3 (sextets (unat a * 65536 + unat b * 256))) @ [0x3d]"
| "base64_text [a] = pem_chars (take 2 (sextets (unat a * 65536))) @ [0x3d, 0x3d]"
| "base64_text [] = []"

lemma encode_text: "base64_encode_rest (base64_encode_loop d 0 0 pem) = pem @ base64_text d"
proof (induction d arbitrary: pem rule: base64_text.induct)
  case (1 a b c r)
  then show ?case
    by (simp only: encode_three base64_text.simps) simp
next
  case (2 a b)
  define x where "x = push_bit 8 (ucast a :: u32) + of_nat (unat b)"
  have x: "unat x = unat a * 256 + unat b"
    unfolding x_def using unat_shift_add [where x = "ucast a" and k = 8 and n = "unat b"] unat_byte_less [of a] unat_byte_less [of b]
    by simp
  have y: "unat (push_bit 8 x) = unat a * 65536 + unat b * 256"
    using unat_shift_add [where x = x and k = 8 and n = 0] unat_byte_less [of a] unat_byte_less [of b] by (simp add: x)
  have "base64_encode_rest (base64_encode_loop [a, b] 0 0 pem) =
      pem @ [pem_enc ! unat (drop_bit 18 (push_bit 8 x)), pem_enc ! unat (drop_bit 12 (push_bit 8 x) AND 0x3f),
             pem_enc ! unat (drop_bit 6 (push_bit 8 x) AND 0x3f), 0x3d]"
    unfolding x_def by (simp add: base64_encode_rest_def Let_def)
  then show ?case
    by (simp add: unat_and_63 unat_drop y pem_chars_def sextets_def)
next
  case (3 a)
  have y: "unat (push_bit 16 (ucast a :: u32)) = unat a * 65536"
    using unat_shift_add [where x = "ucast a" and k = 16 and n = 0] unat_byte_less [of a] by simp
  have "base64_encode_rest (base64_encode_loop [a] 0 0 pem) =
      pem @ [pem_enc ! unat (drop_bit 18 (push_bit 16 (ucast a :: u32))),
             pem_enc ! unat (drop_bit 12 (push_bit 16 (ucast a :: u32)) AND 0x3f), 0x3d, 0x3d]"
    by (simp add: base64_encode_rest_def Let_def)
  then show ?case
    by (simp add: unat_and_63 unat_drop y pem_chars_def sextets_def)
qed (simp add: base64_encode_rest_def)

lemma decode_text: "base64_decode_rest (base64_decode_loop (base64_text d) 0 0 out) = Some (out @ d)"
proof (induction d arbitrary: out rule: base64_text.induct)
  case (1 a b c r)
  have "unat a * 65536 + unat b * 256 + unat c < 16777216"
    using unat_byte_less [of a] unat_byte_less [of b] unat_byte_less [of c] by linarith
  then show ?case
    using 1 [of "out @ [a, b, c]"] by (simp add: decode_four octets_three)
next
  case (2 a b)
  define v where "v = unat a * 65536 + unat b * 256"
  have v: "v < 16777216"
    unfolding v_def using unat_byte_less [of a] unat_byte_less [of b] by linarith
  have s: "v div 262144 < 64" "v div 4096 mod 64 < 64" "v div 64 mod 64 < 64"
    using v by (simp_all add: less_mult_imp_div_less)
  define y where "y = push_bit 6 (push_bit 6 (push_bit 6 (of_nat (v div 262144) :: u32) + of_nat (v div 4096 mod 64)) + of_nat (v div 64 mod 64))"
  have "unat y = v div 64 * 64"
    unfolding y_def using decode_bits(3) [OF s, of 0] sextets_value(2) [of v] by simp
  moreover have "v div 64 = unat a * 1024 + unat b * 4"
    by (simp add: v_def)
  ultimately have y: "unat y = unat a * 65536 + unat b * 256 + unat (0 :: byte)"
    by simp
  have "base64_decode_rest (base64_decode_loop (base64_text [a, b]) 0 0 out) =
      Some (out @ [ucast (drop_bit 16 y), ucast (drop_bit 8 y AND 0xff)])"
    unfolding y_def base64_text.simps v_def [symmetric] pem_chars_def sextets_def using s
    by (simp add: decode_char decode_stop base64_decode_rest_def del: of_nat_mod of_nat_div)
  also have "[ucast (drop_bit 16 y), ucast (drop_bit 8 y AND 0xff)] = take 2 (octets (unat y))"
    unfolding octets_def ucast_u32_byte unat_and_255 unat_drop of_nat_mod_byte by simp
  finally show ?case
    unfolding y octets_three by simp
next
  case (3 a)
  define v where "v = unat a * 65536"
  have v: "v < 16777216"
    unfolding v_def using unat_byte_less [of a] by linarith
  have s: "v div 262144 < 64" "v div 4096 mod 64 < 64"
    using v by (simp_all add: less_mult_imp_div_less)
  define y where "y = push_bit 6 (push_bit 6 (of_nat (v div 262144) :: u32) + of_nat (v div 4096 mod 64))"
  have "unat y = v div 4096 * 64"
    unfolding y_def using decode_bits(2) [OF s, of 0 0] sextets_value(3) [of v] by simp
  then have "unat y = unat a * 1024"
    by (simp add: v_def)
  then have y: "unat (drop_bit 10 y) = unat a"
    by (simp add: unat_drop)
  have "base64_decode_rest (base64_decode_loop (base64_text [a]) 0 0 out) = Some (out @ [ucast (drop_bit 10 y)])"
    unfolding y_def base64_text.simps v_def [symmetric] pem_chars_def sextets_def using s
    by (simp add: decode_char decode_stop base64_decode_rest_def del: of_nat_mod of_nat_div)
  also have "ucast (drop_bit 10 y) = a"
    unfolding ucast_u32_byte y by simp
  finally show ?case .
qed (simp add: base64_decode_rest_def)

lemma length_base64_text: "length (base64_text d) = 4 * ((length d + 2) div 3)"
proof (induction d rule: base64_text.induct)
  case (1 a b c r)
  have "(length r + 2 + 3) div 3 = (length r + 2) div 3 + 1"
    by (rule div_add_self2) simp
  then show ?case
    using 1 by (simp add: pem_chars_def sextets_def)
qed (simp_all add: pem_chars_def sextets_def)

lemma base64_text_nonzero: "list_all (\<lambda>c. c \<noteq> 0) (base64_text d)"
proof (induction d rule: base64_text.induct)
  case (1 a b c r)
  define v where "v = unat a * 65536 + unat b * 256 + unat c"
  have "v < 16777216"
    unfolding v_def using unat_byte_less [of a] unat_byte_less [of b] unat_byte_less [of c] by linarith
  then show ?case
    using 1 by (simp add: v_def [symmetric] pem_chars_def sextets_def pem_enc_char(4) less_mult_imp_div_less)
next
  case (2 a b)
  define v where "v = unat a * 65536 + unat b * 256"
  have "v < 16777216"
    unfolding v_def using unat_byte_less [of a] unat_byte_less [of b] by linarith
  then show ?case
    by (simp add: v_def [symmetric] pem_chars_def sextets_def pem_enc_char(4) less_mult_imp_div_less)
next
  case (3 a)
  define v where "v = unat a * 65536"
  have "v < 16777216"
    unfolding v_def using unat_byte_less [of a] by linarith
  then show ?case
    by (simp add: v_def [symmetric] pem_chars_def sextets_def pem_enc_char(4) less_mult_imp_div_less)
qed simp

lemma takeWhile_nonzero: "list_all (\<lambda>c. c \<noteq> 0) s \<Longrightarrow> takeWhile (\<lambda>c. c \<noteq> 0) (s @ 0 # r) = s"
  by (induction s) auto

lemma base64_encode_eq:
  assumes "length d < 268435456"
  shows "silc_base64_encode d = Some (base64_text d, (length d * 8 + 5) div 6 + 5)"
proof -
  define n where "n = (length d * 8 + 5) div 6 + 5"
  have "n < SILC_MAX_ALLOC" "0 < n"
    using assms by (simp_all add: n_def SILC_MAX_ALLOC_def less_mult_imp_div_less)
  moreover have "base64_block (length d) = n"
    using assms by (simp add: base64_block_def n_def u32_max_def)
  ultimately show ?thesis
    unfolding n_def [symmetric] by (simp only: silc_base64_encode_def silc_calloc_Some option.case encode_text) simp
qed

text \<open>Newlines do not change what is decoded, and one comes after every 71 characters.\<close>

lemma decode_lines: "base64_decode_loop (base64_lines cols s) bits n out = base64_decode_loop s bits n out"
proof (induction cols s arbitrary: bits n out rule: base64_lines.induct)
  case (2 cols c pem)
  then show ?case
    by (cases "cols = 72") (simp_all add: decode_newline, simp add: base64_decode_loop.simps(2) Let_def split: option.split)
qed simp

lemma lines_nonzero: "list_all (\<lambda>c. c \<noteq> 0) s \<Longrightarrow> list_all (\<lambda>c. c \<noteq> 0) (base64_lines cols s)"
  by (induction cols s rule: base64_lines.induct) auto

lemma length_base64_lines:
  "1 \<le> cols \<Longrightarrow> cols \<le> 72 \<Longrightarrow> s \<noteq> [] \<Longrightarrow> length (base64_lines cols s) = length s + (length s + cols - 2) div 71"
proof (induction cols s rule: base64_lines.induct)
  case (2 cols c pem)
  consider "cols = 72" | "cols \<noteq> 72" "pem = []" | "cols \<noteq> 72" "pem \<noteq> []"
    by blast
  then show ?case
  proof cases
    case 1
    then show ?thesis
      using 2(1) by simp
  next
    case 2
    then show ?thesis
      using \<open>1 \<le> cols\<close> \<open>cols \<le> 72\<close> by simp
  next
    case 3
    then show ?thesis
      using 2 by (simp add: numeral_2_eq_2)
  qed
qed simp

lemma base64_decode_string:
  assumes "list_all (\<lambda>c. c \<noteq> 0) s" and "base64_decode_rest (base64_decode_loop s 0 0 []) = Some d" and "length s * 6 < u32_max"
  shows "silc_base64_decode (s @ 0 # rest) 0 = Some (d, length s * 6 div 8)"
proof -
  have "(case silc_calloc (length s * 6 mod u32_max div 8) 1 of None \<Rightarrow> 0 | Some block \<Rightarrow> length block) = length s * 6 div 8"
    using assms(3) by (auto simp: silc_calloc_def u32_max_def SILC_MAX_ALLOC_def split: option.splits)
  then show ?thesis
    using assms by (simp only: silc_base64_decode_def takeWhile_nonzero Let_def refl if_True option.case)
qed

lemma length_base64_le: "length (base64_text d) * 3 \<le> 4 * length d + 8"
  unfolding length_base64_text by linarith

lemma base64_encode_file_eq:
  assumes "length d < 268435456"
  shows "silc_base64_encode_file d = Some (base64_lines 1 (base64_text d), length (base64_text d) + length (base64_text d) div 72 + 1)"
proof -
  define n where "n = length (base64_text d) + length (base64_text d) div 72 + 1"
  have "n < SILC_MAX_ALLOC" "0 < n"
    using length_base64_le [of d] assms by (auto simp: n_def SILC_MAX_ALLOC_def)
  then show ?thesis
    by (simp only: silc_base64_encode_file_def base64_encode_eq [OF assms] option.case prod.case n_def [symmetric] silc_calloc_Some) simp
qed

section \<open>Properties\<close>



text \<open>
  The block of \<open>silc_base64_encode_file\<close> is too small: it counts a newline for every 72 characters of the text,
  while one is put after every 71. For 267 bytes there is no room for the NUL, and for 4101 bytes a character
  is written behind the block.
\<close>

lemma silc_base64_encode_file_overrun:
  shows "length d = 267 \<Longrightarrow> \<exists>t n. silc_base64_encode_file d = Some (t, n) \<and> length t = n"
    and "length d = 4101 \<Longrightarrow> \<exists>t n. silc_base64_encode_file d = Some (t, n) \<and> n < length t"
proof -
  have nz: "base64_text d \<noteq> []" if "d \<noteq> []"
    using length_base64_text [of d] that by (cases d) auto
  show "length d = 267 \<Longrightarrow> \<exists>t n. silc_base64_encode_file d = Some (t, n) \<and> length t = n"
    using base64_encode_file_eq [of d] length_base64_lines [of 1 "base64_text d"] nz by (cases "d = []") (auto simp: length_base64_text)
  show "length d = 4101 \<Longrightarrow> \<exists>t n. silc_base64_encode_file d = Some (t, n) \<and> n < length t"
    using base64_encode_file_eq [of d] length_base64_lines [of 1 "base64_text d"] nz by (cases "d = []") (auto simp: length_base64_text)
qed

section \<open>Strings\<close>

fun join_with :: "byte \<Rightarrow> bytes list \<Rightarrow> bytes" where
  "join_with ch [] = []"
| "join_with ch [s] = s"
| "join_with ch (s # ss) = s @ [ch] @ join_with ch ss"

text \<open>The parts of a split string, joined by the separator, are the string, and none of them has a separator.\<close>

lemma split_loop_join:
  "(i + length s + 1) * 8 < SILC_MAX_ALLOC \<Longrightarrow>
   \<exists>items. split_loop s ch i = Some items \<and> items \<noteq> [] \<and> join_with ch items = s \<and> list_all (\<lambda>t. ch \<notin> set t) items"
proof (induction "length s" arbitrary: s i rule: less_induct)
  case less
  define item where "item = takeWhile (\<lambda>c. c \<noteq> ch) s"
  have dup: "silc_memdup item = Some item"
    using less.prems length_takeWhile_le [of "\<lambda>c. c \<noteq> ch" s] by (intro silc_memdup_Some) (simp add: item_def)
  have free: "ch \<notin> set item"
    by (auto simp: item_def dest: set_takeWhileD)
  have s: "s = item @ drop (length item) s"
    unfolding item_def by (metis append_eq_conv_conj takeWhile_dropWhile_id)
  have step: "split_loop s ch i = (case drop (length item) s of [] \<Rightarrow> Some [item] | c # rest \<Rightarrow> map_option ((#) item) (split_loop rest ch (i + 1)))"
    using less.prems by (subst split_loop.simps) (simp add: Let_def item_def [symmetric] dup)
  show ?case
  proof (cases "drop (length item) s")
    case Nil
    then show ?thesis
      using s free unfolding step by simp
  next
    case (Cons c rest)
    have "dropWhile (\<lambda>c. c \<noteq> ch) s = c # rest"
      using Cons unfolding item_def by (metis dropWhile_eq_drop)
    then have "c = ch"
      by (simp add: dropWhile_eq_Cons_conv)
    have len: "length s = length item + 1 + length rest"
      using s Cons by (metis add.assoc add.commute length_Cons length_append plus_1_eq_Suc)
    then obtain items where "split_loop rest ch (i + 1) = Some items" "items \<noteq> []" "join_with ch items = rest" "list_all (\<lambda>t. ch \<notin> set t) items"
      using less.hyps [of rest "i + 1"] less.prems by auto
    then show ?thesis
      using s Cons free \<open>c = ch\<close> unfolding step by (cases items) simp_all
  qed
qed

lemma silc_string_split_join:
  assumes "(length s + 1) * 8 < SILC_MAX_ALLOC"
  shows "\<exists>items. silc_string_split (Some s) ch = Some items \<and> join_with ch items = s \<and> list_all (\<lambda>t. ch \<notin> set t) items"
  using split_loop_join [of 0 s ch] silc_memdup_Some [of s] assms by (auto simp: silc_string_split_def)

text \<open>A pattern that ends with a star matches the strings with the characters before it as a prefix.\<close>

lemma c_strncmp_prefix:
  "0 \<notin> set p \<Longrightarrow> c_strncmp (p @ r) s (length p) \<longleftrightarrow> (\<exists>t. s = p @ t)"
proof
  assume z: "0 \<notin> set p" and "c_strncmp (p @ r) s (length p)"
  then have "p = take (length p) (s @ [0])"
    by (simp add: c_strncmp_def)
  then have p: "p = take (length p) s \<or> p = s @ [0]"
    by (cases "length p \<le> length s") (auto simp: not_le take_Cons' split: if_splits)
  with z show "\<exists>t. s = p @ t"
    by (metis append_take_drop_id in_set_conv_decomp)
qed (auto simp: c_strncmp_def)

lemma compare_hit: "i < length s1 \<Longrightarrow> s1 ! i = 0x2a \<Longrightarrow> c_strncmp s1 s2 i \<Longrightarrow> compare_loop s1 s2 i = Some (take i s1)"
  by (subst compare_loop.simps) simp

lemma compare_skip:
  "i < length s1 \<Longrightarrow> \<not> (s1 ! i = 0x2a \<and> c_strncmp s1 s2 i) \<Longrightarrow> s1 ! i \<noteq> 0x3f \<Longrightarrow> compare_loop s1 s2 i = compare_loop s1 s2 (i + 1)"
  by (subst compare_loop.simps) auto

lemma compare_loop_star:
  assumes "0 \<notin> set p" and "0x2a \<notin> set p" and "0x3f \<notin> set p"
  shows "i \<le> length p \<Longrightarrow> compare_loop (p @ [0x2a]) (p @ t) i = Some p"
proof (induction "length p - i" arbitrary: i)
  case 0
  then have "c_strncmp (p @ [0x2a]) (p @ t) i"
    using c_strncmp_prefix [OF assms(1)] by simp
  then show ?case
    using 0 compare_hit [of i "p @ [0x2a]" "p @ t"] by (simp add: nth_append)
next
  case (Suc n)
  then have "(p @ [0x2a]) ! i \<noteq> 0x2a" "(p @ [0x2a]) ! i \<noteq> 0x3f"
    using assms(2,3) by (auto simp: nth_append in_set_conv_nth)
  then show ?case
    using Suc by (simp add: compare_skip)
qed

lemma compare_loop_no_prefix:
  assumes "0 \<notin> set p" and "0x2a \<notin> set p" and "0x3f \<notin> set p" and "\<nexists>t. s = p @ t"
  shows "i \<le> length p + 1 \<Longrightarrow> compare_loop (p @ [0x2a]) s i = Some s"
proof (induction "length p + 1 - i" arbitrary: i)
  case 0
  then show ?case
    by (subst compare_loop.simps) simp
next
  case (Suc n)
  have "(p @ [0x2a]) ! i \<noteq> 0x3f"
    using Suc(2,3) assms(3) by (auto simp: nth_append in_set_conv_nth)
  moreover have "\<not> ((p @ [0x2a]) ! i = 0x2a \<and> c_strncmp (p @ [0x2a]) s i)"
  proof (cases "i = length p")
    case True
    then show ?thesis
      using c_strncmp_prefix [OF assms(1)] assms(4) by simp
  next
    case False
    then show ?thesis
      using Suc(2,3) assms(2) by (auto simp: nth_append in_set_conv_nth)
  qed
  ultimately show ?case
    using Suc by (simp add: compare_skip)
qed

lemma silc_string_compare_star:
  assumes "0 \<notin> set p" and "0x2a \<notin> set p" and "0x3f \<notin> set p" and "0 \<notin> set s"
  shows "silc_string_compare (Some (p @ [0x2a])) (Some s) = Some (\<exists>t. s = p @ t)"
proof -
  have tw: "takeWhile (\<lambda>c. c \<noteq> 0x2a) (p @ [0x2a]) = p"
    using assms(2) by (induction p) auto
  have same: "c_strncmp (p @ [0x2a]) s (length s) \<and> length s = length (p @ [0x2a]) \<Longrightarrow> s = p @ [0x2a]"
    by (auto simp: c_strncmp_def)
  show ?thesis
  proof (cases "\<exists>t. s = p @ t")
    case True
    then show ?thesis
      using compare_loop_star [OF assms(1-3)] tw by (auto simp: silc_string_compare_def)
  next
    case False
    then have "s \<noteq> p" "s \<noteq> p @ [0x2a]"
      by auto
    then show ?thesis
      using compare_loop_no_prefix [OF assms(1-3) False, of 0] same tw False by (auto simp: silc_string_compare_def)
  qed
qed

text \<open>The loop leaves the block of the second string for a pattern that has a question mark behind its length.\<close>

lemma silc_string_compare_beyond: "silc_string_compare (Some [0x61, 0x3f, 0x2a]) (Some [0x61]) = None"
  by (simp add: silc_string_compare_def compare_loop.simps c_strncmp_def c_at_def)

text \<open>The block of the regular expression has room for it and its NUL.\<close>

lemma length_regexify_loop: "length (regexify_loop len i s) \<le> length s + regexify_count s"
  by (induction len i s rule: regexify_loop.induct) auto

lemma silc_string_regexify_fits:
  "silc_string_regexify s = Some (regex, n) \<Longrightarrow> length regex < n"
  using length_regexify_loop by (auto simp: silc_string_regexify_def silc_calloc_def less_Suc_eq_le split: option.splits if_splits)

text \<open>\<open>silc_strncat\<close> stays inside its block and leaves a string there.\<close>

lemma takeWhile_terminated: "0 \<in> set d \<Longrightarrow> length (takeWhile (\<lambda>c. c \<noteq> (0 :: byte)) d) < length d"
  by (induction d) auto

lemma silc_strncat_terminated:
  assumes "dest \<noteq> []"
  shows "length (silc_strncat dest src src_len) = length dest \<and> 0 \<in> set (silc_strncat dest src src_len)"
proof -
  define d where "d = dest[length dest - 1 := 0]"
  define s where "s = takeWhile (\<lambda>c. c \<noteq> 0) d"
  define room where "room = length d - 1 - length s"
  define t where "t = (if room < src_len then take room (takeWhile (\<lambda>c. c \<noteq> 0) src) else take src_len (takeWhile (\<lambda>c. c \<noteq> 0) src))"
  have "d ! (length d - 1) = 0" "length d = length dest"
    using assms by (simp_all add: d_def)
  then have "0 \<in> set d"
    using assms nth_mem [of "length d - 1" d] by (simp add: d_def)
  then have "length s < length d"
    unfolding s_def by (rule takeWhile_terminated)
  then have "length s + length (t @ [0]) \<le> length d"
    by (auto simp: t_def room_def)
  then have "length (memcpy d (length s) (t @ [0])) = length d" "0 \<in> set (memcpy d (length s) (t @ [0]))"
    by (simp_all add: memcpy_def)
  moreover have "silc_strncat dest src src_len = memcpy d (length s) (t @ [0])"
    by (simp add: silc_strncat_def Let_def d_def s_def t_def room_def)
  ultimately show ?thesis
    by (simp add: d_def)
qed

end
