(* ===== verification/Silc_Connauth.thy ===== *)
theory Silc_Connauth
  imports Silc_Fsm_Steps Silc_Auth Silc_Packet
begin

text \<open>
  \<open>lib/silcske/silcconnauth.c\<close>: connection authentication, the protocol that follows the key exchange, with its
  initiator and responder as state machines of \<open>silcfsm.c\<close>. The library \<open>Silc_Fsm\<close> keeps the machine, so that starting,
  continuing and finishing it are the library's functions; the formats are those of \<open>silcbuffmt.c\<close>. Public key
  operations are the functions of the key records.
\<close>

section \<open>The context\<close>

text \<open>
  The fields of the key exchange context that the protocol reads, the caller's \<open>auth_data\<close>, which is a
  passphrase or a private key, and the pointer to the packet that was received last.
\<close>

record connauth_ske =
  sk_hash :: bytes
  sk_start_payload_copy :: silc_buffer
  sk_public_key :: "silc_public_key option"

datatype auth_ptr = Auth_null | Auth_bytes bytes | Auth_private_key silc_private_key

datatype packet_ptr = Pkt_null | Pkt silc_packet | Pkt_freed

definition SILC_PACKET_CONNECTION_AUTH :: byte where "SILC_PACKET_CONNECTION_AUTH = 17"

definition SILC_CONN_CLIENT :: u16 where "SILC_CONN_CLIENT = 1"
definition SILC_CONN_ROUTER :: u16 where "SILC_CONN_ROUTER = 3"

definition SILC_AUTH_OK :: u32 where "SILC_AUTH_OK = 0"
definition SILC_AUTH_FAILED :: u32 where "SILC_AUTH_FAILED = 1"

text \<open>
  The context with what the functions it calls keep for it: the state machine (number 0 of its world),
  the timeout task, the packet types it is linked for, and in their order the packets received and
  sent, and the values the completion callback was called with.
\<close>

record silc_connauth =
  ca_ske :: connauth_ske
  ca_fsm :: fsm_world
  ca_conn_type :: u16
  ca_auth_method :: u16
  ca_auth_data :: auth_ptr
  ca_public_keys :: "silc_public_key list option"
  ca_timeout_secs :: nat
  ca_packet :: packet_ptr
  ca_aborted :: bool
  ca_success :: bool
  ca_timer :: bool
  ca_linked :: "byte list"
  ca_received :: "silc_packet list"
  ca_freed :: nat
  ca_sent :: "(byte \<times> byte \<times> bytes) list"
  ca_completed :: "bool list"

text \<open>
  What one turn of the machine meets outside: uninitialised memory, whether \<open>silc_packet_send\<close> of a
  packet type succeeds, what the application's \<open>get_auth_data\<close> returns for a connection type, that is, a
  passphrase and a key repository. A repository is the function that finds the keys for the search
  constraints of the protocol; \<open>silc_skr_find\<close> calls back before it returns.
\<close>

type_synonym silc_skr = "silc_public_key \<Rightarrow> silc_public_key list option"

record connauth_env =
  ce_junk :: junk
  ce_send :: "byte \<Rightarrow> bool"
  ce_get_auth_data :: "u16 \<Rightarrow> (bytes option \<times> silc_skr option) option"

section \<open>Utility functions\<close>

definition ca_next :: "nat \<Rightarrow> silc_connauth \<Rightarrow> silc_connauth" where
  "ca_next st ca = ca\<lparr>ca_fsm := silc_fsm_next 0 st (ca_fsm ca)\<rparr>"

definition ca_goto :: "nat \<Rightarrow> silc_connauth \<Rightarrow> (silc_connauth \<times> silc_fsm_status) option" where
  "ca_goto st ca = Some (ca_next st ca, SILC_FSM_ST_CONTINUE)"

definition ca_packet_free :: "silc_connauth \<Rightarrow> silc_connauth" where
  "ca_packet_free ca = ca\<lparr>ca_packet := Pkt_freed, ca_freed := ca_freed ca + 1\<rparr>"

definition ca_send :: "connauth_env \<Rightarrow> byte \<Rightarrow> byte \<Rightarrow> bytes \<Rightarrow> silc_connauth \<Rightarrow> bool \<times> silc_connauth" where
  "ca_send E type flags data ca =
     (if ce_send E type then (True, ca\<lparr>ca_sent := ca_sent ca @ [(type, flags, data)]\<rparr>) else (False, ca))"

text \<open>\<open>silc_packet_stream_unlink\<close> and \<open>silc_schedule_task_del_by_context\<close>, and the completion callback.\<close>

definition ca_leave :: "silc_connauth \<Rightarrow> silc_connauth" where
  "ca_leave ca = ca\<lparr>ca_linked := [], ca_timer := False\<rparr>"

definition ca_complete :: "bool \<Rightarrow> silc_connauth \<Rightarrow> silc_connauth" where
  "ca_complete success ca = ca\<lparr>ca_completed := ca_completed ca @ [success]\<rparr>"

definition silc_connauth_packet_receive :: "silc_packet \<Rightarrow> silc_connauth \<Rightarrow> silc_connauth" where
  "silc_connauth_packet_receive packet ca =
     ca\<lparr>ca_packet := Pkt packet, ca_received := ca_received ca @ [packet], ca_fsm := silc_fsm_continue 0 (ca_fsm ca)\<rparr>"

definition silc_connauth_abort :: "silc_connauth \<Rightarrow> silc_connauth" where
  "silc_connauth_abort ca = ca\<lparr>ca_aborted := True\<rparr>"

text \<open>The data that is signed, HASH and the start payload.\<close>

definition connauth_sign_data :: "connauth_env \<Rightarrow> connauth_ske \<Rightarrow> silc_buffer option" where
  "connauth_sign_data E ske =
     alloc_format (ce_junk E) (length (sk_hash ske) + silc_buffer_len (sk_start_payload_copy ske))
       [FMT_NSTRING (Some (sk_hash ske)) (length (sk_hash ske)),
        FMT_NSTRING (Some (sb_bytes (sk_start_payload_copy ske))) (silc_buffer_len (sk_start_payload_copy ske))]"

definition silc_connauth_get_signature :: "connauth_env \<Rightarrow> silc_connauth \<Rightarrow> silc_private_key \<Rightarrow> bytes option" where
  "silc_connauth_get_signature E ca private_key =
     (case connauth_sign_data E (ca_ske ca) of
        None \<Rightarrow> None
      | Some auth \<Rightarrow>
          (case silc_calloc ((prk_len private_key + 7) div 8 + 1) 1 of
             None \<Rightarrow> None
           | Some _ \<Rightarrow> prk_sign private_key (sb_bytes auth)))"

definition silc_connauth_verify_signature :: "connauth_env \<Rightarrow> silc_connauth \<Rightarrow> silc_public_key \<Rightarrow> auth_ptr \<Rightarrow> bool" where
  "silc_connauth_verify_signature E ca pub_key sign =
     (case sign of
        Auth_bytes sign \<Rightarrow>
          (case connauth_sign_data E (ca_ske ca) of
             None \<Rightarrow> False
           | Some auth \<Rightarrow> puk_verify pub_key sign (sb_bytes auth))
      | _ \<Rightarrow> False)"

section \<open>Initiator\<close>

text \<open>
  The states, by their numbers. A state function returns the status; \<open>None\<close> is the use of a packet that is
  not there or was freed, of an empty list of keys, or of a pointer that is not what \<open>auth_method\<close> says.
\<close>

abbreviation (input) st_initiator_start :: nat where "st_initiator_start \<equiv> 0"
abbreviation (input) st_initiator_result :: nat where "st_initiator_result \<equiv> 1"
abbreviation (input) st_initiator_failure :: nat where "st_initiator_failure \<equiv> 2"
abbreviation (input) st_responder_start :: nat where "st_responder_start \<equiv> 3"
abbreviation (input) st_responder_authenticate :: nat where "st_responder_authenticate \<equiv> 4"
abbreviation (input) st_responder_authenticate_pk :: nat where "st_responder_authenticate_pk \<equiv> 5"
abbreviation (input) st_responder_success :: nat where "st_responder_success \<equiv> 6"
abbreviation (input) st_responder_failure :: nat where "st_responder_failure \<equiv> 7"

text \<open>The \<open>switch\<close> over the method: \<open>Some None\<close> is an error, otherwise the data and the packet flags.\<close>

definition initiator_auth_data :: "connauth_env \<Rightarrow> silc_connauth \<Rightarrow> (bytes option \<times> byte) option option" where
  "initiator_auth_data E ca =
     (if ca_auth_method ca = SILC_AUTH_PASSWORD then
        (case ca_auth_data ca of
           Auth_bytes d \<Rightarrow> Some (map_option (\<lambda>d. (Some d, SILC_PACKET_FLAG_LONG_PAD)) (silc_memdup d))
         | _ \<Rightarrow> None)
      else if ca_auth_method ca = SILC_AUTH_PUBLIC_KEY then
        (case ca_auth_data ca of
           Auth_private_key k \<Rightarrow> Some (map_option (\<lambda>d. (Some d, 0)) (silc_connauth_get_signature E ca k))
         | _ \<Rightarrow> None)
      else Some (Some (None, 0)))"

definition start_timeout :: "silc_connauth \<Rightarrow> silc_connauth" where
  "start_timeout ca = (if ca_timeout_secs ca \<noteq> 0 then ca\<lparr>ca_timer := True\<rparr> else ca)"

definition silc_connauth_st_initiator_start :: "connauth_env \<Rightarrow> silc_connauth \<Rightarrow> (silc_connauth \<times> silc_fsm_status) option" where
  "silc_connauth_st_initiator_start E ca =
     (if ca_aborted ca then ca_goto st_initiator_failure ca
      else
        (let ca = start_timeout ca
         in case initiator_auth_data E ca of
              None \<Rightarrow> None
            | Some None \<Rightarrow> ca_goto st_initiator_failure ca
            | Some (Some (auth_data, flags)) \<Rightarrow>
                (let auth_data_len = length (opt_bytes auth_data); payload_len = 4 + auth_data_len
                 in case alloc_format (ce_junk E) payload_len
                           [FMT_SHORT (of_nat payload_len), FMT_SHORT (ca_conn_type ca), FMT_NSTRING auth_data auth_data_len] of
                      None \<Rightarrow> ca_goto st_initiator_failure ca
                    | Some packet \<Rightarrow>
                        (let (ok, ca) = ca_send E SILC_PACKET_CONNECTION_AUTH flags (sb_bytes packet) ca
                         in if \<not> ok then ca_goto st_initiator_failure ca
                            else Some (ca_next st_initiator_result ca, SILC_FSM_ST_WAIT)))))"

definition silc_connauth_st_initiator_result :: "connauth_env \<Rightarrow> silc_connauth \<Rightarrow> (silc_connauth \<times> silc_fsm_status) option" where
  "silc_connauth_st_initiator_result E ca =
     (if ca_aborted ca then ca_goto st_initiator_failure ca
      else
        (case ca_packet ca of
           Pkt packet \<Rightarrow>
             (let ca = ca_packet_free (ca\<lparr>ca_success := (pk_type packet = SILC_PACKET_SUCCESS)\<rparr>)
              in Some (ca_complete (ca_success ca) (ca_leave ca), SILC_FSM_ST_FINISH))
         | _ \<Rightarrow> None))"

definition silc_connauth_st_initiator_failure :: "connauth_env \<Rightarrow> silc_connauth \<Rightarrow> (silc_connauth \<times> silc_fsm_status) option" where
  "silc_connauth_st_initiator_failure E ca =
     (if \<not> ca_aborted ca then
        (let (_, ca) = ca_send E SILC_PACKET_FAILURE 0 (SILC_PUT32_MSB SILC_AUTH_FAILED) ca
         in Some (ca_complete False (ca_leave ca), SILC_FSM_ST_FINISH))
      else Some (ca_leave ca, SILC_FSM_ST_FINISH))"

definition silc_connauth_start :: "nat \<Rightarrow> byte list \<Rightarrow> silc_connauth \<Rightarrow> silc_connauth" where
  "silc_connauth_start st types ca = ca\<lparr>ca_linked := types, ca_fsm := silc_fsm_start 0 st (ca_fsm ca)\<rparr>"

text \<open>The result tells whether the operation was started.\<close>

definition silc_connauth_initiator :: "u16 \<Rightarrow> u16 \<Rightarrow> auth_ptr \<Rightarrow> silc_connauth \<Rightarrow> bool \<times> silc_connauth" where
  "silc_connauth_initiator conn_type auth_method auth_data ca =
     (if auth_method = SILC_AUTH_PASSWORD \<and> auth_data = Auth_null then (False, ca_complete False ca)
      else if auth_method = SILC_AUTH_PUBLIC_KEY \<and> auth_data = Auth_null then (False, ca_complete False ca)
      else
        (True, silc_connauth_start st_initiator_start [SILC_PACKET_SUCCESS, SILC_PACKET_FAILURE]
                 (ca\<lparr>ca_conn_type := conn_type, ca_auth_method := auth_method, ca_auth_data := auth_data\<rparr>)))"

section \<open>Responder\<close>

definition silc_connauth_st_responder_start :: "connauth_env \<Rightarrow> silc_connauth \<Rightarrow> (silc_connauth \<times> silc_fsm_status) option" where
  "silc_connauth_st_responder_start E ca =
     (if ca_aborted ca then ca_goto st_responder_failure ca
      else Some (ca_next st_responder_authenticate (start_timeout ca), SILC_FSM_ST_WAIT))"

text \<open>
  The rest of the state behind the parsing. \<open>auth_data\<close> points into the packet, which is already freed;
  its bytes are still there as long as the pool does not give the packet out again.
\<close>

definition connauth_verify :: "connauth_env \<Rightarrow> silc_connauth \<Rightarrow> u16 \<Rightarrow> bytes option \<Rightarrow> (silc_connauth \<times> silc_fsm_status) option" where
  "connauth_verify E ca conn_type auth_data =
     (let ca = ca_packet_free ca
      in case ce_get_auth_data E conn_type of
           None \<Rightarrow> ca_goto st_responder_failure ca
         | Some (passphrase, repository) \<Rightarrow>
             if passphrase \<noteq> None \<and> length (the passphrase) \<noteq> 0 then
               (if auth_data = None \<or> length (the auth_data) \<noteq> length (the passphrase) \<or> the auth_data \<noteq> the passphrase
                then ca_goto st_responder_failure ca
                else ca_goto st_responder_success ca)
             else
               (case repository of
                  None \<Rightarrow> ca_goto st_responder_success ca
                | Some skr \<Rightarrow>
                    (case auth_data of
                       None \<Rightarrow> ca_goto st_responder_failure ca
                     | Some d \<Rightarrow>
                         (let ca = ca\<lparr>ca_auth_data := (case silc_memdup d of None \<Rightarrow> Auth_null | Some d \<Rightarrow> Auth_bytes d)\<rparr>
                          in if ca_auth_data ca = Auth_null \<or> sk_public_key (ca_ske ca) = None then ca_goto st_responder_failure ca
                             else ca_goto st_responder_authenticate_pk
                                    (ca\<lparr>ca_public_keys := skr (the (sk_public_key (ca_ske ca)))\<rparr>)))))"

definition silc_connauth_st_responder_authenticate :: "connauth_env \<Rightarrow> silc_connauth \<Rightarrow> (silc_connauth \<times> silc_fsm_status) option" where
  "silc_connauth_st_responder_authenticate E ca =
     (if ca_aborted ca then
        (case ca_packet ca of
           Pkt_null \<Rightarrow> ca_goto st_responder_failure ca
         | Pkt _ \<Rightarrow> ca_goto st_responder_failure (ca_packet_free ca)
         | Pkt_freed \<Rightarrow> None)
      else
        (case ca_packet ca of
           Pkt packet \<Rightarrow>
             (let failed = ca_goto st_responder_failure (ca_packet_free ca)
              in if pk_type packet \<noteq> SILC_PACKET_CONNECTION_AUTH then failed
                 else
                   with_unformat (pk_buffer packet) [UNF_UI16_SHORT, UNF_UI16_SHORT] failed (\<lambda>buffer vs.
                     case vs of
                       [V16 payload_len, V16 conn_type] \<Rightarrow>
                         if unat payload_len \<noteq> silc_buffer_len buffer then failed
                         else
                           (let payload_len = payload_len - 4
                            in if conn_type < SILC_CONN_CLIENT \<or> SILC_CONN_ROUTER < conn_type then failed
                               else if 0 < payload_len then
                                 with_unformat buffer [UNF_OFFSET 4, UNF_DATA (unat payload_len)] failed (\<lambda>_ vs.
                                   case vs of [VPtr auth_data] \<Rightarrow> connauth_verify E ca conn_type auth_data | _ \<Rightarrow> failed)
                               else connauth_verify E ca conn_type None)
                     | _ \<Rightarrow> failed))
         | _ \<Rightarrow> None))"

definition silc_connauth_st_responder_authenticate_pk :: "connauth_env \<Rightarrow> silc_connauth \<Rightarrow> (silc_connauth \<times> silc_fsm_status) option" where
  "silc_connauth_st_responder_authenticate_pk E ca =
     (if ca_aborted ca then ca_goto st_responder_failure ca
      else
        (case ca_public_keys ca of
           None \<Rightarrow> ca_goto st_responder_failure ca
         | Some [] \<Rightarrow> None
         | Some (key # _) \<Rightarrow>
             if \<not> silc_connauth_verify_signature E ca key (ca_auth_data ca) then ca_goto st_responder_failure ca
             else ca_goto st_responder_success ca))"

definition silc_connauth_st_responder_success :: "connauth_env \<Rightarrow> silc_connauth \<Rightarrow> (silc_connauth \<times> silc_fsm_status) option" where
  "silc_connauth_st_responder_success E ca =
     (let (_, ca) = ca_send E SILC_PACKET_SUCCESS 0 (SILC_PUT32_MSB SILC_AUTH_OK) ca
      in Some (ca_complete True (ca_leave ca), SILC_FSM_ST_FINISH))"

definition silc_connauth_st_responder_failure :: "connauth_env \<Rightarrow> silc_connauth \<Rightarrow> (silc_connauth \<times> silc_fsm_status) option" where
  "silc_connauth_st_responder_failure E ca =
     (if \<not> ca_aborted ca then
        (let (_, ca) = ca_send E SILC_PACKET_FAILURE 0 (SILC_PUT32_MSB SILC_AUTH_FAILED) ca
         in Some (ca_complete False (ca_leave ca), SILC_FSM_ST_FINISH))
      else Some (ca_leave ca, SILC_FSM_ST_FINISH))"

definition silc_connauth_responder :: "silc_connauth \<Rightarrow> silc_connauth" where
  "silc_connauth_responder ca =
     silc_connauth_start st_responder_start [SILC_PACKET_CONNECTION_AUTH, SILC_PACKET_FAILURE] ca"

definition silc_connauth_alloc :: "bool \<Rightarrow> connauth_ske option \<Rightarrow> nat \<Rightarrow> silc_connauth option" where
  "silc_connauth_alloc schedule ske timeout_secs =
     (case ske of
        None \<Rightarrow> None
      | Some ske \<Rightarrow>
          if \<not> schedule then None
          else
            Some \<lparr>ca_ske = ske, ca_fsm = snd (silc_fsm_init 0 schedule fsm_idle_world), ca_conn_type = 0, ca_auth_method = 0,
                  ca_auth_data = Auth_null, ca_public_keys = None, ca_timeout_secs = timeout_secs, ca_packet = Pkt_null,
                  ca_aborted = False, ca_success = False, ca_timer = False, ca_linked = [], ca_received = [], ca_freed = 0,
                  ca_sent = [], ca_completed = []\<rparr>)"

section \<open>The turns of the machine\<close>

text \<open>The state function that \<open>silc_fsm_run\<close> calls; without a next state it would call \<open>NULL\<close>.\<close>

definition connauth_state :: "silc_connauth \<Rightarrow> nat option" where
  "connauth_state ca = fs_next_state (fw_fsm (ca_fsm ca) 0)"

definition connauth_call :: "connauth_env \<Rightarrow> silc_connauth \<Rightarrow> (silc_connauth \<times> silc_fsm_status) option" where
  "connauth_call E ca =
     (case connauth_state ca of
        None \<Rightarrow> None
      | Some st \<Rightarrow>
          if st = st_initiator_start then silc_connauth_st_initiator_start E ca
          else if st = st_initiator_result then silc_connauth_st_initiator_result E ca
          else if st = st_initiator_failure then silc_connauth_st_initiator_failure E ca
          else if st = st_responder_start then silc_connauth_st_responder_start E ca
          else if st = st_responder_authenticate then silc_connauth_st_responder_authenticate E ca
          else if st = st_responder_authenticate_pk then silc_connauth_st_responder_authenticate_pk E ca
          else if st = st_responder_success then silc_connauth_st_responder_success E ca
          else if st = st_responder_failure then silc_connauth_st_responder_failure E ca
          else None)"

text \<open>A state that is continued from comes strictly before the one it continues with.\<close>

definition connauth_rank :: "silc_connauth \<Rightarrow> nat" where
  "connauth_rank ca =
     (if connauth_state ca = Some st_responder_authenticate then 2
      else if connauth_state ca \<in> {Some st_initiator_start, Some st_initiator_result, Some st_responder_start,
                Some st_responder_authenticate_pk} then 1
      else 0)"

lemma state_next [simp]: "connauth_state (ca_next st ca) = Some st"
  by (simp add: connauth_state_def ca_next_def silc_fsm_next_def upd_fsm_def)

lemma goto_Some [simp]: "ca_goto st ca = Some (ca', s) \<longleftrightarrow> s = SILC_FSM_ST_CONTINUE \<and> ca' = ca_next st ca"
  by (auto simp: ca_goto_def)

lemmas connauth_states =
  silc_connauth_st_initiator_start_def silc_connauth_st_initiator_result_def silc_connauth_st_initiator_failure_def
  silc_connauth_st_responder_start_def silc_connauth_st_responder_authenticate_pk_def
  silc_connauth_st_responder_success_def silc_connauth_st_responder_failure_def

lemma verify_rank: "connauth_verify E ca ct d = Some (ca', s) \<Longrightarrow> connauth_rank ca' < 2"
  by (auto simp: connauth_verify_def Let_def connauth_rank_def split: option.splits if_splits prod.splits)

lemma authenticate_rank: "silc_connauth_st_responder_authenticate E ca = Some (ca', s) \<Longrightarrow> connauth_rank ca' < 2"
  by (auto simp: silc_connauth_st_responder_authenticate_def Let_def with_unformat_def connauth_rank_def [of "ca_next st_responder_failure ca" for ca]
      dest: verify_rank split: packet_ptr.splits if_splits prod.splits list.splits unf_val.splits)

lemma call_rank:
  assumes "connauth_call E ca = Some (ca', SILC_FSM_ST_CONTINUE)"
  shows "connauth_rank ca' < connauth_rank ca"
proof (cases "connauth_state ca = Some st_responder_authenticate")
  case True
  then show ?thesis using assms authenticate_rank by (auto simp: connauth_call_def connauth_rank_def [of ca])
next
  case False
  then show ?thesis using assms
    by (auto simp: connauth_call_def connauth_states connauth_rank_def Let_def split: option.splits if_splits prod.splits list.splits packet_ptr.splits)
qed

function connauth_run :: "connauth_env \<Rightarrow> silc_connauth \<Rightarrow> silc_connauth option" where
  "connauth_run E ca =
     (case connauth_call E ca of
        None \<Rightarrow> None
      | Some (ca', status) \<Rightarrow>
          if status = SILC_FSM_ST_CONTINUE then connauth_run E ca'
          else Some (ca'\<lparr>ca_fsm := run_return status (ca_fsm ca')\<rparr>))"
  by pat_completeness auto
termination
  by (relation "measure (\<lambda>(E, ca). connauth_rank ca)") (auto intro: call_rank)

declare connauth_run.simps [simp del]

definition silc_connauth_run_task :: "connauth_env \<Rightarrow> silc_connauth \<Rightarrow> silc_connauth option" where
  "silc_connauth_run_task E ca = connauth_run E (ca\<lparr>ca_fsm := silc_fsm_run 0 None (taken (Task_run 0) (ca_fsm ca))\<rparr>)"

definition silc_connauth_finish_task :: "silc_connauth \<Rightarrow> silc_connauth" where
  "silc_connauth_finish_task ca = ca\<lparr>ca_fsm := silc_fsm_finish_fsm 0 (taken (Task_finish 0) (ca_fsm ca))\<rparr>"

definition silc_connauth_timeout :: "connauth_env \<Rightarrow> silc_connauth \<Rightarrow> silc_connauth option" where
  "silc_connauth_timeout E ca =
     connauth_run E (ca\<lparr>ca_timer := False, ca_aborted := True, ca_fsm := silc_fsm_continue_sync 0 None (ca_fsm ca)\<rparr>)"

end
