(* ===== verification/Silc_Fsm_Client.thy ===== *)
theory Silc_Fsm_Client
  imports Silc_Fsm_Steps
begin

text \<open>
  What the users of \<open>silcfsm.c\<close> with one machine rely on: where the machine number 0 of its world stands, and how starting,
  continuing, running and finishing it change that.
\<close>

section \<open>The machine in the library\<close>

text \<open>
  Where the machine is: held before state \<open>s\<close> with \<open>n\<close> turns to come, in its turn, or ended, when only the
  task that destroys it is left.
\<close>

definition fsm_lone :: "fsm_world \<Rightarrow> bool" where
  "fsm_lone w \<longleftrightarrow> fw_rewait w = None \<and> fw_event w = (\<lambda>_. None) \<and> \<not> fw_aborted w \<and> \<not> fs_thread (fw_fsm w 0) \<and>
     fs_threads (fw_fsm w 0) = 0 \<and> \<not> fs_next_later (fw_fsm w 0)"

definition fsm_stands :: "fsm_world \<Rightarrow> (nat \<times> nat option) list \<Rightarrow> nat \<Rightarrow> nat \<Rightarrow> bool" where
  "fsm_stands w stack s n \<longleftrightarrow> fsm_lone w \<and> \<not> fs_finished (fw_fsm w 0) \<and> \<not> fs_synchronous (fw_fsm w 0) \<and>
     fs_next_state (fw_fsm w 0) = Some s \<and> fw_tasks w = replicate n (Task_run 0) \<and> fw_stack w = stack \<and> fw_destroyed w = []"

abbreviation fsm_at :: "fsm_world \<Rightarrow> nat \<Rightarrow> nat \<Rightarrow> bool" where
  "fsm_at w \<equiv> fsm_stands w []"

abbreviation fsm_in :: "fsm_world \<Rightarrow> nat \<Rightarrow> nat \<Rightarrow> bool" where
  "fsm_in w \<equiv> fsm_stands w [(0, None)]"

definition fsm_ended :: "fsm_world \<Rightarrow> bool \<Rightarrow> bool" where
  "fsm_ended w destroyed \<longleftrightarrow> fsm_lone w \<and> fs_finished (fw_fsm w 0) \<and> fw_stack w = [] \<and>
     fw_tasks w = (if destroyed then [] else [Task_finish 0]) \<and> fw_destroyed w = (if destroyed then [0] else [])"

lemmas fsm_stands_defs = fsm_stands_def fsm_lone_def fsm_ended_def

lemma replicate_snoc: "replicate n x @ [x] = replicate (Suc n) x"
  by (simp add: replicate_append_same)

lemma at_start: "silc_fsm_start 0 s (snd (silc_fsm_init 0 True fsm_idle_world)) = w \<Longrightarrow> fsm_at w s 1"
  by (auto simp: silc_fsm_start_def silc_fsm_init_def fsm_idle_world_def fsm_stands_defs started_in_def upd_fsm_def task_add_def)

lemma at_continue: "fsm_at w s n \<Longrightarrow> fsm_at (silc_fsm_continue 0 w) s (Suc n)"
  by (simp add: silc_fsm_continue_def cancel_later_def fsm_stands_defs task_add_def replicate_snoc del: replicate_Suc)

lemma at_run: "fsm_at w s (Suc n) \<Longrightarrow> fsm_in (silc_fsm_run 0 None (taken (Task_run 0) w)) s n"
  by (simp add: silc_fsm_run_def taken_def fsm_stands_defs)

lemma at_continue_sync: "fsm_at w s n \<Longrightarrow> fsm_in (silc_fsm_continue_sync 0 None w) s n"
  by (simp add: silc_fsm_continue_sync_def silc_fsm_run_def cancel_later_def fsm_stands_defs)

lemma in_next: "fsm_in w s n \<Longrightarrow> fsm_in (silc_fsm_next 0 t w) t n"
  by (simp add: silc_fsm_next_def upd_fsm_def fsm_stands_defs)

lemma in_wait: "fsm_in w s n \<Longrightarrow> fsm_at (run_return SILC_FSM_ST_WAIT w) s n"
  by (simp add: run_return_def upd_fsm_def fsm_stands_defs)

lemma in_finish: "fsm_in w s n \<Longrightarrow> fsm_ended (run_return SILC_FSM_ST_FINISH w) False"
  by (simp add: run_return_def silc_fsm_finish_def upd_fsm_def fsm_stands_defs task_add_def task_del_def)

lemma ended_finish: "fsm_ended w False \<Longrightarrow> fsm_ended (silc_fsm_finish_fsm 0 (taken (Task_finish 0) w)) True"
  by (simp add: silc_fsm_finish_fsm_def taken_def upd_fsm_def fsm_stands_defs)

end
