(* ===== verification/Silc_Connauth_Turns.thy ===== *)
theory Silc_Connauth_Turns
  imports Silc_Connauth Silc_Fsm_Client
begin

text \<open>
  Connection authentication: what the machine does in one turn, for every state and every packet; which packets the
  responder accepts, as a condition on their bytes and the configuration.
\<close>

section \<open>The machine in the library\<close>

lemma stands_state: "fsm_stands (ca_fsm ca) st s n \<Longrightarrow> connauth_state ca = Some s"
  by (simp add: fsm_stands_defs connauth_state_def)

section \<open>What the responder accepts\<close>

definition connauth_payload :: "u16 \<Rightarrow> bytes \<Rightarrow> bytes" where
  "connauth_payload ct d = SILC_PUT16_MSB (of_nat (4 + length d)) @ SILC_PUT16_MSB ct @ d"

definition connauth_signed :: "connauth_ske \<Rightarrow> bytes" where
  "connauth_signed ske = sk_hash ske @ sb_bytes (sk_start_payload_copy ske)"

definition connauth_authorized :: "connauth_env \<Rightarrow> connauth_ske \<Rightarrow> u16 \<Rightarrow> bytes \<Rightarrow> bool" where
  "connauth_authorized E ske ct d =
     (case ce_get_auth_data E ct of
        None \<Rightarrow> False
      | Some (passphrase, repository) \<Rightarrow>
          if opt_bytes passphrase \<noteq> [] then d = opt_bytes passphrase
          else
            (case repository of
               None \<Rightarrow> True
             | Some skr \<Rightarrow>
                 d \<noteq> [] \<and>
                 (case sk_public_key ske of
                    None \<Rightarrow> False
                  | Some pk \<Rightarrow> (case skr pk of Some (k # _) \<Rightarrow> puk_verify k d (connauth_signed ske) | _ \<Rightarrow> False))))"

definition connauth_accepts :: "connauth_env \<Rightarrow> connauth_ske \<Rightarrow> silc_packet \<Rightarrow> bool" where
  "connauth_accepts E ske p \<longleftrightarrow>
     pk_type p = SILC_PACKET_CONNECTION_AUTH \<and>
     (\<exists>ct d. sb_bytes (pk_buffer p) = connauth_payload ct d \<and> length d < 65532 \<and> SILC_CONN_CLIENT \<le> ct \<and> ct \<le> SILC_CONN_ROUTER \<and>
        connauth_authorized E ske ct d)"

definition ske_ok :: "connauth_ske \<Rightarrow> bool" where
  "ske_ok ske \<longleftrightarrow> wf_buffer (sk_start_payload_copy ske) \<and> length (connauth_signed ske) < SILC_MAX_ALLOC"

definition env_ok :: "connauth_env \<Rightarrow> bool" where
  "env_ok E \<longleftrightarrow> (\<forall>ct p skr k. ce_get_auth_data E ct = Some (p, Some skr) \<longrightarrow> skr k \<noteq> Some [])"

lemma sign_data:
  assumes "ske_ok ske"
  shows "connauth_sign_data E ske = Some (silc_buffer_set (connauth_signed ske))"
proof -
  have l: "silc_buffer_len (sk_start_payload_copy ske) = length (sb_bytes (sk_start_payload_copy ske))"
    using assms by (simp add: ske_ok_def length_sb_bytes)
  show ?thesis unfolding connauth_sign_data_def l
    using assms by (subst alloc_format_exact) (auto simp: ske_ok_def connauth_signed_def opt_bytes_def max_alloc_less_u32)
qed

section \<open>One turn in each state\<close>

lemma with_unformat_offset:
  assumes wf: "wf_buffer sb" and n: "1 < n" "n < 65536" "n \<le> silc_buffer_len sb" and ps: "list_all unf_plain ps"
  shows "with_unformat sb (UNF_OFFSET (int n) # ps) err k =
    (case parse_all ps (drop n (sb_bytes sb)) of None \<Rightarrow> err | Some (vs, r) \<Rightarrow> k sb vs)"
proof -
  have "step_agrees sb (unformat_step (UNF_OFFSET (int n)) sb) (skip_step (UNF_OFFSET (int n)) (sb_bytes sb))"
    using n by (intro skip_step_agrees wf) simp
  moreover have "skip_step (UNF_OFFSET (int n)) (sb_bytes sb) = Some ([], drop n (sb_bytes sb))"
    using n wf by (simp add: rd_def length_sb_bytes u32_max_def)
  ultimately obtain j where j: "j \<le> silc_buffer_len sb" "unformat_step (UNF_OFFSET (int n)) sb = Inr (adv sb j, [])"
    "sb_bytes (adv sb j) = drop n (sb_bytes sb)"
    by (auto simp: step_agrees_def)
  from unformat_loop [OF wf ps j(1), of "[]"] obtain ws where
    "silc_buffer_sunformat_vp (sb_data sb) ps False (adv sb j, []) =
      (sb, case parse_all ps (drop n (sb_bytes sb)) of
             None \<Rightarrow> (-1, ws) | Some (us, r) \<Rightarrow> (int (silc_buffer_len sb) - int (length r), us))"
    unfolding append_Nil j(3) by blast
  then have u: "silc_buffer_unformat sb (UNF_OFFSET (int n) # ps) =
      (sb, case parse_all ps (drop n (sb_bytes sb)) of
             None \<Rightarrow> (-1, ws) | Some (us, r) \<Rightarrow> (int (silc_buffer_len sb) - int (length r), us))"
    using j by (simp add: silc_buffer_unformat_def)
  show ?thesis
  proof (cases "parse_all ps (drop n (sb_bytes sb))")
    case None
    then show ?thesis by (simp add: with_unformat_def u)
  next
    case (Some vr)
    then obtain vs r where vr: "parse_all ps (drop n (sb_bytes sb)) = Some (vs, r)" by (cases vr) auto
    have "length r \<le> silc_buffer_len sb" using parse_all_rest [OF vr] wf by (simp add: length_sb_bytes)
    then have "int (silc_buffer_len sb) - int (length r) \<noteq> -1" by linarith
    then show ?thesis by (simp add: with_unformat_def u vr)
  qed
qed

text \<open>The two calls of the parser in the responder take apart exactly the Connection Auth Payload.\<close>

lemma connauth_header_parse:
  "parse_all [UNF_UI16_SHORT, UNF_UI16_SHORT] bs =
     (if length bs < 4 then None
      else Some ([V16 (SILC_GET16_MSB (take 2 bs)), V16 (SILC_GET16_MSB (take 2 (drop 2 bs)))], drop 4 bs))"
  by (auto simp: rd_def u32_max_def)

lemma of_nat_unat_u16: "of_nat (unat (x :: u16)) = x"
  by simp

lemma payload_parts:
  assumes "4 \<le> length bs" and "unat (SILC_GET16_MSB (take 2 bs)) = length bs"
  shows "bs = connauth_payload (SILC_GET16_MSB (take 2 (drop 2 bs))) (drop 4 bs)" and "length (drop 4 bs) < 65532"
proof -
  have "bs = take 2 bs @ take 2 (drop 2 bs) @ drop 4 bs"
    by (metis append_take_drop_id drop_drop numeral_Bit0)
  moreover have "take 2 bs = SILC_PUT16_MSB (of_nat (4 + length (drop 4 bs)))"
  proof -
    have "SILC_GET16_MSB (take 2 bs) = of_nat (length bs)" using assms(2) by (metis of_nat_unat_u16)
    then show ?thesis using assms(1) two_bytes [of "take 2 bs"] by simp
  qed
  moreover have "take 2 (drop 2 bs) = SILC_PUT16_MSB (SILC_GET16_MSB (take 2 (drop 2 bs)))"
    by (rule two_bytes [symmetric]) (use assms(1) in auto)
  ultimately show "bs = connauth_payload (SILC_GET16_MSB (take 2 (drop 2 bs))) (drop 4 bs)"
    unfolding connauth_payload_def by simp
  show "length (drop 4 bs) < 65532" using assms unsigned_less [where 'a = nat, of "SILC_GET16_MSB (take 2 bs)"] by simp
qed

definition connauth_body :: "silc_packet \<Rightarrow> (u16 \<times> bytes) option" where
  "connauth_body p =
     (let bs = sb_bytes (pk_buffer p)
      in if pk_type p = SILC_PACKET_CONNECTION_AUTH \<and> 4 \<le> length bs \<and> unat (SILC_GET16_MSB (take 2 bs)) = length bs \<and>
            SILC_CONN_CLIENT \<le> SILC_GET16_MSB (take 2 (drop 2 bs)) \<and> SILC_GET16_MSB (take 2 (drop 2 bs)) \<le> SILC_CONN_ROUTER
         then Some (SILC_GET16_MSB (take 2 (drop 2 bs)), drop 4 bs) else None)"

lemma body_Some:
  "connauth_body p = Some (ct, d) \<longleftrightarrow> pk_type p = SILC_PACKET_CONNECTION_AUTH \<and> sb_bytes (pk_buffer p) = connauth_payload ct d \<and>
     length d < 65532 \<and> SILC_CONN_CLIENT \<le> ct \<and> ct \<le> SILC_CONN_ROUTER" (is "?L \<longleftrightarrow> ?R")
proof
  assume ?L
  then have b: "pk_type p = SILC_PACKET_CONNECTION_AUTH" "4 \<le> length (sb_bytes (pk_buffer p))"
    "unat (SILC_GET16_MSB (take 2 (sb_bytes (pk_buffer p)))) = length (sb_bytes (pk_buffer p))" "SILC_CONN_CLIENT \<le> ct" "ct \<le> SILC_CONN_ROUTER"
    "ct = SILC_GET16_MSB (take 2 (drop 2 (sb_bytes (pk_buffer p))))" "d = drop 4 (sb_bytes (pk_buffer p))"
    by (auto simp: connauth_body_def Let_def split: if_splits)
  note payload_parts [OF b(2,3), folded b(6,7)]
  then show ?R using b(1,4,5) by simp
next
  assume ?R
  moreover from this have "unat (of_nat (4 + length d) :: u16) = 4 + length d" by (simp del: of_nat_add)
  ultimately show ?L by (simp add: connauth_body_def connauth_payload_def del: of_nat_add)
qed

lemma accepts_body:
  "connauth_accepts E ske p \<longleftrightarrow> (case connauth_body p of None \<Rightarrow> False | Some (ct, d) \<Rightarrow> connauth_authorized E ske ct d)"
proof -
  have "connauth_accepts E ske p \<longleftrightarrow> (\<exists>ct d. connauth_body p = Some (ct, d) \<and> connauth_authorized E ske ct d)"
    unfolding body_Some connauth_accepts_def by blast
  then show ?thesis by (auto split: option.split)
qed

lemma authenticate_eq:
  assumes wf: "wf_buffer (pk_buffer p)" and "\<not> ca_aborted ca" "ca_packet ca = Pkt p"
  shows "silc_connauth_st_responder_authenticate E ca =
    (case connauth_body p of
       None \<Rightarrow> ca_goto st_responder_failure (ca_packet_free ca)
     | Some (ct, d) \<Rightarrow> connauth_verify E ca ct (if d = [] then None else Some d))"
proof -
  define bs where "bs = sb_bytes (pk_buffer p)"
  have l: "silc_buffer_len (pk_buffer p) = length bs" using wf by (simp add: bs_def length_sb_bytes)
  have u: "length bs < u32_max" using silc_buffer_len_less [of "pk_buffer p"] l by simp
  have hdr: "with_unformat (pk_buffer p) [UNF_UI16_SHORT, UNF_UI16_SHORT] err k =
      (if length bs < 4 then err else k (pk_buffer p) [V16 (SILC_GET16_MSB (take 2 bs)), V16 (SILC_GET16_MSB (take 2 (drop 2 bs)))])" for err k
    using with_unformat_parse [OF wf, of "[UNF_UI16_SHORT, UNF_UI16_SHORT]" err k]
    by (simp add: connauth_header_parse bs_def [symmetric] del: parse_all.simps)
  show ?thesis
  proof (cases "4 \<le> length bs \<and> unat (SILC_GET16_MSB (take 2 bs)) = length bs")
    case False
    then show ?thesis using assms(2,3)
      by (auto simp: silc_connauth_st_responder_authenticate_def Let_def hdr bs_def [symmetric] l connauth_body_def)
  next
    case True
    have u16: "length bs < 65536" using True unsigned_less [where 'a = nat, of "SILC_GET16_MSB (take 2 bs)"] by simp
    then have small: "length bs - 4 < 4294967295" by linarith
    define L :: u16 where "L = SILC_GET16_MSB (take 2 bs) - 4"
    have L: "unat L = length bs - 4"
      using True unat_sub [of 4 "SILC_GET16_MSB (take 2 bs)"] by (simp add: L_def word_le_nat_alt)
    have dat: "with_unformat (pk_buffer p) [UNF_OFFSET 4, UNF_DATA (unat L)] err k = k (pk_buffer p) [VPtr (Some (drop 4 bs))]"
      if "drop 4 bs \<noteq> []" for err k
      using with_unformat_offset [OF wf, of 4 "[UNF_DATA (unat L)]" err k] True u16 L that small
      by (simp add: l bs_def [symmetric] rd_def u32_max_def)
    have z: "0 < L \<longleftrightarrow> drop 4 bs \<noteq> []" using L True by (auto simp: word_less_nat_alt)
    show ?thesis using assms(2,3) True
      by (auto simp: silc_connauth_st_responder_authenticate_def Let_def hdr bs_def [symmetric] l connauth_body_def
          L_def [symmetric] dat z not_less not_le)
  qed
qed

text \<open>How a turn ends the protocol: the values of the completion callback, and the packets sent.\<close>

definition ca_over :: "silc_connauth \<Rightarrow> bool list \<Rightarrow> (byte \<times> byte \<times> bytes) list \<Rightarrow> silc_connauth \<Rightarrow> bool" where
  "ca_over ca cs out r \<longleftrightarrow> fsm_ended (ca_fsm r) False \<and> ca_linked r = [] \<and> \<not> ca_timer r \<and> ca_completed r = ca_completed ca @ cs \<and>
     ca_sent r = ca_sent ca @ out \<and> ca_aborted r = ca_aborted ca \<and> ca_received r = ca_received ca \<and> ca_ske r = ca_ske ca"

definition reply :: "connauth_env \<Rightarrow> byte \<Rightarrow> u32 \<Rightarrow> (byte \<times> byte \<times> bytes) list" where
  "reply E type result = (if ce_send E type then [(type, 0, SILC_PUT32_MSB result)] else [])"

definition failure_reply :: "connauth_env \<Rightarrow> silc_connauth \<Rightarrow> (byte \<times> byte \<times> bytes) list" where
  "failure_reply E ca = (if ca_aborted ca then [] else reply E SILC_PACKET_FAILURE SILC_AUTH_FAILED)"

definition failure_result :: "silc_connauth \<Rightarrow> bool list" where
  "failure_result ca = (if ca_aborted ca then [] else [False])"

named_theorems ca_effects \<open>what the helpers of the states leave as it is\<close>

lemma next_effects [ca_effects]:
  "ca_aborted (ca_next st ca) = ca_aborted ca" "ca_packet (ca_next st ca) = ca_packet ca" "ca_ske (ca_next st ca) = ca_ske ca"
  "ca_public_keys (ca_next st ca) = ca_public_keys ca" "ca_auth_data (ca_next st ca) = ca_auth_data ca"
  "ca_received (ca_next st ca) = ca_received ca" "ca_sent (ca_next st ca) = ca_sent ca" "ca_completed (ca_next st ca) = ca_completed ca"
  "ca_timer (ca_next st ca) = ca_timer ca" "ca_linked (ca_next st ca) = ca_linked ca" "ca_timeout_secs (ca_next st ca) = ca_timeout_secs ca"
  "ca_freed (ca_next st ca) = ca_freed ca" "ca_auth_method (ca_next st ca) = ca_auth_method ca" "ca_conn_type (ca_next st ca) = ca_conn_type ca"
  by (simp_all add: ca_next_def)

lemma fsm_next [ca_effects]: "ca_fsm (ca_next st ca) = silc_fsm_next 0 st (ca_fsm ca)"
  by (simp add: ca_next_def)

lemma over_next [simp]: "ca_over (ca_next st ca) cs out r = ca_over ca cs out r" "failure_reply E (ca_next st ca) = failure_reply E ca"
  "failure_result (ca_next st ca) = failure_result ca"
  by (simp_all add: ca_over_def failure_reply_def failure_result_def ca_effects)

lemma run_success:
  assumes "fsm_in (ca_fsm ca) st_responder_success n"
  shows "\<exists>r. connauth_run E ca = Some r \<and> ca_over ca [True] (reply E SILC_PACKET_SUCCESS SILC_AUTH_OK) r"
  using assms in_finish [OF assms]
  by (subst connauth_run.simps) (auto simp: connauth_call_def stands_state silc_connauth_st_responder_success_def ca_send_def ca_complete_def
      ca_leave_def ca_over_def reply_def)

lemma run_failure:
  assumes "fsm_in (ca_fsm ca) s n" and "s = st_initiator_failure \<or> s = st_responder_failure"
  shows "\<exists>r. connauth_run E ca = Some r \<and> ca_over ca (failure_result ca) (failure_reply E ca) r"
  using assms in_finish [OF assms(1)]
  by (subst connauth_run.simps) (auto simp: connauth_call_def stands_state silc_connauth_st_initiator_failure_def
      silc_connauth_st_responder_failure_def ca_send_def ca_complete_def ca_leave_def ca_over_def reply_def failure_reply_def failure_result_def)

text \<open>A state that continues with another one.\<close>

lemma run_goto:
  assumes "connauth_call E ca = ca_goto st ca'"
  shows "connauth_run E ca = connauth_run E (ca_next st ca')"
  using assms by (subst connauth_run.simps) (simp add: ca_goto_def)

lemma goto_failure:
  assumes "connauth_call E ca = ca_goto st ca'" and "st = st_initiator_failure \<or> st = st_responder_failure" and "fsm_in (ca_fsm ca') s n"
  shows "\<exists>r. connauth_run E ca = Some r \<and> ca_over ca' (failure_result ca') (failure_reply E ca') r"
  using run_failure [of "ca_next st ca'" st n E] assms by (simp add: run_goto [OF assms(1)] ca_effects in_next)

lemma goto_success:
  assumes "connauth_call E ca = ca_goto st_responder_success ca'" and "fsm_in (ca_fsm ca') s n"
  shows "\<exists>r. connauth_run E ca = Some r \<and> ca_over ca' [True] (reply E SILC_PACKET_SUCCESS SILC_AUTH_OK) r"
  using run_success [of "ca_next st_responder_success ca'" n E] assms by (simp add: run_goto [OF assms(1)] ca_effects in_next)

lemma run_initiator_result:
  assumes "fsm_in (ca_fsm ca) st_initiator_result n" and "\<not> ca_aborted ca" and "ca_packet ca = Pkt p"
  shows "\<exists>r. connauth_run E ca = Some r \<and> ca_over ca [pk_type p = SILC_PACKET_SUCCESS] [] r"
  using assms in_finish [OF assms(1)]
  by (subst connauth_run.simps) (auto simp: connauth_call_def stands_state silc_connauth_st_initiator_result_def ca_packet_free_def
      ca_complete_def ca_leave_def ca_over_def)

definition responder_result :: "connauth_env \<Rightarrow> bool \<Rightarrow> (byte \<times> byte \<times> bytes) list" where
  "responder_result E b = (if b then reply E SILC_PACKET_SUCCESS SILC_AUTH_OK else reply E SILC_PACKET_FAILURE SILC_AUTH_FAILED)"

text \<open>Facts about contexts that differ in fields that the outcome does not read.\<close>

definition ca_same :: "silc_connauth \<Rightarrow> silc_connauth \<Rightarrow> bool" where
  "ca_same ca ca' \<longleftrightarrow> ca_completed ca' = ca_completed ca \<and> ca_sent ca' = ca_sent ca \<and> ca_aborted ca' = ca_aborted ca \<and>
     ca_received ca' = ca_received ca \<and> ca_ske ca' = ca_ske ca"

lemma over_same: "ca_same ca ca' \<Longrightarrow> ca_over ca' cs out r = ca_over ca cs out r"
  by (simp add: ca_same_def ca_over_def)

lemma rejected:
  assumes "connauth_call E ca = ca_goto st_responder_failure ca'" and "fsm_in (ca_fsm ca') s n" and "ca_same ca ca'" and "\<not> ca_aborted ca"
  shows "\<exists>r. connauth_run E ca = Some r \<and> ca_over ca [False] (responder_result E False) r"
proof -
  have "ca_aborted ca' = False" using assms(3,4) by (simp add: ca_same_def)
  then show ?thesis
    using goto_failure [OF assms(1) _ assms(2)] over_same [OF assms(3)]
    by (simp add: failure_result_def failure_reply_def responder_result_def)
qed

lemma accepted:
  assumes "connauth_call E ca = ca_goto st_responder_success ca'" and "fsm_in (ca_fsm ca') s n" and "ca_same ca ca'"
  shows "\<exists>r. connauth_run E ca = Some r \<and> ca_over ca [True] (responder_result E True) r"
  using goto_success [OF assms(1,2)] assms(3) by (simp add: over_same responder_result_def)

lemma run_authenticate_pk:
  assumes s: "fsm_in (ca_fsm ca) st_responder_authenticate_pk n" and "\<not> ca_aborted ca" and "ca_auth_data ca = Auth_bytes d" and "ske_ok (ca_ske ca)"
    and "ca_public_keys ca \<noteq> Some []"
  shows "\<exists>r. connauth_run E ca = Some r \<and>
    (let b = (case ca_public_keys ca of Some (k # _) \<Rightarrow> puk_verify k d (connauth_signed (ca_ske ca)) | _ \<Rightarrow> False)
     in ca_over ca [b] (responder_result E b) r)"
proof -
  define b where "b = (case ca_public_keys ca of Some (k # _) \<Rightarrow> puk_verify k d (connauth_signed (ca_ske ca)) | _ \<Rightarrow> False)"
  have "length (connauth_signed (ca_ske ca)) < u32_max" using assms(4) by (simp add: ske_ok_def max_alloc_less_u32)
  then have "connauth_call E ca = ca_goto (if b then st_responder_success else st_responder_failure) ca"
    using assms by (auto simp: connauth_call_def stands_state silc_connauth_st_responder_authenticate_pk_def b_def
        silc_connauth_verify_signature_def sign_data split: option.splits list.splits)
  then show ?thesis
    using accepted [of E ca ca _ n] rejected [of E ca ca _ n] s assms(2) unfolding b_def [symmetric] Let_def
    by (cases b) (auto simp: ca_same_def)
qed

lemma run_verify:
  assumes c: "connauth_call E ca = connauth_verify E ca ct (if d = [] then None else Some d)"
    and s: "fsm_in (ca_fsm ca) s n" and a: "\<not> ca_aborted ca" and ok: "ske_ok (ca_ske ca)" "env_ok E" and d: "length d < 65532"
  shows "\<exists>r. connauth_run E ca = Some r \<and>
    (let b = connauth_authorized E (ca_ske ca) ct d in ca_over ca [b] (responder_result E b) r)"
proof -
  let ?f = "ca_packet_free ca"
  let ?b = "connauth_authorized E (ca_ske ca) ct d"
  have f: "fsm_in (ca_fsm ?f) s n" "ca_same ca ?f" using s by (simp_all add: ca_packet_free_def ca_same_def)
  have fail: ?thesis if "connauth_call E ca = ca_goto st_responder_failure ?f" "\<not> ?b"
    using rejected [OF that(1) f a] that(2) by (simp add: Let_def)
  have succ: ?thesis if "connauth_call E ca = ca_goto st_responder_success ?f" "?b"
    using accepted [OF that(1) f] that(2) by (simp add: Let_def)
  show ?thesis
  proof (cases "ce_get_auth_data E ct")
    case None
    then show ?thesis using fail c by (simp add: connauth_verify_def connauth_authorized_def)
  next
    case (Some pr)
    then obtain pass rep where g: "ce_get_auth_data E ct = Some (pass, rep)" by (cases pr) auto
    show ?thesis
    proof (cases "opt_bytes pass = []")
      case False
      then obtain pw where "pass = Some pw" "pw \<noteq> []" by (cases pass) (auto simp: opt_bytes_def)
      then have "connauth_call E ca = (if d = pw then ca_goto st_responder_success ?f else ca_goto st_responder_failure ?f)" "?b = (d = pw)"
        using g c by (auto simp: connauth_verify_def connauth_authorized_def opt_bytes_def Let_def)
      then show ?thesis using fail succ by (cases "d = pw") simp_all
    next
      case True
      then have np: "\<not> (pass \<noteq> None \<and> length (the pass) \<noteq> 0)" by (cases pass) (auto simp: opt_bytes_def)
      show ?thesis
      proof (cases rep)
        case None
        then show ?thesis using g c np True by (intro succ) (auto simp: connauth_verify_def connauth_authorized_def)
      next
        case (Some skr)
        note rep = this
        show ?thesis
        proof (cases "d = [] \<or> sk_public_key (ca_ske ca) = None")
          case bad: True
          have m: "d = []" if "silc_memdup d = None" using that d by (simp add: silc_memdup_def SILC_MAX_ALLOC_def split: if_splits)
          define ca' where "ca' = (if d = [] then ?f else ?f\<lparr>ca_auth_data := Auth_bytes d\<rparr>)"
          have "connauth_call E ca = ca_goto st_responder_failure ca'"
            using g c np rep bad m by (auto simp: connauth_verify_def ca'_def ca_packet_free_def silc_memdup_def split: option.splits)
          moreover have "fsm_in (ca_fsm ca') s n" "ca_same ca ca'" using f by (simp_all add: ca'_def ca_same_def)
          moreover have "\<not> ?b" using g rep True bad by (auto simp: connauth_authorized_def split: option.splits)
          ultimately show ?thesis using rejected [of E ca ca'] a by (simp add: Let_def)
        next
          case good: False
          then obtain pk where pk: "sk_public_key (ca_ske ca) = Some pk" "d \<noteq> []" by auto
          have m: "silc_memdup d = Some d" using d by (simp add: silc_memdup_def SILC_MAX_ALLOC_def)
          define ca' where "ca' = ca_next st_responder_authenticate_pk (?f\<lparr>ca_auth_data := Auth_bytes d, ca_public_keys := skr pk\<rparr>)"
          have "connauth_run E ca = connauth_run E ca'" unfolding ca'_def
            using g c np rep pk m by (intro run_goto) (auto simp: connauth_verify_def ca_packet_free_def)
          moreover have "fsm_in (ca_fsm ca') st_responder_authenticate_pk n" unfolding ca'_def using f(1) by (simp add: ca_effects in_next)
          moreover have e: "\<not> ca_aborted ca'" "ca_auth_data ca' = Auth_bytes d" "ca_ske ca' = ca_ske ca" "ca_public_keys ca' = skr pk" "ca_same ca ca'"
            using a by (simp_all add: ca'_def ca_effects ca_packet_free_def ca_same_def)
          moreover have "skr pk \<noteq> Some []" using ok(2) g rep by (auto simp: env_ok_def)
          moreover have "?b = (case skr pk of Some (k # _) \<Rightarrow> puk_verify k d (connauth_signed (ca_ske ca)) | _ \<Rightarrow> False)"
            using g rep True pk by (simp add: connauth_authorized_def)
          ultimately show ?thesis
            using run_authenticate_pk [of ca' n d E, unfolded e(3,4)] ok(1) over_same [OF e(5)] by simp
        qed
      qed
    qed
  qed
qed

lemma run_authenticate:
  assumes s: "fsm_in (ca_fsm ca) st_responder_authenticate n" and a: "\<not> ca_aborted ca" and p: "ca_packet ca = Pkt p" "wf_buffer (pk_buffer p)"
    and ok: "ske_ok (ca_ske ca)" "env_ok E"
  shows "\<exists>r. connauth_run E ca = Some r \<and>
    (let b = connauth_accepts E (ca_ske ca) p in ca_over ca [b] (responder_result E b) r)"
proof -
  have c: "connauth_call E ca = silc_connauth_st_responder_authenticate E ca" using s by (simp add: connauth_call_def stands_state)
  show ?thesis
  proof (cases "connauth_body p")
    case None
    then have "connauth_call E ca = ca_goto st_responder_failure (ca_packet_free ca)" by (simp add: c authenticate_eq [OF p(2) a p(1)])
    then show ?thesis using rejected [of E ca "ca_packet_free ca" _ n] s a None
      by (simp add: ca_packet_free_def ca_same_def accepts_body Let_def)
  next
    case (Some x)
    then obtain ct d where x: "connauth_body p = Some (ct, d)" by (cases x) auto
    then have "connauth_call E ca = connauth_verify E ca ct (if d = [] then None else Some d)" by (simp add: c authenticate_eq [OF p(2) a p(1)])
    moreover have "length d < 65532" using x by (simp add: body_Some)
    moreover have "connauth_accepts E (ca_ske ca) p = connauth_authorized E (ca_ske ca) ct d" by (simp add: accepts_body x)
    ultimately show ?thesis using run_verify [OF _ s a ok] by simp
  qed
qed

lemma run_aborted:
  assumes s: "fsm_in (ca_fsm ca) s n" "s = st_initiator_result \<or> s = st_responder_authenticate" and a: "ca_aborted ca" and p: "ca_packet ca \<noteq> Pkt_freed"
  shows "\<exists>r. connauth_run E ca = Some r \<and> ca_over ca [] [] r"
proof -
  define st where "st = (if s = st_initiator_result then st_initiator_failure else st_responder_failure)"
  define ca' where "ca' = (if s = st_initiator_result \<or> ca_packet ca = Pkt_null then ca else ca_packet_free ca)"
  have c: "connauth_call E ca = ca_goto st ca'"
    using assms by (auto simp: connauth_call_def stands_state silc_connauth_st_initiator_result_def silc_connauth_st_responder_authenticate_def
        ca'_def st_def split: packet_ptr.splits)
  have c': "fsm_in (ca_fsm ca') s n" "ca_same ca ca'" "st = st_initiator_failure \<or> st = st_responder_failure"
    using s by (simp_all add: ca'_def ca_packet_free_def ca_same_def st_def)
  from goto_failure [OF c c'(3,1)] a show ?thesis
    unfolding over_same [OF c'(2)] using c'(2) by (simp add: failure_result_def failure_reply_def ca_same_def)
qed

text \<open>A turn after which the machine waits for the other end.\<close>

definition ca_waits :: "silc_connauth \<Rightarrow> nat \<Rightarrow> nat \<Rightarrow> (byte \<times> byte \<times> bytes) list \<Rightarrow> silc_connauth \<Rightarrow> bool" where
  "ca_waits ca s n out r \<longleftrightarrow> fsm_at (ca_fsm r) s n \<and> ca_timer r = (ca_timer ca \<or> ca_timeout_secs ca \<noteq> 0) \<and>
     ca_timeout_secs r = ca_timeout_secs ca \<and> ca_linked r = ca_linked ca \<and> ca_packet r = ca_packet ca \<and>
     ca_sent r = ca_sent ca @ out \<and> ca_aborted r = ca_aborted ca \<and> ca_received r = ca_received ca \<and> ca_ske r = ca_ske ca \<and>
     ca_completed r = ca_completed ca"

lemma run_responder_start:
  assumes "fsm_in (ca_fsm ca) st_responder_start n" and "\<not> ca_aborted ca"
  shows "\<exists>r. connauth_run E ca = Some r \<and> ca_waits ca st_responder_authenticate n [] r"
  using assms in_wait [OF in_next [OF assms(1), of st_responder_authenticate]]
  by (subst connauth_run.simps) (simp add: connauth_call_def stands_state silc_connauth_st_responder_start_def start_timeout_def ca_waits_def ca_effects)

text \<open>What the initiator sends as proof of its identity.\<close>

definition connauth_proof :: "connauth_ske \<Rightarrow> u16 \<Rightarrow> auth_ptr \<Rightarrow> bytes option" where
  "connauth_proof ske method data =
     (if method = SILC_AUTH_PASSWORD then
        (case data of Auth_bytes d \<Rightarrow> if length d + 1 < SILC_MAX_ALLOC then Some d else None | _ \<Rightarrow> None)
      else if method = SILC_AUTH_PUBLIC_KEY then
        (case data of
           Auth_private_key k \<Rightarrow> if (prk_len k + 7) div 8 + 1 < SILC_MAX_ALLOC then prk_sign k (connauth_signed ske) else None
         | _ \<Rightarrow> None)
      else Some [])"

definition auth_fits :: "u16 \<Rightarrow> auth_ptr \<Rightarrow> bool" where
  "auth_fits method data \<longleftrightarrow> (method = SILC_AUTH_PASSWORD \<longrightarrow> (\<exists>d. data = Auth_bytes d)) \<and>
     (method = SILC_AUTH_PUBLIC_KEY \<longrightarrow> (\<exists>k. data = Auth_private_key k))"

definition connauth_flags :: "u16 \<Rightarrow> byte" where
  "connauth_flags method = (if method = SILC_AUTH_PASSWORD then SILC_PACKET_FLAG_LONG_PAD else 0)"

lemma auth_data_proof:
  assumes "ske_ok (ca_ske ca)" and "auth_fits (ca_auth_method ca) (ca_auth_data ca)"
  shows "initiator_auth_data E ca = Some (map_option
    (\<lambda>d. (if ca_auth_method ca = SILC_AUTH_PASSWORD \<or> ca_auth_method ca = SILC_AUTH_PUBLIC_KEY then Some d else None,
          connauth_flags (ca_auth_method ca))) (connauth_proof (ca_ske ca) (ca_auth_method ca) (ca_auth_data ca)))"
proof -
  have "length (connauth_signed (ca_ske ca)) < u32_max" using assms(1) by (simp add: ske_ok_def max_alloc_less_u32)
  then have sig: "silc_connauth_get_signature E ca k =
      (if (prk_len k + 7) div 8 + 1 < SILC_MAX_ALLOC then prk_sign k (connauth_signed (ca_ske ca)) else None)" for k
    using assms(1) by (auto simp: silc_connauth_get_signature_def sign_data silc_calloc_def)
  have ne: "SILC_AUTH_PUBLIC_KEY \<noteq> SILC_AUTH_PASSWORD" by (simp add: SILC_AUTH_PUBLIC_KEY_def SILC_AUTH_PASSWORD_def)
  show ?thesis
    using assms(2) ne by (auto simp: initiator_auth_data_def connauth_proof_def auth_fits_def connauth_flags_def silc_memdup_def sig)
qed

lemma timeout_fields [simp]:
  "ca_conn_type (start_timeout ca) = ca_conn_type ca" "ca_sent (start_timeout ca) = ca_sent ca" "ca_auth_method (start_timeout ca) = ca_auth_method ca"
  "ca_auth_data (start_timeout ca) = ca_auth_data ca" "ca_ske (start_timeout ca) = ca_ske ca"
  by (simp_all add: start_timeout_def)

lemma timeout_auth_data [simp]: "initiator_auth_data E (start_timeout ca) = initiator_auth_data E ca"
  unfolding initiator_auth_data_def silc_connauth_get_signature_def timeout_fields ..

lemma payload_format:
  assumes "4 + length d < SILC_MAX_ALLOC" and "opt_bytes p = d"
  shows "\<exists>b. alloc_format J (4 + length d) [FMT_SHORT (of_nat (4 + length d)), FMT_SHORT ct, FMT_NSTRING p (length d)] = Some b \<and>
    sb_bytes b = connauth_payload ct d"
proof -
  have "fmt_all [FMT_SHORT (of_nat (4 + length d)), FMT_SHORT ct, FMT_NSTRING p (length d)] = connauth_payload ct d"
    using assms(2) by (cases p) (auto simp: connauth_payload_def opt_bytes_def)
  moreover have "length (connauth_payload ct d) = 4 + length d" by (simp add: connauth_payload_def)
  moreover have "list_all fmt_plain [FMT_SHORT (of_nat (4 + length d)), FMT_SHORT ct, FMT_NSTRING p (length d)]"
    using assms(2) by (cases p) (auto simp: opt_bytes_def)
  ultimately show ?thesis
    using assms(1) alloc_format_exact [of "[FMT_SHORT (of_nat (4 + length d)), FMT_SHORT ct, FMT_NSTRING p (length d)]" "4 + length d" J]
    by (simp add: max_alloc_less_u32 del: of_nat_add)
qed

lemma run_initiator_start:
  assumes s: "fsm_in (ca_fsm ca) st_initiator_start n" and a: "\<not> ca_aborted ca" and ok: "ske_ok (ca_ske ca)"
    and fits: "auth_fits (ca_auth_method ca) (ca_auth_data ca)"
    and d: "connauth_proof (ca_ske ca) (ca_auth_method ca) (ca_auth_data ca) = Some d" "4 + length d < SILC_MAX_ALLOC"
    and send: "ce_send E SILC_PACKET_CONNECTION_AUTH"
  shows "\<exists>r. connauth_run E ca = Some r \<and>
    ca_waits ca st_initiator_result n [(SILC_PACKET_CONNECTION_AUTH, connauth_flags (ca_auth_method ca), connauth_payload (ca_conn_type ca) d)] r"
proof -
  define p where "p = (if ca_auth_method ca = SILC_AUTH_PASSWORD \<or> ca_auth_method ca = SILC_AUTH_PUBLIC_KEY then Some d else None)"
  have p: "opt_bytes p = d" using d(1) by (auto simp: p_def opt_bytes_def connauth_proof_def)
  obtain b where b: "alloc_format (ce_junk E) (4 + length d) [FMT_SHORT (of_nat (4 + length d)), FMT_SHORT (ca_conn_type ca), FMT_NSTRING p (length d)] = Some b"
    "sb_bytes b = connauth_payload (ca_conn_type ca) d" using payload_format [OF d(2) p] by blast
  have ad: "initiator_auth_data E ca = Some (Some (p, connauth_flags (ca_auth_method ca)))"
    by (simp add: auth_data_proof [OF ok fits] d(1) p_def)
  define ca1 where "ca1 = (start_timeout ca)\<lparr>ca_sent := ca_sent ca @ [(SILC_PACKET_CONNECTION_AUTH, connauth_flags (ca_auth_method ca), connauth_payload (ca_conn_type ca) d)]\<rparr>"
  have "connauth_call E ca = Some (ca_next st_initiator_result ca1, SILC_FSM_ST_WAIT)"
    using s a send b ad p
    by (simp add: connauth_call_def stands_state silc_connauth_st_initiator_start_def Let_def ca_send_def ca1_def del: of_nat_add)
  moreover have "fsm_in (ca_fsm ca1) st_initiator_start n" using s by (simp add: ca1_def start_timeout_def)
  note in_wait [OF in_next [OF this, of st_initiator_result]]
  ultimately show ?thesis
    by (subst connauth_run.simps) (simp add: ca_waits_def ca_effects ca1_def start_timeout_def)
qed

text \<open>In all other cases the initiator fails at once.\<close>

lemma run_initiator_start_cases:
  assumes s: "fsm_in (ca_fsm ca) st_initiator_start n" and a: "\<not> ca_aborted ca" and ok: "ske_ok (ca_ske ca)"
    and fits: "auth_fits (ca_auth_method ca) (ca_auth_data ca)"
  shows "\<exists>r. connauth_run E ca = Some r \<and> ((\<exists>out. ca_waits ca st_initiator_result n out r) \<or> ca_over ca [False] (reply E SILC_PACKET_FAILURE SILC_AUTH_FAILED) r)"
proof (cases "\<exists>d. connauth_proof (ca_ske ca) (ca_auth_method ca) (ca_auth_data ca) = Some d \<and> 4 + length d < SILC_MAX_ALLOC \<and> ce_send E SILC_PACKET_CONNECTION_AUTH")
  case True
  then show ?thesis using run_initiator_start [OF s a ok fits] by blast
next
  case False
  let ?t = "start_timeout ca"
  have no: "alloc_format J (4 + n) ps = None" if "\<not> 4 + n < SILC_MAX_ALLOC" for J n ps using that by (intro alloc_format_None) simp
  have "connauth_call E ca = ca_goto st_initiator_failure ?t"
  proof (cases "connauth_proof (ca_ske ca) (ca_auth_method ca) (ca_auth_data ca)")
    case None
    then show ?thesis using s a by (simp add: connauth_call_def stands_state silc_connauth_st_initiator_start_def auth_data_proof [OF ok fits])
  next
    case (Some d)
    define p where "p = (if ca_auth_method ca = SILC_AUTH_PASSWORD \<or> ca_auth_method ca = SILC_AUTH_PUBLIC_KEY then Some d else None)"
    have p: "opt_bytes p = d" using Some by (auto simp: p_def opt_bytes_def connauth_proof_def)
    have ad: "initiator_auth_data E ca = Some (Some (p, connauth_flags (ca_auth_method ca)))" by (simp add: auth_data_proof [OF ok fits] Some p_def)
    show ?thesis
    proof (cases "4 + length d < SILC_MAX_ALLOC")
      case True
      then have "\<not> ce_send E SILC_PACKET_CONNECTION_AUTH" using False Some by simp
      then show ?thesis
        using s a ad p payload_format [OF True p, of "ce_junk E" "ca_conn_type ?t"]
        by (auto simp: connauth_call_def stands_state silc_connauth_st_initiator_start_def Let_def ca_send_def simp del: of_nat_add)
    next
      case False
      then show ?thesis using s a ad p no [OF False]
        by (simp add: connauth_call_def stands_state silc_connauth_st_initiator_start_def Let_def del: of_nat_add)
    qed
  qed
  moreover have "fsm_in (ca_fsm ?t) st_initiator_start n" using s by (simp add: start_timeout_def)
  moreover have t: "ca_same ca ?t" "\<not> ca_aborted ?t" using a by (simp_all add: start_timeout_def ca_same_def)
  ultimately show ?thesis using goto_failure [of E ca st_initiator_failure ?t st_initiator_start n] over_same [OF t(1)]
    by (auto simp: failure_result_def failure_reply_def)
qed

lemma run_start_aborted:
  assumes s: "fsm_in (ca_fsm ca) s n" "s = st_initiator_start \<or> s = st_responder_start" and a: "ca_aborted ca"
  shows "\<exists>r. connauth_run E ca = Some r \<and> ca_over ca [] [] r"
proof -
  define st where "st = (if s = st_initiator_start then st_initiator_failure else st_responder_failure)"
  have c: "connauth_call E ca = ca_goto st ca" "st = st_initiator_failure \<or> st = st_responder_failure"
    using assms by (auto simp: connauth_call_def stands_state silc_connauth_st_initiator_start_def silc_connauth_st_responder_start_def st_def)
  from goto_failure [OF c s(1)] a show ?thesis by (simp add: failure_result_def failure_reply_def)
qed

end
