(* ===== verification/Silc_Connauth_Steps.thy ===== *)
theory Silc_Connauth_Steps
  imports Silc_Connauth_Turns
begin

text \<open>
  Connection authentication as a transition system: turns, packets, timeouts and aborts in any order, the invariant, and the
  properties of all runs; the exchange of the two ends; the protocol as a client of the state machine library.
\<close>

section \<open>All runs of the protocol\<close>

text \<open>
  What can happen to a context: the scheduler gives the machine a turn, destroys it or calls the timeout,
  the stream delivers a packet of a type the context is linked for, the application aborts the
  operation before it ends. Each turn meets one of the environments \<open>P\<close> describes.
\<close>

definition connauth_finished :: "silc_connauth \<Rightarrow> bool" where
  "connauth_finished ca = fs_finished (fw_fsm (ca_fsm ca) 0)"

inductive connauth_step :: "(connauth_env \<Rightarrow> bool) \<Rightarrow> silc_connauth \<Rightarrow> silc_connauth \<Rightarrow> bool" for P where
  turn: "Task_run 0 \<in> set (fw_tasks (ca_fsm ca)) \<Longrightarrow> P E \<Longrightarrow> silc_connauth_run_task E ca = Some ca' \<Longrightarrow> connauth_step P ca ca'"
| finish: "Task_finish 0 \<in> set (fw_tasks (ca_fsm ca)) \<Longrightarrow> connauth_step P ca (silc_connauth_finish_task ca)"
| timeout: "ca_timer ca \<Longrightarrow> P E \<Longrightarrow> silc_connauth_timeout E ca = Some ca' \<Longrightarrow> connauth_step P ca ca'"
| packet: "pk_type p \<in> set (ca_linked ca) \<Longrightarrow> wf_buffer (pk_buffer p) \<Longrightarrow> connauth_step P ca (silc_connauth_packet_receive p ca)"
| abort: "\<not> connauth_finished ca \<Longrightarrow> connauth_step P ca (silc_connauth_abort ca)"

inductive connauth_reachable :: "(connauth_env \<Rightarrow> bool) \<Rightarrow> silc_connauth \<Rightarrow> silc_connauth \<Rightarrow> bool" for P ca0 where
  here: "connauth_reachable P ca0 ca0"
| more: "connauth_reachable P ca0 ca \<Longrightarrow> connauth_step P ca ca' \<Longrightarrow> connauth_reachable P ca0 ca'"

text \<open>The invariant, of an initiator or a responder.\<close>

definition start_state :: "bool \<Rightarrow> nat" where
  "start_state init = (if init then st_initiator_start else st_responder_start)"

definition wait_state :: "bool \<Rightarrow> nat" where
  "wait_state init = (if init then st_initiator_result else st_responder_authenticate)"

definition wait_types :: "bool \<Rightarrow> byte list" where
  "wait_types init = (if init then [SILC_PACKET_SUCCESS, SILC_PACKET_FAILURE] else [SILC_PACKET_CONNECTION_AUTH, SILC_PACKET_FAILURE])"

definition justified :: "(connauth_env \<Rightarrow> bool) \<Rightarrow> bool \<Rightarrow> silc_connauth \<Rightarrow> bool" where
  "justified P init ca =
     (if init then \<exists>p\<in>set (ca_received ca). pk_type p = SILC_PACKET_SUCCESS
      else \<exists>E. P E \<and> (\<exists>p\<in>set (ca_received ca). connauth_accepts E (ca_ske ca) p))"

definition inv_waiting :: "bool \<Rightarrow> silc_connauth \<Rightarrow> nat \<Rightarrow> nat \<Rightarrow> bool" where
  "inv_waiting init ca s n \<longleftrightarrow>
     ca_linked ca = wait_types init \<and> ca_completed ca = [] \<and> ca_packet ca \<noteq> Pkt_freed \<and> (\<forall>p. ca_packet ca = Pkt p \<longrightarrow> p \<in> set (ca_received ca)) \<and>
     (s = start_state init \<and> 0 < n \<and> \<not> ca_timer ca \<and> (1 < n \<longrightarrow> ca_packet ca \<noteq> Pkt_null) \<and>
        (init \<longrightarrow> auth_fits (ca_auth_method ca) (ca_auth_data ca)) \<or>
      s = wait_state init \<and> (ca_timeout_secs ca \<noteq> 0 \<longrightarrow> ca_timer ca) \<and> (0 < n \<longrightarrow> ca_packet ca \<noteq> Pkt_null))"

definition inv_over :: "(connauth_env \<Rightarrow> bool) \<Rightarrow> bool \<Rightarrow> silc_connauth \<Rightarrow> bool" where
  "inv_over P init ca \<longleftrightarrow> ca_linked ca = [] \<and> \<not> ca_timer ca \<and>
     (if ca_aborted ca then ca_completed ca = [] else \<exists>b. ca_completed ca = [b] \<and> (b \<longrightarrow> justified P init ca))"

definition connauth_inv :: "(connauth_env \<Rightarrow> bool) \<Rightarrow> bool \<Rightarrow> silc_connauth \<Rightarrow> bool" where
  "connauth_inv P init ca \<longleftrightarrow> ske_ok (ca_ske ca) \<and> (\<forall>p\<in>set (ca_received ca). wf_buffer (pk_buffer p)) \<and>
     ((\<exists>s n. fsm_at (ca_fsm ca) s n \<and> inv_waiting init ca s n) \<or> (\<exists>d. fsm_ended (ca_fsm ca) d \<and> inv_over P init ca))"

lemma types_differ:
  "SILC_PACKET_SUCCESS \<noteq> SILC_PACKET_FAILURE" "SILC_PACKET_CONNECTION_AUTH \<noteq> SILC_PACKET_FAILURE" "SILC_PACKET_SUCCESS \<noteq> SILC_PACKET_CONNECTION_AUTH"
  by (simp_all add: SILC_PACKET_SUCCESS_def SILC_PACKET_FAILURE_def SILC_PACKET_CONNECTION_AUTH_def)

lemma over_inv:
  assumes "ca_over ca cs out r" and "ca_completed ca = []" and "cs = (if ca_aborted ca then [] else [b])" and "b \<Longrightarrow> justified P init ca"
    and "ske_ok (ca_ske ca)" and "\<forall>p\<in>set (ca_received ca). wf_buffer (pk_buffer p)"
  shows "connauth_inv P init r"
proof -
  have "justified P init r = justified P init ca" using assms(1) by (simp add: justified_def ca_over_def)
  then show ?thesis using assms by (auto simp: connauth_inv_def inv_over_def ca_over_def)
qed

text \<open>A turn in the waiting state, with a packet or after an abort, ends the protocol.\<close>

lemma turn_waiting:
  assumes s: "fsm_in (ca_fsm ca) (wait_state init) n" and p: "ca_packet ca \<noteq> Pkt_freed" "ca_packet ca = Pkt_null \<Longrightarrow> ca_aborted ca"
    and rec: "\<forall>p. ca_packet ca = Pkt p \<longrightarrow> p \<in> set (ca_received ca)" and E: "P E" "env_ok E"
    and g: "ske_ok (ca_ske ca)" "\<forall>p\<in>set (ca_received ca). wf_buffer (pk_buffer p)"
  shows "\<exists>r b out. connauth_run E ca = Some r \<and> ca_over ca (if ca_aborted ca then [] else [b]) out r \<and> (b \<longrightarrow> justified P init ca)"
proof (cases "ca_aborted ca")
  case True
  have "wait_state init = st_initiator_result \<or> wait_state init = st_responder_authenticate" by (simp add: wait_state_def)
  from run_aborted [OF s this True p(1)] obtain r where "connauth_run E ca = Some r" "ca_over ca [] [] r" by blast
  then show ?thesis using True by auto
next
  case False
  then obtain q where q: "ca_packet ca = Pkt q" using p by (cases "ca_packet ca") auto
  then have rq: "q \<in> set (ca_received ca)" using rec by simp
  show ?thesis
  proof (cases init)
    case True
    then obtain r where "connauth_run E ca = Some r" "ca_over ca [pk_type q = SILC_PACKET_SUCCESS] [] r"
      using run_initiator_result [OF _ False q] s by (auto simp: wait_state_def)
    then show ?thesis using False True rq by (auto simp: justified_def)
  next
    case no: False
    then have s4: "fsm_in (ca_fsm ca) st_responder_authenticate n" using s by (simp add: wait_state_def)
    define b where "b = connauth_accepts E (ca_ske ca) q"
    obtain r where "connauth_run E ca = Some r" "ca_over ca [b] (responder_result E b) r"
      using run_authenticate [OF s4 False q _ g(1) E(2)] g(2) rq by (auto simp: Let_def b_def)
    moreover have "b \<longrightarrow> justified P init ca" using no E(1) rq by (auto simp: justified_def b_def)
    ultimately show ?thesis using False by auto
  qed
qed

lemma turn_waiting_inv:
  assumes "fsm_in (ca_fsm ca) (wait_state init) n" and "ca_packet ca \<noteq> Pkt_freed" "ca_packet ca = Pkt_null \<Longrightarrow> ca_aborted ca"
    and "\<forall>p. ca_packet ca = Pkt p \<longrightarrow> p \<in> set (ca_received ca)" and "P E" "env_ok E"
    and g: "ske_ok (ca_ske ca)" "\<forall>p\<in>set (ca_received ca). wf_buffer (pk_buffer p)" and c: "ca_completed ca = []"
  shows "\<exists>r. connauth_run E ca = Some r \<and> connauth_inv P init r \<and> connauth_finished r"
proof -
  obtain r b out where r: "connauth_run E ca = Some r" "ca_over ca (if ca_aborted ca then [] else [b]) out r" "b \<longrightarrow> justified P init ca"
    using turn_waiting [where P = P, OF assms(1-8)] by blast
  then show ?thesis using over_inv [OF r(2) c refl _ g, of P init]
    by (auto simp: connauth_finished_def ca_over_def fsm_ended_def)
qed

text \<open>The first turn.\<close>

lemma turn_start_inv:
  assumes s: "fsm_in (ca_fsm ca) (start_state init) n" and w: "inv_waiting init ca (start_state init) (Suc n)"
    and g: "ske_ok (ca_ske ca)" "\<forall>p\<in>set (ca_received ca). wf_buffer (pk_buffer p)"
  shows "\<exists>r. connauth_run E ca = Some r \<and> connauth_inv P init r"
proof (cases "ca_aborted ca")
  case True
  have "start_state init = st_initiator_start \<or> start_state init = st_responder_start" by (simp add: start_state_def)
  from run_start_aborted [OF s this True] obtain r where "connauth_run E ca = Some r" "ca_over ca [] [] r" by blast
  then show ?thesis using over_inv [of ca "[]" "[]" r False P init] True w g by (auto simp: inv_waiting_def)
next
  case False
  have ne: "start_state init \<noteq> wait_state init" by (simp add: start_state_def wait_state_def)
  have w': "ca_linked ca = wait_types init" "ca_completed ca = []" "ca_packet ca \<noteq> Pkt_freed"
    "\<forall>p. ca_packet ca = Pkt p \<longrightarrow> p \<in> set (ca_received ca)" "0 < n \<longrightarrow> ca_packet ca \<noteq> Pkt_null"
    using w ne by (simp_all add: inv_waiting_def)
  have waits: "connauth_inv P init r" if v: "ca_waits ca (wait_state init) n out r" for r out
  proof -
    have "inv_waiting init r (wait_state init) n" "fsm_at (ca_fsm r) (wait_state init) n"
      using v w' by (simp_all add: inv_waiting_def ca_waits_def)
    then show ?thesis using v g unfolding connauth_inv_def ca_waits_def by auto
  qed
  show ?thesis
  proof (cases init)
    case True
    have f: "auth_fits (ca_auth_method ca) (ca_auth_data ca)" using w True ne by (auto simp: inv_waiting_def)
    have s0: "fsm_in (ca_fsm ca) st_initiator_start n" using s True by (simp add: start_state_def)
    from run_initiator_start_cases [OF s0 False g(1) f, of E] obtain r where r: "connauth_run E ca = Some r"
      "(\<exists>out. ca_waits ca st_initiator_result n out r) \<or> ca_over ca [False] (reply E SILC_PACKET_FAILURE SILC_AUTH_FAILED) r" by blast
    then show ?thesis
    proof (cases "\<exists>out. ca_waits ca st_initiator_result n out r")
      case wt: True
      then show ?thesis using r(1) waits True by (auto simp: wait_state_def)
    next
      case ov: False
      then show ?thesis using r over_inv [of ca "[False]" _ r False P init] False w g by (auto simp: inv_waiting_def)
    qed
  next
    case no: False
    then show ?thesis using run_responder_start [of ca n E] s False waits by (auto simp: start_state_def wait_state_def)
  qed
qed

lemma at_ended: "fsm_at w s n \<Longrightarrow> \<not> fsm_ended w d"
  by (auto simp: fsm_stands_def fsm_ended_def)

lemma inv_cases:
  assumes "connauth_inv P init ca"
  obtains (waiting) s n where "fsm_at (ca_fsm ca) s n" "inv_waiting init ca s n" "ske_ok (ca_ske ca)" "\<forall>p\<in>set (ca_received ca). wf_buffer (pk_buffer p)"
  | (over) d where "fsm_ended (ca_fsm ca) d" "inv_over P init ca" "ske_ok (ca_ske ca)" "\<forall>p\<in>set (ca_received ca). wf_buffer (pk_buffer p)"
  using assms unfolding connauth_inv_def by blast

lemma waiting_fsm [simp]: "inv_waiting init (ca\<lparr>ca_fsm := w\<rparr>) s n = inv_waiting init ca s n"
  by (simp add: inv_waiting_def)

lemma inv_turn:
  assumes inv: "connauth_inv P init ca" and t: "Task_run 0 \<in> set (fw_tasks (ca_fsm ca))" and E: "P E" "env_ok E"
  shows "\<exists>r. silc_connauth_run_task E ca = Some r \<and> connauth_inv P init r"
  using inv
proof (cases rule: inv_cases)
  case (over d)
  then show ?thesis using t by (auto simp: fsm_ended_def split: if_splits)
next
  case (waiting s n)
  then obtain m where n: "n = Suc m" using t by (cases n) (auto simp: fsm_stands_def)
  define ca1 where "ca1 = ca\<lparr>ca_fsm := silc_fsm_run 0 None (taken (Task_run 0) (ca_fsm ca))\<rparr>"
  have f: "fsm_in (ca_fsm ca1) s m" using at_run waiting(1) by (simp add: ca1_def n)
  have w: "inv_waiting init ca1 s (Suc m)" using waiting(2) by (simp add: ca1_def n)
  have g: "ske_ok (ca_ske ca1)" "\<forall>p\<in>set (ca_received ca1). wf_buffer (pk_buffer p)" using waiting(3,4) by (simp_all add: ca1_def)
  have run: "silc_connauth_run_task E ca = connauth_run E ca1" by (simp add: silc_connauth_run_task_def ca1_def)
  show ?thesis
  proof (cases "s = start_state init")
    case True
    then show ?thesis using turn_start_inv [of ca1 init m E P] f w g by (simp add: run)
  next
    case False
    then have "s = wait_state init" "ca_packet ca1 \<noteq> Pkt_null" "ca_packet ca1 \<noteq> Pkt_freed" "ca_completed ca1 = []"
      "\<forall>p. ca_packet ca1 = Pkt p \<longrightarrow> p \<in> set (ca_received ca1)" using w by (simp_all add: inv_waiting_def)
    then show ?thesis using turn_waiting_inv [where P = P, of ca1 init m E] f g E by (auto simp: run)
  qed
qed

lemma connauth_inv_timeout:
  assumes inv: "connauth_inv P init ca" and t: "ca_timer ca" and E: "P E" "env_ok E"
  shows "\<exists>r. silc_connauth_timeout E ca = Some r \<and> connauth_inv P init r \<and> connauth_finished r \<and> ca_aborted r"
  using inv
proof (cases rule: inv_cases)
  case (over d)
  then show ?thesis using t by (simp add: inv_over_def)
next
  case (waiting s n)
  then have s: "s = wait_state init" using t by (simp add: inv_waiting_def)
  define ca1 where "ca1 = ca\<lparr>ca_timer := False, ca_aborted := True, ca_fsm := silc_fsm_continue_sync 0 None (ca_fsm ca)\<rparr>"
  have f: "fsm_in (ca_fsm ca1) (wait_state init) n" using at_continue_sync waiting(1) by (simp add: ca1_def s)
  have w: "ca_packet ca1 \<noteq> Pkt_freed" "ca_completed ca1 = []" "\<forall>p. ca_packet ca1 = Pkt p \<longrightarrow> p \<in> set (ca_received ca1)" "ca_aborted ca1"
    using waiting(2) by (simp_all add: ca1_def inv_waiting_def)
  have g: "ske_ok (ca_ske ca1)" "\<forall>p\<in>set (ca_received ca1). wf_buffer (pk_buffer p)" using waiting(3,4) by (simp_all add: ca1_def)
  obtain r b out where r: "connauth_run E ca1 = Some r" "ca_over ca1 (if ca_aborted ca1 then [] else [b]) out r" "b \<longrightarrow> justified P init ca1"
    using turn_waiting [where P = P, OF f w(1) _ w(3) E g] w(4) by blast
  have "connauth_inv P init r" using over_inv [OF r(2) w(2) refl _ g] r(3) by blast
  then show ?thesis using r w(4) by (auto simp: silc_connauth_timeout_def ca1_def [symmetric] connauth_finished_def ca_over_def fsm_ended_def)
qed

lemma inv_packet:
  assumes inv: "connauth_inv P init ca" and t: "pk_type p \<in> set (ca_linked ca)" "wf_buffer (pk_buffer p)"
  shows "connauth_inv P init (silc_connauth_packet_receive p ca)"
  using inv
proof (cases rule: inv_cases)
  case (over d)
  then show ?thesis using t by (simp add: inv_over_def)
next
  case (waiting s n)
  have "inv_waiting init (silc_connauth_packet_receive p ca) s (Suc n)"
    using waiting(2) by (auto simp: inv_waiting_def silc_connauth_packet_receive_def)
  moreover have "fsm_at (ca_fsm (silc_connauth_packet_receive p ca)) s (Suc n)"
    using at_continue waiting(1) by (simp add: silc_connauth_packet_receive_def)
  moreover have "ske_ok (ca_ske (silc_connauth_packet_receive p ca))" "\<forall>q\<in>set (ca_received (silc_connauth_packet_receive p ca)). wf_buffer (pk_buffer q)"
    using waiting(3,4) t(2) by (auto simp: silc_connauth_packet_receive_def)
  ultimately show ?thesis unfolding connauth_inv_def by blast
qed

lemma inv_abort:
  assumes inv: "connauth_inv P init ca" and "\<not> connauth_finished ca"
  shows "connauth_inv P init (silc_connauth_abort ca)"
  using inv
proof (cases rule: inv_cases)
  case (over d)
  then show ?thesis using assms(2) by (simp add: connauth_finished_def fsm_ended_def)
next
  case (waiting s n)
  then have "inv_waiting init (silc_connauth_abort ca) s n" by (simp add: inv_waiting_def silc_connauth_abort_def)
  then show ?thesis using waiting unfolding connauth_inv_def silc_connauth_abort_def by auto
qed

lemma inv_finish_task:
  assumes inv: "connauth_inv P init ca" and t: "Task_finish 0 \<in> set (fw_tasks (ca_fsm ca))"
  shows "connauth_inv P init (silc_connauth_finish_task ca)"
  using inv
proof (cases rule: inv_cases)
  case (over d)
  then have "\<not> d" using t by (auto simp: fsm_ended_def)
  then have "fsm_ended (ca_fsm (silc_connauth_finish_task ca)) True" using over(1) ended_finish by (simp add: silc_connauth_finish_task_def)
  moreover have "justified P init (silc_connauth_finish_task ca) = justified P init ca" by (simp add: justified_def silc_connauth_finish_task_def)
  then have "inv_over P init (silc_connauth_finish_task ca)" using over(2) unfolding inv_over_def by (simp add: silc_connauth_finish_task_def)
  ultimately show ?thesis using over(3,4) unfolding connauth_inv_def by (auto simp: silc_connauth_finish_task_def)
next
  case (waiting s n)
  then show ?thesis using t by (simp add: fsm_stands_def)
qed

lemma inv_connauth_step:
  assumes "connauth_step P ca ca'" and "connauth_inv P init ca" and "\<And>E. P E \<Longrightarrow> env_ok E"
  shows "connauth_inv P init ca'"
  using assms
proof (induction rule: connauth_step.induct)
  case (turn ca E ca')
  then show ?case using inv_turn [of P init ca E] by auto
next
  case (timeout ca E ca')
  then show ?case using connauth_inv_timeout [of P init ca E] by auto
qed (simp_all add: inv_finish_task inv_packet inv_abort)

lemma connauth_inv_reachable:
  assumes "connauth_reachable P ca0 ca" and "connauth_inv P init ca0" and "\<And>E. P E \<Longrightarrow> env_ok E"
  shows "connauth_inv P init ca"
  using assms by (induction rule: connauth_reachable.induct) (auto intro: inv_connauth_step)

text \<open>A context from which the protocol was started.\<close>

definition connauth_started :: "bool \<Rightarrow> connauth_ske \<Rightarrow> nat \<Rightarrow> u16 \<Rightarrow> u16 \<Rightarrow> auth_ptr \<Rightarrow> silc_connauth \<Rightarrow> bool" where
  "connauth_started init ske secs ct method data ca \<longleftrightarrow>
     (\<exists>ca0. silc_connauth_alloc True (Some ske) secs = Some ca0 \<and>
        (if init then silc_connauth_initiator ct method data ca0 = (True, ca) else ca = silc_connauth_responder ca0))"

lemma started_facts:
  assumes "connauth_started init ske secs ct method data ca" and "init \<longrightarrow> auth_fits method data"
  shows "fsm_at (ca_fsm ca) (start_state init) 1" and "inv_waiting init ca (start_state init) 1" and "ca_ske ca = ske" and "ca_received ca = []"
    and "ca_sent ca = []" and "\<not> ca_aborted ca" and "ca_timeout_secs ca = secs" and "ca_packet ca = Pkt_null" and "ca_completed ca = []"
    and "init \<Longrightarrow> ca_conn_type ca = ct \<and> ca_auth_method ca = method \<and> ca_auth_data ca = data"
  using assms at_start [OF refl, of st_initiator_start] at_start [OF refl, of st_responder_start]
  by (auto simp: connauth_started_def silc_connauth_alloc_def silc_connauth_initiator_def silc_connauth_responder_def silc_connauth_start_def
      start_state_def inv_waiting_def wait_types_def split: if_splits)

lemma inv_started:
  assumes "connauth_started init ske secs ct method data ca" and "init \<longrightarrow> auth_fits method data" and "ske_ok ske"
  shows "connauth_inv P init ca"
  using started_facts [OF assms(1,2)] assms(3) unfolding connauth_inv_def by auto

section \<open>Properties of all runs\<close>

lemma inv_finishedD:
  assumes "connauth_inv P init ca" and "connauth_finished ca"
  shows "inv_over P init ca" and "Task_run 0 \<notin> set (fw_tasks (ca_fsm ca))"
  using assms by (auto elim!: inv_cases simp: connauth_finished_def fsm_stands_def fsm_ended_def split: if_splits)

lemma inv_unfinishedD:
  assumes "connauth_inv P init ca" and "\<not> connauth_finished ca"
  shows "ca_completed ca = []" and "ca_timeout_secs ca \<noteq> 0 \<Longrightarrow> Task_run 0 \<in> set (fw_tasks (ca_fsm ca)) \<or> ca_timer ca"
  using assms by (auto elim!: inv_cases simp: connauth_finished_def fsm_stands_def fsm_ended_def inv_waiting_def)


text \<open>
  C4. Authenticity, for all interleavings. When the completion callback of a responder was called with success,
  then a Connection Auth packet was received that the configuration accepts: it is well-formed, its connection type
  is configured, and its data is the passphrase, or a signature of HASH and the start payload that a key found
  in the repository for the key of the key exchange verifies, or no authentication is required. When
  an initiator's was called with success, a SUCCESS packet was received.
\<close>

theorem silc_connauth_authentic:
  assumes "connauth_started init ske secs ct method data ca0" and "init \<longrightarrow> auth_fits method data" and "ske_ok ske"
    and "\<forall>E. P E \<longrightarrow> env_ok E" and "connauth_reachable P ca0 ca" and "True \<in> set (ca_completed ca)"
  shows "if init then \<exists>p\<in>set (ca_received ca). pk_type p = SILC_PACKET_SUCCESS
    else \<exists>E. P E \<and> (\<exists>p\<in>set (ca_received ca). connauth_accepts E (ca_ske ca) p)"
proof -
  have inv: "connauth_inv P init ca" using connauth_inv_reachable [OF assms(5) inv_started [OF assms(1-3)]] assms(4) by blast
  have "connauth_finished ca" using inv_unfinishedD(1) [OF inv] assms(6) by (cases "connauth_finished ca") auto
  then have "justified P init ca" using inv_finishedD(1) [OF inv] assms(6) by (auto simp: inv_over_def split: if_splits)
  then show ?thesis by (simp add: justified_def)
qed

text \<open>
  C13. The protocol does not hang when a time limit is set: as long as it is not over, a turn or the timeout is still to
  come, and the timeout ends it. But the timeout ends it as if it were aborted: the completion callback
  is not called.
\<close>

theorem silc_connauth_timeout_ends:
  assumes "connauth_started init ske secs ct method data ca0" and "init \<longrightarrow> auth_fits method data" and "ske_ok ske"
    and "\<forall>E. P E \<longrightarrow> env_ok E" and "connauth_reachable P ca0 ca" and "P E"
  shows "(\<not> connauth_finished ca \<and> ca_timeout_secs ca \<noteq> 0 \<longrightarrow> Task_run 0 \<in> set (fw_tasks (ca_fsm ca)) \<or> ca_timer ca) \<and>
    (ca_timer ca \<longrightarrow> (\<exists>r. silc_connauth_timeout E ca = Some r \<and> connauth_finished r \<and> ca_completed r = []))"
proof -
  have inv: "connauth_inv P init ca" using connauth_inv_reachable [OF assms(5) inv_started [OF assms(1-3)]] assms(4) by blast
  have "\<exists>r. silc_connauth_timeout E ca = Some r \<and> connauth_finished r \<and> ca_completed r = []" if t: "ca_timer ca"
  proof -
    obtain r where "silc_connauth_timeout E ca = Some r" "connauth_inv P init r" "connauth_finished r" "ca_aborted r"
      using connauth_inv_timeout [OF inv t assms(6)] assms(4,6) by blast
    then show ?thesis using inv_finishedD(1) [of P init r] by (simp add: inv_over_def)
  qed
  then show ?thesis using inv_unfinishedD(2) [OF inv] by blast
qed

section \<open>Both ends\<close>

lemma task_turn:
  assumes "fsm_at (ca_fsm ca) s (Suc n)"
  obtains ca1 where "silc_connauth_run_task E ca = connauth_run E ca1" "fsm_in (ca_fsm ca1) s n" "ca1 = ca\<lparr>ca_fsm := ca_fsm ca1\<rparr>"
  using at_run [OF assms] that [of "ca\<lparr>ca_fsm := silc_fsm_run 0 None (taken (Task_run 0) (ca_fsm ca))\<rparr>"]
  by (simp add: silc_connauth_run_task_def)

lemma over_fsm: "ca_over (ca\<lparr>ca_fsm := w\<rparr>) cs out r = ca_over ca cs out r" "ca_waits (ca\<lparr>ca_fsm := w\<rparr>) s n out r = ca_waits ca s n out r"
  by (simp_all add: ca_over_def ca_waits_def)

lemma initiator_first:
  assumes "connauth_started True ske secs ct method data i0" and "auth_fits method data" and "ske_ok ske"
    and "connauth_proof ske method data = Some d" and "length d < 65532" and "ce_send E SILC_PACKET_CONNECTION_AUTH"
  shows "\<exists>i1. silc_connauth_run_task E i0 = Some i1 \<and>
    ca_waits i0 st_initiator_result 0 [(SILC_PACKET_CONNECTION_AUTH, connauth_flags method, connauth_payload ct d)] i1"
proof -
  have fi: "True \<longrightarrow> auth_fits method data" using assms(2) by simp
  note i0 = started_facts [OF assms(1) fi]
  have big: "4 + length d < SILC_MAX_ALLOC" using assms(5) by (simp add: SILC_MAX_ALLOC_def)
  obtain j0 where j0: "silc_connauth_run_task E i0 = connauth_run E j0" "fsm_in (ca_fsm j0) st_initiator_start 0" "j0 = i0\<lparr>ca_fsm := ca_fsm j0\<rparr>"
    using i0(1) task_turn [of i0 st_initiator_start 0 E] by (auto simp: start_state_def)
  have j0f: "\<not> ca_aborted j0" "ca_ske j0 = ske" "ca_auth_method j0 = method" "ca_auth_data j0 = data" "ca_conn_type j0 = ct"
    using i0(3,6,10) by (subst j0(3), simp)+
  have "ske_ok (ca_ske j0)" "auth_fits (ca_auth_method j0) (ca_auth_data j0)" "connauth_proof (ca_ske j0) (ca_auth_method j0) (ca_auth_data j0) = Some d"
    using assms(2-4) by (simp_all add: j0f)
  from run_initiator_start [OF j0(2) j0f(1) this big assms(6), unfolded j0f] show ?thesis
    using j0(1) over_fsm(2) [of "ca_fsm j0" i0, folded j0(3)] by simp
qed

lemma responder_first:
  assumes "connauth_started False ske secs ct method data r0"
  shows "\<exists>r1. silc_connauth_run_task E r0 = Some r1 \<and> ca_waits r0 st_responder_authenticate 0 [] r1"
proof -
  have "False \<longrightarrow> auth_fits method data" by simp
  note r0 = started_facts [OF assms this]
  obtain k0 where k0: "silc_connauth_run_task E r0 = connauth_run E k0" "fsm_in (ca_fsm k0) st_responder_start 0" "k0 = r0\<lparr>ca_fsm := ca_fsm k0\<rparr>"
    using r0(1) task_turn [of r0 st_responder_start 0 E] by (auto simp: start_state_def)
  have "\<not> ca_aborted k0" using r0(6) by (subst k0(3)) simp
  from run_responder_start [OF k0(2) this, of E] show ?thesis
    using k0(1) over_fsm(2) [of "ca_fsm k0" r0, folded k0(3)] by simp
qed

text \<open>The turn after a packet.\<close>

lemma packet_turn:
  assumes "ca_waits c0 s 0 out c" and "\<not> ca_aborted c0" and "ca_completed c0 = []"
  obtains c2 where "silc_connauth_run_task E (silc_connauth_packet_receive p c) = connauth_run E c2" "fsm_in (ca_fsm c2) s 0"
    "\<not> ca_aborted c2" "ca_packet c2 = Pkt p" "ca_ske c2 = ca_ske c0" "ca_sent c2 = ca_sent c0 @ out" "ca_completed c2 = []"
proof -
  define c1 where "c1 = silc_connauth_packet_receive p c"
  have "fsm_at (ca_fsm c1) s (Suc 0)"
    using assms(1) at_continue [of "ca_fsm c" s 0] by (simp add: c1_def silc_connauth_packet_receive_def ca_waits_def)
  then obtain c2 where c2: "silc_connauth_run_task E c1 = connauth_run E c2" "fsm_in (ca_fsm c2) s 0" "c2 = c1\<lparr>ca_fsm := ca_fsm c2\<rparr>"
    by (rule task_turn)
  have "\<not> ca_aborted c2" "ca_packet c2 = Pkt p" "ca_ske c2 = ca_ske c0" "ca_sent c2 = ca_sent c0 @ out" "ca_completed c2 = []"
    using assms by (subst c2(3), simp add: c1_def silc_connauth_packet_receive_def ca_waits_def)+
  then show thesis using that c2(1,2) by (simp add: c1_def)
qed

text \<open>
  C11. An initiator and a responder. The initiator sends its proof, the passphrase, a signature or nothing; the responder
  receives this packet and answers, and the initiator receives the answer. Both complete, with the same result, and it is
  what the responder's configuration says about the connection type and the proof.
\<close>

theorem silc_connauth_agreement:
  assumes "connauth_started True ske secs ct method data i0" and "auth_fits method data" and "ske_ok ske"
    and "connauth_proof ske method data = Some d" and "length d < 65532" and "SILC_CONN_CLIENT \<le> ct" "ct \<le> SILC_CONN_ROUTER"
    and "connauth_started False ske' secs' ct' method' data' r0" and "ske_ok ske'" and "\<forall>t. ce_send E t" "\<forall>t. ce_send E' t" "env_ok E'"
    and b: "b = connauth_authorized E' ske' ct d" and answer: "answer = (if b then SILC_PACKET_SUCCESS else SILC_PACKET_FAILURE)"
    and p: "pk_type p = SILC_PACKET_CONNECTION_AUTH" "wf_buffer (pk_buffer p)" "sb_bytes (pk_buffer p) = connauth_payload ct d"
    and q: "pk_type q = answer"
  shows "\<exists>i1 r1 r2 i2. silc_connauth_run_task E i0 = Some i1 \<and> ca_sent i1 = [(pk_type p, connauth_flags method, sb_bytes (pk_buffer p))] \<and>
    silc_connauth_run_task E' r0 = Some r1 \<and> silc_connauth_run_task E' (silc_connauth_packet_receive p r1) = Some r2 \<and>
    ca_sent r2 = [(answer, 0, SILC_PUT32_MSB (if b then SILC_AUTH_OK else SILC_AUTH_FAILED))] \<and> ca_completed r2 = [b] \<and>
    silc_connauth_run_task E (silc_connauth_packet_receive q i1) = Some i2 \<and> ca_completed i2 = [b]"
proof -
  have fi: "True \<longrightarrow> auth_fits method data" and fr: "False \<longrightarrow> auth_fits method' data'" using assms(2) by simp_all
  note i0 = started_facts [OF assms(1) fi] note r0 = started_facts [OF assms(8) fr]
  obtain i1 where i1: "silc_connauth_run_task E i0 = Some i1"
    "ca_waits i0 st_initiator_result 0 [(SILC_PACKET_CONNECTION_AUTH, connauth_flags method, connauth_payload ct d)] i1"
    using initiator_first [OF assms(1-5)] assms(10) by blast
  obtain r1 where r1: "silc_connauth_run_task E' r0 = Some r1" "ca_waits r0 st_responder_authenticate 0 [] r1"
    using responder_first [OF assms(8)] by blast
  obtain s2 where s2: "silc_connauth_run_task E' (silc_connauth_packet_receive p r1) = connauth_run E' s2" "fsm_in (ca_fsm s2) st_responder_authenticate 0"
    "\<not> ca_aborted s2" "ca_packet s2 = Pkt p" "ca_ske s2 = ca_ske r0" "ca_sent s2 = ca_sent r0 @ []" "ca_completed s2 = []"
    using packet_turn [OF r1(2) r0(6,9)] by blast
  have ske: "ca_ske s2 = ske'" "ske_ok (ca_ske s2)" using assms(9) s2(5) r0(3) by simp_all
  have "connauth_accepts E' ske' p = b" using p assms(5-7) body_Some [of p ct d] by (simp add: accepts_body b)
  with run_authenticate [OF s2(2-4) p(2) ske(2) assms(12)] obtain r2 where r2: "connauth_run E' s2 = Some r2" "ca_over s2 [b] (responder_result E' b) r2"
    by (auto simp: ske(1) Let_def)
  obtain t2 where t2: "silc_connauth_run_task E (silc_connauth_packet_receive q i1) = connauth_run E t2" "fsm_in (ca_fsm t2) st_initiator_result 0"
    "\<not> ca_aborted t2" "ca_packet t2 = Pkt q" "ca_completed t2 = []"
    using packet_turn [OF i1(2) i0(6,9)] by blast
  from run_initiator_result [OF t2(2-4)] obtain i2 where i2: "connauth_run E t2 = Some i2" "ca_over t2 [pk_type q = SILC_PACKET_SUCCESS] [] i2" by blast
  have "(pk_type q = SILC_PACKET_SUCCESS) = b" using q answer types_differ by auto
  then have "ca_completed i2 = [b]" using i2(2) t2(5) by (simp add: ca_over_def)
  moreover have "ca_sent r2 = [(answer, 0, SILC_PUT32_MSB (if b then SILC_AUTH_OK else SILC_AUTH_FAILED))]" "ca_completed r2 = [b]"
    using r2(2) s2(6,7) r0(5) assms(11) by (auto simp: ca_over_def responder_result_def reply_def answer)
  moreover have "ca_sent i1 = [(pk_type p, connauth_flags method, sb_bytes (pk_buffer p))]" using i1(2) i0(5) p by (simp add: ca_waits_def)
  ultimately show ?thesis using i1(1) r1(1) r2(1) s2(1) i2(1) t2(1) by auto
qed

section \<open>The rules of the state machine library\<close>

text \<open>A state function that returns to the library has set the next state, or ends the machine.\<close>

lemma verify_fsm: "connauth_verify E ca ct d = Some (ca', st) \<Longrightarrow> st = SILC_FSM_ST_CONTINUE \<and> (\<exists>s. ca_fsm ca' = silc_fsm_next 0 s (ca_fsm ca))"
  by (auto simp: connauth_verify_def Let_def ca_next_def ca_packet_free_def split: option.splits prod.splits if_splits)

lemma authenticate_fsm:
  "silc_connauth_st_responder_authenticate E ca = Some (ca', st) \<Longrightarrow> st = SILC_FSM_ST_CONTINUE \<and> (\<exists>s. ca_fsm ca' = silc_fsm_next 0 s (ca_fsm ca))"
  by (auto simp: silc_connauth_st_responder_authenticate_def Let_def with_unformat_def ca_next_def ca_packet_free_def
      dest: verify_fsm split: packet_ptr.splits if_splits prod.splits list.splits unf_val.splits)

lemma call_fsm:
  assumes "connauth_call E ca = Some (ca', st)"
  shows "(st = SILC_FSM_ST_CONTINUE \<or> st = SILC_FSM_ST_WAIT) \<and> (\<exists>s. ca_fsm ca' = silc_fsm_next 0 s (ca_fsm ca)) \<or>
    st = SILC_FSM_ST_FINISH \<and> ca_fsm ca' = ca_fsm ca"
  using assms authenticate_fsm [of E ca ca' st]
  by (auto simp: connauth_call_def connauth_states Let_def ca_next_def ca_packet_free_def ca_send_def ca_leave_def ca_complete_def start_timeout_def
      split: option.splits if_splits prod.splits list.splits packet_ptr.splits)

lemma lone_waiting: "fsm_lone w \<Longrightarrow> \<not> waiting w f"
  by (simp add: fsm_lone_def waiting_def waiters_def)

lemma run_fsm:
  assumes "connauth_run E ca = Some r" and "fsm_in (ca_fsm ca) s n" and "fsm_reachable w0 (ca_fsm ca)"
  shows "fsm_reachable w0 (ca_fsm r)"
  using assms
proof (induction E ca arbitrary: s rule: connauth_run.induct)
  case (1 E ca)
  obtain ca' st where c: "connauth_call E ca = Some (ca', st)"
    using 1(2) by (subst (asm) connauth_run.simps) (auto split: option.splits)
  have na: "\<not> fw_aborted (ca_fsm ca)" using 1(3) by (simp add: fsm_stands_def fsm_lone_def)
  have "\<exists>s'. fsm_in (ca_fsm ca') s' n" using call_fsm [OF c] 1(3) in_next [OF 1(3)] by fastforce
  moreover have r: "fsm_reachable w0 (ca_fsm ca')"
    using call_fsm [OF c] fsm_reachable.more [OF 1(4) na fsm_step.next_state] 1(4) by auto
  ultimately obtain s' where i: "fsm_in (ca_fsm ca') s' n" by blast
  show ?case
  proof (cases "st = SILC_FSM_ST_CONTINUE")
    case True
    then have "connauth_run E ca' = Some r" using 1(2) c by (subst (asm) connauth_run.simps) simp
    then show ?thesis using 1(1) [OF c refl] True i r by blast
  next
    case False
    then have "r = ca'\<lparr>ca_fsm := run_return st (ca_fsm ca')\<rparr>" using 1(2) c by (subst (asm) connauth_run.simps) simp
    moreover have "fsm_step (ca_fsm ca') (run_return st (ca_fsm ca'))"
      using i lone_waiting [of "ca_fsm ca'" 0] by (intro fsm_step.return [of _ 0 None "[]"]) (auto simp: fsm_stands_def fsm_lone_def)
    ultimately show ?thesis using fsm_reachable.more [OF r] i by (simp add: fsm_stands_def fsm_lone_def)
  qed
qed

lemma step_fsm:
  assumes "connauth_step P ca ca'" and "connauth_inv P init ca" and "fsm_reachable w0 (ca_fsm ca)"
  shows "fsm_reachable w0 (ca_fsm ca')"
proof -
  have na: "\<not> fw_aborted (ca_fsm ca)" using assms(2) by (auto elim!: inv_cases simp: fsm_stands_def fsm_ended_def fsm_lone_def)
  note go = fsm_reachable.more [OF assms(3) na]
  have idle: "fw_stack (ca_fsm ca) = []" using assms(2) by (auto elim!: inv_cases simp: fsm_stands_def fsm_ended_def)
  have unfinished: "\<exists>s n. fsm_at (ca_fsm ca) s n" if "Task_run 0 \<in> set (fw_tasks (ca_fsm ca)) \<or> ca_timer ca \<or> ca_linked ca \<noteq> []"
    using assms(2) that by (auto elim!: inv_cases simp: fsm_ended_def inv_over_def split: if_splits)
  from assms(1) show ?thesis
  proof cases
    case (turn E)
    then obtain s n where at: "fsm_at (ca_fsm ca) s n" using unfinished by blast
    then obtain m where "n = Suc m" using turn(1) by (cases n) (auto simp: fsm_stands_def)
    then have "fsm_in (silc_fsm_run 0 None (taken (Task_run 0) (ca_fsm ca))) s m" using at at_run by blast
    moreover have "fsm_step (ca_fsm ca) (silc_fsm_run 0 None (taken (Task_run 0) (ca_fsm ca)))"
      using idle turn(1) by (intro fsm_step.dispatch [of _ "Task_run 0"]) (simp_all add: run_task_def)
    ultimately show ?thesis using turn(3) run_fsm go by (fastforce simp: silc_connauth_run_task_def)
  next
    case finish
    then have "fsm_step (ca_fsm ca) (silc_fsm_finish_fsm 0 (taken (Task_finish 0) (ca_fsm ca)))"
      using idle by (intro fsm_step.dispatch [of _ "Task_finish 0"]) (simp_all add: run_task_def)
    then show ?thesis using go finish(1) by (simp add: silc_connauth_finish_task_def)
  next
    case (timeout E)
    then obtain s n where at: "fsm_at (ca_fsm ca) s n" using unfinished by blast
    moreover have "fsm_step (ca_fsm ca) (silc_fsm_continue_sync 0 None (ca_fsm ca))"
      using at by (intro fsm_step.continue_sync) (simp_all add: fsm_stands_def fsm_lone_def)
    ultimately show ?thesis using timeout(3) run_fsm at_continue_sync go by (fastforce simp: silc_connauth_timeout_def)
  next
    case (packet p)
    then obtain s n where "fsm_at (ca_fsm ca) s n" using unfinished by fastforce
    then have "fsm_step (ca_fsm ca) (silc_fsm_continue 0 (ca_fsm ca))" by (intro fsm_step.continue) (simp add: fsm_stands_def)
    then show ?thesis using go packet(1) by (simp add: silc_connauth_packet_receive_def)
  next
    case abort
    then show ?thesis using assms(3) by (simp add: silc_connauth_abort_def)
  qed
qed

text \<open>
  C12. The protocol is a client of the state machine library that keeps its rules: all that happens to the machine of a context is
  a run of the library as \<open>fsm_step\<close> describes it, in which a machine is continued and run only before it has finished,
  and finishes while it waits for nothing. The machine is destroyed at most once, and only when the protocol is over.
\<close>

theorem silc_connauth_uses_fsm:
  assumes "connauth_started init ske secs ct method data ca0" and "init \<longrightarrow> auth_fits method data" and "ske_ok ske"
    and "\<forall>E. P E \<longrightarrow> env_ok E" and "connauth_reachable P ca0 ca"
  shows "fsm_reachable fsm_idle_world (ca_fsm ca) \<and> (fw_destroyed (ca_fsm ca) = [] \<or> fw_destroyed (ca_fsm ca) = [0] \<and> connauth_finished ca)"
proof -
  have w: "fsm_reachable fsm_idle_world (ca_fsm ca0)"
  proof -
    define wi where "wi = snd (silc_fsm_init 0 True fsm_idle_world)"
    have r: "fsm_reachable fsm_idle_world wi" unfolding wi_def
      by (rule fsm_reachable.more [OF fsm_reachable.here _ fsm_step.machine_init]) (simp add: fsm_idle_world_def)
    have na: "\<not> fw_aborted wi" by (simp add: wi_def silc_fsm_init_def fsm_idle_world_def upd_fsm_def)
    have "ca_fsm ca0 = silc_fsm_start 0 (start_state init) wi"
      using assms(1) by (auto simp: connauth_started_def silc_connauth_alloc_def silc_connauth_initiator_def silc_connauth_responder_def
          silc_connauth_start_def start_state_def wi_def split: if_splits)
    then show ?thesis using fsm_reachable.more [OF r na fsm_step.start] by simp
  qed
  have "connauth_inv P init ca \<and> fsm_reachable fsm_idle_world (ca_fsm ca)"
    using assms(5)
  proof (induction rule: connauth_reachable.induct)
    case here
    then show ?case using inv_started [OF assms(1-3)] w by blast
  next
    case (more ca ca')
    then show ?case using inv_connauth_step [of P ca ca' init] step_fsm [of P ca ca' init] assms(4) by blast
  qed
  then show ?thesis by (auto elim!: inv_cases simp: fsm_stands_def fsm_ended_def connauth_finished_def split: if_splits)
qed

section \<open>Examples\<close>

definition demo_ca_ske :: connauth_ske where
  "demo_ca_ske = \<lparr>sk_hash = [1, 2], sk_start_payload_copy = silc_buffer_set [3], sk_public_key = None\<rparr>"

definition demo_ca_env :: connauth_env where
  "demo_ca_env = \<lparr>ce_junk = (\<lambda>_. 0), ce_send = (\<lambda>_. True), ce_get_auth_data = (\<lambda>_. Some (Some [7, 8, 9], None))\<rparr>"

definition demo_ca :: "bool \<Rightarrow> silc_connauth" where
  "demo_ca init =
     (let ca = the (silc_connauth_alloc True (Some demo_ca_ske) 30)
      in if init then snd (silc_connauth_initiator 1 SILC_AUTH_PASSWORD (Auth_bytes [7, 8, 9]) ca) else silc_connauth_responder ca)"

definition demo_ca_packet :: "byte \<Rightarrow> bytes \<Rightarrow> silc_packet" where
  "demo_ca_packet type d = \<lparr>pk_buffer = silc_buffer_set d, pk_src_id = None, pk_src_id_len = 0, pk_src_id_type = 0, pk_dst_id = None,
     pk_dst_id_len = 0, pk_dst_id_type = 0, pk_type = type, pk_flags = 0\<rparr>"

lemma demo_started: "connauth_started init demo_ca_ske 30 1 SILC_AUTH_PASSWORD (Auth_bytes [7, 8, 9]) (demo_ca init)"
  by (simp add: connauth_started_def demo_ca_def silc_connauth_alloc_def silc_connauth_initiator_def)

lemma demo_ok: "ske_ok demo_ca_ske" "env_ok demo_ca_env" "auth_fits SILC_AUTH_PASSWORD (Auth_bytes d)"
  by (simp_all add: demo_ca_ske_def demo_ca_env_def ske_ok_def env_ok_def auth_fits_def connauth_signed_def SILC_AUTH_PASSWORD_def
      SILC_AUTH_PUBLIC_KEY_def SILC_MAX_ALLOC_def u32_max_def)

theorem silc_connauth_agreement_witness:
  "\<exists>i1 r1 r2 i2. silc_connauth_run_task demo_ca_env (demo_ca True) = Some i1 \<and> silc_connauth_run_task demo_ca_env (demo_ca False) = Some r1 \<and>
     silc_connauth_run_task demo_ca_env (silc_connauth_packet_receive (demo_ca_packet 17 [0, 7, 0, 1, 7, 8, 9]) r1) = Some r2 \<and> ca_completed r2 = [True] \<and>
     silc_connauth_run_task demo_ca_env (silc_connauth_packet_receive (demo_ca_packet 2 [0, 0, 0, 0]) i1) = Some i2 \<and> ca_completed i2 = [True]"
proof -
  have "connauth_authorized demo_ca_env demo_ca_ske 1 [7, 8, 9]" by (simp add: connauth_authorized_def demo_ca_env_def opt_bytes_def)
  moreover have "sb_bytes (pk_buffer (demo_ca_packet 17 [0, 7, 0, 1, 7, 8, 9])) = connauth_payload 1 [7, 8, 9]" "wf_buffer (pk_buffer (demo_ca_packet t [0, 7, 0, 1, 7, 8, 9]))" for t
    by (simp_all add: demo_ca_packet_def connauth_payload_def SILC_PUT16_MSB_def u32_max_def)
  ultimately show ?thesis
    using silc_connauth_agreement [OF demo_started demo_ok(3,1) _ _ _ _ demo_started demo_ok(1) _ _ demo_ok(2) refl refl, of "[7, 8, 9]" demo_ca_env
        "demo_ca_packet 17 [0, 7, 0, 1, 7, 8, 9]" "demo_ca_packet 2 [0, 0, 0, 0]"]
    by (auto simp: connauth_proof_def SILC_MAX_ALLOC_def SILC_CONN_CLIENT_def SILC_CONN_ROUTER_def demo_ca_env_def demo_ca_packet_def
        SILC_PACKET_CONNECTION_AUTH_def SILC_PACKET_SUCCESS_def)
qed

text \<open>A responder that received the right passphrase, after the two turns of its machine.\<close>

definition demo_ca_end :: silc_connauth where
  "demo_ca_end = the (silc_connauth_run_task demo_ca_env
     (silc_connauth_packet_receive (demo_ca_packet 17 [0, 7, 0, 1, 7, 8, 9]) (the (silc_connauth_run_task demo_ca_env (demo_ca False)))))"

lemma demo_exchange:
  obtains r1 where "silc_connauth_run_task demo_ca_env (demo_ca False) = Some r1" "ca_waits (demo_ca False) 4 0 [] r1"
    "silc_connauth_run_task demo_ca_env (silc_connauth_packet_receive (demo_ca_packet 17 [0, 7, 0, 1, 7, 8, 9]) r1) = Some demo_ca_end"
    "ca_completed demo_ca_end = [True]" "\<not> ca_aborted demo_ca_end" "connauth_finished demo_ca_end"
proof -
  let ?p = "demo_ca_packet 17 [0, 7, 0, 1, 7, 8, 9]"
  have "False \<longrightarrow> auth_fits SILC_AUTH_PASSWORD (Auth_bytes [7, 8, 9])" by simp
  note r0 = started_facts [OF demo_started [of False] this]
  obtain r1 where r1: "silc_connauth_run_task demo_ca_env (demo_ca False) = Some r1" "ca_waits (demo_ca False) 4 0 [] r1"
    using responder_first [OF demo_started] by blast
  obtain s2 where s2: "silc_connauth_run_task demo_ca_env (silc_connauth_packet_receive ?p r1) = connauth_run demo_ca_env s2" "fsm_in (ca_fsm s2) 4 0"
    "\<not> ca_aborted s2" "ca_packet s2 = Pkt ?p" "ca_ske s2 = ca_ske (demo_ca False)" "ca_completed s2 = []"
    using packet_turn [OF r1(2) r0(6,9)] by blast
  have w: "wf_buffer (pk_buffer ?p)" "ske_ok (ca_ske s2)" using demo_ok(1) r0(3) s2(5) by (simp_all add: demo_ca_packet_def u32_max_def)
  have "connauth_body ?p = Some (1, [7, 8, 9])"
    by (simp add: body_Some demo_ca_packet_def connauth_payload_def SILC_PUT16_MSB_def SILC_PACKET_CONNECTION_AUTH_def SILC_CONN_CLIENT_def
        SILC_CONN_ROUTER_def u32_max_def)
  then have "connauth_accepts demo_ca_env (ca_ske s2) ?p" by (simp add: accepts_body connauth_authorized_def demo_ca_env_def opt_bytes_def)
  with run_authenticate [OF s2(2-4) w demo_ok(2)] obtain r2 out where r2: "connauth_run demo_ca_env s2 = Some r2" "ca_over s2 [True] out r2"
    by (auto simp: Let_def)
  then have "r2 = demo_ca_end" using r1(1) s2(1) by (simp add: demo_ca_end_def)
  then show thesis using that [OF r1] r2 s2 by (auto simp: ca_over_def connauth_finished_def fsm_ended_def)
qed

lemma demo_reachable: "connauth_reachable (\<lambda>E. E = demo_ca_env) (demo_ca False) demo_ca_end"
proof -
  obtain r1 where r1: "silc_connauth_run_task demo_ca_env (demo_ca False) = Some r1" "ca_waits (demo_ca False) 4 0 [] r1"
    "silc_connauth_run_task demo_ca_env (silc_connauth_packet_receive (demo_ca_packet 17 [0, 7, 0, 1, 7, 8, 9]) r1) = Some demo_ca_end"
    by (rule demo_exchange)
  let ?p = "demo_ca_packet 17 [0, 7, 0, 1, 7, 8, 9]" and ?P = "\<lambda>E. E = demo_ca_env"
  have "False \<longrightarrow> auth_fits SILC_AUTH_PASSWORD (Auth_bytes [7, 8, 9])" by simp
  note r0 = started_facts [OF demo_started [of False] this]
  have "connauth_step ?P (demo_ca False) r1" using r0(1) r1(1) by (intro connauth_step.turn) (auto simp: fsm_stands_def)
  moreover have "connauth_step ?P r1 (silc_connauth_packet_receive ?p r1)"
    using r1(2) r0(2) by (intro connauth_step.packet)
      (simp_all add: ca_waits_def inv_waiting_def wait_types_def demo_ca_packet_def SILC_PACKET_CONNECTION_AUTH_def u32_max_def)
  moreover have "fsm_at (ca_fsm (silc_connauth_packet_receive ?p r1)) 4 (Suc 0)"
    using r1(2) at_continue by (simp add: ca_waits_def silc_connauth_packet_receive_def)
  then have "connauth_step ?P (silc_connauth_packet_receive ?p r1) demo_ca_end"
    using r1(3) by (intro connauth_step.turn) (auto simp: fsm_stands_def)
  ultimately show ?thesis by (blast intro: connauth_reachable.intros)
qed

lemma demo_assumptions: "False \<longrightarrow> auth_fits m d" "\<forall>E. E = demo_ca_env \<longrightarrow> env_ok E"
  using demo_ok by simp_all


theorem silc_connauth_authentic_witness:
  "\<exists>p\<in>set (ca_received demo_ca_end). connauth_accepts demo_ca_env (ca_ske demo_ca_end) p"
proof -
  have "True \<in> set (ca_completed demo_ca_end)" by (rule demo_exchange) simp
  from silc_connauth_authentic [OF demo_started demo_assumptions(1) demo_ok(1) demo_assumptions(2) demo_reachable this] show ?thesis by simp
qed

theorem silc_connauth_timeout_ends_witness:
  "\<exists>r1 r. silc_connauth_run_task demo_ca_env (demo_ca False) = Some r1 \<and> silc_connauth_timeout demo_ca_env r1 = Some r \<and> connauth_finished r \<and> ca_completed r = []"
proof -
  obtain r1 where r1: "silc_connauth_run_task demo_ca_env (demo_ca False) = Some r1" "ca_waits (demo_ca False) 4 0 [] r1" by (rule demo_exchange)
  note r0 = started_facts [OF demo_started [of False] demo_assumptions(1)]
  have "connauth_step (\<lambda>E. E = demo_ca_env) (demo_ca False) r1" using r0(1) r1(1) by (intro connauth_step.turn) (auto simp: fsm_stands_def)
  then have "connauth_reachable (\<lambda>E. E = demo_ca_env) (demo_ca False) r1" by (blast intro: connauth_reachable.intros)
  from silc_connauth_timeout_ends [OF demo_started demo_assumptions(1) demo_ok(1) demo_assumptions(2) this refl] show ?thesis
    using r1 r0(7) by (auto simp: ca_waits_def)
qed

theorem silc_connauth_uses_fsm_witness: "fsm_reachable fsm_idle_world (ca_fsm demo_ca_end)"
  using silc_connauth_uses_fsm [OF demo_started demo_assumptions(1) demo_ok(1) demo_assumptions(2) demo_reachable] by blast

text \<open>
  An initiator that is aborted, or whose time is out, while a packet has arrived does not give the packet back; the
  responder does.
\<close>

lemma silc_connauth_aborted_packet:
  assumes s: "fsm_in (ca_fsm ca) (wait_state init) n" and a: "ca_aborted ca" and p: "ca_packet ca = Pkt p"
  shows "\<exists>r. connauth_run E ca = Some r \<and> connauth_finished r \<and> ca_freed r = (if init then ca_freed ca else ca_freed ca + 1)"
proof -
  define ca' where "ca' = (if init then ca else ca_packet_free ca)"
  define st where "st = (if init then st_initiator_failure else st_responder_failure)"
  have c: "connauth_call E ca = ca_goto st ca'"
    using assms by (auto simp: connauth_call_def stands_state silc_connauth_st_initiator_result_def silc_connauth_st_responder_authenticate_def
        ca'_def st_def wait_state_def)
  have i: "fsm_in (ca_fsm (ca_next st ca')) st n" using s by (simp add: ca_effects ca'_def ca_packet_free_def in_next split: if_splits)
  have ab: "ca_aborted (ca_next st ca')" using a by (simp add: ca_effects ca'_def ca_packet_free_def)
  have f: "ca_freed (ca_next st ca') = (if init then ca_freed ca else ca_freed ca + 1)" by (simp add: ca_effects ca'_def ca_packet_free_def)
  have "connauth_call E (ca_next st ca') = Some (ca_leave (ca_next st ca'), SILC_FSM_ST_FINISH)"
    using ab by (auto simp: connauth_call_def st_def silc_connauth_st_initiator_failure_def silc_connauth_st_responder_failure_def)
  then show ?thesis unfolding run_goto [OF c]
    using in_finish [OF i] f by (subst connauth_run.simps) (auto simp: ca_leave_def connauth_finished_def fsm_ended_def)
qed

end
