(* ===== verification/Spec2Isabelle.thy ===== *)
theory Spec2Isabelle
  imports
    Silc_Command Silc_Notify Silc_Channel Silc_Idcache Silc_Ske_Keys Silc_Ske_Select
    Silc_Packet_Dispatch Silc_Packet_Safety Silc_Fsm_Steps Silc_Message_Codec Silc_Auth_Verify
    Silc_Strutil_Codec Silc_Connauth_Steps
begin

text \<open>
  This development models the core of the SILC client 1.1.11 (Secure Internet Live Conferencing) and proves
  it correct: the wire formats of the protocol, the packet engine with its ciphers and MACs, the key
  exchange's negotiation and key derivation, the message and authentication payloads, the containers of the
  client library, the runtime of its state machines, and the string conversions below them. The sources are
  under \<open>src/lib\<close>; file names below are relative to it.

  \<^bold>\<open>The program.\<close> A client opens a stream to a server and runs the SILC Key Exchange over it
  (\<open>silcske\<close>): the initiator proposes algorithms in a Start Payload, the responder selects, a Diffie-Hellman
  exchange with Key Exchange Payloads follows, and keys are derived from the secret. Then
  connection authentication (\<open>silcske/silcconnauth.c\<close>) proves who the client is with a passphrase or a signature; the
  Authentication Payload (\<open>silccore/silcauth.c\<close>) does the same inside commands. From the key exchange on packets
  (\<open>silccore/silcpacket.c\<close>) are padded, encrypted and authenticated with a running sequence number, and are
  dispatched to the parts of the client that asked for their types. Packets carry commands, notifies, channel
  data, identifiers and messages as payloads (\<open>silccore\<close>), all of which are written and read with the formatting
  language of \<open>silcutil/silcbuffmt.c\<close> on buffers of \<open>silcutil/silcbuffer.h\<close>. Clients, channels and servers are
  kept in ID caches (\<open>silcapputil/silcidcache.c\<close>) made of hash tables (\<open>silcutil/silchashtable.c\<close>). The
  protocols run as state machines on the scheduler (\<open>silcutil/silcfsm.c\<close>).

  \<^bold>\<open>How the code is modelled.\<close> A struct is a record, an enum or a tagged union is a datatype, and every
  function is a definition of the same name, with the loops as recursive functions next to it. Bytes are
  \<open>8 word\<close>, protocol fields are words of their width. Lengths, offsets and counters are natural numbers, and
  every place where C truncates or wraps them has \<open>add32\<close>, \<open>sub32\<close>, \<open>cast16\<close> or \<open>cast32\<close>. NULL is \<open>None\<close>, an
  error result is \<open>None\<close>, \<open>False\<close> or \<open>-1\<close> as in the source. The allocator refuses zero bytes and one gigabyte or
  more, as \<open>silcutil/silcmemory.c\<close> does. Memory that C leaves uninitialised is a parameter \<open>J\<close>, over which the
  theorems quantify. An object that is changed is passed and returned. Code that is not part of the program is a
  parameter: block ciphers, hash functions, public key operations, the random number generator, the stream under
  a packet stream, the locale. What is needed of it is a named hypothesis (\<open>block_cipher\<close>, \<open>hash_ok\<close>, \<open>hmac_ok\<close>,
  \<open>can_sign\<close> and so on), and each witness instantiates it with a concrete function.

  \<^bold>\<open>Shared theories.\<close>

  \<^item> \<open>Silc_Prelude\<close>: types, arithmetic of 32-bit lengths, the macros \<open>SILC_GET*\<close> and \<open>SILC_PUT*\<close>, the allocator,
    \<open>memcpy\<close>; the collections \<open>silc_bytes\<close>, \<open>silc_arith\<close> and \<open>silc_alloc\<close> that the later proofs use.
  \<^item> \<open>Silc_Buffer\<close> (\<open>silcbuffer.h\<close>): the buffer and its operations; all of them keep \<open>wf_buffer\<close>, whatever the
    arguments.
  \<^item> \<open>Silc_Buffmt\<close> (\<open>silcbuffmt.c\<close>): \<open>silc_buffer_format\<close> and \<open>silc_buffer_unformat\<close> as interpreters of parameter
    lists. Unformatting refines a parser on byte lists (\<open>parse_all\<close>), and reads back what formatting wrote.
  \<^item> \<open>Silc_Codec\<close>: the encoding and decoding idioms of the payload modules, and the contracts between an encoder
    and its parser as locales, \<open>payload_codec\<close> and \<open>canonical_codec\<close>, which the payload theories interpret.

  \<^bold>\<open>Payloads.\<close> For each of them there is a wire format as a function from values to bytes, that the encoder
  writes it, and which byte strings the parser accepts, in most cases exactly.

  \<^item> \<open>Silc_Id\<close> (\<open>silcid.c\<close>), \<open>Silc_Argument\<close> (\<open>silcargument.c\<close>), \<open>Silc_Command\<close> (\<open>silccommand.c\<close>), \<open>Silc_Notify\<close>
    (\<open>silcnotify.c\<close>), \<open>Silc_Channel\<close> (\<open>silcchannel.c\<close>).
  \<^item> \<open>Silc_Message\<close>, \<open>Silc_Message_Wire\<close>, \<open>Silc_Message_Codec\<close> (\<open>silcmessage.c\<close>): messages with padding, signature,
    initial vector, encryption and MAC; the round trip through both ends, refusal of what has no valid MAC, and
    the exact lengths.
  \<^item> \<open>Silc_Auth\<close>, \<open>Silc_Auth_Verify\<close> (\<open>silcauth.c\<close>): what verification accepts, and that it accepts what is
    generated.
  \<^item> \<open>Silc_Ske_Payload\<close> (\<open>silcske/payload.c\<close>) with \<open>Silc_Mpbin\<close> (\<open>silcmath/mpbin.c\<close>).

  \<^bold>\<open>Key exchange.\<close> \<open>Silc_Ske_Select\<close> (\<open>silcske.c\<close>, \<open>groups.c\<close>): assembling and selecting the security properties
  refines the rule that the first proposed algorithm that is also supported wins, for each of the lists, and a
  proposal that the library itself assembles is accepted. \<open>Silc_Ske_Keys\<close> (\<open>silcske.c\<close>): the hash of the exchange
  and the keys derived from the secret, as the protocol defines them.

  \<^bold>\<open>Packet engine.\<close> \<open>Silc_Cipher\<close> (\<open>silccipher.c\<close>, the modes of \<open>aes.c\<close>) and \<open>Silc_Hmac\<close> (\<open>silchmac.c\<close>): CBC and
  counter mode against reference definitions, in any pieces, and HMAC as RFC 2104. \<open>Silc_Packet\<close> is the model of
  \<open>silcpacket.c\<close>; \<open>Silc_Packet_Wire\<close>, \<open>Silc_Packet_Receive\<close> and \<open>Silc_Packet_Io\<close> show that what one end sends is
  delivered at the other end, complete and in order, in whatever portions the streams take and give the bytes;
  \<open>Silc_Packet_Safety\<close> what is refused for any input, \<open>Silc_Packet_Dispatch\<close> the order of the processors.

  \<^bold>\<open>Containers.\<close> \<open>Silc_Hashtable\<close> (\<open>silchashtable.c\<close>) with \<open>Silc_Hash\<close> (hash and comparison functions of
  \<open>silcutil.c\<close>): chained tables with duplicates, rehashing, and traversal in the presence of changes; the contract
  of a keyed multimap is the locale \<open>keyed_multimap\<close>. \<open>Silc_Idcache\<close> (\<open>silcidcache.c\<close>): the five tables of a cache
  refine a list of entries.

  \<^bold>\<open>State machines.\<close> \<open>Silc_Fsm\<close> (\<open>silcfsm.c\<close>) are machines, threads, events, timeouts and signals as operations on
  a world; \<open>Silc_Fsm_Inv\<close> is the invariant; \<open>Silc_Fsm_Steps\<close> the transition system of scheduler and users with its
  reachable worlds: no wakeup is lost and nothing that was freed is used, and a signal can always be served.

  \<^bold>\<open>Strings.\<close> \<open>Silc_Utf8\<close>, \<open>Silc_Utf8_Codec\<close> (\<open>silcutil/silcutf8.c\<close>): validity as the image of a reference encoding,
  round trips, and the bound of what is written. \<open>Silc_Strutil\<close>, \<open>Silc_Strutil_Codec\<close> (\<open>silcutil/silcstrutil.c\<close>): base
  64 and its round trip, splitting, comparison with wildcards.

  \<^bold>\<open>Connection authentication.\<close> \<open>Silc_Connauth\<close> (\<open>silcske/silcconnauth.c\<close>) are the state functions of initiator and
  responder, on a machine of \<open>Silc_Fsm\<close>; \<open>Silc_Connauth_Turns\<close> is what one turn does in each state, and which packets
  a responder accepts; \<open>Silc_Connauth_Steps\<close> the transition system with turns, packets, timeouts and aborts in any
  order: success is reported only for an accepted packet, nothing that is not there is used, completion is called at most
  once, both ends agree, and the rules of the state machine library are kept.

  \<^bold>\<open>Loops and bounds.\<close> All loops are total functions: most recurse on the remaining input, some on the length of
  the rest (with a lemma that it shrinks), so that no fuel is needed. The loop of the receiving side takes at least
  a header per turn. Hypotheses bound lengths where the source's 32-bit counters or the allocator would give up:
  \<open>length d < u32_max\<close> for received data, which holds for every C buffer, and the limit of the allocator for what is
  encoded.

  \<^bold>\<open>Not modelled.\<close> The memory stack \<open>SilcStack\<close> behind some functions, which is only another allocator; threads and
  locks; sockets, files, logging and configuration; the scheduler itself, for which any order of tasks is
  possible; cryptographic primitives and multiple precision mathematics, which are parameters or third-party
  code; ASN.1 and certificates; the client library's callbacks and the states of the key exchange
  around the modelled payloads, negotiation and key derivation; file transfer, key repository and vCards; stringprep, whose tables are third-party; and
  the irssi user interface. The functions that free memory are not modelled as such: values of the logic need
  no freeing.
\<close>

end
